(* ===== verification/Fsm.thy ===== *)
theory Fsm
  imports Prelude
begin

text \<open>
  The pure state machines of \<open>packages/domain/src\<close>: the job status graph
  (\<open>job/state-machine.ts\<close>), the campaign transition function
  (\<open>broadcast/state.ts\<close>) and the retry classifier (\<open>retry/classify.ts\<close>).
  Two locales state what they share: a machine whose terminal states are
  absorbing, and an event-driven machine that runs a list of events.
\<close>

section \<open>The shared contracts\<close>

fun walk :: "('s \<Rightarrow> 's \<Rightarrow> bool) \<Rightarrow> 's list \<Rightarrow> bool" where
  "walk edge [] = False"
| "walk edge [s] = True"
| "walk edge (s # t # ts) = (edge s t \<and> walk edge (t # ts))"

lemma walk_appendD: "walk edge (xs @ y # ys) \<Longrightarrow> walk edge (y # ys)"
  by (induction edge xs rule: walk.induct) (auto elim: walk.elims)

lemma walk_rtranclp: "walk edge p \<Longrightarrow> edge\<^sup>*\<^sup>* (hd p) (last p)"
  by (induction edge p rule: walk.induct) (auto intro: converse_rtranclp_into_rtranclp)

text \<open>
  The separation principle used for every statement of the form "no way from
  here to there except through that state": a region closed under the edges
  that do not enter \<open>gate\<close>.
\<close>

lemma walk_region:
  assumes "walk edge p" "hd p \<in> R" "\<And>s t. s \<in> R \<Longrightarrow> edge s t \<Longrightarrow> t = gate \<or> t \<in> R"
  shows "gate \<in> set p \<or> set p \<subseteq> R"
  using assms
proof (induction edge p rule: walk.induct)
  case (3 edge s t ts)
  then have "t = gate \<or> t \<in> R" by auto
  then show ?case using 3 by auto
qed auto

locale absorbing_fsm =
  fixes edge :: "'s \<Rightarrow> 's \<Rightarrow> bool"
    and terminal :: "'s \<Rightarrow> bool"
  assumes absorbing: "terminal s \<Longrightarrow> \<not> edge s t"
begin

lemma terminal_stuck: "edge\<^sup>*\<^sup>* s t \<Longrightarrow> terminal s \<Longrightarrow> t = s"
  by (induction rule: converse_rtranclp_induct) (auto dest: absorbing)

lemma walk_terminal: "walk edge (s # p) \<Longrightarrow> terminal s \<Longrightarrow> p = []"
  by (cases p) (auto dest: absorbing)

lemma walk_terminal_last:
  assumes "walk edge (xs @ s # ys)" "terminal s" shows "ys = []"
  using walk_terminal [OF walk_appendD [OF assms(1)] assms(2)] .

end

locale event_fsm =
  fixes next_state :: "'s \<Rightarrow> 'e \<Rightarrow> ('err, 's) result"
    and terminal :: "'s \<Rightarrow> bool"
  assumes refuses: "terminal s \<Longrightarrow> \<exists>err. next_state s e = Inl err"
begin

lemma no_ok_from_terminal: "terminal s \<Longrightarrow> next_state s e \<noteq> Inr t"
  using refuses by (metis sum.distinct(1))

end

fun run_events :: "('s \<Rightarrow> 'e \<Rightarrow> ('err, 's) result) \<Rightarrow> 's \<Rightarrow> 'e list \<Rightarrow> ('err, 's) result" where
  "run_events f s [] = Inr s"
| "run_events f s (e # es) = bindR (f s e) (\<lambda>t. run_events f t es)"

lemma run_events_append:
  "run_events f s (xs @ ys) = bindR (run_events f s xs) (\<lambda>t. run_events f t ys)"
  by (induction f s xs rule: run_events.induct) (auto simp: bindR_assoc)

sublocale event_fsm \<subseteq> absorbing_fsm "\<lambda>s t. \<exists>e. next_state s e = Inr t" terminal
  by unfold_locales (auto dest: no_ok_from_terminal)

context event_fsm begin

lemma run_from_terminal: "terminal s \<Longrightarrow> run_events next_state s es = Inr t \<Longrightarrow> es = [] \<and> t = s"
  by (cases es) (auto dest: no_ok_from_terminal)

lemma run_reaches:
  "run_events next_state s es = Inr t \<Longrightarrow> (\<lambda>s t. \<exists>e. next_state s e = Inr t)\<^sup>*\<^sup>* s t"
  by (induction es arbitrary: s) (auto intro: converse_rtranclp_into_rtranclp)

text \<open>An event every successful run out of the region must contain.\<close>

lemma run_needs_event:
  assumes "run_events next_state s es = Inr t" "s \<in> R" "t \<notin> R"
    and "\<And>s t e. s \<in> R \<Longrightarrow> next_state s e = Inr t \<Longrightarrow> t \<notin> R \<Longrightarrow> Q e"
  shows "\<exists>e\<in>set es. Q e"
  using assms(1,2)
proof (induction es arbitrary: s)
  case Nil
  then show ?case using assms(3) by simp
next
  case (Cons e es)
  then obtain u where u: "next_state s e = Inr u" "run_events next_state u es = Inr t" by auto
  show ?case
  proof (cases "u \<in> R")
    case True
    then show ?thesis using Cons.IH [OF u(2)] by auto
  next
    case False
    then show ?thesis using assms(4) u(1) Cons.prems by auto
  qed
qed

end

text \<open>
  A component whose steps write one status refines a transition graph when every step follows an edge of it
  or leaves the status alone: then the statuses of any history, repetitions removed, are a walk of the graph.
\<close>

fun run_states :: "('e \<Rightarrow> 's \<Rightarrow> 's) \<Rightarrow> 's \<Rightarrow> 'e list \<Rightarrow> 's list" where
  "run_states f s [] = [s]"
| "run_states f s (e # es) = s # run_states f (f e s) es"

lemma run_states_ne [simp]: "run_states f s es \<noteq> []"
  by (cases es) auto

lemma hd_run_states [simp]: "hd (run_states f s es) = s"
  by (cases es) auto

lemma last_run_states: "last (run_states f s es) = fold f es s"
  by (induction es arbitrary: s) auto

locale follows_graph =
  fixes step :: "'e \<Rightarrow> 's \<Rightarrow> 's"
    and allowed :: "'e \<Rightarrow> bool"
    and view :: "'s \<Rightarrow> 'a"
    and edge :: "'a \<Rightarrow> 'a \<Rightarrow> bool"
  assumes square: "allowed e \<Longrightarrow> view (step e s) = view s \<or> edge (view s) (view (step e s))"
begin

lemma history_is_walk: "list_all allowed es \<Longrightarrow> walk edge (remdups_adj (map view (run_states step s es)))"
proof (induction es arbitrary: s)
  case (Cons e es)
  let ?t = "map view (run_states step (step e s) es)"
  obtain ts where t: "?t = view (step e s) # ts"
    using hd_run_states [of step "step e s" es] by (cases "run_states step (step e s) es") auto
  have w: "walk edge (remdups_adj ?t)" using Cons by simp
  obtain us where us: "remdups_adj ?t = view (step e s) # us"
    unfolding t by (metis hd_remdups_adj list.collapse list.sel(1) neq_Nil_conv remdups_adj_Nil_iff)
  show ?case
  proof (cases "view (step e s) = view s")
    case True
    then show ?thesis using w by (simp add: t)
  next
    case False
    then have "edge (view s) (view (step e s))" using square [of e s] Cons.prems by auto
    then show ?thesis using False w us by (simp add: t)
  qed
qed simp

end

section \<open>Job status (job/state-machine.ts)\<close>

datatype job_status =
    Job_created | Job_queued | Job_processing | Job_sent | Job_failed | Job_cancelled
  | Job_needs_reconcile | Job_blocked_needs_review

definition JOB_STATUSES :: "job_status list" where
  "JOB_STATUSES = [Job_created, Job_queued, Job_processing, Job_sent, Job_failed, Job_cancelled,
     Job_needs_reconcile, Job_blocked_needs_review]"

fun JOB_TRANSITIONS :: "job_status \<Rightarrow> job_status list" where
  "JOB_TRANSITIONS Job_created = [Job_queued]"
| "JOB_TRANSITIONS Job_queued = [Job_processing, Job_cancelled]"
| "JOB_TRANSITIONS Job_processing =
     [Job_sent, Job_queued, Job_failed, Job_needs_reconcile, Job_cancelled]"
| "JOB_TRANSITIONS Job_sent = []"
| "JOB_TRANSITIONS Job_failed = []"
| "JOB_TRANSITIONS Job_cancelled = []"
| "JOB_TRANSITIONS Job_needs_reconcile = [Job_sent, Job_blocked_needs_review]"
| "JOB_TRANSITIONS Job_blocked_needs_review = [Job_queued, Job_cancelled]"

definition TERMINAL_JOB_STATES :: "job_status list" where
  "TERMINAL_JOB_STATES = filter (\<lambda>s. length (JOB_TRANSITIONS s) = 0) JOB_STATUSES"

definition canTransition :: "job_status \<Rightarrow> job_status \<Rightarrow> bool" where
  "canTransition from to \<longleftrightarrow> to \<in> set (JOB_TRANSITIONS from)"

lemma JOB_STATUSES_all: "s \<in> set JOB_STATUSES"
  by (cases s) (simp_all add: JOB_STATUSES_def)

lemma TERMINAL_iff: "s \<in> set TERMINAL_JOB_STATES \<longleftrightarrow> JOB_TRANSITIONS s = []"
  by (simp add: TERMINAL_JOB_STATES_def JOB_STATUSES_all)

interpretation job: absorbing_fsm canTransition "\<lambda>s. s \<in> set TERMINAL_JOB_STATES"
  by unfold_locales (simp add: TERMINAL_iff canTransition_def)

lemma canTransition_cases [elim]:
  assumes "canTransition s t"
  obtains "s = Job_created" "t = Job_queued"
  | "s = Job_queued" "t = Job_processing \<or> t = Job_cancelled"
  | "s = Job_processing" "t \<in> {Job_sent, Job_queued, Job_failed, Job_needs_reconcile, Job_cancelled}"
  | "s = Job_needs_reconcile" "t = Job_sent \<or> t = Job_blocked_needs_review"
  | "s = Job_blocked_needs_review" "t = Job_queued \<or> t = Job_cancelled"
  using assms by (cases s) (auto simp: canTransition_def)

text \<open>A job history is a walk of the graph.\<close>

abbreviation job_history :: "job_status list \<Rightarrow> bool" where
  "job_history \<equiv> walk canTransition"

section \<open>Campaign status (broadcast/state.ts)\<close>

datatype campaign_status =
    Camp_draft | Camp_scheduled | Camp_snapshotting | Camp_expanding | Camp_running
  | Camp_paused | Camp_completed | Camp_cancelled | Camp_failed

datatype campaign_event =
    Ev_schedule | Ev_start | Ev_snapshot_done | Ev_expand_done | Ev_pause | Ev_resume
  | Ev_cancel | Ev_complete | Ev_fail

datatype campaign_error = IllegalCampaignTransition campaign_status campaign_event

definition CLAIMABLE_CAMPAIGN_STATUSES :: "campaign_status list" where
  "CLAIMABLE_CAMPAIGN_STATUSES = [Camp_running, Camp_expanding]"

definition isTerminalCampaignStatus :: "campaign_status \<Rightarrow> bool" where
  "isTerminalCampaignStatus s \<longleftrightarrow> s \<in> set [Camp_completed, Camp_cancelled, Camp_failed]"

text \<open>\<open>ctx?.expansionComplete\<close> is an optional Boolean; \<open>None\<close> is a missing context or field.\<close>

definition nextCampaignState ::
  "campaign_status \<Rightarrow> campaign_event \<Rightarrow> bool option \<Rightarrow> (campaign_error, campaign_status) result" where
  "nextCampaignState current event expansionComplete =
    (let illegal = Err (IllegalCampaignTransition current event) in
     if isTerminalCampaignStatus current then illegal
     else (case event of
       Ev_schedule \<Rightarrow> if current = Camp_draft then Ok Camp_scheduled else illegal
     | Ev_start \<Rightarrow>
         if current = Camp_draft \<or> current = Camp_scheduled then Ok Camp_snapshotting else illegal
     | Ev_snapshot_done \<Rightarrow> if current = Camp_snapshotting then Ok Camp_expanding else illegal
     | Ev_expand_done \<Rightarrow> if current = Camp_expanding then Ok Camp_running else illegal
     | Ev_pause \<Rightarrow>
         if current = Camp_running \<or> current = Camp_expanding then Ok Camp_paused else illegal
     | Ev_resume \<Rightarrow>
         if current = Camp_paused
         then (case expansionComplete of
                 None \<Rightarrow> illegal
               | Some done \<Rightarrow> Ok (if done then Camp_running else Camp_expanding))
         else illegal
     | Ev_cancel \<Rightarrow>
         if current \<in> {Camp_draft, Camp_scheduled, Camp_snapshotting, Camp_expanding,
                       Camp_running, Camp_paused}
         then Ok Camp_cancelled else illegal
     | Ev_complete \<Rightarrow> if current = Camp_running then Ok Camp_completed else illegal
     | Ev_fail \<Rightarrow>
         if current = Camp_snapshotting \<or> current = Camp_expanding then Ok Camp_failed else illegal))"

abbreviation campaign_step ::
  "campaign_status \<Rightarrow> campaign_event \<times> bool option \<Rightarrow> (campaign_error, campaign_status) result" where
  "campaign_step s ev \<equiv> nextCampaignState s (fst ev) (snd ev)"

interpretation campaign: event_fsm campaign_step isTerminalCampaignStatus
  by unfold_locales (simp add: nextCampaignState_def)

text \<open>The accepted events, state by state.\<close>

lemma campaign_step_Ok:
  "nextCampaignState s e c = Inr t \<longleftrightarrow>
     (s, e, t) \<in> {(Camp_draft, Ev_schedule, Camp_scheduled), (Camp_draft, Ev_start, Camp_snapshotting),
        (Camp_scheduled, Ev_start, Camp_snapshotting), (Camp_snapshotting, Ev_snapshot_done, Camp_expanding),
        (Camp_expanding, Ev_expand_done, Camp_running), (Camp_running, Ev_pause, Camp_paused),
        (Camp_expanding, Ev_pause, Camp_paused), (Camp_running, Ev_complete, Camp_completed),
        (Camp_snapshotting, Ev_fail, Camp_failed), (Camp_expanding, Ev_fail, Camp_failed)}
     \<or> (e = Ev_resume \<and> s = Camp_paused \<and>
        (c = Some True \<and> t = Camp_running \<or> c = Some False \<and> t = Camp_expanding))
     \<or> (e = Ev_cancel \<and> \<not> isTerminalCampaignStatus s \<and> t = Camp_cancelled)"
  by (cases e; cases s) (auto simp: nextCampaignState_def isTerminalCampaignStatus_def split: option.splits)

lemma campaign_step_error:
  "nextCampaignState s e c = Inl err \<Longrightarrow> err = IllegalCampaignTransition s e"
  by (cases e) (auto simp: nextCampaignState_def Let_def split: if_splits option.splits)

section \<open>Retry classification (retry/classify.ts)\<close>

datatype retry_class = RETRY_BACKOFF | PAUSE_INSTANCE | FAIL_PERMANENT | RECONCILE

record provider_error_like =
  pe_code :: "string option"
  pe_category :: "string option"

definition retry_class_entries :: "(string \<times> retry_class) list" where
  "retry_class_entries =
    [(''transient'', RETRY_BACKOFF), (''not_connected'', RETRY_BACKOFF),
     (''rate_limited'', RETRY_BACKOFF), (''invalid_recipient'', FAIL_PERMANENT),
     (''invalid_payload'', FAIL_PERMANENT), (''group_forbidden'', FAIL_PERMANENT),
     (''restricted'', PAUSE_INSTANCE), (''unknown'', PAUSE_INSTANCE)]"

definition RETRY_CLASS_BY_CATEGORY :: "string \<rightharpoonup> retry_class" where
  "RETRY_CLASS_BY_CATEGORY = map_of retry_class_entries"

definition TERMINAL_CATEGORIES :: "string list" where
  "TERMINAL_CATEGORIES = map fst (filter (\<lambda>(_, c). c = FAIL_PERMANENT) retry_class_entries)"

definition isTerminalCategory :: "string option \<Rightarrow> bool" where
  "isTerminalCategory category = (case category of None \<Rightarrow> False | Some c \<Rightarrow> c \<in> set TERMINAL_CATEGORIES)"

definition classify :: "provider_error_like \<Rightarrow> (string \<rightharpoonup> retry_class) \<Rightarrow> retry_class" where
  "classify err table =
    (if pe_category err = Some ''restricted'' \<or> pe_category err = Some ''unknown'' then PAUSE_INSTANCE
     else (case pe_category err of
       None \<Rightarrow> PAUSE_INSTANCE
     | Some category \<Rightarrow> (case table category of Some c \<Rightarrow> c | None \<Rightarrow> PAUSE_INSTANCE)))"

lemma retry_entries_distinct: "distinct (map fst retry_class_entries)"
  by code_simp

lemma retry_table_iff: "RETRY_CLASS_BY_CATEGORY c = Some k \<longleftrightarrow> (c, k) \<in> set retry_class_entries"
  unfolding RETRY_CLASS_BY_CATEGORY_def using retry_entries_distinct by simp

lemma TERMINAL_CATEGORIES_iff: "c \<in> set TERMINAL_CATEGORIES \<longleftrightarrow> RETRY_CLASS_BY_CATEGORY c = Some FAIL_PERMANENT"
  unfolding TERMINAL_CATEGORIES_def retry_table_iff by force

lemma retry_table_hard_pause:
  "RETRY_CLASS_BY_CATEGORY ''restricted'' = Some PAUSE_INSTANCE"
  "RETRY_CLASS_BY_CATEGORY ''unknown'' = Some PAUSE_INSTANCE"
  by code_simp+

lemma retry_table_no_reconcile: "RETRY_CLASS_BY_CATEGORY c \<noteq> Some RECONCILE"
  unfolding retry_table_iff by (simp add: retry_class_entries_def)

section \<open>Properties\<close>

text \<open>A job can only have been sent from a claim: every history of a job that starts
  \<open>created\<close> and ends \<open>sent\<close> passes through \<open>queued\<close> and then \<open>processing\<close>, and nothing
  happens to the job after it was first \<open>sent\<close>.\<close>

theorem job_sent_needs_claim:
  assumes "job_history (Job_created # p)" "last (Job_created # p) = Job_sent"
  shows "Job_queued \<in> set p \<and> Job_processing \<in> set p \<and>
         (\<forall>xs ys. p = xs @ Job_sent # ys \<longrightarrow> ys = [])"
proof (intro conjI allI impI)
  have "Job_queued \<in> set (Job_created # p) \<or> set (Job_created # p) \<subseteq> {Job_created}"
    by (rule walk_region [OF assms(1)]) auto
  then show "Job_queued \<in> set p" using assms(2) by (auto split: if_splits dest: last_in_set)
  have "Job_processing \<in> set (Job_created # p) \<or>
        set (Job_created # p) \<subseteq> {Job_created, Job_queued, Job_cancelled}"
    by (rule walk_region [OF assms(1)]) auto
  then show "Job_processing \<in> set p" using assms(2) by (auto split: if_splits dest: last_in_set)
  fix xs ys assume "p = xs @ Job_sent # ys"
  then show "ys = []"
    using job.walk_terminal_last [of "Job_created # xs" Job_sent ys] assms(1) by (simp add: TERMINAL_iff)
qed

lemma job_sent_needs_claim_witness:
  "Job_queued \<in> set [Job_queued, Job_processing, Job_needs_reconcile, Job_sent]"
  using job_sent_needs_claim [of "[Job_queued, Job_processing, Job_needs_reconcile, Job_sent]"]
  by (simp add: canTransition_def)

text \<open>No silent double send: between two claims of the same job there is always a visible
  requeue, and a job parked in \<open>needs_reconcile\<close> comes back to \<open>queued\<close> only through
  \<open>blocked_needs_review\<close>, the state only a user leaves.\<close>

theorem job_requeue_is_visible:
  assumes "job_history p" "length p > 1"
  shows "(hd p = Job_processing \<and> last p = Job_processing \<longrightarrow> Job_queued \<in> set p) \<and>
         (hd p = Job_needs_reconcile \<and> last p = Job_queued \<longrightarrow> Job_blocked_needs_review \<in> set p)"
proof (rule conjI)
  obtain s q where p: "p = s # q" "q \<noteq> []" using assms(2) by (cases p) auto
  then have q: "walk canTransition q" "canTransition s (hd q)" using assms(1) by (cases q; auto)+
  show "hd p = Job_processing \<and> last p = Job_processing \<longrightarrow> Job_queued \<in> set p"
  proof
    assume ends: "hd p = Job_processing \<and> last p = Job_processing"
    show "Job_queued \<in> set p"
    proof (cases "hd q = Job_queued")
      case True
      then show ?thesis using p by (cases q) auto
    next
      case False
      have "Job_queued \<in> set q \<or> set q \<subseteq> - {Job_processing, Job_queued, Job_created}"
        by (rule walk_region [OF q(1)]) (use q(2) ends p False in auto)
      moreover have "Job_processing \<in> set q" using ends p by (metis last_ConsR last_in_set)
      ultimately show ?thesis using p by auto
    qed
  qed
  show "hd p = Job_needs_reconcile \<and> last p = Job_queued \<longrightarrow> Job_blocked_needs_review \<in> set p"
  proof
    assume ends: "hd p = Job_needs_reconcile \<and> last p = Job_queued"
    have "Job_blocked_needs_review \<in> set p \<or> set p \<subseteq> {Job_needs_reconcile, Job_sent}"
      by (rule walk_region [OF assms(1)]) (use ends in auto)
    moreover have "Job_queued \<in> set p" using ends p by (metis last_in_set list.distinct(1))
    ultimately show "Job_blocked_needs_review \<in> set p" by auto
  qed
qed

lemma job_requeue_is_visible_witness:
  "Job_queued \<in> set [Job_processing, Job_queued, Job_processing] \<and>
   Job_blocked_needs_review \<in> set [Job_needs_reconcile, Job_blocked_needs_review, Job_queued]"
  using job_requeue_is_visible [of "[Job_processing, Job_queued, Job_processing]"]
    job_requeue_is_visible [of "[Job_needs_reconcile, Job_blocked_needs_review, Job_queued]"]
  by (simp add: canTransition_def)

text \<open>The absorbing campaign states refuse every event with the error naming the state and the
  event, and a campaign's jobs become claimable only after it was started and its recipient
  snapshot finished.\<close>

theorem campaign_claimable_after_snapshot:
  assumes "run_events campaign_step Camp_draft es = Inr t"
  shows "(isTerminalCampaignStatus t \<longrightarrow>
            (\<forall>e c. nextCampaignState t e c = Inl (IllegalCampaignTransition t e))) \<and>
         (t \<in> set CLAIMABLE_CAMPAIGN_STATUSES \<or> t = Camp_completed \<longrightarrow>
            (\<exists>ev\<in>set es. fst ev = Ev_start) \<and> (\<exists>ev\<in>set es. fst ev = Ev_snapshot_done))"
proof (intro conjI impI allI)
  show "nextCampaignState t e c = Inl (IllegalCampaignTransition t e)"
    if "isTerminalCampaignStatus t" for e c
    using that by (simp add: nextCampaignState_def)
next
  assume t: "t \<in> set CLAIMABLE_CAMPAIGN_STATUSES \<or> t = Camp_completed"
  show "\<exists>ev\<in>set es. fst ev = Ev_start"
    by (rule campaign.run_needs_event [OF assms, where R = "{Camp_draft, Camp_scheduled, Camp_cancelled}"])
       (use t in \<open>auto simp: CLAIMABLE_CAMPAIGN_STATUSES_def campaign_step_Ok isTerminalCampaignStatus_def\<close>)
  show "\<exists>ev\<in>set es. fst ev = Ev_snapshot_done"
    by (rule campaign.run_needs_event [OF assms,
          where R = "{Camp_draft, Camp_scheduled, Camp_snapshotting, Camp_cancelled, Camp_failed}"])
       (use t in \<open>auto simp: CLAIMABLE_CAMPAIGN_STATUSES_def campaign_step_Ok isTerminalCampaignStatus_def\<close>)
qed

lemma campaign_claimable_after_snapshot_witness:
  "\<exists>ev\<in>set [(Ev_schedule, None), (Ev_start, None), (Ev_snapshot_done, None), (Ev_pause, None),
            (Ev_resume, Some False)]. fst ev = Ev_start"
  using campaign_claimable_after_snapshot
    [of "[(Ev_schedule, None), (Ev_start, None), (Ev_snapshot_done, None), (Ev_pause, None),
          (Ev_resume, Some False)]" Camp_expanding]
  by (simp add: nextCampaignState_def isTerminalCampaignStatus_def CLAIMABLE_CAMPAIGN_STATUSES_def)

text \<open>Retry classification is fail-safe: whatever category table a caller injects, a
  \<open>restricted\<close>, \<open>unknown\<close>, missing or unlisted category pauses the instance, a listed one gets
  exactly its table entry, and with the default table the terminal categories are exactly the
  permanently failing ones.\<close>

theorem classify_fail_safe:
  "classify err table =
     (case pe_category err of
        None \<Rightarrow> PAUSE_INSTANCE
      | Some c \<Rightarrow> if c = ''restricted'' \<or> c = ''unknown'' \<or> table c = None then PAUSE_INSTANCE
                  else the (table c)) \<and>
   (classify err RETRY_CLASS_BY_CATEGORY = FAIL_PERMANENT \<longleftrightarrow> isTerminalCategory (pe_category err)) \<and>
   classify err RETRY_CLASS_BY_CATEGORY \<noteq> RECONCILE"
  using retry_table_no_reconcile [of "the (pe_category err)"]
  by (auto simp: classify_def isTerminalCategory_def TERMINAL_CATEGORIES_iff retry_table_hard_pause
      simp del: of_char_of split: option.splits)

end
