(* ===== verification/Lease_Store.thy ===== *)
theory Lease_Store
  imports Prelude
begin

text \<open>
  The two stores of a session lease. Postgres: the table
  \<open>instance_lease_state\<close> with the statements of \<open>db/queries/lease-*.sql\<close> and the
  thin repository \<open>engine/lease/lease-state-repo.ts\<close>; it is the fence authority.
  Redis: keys with an expiry and the four Lua scripts of
  \<open>engine/lease/scripts\<close> behind \<open>engine/lease/lease-redis.ts\<close>.
  Times are integer milliseconds; every statement takes its \<open>now()\<close>.
\<close>

section \<open>Postgres: instance_lease_state\<close>

record lease_row =
  lr_client :: string
  lr_fence :: nat
  lr_owner :: "string option"
  lr_seen :: int
  lr_released :: "int option"

type_synonym lease_table = "string \<rightharpoonup> lease_row"

text \<open>The predicate every fence-guarded engine write carries.\<close>

definition holds_lease :: "lease_table \<Rightarrow> string \<Rightarrow> string \<Rightarrow> nat \<Rightarrow> string \<Rightarrow> bool" where
  "holds_lease tbl inst client fence worker \<longleftrightarrow>
    (case tbl inst of None \<Rightarrow> False
     | Some r \<Rightarrow> lr_client r = client \<and> lr_fence r = fence \<and> lr_owner r = Some worker)"

text \<open>\<open>lease-mint-read-released.sql\<close>: the previous release time and owner, if a row is visible.\<close>

definition lease_mint_read_released ::
  "lease_table \<Rightarrow> string \<Rightarrow> string \<Rightarrow> (int option \<times> string option) option" where
  "lease_mint_read_released tbl inst client =
    (case tbl inst of None \<Rightarrow> None
     | Some r \<Rightarrow> if lr_client r = client then Some (lr_released r, lr_owner r) else None)"

text \<open>\<open>lease-mint-fence.sql\<close>: the upsert; \<open>None\<close> is "no row returned".\<close>

definition lease_mint_fence ::
  "int \<Rightarrow> string \<Rightarrow> string \<Rightarrow> string \<Rightarrow> lease_table \<Rightarrow> nat option \<times> lease_table" where
  "lease_mint_fence now inst client worker tbl =
    (case tbl inst of
       None \<Rightarrow> (Some 1, tbl(inst \<mapsto> \<lparr>lr_client = client, lr_fence = 1, lr_owner = Some worker,
                                    lr_seen = now, lr_released = None\<rparr>))
     | Some r \<Rightarrow>
         if lr_client r = client
         then (Some (lr_fence r + 1),
               tbl(inst \<mapsto> r\<lparr>lr_fence := lr_fence r + 1, lr_owner := Some worker,
                            lr_seen := now, lr_released := None\<rparr>))
         else (None, tbl))"

text \<open>\<open>lease-renew-batch.sql\<close>: one statement over every held lease; the ids it returns.\<close>

definition lease_renew_batch ::
  "int \<Rightarrow> string \<Rightarrow> (string \<times> nat) list \<Rightarrow> lease_table \<Rightarrow> string set \<times> lease_table" where
  "lease_renew_batch now worker leases tbl =
    (let hit = (\<lambda>inst r. (\<exists>f \<in> set (map snd (filter (\<lambda>p. fst p = inst) leases)). lr_fence r = f)
                         \<and> lr_owner r = Some worker)
     in ({inst \<in> set (map fst leases). \<exists>r. tbl inst = Some r \<and> hit inst r},
         \<lambda>inst. case tbl inst of None \<Rightarrow> None
           | Some r \<Rightarrow> Some (if hit inst r then r\<lparr>lr_seen := now\<rparr> else r)))"

definition lease_release ::
  "int \<Rightarrow> string \<Rightarrow> string \<Rightarrow> nat \<Rightarrow> string \<Rightarrow> lease_table \<Rightarrow> bool \<times> lease_table" where
  "lease_release now inst client fence worker tbl =
    (if holds_lease tbl inst client fence worker
     then (True, tbl(inst \<mapsto> (the (tbl inst))\<lparr>lr_owner := None, lr_released := Some now\<rparr>))
     else (False, tbl))"

subsection \<open>lease-state-repo.ts\<close>

datatype mint_error = Mint_no_row string

record mint_result =
  mr_fence :: nat
  mr_prevReleasedAt :: "int option"
  mr_prevOwnerWorkerId :: "string option"

definition mintFence ::
  "int \<Rightarrow> string \<Rightarrow> string \<Rightarrow> string \<Rightarrow> lease_table \<Rightarrow> (mint_error, mint_result \<times> lease_table) result" where
  "mintFence now client inst worker tbl =
    (let prev = lease_mint_read_released tbl inst client;
         prevReleasedAt = (case prev of None \<Rightarrow> None | Some (rel, _) \<Rightarrow> rel);
         prevOwner = (case prev of None \<Rightarrow> None | Some (_, own) \<Rightarrow> own)
     in case lease_mint_fence now inst client worker tbl of
          (None, _) \<Rightarrow> Err (Mint_no_row inst)
        | (Some f, tbl') \<Rightarrow>
            Ok (\<lparr>mr_fence = f, mr_prevReleasedAt = prevReleasedAt, mr_prevOwnerWorkerId = prevOwner\<rparr>, tbl'))"

text \<open>\<open>renewBatch\<close>: \<open>None\<close> is \<open>ok: false\<close> (the statement itself failed to run).\<close>

definition pgRenewBatch ::
  "bool \<Rightarrow> int \<Rightarrow> string \<Rightarrow> (string \<times> nat) list \<Rightarrow> lease_table \<Rightarrow> string set option \<times> lease_table" where
  "pgRenewBatch pg_up now worker leases tbl =
    (if leases = [] then (Some {}, tbl)
     else if \<not> pg_up then (None, tbl)
     else (let (renewed, tbl') = lease_renew_batch now worker leases tbl in (Some renewed, tbl')))"

lemma holds_lease_iff:
  "holds_lease tbl inst client fence worker \<longleftrightarrow>
    (\<exists>r. tbl inst = Some r \<and> lr_client r = client \<and> lr_fence r = fence \<and> lr_owner r = Some worker)"
  by (auto simp: holds_lease_def split: option.splits)

subsection \<open>Any history of lease statements\<close>

text \<open>The statements that change the table, from any worker, in any order.\<close>

datatype lease_op =
    Mint string string string            \<comment> \<open>client, instance, worker\<close>
  | Renew string "(string \<times> nat) list"   \<comment> \<open>worker, leases\<close>
  | Release string string nat string     \<comment> \<open>client, instance, fence, worker\<close>

fun lease_op_step :: "lease_table \<Rightarrow> int \<times> lease_op \<Rightarrow> lease_table" where
  "lease_op_step tbl (now, Mint client inst worker) = snd (lease_mint_fence now inst client worker tbl)"
| "lease_op_step tbl (now, Renew worker leases) = snd (lease_renew_batch now worker leases tbl)"
| "lease_op_step tbl (now, Release client inst fence worker) =
     snd (lease_release now inst client fence worker tbl)"

definition lease_run :: "lease_table \<Rightarrow> (int \<times> lease_op) list \<Rightarrow> lease_table" where
  "lease_run = foldl lease_op_step"

section \<open>The fence contract\<close>

text \<open>
  A fence authority for one key: minting hands out a fence strictly above the current one and
  records its owner; every other step keeps the fence and at most clears the owner. This is all
  a fenced writer relies on.
\<close>

locale fence_authority =
  fixes step :: "'st \<Rightarrow> 'op \<Rightarrow> 'st"
    and fence_of :: "'st \<Rightarrow> nat option"
    and owner_of :: "'st \<Rightarrow> 'w option"
    and minted_by :: "'st \<Rightarrow> 'op \<Rightarrow> 'w option"
  assumes mint_step: "minted_by s op = Some w \<Longrightarrow>
      \<exists>f. fence_of (step s op) = Some f \<and> owner_of (step s op) = Some w \<and>
          (\<forall>g. fence_of s = Some g \<longrightarrow> g < f)"
    and other_step: "minted_by s op = None \<Longrightarrow>
      fence_of (step s op) = fence_of s \<and> owner_of (step s op) \<in> {owner_of s, None}"
begin

definition holder :: "'st \<Rightarrow> nat \<Rightarrow> 'w \<Rightarrow> bool" where
  "holder s f w \<longleftrightarrow> fence_of s = Some f \<and> owner_of s = Some w"

lemma step_mono: "fence_of s = Some f \<Longrightarrow> \<exists>g. fence_of (step s op) = Some g \<and> f \<le> g"
  using mint_step [of s op] other_step [of s op]
  by (cases "minted_by s op") (fastforce intro: less_imp_le)+

lemma run_mono: "fence_of s = Some f \<Longrightarrow> \<exists>g. fence_of (foldl step s ops) = Some g \<and> f \<le> g"
proof (induction ops arbitrary: s f)
  case (Cons op ops)
  obtain g where "fence_of (step s op) = Some g" "f \<le> g" using step_mono [OF Cons.prems] by blast
  with Cons.IH [OF this(1)] show ?case by auto
qed simp

text \<open>A fence below the current one is dead for ever.\<close>

lemma stale_for_ever:
  assumes "fence_of s = Some g" "f < g" shows "\<not> holder (foldl step s ops) f w"
  using run_mono [OF assms(1), of ops] assms(2) by (auto simp: holder_def)

text \<open>The owner of the current fence changes only by a mint of a higher fence or to nobody.\<close>

lemma holder_unique_over_time:
  assumes "fence_of s = Some f" "owner_of s = Some w" "holder (foldl step s ops) f w'"
  shows "w' = w"
  using assms
proof (induction ops arbitrary: s)
  case Nil
  then show ?case by (simp add: holder_def)
next
  case (Cons op ops)
  show ?case
  proof (cases "minted_by s op")
    case None
    from other_step [OF None] have o: "fence_of (step s op) = Some f"
      "owner_of (step s op) = Some w \<or> owner_of (step s op) = None"
      using Cons.prems by auto
    have no_return: "owner_of t = None \<Longrightarrow> fence_of t = Some f \<Longrightarrow> \<not> holder (foldl step t ops') f w'" for t ops'
    proof (induction ops' arbitrary: t)
      case Nil
      then show ?case by (simp add: holder_def)
    next
      case (Cons op' ops')
      show ?case
      proof (cases "minted_by t op'")
        case None
        then show ?thesis using other_step [OF None] Cons by auto
      next
        case (Some v)
        then obtain h where "fence_of (step t op') = Some h" "f < h"
          using mint_step [OF Some] Cons.prems by auto
        then show ?thesis using stale_for_ever by simp
      qed
    qed
    show ?thesis using Cons.IH [of "step s op"] Cons.prems o no_return [of "step s op" ops] by auto
  next
    case (Some v)
    then obtain h where "fence_of (step s op) = Some h" "f < h"
      using mint_step [OF Some] Cons.prems by auto
    then show ?thesis using stale_for_ever Cons.prems by simp
  qed
qed

end

subsection \<open>The table provides the contract, row by row\<close>

definition row_fence :: "string \<Rightarrow> lease_table \<Rightarrow> nat option" where
  "row_fence inst tbl = map_option lr_fence (tbl inst)"

definition row_owner :: "string \<Rightarrow> lease_table \<Rightarrow> string option" where
  "row_owner inst tbl = Option.bind (tbl inst) lr_owner"

fun op_mints :: "string \<Rightarrow> lease_table \<Rightarrow> int \<times> lease_op \<Rightarrow> string option" where
  "op_mints inst tbl (now, Mint client i worker) =
     (if i = inst \<and> (\<forall>r. tbl inst = Some r \<longrightarrow> lr_client r = client) then Some worker else None)"
| "op_mints inst tbl (now, Renew worker leases) = None"
| "op_mints inst tbl (now, Release client i fence worker) = None"

interpretation lease_row: fence_authority lease_op_step "row_fence inst" "row_owner inst" "op_mints inst"
  for inst
proof
  fix s op w
  assume "op_mints inst s op = Some w"
  then show "\<exists>f. row_fence inst (lease_op_step s op) = Some f \<and>
      row_owner inst (lease_op_step s op) = Some w \<and> (\<forall>g. row_fence inst s = Some g \<longrightarrow> g < f)"
    by (cases "(inst, s, op)" rule: op_mints.cases)
       (auto simp: lease_mint_fence_def row_fence_def row_owner_def split: if_splits option.splits)
next
  fix s op
  assume "op_mints inst s op = None"
  then show "row_fence inst (lease_op_step s op) = row_fence inst s \<and>
      row_owner inst (lease_op_step s op) \<in> {row_owner inst s, None}"
    by (cases "(inst, s, op)" rule: op_mints.cases)
       (auto simp: lease_mint_fence_def lease_renew_batch_def lease_release_def holds_lease_iff Let_def
             row_fence_def row_owner_def split: if_splits option.splits)
qed

lemma holds_lease_holder:
  "holds_lease tbl inst client fence worker \<Longrightarrow> lease_row.holder inst tbl fence worker"
  by (auto simp: holds_lease_iff lease_row.holder_def row_fence_def row_owner_def)

lemma mintFence_Ok:
  assumes "mintFence now client inst worker tbl = Inr (r, tbl')"
  shows "lease_mint_fence now inst client worker tbl = (Some (mr_fence r), tbl')"
  using assms by (auto simp: mintFence_def Let_def split: prod.splits option.splits)

lemma mintFence_step:
  assumes "mintFence now client inst worker tbl = Inr (r, tbl')"
  shows "tbl' = lease_op_step tbl (now, Mint client inst worker) \<and>
         op_mints inst tbl (now, Mint client inst worker) = Some worker \<and>
         row_fence inst tbl' = Some (mr_fence r) \<and> row_owner inst tbl' = Some worker"
  using mintFence_Ok [OF assms]
  by (auto simp: lease_mint_fence_def row_fence_def row_owner_def split: option.splits if_splits)

lemma mintFence_holds:
  assumes "mintFence now client inst worker tbl = Inr (r, tbl')"
  shows "holds_lease tbl' inst client (mr_fence r) worker"
  using mintFence_Ok [OF assms]
  by (auto simp: lease_mint_fence_def holds_lease_def split: option.splits if_splits)

lemma mintFence_strict:
  assumes "mintFence now client inst worker tbl = Inr (r, tbl')" "row_fence inst tbl = Some g"
  shows "g < mr_fence r"
  using lease_row.mint_step [of inst tbl "(now, Mint client inst worker)" worker] mintFence_step [OF assms(1)]
    assms(2) by auto

lemma superseded_fence_order:
  assumes "mintFence t1 c1 inst A tbl0 = Inr (ra, tbl1)"
    and "mintFence t2 c2 inst B (lease_run tbl1 ops) = Inr (rb, tbl2)"
  shows "mr_fence ra < mr_fence rb"
proof -
  obtain g where g: "row_fence inst (lease_run tbl1 ops) = Some g" "mr_fence ra \<le> g"
    using lease_row.run_mono [of inst tbl1 "mr_fence ra" ops] mintFence_step [OF assms(1)]
    unfolding lease_run_def by blast
  then show ?thesis using mintFence_strict [OF assms(2)] by fastforce
qed

lemma superseded_never_holds:
  assumes "mintFence t1 c1 inst A tbl0 = Inr (ra, tbl1)"
    and "mintFence t2 c2 inst B (lease_run tbl1 ops) = Inr (rb, tbl2)"
  shows "\<not> holds_lease (lease_run tbl2 ops') inst client (mr_fence ra) worker"
  using lease_row.stale_for_ever [of inst tbl2 "mr_fence rb" "mr_fence ra" ops' worker]
    superseded_fence_order [OF assms] mintFence_step [OF assms(2)] holds_lease_holder
  unfolding lease_run_def by blast

section \<open>Properties\<close>

text \<open>C17. Fencing excludes a superseded worker: once worker B minted a fence for an instance, the
  fence an earlier mint gave to A is strictly smaller, and after any further history of mints,
  renewals and releases by any workers A's lease predicate never holds again, while B's fence can
  only ever be held by B.\<close>

theorem fence_excludes_superseded_worker:
  assumes "mintFence t1 c1 inst A tbl0 = Inr (ra, tbl1)"
    and "mintFence t2 c2 inst B (lease_run tbl1 ops) = Inr (rb, tbl2)"
  shows "mr_fence ra < mr_fence rb \<and>
         \<not> holds_lease (lease_run tbl2 ops') inst client (mr_fence ra) worker \<and>
         (holds_lease (lease_run tbl2 ops') inst client (mr_fence rb) worker \<longrightarrow> worker = B)"
proof (intro conjI impI)
  show "mr_fence ra < mr_fence rb" by (rule superseded_fence_order [OF assms])
  show "\<not> holds_lease (lease_run tbl2 ops') inst client (mr_fence ra) worker"
    by (rule superseded_never_holds [OF assms])
  assume "holds_lease (lease_run tbl2 ops') inst client (mr_fence rb) worker"
  then show "worker = B"
    using lease_row.holder_unique_over_time mintFence_step [OF assms(2)] holds_lease_holder
    unfolding lease_run_def by blast
qed

lemma fence_excludes_superseded_worker_witness:
  "\<not> holds_lease
      (lease_run (snd (the (case mintFence 9 ''c'' ''i'' ''B''
          (lease_run (snd (the (case mintFence 0 ''c'' ''i'' ''A'' Map.empty of Inr x \<Rightarrow> Some x | _ \<Rightarrow> None)))
             [(5, Release ''c'' ''i'' 1 ''A'')]) of Inr x \<Rightarrow> Some x | _ \<Rightarrow> None)))
        [(10, Renew ''A'' [(''i'', 1)])]) ''i'' ''c'' 1 ''A''"
  using fence_excludes_superseded_worker [of 0 "''c''" "''i''" "''A''" Map.empty
      "\<lparr>mr_fence = 1, mr_prevReleasedAt = None, mr_prevOwnerWorkerId = None\<rparr>"
      "[''i'' \<mapsto> \<lparr>lr_client = ''c'', lr_fence = 1, lr_owner = Some ''A'', lr_seen = 0, lr_released = None\<rparr>]"
      9 "''c''" "''B''" "[(5, Release ''c'' ''i'' 1 ''A'')]"
      "\<lparr>mr_fence = Suc 1, mr_prevReleasedAt = Some 5, mr_prevOwnerWorkerId = None\<rparr>"
      "[''i'' \<mapsto> \<lparr>lr_client = ''c'', lr_fence = Suc 1, lr_owner = Some ''B'', lr_seen = 9, lr_released = None\<rparr>]"
      "[(10, Renew ''A'' [(''i'', 1)])]" "''c''" "''A''"]
  by (simp add: mintFence_def lease_mint_read_released_def lease_mint_fence_def lease_run_def
      lease_release_def holds_lease_def)

end
