(* ===== verification/Lease_Manager.thy ===== *)
theory Lease_Manager
  imports Lease_Store
begin

text \<open>
  \<open>packages/domain/src/timing.ts\<close>, \<open>platform/redis/keys.ts\<close>, the Redis side of a lease
  (\<open>engine/lease/scripts/*.lua\<close> behind \<open>lease-redis.ts\<close>) and
  \<open>engine/lease/lease-manager.ts\<close>. A Redis call that times out is three-valued: it
  replied, it never reached the server, or it took effect and the reply was lost.
\<close>

section \<open>timing.ts\<close>

record timing =
  leaseTtlMs :: int
  heartbeatMs :: int
  takeoverGraceMs :: int
  watchdogMs :: int
  sendTimeoutMs :: int
  claimExpiryMs :: int
  reaperGraceMs :: int
  reconcileWindowMs :: int
  reaperIntervalMs :: int
  reconcilerIntervalMs :: int
  echoToleranceMs :: int
  pacingEvaluatorIntervalMs :: int
  redisCommandTimeoutMs :: int
  pgConnectTimeoutMs :: int
  pgStatementTimeoutMs :: int

definition TIMING :: timing where
  "TIMING = \<lparr>leaseTtlMs = 30000, heartbeatMs = 10000, takeoverGraceMs = 15000, watchdogMs = 15000,
     sendTimeoutMs = 45000, claimExpiryMs = 90000, reaperGraceMs = 30000, reconcileWindowMs = 600000,
     reaperIntervalMs = 15000, reconcilerIntervalMs = 30000, echoToleranceMs = 300000,
     pacingEvaluatorIntervalMs = 300000, redisCommandTimeoutMs = 2000, pgConnectTimeoutMs = 3000,
     pgStatementTimeoutMs = 5000\<rparr>"

definition RELEASE_FRESHNESS_MS :: int where
  "RELEASE_FRESHNESS_MS = 60000"

section \<open>platform/redis/keys.ts\<close>

definition sysKey :: "string \<Rightarrow> string list \<Rightarrow> string" where
  "sysKey env parts = ''wp:'' @ env @ '':'' @ join_with (CHR '':'') parts"

definition tenantKey :: "string \<Rightarrow> string \<Rightarrow> string list \<Rightarrow> string" where
  "tenantKey env clientId parts = ''wp:'' @ env @ '':c:'' @ clientId @ '':'' @ join_with (CHR '':'') parts"

lemma join_with_singleton_append:
  "parts \<noteq> [] \<Longrightarrow> c @ CHR '':'' # join_with (CHR '':'') parts = join_with (CHR '':'') (c # parts)"
  by simp

text \<open>Two tenant keys of one environment with colon-free components are equal only for the same
  tenant and parts.\<close>

lemma tenantKey_inj:
  assumes "tenantKey env c ps = tenantKey env d qs"
    and "CHR '':'' \<notin> set c" "CHR '':'' \<notin> set d"
    and "\<forall>p\<in>set ps. CHR '':'' \<notin> set p" "\<forall>q\<in>set qs. CHR '':'' \<notin> set q" "length ps = length qs"
  shows "c = d \<and> ps = qs"
proof -
  have "c @ CHR '':'' # join_with (CHR '':'') ps = d @ CHR '':'' # join_with (CHR '':'') qs"
    using assms(1) by (simp add: tenantKey_def)
  then have "c = d \<and> join_with (CHR '':'') ps = join_with (CHR '':'') qs"
    using append_sep_inj assms(2,3) by metis
  then show ?thesis using join_with_inj [of ps qs "CHR '':''"] assms by auto
qed

section \<open>Redis\<close>

type_synonym redis = "string \<rightharpoonup> string \<times> int"   \<comment> \<open>value and expiry\<close>

definition rget :: "int \<Rightarrow> redis \<Rightarrow> string \<Rightarrow> string option" where
  "rget now r key = (case r key of None \<Rightarrow> None | Some (v, expires) \<Rightarrow> if now < expires then Some v else None)"

definition pending_value :: "string \<Rightarrow> string" where
  "pending_value worker = worker @ ''|PENDING''"

definition lease_value :: "string \<Rightarrow> nat \<Rightarrow> string" where
  "lease_value worker fence = worker @ ''|'' @ dec fence"

definition acquire_lua :: "int \<Rightarrow> string \<Rightarrow> string \<Rightarrow> int \<Rightarrow> redis \<Rightarrow> bool \<times> redis" where
  "acquire_lua now key worker ttl r =
    (if rget now r key = None then (True, r(key \<mapsto> (pending_value worker, now + ttl))) else (False, r))"

definition set_fence_lua :: "int \<Rightarrow> string \<Rightarrow> string \<Rightarrow> nat \<Rightarrow> int \<Rightarrow> redis \<Rightarrow> bool \<times> redis" where
  "set_fence_lua now key worker fence ttl r =
    (if rget now r key \<noteq> Some (pending_value worker) then (False, r)
     else (True, r(key \<mapsto> (lease_value worker fence, now + ttl))))"

fun renew_batch_lua :: "int \<Rightarrow> int \<Rightarrow> (string \<times> string) list \<Rightarrow> redis \<Rightarrow> bool list \<times> redis" where
  "renew_batch_lua now ttl [] r = ([], r)"
| "renew_batch_lua now ttl ((key, expected) # es) r =
    (if rget now r key = Some expected
     then (let (out, r') = renew_batch_lua now ttl es (r(key \<mapsto> (expected, now + ttl))) in (True # out, r'))
     else (let (out, r') = renew_batch_lua now ttl es r in (False # out, r')))"

definition release_lua :: "int \<Rightarrow> string \<Rightarrow> string \<Rightarrow> redis \<Rightarrow> bool \<times> redis" where
  "release_lua now key expected r =
    (if rget now r key = Some expected then (True, r(key := None)) else (False, r))"

lemma not_digit_bar: "\<not> is_digit (CHR ''|'')" "\<not> is_digit (CHR ''P'')"
  by code_simp+

lemma lease_value_inj [codec_inj]:
  assumes "lease_value w f = lease_value v g" shows "w = v \<and> f = g"
proof -
  have "rev (dec f) @ CHR ''|'' # rev w = rev (dec g) @ CHR ''|'' # rev v"
    using arg_cong [OF assms, of rev] by (simp add: lease_value_def)
  moreover have "CHR ''|'' \<notin> set (rev (dec f))" "CHR ''|'' \<notin> set (rev (dec g))"
    using dec_digits not_digit_bar by auto
  ultimately have "rev (dec f) = rev (dec g) \<and> rev w = rev v"
    by (metis append_sep_inj)
  then show ?thesis using dec_inj by auto
qed

lemma lease_value_not_pending [simp]: "lease_value w f \<noteq> pending_value v"
proof
  assume a: "lease_value w f = pending_value v"
  have "rev (dec f) @ CHR ''|'' # rev w = rev ''PENDING'' @ CHR ''|'' # rev v"
    using arg_cong [OF a, of rev] by (simp add: lease_value_def pending_value_def)
  moreover have "CHR ''|'' \<notin> set (rev (dec f))" "CHR ''|'' \<notin> set (rev ''PENDING'')"
    using dec_digits not_digit_bar by auto
  ultimately have "rev (dec f) = rev ''PENDING''" by (metis append_sep_inj)
  then have "CHR ''P'' \<in> set (dec f)"
    by (metis list.set_intros(1) set_rev rev_rev_ident)
  then show False using dec_digits not_digit_bar by auto
qed

lemma renew_batch_lua_Cons:
  "renew_batch_lua now ttl (e # es) r =
     (let r' = (if rget now r (fst e) = Some (snd e) then r(fst e \<mapsto> (snd e, now + ttl)) else r)
      in ((rget now r (fst e) = Some (snd e)) # fst (renew_batch_lua now ttl es r'),
          snd (renew_batch_lua now ttl es r')))"
  by (cases e) (simp add: case_prod_beta Let_def)

lemma renew_batch_lua_length: "length (fst (renew_batch_lua now ttl es r)) = length es"
  by (induction es arbitrary: r) (simp_all add: renew_batch_lua_Cons Let_def del: renew_batch_lua.simps(2))

text \<open>A renewal never changes a value: it extends the keys whose expected value matched.\<close>

lemma rget_upd_same:
  assumes "0 < ttl" "rget now r key = Some v"
  shows "rget now (r(key \<mapsto> (v, now + ttl))) k = rget now r k"
  using assms by (auto simp: rget_def split: option.splits if_splits)

lemma renew_batch_lua_spec:
  assumes "0 < ttl"
  shows "fst (renew_batch_lua now ttl es r) = map (\<lambda>(k, v). rget now r k = Some v) es \<and>
         (\<forall>k. snd (renew_batch_lua now ttl es r) k =
            (if \<exists>v. (k, v) \<in> set es \<and> rget now r k = Some v
             then Some (the (rget now r k), now + ttl) else r k))"
proof (induction es arbitrary: r)
  case (Cons e es)
  define r' where "r' = (if rget now r (fst e) = Some (snd e) then r(fst e \<mapsto> (snd e, now + ttl)) else r)"
  have same: "rget now r' k = rget now r k" for k
    unfolding r'_def using rget_upd_same [OF assms] by auto
  have upd: "r' k = (if k = fst e \<and> rget now r k = Some (snd e) then Some (snd e, now + ttl) else r k)" for k
    unfolding r'_def by auto
  note IH = Cons.IH [of r', unfolded same]
  note eqs = renew_batch_lua_Cons [of now ttl e es r, unfolded Let_def, folded r'_def]
  show ?case
  proof (intro conjI allI)
    show "fst (renew_batch_lua now ttl (e # es) r) = map (\<lambda>(k, v). rget now r k = Some v) (e # es)"
      using conjunct1 [OF IH] by (simp add: eqs case_prod_beta)
    fix k
    show "snd (renew_batch_lua now ttl (e # es) r) k =
        (if \<exists>v. (k, v) \<in> set (e # es) \<and> rget now r k = Some v
         then Some (the (rget now r k), now + ttl) else r k)"
      using conjunct2 [OF IH, rule_format, of k] upd [of k] unfolding eqs by (cases e) auto
  qed
qed simp

section \<open>lease-manager.ts\<close>

datatype reply = Replied | Lost_before | Lost_after

text \<open>A remote call: the effect on the store and the value the caller sees, if any.\<close>

fun call :: "reply \<Rightarrow> ('w \<Rightarrow> 'a \<times> 'w) \<Rightarrow> 'w \<Rightarrow> 'a option \<times> 'w" where
  "call Replied f w = (let (a, w') = f w in (Some a, w'))"
| "call Lost_before f w = (None, w)"
| "call Lost_after f w = (None, snd (f w))"

record session_lease =
  sl_instance :: string
  sl_client :: string
  sl_fence :: nat
  sl_worker :: string
  sl_graceMs :: int

record lease_world =
  lw_redis :: redis
  lw_pg :: lease_table

record lease_manager =
  lm_worker :: string
  lm_env :: string
  lm_timing :: timing
  lm_lastSeen :: "string \<rightharpoonup> nat"
  lm_takeovers :: nat
  lm_regressions :: nat

definition on_redis :: "(redis \<Rightarrow> 'a \<times> redis) \<Rightarrow> lease_world \<Rightarrow> 'a \<times> lease_world" where
  "on_redis f w = (let (a, r) = f (lw_redis w) in (a, w\<lparr>lw_redis := r\<rparr>))"

definition on_mint :: "int \<Rightarrow> string \<Rightarrow> string \<Rightarrow> string \<Rightarrow> lease_world
    \<Rightarrow> (mint_error, mint_result) result \<times> lease_world" where
  "on_mint now client inst worker w =
    (case mintFence now client inst worker (lw_pg w) of
       Inl e \<Rightarrow> (Inl e, w)
     | Inr (m, tbl) \<Rightarrow> (Inr m, w\<lparr>lw_pg := tbl\<rparr>))"

definition leaseKey :: "string \<Rightarrow> string \<Rightarrow> string \<Rightarrow> string" where
  "leaseKey env clientId instanceId = tenantKey env clientId [''lease'', ''i'', instanceId]"

text \<open>Step 4: the grace is skipped only for a clean release in the last minute on this clock.\<close>

definition takeover_grace :: "timing \<Rightarrow> int \<Rightarrow> int option \<Rightarrow> int" where
  "takeover_grace tm now prevReleasedAt =
    (let releasedRecently = (case prevReleasedAt of None \<Rightarrow> False
           | Some rel \<Rightarrow> 0 \<le> now - rel \<and> now - rel < RELEASE_FRESHNESS_MS)
     in if releasedRecently then 0 else takeoverGraceMs tm)"

datatype acquire_outcome = Acq_threw | Acq_none | Acq_lease session_lease

text \<open>
  The four remote calls of one \<open>acquire\<close>, the clock at each, and what other workers do to the
  stores while it awaits (\<open>aq_env1\<close> after the placeholder, \<open>aq_env2\<close> after the mint).
\<close>

record acquire_env =
  aq_acquire :: reply
  aq_mint :: reply
  aq_setFence :: reply
  aq_release :: reply
  aq_t1 :: int
  aq_t2 :: int
  aq_t3 :: int
  aq_env1 :: "lease_world \<Rightarrow> lease_world"
  aq_env2 :: "lease_world \<Rightarrow> lease_world"

definition note_mint :: "lease_manager \<Rightarrow> string \<Rightarrow> mint_result \<Rightarrow> lease_manager" where
  "note_mint m inst r =
    (let takeover = (case mr_prevOwnerWorkerId r of None \<Rightarrow> False | Some w \<Rightarrow> w \<noteq> lm_worker m);
         regress = (case lm_lastSeen m inst of None \<Rightarrow> False | Some f \<Rightarrow> mr_fence r \<le> f)
     in m\<lparr>lm_takeovers := lm_takeovers m + (if takeover then 1 else 0),
          lm_regressions := lm_regressions m + (if regress then 1 else 0),
          lm_lastSeen := (lm_lastSeen m)(inst \<mapsto> mr_fence r)\<rparr>)"

definition acquire ::
  "lease_manager \<Rightarrow> string \<Rightarrow> string \<Rightarrow> acquire_env \<Rightarrow> lease_world
     \<Rightarrow> acquire_outcome \<times> lease_manager \<times> lease_world" where
  "acquire m inst client e w =
    (let key = leaseKey (lm_env m) client inst; worker = lm_worker m; ttl = leaseTtlMs (lm_timing m) in
     case call (aq_acquire e) (on_redis (acquire_lua (aq_t1 e) key worker ttl)) w of
       (None, w1) \<Rightarrow> (Acq_threw, m, w1)
     | (Some acquired, w1) \<Rightarrow>
         if \<not> acquired then (Acq_none, m, w1)
         else (case call (aq_mint e) (on_mint (aq_t2 e) client inst worker) (aq_env1 e w1) of
             (Some (Inr minted), w2) \<Rightarrow>
               (case call (aq_setFence e)
                       (on_redis (set_fence_lua (aq_t3 e) key worker (mr_fence minted) ttl)) (aq_env2 e w2) of
                  (None, w3) \<Rightarrow> (Acq_threw, m, w3)
                | (Some fenceSet, w3) \<Rightarrow>
                    if \<not> fenceSet then (Acq_none, m, w3)
                    else (Acq_lease \<lparr>sl_instance = inst, sl_client = client, sl_fence = mr_fence minted,
                            sl_worker = worker,
                            sl_graceMs = takeover_grace (lm_timing m) (aq_t3 e) (mr_prevReleasedAt minted)\<rparr>,
                          note_mint m inst minted, w3))
           | (_, w2) \<Rightarrow>
               (Acq_none, m,
                snd (call (aq_release e) (on_redis (release_lua (aq_t3 e) key (pending_value worker)))
                      (aq_env2 e w2)))))"

text \<open>\<open>release\<close>: close the owner, compare-delete in Redis (an error is logged), then the
  fence-guarded Postgres release, attempted in every case; \<open>None\<close> is its transaction throwing.\<close>

definition release_lease ::
  "lease_manager \<Rightarrow> session_lease \<Rightarrow> reply \<Rightarrow> reply \<Rightarrow> int \<Rightarrow> int \<Rightarrow> lease_world
     \<Rightarrow> bool option \<times> lease_world" where
  "release_lease m l redis_reply pg_reply t1 t2 w =
    (let key = leaseKey (lm_env m) (sl_client l) (sl_instance l);
         w1 = snd (call redis_reply (on_redis (release_lua t1 key (lease_value (sl_worker l) (sl_fence l)))) w)
     in call pg_reply (\<lambda>w. let (ok, tbl) = lease_release t2 (sl_instance l) (sl_client l) (sl_fence l)
                                           (sl_worker l) (lw_pg w)
                          in (ok, w\<lparr>lw_pg := tbl\<rparr>)) w1)"

section \<open>Lemmas\<close>

lemma call_Some [simp]: "call rep f w = (Some a, w') \<longleftrightarrow> rep = Replied \<and> f w = (a, w')"
  by (cases rep) (auto split: prod.splits)

lemma on_redis_pair: "on_redis f w = (a, w') \<longleftrightarrow> f (lw_redis w) = (a, lw_redis w') \<and> lw_pg w' = lw_pg w"
  by (cases w; cases w'; cases "f (lw_redis w)") (auto simp: on_redis_def)

lemma on_mint_Inr: "on_mint now client inst worker w = (Inr r, w') \<longleftrightarrow>
    mintFence now client inst worker (lw_pg w) = Inr (r, lw_pg w') \<and> lw_redis w' = lw_redis w"
  by (cases w; cases w') (auto simp: on_mint_def split: sum.splits)

lemma acquire_lua_True: "acquire_lua now key worker ttl r = (True, r') \<longleftrightarrow>
    rget now r key = None \<and> r' = r(key \<mapsto> (pending_value worker, now + ttl))"
  by (auto simp: acquire_lua_def)

lemma set_fence_lua_True: "set_fence_lua now key worker f ttl r = (True, r') \<longleftrightarrow>
    rget now r key = Some (pending_value worker) \<and> r' = r(key \<mapsto> (lease_value worker f, now + ttl))"
  by (auto simp: set_fence_lua_def)

text \<open>The one successful path through \<open>acquire\<close>.\<close>

lemma acquire_leaseD:
  assumes "acquire m inst client e w = (Acq_lease l, m', w')"
  obtains w1 w2 minted where
    "acquire_lua (aq_t1 e) (leaseKey (lm_env m) client inst) (lm_worker m) (leaseTtlMs (lm_timing m)) (lw_redis w)
       = (True, lw_redis w1)"
    "mintFence (aq_t2 e) client inst (lm_worker m) (lw_pg (aq_env1 e w1)) = Inr (minted, lw_pg w2)"
    "set_fence_lua (aq_t3 e) (leaseKey (lm_env m) client inst) (lm_worker m) (mr_fence minted)
       (leaseTtlMs (lm_timing m)) (lw_redis (aq_env2 e w2)) = (True, lw_redis w')"
    "l = \<lparr>sl_instance = inst, sl_client = client, sl_fence = mr_fence minted, sl_worker = lm_worker m,
          sl_graceMs = takeover_grace (lm_timing m) (aq_t3 e) (mr_prevReleasedAt minted)\<rparr>"
    "m' = note_mint m inst minted"
  using assms unfolding acquire_def Let_def
  by (auto split: prod.splits option.splits if_splits sum.splits simp: on_redis_pair on_mint_Inr)

section \<open>Properties\<close>

text \<open>C18. \<open>acquire\<close> returns a lease only when all the stores agreed: the Redis key was free, the
  Postgres row was minted for this worker at a fence strictly above the one it held when the mint
  ran, the worker's own placeholder was still in Redis when the fence was swapped in, and the key
  then carries exactly that fence for one TTL. The takeover grace is skipped only for a release
  recorded in the last minute on this worker's clock, never for one that lies in the future.\<close>

theorem acquire_lease_sound:
  assumes "acquire m inst client e w = (Acq_lease l, m', w')"
  shows "rget (aq_t1 e) (lw_redis w) (leaseKey (lm_env m) client inst) = None \<and>
    sl_instance l = inst \<and> sl_client l = client \<and> sl_worker l = lm_worker m \<and>
    (\<exists>w1 w2 prev. holds_lease (lw_pg w2) inst client (sl_fence l) (lm_worker m) \<and>
       (\<forall>g. row_fence inst (lw_pg (aq_env1 e w1)) = Some g \<longrightarrow> g < sl_fence l) \<and>
       lw_pg w2 = lease_op_step (lw_pg (aq_env1 e w1)) (aq_t2 e, Mint client inst (lm_worker m)) \<and>
       rget (aq_t3 e) (lw_redis (aq_env2 e w2)) (leaseKey (lm_env m) client inst)
         = Some (pending_value (lm_worker m)) \<and>
       lease_mint_read_released (lw_pg (aq_env1 e w1)) inst client = prev \<and>
       (sl_graceMs l = takeoverGraceMs (lm_timing m) \<or>
        sl_graceMs l = 0 \<and> (\<exists>rel own. prev = Some (Some rel, own) \<and>
            0 \<le> aq_t3 e - rel \<and> aq_t3 e - rel < RELEASE_FRESHNESS_MS))) \<and>
    lw_redis w' (leaseKey (lm_env m) client inst)
      = Some (lease_value (lm_worker m) (sl_fence l), aq_t3 e + leaseTtlMs (lm_timing m))"
proof -
  obtain w1 w2 minted where *:
    "acquire_lua (aq_t1 e) (leaseKey (lm_env m) client inst) (lm_worker m) (leaseTtlMs (lm_timing m)) (lw_redis w)
       = (True, lw_redis w1)"
    "mintFence (aq_t2 e) client inst (lm_worker m) (lw_pg (aq_env1 e w1)) = Inr (minted, lw_pg w2)"
    "set_fence_lua (aq_t3 e) (leaseKey (lm_env m) client inst) (lm_worker m) (mr_fence minted)
       (leaseTtlMs (lm_timing m)) (lw_redis (aq_env2 e w2)) = (True, lw_redis w')"
    "l = \<lparr>sl_instance = inst, sl_client = client, sl_fence = mr_fence minted, sl_worker = lm_worker m,
          sl_graceMs = takeover_grace (lm_timing m) (aq_t3 e) (mr_prevReleasedAt minted)\<rparr>"
    by (rule acquire_leaseD [OF assms]) blast
  have "holds_lease (lw_pg w2) inst client (sl_fence l) (lm_worker m)"
    using mintFence_holds [OF *(2)] by (simp add: *(4))
  moreover have "\<forall>g. row_fence inst (lw_pg (aq_env1 e w1)) = Some g \<longrightarrow> g < sl_fence l"
    using mintFence_strict [OF *(2)] by (simp add: *(4))
  moreover have "mr_prevReleasedAt minted =
      (case lease_mint_read_released (lw_pg (aq_env1 e w1)) inst client of None \<Rightarrow> None | Some (rel, _) \<Rightarrow> rel)"
    using *(2) by (auto simp: mintFence_def Let_def split: prod.splits option.splits)
  then have "sl_graceMs l = takeoverGraceMs (lm_timing m) \<or> sl_graceMs l = 0 \<and>
      (\<exists>rel own. lease_mint_read_released (lw_pg (aq_env1 e w1)) inst client = Some (Some rel, own) \<and>
         0 \<le> aq_t3 e - rel \<and> aq_t3 e - rel < RELEASE_FRESHNESS_MS)"
    by (auto simp: *(4) takeover_grace_def Let_def split: option.splits)
  moreover have "lw_pg w2 = lease_op_step (lw_pg (aq_env1 e w1)) (aq_t2 e, Mint client inst (lm_worker m))"
    using mintFence_step [OF *(2)] by blast
  moreover have "rget (aq_t3 e) (lw_redis (aq_env2 e w2)) (leaseKey (lm_env m) client inst)
      = Some (pending_value (lm_worker m))"
    using *(3) by (simp add: set_fence_lua_True)
  ultimately have evidence: "\<exists>w1 w2 prev. holds_lease (lw_pg w2) inst client (sl_fence l) (lm_worker m) \<and>
       (\<forall>g. row_fence inst (lw_pg (aq_env1 e w1)) = Some g \<longrightarrow> g < sl_fence l) \<and>
       lw_pg w2 = lease_op_step (lw_pg (aq_env1 e w1)) (aq_t2 e, Mint client inst (lm_worker m)) \<and>
       rget (aq_t3 e) (lw_redis (aq_env2 e w2)) (leaseKey (lm_env m) client inst)
         = Some (pending_value (lm_worker m)) \<and>
       lease_mint_read_released (lw_pg (aq_env1 e w1)) inst client = prev \<and>
       (sl_graceMs l = takeoverGraceMs (lm_timing m) \<or>
        sl_graceMs l = 0 \<and> (\<exists>rel own. prev = Some (Some rel, own) \<and>
            0 \<le> aq_t3 e - rel \<and> aq_t3 e - rel < RELEASE_FRESHNESS_MS))"
    by blast
  show ?thesis
    by (intro conjI evidence) (use *(1,3) in \<open>simp_all add: acquire_lua_True set_fence_lua_True *(4)\<close>)
qed

definition demo_manager :: lease_manager where
  "demo_manager = \<lparr>lm_worker = ''B'', lm_env = ''e'', lm_timing = TIMING, lm_lastSeen = Map.empty,
     lm_takeovers = 0, lm_regressions = 0\<rparr>"

definition demo_env :: acquire_env where
  "demo_env = \<lparr>aq_acquire = Replied, aq_mint = Replied, aq_setFence = Replied, aq_release = Replied,
     aq_t1 = 100, aq_t2 = 101, aq_t3 = 102, aq_env1 = id, aq_env2 = id\<rparr>"

definition demo_world :: lease_world where
  "demo_world = \<lparr>lw_redis = Map.empty, lw_pg = [''i'' \<mapsto> \<lparr>lr_client = ''c'', lr_fence = 7,
     lr_owner = None, lr_seen = 0, lr_released = Some 90\<rparr>]\<rparr>"

definition demo_acquired :: "acquire_outcome \<times> lease_manager \<times> lease_world" where
  "demo_acquired = acquire demo_manager ''i'' ''c'' demo_env demo_world"

lemma demo_acquired_lease:
  "fst demo_acquired = Acq_lease \<lparr>sl_instance = ''i'', sl_client = ''c'', sl_fence = 8, sl_worker = ''B'', sl_graceMs = 0\<rparr>"
  by code_simp

lemma acquire_lease_sound_witness:
  "lw_redis (snd (snd demo_acquired)) (leaseKey ''e'' ''c'' ''i'') = Some (lease_value ''B'' 8, 30102)"
  using acquire_lease_sound [of demo_manager "''i''" "''c''" demo_env demo_world _ "fst (snd demo_acquired)"
      "snd (snd demo_acquired)", folded demo_acquired_def, unfolded prod_eq_iff, simplified, OF demo_acquired_lease]
  by (simp add: demo_manager_def demo_env_def TIMING_def)

text \<open>A refused or failed \<open>acquire\<close> claims nothing: when the key is taken the stores are
  untouched and no mint is attempted; when the mint failed or its reply was lost and the clean-up
  replied, the worker's placeholder is gone from Redis whatever others did meanwhile; and the
  manager's own state changes only when a lease is returned.\<close>

theorem acquire_failure_claims_nothing:
  assumes "acquire m inst client e w = (out, m', w')" "\<forall>l. out \<noteq> Acq_lease l"
  shows "m' = m \<and>
    (aq_acquire e = Replied \<and> rget (aq_t1 e) (lw_redis w) (leaseKey (lm_env m) client inst) \<noteq> None
       \<longrightarrow> out = Acq_none \<and> w' = w) \<and>
    (aq_acquire e = Replied \<and> rget (aq_t1 e) (lw_redis w) (leaseKey (lm_env m) client inst) = None \<and>
     aq_mint e \<noteq> Replied \<and> aq_release e = Replied
       \<longrightarrow> out = Acq_none \<and>
           rget (aq_t3 e) (lw_redis w') (leaseKey (lm_env m) client inst) \<noteq> Some (pending_value (lm_worker m)))"
proof (intro conjI impI)
  show "m' = m"
    using assms unfolding acquire_def Let_def by (auto split: prod.splits option.splits if_splits sum.splits)
  show "out = Acq_none" "w' = w"
    if "aq_acquire e = Replied \<and> rget (aq_t1 e) (lw_redis w) (leaseKey (lm_env m) client inst) \<noteq> None"
    using assms(1) that by (auto simp: acquire_def acquire_lua_def on_redis_def Let_def)
  assume a: "aq_acquire e = Replied \<and> rget (aq_t1 e) (lw_redis w) (leaseKey (lm_env m) client inst) = None \<and>
     aq_mint e \<noteq> Replied \<and> aq_release e = Replied"
  have "\<exists>v. out = Acq_none \<and>
    w' = snd (call (aq_release e) (on_redis (release_lua (aq_t3 e) (leaseKey (lm_env m) client inst)
             (pending_value (lm_worker m)))) v)"
    using assms(1) a
    by (cases "aq_mint e") (simp_all add: acquire_def acquire_lua_def on_redis_def Let_def case_prod_beta, blast+)
  then obtain v where v: "out = Acq_none"
    "w' = snd (call (aq_release e) (on_redis (release_lua (aq_t3 e) (leaseKey (lm_env m) client inst)
             (pending_value (lm_worker m)))) v)" by blast
  then show "out = Acq_none"
    and "rget (aq_t3 e) (lw_redis w') (leaseKey (lm_env m) client inst) \<noteq> Some (pending_value (lm_worker m))"
    using a by (auto simp: on_redis_def release_lua_def Let_def rget_def split: option.splits)
qed

definition demo_lost :: "acquire_outcome \<times> lease_manager \<times> lease_world" where
  "demo_lost = acquire demo_manager ''i'' ''c'' (demo_env\<lparr>aq_mint := Lost_after\<rparr>) demo_world"

lemma demo_lost_none: "fst demo_lost = Acq_none"
  by code_simp

lemma acquire_failure_claims_nothing_witness:
  "rget 102 (lw_redis (snd (snd demo_lost))) (leaseKey ''e'' ''c'' ''i'') \<noteq> Some (pending_value ''B'')"
proof -
  have "acquire demo_manager ''i'' ''c'' (demo_env\<lparr>aq_mint := Lost_after\<rparr>) demo_world
      = (Acq_none, fst (snd demo_lost), snd (snd demo_lost))"
    using demo_lost_none by (simp add: demo_lost_def prod_eq_iff)
  from acquire_failure_claims_nothing [OF this] show ?thesis
    by (simp add: demo_env_def demo_manager_def demo_world_def rget_def [of _ Map.empty])
qed

text \<open>A graceful \<open>release\<close> never evicts another owner, whichever of its two calls fail: only the
  lease's own key is deleted and only while it carries this worker's fence, every other key and row is
  untouched, no fence ever changes, and the Postgres release is attempted even when Redis failed and
  succeeds exactly when the lease predicate still holds.\<close>

theorem release_lease_evicts_only_itself:
  assumes "release_lease m l rr rp t1 t2 w = (ok, w')"
  shows "(lw_redis w' k \<noteq> lw_redis w k \<longrightarrow>
            k = leaseKey (lm_env m) (sl_client l) (sl_instance l) \<and>
            rget t1 (lw_redis w) k = Some (lease_value (sl_worker l) (sl_fence l)) \<and> lw_redis w' k = None) \<and>
         row_fence i (lw_pg w') = row_fence i (lw_pg w) \<and>
         (lw_pg w' i \<noteq> lw_pg w i \<longrightarrow>
            i = sl_instance l \<and> holds_lease (lw_pg w) i (sl_client l) (sl_fence l) (sl_worker l)) \<and>
         (rp = Replied \<longrightarrow>
            ok = Some (holds_lease (lw_pg w) (sl_instance l) (sl_client l) (sl_fence l) (sl_worker l)) \<and>
            \<not> holds_lease (lw_pg w') (sl_instance l) (sl_client l) (sl_fence l) (sl_worker l))"
  using assms
  by (cases rr; cases rp)
     (auto simp: release_lease_def Let_def on_redis_def release_lua_def lease_release_def row_fence_def
        holds_lease_iff split: if_splits)

lemma release_lease_evicts_only_itself_witness:
  "fst (release_lease demo_manager \<lparr>sl_instance = ''i'', sl_client = ''c'', sl_fence = 8, sl_worker = ''B'', sl_graceMs = 0\<rparr>
     Lost_before Replied 200 201 (snd (snd demo_acquired))) = Some True"
proof -
  let ?l = "\<lparr>sl_instance = ''i'', sl_client = ''c'', sl_fence = 8, sl_worker = ''B'', sl_graceMs = 0\<rparr>"
  let ?r = "release_lease demo_manager ?l Lost_before Replied 200 201 (snd (snd demo_acquired))"
  have "holds_lease (lw_pg (snd (snd demo_acquired))) ''i'' ''c'' 8 ''B''" by code_simp
  then show ?thesis
    using release_lease_evicts_only_itself [of demo_manager ?l Lost_before Replied 200 201 "snd (snd demo_acquired)"
        "fst ?r" "snd ?r"] by simp
qed

end
