(* ===== verification/Heartbeat.thy ===== *)
theory Heartbeat
  imports Lease_Manager
begin

text \<open>
  \<open>engine/lease/self-fence.ts\<close> (the three self-fence triggers) and
  \<open>engine/lease/heartbeat.ts\<close> (the held set and one renew tick). A tick awaits twice, so it
  is modelled with the \<open>add\<close>/\<open>remove\<close> calls that run during each wait as explicit lists.
  Monotonic times are nanoseconds.
\<close>

section \<open>self-fence.ts\<close>

datatype fence_lost_cause = Redis_renew_lost | Pg_fence_conflict | Watchdog

type_synonym self_fence_decision = "string \<times> fence_lost_cause"

definition evaluateRedisRenewLoss :: "string list \<Rightarrow> bool option list \<Rightarrow> self_fence_decision list" where
  "evaluateRedisRenewLoss instanceIds redisRenewed =
    map (\<lambda>(i, _). (i, Redis_renew_lost)) (filter (\<lambda>(_, r). r = Some False) (zip instanceIds redisRenewed))"

definition evaluatePgFenceConflict :: "string list \<Rightarrow> string set option \<Rightarrow> self_fence_decision list" where
  "evaluatePgFenceConflict instanceIds pgResult =
    (case pgResult of None \<Rightarrow> []
     | Some renewed \<Rightarrow> map (\<lambda>i. (i, Pg_fence_conflict)) (filter (\<lambda>i. i \<notin> renewed) instanceIds))"

definition evaluateWatchdog :: "(string \<times> int) list \<Rightarrow> int \<Rightarrow> int \<Rightarrow> self_fence_decision list" where
  "evaluateWatchdog watchdogStates nowNs watchdog_ms =
    (let deadlineNs = watchdog_ms * 1000000
     in map (\<lambda>(i, _). (i, Watchdog)) (filter (\<lambda>(_, last). nowNs - last \<ge> deadlineNs) watchdogStates))"

section \<open>heartbeat.ts\<close>

record heartbeat =
  hb_worker :: string
  hb_env :: string
  hb_timing :: timing
  hb_held :: "session_lease list"           \<comment> \<open>a JS Map: insertion order, one entry per instance\<close>
  hb_watchdog :: "string \<rightharpoonup> int"
  hb_claimingAllowed :: bool
  hb_lost :: "self_fence_decision list"     \<comment> \<open>the \<open>onFenceLost\<close> calls and \<open>wp_lease_lost_total\<close>, in order\<close>

definition hb_ids :: "heartbeat \<Rightarrow> string list" where
  "hb_ids hb = map sl_instance (hb_held hb)"

definition hb_add :: "session_lease \<Rightarrow> int \<Rightarrow> heartbeat \<Rightarrow> heartbeat" where
  "hb_add l nowNs hb =
    hb\<lparr>hb_held := (if sl_instance l \<in> set (hb_ids hb)
                   then map (\<lambda>x. if sl_instance x = sl_instance l then l else x) (hb_held hb)
                   else hb_held hb @ [l]),
       hb_watchdog := (hb_watchdog hb)(sl_instance l \<mapsto> nowNs)\<rparr>"

definition hb_remove :: "string \<Rightarrow> heartbeat \<Rightarrow> heartbeat" where
  "hb_remove i hb =
    hb\<lparr>hb_held := filter (\<lambda>x. sl_instance x \<noteq> i) (hb_held hb), hb_watchdog := (hb_watchdog hb)(i := None)\<rparr>"

datatype hb_op = Hb_add session_lease int | Hb_remove string

fun hb_apply :: "heartbeat \<Rightarrow> hb_op \<Rightarrow> heartbeat" where
  "hb_apply hb (Hb_add l nowNs) = hb_add l nowNs hb"
| "hb_apply hb (Hb_remove i) = hb_remove i hb"

text \<open>The watchdog baseline advances for the explicitly renewed instances that are still held.\<close>

definition advance_baselines :: "string list \<Rightarrow> bool list \<Rightarrow> int \<Rightarrow> heartbeat \<Rightarrow> heartbeat" where
  "advance_baselines instanceIds results nowNs hb =
    hb\<lparr>hb_watchdog := (\<lambda>i. if (i, True) \<in> set (zip instanceIds results) \<and> i \<in> set (hb_ids hb)
                            then Some nowNs else hb_watchdog hb i)\<rparr>"

text \<open>First decision per instance wins.\<close>

fun first_decisions :: "self_fence_decision list \<Rightarrow> self_fence_decision list" where
  "first_decisions [] = []"
| "first_decisions (d # ds) = d # filter (\<lambda>d'. fst d' \<noteq> fst d) (first_decisions ds)"

fun apply_decisions :: "self_fence_decision list \<Rightarrow> heartbeat \<Rightarrow> heartbeat" where
  "apply_decisions [] hb = hb"
| "apply_decisions (d # ds) hb =
     apply_decisions ds ((hb_remove (fst d) hb)\<lparr>hb_lost := hb_lost hb @ [d]\<rparr>)"

record tick_env =
  tk_redis :: "bool list option"     \<comment> \<open>the Redis reply; \<open>None\<close> is a rejection\<close>
  tk_ops1 :: "hb_op list"            \<comment> \<open>while awaiting Redis\<close>
  tk_now1 :: int
  tk_pg :: "string set option"       \<comment> \<open>the Postgres outcome; \<open>None\<close> is \<open>ok: false\<close>\<close>
  tk_ops2 :: "hb_op list"            \<comment> \<open>while awaiting Postgres\<close>
  tk_now2 :: int

definition tick_decisions :: "string list \<Rightarrow> tick_env \<Rightarrow> heartbeat \<Rightarrow> self_fence_decision list" where
  "tick_decisions ids e hb =
    evaluateRedisRenewLoss ids
      (case tk_redis e of None \<Rightarrow> map (\<lambda>_. None) ids | Some rs \<Rightarrow> map Some rs)
    @ evaluatePgFenceConflict ids (tk_pg e)
    @ evaluateWatchdog (map (\<lambda>i. (i, the (hb_watchdog hb i))) (filter (\<lambda>i. hb_watchdog hb i \<noteq> None) ids))
        (tk_now2 e) (watchdogMs (hb_timing hb))"

definition runTick :: "tick_env \<Rightarrow> heartbeat \<Rightarrow> heartbeat" where
  "runTick e hb =
    (let ids = hb_ids hb in
     if hb_held hb = [] then hb
     else let hb1 = foldl hb_apply hb (tk_ops1 e);
              hb2 = (case tk_redis e of None \<Rightarrow> hb1 | Some rs \<Rightarrow> advance_baselines ids rs (tk_now1 e) hb1);
              hb3 = (foldl hb_apply hb2 (tk_ops2 e))\<lparr>hb_claimingAllowed := (tk_pg e \<noteq> None)\<rparr>
          in apply_decisions (first_decisions (tick_decisions ids e hb3)) hb3)"

section \<open>Invariant\<close>

definition hb_wf :: "heartbeat \<Rightarrow> bool" where
  "hb_wf hb \<longleftrightarrow> distinct (hb_ids hb) \<and> (\<forall>i. hb_watchdog hb i \<noteq> None \<longleftrightarrow> i \<in> set (hb_ids hb))"

lemma hb_ids_remove [simp]: "hb_ids (hb_remove i hb) = filter (\<lambda>x. x \<noteq> i) (hb_ids hb)"
  by (simp add: hb_ids_def hb_remove_def filter_map comp_def)

lemma hb_ids_add: "hb_ids (hb_add l n hb) =
    (if sl_instance l \<in> set (hb_ids hb) then hb_ids hb else hb_ids hb @ [sl_instance l])"
  by (auto simp: hb_ids_def hb_add_def)

lemma hb_ids_upd [simp]:
  "hb_ids (hb\<lparr>hb_lost := x\<rparr>) = hb_ids hb" "hb_ids (hb\<lparr>hb_claimingAllowed := c\<rparr>) = hb_ids hb"
  "hb_ids (hb\<lparr>hb_watchdog := w\<rparr>) = hb_ids hb"
  by (simp_all add: hb_ids_def)

lemma hb_wf_add: "hb_wf hb \<Longrightarrow> hb_wf (hb_add l n hb)"
  unfolding hb_wf_def hb_ids_add by (auto simp: hb_add_def)

lemma hb_wf_remove: "hb_wf hb \<Longrightarrow> hb_wf (hb_remove i hb)"
  unfolding hb_wf_def hb_ids_remove by (auto simp: hb_remove_def)

lemma hb_wf_upd [simp]:
  "hb_wf (hb\<lparr>hb_lost := x\<rparr>) = hb_wf hb" "hb_wf (hb\<lparr>hb_claimingAllowed := c\<rparr>) = hb_wf hb"
  by (simp_all add: hb_wf_def)

lemma hb_wf_ops: "hb_wf hb \<Longrightarrow> hb_wf (foldl hb_apply hb ops)"
proof (induction ops arbitrary: hb)
  case (Cons op ops)
  then show ?case by (cases op) (auto intro: hb_wf_add hb_wf_remove)
qed simp

lemma hb_wf_advance: "hb_wf hb \<Longrightarrow> hb_wf (advance_baselines ids rs n hb)"
  by (auto simp: hb_wf_def advance_baselines_def)

lemma hb_wf_apply: "hb_wf hb \<Longrightarrow> hb_wf (apply_decisions ds hb)"
  by (induction ds hb rule: apply_decisions.induct) (auto intro: hb_wf_remove)

lemma runTick_wf: "hb_wf hb \<Longrightarrow> hb_wf (runTick e hb)"
  by (auto simp: runTick_def Let_def intro!: hb_wf_apply hb_wf_ops hb_wf_advance split: option.splits)

section \<open>What a tick decides\<close>

lemma first_decisions_ids: "fst ` set (first_decisions ds) = fst ` set ds"
proof (induction ds)
  case (Cons d ds)
  have "fst ` {x \<in> set (first_decisions ds). fst x \<noteq> fst d} = fst ` set (first_decisions ds) - {fst d}"
    by auto
  then show ?case using Cons by simp
qed simp

lemma first_decisions_distinct: "distinct (map fst (first_decisions ds))"
  by (induction ds rule: first_decisions.induct) (auto simp: distinct_map_filter)

lemma apply_decisions_ids: "hb_ids (apply_decisions ds hb) = filter (\<lambda>i. i \<notin> fst ` set ds) (hb_ids hb)"
  by (induction ds hb rule: apply_decisions.induct) (auto intro: filter_cong)

lemma apply_decisions_lost: "hb_lost (apply_decisions ds hb) = hb_lost hb @ ds"
  by (induction ds hb rule: apply_decisions.induct) (auto simp: hb_remove_def)

lemma apply_decisions_watchdog:
  "i \<notin> fst ` set ds \<Longrightarrow> hb_watchdog (apply_decisions ds hb) i = hb_watchdog hb i"
  by (induction ds hb rule: apply_decisions.induct) (auto simp: hb_remove_def)

lemma apply_decisions_fixed [simp]:
  "hb_claimingAllowed (apply_decisions ds hb) = hb_claimingAllowed hb"
  "hb_timing (apply_decisions ds hb) = hb_timing hb"
  by (induction ds hb rule: apply_decisions.induct) (auto simp: hb_remove_def)

lemma hb_ops_timing [simp]: "hb_timing (foldl hb_apply hb ops) = hb_timing hb"
proof (induction ops arbitrary: hb)
  case (Cons op ops)
  then show ?case by (cases op) (auto simp: hb_add_def hb_remove_def)
qed simp

lemma tick_decisions_ids:
  "i \<in> fst ` set (tick_decisions ids e hb) \<longleftrightarrow>
     i \<in> set ids \<and>
     ((\<exists>rs. tk_redis e = Some rs \<and> (i, False) \<in> set (zip ids rs)) \<or>
      (\<exists>renewed. tk_pg e = Some renewed \<and> i \<notin> renewed) \<or>
      (\<exists>last. hb_watchdog hb i = Some last \<and> tk_now2 e - last \<ge> watchdogMs (hb_timing hb) * 1000000))"
proof -
  have redis: "i \<in> fst ` set (evaluateRedisRenewLoss ids (map Some rs)) \<longleftrightarrow> (i, False) \<in> set (zip ids rs)" for rs
    by (force simp: evaluateRedisRenewLoss_def zip_map2 image_iff)
  have none: "evaluateRedisRenewLoss ids (map (\<lambda>_. None) ids) = []"
    by (auto simp: evaluateRedisRenewLoss_def filter_empty_conv zip_map2)
  have pg: "i \<in> fst ` set (evaluatePgFenceConflict ids p) \<longleftrightarrow> i \<in> set ids \<and> (\<exists>r. p = Some r \<and> i \<notin> r)" for p
    by (auto simp: evaluatePgFenceConflict_def image_iff split: option.splits)
  have wd: "i \<in> fst ` set (evaluateWatchdog
        (map (\<lambda>i. (i, the (hb_watchdog hb i))) (filter (\<lambda>i. hb_watchdog hb i \<noteq> None) ids)) n m)
      \<longleftrightarrow> i \<in> set ids \<and> (\<exists>last. hb_watchdog hb i = Some last \<and> n - last \<ge> m * 1000000)" for n m
    by (force simp: evaluateWatchdog_def image_iff Let_def)
  show ?thesis
    unfolding tick_decisions_def set_append image_Un Un_iff pg wd
    by (cases "tk_redis e") (auto simp: none redis dest: set_zip_leftD)
qed

lemma runTick_unfold:
  assumes "hb_held hb \<noteq> []"
  obtains hb3 where "hb_wf hb \<longrightarrow> hb_wf hb3" "hb_timing hb3 = hb_timing hb"
    "hb_claimingAllowed hb3 = (tk_pg e \<noteq> None)"
    "runTick e hb = apply_decisions (first_decisions (tick_decisions (hb_ids hb) e hb3)) hb3"
    "tk_ops1 e = [] \<and> tk_ops2 e = [] \<longrightarrow> hb_ids hb3 = hb_ids hb \<and> hb_lost hb3 = hb_lost hb \<and>
       (\<forall>i. hb_watchdog hb3 i = (case tk_redis e of Some rs \<Rightarrow>
          if (i, True) \<in> set (zip (hb_ids hb) rs) \<and> i \<in> set (hb_ids hb) then Some (tk_now1 e) else hb_watchdog hb i
        | None \<Rightarrow> hb_watchdog hb i))"
proof -
  define hb1 where "hb1 = foldl hb_apply hb (tk_ops1 e)"
  define hb2 where "hb2 = (case tk_redis e of None \<Rightarrow> hb1 | Some rs \<Rightarrow> advance_baselines (hb_ids hb) rs (tk_now1 e) hb1)"
  define hb3 where "hb3 = (foldl hb_apply hb2 (tk_ops2 e))\<lparr>hb_claimingAllowed := (tk_pg e \<noteq> None)\<rparr>"
  show ?thesis
  proof (rule that [of hb3])
    show "hb_wf hb \<longrightarrow> hb_wf hb3"
      by (auto simp: hb3_def hb2_def hb1_def intro!: hb_wf_ops hb_wf_advance split: option.splits)
    show "hb_timing hb3 = hb_timing hb"
      by (simp add: hb3_def hb2_def hb1_def advance_baselines_def split: option.splits)
    show "hb_claimingAllowed hb3 = (tk_pg e \<noteq> None)" by (simp add: hb3_def)
    show "runTick e hb = apply_decisions (first_decisions (tick_decisions (hb_ids hb) e hb3)) hb3"
      unfolding runTick_def Let_def hb3_def hb2_def hb1_def using assms by (simp only: if_False)
    show "tk_ops1 e = [] \<and> tk_ops2 e = [] \<longrightarrow> hb_ids hb3 = hb_ids hb \<and> hb_lost hb3 = hb_lost hb \<and>
       (\<forall>i. hb_watchdog hb3 i = (case tk_redis e of Some rs \<Rightarrow>
          if (i, True) \<in> set (zip (hb_ids hb) rs) \<and> i \<in> set (hb_ids hb) then Some (tk_now1 e) else hb_watchdog hb i
        | None \<Rightarrow> hb_watchdog hb i))"
      by (auto simp: hb3_def hb2_def hb1_def advance_baselines_def split: option.splits)
  qed
qed

section \<open>Properties\<close>

text \<open>C19. After every tick, whatever leases are added or removed while it waits, each lease of the
  tick's snapshot that is still held was not refused by Redis, was confirmed by Postgres if Postgres
  answered, and had a successful Redis renewal less than \<open>watchdogMs\<close> ago; each dropped instance is
  reported once; new claims are allowed exactly when Postgres answered; and the held set stays
  well formed.\<close>

theorem tick_keeps_only_live_leases:
  assumes "hb_wf hb" "hb_held hb \<noteq> []"
  shows "hb_wf (runTick e hb) \<and>
    hb_claimingAllowed (runTick e hb) = (tk_pg e \<noteq> None) \<and>
    (\<forall>i \<in> set (hb_ids hb) \<inter> set (hb_ids (runTick e hb)).
       (\<forall>rs. tk_redis e = Some rs \<longrightarrow> (i, False) \<notin> set (zip (hb_ids hb) rs)) \<and>
       (\<forall>renewed. tk_pg e = Some renewed \<longrightarrow> i \<in> renewed) \<and>
       (\<exists>last. hb_watchdog (runTick e hb) i = Some last \<and>
               tk_now2 e - last < watchdogMs (hb_timing hb) * 1000000)) \<and>
    (\<exists>ds. distinct (map fst ds) \<and> suffix ds (hb_lost (runTick e hb)) \<and> fst ` set ds \<inter> set (hb_ids (runTick e hb)) = {})"
proof -
  obtain hb3 where 3: "hb_wf hb \<longrightarrow> hb_wf hb3" "hb_timing hb3 = hb_timing hb"
    "hb_claimingAllowed hb3 = (tk_pg e \<noteq> None)"
    "runTick e hb = apply_decisions (first_decisions (tick_decisions (hb_ids hb) e hb3)) hb3"
    by (rule runTick_unfold [OF assms(2), of e])
  have kept: "i \<in> set (hb_ids hb3) \<and> i \<notin> fst ` set (tick_decisions (hb_ids hb) e hb3)"
    if "i \<in> set (hb_ids (runTick e hb))" for i
    using that by (simp add: 3(4) apply_decisions_ids first_decisions_ids)
  have fresh: "\<exists>last. hb_watchdog (runTick e hb) i = Some last \<and>
               tk_now2 e - last < watchdogMs (hb_timing hb) * 1000000"
    if i: "i \<in> set (hb_ids hb)" "i \<in> set (hb_ids (runTick e hb))" for i
  proof -
    have "hb_wf hb3" using 3(1) assms(1) by simp
    then obtain last where "hb_watchdog hb3 i = Some last" using kept [OF i(2)] by (auto simp: hb_wf_def)
    moreover have "hb_watchdog (runTick e hb) i = hb_watchdog hb3 i"
      using kept [OF i(2)] by (simp add: 3(4) apply_decisions_watchdog first_decisions_ids)
    ultimately show ?thesis using kept [OF i(2)] i(1) by (auto simp: tick_decisions_ids 3(2))
  qed
  have answers: "(\<forall>rs. tk_redis e = Some rs \<longrightarrow> (i, False) \<notin> set (zip (hb_ids hb) rs)) \<and>
       (\<forall>renewed. tk_pg e = Some renewed \<longrightarrow> i \<in> renewed)"
    if "i \<in> set (hb_ids hb)" "i \<in> set (hb_ids (runTick e hb))" for i
    using kept [OF that(2)] that(1) by (auto simp: tick_decisions_ids)
  have reported: "\<exists>ds. distinct (map fst ds) \<and> suffix ds (hb_lost (runTick e hb)) \<and>
      fst ` set ds \<inter> set (hb_ids (runTick e hb)) = {}"
    unfolding 3(4) apply_decisions_lost apply_decisions_ids using first_decisions_distinct
    by (intro exI [of _ "first_decisions (tick_decisions (hb_ids hb) e hb3)"]) (auto simp: suffix_def)
  have claim: "hb_claimingAllowed (runTick e hb) = (tk_pg e \<noteq> None)"
    unfolding 3(4) using 3(3) by simp
  show ?thesis
    by (intro conjI ballI runTick_wf [OF assms(1)] claim reported) (use fresh answers in blast)+
qed

definition demo_hb :: heartbeat where
  "demo_hb = \<lparr>hb_worker = ''A'', hb_env = ''e'', hb_timing = TIMING,
     hb_held = [\<lparr>sl_instance = ''i'', sl_client = ''c'', sl_fence = 1, sl_worker = ''A'', sl_graceMs = 0\<rparr>,
                \<lparr>sl_instance = ''j'', sl_client = ''c'', sl_fence = 4, sl_worker = ''A'', sl_graceMs = 0\<rparr>],
     hb_watchdog = [''i'' \<mapsto> 0, ''j'' \<mapsto> 0], hb_claimingAllowed = True, hb_lost = []\<rparr>"

definition demo_tick :: tick_env where
  "demo_tick = \<lparr>tk_redis = Some [True, False], tk_ops1 = [], tk_now1 = 10000000000, tk_pg = None,
     tk_ops2 = [], tk_now2 = 20000000000\<rparr>"

lemma demo_hb_wf: "hb_wf demo_hb" "hb_held demo_hb \<noteq> []"
  by (auto simp: hb_wf_def hb_ids_def demo_hb_def)

lemma tick_keeps_only_live_leases_witness: "hb_wf (runTick demo_tick demo_hb)"
  using tick_keeps_only_live_leases [OF demo_hb_wf, of demo_tick] by blast

text \<open>Only an explicit signal drops a lease: with nothing added or removed during the tick, the
  leases dropped are exactly those Redis refused, those a Postgres that answered did not return, and
  those past the watchdog deadline. A Postgres outage alone, or a Redis rejection within the deadline,
  drops none.\<close>

theorem tick_drops_exactly_on_triggers:
  assumes "hb_wf hb" "hb_held hb \<noteq> []" "tk_ops1 e = []" "tk_ops2 e = []" "i \<in> set (hb_ids hb)"
  shows "i \<notin> set (hb_ids (runTick e hb)) \<longleftrightarrow>
    (\<exists>rs. tk_redis e = Some rs \<and> (i, False) \<in> set (zip (hb_ids hb) rs)) \<or>
    (\<exists>renewed. tk_pg e = Some renewed \<and> i \<notin> renewed) \<or>
    tk_now2 e - (case tk_redis e of
        Some rs \<Rightarrow> if (i, True) \<in> set (zip (hb_ids hb) rs) then tk_now1 e else the (hb_watchdog hb i)
      | None \<Rightarrow> the (hb_watchdog hb i)) \<ge> watchdogMs (hb_timing hb) * 1000000"
proof -
  obtain hb3 where 3: "hb_timing hb3 = hb_timing hb"
    "runTick e hb = apply_decisions (first_decisions (tick_decisions (hb_ids hb) e hb3)) hb3"
    "hb_ids hb3 = hb_ids hb"
    "\<forall>i. hb_watchdog hb3 i = (case tk_redis e of Some rs \<Rightarrow>
          if (i, True) \<in> set (zip (hb_ids hb) rs) \<and> i \<in> set (hb_ids hb) then Some (tk_now1 e) else hb_watchdog hb i
        | None \<Rightarrow> hb_watchdog hb i)"
    by (rule runTick_unfold [OF assms(2), of e]) (use assms(3,4) in simp)
  obtain b where b: "hb_watchdog hb i = Some b" using assms(1,5) by (auto simp: hb_wf_def)
  show ?thesis
    using assms(5) b unfolding 3(2) apply_decisions_ids first_decisions_ids
    by (auto simp: 3(1,3) 3(4) tick_decisions_ids split: option.splits if_splits)
qed

lemma tick_drops_exactly_on_triggers_witness:
  "''i'' \<in> set (hb_ids (runTick demo_tick demo_hb)) \<and> ''j'' \<notin> set (hb_ids (runTick demo_tick demo_hb))"
  using tick_drops_exactly_on_triggers [OF demo_hb_wf, of demo_tick "''i''"]
    tick_drops_exactly_on_triggers [OF demo_hb_wf, of demo_tick "''j''"]
  by (simp add: demo_tick_def demo_hb_def hb_ids_def TIMING_def)

text \<open>The takeover budget closes the split-brain window: if worker A's renewal of its Redis key
  succeeded at time \<open>t\<close> and the key is next won by another worker's \<open>acquire\<close> at \<open>ta\<close>, then the first
  watchdog evaluation of A that is due (evaluations are at most one heartbeat interval plus the two
  bounded store calls apart) both fires for A's lease and happens before the new owner's takeover
  grace has passed and it may open a socket.\<close>

theorem takeover_waits_for_watchdog:
  assumes "(key, v) \<in> set es" "rget t r key = Some v"
    and "r' key = snd (renew_batch_lua t (leaseTtlMs TIMING) es r) key"
    and "fst (acquire_lua ta key B ttl r')"
    and "base \<le> t + redisCommandTimeoutMs TIMING"
    and "prev_eval < base + watchdogMs TIMING" "base + watchdogMs TIMING \<le> eval"
    and "eval \<le> prev_eval + heartbeatMs TIMING + redisCommandTimeoutMs TIMING
           + pgConnectTimeoutMs TIMING + pgStatementTimeoutMs TIMING"
  shows "(inst, Watchdog) \<in> set (evaluateWatchdog [(inst, base * 1000000)] (eval * 1000000) (watchdogMs TIMING)) \<and>
         t + leaseTtlMs TIMING \<le> ta \<and> eval < ta + takeoverGraceMs TIMING"
proof -
  have ttl: "0 < leaseTtlMs TIMING" by (simp add: TIMING_def)
  have "r' key = Some (v, t + leaseTtlMs TIMING)"
    unfolding assms(3) using conjunct2 [OF renew_batch_lua_spec [OF ttl, of t es r], rule_format, of key] assms(1,2)
    by auto
  then have "t + leaseTtlMs TIMING \<le> ta"
    using assms(4) by (auto simp: acquire_lua_def rget_def split: if_splits)
  moreover have "eval < t + leaseTtlMs TIMING + takeoverGraceMs TIMING"
    using assms(5,6,8) by (simp add: TIMING_def)
  ultimately show ?thesis using assms(7) by (auto simp: evaluateWatchdog_def TIMING_def)
qed

lemma takeover_waits_for_watchdog_witness:
  "(''i'', Watchdog) \<in> set (evaluateWatchdog [(''i'', 1000 * 1000000)] (16000 * 1000000) (watchdogMs TIMING))"
  using takeover_waits_for_watchdog [of "''k''" "''A|1''" "[(''k'', ''A|1'')]" 0 "[''k'' \<mapsto> (''A|1'', 5)]"
      "[''k'' \<mapsto> (''A|1'', 30000)]" 30000 "''B''" 30000 1000 6000 16000 "''i''"]
  by (simp add: rget_def acquire_lua_def TIMING_def)

end
