(* ===== verification/Session.thy ===== *)
theory Session
  imports Prelude "HOL-Library.Word" Complex_Main
begin

text \<open>
  The pure parts of the session life cycle: \<open>packages/domain/src/instance/session-fsm.ts\<close>,
  \<open>reconnect-policy.ts\<close> and \<open>user-action-reasons.ts\<close>, the provider's disconnect table
  \<open>provider/baileys/disconnect-map.ts\<close> and the seam \<open>engine/session/to-fsm-row.ts\<close>.
  Delays are exact reals; the stagger hash is a 32-bit word.
\<close>

unbundle bit_operations_syntax

section \<open>session-fsm.ts\<close>

datatype wa_health = Never_linked | Connected | Degraded | Paused | Logged_out
datatype wa_link = Unlinked | Pairing | Linked
datatype desired_state = Online | Offline

datatype user_action_reason =
    PAIRING_EXPIRED | RECONNECT_FAILED | RESTRICTION_SIGNAL | SESSION_REPLACED | RELINK_REQUIRED
  | INFRA_UNAVAILABLE

datatype side_effect = Purge_auth | Audit | Notify | End_socket | Release_lease

record instance_snapshot =
  healthState :: wa_health
  linkState :: wa_link
  desiredState :: desired_state
  needsUserAction :: bool
  userActionReason :: "user_action_reason option"

text \<open>A missing key is \<open>None\<close>; \<open>userActionReason: null\<close> is \<open>Some None\<close>. There is no desired-state field.\<close>

record transition =
  tr_health :: "wa_health option"
  tr_link :: "wa_link option"
  tr_needsUserAction :: "bool option"
  tr_userActionReason :: "user_action_reason option option"
  tr_sideEffects :: "side_effect list"

datatype fsm_budget = B_restart515 | B_limited2
datatype fsm_action = A_stay | A_reconnect | A_restriction | A_purge | A_session_replaced

record fsm_row =
  fr_health :: wa_health
  fr_link :: wa_link
  fr_autoReconnect :: bool
  fr_budget :: "fsm_budget option"
  fr_action :: fsm_action
  fr_surfaceAsError :: bool

record counters =
  restart515Used :: nat
  unknownAttempts :: nat

fun LEGAL_HEALTH_TRANSITIONS :: "wa_health \<Rightarrow> wa_health list" where
  "LEGAL_HEALTH_TRANSITIONS Never_linked = [Connected]"
| "LEGAL_HEALTH_TRANSITIONS Connected = [Degraded, Paused, Logged_out]"
| "LEGAL_HEALTH_TRANSITIONS Degraded = [Connected, Paused, Logged_out]"
| "LEGAL_HEALTH_TRANSITIONS Paused = [Connected, Logged_out]"
| "LEGAL_HEALTH_TRANSITIONS Logged_out = [Connected]"

fun LEGAL_LINK_TRANSITIONS :: "wa_link \<Rightarrow> wa_link list" where
  "LEGAL_LINK_TRANSITIONS Unlinked = [Pairing]"
| "LEGAL_LINK_TRANSITIONS Pairing = [Linked, Unlinked]"
| "LEGAL_LINK_TRANSITIONS Linked = [Unlinked]"

datatype fsm_error = Illegal_health wa_health wa_health | Illegal_link wa_link wa_link

definition assertLegalHealth :: "wa_health \<Rightarrow> wa_health \<Rightarrow> (fsm_error, unit) result" where
  "assertLegalHealth from to =
    (if to \<notin> set (LEGAL_HEALTH_TRANSITIONS from) then Err (Illegal_health from to) else Ok ())"

definition assertLegalLink :: "wa_link \<Rightarrow> wa_link \<Rightarrow> (fsm_error, unit) result" where
  "assertLegalLink from to =
    (if to \<notin> set (LEGAL_LINK_TRANSITIONS from) then Err (Illegal_link from to) else Ok ())"

definition beginPairing :: "instance_snapshot \<Rightarrow> (fsm_error, transition) result" where
  "beginPairing snap = bindR (assertLegalLink (linkState snap) Pairing) (\<lambda>_.
     Ok \<lparr>tr_health = None, tr_link = Some Pairing, tr_needsUserAction = Some False,
         tr_userActionReason = Some None, tr_sideEffects = []\<rparr>)"

definition pairingSucceeded :: "instance_snapshot \<Rightarrow> (fsm_error, transition) result" where
  "pairingSucceeded snap = bindR (assertLegalLink (linkState snap) Linked) (\<lambda>_.
     bindR (assertLegalHealth (healthState snap) Connected) (\<lambda>_.
     Ok \<lparr>tr_health = Some Connected, tr_link = Some Linked, tr_needsUserAction = Some False,
         tr_userActionReason = Some None, tr_sideEffects = [Audit]\<rparr>))"

definition pairingExpired :: "instance_snapshot \<Rightarrow> (fsm_error, transition) result" where
  "pairingExpired snap = bindR (assertLegalLink (linkState snap) Unlinked) (\<lambda>_.
     Ok \<lparr>tr_health = None, tr_link = Some Unlinked, tr_needsUserAction = Some True,
         tr_userActionReason = Some (Some PAIRING_EXPIRED), tr_sideEffects = [Audit, Notify]\<rparr>)"

definition pause_for :: "user_action_reason \<Rightarrow> transition" where
  "pause_for r = \<lparr>tr_health = Some Paused, tr_link = None, tr_needsUserAction = Some True,
     tr_userActionReason = Some (Some r), tr_sideEffects = [Audit, Notify]\<rparr>"

definition quiet :: "side_effect list \<Rightarrow> transition" where
  "quiet es = \<lparr>tr_health = None, tr_link = None, tr_needsUserAction = None,
     tr_userActionReason = None, tr_sideEffects = es\<rparr>"

definition applyUnknown :: "counters \<Rightarrow> transition \<times> counters" where
  "applyUnknown ctx =
    (let attemptsAfter = unknownAttempts ctx + 1 in
     if attemptsAfter < 2
     then ((quiet [])\<lparr>tr_health := Some Degraded\<rparr>, ctx\<lparr>unknownAttempts := attemptsAfter\<rparr>)
     else (pause_for RECONNECT_FAILED, ctx\<lparr>unknownAttempts := attemptsAfter\<rparr>))"

definition applyRestart515 :: "counters \<Rightarrow> transition \<times> counters" where
  "applyRestart515 ctx =
    (let usedAfter = restart515Used ctx + 1 in
     if usedAfter \<le> 2 then (quiet [], ctx\<lparr>restart515Used := usedAfter\<rparr>)
     else applyUnknown (ctx\<lparr>restart515Used := usedAfter\<rparr>))"

definition applyDisconnect :: "fsm_row \<Rightarrow> counters \<Rightarrow> bool \<Rightarrow> transition \<times> counters" where
  "applyDisconnect row ctx expectedTakeover =
    (if fr_budget row = Some B_restart515 then applyRestart515 ctx
     else if fr_budget row = Some B_limited2 then applyUnknown ctx
     else (case fr_action row of
       A_restriction \<Rightarrow> (pause_for RESTRICTION_SIGNAL, ctx)
     | A_purge \<Rightarrow> (\<lparr>tr_health = Some Logged_out, tr_link = Some Unlinked, tr_needsUserAction = Some True,
          tr_userActionReason = Some (Some RELINK_REQUIRED),
          tr_sideEffects = [Purge_auth, Audit, Notify]\<rparr>, ctx)
     | A_session_replaced \<Rightarrow>
         if expectedTakeover then (quiet [End_socket], ctx) else (pause_for SESSION_REPLACED, ctx)
     | _ \<Rightarrow> (pause_for RECONNECT_FAILED, ctx)))"

section \<open>disconnect-map.ts\<close>

datatype src_link = L_unchanged | L_linked | L_unlinked
datatype src_budget = SB_backoff | SB_restart515 | SB_none | SB_limited2
datatype src_action = SA_none | SA_purge_relink | SA_restriction_pause | SA_session_replaced | SA_unmapped

record policy_row =
  pr_health :: wa_health
  pr_link :: src_link
  pr_autoReconnect :: bool
  pr_budget :: src_budget
  pr_action :: src_action
  pr_surfaceAsError :: bool
  pr_baseMultiplier :: "nat option"

definition UNKNOWN_CODE_POLICY :: policy_row where
  "UNKNOWN_CODE_POLICY = \<lparr>pr_health = Degraded, pr_link = L_unchanged, pr_autoReconnect = True,
     pr_budget = SB_limited2, pr_action = SA_unmapped, pr_surfaceAsError = True, pr_baseMultiplier = None\<rparr>"

definition transient_row :: "nat option \<Rightarrow> policy_row" where
  "transient_row mult = \<lparr>pr_health = Degraded, pr_link = L_unchanged, pr_autoReconnect = True,
     pr_budget = SB_backoff, pr_action = SA_none, pr_surfaceAsError = True, pr_baseMultiplier = mult\<rparr>"

definition purge_row :: policy_row where
  "purge_row = \<lparr>pr_health = Logged_out, pr_link = L_unlinked, pr_autoReconnect = False,
     pr_budget = SB_none, pr_action = SA_purge_relink, pr_surfaceAsError = True, pr_baseMultiplier = None\<rparr>"

definition restriction_row :: policy_row where
  "restriction_row = \<lparr>pr_health = Paused, pr_link = L_linked, pr_autoReconnect = False,
     pr_budget = SB_none, pr_action = SA_restriction_pause, pr_surfaceAsError = True, pr_baseMultiplier = None\<rparr>"

definition DISCONNECT_MAP :: "nat \<rightharpoonup> policy_row" where
  "DISCONNECT_MAP = [
     515 \<mapsto> \<lparr>pr_health = Connected, pr_link = L_linked, pr_autoReconnect = True, pr_budget = SB_restart515,
            pr_action = SA_none, pr_surfaceAsError = False, pr_baseMultiplier = None\<rparr>,
     428 \<mapsto> transient_row None, 408 \<mapsto> transient_row None, 503 \<mapsto> transient_row (Some 5),
     440 \<mapsto> \<lparr>pr_health = Paused, pr_link = L_linked, pr_autoReconnect = False, pr_budget = SB_none,
            pr_action = SA_session_replaced, pr_surfaceAsError = True, pr_baseMultiplier = None\<rparr>,
     401 \<mapsto> purge_row, 403 \<mapsto> restriction_row, 402 \<mapsto> restriction_row, 406 \<mapsto> restriction_row,
     411 \<mapsto> purge_row, 500 \<mapsto> purge_row]"

definition resolveDisconnect :: "nat \<Rightarrow> policy_row \<times> bool" where
  "resolveDisconnect code =
    (case DISCONNECT_MAP code of None \<Rightarrow> (UNKNOWN_CODE_POLICY, False) | Some row \<Rightarrow> (row, True))"

section \<open>to-fsm-row.ts\<close>

fun mapNoneActionBudget :: "src_budget \<Rightarrow> fsm_budget option" where
  "mapNoneActionBudget SB_backoff = None"
| "mapNoneActionBudget SB_restart515 = Some B_restart515"
| "mapNoneActionBudget SB_none = None"
| "mapNoneActionBudget SB_limited2 = Some B_limited2"

definition mapActionAndBudget :: "src_action \<Rightarrow> src_budget \<Rightarrow> fsm_action \<times> fsm_budget option" where
  "mapActionAndBudget action budget =
    (if budget = SB_restart515 then (A_stay, Some B_restart515)
     else (case action of
       SA_none \<Rightarrow> (A_reconnect, mapNoneActionBudget budget)
     | SA_purge_relink \<Rightarrow> (A_purge, None)
     | SA_restriction_pause \<Rightarrow> (A_restriction, None)
     | SA_session_replaced \<Rightarrow> (A_session_replaced, None)
     | SA_unmapped \<Rightarrow> (A_reconnect, Some B_limited2)))"

fun resolveLinkState :: "src_link \<Rightarrow> wa_link \<Rightarrow> wa_link" where
  "resolveLinkState L_unchanged current = current"
| "resolveLinkState L_linked current = Linked"
| "resolveLinkState L_unlinked current = Unlinked"

definition toFsmRow :: "policy_row \<Rightarrow> wa_link \<Rightarrow> fsm_row" where
  "toFsmRow row currentLinkState =
    (let (action, budget) = mapActionAndBudget (pr_action row) (pr_budget row)
     in \<lparr>fr_health = pr_health row, fr_link = resolveLinkState (pr_link row) currentLinkState,
         fr_autoReconnect = pr_autoReconnect row, fr_budget = budget, fr_action = action,
         fr_surfaceAsError = pr_surfaceAsError row\<rparr>)"

section \<open>reconnect-policy.ts\<close>

definition BASE_DELAY_MS :: real where "BASE_DELAY_MS = 2000"
definition CAP_DELAY_MS :: real where "CAP_DELAY_MS = 300000"
definition MAX_ATTEMPTS :: nat where "MAX_ATTEMPTS = 8"

text \<open>The loop of \<open>fnv1aHash\<close>, shifts and additions modulo \<open>2^32\<close> as written.\<close>

definition fnv1a_step :: "32 word \<Rightarrow> nat \<Rightarrow> 32 word" where
  "fnv1a_step hash c =
    (let h = hash XOR word_of_nat c
     in h + push_bit 1 h + push_bit 4 h + push_bit 7 h + push_bit 8 h + push_bit 24 h)"

definition fnv1aHash :: "nat list \<Rightarrow> 32 word" where
  "fnv1aHash input = foldl fnv1a_step 0x811c9dc5 input"

definition staggerMs :: "nat list \<Rightarrow> nat" where
  "staggerMs instanceId = unat (fnv1aHash instanceId) mod 5000"

text \<open>\<open>2 ** (attempt - 1)\<close> is \<open>2 ^ attempt / 2\<close>, which also covers attempt 0.\<close>

definition ceilingMs :: "nat \<Rightarrow> real \<Rightarrow> real" where
  "ceilingMs attempt baseMultiplier = min CAP_DELAY_MS (BASE_DELAY_MS * baseMultiplier * (2 ^ attempt / 2))"

definition nextDelayMs :: "nat \<Rightarrow> nat list \<Rightarrow> real \<Rightarrow> nat option \<Rightarrow> real" where
  "nextDelayMs attempt instanceId u baseMultiplier =
    (let mult = (case baseMultiplier of None \<Rightarrow> 1 | Some m \<Rightarrow> real m)
     in u * ceilingMs attempt mult + real (staggerMs instanceId))"

definition shouldGiveUp :: "nat \<Rightarrow> bool" where
  "shouldGiveUp attempt \<longleftrightarrow> attempt > MAX_ATTEMPTS"

definition onOpen :: "int \<Rightarrow> int \<Rightarrow> nat \<Rightarrow> nat" where
  "onOpen openedAtMs closedAtMs attempt = (if closedAtMs - openedAtMs > 60000 then 0 else attempt)"

section \<open>Lemmas\<close>

lemma fnv1a_step_mult: "fnv1a_step h c = (h XOR word_of_nat c) * 16777619"
  unfolding fnv1a_step_def Let_def push_bit_eq_mult by (simp add: algebra_simps)

lemma resolveDisconnect_cases:
  "fst (resolveDisconnect c) =
    (if c = 515 then \<lparr>pr_health = Connected, pr_link = L_linked, pr_autoReconnect = True,
        pr_budget = SB_restart515, pr_action = SA_none, pr_surfaceAsError = False, pr_baseMultiplier = None\<rparr>
     else if c = 428 \<or> c = 408 then transient_row None
     else if c = 503 then transient_row (Some 5)
     else if c = 440 then \<lparr>pr_health = Paused, pr_link = L_linked, pr_autoReconnect = False,
        pr_budget = SB_none, pr_action = SA_session_replaced, pr_surfaceAsError = True, pr_baseMultiplier = None\<rparr>
     else if c = 401 \<or> c = 411 \<or> c = 500 then purge_row
     else if c = 403 \<or> c = 402 \<or> c = 406 then restriction_row
     else UNKNOWN_CODE_POLICY)"
  by (auto simp: resolveDisconnect_def DISCONNECT_MAP_def)

lemmas session_rows = transient_row_def purge_row_def restriction_row_def UNKNOWN_CODE_POLICY_def
  toFsmRow_def mapActionAndBudget_def

text \<open>The outcome of a close code, end to end through the three modules.\<close>

definition disconnect_outcome :: "nat \<Rightarrow> wa_link \<Rightarrow> counters \<Rightarrow> bool \<Rightarrow> transition \<times> counters" where
  "disconnect_outcome code link ctx takeover =
     applyDisconnect (toFsmRow (fst (resolveDisconnect code)) link) ctx takeover"

lemma disconnect_outcome_known:
  "disconnect_outcome 515 l ctx t = applyRestart515 ctx"
  "c \<in> {428, 408, 503} \<Longrightarrow> disconnect_outcome c l ctx t = (pause_for RECONNECT_FAILED, ctx)"
  "c \<in> {403, 402, 406} \<Longrightarrow> disconnect_outcome c l ctx t = (pause_for RESTRICTION_SIGNAL, ctx)"
  "c \<in> {401, 411, 500} \<Longrightarrow> tr_health (fst (disconnect_outcome c l ctx t)) = Some Logged_out \<and>
      snd (disconnect_outcome c l ctx t) = ctx"
  "disconnect_outcome 440 l ctx t = (if t then quiet [End_socket] else pause_for SESSION_REPLACED, ctx)"
  "c \<notin> {515, 428, 408, 503, 403, 402, 406, 401, 411, 500, 440} \<Longrightarrow>
      disconnect_outcome c l ctx t = applyUnknown ctx"
  by (auto simp: disconnect_outcome_def resolveDisconnect_cases session_rows applyDisconnect_def)

lemma ceilingMs_mono: "a \<le> b \<Longrightarrow> 0 \<le> m \<Longrightarrow> ceilingMs a m \<le> ceilingMs b m"
  unfolding ceilingMs_def BASE_DELAY_MS_def
  by (intro min.mono order.refl mult_left_mono divide_right_mono power_increasing) auto

lemma ceilingMs_bounds: "0 \<le> m \<Longrightarrow> 0 \<le> ceilingMs a m \<and> ceilingMs a m \<le> CAP_DELAY_MS"
  by (simp add: ceilingMs_def BASE_DELAY_MS_def CAP_DELAY_MS_def)

definition never_reconnect_codes :: "nat set" where
  "never_reconnect_codes = {401, 402, 403, 406, 411, 440, 500}"

lemma never_reconnect_outcome:
  assumes "code \<in> never_reconnect_codes"
  shows "\<not> pr_autoReconnect (fst (resolveDisconnect code))"
    and "fst (disconnect_outcome code l ctx t) = quiet [End_socket] \<or>
         tr_health (fst (disconnect_outcome code l ctx t)) \<in> {Some Paused, Some Logged_out} \<and>
         End_socket \<notin> set (tr_sideEffects (fst (disconnect_outcome code l ctx t)))"
  using assms
  by (auto simp: never_reconnect_codes_def resolveDisconnect_cases disconnect_outcome_def session_rows
      applyDisconnect_def pause_for_def quiet_def)

section \<open>Properties\<close>

text \<open>C25. Restriction safety: the disconnect codes the engine reconnects after are exactly those
  outside 401, 402, 403, 406, 411, 440 and 500. Each of these seven leaves the instance paused or
  logged out and waiting for a user, except a 440 during an expected takeover, which only ends the
  socket; and no disconnect, of any code and counters, ever moves an instance to connected or linked.\<close>

theorem restriction_codes_never_reconnect:
  "(pr_autoReconnect (fst (resolveDisconnect code)) \<longleftrightarrow> code \<notin> never_reconnect_codes) \<and>
   (code \<in> never_reconnect_codes \<longrightarrow> \<not> (code = 440 \<and> takeover) \<longrightarrow>
      tr_health (fst (disconnect_outcome code link ctx takeover)) \<in> {Some Paused, Some Logged_out} \<and>
      tr_needsUserAction (fst (disconnect_outcome code link ctx takeover)) = Some True) \<and>
   (code = 440 \<and> takeover \<longrightarrow> disconnect_outcome code link ctx takeover = (quiet [End_socket], ctx)) \<and>
   tr_health (fst (disconnect_outcome code link ctx takeover)) \<noteq> Some Connected \<and>
   tr_link (fst (disconnect_outcome code link ctx takeover)) \<in> {None, Some Unlinked}"
  by (auto simp: never_reconnect_codes_def resolveDisconnect_cases disconnect_outcome_def session_rows
      applyDisconnect_def applyUnknown_def applyRestart515_def Let_def pause_for_def quiet_def)

lemma restriction_codes_never_reconnect_witness:
  "tr_needsUserAction (fst (disconnect_outcome 403 Linked \<lparr>restart515Used = 0, unknownAttempts = 0\<rparr> False)) = Some True"
  using restriction_codes_never_reconnect [of 403 False Linked "\<lparr>restart515Used = 0, unknownAttempts = 0\<rparr>"]
  by (simp add: never_reconnect_codes_def)

text \<open>The ordinary transient codes 428, 408 and 503 pause the instance with
  \<open>RECONNECT_FAILED\<close> on their first occurrence: the policy row asks for \<open>degraded\<close> and an automatic
  reconnect, but the seam maps it to an action \<open>applyDisconnect\<close> has no branch for, so the fail-safe
  default applies, whatever the counters and the link state.\<close>

theorem transient_close_pauses:
  assumes "code \<in> {428, 408, 503}"
  shows "pr_health (fst (resolveDisconnect code)) = Degraded \<and> pr_autoReconnect (fst (resolveDisconnect code)) \<and>
    disconnect_outcome code link ctx takeover = (pause_for RECONNECT_FAILED, ctx)"
  using assms disconnect_outcome_known(2) [OF assms] by (auto simp: resolveDisconnect_cases transient_row_def)

lemma transient_close_pauses_witness:
  "tr_health (fst (disconnect_outcome 428 Linked \<lparr>restart515Used = 0, unknownAttempts = 0\<rparr> False)) = Some Paused"
  using transient_close_pauses [of 428 Linked "\<lparr>restart515Used = 0, unknownAttempts = 0\<rparr>" False]
  by (simp add: pause_for_def)

text \<open>The reconnect delay is bounded and per-instance staggered: for a random draw below one the
  delay lies between the instance's stagger (below five seconds, the FNV-1a hash computed modulo
  \<open>2^32\<close> by multiplication with the FNV prime) and the ceiling plus that stagger, hence below 305
  seconds; the ceilings never decrease with the attempt and are five times wider for a 503 until the cap.\<close>

theorem reconnect_delay_bounds:
  assumes "0 \<le> u" "u < 1"
  shows "real (staggerMs i) \<le> nextDelayMs attempt i u mult \<and>
    nextDelayMs attempt i u mult
      \<le> ceilingMs attempt (case mult of None \<Rightarrow> 1 | Some m \<Rightarrow> real m) + real (staggerMs i) \<and>
    nextDelayMs attempt i u mult < 305000 \<and> staggerMs i < 5000 \<and>
    fnv1aHash i = foldl (\<lambda>h c. (h XOR word_of_nat c) * 16777619) 2166136261 i \<and>
    ceilingMs attempt 1 \<le> ceilingMs (attempt + k) 1 \<and>
    ceilingMs attempt 5 = min CAP_DELAY_MS (5 * (BASE_DELAY_MS * 2 ^ attempt / 2))"
proof -
  define c where "c = ceilingMs attempt (case mult of None \<Rightarrow> 1 | Some m \<Rightarrow> real m)"
  have c: "0 \<le> c" "c \<le> 300000"
    using ceilingMs_bounds [of "case mult of None \<Rightarrow> 1 | Some m \<Rightarrow> real m" attempt]
    by (auto simp: c_def CAP_DELAY_MS_def split: option.splits)
  have d: "nextDelayMs attempt i u mult = u * c + real (staggerMs i)"
    by (simp add: nextDelayMs_def c_def Let_def)
  have uc: "0 \<le> u * c" "u * c \<le> c" using assms c by (auto intro: mult_left_le_one_le)
  have st: "staggerMs i < 5000" by (simp add: staggerMs_def)
  have fnv: "fnv1aHash i = foldl (\<lambda>h c. (h XOR word_of_nat c) * 16777619) 2166136261 i"
    unfolding fnv1aHash_def fnv1a_step_mult by simp
  show ?thesis
    unfolding d c_def [symmetric]
    using uc c st fnv ceilingMs_mono [of attempt "attempt + k" 1]
    by (simp add: ceilingMs_def algebra_simps)
qed

lemma reconnect_delay_bounds_witness: "nextDelayMs 3 [97, 98] (1 / 2) (Some 5) < 305000"
  using reconnect_delay_bounds [of "1 / 2" "[97, 98]" 3 "Some 5" 0] by simp

text \<open>Pairing moves only along the declared tables: each pairing operation succeeds exactly when
  the link (and, for a success, also the health) edge it writes is declared, otherwise it raises the
  range error naming the edge; in particular a second success on an instance that is still
  \<open>connected\<close> is refused.\<close>

theorem pairing_follows_tables:
  "((\<exists>t. beginPairing snap = Inr t) \<longleftrightarrow> linkState snap = Unlinked) \<and>
   ((\<exists>t. pairingSucceeded snap = Inr t) \<longleftrightarrow> linkState snap = Pairing \<and> healthState snap \<noteq> Connected) \<and>
   ((\<exists>t. pairingExpired snap = Inr t) \<longleftrightarrow> linkState snap \<in> {Pairing, Linked}) \<and>
   (healthState snap = Connected \<and> linkState snap = Pairing
      \<longrightarrow> pairingSucceeded snap = Inl (Illegal_health Connected Connected)) \<and>
   (\<forall>t. beginPairing snap = Inr t \<or> pairingSucceeded snap = Inr t \<or> pairingExpired snap = Inr t \<longrightarrow>
      (\<forall>h. tr_health t = Some h \<longrightarrow> h \<in> set (LEGAL_HEALTH_TRANSITIONS (healthState snap))) \<and>
      (\<forall>l. tr_link t = Some l \<longrightarrow> l \<in> set (LEGAL_LINK_TRANSITIONS (linkState snap))))"
  by (cases "linkState snap"; cases "healthState snap")
     (auto simp: beginPairing_def pairingSucceeded_def pairingExpired_def assertLegalLink_def assertLegalHealth_def)

lemma pairing_follows_tables_witness:
  "pairingSucceeded \<lparr>healthState = Connected, linkState = Pairing, desiredState = Online,
      needsUserAction = False, userActionReason = None\<rparr> = Inl (Illegal_health Connected Connected)"
  using pairing_follows_tables [of "\<lparr>healthState = Connected, linkState = Pairing, desiredState = Online,
      needsUserAction = False, userActionReason = None\<rparr>"] by simp

end
