(* ===== verification/Instances.thy ===== *)
theory Instances
  imports Session Lease_Store
begin

text \<open>
  \<open>modules/instances/repo.ts\<close> with its \<open>db/queries/instance-*.sql\<close> statements over
  \<open>whatsapp_instances\<close>, and \<open>modules/instances/service.ts\<close>, which turns a domain transition
  into one fence-guarded write and an audit row. Engine writes carry the lease predicate of
  \<open>Lease_Store\<close>; tenant-action writes are client-scoped only.
\<close>

datatype pause_reason =
    PR_user_action | PR_provider_restriction | PR_repeated_send_failure | PR_health_critical
  | PR_reconnect_failed | PR_pairing_expired | PR_session_replaced | PR_unknown_signal | PR_admin_action

record instance_row =
  ir_client :: string
  ir_health :: wa_health
  ir_link :: wa_link
  ir_desired :: desired_state
  ir_needsUserAction :: bool
  ir_reason :: "user_action_reason option"
  ir_pauseReason :: "pause_reason option"
  ir_pausedAt :: "int option"
  ir_qrAttempts :: nat
  ir_pairingStartedAt :: "int option"
  ir_ownerJid :: "string option"
  ir_phone :: "string option"
  ir_deletedAt :: "int option"
  ir_discCode :: "string option"

type_synonym instance_table = "string \<rightharpoonup> instance_row"

datatype write_error = State_write_lost_fence string

section \<open>Statements\<close>

definition runFenceGuarded ::
  "lease_table \<Rightarrow> string \<Rightarrow> string \<Rightarrow> nat \<Rightarrow> string \<Rightarrow> (instance_row \<Rightarrow> instance_row) \<Rightarrow> instance_table
     \<Rightarrow> (write_error, instance_table) result" where
  "runFenceGuarded leases inst client fence worker f tbl =
    (case tbl inst of
       None \<Rightarrow> Err (State_write_lost_fence inst)
     | Some r \<Rightarrow> if ir_client r = client \<and> holds_lease leases inst client fence worker
                 then Ok (tbl(inst \<mapsto> f r)) else Err (State_write_lost_fence inst))"

definition instance_mark_linked_connected :: "string option \<Rightarrow> string option \<Rightarrow> instance_row \<Rightarrow> instance_row" where
  "instance_mark_linked_connected ownerJid phone r =
    r\<lparr>ir_link := Linked, ir_health := Connected, ir_needsUserAction := False, ir_reason := None,
      ir_ownerJid := ownerJid, ir_phone := (case phone of None \<Rightarrow> ir_phone r | Some p \<Rightarrow> Some p)\<rparr>"

definition instance_mark_logged_out :: "instance_row \<Rightarrow> instance_row" where
  "instance_mark_logged_out r =
    r\<lparr>ir_health := Logged_out, ir_link := Unlinked, ir_needsUserAction := True, ir_reason := Some RELINK_REQUIRED\<rparr>"

definition instance_mark_pairing_expired :: "instance_row \<Rightarrow> instance_row" where
  "instance_mark_pairing_expired r =
    r\<lparr>ir_link := Unlinked, ir_needsUserAction := True, ir_reason := Some PAIRING_EXPIRED\<rparr>"

definition instance_increment_qr_attempts :: "instance_row \<Rightarrow> instance_row" where
  "instance_increment_qr_attempts r = r\<lparr>ir_qrAttempts := ir_qrAttempts r + 1\<rparr>"

record apply_transition_input =
  ati_health :: wa_health
  ati_link :: "wa_link option"
  ati_needs :: bool
  ati_reason :: "user_action_reason option"
  ati_pauseReason :: "pause_reason option"
  ati_code :: "string option"

definition instance_apply_transition :: "int \<Rightarrow> apply_transition_input \<Rightarrow> instance_row \<Rightarrow> instance_row" where
  "instance_apply_transition now i r =
    r\<lparr>ir_health := ati_health i, ir_link := (case ati_link i of None \<Rightarrow> ir_link r | Some l \<Rightarrow> l),
      ir_needsUserAction := ati_needs i, ir_reason := ati_reason i, ir_pauseReason := ati_pauseReason i,
      ir_pausedAt := (if ati_health i = Paused then Some now else ir_pausedAt r),
      ir_discCode := ati_code i\<rparr>"

text \<open>Tenant-action writes: an update of the client's live row, and whether a row was updated.\<close>

definition tenantWrite ::
  "string \<Rightarrow> string \<Rightarrow> (instance_row \<Rightarrow> bool) \<Rightarrow> (instance_row \<Rightarrow> instance_row) \<Rightarrow> instance_table \<Rightarrow> bool \<times> instance_table" where
  "tenantWrite inst client guard f tbl =
    (case tbl inst of
       None \<Rightarrow> (False, tbl)
     | Some r \<Rightarrow> if ir_client r = client \<and> ir_deletedAt r = None \<and> guard r
                 then (True, tbl(inst \<mapsto> f r)) else (False, tbl))"

definition beginPairingIntent :: "int \<Rightarrow> string \<Rightarrow> string \<Rightarrow> instance_table \<Rightarrow> bool \<times> instance_table" where
  "beginPairingIntent now inst client = tenantWrite inst client (\<lambda>_. True)
     (\<lambda>r. r\<lparr>ir_desired := Online, ir_link := Pairing, ir_pairingStartedAt := Some now, ir_qrAttempts := 0,
             ir_needsUserAction := False, ir_reason := None\<rparr>)"

definition resetPairingWindow :: "int \<Rightarrow> string \<Rightarrow> string \<Rightarrow> instance_table \<Rightarrow> bool \<times> instance_table" where
  "resetPairingWindow now inst client = tenantWrite inst client
     (\<lambda>r. ir_link r = Pairing \<or> ir_reason r = Some PAIRING_EXPIRED)
     (\<lambda>r. r\<lparr>ir_pairingStartedAt := Some now, ir_qrAttempts := 0, ir_needsUserAction := False, ir_reason := None\<rparr>)"

definition setDesiredState :: "desired_state \<Rightarrow> string \<Rightarrow> string \<Rightarrow> instance_table \<Rightarrow> bool \<times> instance_table" where
  "setDesiredState d inst client = tenantWrite inst client (\<lambda>_. True) (\<lambda>r. r\<lparr>ir_desired := d\<rparr>)"

definition softDelete :: "int \<Rightarrow> string \<Rightarrow> string \<Rightarrow> instance_table \<Rightarrow> bool \<times> instance_table" where
  "softDelete now inst client = tenantWrite inst client (\<lambda>_. True)
     (\<lambda>r. r\<lparr>ir_deletedAt := Some now, ir_desired := Offline\<rparr>)"

section \<open>service.ts\<close>

fun pause_reason_of :: "user_action_reason \<Rightarrow> pause_reason" where
  "pause_reason_of PAIRING_EXPIRED = PR_pairing_expired"
| "pause_reason_of RECONNECT_FAILED = PR_reconnect_failed"
| "pause_reason_of RESTRICTION_SIGNAL = PR_provider_restriction"
| "pause_reason_of SESSION_REPLACED = PR_session_replaced"
| "pause_reason_of RELINK_REQUIRED = PR_user_action"
| "pause_reason_of INFRA_UNAVAILABLE = PR_unknown_signal"

definition pauseReasonFor :: "user_action_reason option \<Rightarrow> pause_reason option" where
  "pauseReasonFor r = map_option pause_reason_of r"

datatype audit =
    Audit_row string                 \<comment> \<open>the \<open>audit_logs\<close> action\<close>
  | Notify_reconnect_exhausted nat   \<comment> \<open>keyed by the lease fence\<close>
  | Notify_logged_out nat
  | Purge_auth_store nat

fun health_audit_action :: "wa_health \<Rightarrow> string" where
  "health_audit_action Degraded = ''instance.degraded''"
| "health_audit_action Paused = ''instance.paused''"
| "health_audit_action Logged_out = ''instance.logged_out''"
| "health_audit_action _ = ''instance.transitioned''"

definition transitionAudit :: "wa_health \<Rightarrow> transition \<Rightarrow> nat \<Rightarrow> audit list" where
  "transitionAudit fromHealth t fence =
    (if fromHealth \<noteq> Connected then []
     else Audit_row (health_audit_action (case tr_health t of None \<Rightarrow> fromHealth | Some h \<Rightarrow> h))
          # (if tr_userActionReason t = Some (Some RECONNECT_FAILED) then [Notify_reconnect_exhausted fence] else []))"

definition transition_input :: "wa_health \<Rightarrow> transition \<Rightarrow> string option \<Rightarrow> apply_transition_input" where
  "transition_input fromHealth t code =
    (let reason = (case tr_userActionReason t of None \<Rightarrow> None | Some r \<Rightarrow> r) in
     \<lparr>ati_health = (case tr_health t of None \<Rightarrow> fromHealth | Some h \<Rightarrow> h), ati_link = tr_link t,
      ati_needs = (case tr_needsUserAction t of None \<Rightarrow> False | Some b \<Rightarrow> b), ati_reason = reason,
      ati_pauseReason = pauseReasonFor reason, ati_code = code\<rparr>)"

text \<open>The audit and notification rows are written after the state write, in the same transaction.\<close>

definition applyEngineTransition ::
  "lease_table \<Rightarrow> int \<Rightarrow> string \<Rightarrow> string \<Rightarrow> nat \<Rightarrow> string \<Rightarrow> wa_health \<Rightarrow> transition \<Rightarrow> string option
     \<Rightarrow> instance_table \<Rightarrow> (write_error, instance_table \<times> audit list) result" where
  "applyEngineTransition leases now inst client fence worker fromHealth t code tbl =
    bindR (runFenceGuarded leases inst client fence worker
             (instance_apply_transition now (transition_input fromHealth t code)) tbl)
      (\<lambda>tbl'. Ok (tbl', transitionAudit fromHealth t fence))"

definition runLoggedOutFlow ::
  "lease_table \<Rightarrow> string \<Rightarrow> string \<Rightarrow> nat \<Rightarrow> string \<Rightarrow> instance_table \<Rightarrow> (write_error, instance_table \<times> audit list) result" where
  "runLoggedOutFlow leases inst client fence worker tbl =
    bindR (runFenceGuarded leases inst client fence worker instance_mark_logged_out tbl)
      (\<lambda>tbl'. Ok (tbl', [Audit_row ''instance.logged_out'', Notify_logged_out fence, Purge_auth_store fence]))"

section \<open>The engine's writes as one step function\<close>

datatype engine_write =
    EW_linked "string option" "string option"
  | EW_qr
  | EW_pairing_expired
  | EW_logged_out
  | EW_transition int wa_health transition "string option"

fun engine_update :: "engine_write \<Rightarrow> instance_row \<Rightarrow> instance_row" where
  "engine_update (EW_linked jid phone) = instance_mark_linked_connected jid phone"
| "engine_update EW_qr = instance_increment_qr_attempts"
| "engine_update EW_pairing_expired = instance_mark_pairing_expired"
| "engine_update EW_logged_out = instance_mark_logged_out"
| "engine_update (EW_transition now from t code) = instance_apply_transition now (transition_input from t code)"

definition engineWrite ::
  "lease_table \<Rightarrow> string \<Rightarrow> string \<Rightarrow> nat \<Rightarrow> string \<Rightarrow> engine_write \<Rightarrow> instance_table \<Rightarrow> (write_error, instance_table) result" where
  "engineWrite leases inst client fence worker ew =
     runFenceGuarded leases inst client fence worker (engine_update ew)"

lemma runFenceGuarded_Ok [simp]:
  "runFenceGuarded leases inst client fence worker f tbl = Inr tbl' \<longleftrightarrow>
     (\<exists>r. tbl inst = Some r \<and> ir_client r = client \<and> holds_lease leases inst client fence worker \<and>
          tbl' = tbl(inst \<mapsto> f r))"
  by (auto simp: runFenceGuarded_def split: option.splits)

lemma engine_update_keeps [simp]:
  "ir_desired (engine_update ew r) = ir_desired r" "ir_client (engine_update ew r) = ir_client r"
  "ir_deletedAt (engine_update ew r) = ir_deletedAt r"
  by (cases ew; simp add: instance_mark_linked_connected_def instance_increment_qr_attempts_def
        instance_mark_pairing_expired_def instance_mark_logged_out_def instance_apply_transition_def)+

section \<open>Properties\<close>

text \<open>No engine write can park an instance, cross a tenant or come from a superseded worker: a
  successful engine write changes only its own instance's row, requires the lease predicate and the
  tenant, and keeps the tenant's desired state, the tenant and the deletion mark; once another worker
  minted a fence for the instance, every engine write of the old worker fails with the lost-fence
  error after any further lease history.\<close>

theorem engine_writes_are_fenced:
  "(engineWrite leases inst client fence worker ew tbl = Inr tbl' \<longrightarrow>
      holds_lease leases inst client fence worker \<and>
      (\<forall>i. i \<noteq> inst \<longrightarrow> tbl' i = tbl i) \<and>
      (\<exists>r r'. tbl inst = Some r \<and> tbl' inst = Some r' \<and> ir_client r = client \<and> ir_client r' = client \<and>
         ir_desired r' = ir_desired r \<and> ir_deletedAt r' = ir_deletedAt r)) \<and>
   (mintFence t1 c1 inst A lt0 = Inr (ra, lt1) \<and> mintFence t2 c2 inst B (lease_run lt1 ops) = Inr (rb, lt2) \<longrightarrow>
      engineWrite (lease_run lt2 ops') inst client (mr_fence ra) A ew tbl = Inl (State_write_lost_fence inst))"
proof (intro conjI impI)
  assume w: "engineWrite leases inst client fence worker ew tbl = Inr tbl'"
  then show "holds_lease leases inst client fence worker"
    and "\<forall>i. i \<noteq> inst \<longrightarrow> tbl' i = tbl i"
    and "\<exists>r r'. tbl inst = Some r \<and> tbl' inst = Some r' \<and> ir_client r = client \<and> ir_client r' = client \<and>
         ir_desired r' = ir_desired r \<and> ir_deletedAt r' = ir_deletedAt r"
    by (auto simp: engineWrite_def)
next
  assume m: "mintFence t1 c1 inst A lt0 = Inr (ra, lt1) \<and> mintFence t2 c2 inst B (lease_run lt1 ops) = Inr (rb, lt2)"
  have "\<not> holds_lease (lease_run lt2 ops') inst client (mr_fence ra) A"
    by (rule superseded_never_holds) (use m in auto)
  then show "engineWrite (lease_run lt2 ops') inst client (mr_fence ra) A ew tbl = Inl (State_write_lost_fence inst)"
    by (auto simp: engineWrite_def runFenceGuarded_def split: option.splits)
qed

definition demo_row :: instance_row where
  "demo_row = \<lparr>ir_client = ''c'', ir_health = Paused, ir_link = Linked, ir_desired = Online,
     ir_needsUserAction = True, ir_reason = Some RESTRICTION_SIGNAL, ir_pauseReason = Some PR_provider_restriction,
     ir_pausedAt = Some 5, ir_qrAttempts = 0, ir_pairingStartedAt = None, ir_ownerJid = None, ir_phone = None,
     ir_deletedAt = None, ir_discCode = Some ''403''\<rparr>"

definition demo_leases :: lease_table where
  "demo_leases = [''i'' \<mapsto> \<lparr>lr_client = ''c'', lr_fence = Suc 0, lr_owner = Some ''A'', lr_seen = 0, lr_released = None\<rparr>]"

lemma demo_holds: "holds_lease demo_leases ''i'' ''c'' (Suc 0) ''A''"
  by (simp add: holds_lease_def demo_leases_def)

lemma engine_writes_are_fenced_witness:
  "engineWrite (lease_run [''i'' \<mapsto> \<lparr>lr_client = ''c'', lr_fence = Suc 1, lr_owner = Some ''B'', lr_seen = 9,
      lr_released = None\<rparr>] []) ''i'' ''c'' (Suc 0) ''A'' EW_logged_out [''i'' \<mapsto> demo_row]
    = Inl (State_write_lost_fence ''i'')"
  using engine_writes_are_fenced [of demo_leases "''i''" "''c''" "Suc 0" "''A''" EW_logged_out
      "[''i'' \<mapsto> demo_row]" _ 0 "''c''" "''A''" Map.empty
      "\<lparr>mr_fence = Suc 0, mr_prevReleasedAt = None, mr_prevOwnerWorkerId = None\<rparr>" demo_leases
      9 "''c''" "''B''" "[]"
      "\<lparr>mr_fence = Suc 1, mr_prevReleasedAt = None, mr_prevOwnerWorkerId = Some ''A''\<rparr>"
      "[''i'' \<mapsto> \<lparr>lr_client = ''c'', lr_fence = Suc 1, lr_owner = Some ''B'', lr_seen = 9, lr_released = None\<rparr>]"
      "[]"]
  by (simp add: mintFence_def lease_mint_read_released_def lease_mint_fence_def lease_run_def demo_leases_def)

text \<open>What a transition's omitted fields do to the row: an omitted link keeps the column, an
  omitted health rewrites the health the caller believed, but an omitted \<open>needsUserAction\<close> or
  \<open>userActionReason\<close> clears it together with the pause reason. A quiet transition (a silent 515, an
  expected takeover) therefore wipes the pending user action of a restricted instance; a pausing one
  records its reason, its pause reason and the moment.\<close>

theorem transition_write_columns:
  assumes "tbl inst = Some r" "ir_client r = client" "holds_lease leases inst client fence worker"
  shows "applyEngineTransition leases now inst client fence worker from (quiet es) code tbl =
      Inr (tbl(inst \<mapsto> r\<lparr>ir_health := from, ir_needsUserAction := False, ir_reason := None, ir_pauseReason := None,
             ir_pausedAt := (if from = Paused then Some now else ir_pausedAt r), ir_discCode := code\<rparr>),
           if from = Connected then [Audit_row ''instance.transitioned''] else []) \<and>
    applyEngineTransition leases now inst client fence worker from (pause_for reason) code tbl =
      Inr (tbl(inst \<mapsto> r\<lparr>ir_health := Paused, ir_needsUserAction := True, ir_reason := Some reason,
             ir_pauseReason := Some (pause_reason_of reason), ir_pausedAt := Some now, ir_discCode := code\<rparr>),
           if from \<noteq> Connected then []
           else Audit_row ''instance.paused''
                # (if reason = RECONNECT_FAILED then [Notify_reconnect_exhausted fence] else []))"
  using assms
  by (simp add: applyEngineTransition_def runFenceGuarded_def instance_apply_transition_def transition_input_def
      transitionAudit_def quiet_def pause_for_def pauseReasonFor_def)

lemma transition_write_columns_witness:
  "applyEngineTransition demo_leases 9 ''i'' ''c'' (Suc 0) ''A'' Paused (quiet []) (Some ''515'') [''i'' \<mapsto> demo_row] =
     Inr ([''i'' \<mapsto> demo_row\<lparr>ir_health := Paused, ir_needsUserAction := False, ir_reason := None,
             ir_pauseReason := None, ir_pausedAt := Some 9, ir_discCode := Some ''515''\<rparr>], [])"
  using transition_write_columns [of "[''i'' \<mapsto> demo_row]" "''i''" demo_row "''c''" demo_leases "Suc 0" "''A''" 9 Paused
      "[]" "Some ''515''"] demo_holds
  by (simp add: demo_row_def)

end
