(* ===== verification/Runner.thy ===== *)
theory Runner
  imports Session
begin

text \<open>
  The session runner of \<open>engine/session\<close>: \<open>runner.ts\<close> (start, socket build, teardown),
  \<open>runner-deferred-open.ts\<close>, \<open>runner-connection-update.ts\<close> and \<open>runner-disconnect.ts\<close>.
  One handler run up to its next await that other handlers can interleave with is one step; the
  outcome of a database write is part of the event. Effects are logged in the order the code
  performs them. Send and group sockets are handed out by \<open>runner-handle.ts\<close>. The auth store
  (\<open>provider/baileys/auth-state/store.ts\<close>) holds ports into the runner: a store that finds its fence lost
  tears the runner down and then calls the release port, each an event of its own.
\<close>

datatype wreply = W_ok | W_lost_fence | W_error

datatype runner_effect =
    Eff_logged_out_flow
  | Eff_end_socket
  | Eff_write transition wa_health "nat option"
  | Eff_fast_lane nat
  | Eff_publish
  | Eff_timer real
  | Eff_connect
  | Eff_release
  | Eff_store_release              \<comment> \<open>the auth store called its \<open>releaseLease\<close> port\<close>
  | Eff_linked
  | Eff_pairing_expired

record runner =
  rn_id :: "nat list"                  \<comment> \<open>the instance id, as character codes\<close>
  rn_health :: wa_health
  rn_link :: wa_link
  rn_attempt :: nat
  rn_openedAt :: "int option"
  rn_counters :: counters
  rn_ended :: bool
  rn_tornDown :: bool
  rn_released :: bool
  rn_gen :: nat
  rn_closeGen :: "nat option"
  rn_opening :: bool                   \<comment> \<open>the deferred first open is still waiting\<close>
  rn_timers :: "nat list"              \<comment> \<open>live reconnect timers\<close>
  rn_handle :: "nat option"            \<comment> \<open>\<open>pendingReconnectTimer\<close>\<close>
  rn_nextTimer :: nat
  rn_gated :: nat                      \<comment> \<open>timer callbacks parked in the connect gate\<close>
  rn_fenced :: bool                    \<comment> \<open>\<open>fenced\<close> of the auth store: every further write of it throws\<close>
  rn_fencing :: bool                   \<comment> \<open>\<open>selfFence\<close> awaits \<open>onFenceConflict\<close>, its release is still to come\<close>
  rn_building :: nat                   \<comment> \<open>\<open>buildAndWireSocket\<close> calls awaiting the credentials\<close>
  rn_log :: "runner_effect list"

definition startRunner :: "nat list \<Rightarrow> wa_health \<Rightarrow> wa_link \<Rightarrow> runner" where
  "startRunner i h l = \<lparr>rn_id = i, rn_health = h, rn_link = l, rn_attempt = 0, rn_openedAt = None,
     rn_counters = \<lparr>restart515Used = 0, unknownAttempts = 0\<rparr>, rn_ended = False, rn_tornDown = False,
     rn_released = False, rn_gen = 0, rn_closeGen = None, rn_opening = True, rn_timers = [],
     rn_handle = None, rn_nextTimer = 0, rn_gated = 0, rn_fenced = False, rn_fencing = False, rn_building = 0, rn_log = []\<rparr>"

definition emit :: "runner_effect \<Rightarrow> runner \<Rightarrow> runner" where
  "emit x s = s\<lparr>rn_log := rn_log s @ [x]\<rparr>"

section \<open>runner.ts\<close>

definition endSocketOnce :: "runner \<Rightarrow> runner" where
  "endSocketOnce s = (if rn_ended s then s else emit Eff_end_socket (s\<lparr>rn_ended := True\<rparr>))"

definition clearPendingReconnect :: "runner \<Rightarrow> runner" where
  "clearPendingReconnect s = (case rn_handle s of None \<Rightarrow> s
     | Some h \<Rightarrow> s\<lparr>rn_timers := removeAll h (rn_timers s), rn_handle := None\<rparr>)"

definition teardown :: "bool \<Rightarrow> runner \<Rightarrow> runner" where
  "teardown release s =
    (let s1 = endSocketOnce (clearPendingReconnect (s\<lparr>rn_tornDown := True\<rparr>)) in
     if release \<and> \<not> rn_released s1 then emit Eff_release (s1\<lparr>rn_released := True\<rparr>) else s1)"

text \<open>\<open>buildAndWireSocket\<close> after its awaits: the socket exists and a new generation begins.\<close>

definition buildAndWireSocket :: "runner \<Rightarrow> runner" where
  "buildAndWireSocket s =
    emit Eff_connect (s\<lparr>rn_ended := False, rn_gen := rn_gen s + 1, rn_closeGen := None\<rparr>)"

definition applyDegradeKeepSocket :: "wreply \<Rightarrow> runner \<Rightarrow> runner" where
  "applyDegradeKeepSocket w s =
    (if w \<noteq> W_ok then s
     else (emit (Eff_write ((quiet [])\<lparr>tr_health := Some Degraded\<rparr>) (rn_health s) None) s)\<lparr>rn_health := Degraded\<rparr>)"

section \<open>The auth store and its ports\<close>

text \<open>
  \<open>selfFence\<close>: the store is fenced, \<open>onFenceConflict\<close> tears down without release; when that is awaited the store
  calls the port \<open>releaseLease\<close>, which goes to the lease manager without looking at \<open>releasedLease\<close>. The writes of a
  store run one after the other and each checks the flag first, so a fenced store never fences itself again.
\<close>

definition selfFence :: "runner \<Rightarrow> runner" where
  "selfFence s = (if rn_fenced s then s else teardown False (s\<lparr>rn_fenced := True, rn_fencing := True\<rparr>))"

definition storeReleaseLease :: "runner \<Rightarrow> runner" where
  "storeReleaseLease s = (if rn_fencing s then emit Eff_store_release (s\<lparr>rn_fencing := False\<rparr>) else s)"

text \<open>A purge that succeeded fences the store too, but calls no port.\<close>

definition markPurged :: "runner \<Rightarrow> runner" where
  "markPurged s = s\<lparr>rn_fenced := True\<rparr>"

text \<open>The boundary of \<open>creds.update\<close> and of the save buffer's timer: what the store has fenced is ignored.\<close>

definition onCredsUpdateSafe :: "wreply \<Rightarrow> runner \<Rightarrow> runner" where
  "onCredsUpdateSafe w s = (if w = W_error then teardown False s else s)"

section \<open>runner-disconnect.ts\<close>

record close_env =
  ce_code :: "nat option"          \<comment> \<open>\<open>lastDisconnect.error.output.statusCode\<close>\<close>
  ce_takeover :: bool              \<comment> \<open>the answer of \<open>expectedTakeoverCheck\<close>\<close>
  ce_u :: real                     \<comment> \<open>\<open>rng.random()\<close>\<close>
  ce_purge :: wreply
  ce_write :: wreply
  ce_giveup :: wreply

definition extractCode :: "nat option \<Rightarrow> nat" where
  "extractCode c = (case c of None \<Rightarrow> 0 | Some n \<Rightarrow> n)"

fun runSideEffects :: "wreply \<Rightarrow> side_effect list \<Rightarrow> runner \<Rightarrow> wreply \<times> runner" where
  "runSideEffects purge [] s = (W_ok, s)"
| "runSideEffects purge (Purge_auth # es) s =
     (if purge = W_ok then runSideEffects purge es (emit Eff_logged_out_flow s) else (purge, s))"
| "runSideEffects purge (End_socket # es) s = runSideEffects purge es (endSocketOnce s)"
| "runSideEffects purge (_ # es) s = runSideEffects purge es s"

definition scheduleReconnectOrGiveUp ::
  "close_env \<Rightarrow> bool \<Rightarrow> nat option \<Rightarrow> bool \<Rightarrow> runner \<Rightarrow> wreply \<times> runner" where
  "scheduleReconnectOrGiveUp e autoReconnect baseMultiplier isRestart515 s =
    (if \<not> autoReconnect then (W_ok, s)
     else let nextAttempt = rn_attempt s + 1 in
       if shouldGiveUp nextAttempt
       then if ce_giveup e \<noteq> W_ok then (ce_giveup e, s)
            else (W_ok, teardown True (emit Eff_publish
                   ((emit (Eff_write (pause_for RECONNECT_FAILED) (rn_health s) None) s)\<lparr>rn_health := Paused\<rparr>)))
       else let delay = (if isRestart515 then 0 else nextDelayMs nextAttempt (rn_id s) (ce_u e) baseMultiplier)
            in (W_ok, emit (Eff_timer delay) (s\<lparr>rn_attempt := nextAttempt,
                   rn_timers := rn_timers s @ [rn_nextTimer s], rn_handle := Some (rn_nextTimer s),
                   rn_nextTimer := rn_nextTimer s + 1\<rparr>)))"

text \<open>\<open>handleClose\<close> from the fenced write on, for the row and transition already resolved.\<close>

definition commitClose ::
  "close_env \<Rightarrow> policy_row \<Rightarrow> fsm_row \<Rightarrow> transition \<Rightarrow> wa_health \<Rightarrow> runner \<Rightarrow> wreply \<times> runner" where
  "commitClose e row fsmRow t fromHealth s1 =
    (let code = extractCode (ce_code e) in
     if ce_write e \<noteq> W_ok then (ce_write e, s1)
     else let s2 = emit (Eff_write t fromHealth (if code = 0 then None else Some code)) s1;
              s3 = (if fr_action fsmRow = A_restriction then emit (Eff_fast_lane code) s2 else s2);
              s4 = s3\<lparr>rn_health := (case tr_health t of None \<Rightarrow> rn_health s3 | Some h \<Rightarrow> h),
                      rn_link := (case tr_link t of None \<Rightarrow> rn_link s3 | Some l \<Rightarrow> l)\<rparr>;
              s5 = (if Notify \<in> set (tr_sideEffects t) \<or> Audit \<in> set (tr_sideEffects t)
                    then emit Eff_publish s4 else s4);
              isRestart515 = (fr_budget fsmRow = Some B_restart515 \<and> tr_health t = None)
          in scheduleReconnectOrGiveUp e (pr_autoReconnect row) (pr_baseMultiplier row) isRestart515 s5)"

definition handleClose :: "close_env \<Rightarrow> runner \<Rightarrow> wreply \<times> runner" where
  "handleClose e s =
    (let row = fst (resolveDisconnect (extractCode (ce_code e)));
         fsmRow = toFsmRow row (rn_link s);
         expectedTakeover = (fr_action fsmRow = A_session_replaced \<and> ce_takeover e);
         tc = applyDisconnect fsmRow (rn_counters s) expectedTakeover;
         r = runSideEffects (ce_purge e) (tr_sideEffects (fst tc)) (s\<lparr>rn_counters := snd tc\<rparr>)
     in if fst r \<noteq> W_ok then r else commitClose e row fsmRow (fst tc) (rn_health s) (snd r))"

section \<open>runner-connection-update.ts\<close>

text \<open>The error boundary: a lost fence is ignored, any other error tears down without release.\<close>

definition onConnectionUpdateSafe :: "wreply \<times> runner \<Rightarrow> runner" where
  "onConnectionUpdateSafe r = (case r of (W_error, s) \<Rightarrow> teardown False s | (_, s) \<Rightarrow> s)"

definition onCloseUpdate :: "nat \<Rightarrow> close_env \<Rightarrow> runner \<Rightarrow> runner" where
  "onCloseUpdate generation e s =
    (if rn_closeGen s = Some generation then s
     else onConnectionUpdateSafe (handleClose e (s\<lparr>rn_closeGen := Some generation\<rparr>)))"

text \<open>\<open>onOpen\<close>: save the credentials and mark linked (one outcome for both writes), then the
  attempt counter from the time since the previous open.\<close>

definition onOpenUpdate :: "nat \<Rightarrow> int \<Rightarrow> wreply \<Rightarrow> runner \<Rightarrow> runner" where
  "onOpenUpdate generation now w s =
    (if rn_ended s \<or> generation \<noteq> rn_gen s then s
     else if w \<noteq> W_ok then onConnectionUpdateSafe (w, s)
     else let s1 = emit Eff_publish (emit Eff_linked s)
          in s1\<lparr>rn_health := Connected, rn_link := Linked,
                rn_attempt := (case rn_openedAt s of None \<Rightarrow> rn_attempt s
                               | Some opened \<Rightarrow> onOpen opened now (rn_attempt s)),
                rn_openedAt := Some now\<rparr>)"

text \<open>\<open>pairing.onQr\<close>: on exhaustion end the socket, mark the pairing expired, publish, tear down.\<close>

definition onQrUpdate :: "nat \<Rightarrow> bool \<Rightarrow> wreply \<Rightarrow> runner \<Rightarrow> runner" where
  "onQrUpdate generation expired w s =
    (if rn_ended s \<or> generation \<noteq> rn_gen s then s
     else if \<not> expired then emit Eff_publish s
     else let s1 = endSocketOnce s
          in if w \<noteq> W_ok then onConnectionUpdateSafe (w, s1)
             else teardown True (emit Eff_publish (emit Eff_pairing_expired s1)))"

section \<open>The runner as a state machine\<close>

datatype runner_event =
    Open_ready                      \<comment> \<open>the deferred waits of \<open>runDeferredSocketOpen\<close> are over\<close>
  | Timer_fires nat                 \<comment> \<open>a reconnect timer\<close>
  | Gate_grants                     \<comment> \<open>the connect gate lets a parked reconnect through\<close>
  | Build_done                      \<comment> \<open>the credentials arrived, the socket is created\<close>
  | Close nat close_env
  | Opened nat int wreply
  | Qr nat bool wreply
  | Teardown bool
  | Signal_write_failed wreply
  | Creds_update wreply             \<comment> \<open>a save of the credentials ended\<close>
  | Store_fences                    \<comment> \<open>a write of the store missed for its fence or epoch\<close>
  | Store_releases                  \<comment> \<open>\<open>onFenceConflict\<close> has resolved\<close>
  | Store_purged

fun runner_step :: "runner \<Rightarrow> runner_event \<Rightarrow> runner" where
  "runner_step s Open_ready =
     (if \<not> rn_opening s then s
      else if rn_tornDown s \<or> rn_ended s then s\<lparr>rn_opening := False\<rparr>
      else s\<lparr>rn_opening := False, rn_building := rn_building s + 1\<rparr>)"
| "runner_step s (Timer_fires t) =
     (if t \<notin> set (rn_timers s) then s
      else let s1 = s\<lparr>rn_timers := removeAll t (rn_timers s)\<rparr>
           in if rn_ended s \<or> rn_tornDown s then s1 else s1\<lparr>rn_gated := rn_gated s + 1\<rparr>)"
| "runner_step s Gate_grants =
     (if rn_gated s = 0 then s
      else let s1 = s\<lparr>rn_gated := rn_gated s - 1\<rparr>
           in if rn_ended s \<or> rn_tornDown s then s1 else s1\<lparr>rn_building := rn_building s + 1\<rparr>)"
| "runner_step s Build_done =
     (if rn_building s = 0 then s else buildAndWireSocket (s\<lparr>rn_building := rn_building s - 1\<rparr>))"
| "runner_step s (Close generation e) = onCloseUpdate generation e s"
| "runner_step s (Opened generation now w) = onOpenUpdate generation now w s"
| "runner_step s (Qr generation expired w) = onQrUpdate generation expired w s"
| "runner_step s (Teardown release) = teardown release s"
| "runner_step s (Signal_write_failed w) = applyDegradeKeepSocket w s"
| "runner_step s (Creds_update w) = onCredsUpdateSafe w s"
| "runner_step s Store_fences = selfFence s"
| "runner_step s Store_releases = storeReleaseLease s"
| "runner_step s Store_purged = markPurged s"

inductive runner_reachable :: "runner \<Rightarrow> bool" where
  start: "runner_reachable (startRunner i h l)"
| step: "runner_reachable s \<Longrightarrow> runner_reachable (runner_step s e)"

text \<open>\<open>runner-handle.ts\<close>: a send socket is handed out only while connected, linked and live.\<close>

definition isSendCapable :: "runner \<Rightarrow> bool" where
  "isSendCapable s \<longleftrightarrow> rn_gen s \<noteq> 0 \<and> \<not> rn_ended s \<and> rn_health s = Connected \<and> rn_link s = Linked"

section \<open>Invariant\<close>

text \<open>The teardowns release at most once, the store at most once, both only after a teardown; at most eight
  reconnect attempts are counted; every generation is one created socket.\<close>

definition runner_inv :: "runner \<Rightarrow> bool" where
  "runner_inv s \<longleftrightarrow>
    count_list (rn_log s) Eff_release = of_bool (rn_released s) \<and> (rn_released s \<longrightarrow> rn_tornDown s) \<and>
    count_list (rn_log s) Eff_store_release + of_bool (rn_fencing s) \<le> of_bool (rn_fenced s) \<and>
    (rn_fencing s \<or> Eff_store_release \<in> set (rn_log s) \<longrightarrow> rn_tornDown s) \<and>
    rn_attempt s \<le> MAX_ATTEMPTS \<and> rn_gen s = count_list (rn_log s) Eff_connect"

named_theorems runner_keeps \<open>the fields a runner primitive leaves alone\<close>

lemma emit_fields [simp]:
  "rn_log (emit x s) = rn_log s @ [x]" "rn_released (emit x s) = rn_released s"
  "rn_tornDown (emit x s) = rn_tornDown s" "rn_attempt (emit x s) = rn_attempt s" "rn_gen (emit x s) = rn_gen s"
  "rn_ended (emit x s) = rn_ended s" "rn_building (emit x s) = rn_building s" "rn_gated (emit x s) = rn_gated s"
  "rn_timers (emit x s) = rn_timers s" "rn_health (emit x s) = rn_health s" "rn_link (emit x s) = rn_link s"
  "rn_counters (emit x s) = rn_counters s" "rn_closeGen (emit x s) = rn_closeGen s"
  "rn_fenced (emit x s) = rn_fenced s" "rn_fencing (emit x s) = rn_fencing s"
  by (simp_all add: emit_def)

lemma emit_inv: "x \<noteq> Eff_release \<Longrightarrow> x \<noteq> Eff_store_release \<Longrightarrow> x \<noteq> Eff_connect \<Longrightarrow> runner_inv (emit x s) = runner_inv s"
  by (simp add: runner_inv_def)

lemma inv_upd [simp]:
  "runner_inv (s\<lparr>rn_health := a\<rparr>) = runner_inv s" "runner_inv (s\<lparr>rn_link := b\<rparr>) = runner_inv s"
  "runner_inv (s\<lparr>rn_openedAt := c\<rparr>) = runner_inv s" "runner_inv (s\<lparr>rn_counters := d\<rparr>) = runner_inv s"
  "runner_inv (s\<lparr>rn_ended := f\<rparr>) = runner_inv s" "runner_inv (s\<lparr>rn_closeGen := g\<rparr>) = runner_inv s"
  "runner_inv (s\<lparr>rn_opening := h\<rparr>) = runner_inv s" "runner_inv (s\<lparr>rn_timers := i\<rparr>) = runner_inv s"
  "runner_inv (s\<lparr>rn_handle := j\<rparr>) = runner_inv s" "runner_inv (s\<lparr>rn_nextTimer := k\<rparr>) = runner_inv s"
  "runner_inv (s\<lparr>rn_gated := l\<rparr>) = runner_inv s" "runner_inv (s\<lparr>rn_building := m\<rparr>) = runner_inv s"
  by (simp_all add: runner_inv_def)

lemma inv_attempt: "runner_inv s \<Longrightarrow> n \<le> MAX_ATTEMPTS \<Longrightarrow> runner_inv (s\<lparr>rn_attempt := n\<rparr>)"
  by (simp add: runner_inv_def)

lemma endSocketOnce_inv [simp]: "runner_inv (endSocketOnce s) = runner_inv s"
  by (simp add: endSocketOnce_def emit_inv)

lemma clearPendingReconnect_inv [simp]: "runner_inv (clearPendingReconnect s) = runner_inv s"
  by (simp add: clearPendingReconnect_def split: option.splits)

lemma endSocketOnce_fields [simp]:
  "rn_released (endSocketOnce s) = rn_released s" "rn_tornDown (endSocketOnce s) = rn_tornDown s"
  "rn_ended (endSocketOnce s)" "rn_building (endSocketOnce s) = rn_building s"
  "rn_gated (endSocketOnce s) = rn_gated s" "rn_attempt (endSocketOnce s) = rn_attempt s"
  "rn_timers (endSocketOnce s) = rn_timers s" "rn_gen (endSocketOnce s) = rn_gen s"
  "rn_health (endSocketOnce s) = rn_health s" "rn_link (endSocketOnce s) = rn_link s"
  "rn_counters (endSocketOnce s) = rn_counters s" "rn_closeGen (endSocketOnce s) = rn_closeGen s"
  "rn_fenced (endSocketOnce s) = rn_fenced s" "rn_fencing (endSocketOnce s) = rn_fencing s"
  by (simp_all add: endSocketOnce_def)

lemma clearPendingReconnect_fields [simp]:
  "rn_released (clearPendingReconnect s) = rn_released s" "rn_tornDown (clearPendingReconnect s) = rn_tornDown s"
  "rn_ended (clearPendingReconnect s) = rn_ended s" "rn_building (clearPendingReconnect s) = rn_building s"
  "rn_gated (clearPendingReconnect s) = rn_gated s" "rn_attempt (clearPendingReconnect s) = rn_attempt s"
  "set (rn_timers (clearPendingReconnect s)) \<subseteq> set (rn_timers s)" "rn_gen (clearPendingReconnect s) = rn_gen s"
  "rn_health (clearPendingReconnect s) = rn_health s" "rn_closeGen (clearPendingReconnect s) = rn_closeGen s"
  "rn_fenced (clearPendingReconnect s) = rn_fenced s" "rn_fencing (clearPendingReconnect s) = rn_fencing s"
  by (auto simp: clearPendingReconnect_def split: option.splits)

lemma teardown_fields [simp]:
  "rn_tornDown (teardown r s)" "rn_ended (teardown r s)" "rn_building (teardown r s) = rn_building s"
  "rn_released (teardown r s) = (rn_released s \<or> r)" "rn_attempt (teardown r s) = rn_attempt s"
  "set (rn_timers (teardown r s)) \<subseteq> set (rn_timers s)" "rn_closeGen (teardown r s) = rn_closeGen s"
  "rn_health (teardown r s) = rn_health s" "rn_fenced (teardown r s) = rn_fenced s" "rn_fencing (teardown r s) = rn_fencing s"
  using clearPendingReconnect_fields(7) [of "s\<lparr>rn_tornDown := True\<rparr>"]
  by (auto simp: teardown_def Let_def)

lemma teardown_inv: "runner_inv s \<Longrightarrow> runner_inv (teardown r s)"
proof -
  assume "runner_inv s"
  then have "runner_inv (s\<lparr>rn_tornDown := True\<rparr>)" by (simp add: runner_inv_def)
  then have "runner_inv (endSocketOnce (clearPendingReconnect (s\<lparr>rn_tornDown := True\<rparr>)))" by simp
  then show ?thesis
    by (auto simp: teardown_def Let_def runner_inv_def)
qed

text \<open>A predicate the primitives keep is kept by the whole close and connection-update path.\<close>

locale handler_closed =
  fixes P :: "runner \<Rightarrow> bool"
  assumes emits: "x \<noteq> Eff_release \<Longrightarrow> x \<noteq> Eff_store_release \<Longrightarrow> x \<noteq> Eff_connect \<Longrightarrow> P s \<Longrightarrow> P (emit x s)"
    and health: "P s \<Longrightarrow> P (s\<lparr>rn_health := h\<rparr>)"
    and link: "P s \<Longrightarrow> P (s\<lparr>rn_link := l\<rparr>)"
    and counters: "P s \<Longrightarrow> P (s\<lparr>rn_counters := c\<rparr>)"
    and ends: "P s \<Longrightarrow> P (endSocketOnce s)"
    and tears: "P s \<Longrightarrow> P (teardown r s)"
    and schedules: "P s \<Longrightarrow> n \<le> MAX_ATTEMPTS \<Longrightarrow>
      P (s\<lparr>rn_attempt := n, rn_timers := ts, rn_handle := hnd, rn_nextTimer := nt\<rparr>)"
begin

lemma side_effects: "P s \<Longrightarrow> P (snd (runSideEffects p es s))"
  by (induction p es s rule: runSideEffects.induct) (auto intro: emits ends)

lemma schedule: "P s \<Longrightarrow> P (snd (scheduleReconnectOrGiveUp e a b i s))"
  unfolding scheduleReconnectOrGiveUp_def Let_def
  by (auto simp: shouldGiveUp_def intro!: tears emits health schedules)

lemma commit: "P s \<Longrightarrow> P (snd (commitClose e row fsmRow t from s))"
  unfolding commitClose_def Let_def
  by (auto intro!: schedule emits link health)

lemma handle_close: "P s \<Longrightarrow> P (snd (handleClose e s))"
  unfolding handleClose_def Let_def
  by (auto intro!: commit side_effects counters)

lemma boundary: "P (snd r) \<Longrightarrow> P (onConnectionUpdateSafe r)"
  by (auto simp: onConnectionUpdateSafe_def intro!: tears split: prod.splits wreply.splits)

lemma qr_update: "P s \<Longrightarrow> P (onQrUpdate g x w s)"
  unfolding onQrUpdate_def Let_def by (auto intro!: boundary emits ends tears)

end

locale close_closed = handler_closed +
  assumes closeGen: "P s \<Longrightarrow> P (s\<lparr>rn_closeGen := g\<rparr>)"
begin

lemma close_update: "P s \<Longrightarrow> P (onCloseUpdate g e s)"
  unfolding onCloseUpdate_def by (auto intro!: boundary handle_close closeGen)

end

interpretation inv: close_closed runner_inv
  by unfold_locales (auto simp: emit_inv teardown_inv intro: inv_attempt)

interpretation torn: close_closed rn_tornDown
  by unfold_locales auto

interpretation closing: handler_closed "\<lambda>s. rn_closeGen s = Some g" for g
  by unfold_locales auto

interpretation building: close_closed "\<lambda>s. rn_building s \<le> n" for n
  by unfold_locales auto

lemma buildAndWireSocket_inv: "runner_inv s \<Longrightarrow> runner_inv (buildAndWireSocket s)"
  by (simp add: buildAndWireSocket_def runner_inv_def)

lemma onOpen_le: "onOpen a b n \<le> n"
  by (simp add: onOpen_def)

lemma onOpenUpdate_inv: "runner_inv s \<Longrightarrow> runner_inv (onOpenUpdate g now w s)"
proof -
  assume s: "runner_inv s"
  have err: "runner_inv (onConnectionUpdateSafe (w, s))" using s by (intro inv.boundary) simp
  have att: "n \<le> rn_attempt s \<Longrightarrow> n \<le> MAX_ATTEMPTS" for n using s by (simp add: runner_inv_def)
  have open1: "runner_inv ((emit Eff_publish (emit Eff_linked s))\<lparr>rn_attempt := n\<rparr>)"
    if "n \<le> rn_attempt s" for n
    using att [OF that] s by (intro inv_attempt) (simp_all add: emit_inv)
  have "runner_inv ((emit Eff_publish (emit Eff_linked s))\<lparr>rn_health := h, rn_link := l, rn_attempt := n, rn_openedAt := t\<rparr>)"
    if "n \<le> rn_attempt s" for h l n t
    using open1 [OF that] by (simp add: runner_inv_def)
  then show ?thesis
    using s err onOpen_le unfolding onOpenUpdate_def Let_def by (simp split: option.splits)
qed

lemma selfFence_inv: "runner_inv s \<Longrightarrow> runner_inv (selfFence s)"
proof (cases "rn_fenced s")
  case False
  assume s: "runner_inv s"
  have t: "count_list (rn_log (teardown False s)) Eff_release = count_list (rn_log s) Eff_release"
    "count_list (rn_log (teardown False s)) Eff_connect = count_list (rn_log s) Eff_connect"
    "count_list (rn_log (teardown False s)) Eff_store_release = count_list (rn_log s) Eff_store_release"
    "rn_gen (teardown False s) = rn_gen s" for s
    by (auto simp: teardown_def Let_def endSocketOnce_def clearPendingReconnect_def emit_def split: option.splits)
  show ?thesis using s False unfolding selfFence_def runner_inv_def by (simp add: t)
qed (simp add: selfFence_def)

lemma storeReleaseLease_inv: "runner_inv s \<Longrightarrow> runner_inv (storeReleaseLease s)"
  by (auto simp: storeReleaseLease_def runner_inv_def split: if_splits)

lemma markPurged_inv: "runner_inv s \<Longrightarrow> runner_inv (markPurged s)"
  by (auto simp: markPurged_def runner_inv_def of_bool_def split: if_splits)

lemma onCredsUpdateSafe_inv: "runner_inv s \<Longrightarrow> runner_inv (onCredsUpdateSafe w s)"
  by (simp add: onCredsUpdateSafe_def teardown_inv)

lemma runner_step_inv: "runner_inv s \<Longrightarrow> runner_inv (runner_step s e)"
  by (cases e)
     (auto simp: Let_def applyDegradeKeepSocket_def emit_inv
       intro!: inv.close_update inv.qr_update teardown_inv onOpenUpdate_inv buildAndWireSocket_inv
       selfFence_inv storeReleaseLease_inv markPurged_inv onCredsUpdateSafe_inv)

lemma startRunner_inv: "runner_inv (startRunner i h l)"
  by (simp add: runner_inv_def startRunner_def)

lemma runner_reachable_inv: "runner_reachable s \<Longrightarrow> runner_inv s"
  by (induction rule: runner_reachable.induct) (simp_all add: startRunner_inv runner_step_inv)

text \<open>Teardown is final for the flags, and after it no build begins.\<close>

lemma runner_step_torn:
  assumes "rn_tornDown s"
  shows "rn_tornDown (runner_step s e) \<and> rn_building (runner_step s e) \<le> rn_building s"
proof (cases e)
  case (Close g c)
  then show ?thesis
    using torn.close_update [OF assms] building.close_update [of s "rn_building s"] by simp
next
  case (Qr g x w)
  then show ?thesis
    using torn.qr_update [OF assms] building.qr_update [of s "rn_building s"] by simp
next
  case (Opened g n w)
  then show ?thesis using assms torn.boundary [of "(w, s)"] building.boundary [of "(w, s)" "rn_building s"]
    by (simp add: onOpenUpdate_def Let_def)
qed (use assms in \<open>auto simp: buildAndWireSocket_def applyDegradeKeepSocket_def Let_def selfFence_def storeReleaseLease_def
    markPurged_def onCredsUpdateSafe_def\<close>)

lemma runner_run_torn:
  "rn_tornDown s \<Longrightarrow> rn_tornDown (foldl runner_step s es) \<and> rn_building (foldl runner_step s es) \<le> rn_building s"
proof (induction es arbitrary: s)
  case (Cons e es)
  then show ?case using runner_step_torn [OF Cons.prems, of e] by fastforce
qed simp

text \<open>A close whose row does not reconnect keeps the timers and the attempts.\<close>

lemma runSideEffects_keeps:
  "rn_timers (snd (runSideEffects p es s)) = rn_timers s \<and> rn_attempt (snd (runSideEffects p es s)) = rn_attempt s \<and>
   (p = W_ok \<longrightarrow> fst (runSideEffects p es s) = W_ok \<and>
      (End_socket \<in> set es \<or> rn_ended s \<longrightarrow> rn_ended (snd (runSideEffects p es s))))"
  by (induction p es s rule: runSideEffects.induct) auto

lemma commitClose_no_reconnect:
  assumes "\<not> pr_autoReconnect row"
  shows "rn_timers (snd (commitClose e row f t h s)) = rn_timers s \<and>
    rn_attempt (snd (commitClose e row f t h s)) = rn_attempt s \<and>
    (ce_write e = W_ok \<longrightarrow> fst (commitClose e row f t h s) = W_ok \<and>
       rn_ended (snd (commitClose e row f t h s)) = rn_ended s \<and>
       (\<forall>x. tr_health t = Some x \<longrightarrow> rn_health (snd (commitClose e row f t h s)) = x))"
  using assms by (simp add: commitClose_def scheduleReconnectOrGiveUp_def Let_def)

lemma onConnectionUpdateSafe_keeps:
  "set (rn_timers (onConnectionUpdateSafe r)) \<subseteq> set (rn_timers (snd r))"
  "rn_attempt (onConnectionUpdateSafe r) = rn_attempt (snd r)"
  "fst r = W_ok \<Longrightarrow> onConnectionUpdateSafe r = snd r"
  using teardown_fields(6) [of False "snd r"]
  by (auto simp: onConnectionUpdateSafe_def split: prod.splits wreply.splits)

lemma handleClose_no_reconnect:
  assumes "ce_code e = Some code" "code \<in> never_reconnect_codes"
  shows "rn_timers (snd (handleClose e s)) = rn_timers s \<and> rn_attempt (snd (handleClose e s)) = rn_attempt s \<and>
    (ce_write e = W_ok \<and> ce_purge e = W_ok \<longrightarrow>
       fst (handleClose e s) = W_ok \<and>
       (rn_ended (snd (handleClose e s)) \<or> rn_health (snd (handleClose e s)) \<in> {Paused, Logged_out}))"
proof -
  define row where "row = fst (resolveDisconnect code)"
  define f where "f = toFsmRow row (rn_link s)"
  define k where "k = (fr_action f = A_session_replaced \<and> ce_takeover e)"
  define tc where "tc = applyDisconnect f (rn_counters s) k"
  define r where "r = runSideEffects (ce_purge e) (tr_sideEffects (fst tc)) (s\<lparr>rn_counters := snd tc\<rparr>)"
  have row: "\<not> pr_autoReconnect row" unfolding row_def by (rule never_reconnect_outcome(1) [OF assms(2)])
  have tc: "fst tc = quiet [End_socket] \<or> tr_health (fst tc) \<in> {Some Paused, Some Logged_out}"
    using never_reconnect_outcome(2) [OF assms(2), of "rn_link s" "rn_counters s" k]
    by (auto simp: tc_def f_def row_def disconnect_outcome_def)
  have h: "handleClose e s = (if fst r \<noteq> W_ok then r else commitClose e row f (fst tc) (rn_health s) (snd r))"
    unfolding handleClose_def Let_def r_def tc_def k_def f_def row_def extractCode_def assms(1) by simp
  have r: "rn_timers (snd r) = rn_timers s" "rn_attempt (snd r) = rn_attempt s"
    "ce_purge e = W_ok \<longrightarrow> fst r = W_ok" "ce_purge e = W_ok \<and> fst tc = quiet [End_socket] \<longrightarrow> rn_ended (snd r)"
    using runSideEffects_keeps [of "ce_purge e" "tr_sideEffects (fst tc)" "s\<lparr>rn_counters := snd tc\<rparr>"]
    by (auto simp: r_def quiet_def)
  show ?thesis
    unfolding h using r tc commitClose_no_reconnect [OF row, of e f "fst tc" "rn_health s" "snd r"] by auto
qed

section \<open>Properties\<close>

text \<open>C26. In every reachable state of a session runner its teardowns have released the lease at most once; the auth
  store, which does not read the guard, at most once more, and only after it fenced itself; both only after a teardown.
  The reconnect attempt counter is at most eight, and the socket generation counts the sockets that were created.\<close>

theorem runner_lease_releases:
  assumes "runner_reachable s"
  shows "count_list (rn_log s) Eff_release = of_bool (rn_released s) \<and>
    count_list (rn_log s) Eff_store_release \<le> of_bool (rn_fenced s) \<and>
    (Eff_release \<in> set (rn_log s) \<or> Eff_store_release \<in> set (rn_log s) \<longrightarrow> rn_tornDown s) \<and>
    rn_attempt s \<le> 8 \<and> rn_gen s = count_list (rn_log s) Eff_connect"
proof -
  have i: "runner_inv s" by (rule runner_reachable_inv [OF assms])
  have "Eff_release \<in> set (rn_log s) \<Longrightarrow> count_list (rn_log s) Eff_release \<noteq> 0"
    by (simp add: count_list_0_iff)
  then show ?thesis using i by (auto simp: runner_inv_def MAX_ATTEMPTS_def of_bool_def split: if_splits)
qed

lemma runner_lease_releases_witness:
  "count_list (rn_log (runner_step (runner_step (startRunner [97] Connected Linked) (Teardown True)) (Teardown True))) Eff_release \<le> 1"
  using runner_lease_releases [OF runner_reachable.step [OF runner_reachable.step [OF runner_reachable.start]],
      of "[97]" Connected Linked "Teardown True" "Teardown True", THEN conjunct1]
  by (simp only: of_bool_less_eq_one)

text \<open>The release of the store bypasses the guard of the teardowns: a runner whose store has fenced itself and released
  the lease releases it again when it is torn down with release, and the other way round.\<close>

lemma store_release_bypasses_guard:
  "rn_log (foldl runner_step (startRunner i h l) [Store_fences, Store_releases, Teardown True]) =
     [Eff_end_socket, Eff_store_release, Eff_release]"
  "rn_log (foldl runner_step (startRunner i h l) [Teardown True, Store_fences, Store_releases]) =
     [Eff_end_socket, Eff_release, Eff_store_release]"
  by (simp_all add: startRunner_def selfFence_def storeReleaseLease_def teardown_def endSocketOnce_def clearPendingReconnect_def
      emit_def Let_def)

text \<open>A duplicate close is ignored: once a close of a generation was handled, whatever its
  outcome, a further close of that generation with any code changes nothing until a new socket is
  built. A close of an older generation that arrives after the rebuild is not recognised, though: the
  guard compares with the generation last closed, not with the current one, so it runs the whole
  disconnect handling again.\<close>

theorem duplicate_close_ignored:
  "runner_step (runner_step s (Close g e)) (Close g e') = runner_step s (Close g e) \<and>
   (rn_building s > 0 \<longrightarrow>
      runner_step (runner_step s Build_done) (Close (rn_gen s) e)
        = onConnectionUpdateSafe (handleClose e ((runner_step s Build_done)\<lparr>rn_closeGen := Some (rn_gen s)\<rparr>)))"
proof -
  have "rn_closeGen (onCloseUpdate g e s) = Some g"
    unfolding onCloseUpdate_def by (auto intro!: closing.boundary closing.handle_close)
  then have "onCloseUpdate g e' (onCloseUpdate g e s) = onCloseUpdate g e s"
    by (simp add: onCloseUpdate_def [of g e'])
  then show ?thesis
    by (simp add: onCloseUpdate_def [of "rn_gen s" e] buildAndWireSocket_def)
qed

definition demo_close :: "nat \<Rightarrow> close_env" where
  "demo_close c = \<lparr>ce_code = Some c, ce_takeover = False, ce_u = 0, ce_purge = W_ok, ce_write = W_ok, ce_giveup = W_ok\<rparr>"

lemma duplicate_close_ignored_witness:
  "onCloseUpdate 0 (demo_close 428) (buildAndWireSocket (startRunner [97] Connected Linked))
     = onConnectionUpdateSafe (handleClose (demo_close 428)
         ((buildAndWireSocket (startRunner [97] Connected Linked))\<lparr>rn_closeGen := Some 0\<rparr>))"
  using duplicate_close_ignored [of "(startRunner [97] Connected Linked)\<lparr>rn_building := 1\<rparr>" 0 "demo_close 428" "demo_close 428"]
  by (simp add: startRunner_def)

text \<open>Teardown stops reconnecting: after it no timer, no parked gate waiter and no close begins
  another socket build, whatever follows; the flag never falls back. Only a build that was already
  awaiting the credentials when the teardown ran still completes: that step alone is unguarded and
  leaves a live socket on the released lease.\<close>

theorem teardown_stops_builds:
  "(rn_tornDown (foldl runner_step (teardown r s) es) \<and>
    rn_building (foldl runner_step (teardown r s) es) \<le> rn_building s) \<and>
   (rn_building s > 0 \<longrightarrow> \<not> rn_ended (runner_step (teardown True s) Build_done) \<and>
      rn_released (runner_step (teardown True s) Build_done) \<and>
      Eff_connect \<in> set (rn_log (runner_step (teardown True s) Build_done)))"
  using runner_run_torn [of "teardown r s" es] by (simp add: buildAndWireSocket_def)

lemma teardown_stops_builds_witness:
  "\<not> rn_ended (runner_step (teardown True (runner_step (startRunner [97] Connected Linked) Open_ready)) Build_done)"
  using teardown_stops_builds [of True "runner_step (startRunner [97] Connected Linked) Open_ready" "[]"]
  by (simp add: startRunner_def)

text \<open>The two budgets outlive the connection they count: a successful open changes neither the
  restart-515 nor the unknown-code counter, so after two silent restarts and one degrade the fourth
  515 of a session's life pauses it however long it was open in between; and the attempt counter is
  reset by the time between two opens, which includes the backoff spent disconnected.\<close>

theorem budgets_survive_opens:
  assumes "\<not> rn_ended s"
  shows "rn_counters (runner_step s (Opened (rn_gen s) now W_ok)) = rn_counters s \<and>
    rn_attempt (runner_step (runner_step s (Opened (rn_gen s) t0 W_ok)) (Opened (rn_gen s) (t0 + 60001) W_ok)) = 0 \<and>
    fst (disconnect_outcome 515 l \<lparr>restart515Used = 0, unknownAttempts = 0\<rparr> k) = quiet [] \<and>
    fst (disconnect_outcome 515 l \<lparr>restart515Used = 1, unknownAttempts = 0\<rparr> k) = quiet [] \<and>
    tr_health (fst (disconnect_outcome 515 l \<lparr>restart515Used = 2, unknownAttempts = 0\<rparr> k)) = Some Degraded \<and>
    fst (disconnect_outcome 515 l \<lparr>restart515Used = 3, unknownAttempts = 1\<rparr> k) = pause_for RECONNECT_FAILED"
  using assms
  by (simp add: onOpenUpdate_def Let_def onOpen_def disconnect_outcome_known applyRestart515_def applyUnknown_def quiet_def)

lemma budgets_survive_opens_witness:
  "rn_counters (runner_step (startRunner [97] Connected Linked) (Opened 0 5 W_ok))
     = \<lparr>restart515Used = 0, unknownAttempts = 0\<rparr>"
  using budgets_survive_opens [of "startRunner [97] Connected Linked" 5] by (simp add: startRunner_def)

text \<open>A restriction close is final: a handled close whose code is one of the seven
  never-reconnect codes adds no reconnect timer and keeps the attempt counter, whatever writes fail;
  and when its writes land the runner hands out no send socket afterwards.\<close>

theorem restriction_close_is_final:
  assumes "code \<in> never_reconnect_codes" "ce_code e = Some code" "rn_closeGen s \<noteq> Some g"
  shows "set (rn_timers (runner_step s (Close g e))) \<subseteq> set (rn_timers s) \<and>
    rn_attempt (runner_step s (Close g e)) = rn_attempt s \<and>
    (ce_write e = W_ok \<and> ce_purge e = W_ok \<longrightarrow> \<not> isSendCapable (runner_step s (Close g e)))"
proof -
  define s' where "s' = s\<lparr>rn_closeGen := Some g\<rparr>"
  have step: "runner_step s (Close g e) = onConnectionUpdateSafe (handleClose e s')"
    using assms(3) by (simp add: onCloseUpdate_def s'_def)
  note h = handleClose_no_reconnect [OF assms(2,1), of s']
  show ?thesis
    unfolding step
  proof (intro conjI impI)
    show "set (rn_timers (onConnectionUpdateSafe (handleClose e s'))) \<subseteq> set (rn_timers s)"
      using onConnectionUpdateSafe_keeps(1) [of "handleClose e s'"] h by (simp add: s'_def)
    show "rn_attempt (onConnectionUpdateSafe (handleClose e s')) = rn_attempt s"
      using h by (simp add: onConnectionUpdateSafe_keeps(2) s'_def)
    assume "ce_write e = W_ok \<and> ce_purge e = W_ok"
    then show "\<not> isSendCapable (onConnectionUpdateSafe (handleClose e s'))"
      using h onConnectionUpdateSafe_keeps(3) [of "handleClose e s'"] by (auto simp: isSendCapable_def)
  qed
qed

lemma restriction_close_is_final_witness:
  "\<not> isSendCapable (runner_step (startRunner [97] Connected Linked) (Close 1 (demo_close 403)))"
  using restriction_close_is_final [of 403 "demo_close 403" "startRunner [97] Connected Linked" 1]
  by (simp add: never_reconnect_codes_def demo_close_def startRunner_def)

end
