(* ===== verification/Scheduling.thy ===== *)
theory Scheduling
  imports Prelude Complex_Main
begin

text \<open>
  \<open>packages/domain/src/queue\<close>: the retry backoff (\<open>backoff.ts\<close>, exact reals) and the
  deficit-weighted round robin over the priority bands (\<open>dwrr.ts\<close>).
\<close>

section \<open>backoff.ts\<close>

definition BACKOFF_BASE_MS :: real where "BACKOFF_BASE_MS = 2000"
definition BACKOFF_CAP_MS :: real where "BACKOFF_CAP_MS = 15 * 60 * 1000"

definition backoffCeilingMs :: "int \<Rightarrow> real" where
  "backoffCeilingMs attempts =
    (let clampedAttempts = min (max 0 attempts) 32
     in min BACKOFF_CAP_MS (BACKOFF_BASE_MS * 2 ^ nat clampedAttempts))"

definition backoff :: "int \<Rightarrow> real \<Rightarrow> real" where
  "backoff attempts u = u * backoffCeilingMs attempts"

section \<open>dwrr.ts\<close>

datatype band = HIGH | NORMAL | LOW

definition BAND_ORDER :: "band list" where
  "BAND_ORDER = [HIGH, NORMAL, LOW]"

fun DEFAULT_BAND_WEIGHTS :: "band \<Rightarrow> int" where
  "DEFAULT_BAND_WEIGHTS HIGH = 6"
| "DEFAULT_BAND_WEIGHTS NORMAL = 3"
| "DEFAULT_BAND_WEIGHTS LOW = 1"

datatype dwrr_error = Bad_weight band int

text \<open>Weights are integers here; a fractional weight is rejected by the code as well.\<close>

definition assertValidWeights :: "(band \<Rightarrow> int) \<Rightarrow> (dwrr_error, unit) result" where
  "assertValidWeights w =
    (case filter (\<lambda>b. w b < 1) BAND_ORDER of [] \<Rightarrow> Ok () | b # _ \<Rightarrow> Err (Bad_weight b (w b)))"

record dwrr =
  deficits :: "band \<Rightarrow> int"
  cursor :: nat

definition createDwrrSelector :: "(band \<Rightarrow> int) \<Rightarrow> (dwrr_error, dwrr) result" where
  "createDwrrSelector w = bindR (assertValidWeights w) (\<lambda>_. Ok \<lparr>deficits = (\<lambda>_. 0), cursor = 0\<rparr>)"

fun dwrr_loop :: "nat \<Rightarrow> (band \<Rightarrow> int) \<Rightarrow> (band \<Rightarrow> bool) \<Rightarrow> dwrr \<Rightarrow> band option \<times> dwrr" where
  "dwrr_loop 0 w available s = (None, s)"
| "dwrr_loop (Suc n) w available s =
    (let b = BAND_ORDER ! cursor s; nxt = (cursor s + 1) mod length BAND_ORDER in
     if \<not> available b
     then dwrr_loop n w available (s\<lparr>deficits := (deficits s)(b := 0), cursor := nxt\<rparr>)
     else let d = (if deficits s b < 1 then deficits s b + w b else deficits s b) in
       if d \<ge> 1
       then (Some b, s\<lparr>deficits := (deficits s)(b := d - 1), cursor := (if d - 1 < 1 then nxt else cursor s)\<rparr>)
       else dwrr_loop n w available (s\<lparr>deficits := (deficits s)(b := d), cursor := nxt\<rparr>))"

definition dwrr_next :: "(band \<Rightarrow> int) \<Rightarrow> (band \<Rightarrow> bool) \<Rightarrow> dwrr \<Rightarrow> band option \<times> dwrr" where
  "dwrr_next w available s =
    (if \<not> available HIGH \<and> \<not> available NORMAL \<and> \<not> available LOW then (None, s)
     else dwrr_loop (length BAND_ORDER) w available s)"

fun dwrr_run :: "(band \<Rightarrow> int) \<Rightarrow> dwrr \<Rightarrow> (band \<Rightarrow> bool) list \<Rightarrow> band option list" where
  "dwrr_run w s [] = []"
| "dwrr_run w s (av # avs) = (let (b, s') = dwrr_next w av s in b # dwrr_run w s' avs)"

section \<open>Invariant and waiting time\<close>

fun band_index :: "band \<Rightarrow> nat" where
  "band_index HIGH = 0" | "band_index NORMAL = 1" | "band_index LOW = 2"

definition dwrr_inv :: "(band \<Rightarrow> int) \<Rightarrow> dwrr \<Rightarrow> bool" where
  "dwrr_inv w s \<longleftrightarrow> cursor s < 3 \<and>
    (\<forall>b. if band_index b = cursor s then 0 \<le> deficits s b \<and> deficits s b < w b else deficits s b = 0)"

text \<open>How many other services can precede band \<open>b\<close>: the credit of the cursor's band and the weight
  of the band between, if any.\<close>

definition dwrr_wait :: "(band \<Rightarrow> int) \<Rightarrow> dwrr \<Rightarrow> band \<Rightarrow> int" where
  "dwrr_wait w s b =
    (let c = cursor s; cb = BAND_ORDER ! c; nxt = (c + 1) mod 3 in
     if c = band_index b then 0
     else (if deficits s cb \<ge> 1 then deficits s cb else w cb)
        + (if nxt = band_index b then 0 else w (BAND_ORDER ! nxt)))"

lemma band_all: "(\<forall>b. P b) \<longleftrightarrow> P HIGH \<and> P NORMAL \<and> P LOW"
  by (metis band.exhaust)

lemma less3_cases: "(n::nat) < 3 \<Longrightarrow> n = 0 \<or> n = 1 \<or> n = 2"
  by arith

abbreviation cur :: "dwrr \<Rightarrow> band" where "cur s \<equiv> BAND_ORDER ! cursor s"

definition dwrr_skip :: "dwrr \<Rightarrow> dwrr" where
  "dwrr_skip s = s\<lparr>deficits := (deficits s)(cur s := 0), cursor := (cursor s + 1) mod 3\<rparr>"

definition dwrr_serve :: "(band \<Rightarrow> int) \<Rightarrow> dwrr \<Rightarrow> dwrr" where
  "dwrr_serve w s = (let d = (if deficits s (cur s) < 1 then deficits s (cur s) + w (cur s) else deficits s (cur s)) in
     s\<lparr>deficits := (deficits s)(cur s := d - 1), cursor := (if d - 1 < 1 then (cursor s + 1) mod 3 else cursor s)\<rparr>)"

lemma cursor_cases:
  assumes "dwrr_inv w s"
  obtains "cursor s = 0" "cur s = HIGH" | "cursor s = 1" "cur s = NORMAL" | "cursor s = 2" "cur s = LOW"
  using assms less3_cases [of "cursor s"] by (auto simp: dwrr_inv_def BAND_ORDER_def)

lemma band_order_nth [simp]:
  "BAND_ORDER ! 0 = HIGH" "BAND_ORDER ! Suc 0 = NORMAL" "BAND_ORDER ! 2 = LOW"
  "BAND_ORDER ! Suc (Suc 0) = LOW" "length BAND_ORDER = 3"
  by (simp_all add: BAND_ORDER_def)

lemma cur_index: "dwrr_inv w s \<Longrightarrow> band_index b = cursor s \<longleftrightarrow> b = cur s"
  by (erule cursor_cases; cases b) auto

lemma dwrr_skip_inv:
  assumes "dwrr_inv w s" "\<forall>b. 1 \<le> w b" shows "dwrr_inv w (dwrr_skip s)"
proof -
  have w: "1 \<le> w HIGH" "1 \<le> w NORMAL" "1 \<le> w LOW" using assms(2) by auto
  show ?thesis
    by (rule cursor_cases [OF assms(1)]) (use assms(1) w in \<open>auto simp: dwrr_inv_def dwrr_skip_def band_all\<close>)
qed

lemma dwrr_skip_wait:
  assumes "dwrr_inv w s" "\<forall>b. 1 \<le> w b" "b \<noteq> cur s"
  shows "dwrr_wait w (dwrr_skip s) b \<le> dwrr_wait w s b"
proof -
  have w: "1 \<le> w HIGH" "1 \<le> w NORMAL" "1 \<le> w LOW" using assms(2) by auto
  show ?thesis
    by (rule cursor_cases [OF assms(1)]; cases b)
       (use assms(1,3) w in \<open>auto simp: dwrr_inv_def dwrr_skip_def dwrr_wait_def Let_def band_all\<close>)
qed

lemma dwrr_serve_inv:
  assumes "dwrr_inv w s" "\<forall>b. 1 \<le> w b" shows "dwrr_inv w (dwrr_serve w s)"
proof -
  have w: "1 \<le> w HIGH" "1 \<le> w NORMAL" "1 \<le> w LOW" using assms(2) by auto
  show ?thesis
    by (rule cursor_cases [OF assms(1)])
       (use assms(1) w in \<open>auto simp: dwrr_inv_def dwrr_serve_def band_all Let_def\<close>)
qed

lemma dwrr_serve_wait:
  assumes "dwrr_inv w s" "\<forall>b. 1 \<le> w b" "b \<noteq> cur s"
  shows "dwrr_wait w (dwrr_serve w s) b + 1 \<le> dwrr_wait w s b"
proof -
  have w: "1 \<le> w HIGH" "1 \<le> w NORMAL" "1 \<le> w LOW" using assms(2) by auto
  show ?thesis
    by (rule cursor_cases [OF assms(1)]; cases b)
       (use assms(1,3) w in \<open>auto simp: dwrr_inv_def dwrr_serve_def dwrr_wait_def Let_def band_all\<close>)
qed

lemma dwrr_loop_Suc:
  assumes "dwrr_inv w s" "\<forall>b. 1 \<le> w b"
  shows "dwrr_loop (Suc n) w available s =
    (if available (cur s) then (Some (cur s), dwrr_serve w s) else dwrr_loop n w available (dwrr_skip s))"
proof -
  have "0 \<le> deficits s (cur s)" "1 \<le> w (cur s)"
    using assms by (auto simp: dwrr_inv_def cur_index [OF assms(1)])
  then show ?thesis by (auto simp: dwrr_serve_def dwrr_skip_def Let_def)
qed

lemma cur_skip: "dwrr_inv w s \<Longrightarrow> cursor (dwrr_skip s) = (cursor s + 1) mod 3"
  by (simp add: dwrr_skip_def)

declare dwrr_loop.simps(2) [simp del]

lemma dwrr_loop_finds:
  assumes "dwrr_inv w s" "\<forall>b. 1 \<le> w b" "\<exists>k<n. available (BAND_ORDER ! ((cursor s + k) mod 3))"
  shows "\<exists>x s'. dwrr_loop n w available s = (Some x, s') \<and> available x \<and> dwrr_inv w s' \<and>
    (\<forall>b. available b \<longrightarrow> x = b \<or> dwrr_wait w s' b + 1 \<le> dwrr_wait w s b)"
  using assms(1,3)
proof (induction n arbitrary: s)
  case (Suc n)
  show ?case
  proof (cases "available (cur s)")
    case True
    then have "dwrr_loop (Suc n) w available s = (Some (cur s), dwrr_serve w s)"
      using dwrr_loop_Suc [OF Suc.prems(1) assms(2)] by simp
    moreover have "cur s = b \<or> dwrr_wait w (dwrr_serve w s) b + 1 \<le> dwrr_wait w s b" for b
      using dwrr_serve_wait [OF Suc.prems(1) assms(2), of b] by blast
    ultimately show ?thesis
      using True dwrr_serve_inv [OF Suc.prems(1) assms(2)] by blast
  next
    case False
    obtain k where k: "k < Suc n" "available (BAND_ORDER ! ((cursor s + k) mod 3))" using Suc.prems(2) by auto
    have c: "cursor s mod 3 = cursor s" using Suc.prems(1) by (simp add: dwrr_inv_def)
    with k False have "k \<noteq> 0" by (intro notI) simp
    then obtain j where j: "k = Suc j" by (cases k) auto
    have "((cursor s + 1) mod 3 + j) mod 3 = (cursor s + k) mod 3" by (simp add: j mod_simps)
    then have "\<exists>k<n. available (BAND_ORDER ! ((cursor (dwrr_skip s) + k) mod 3))"
      using k j by (intro exI [of _ j]) (simp add: cur_skip [OF Suc.prems(1)])
    from Suc.IH [OF dwrr_skip_inv [OF Suc.prems(1) assms(2)] this]
    obtain x s' where x: "dwrr_loop n w available (dwrr_skip s) = (Some x, s')" "available x" "dwrr_inv w s'"
      "\<forall>b. available b \<longrightarrow> x = b \<or> dwrr_wait w s' b + 1 \<le> dwrr_wait w (dwrr_skip s) b" by blast
    have "\<forall>b. available b \<longrightarrow> x = b \<or> dwrr_wait w s' b + 1 \<le> dwrr_wait w s b"
    proof (intro allI impI)
      fix b assume b: "available b"
      then have "b \<noteq> cur s" using False by auto
      then have "dwrr_wait w (dwrr_skip s) b \<le> dwrr_wait w s b"
        by (rule dwrr_skip_wait [OF Suc.prems(1) assms(2)])
      then show "x = b \<or> dwrr_wait w s' b + 1 \<le> dwrr_wait w s b" using x(4) b by force
    qed
    then show ?thesis using x False dwrr_loop_Suc [OF Suc.prems(1) assms(2)] by auto
  qed
qed simp

lemma ex_less3: "(\<exists>k<3. P (k::nat)) \<longleftrightarrow> P 0 \<or> P 1 \<or> P 2"
  using less3_cases by (metis zero_less_numeral one_less_numeral_iff semiring_norm(77) lessI numeral_2_eq_2 numeral_3_eq_3)

lemma dwrr_step:
  assumes "dwrr_inv w s" "\<forall>b. 1 \<le> w b" "available HIGH \<or> available NORMAL \<or> available LOW"
  shows "\<exists>x s'. dwrr_next w available s = (Some x, s') \<and> available x \<and> dwrr_inv w s' \<and>
    (\<forall>b. available b \<longrightarrow> x = b \<or> dwrr_wait w s' b + 1 \<le> dwrr_wait w s b)"
proof -
  have reach: "\<exists>k<3. BAND_ORDER ! ((cursor s + k) mod 3) = b" for b
    by (rule cursor_cases [OF assms(1)]; cases b) (simp_all add: ex_less3)
  then have "\<exists>k<3. available (BAND_ORDER ! ((cursor s + k) mod 3))"
    using assms(3) by metis
  from dwrr_loop_finds [OF assms(1,2) this] show ?thesis using assms(3) by (auto simp: dwrr_next_def)
qed

definition dwrr_after :: "(band \<Rightarrow> int) \<Rightarrow> dwrr \<Rightarrow> (band \<Rightarrow> bool) list \<Rightarrow> dwrr" where
  "dwrr_after w s avs = foldl (\<lambda>s av. snd (dwrr_next w av s)) s avs"

lemma dwrr_next_none: "\<not> (available HIGH \<or> available NORMAL \<or> available LOW) \<Longrightarrow> dwrr_next w available s = (None, s)"
  by (simp add: dwrr_next_def)

lemma dwrr_next_inv: "dwrr_inv w s \<Longrightarrow> \<forall>b. 1 \<le> w b \<Longrightarrow> dwrr_inv w (snd (dwrr_next w available s))"
  using dwrr_step [of w s available] dwrr_next_none [of available w s] by fastforce

lemma dwrr_after_inv: "dwrr_inv w s \<Longrightarrow> \<forall>b. 1 \<le> w b \<Longrightarrow> dwrr_inv w (dwrr_after w s avs)"
  unfolding dwrr_after_def by (induction avs arbitrary: s) (simp_all add: dwrr_next_inv)

lemma create_inv:
  assumes "createDwrrSelector w = Inr s" shows "(\<forall>b. 1 \<le> w b) \<and> dwrr_inv w s"
proof -
  have "filter (\<lambda>b. w b < 1) BAND_ORDER = []" and s: "s = \<lparr>deficits = (\<lambda>_. 0), cursor = 0\<rparr>"
    using assms by (auto simp: createDwrrSelector_def assertValidWeights_def split: list.splits)
  then have "\<forall>b. 1 \<le> w b" by (auto simp: BAND_ORDER_def band_all split: if_splits)
  moreover have "0 < w HIGH" using calculation [rule_format, of HIGH] by simp
  ultimately show ?thesis by (simp add: s dwrr_inv_def band_all)
qed

lemma dwrr_wait_bounds:
  assumes "dwrr_inv w s" "\<forall>b. 1 \<le> w b"
  shows "0 \<le> dwrr_wait w s b \<and> dwrr_wait w s b \<le> w HIGH + w NORMAL + w LOW - w b"
proof -
  have w: "1 \<le> w HIGH" "1 \<le> w NORMAL" "1 \<le> w LOW" using assms(2) by auto
  show ?thesis
    by (rule cursor_cases [OF assms(1)]; cases b)
       (use assms(1) w in \<open>auto simp: dwrr_inv_def dwrr_wait_def Let_def band_all\<close>)
qed

lemma dwrr_run_serves:
  assumes "dwrr_inv w s" "\<forall>b. 1 \<le> w b" "\<forall>av\<in>set avs. av b" "dwrr_wait w s b < int (length avs)"
  shows "Some b \<in> set (dwrr_run w s avs)"
  using assms(1,3,4)
proof (induction avs arbitrary: s)
  case Nil
  then show ?case using dwrr_wait_bounds [OF Nil.prems(1) assms(2), of b] by simp
next
  case (Cons av avs)
  have "av HIGH \<or> av NORMAL \<or> av LOW" using Cons.prems(2) by (cases b) auto
  from dwrr_step [OF Cons.prems(1) assms(2) this]
  obtain x s' where x: "dwrr_next w av s = (Some x, s')" "dwrr_inv w s'"
    "x = b \<or> dwrr_wait w s' b + 1 \<le> dwrr_wait w s b" using Cons.prems(2) by auto
  show ?case
    using x Cons.IH [OF x(2)] Cons.prems by (cases "x = b") auto
qed

lemma backoffCeilingMs_capped:
  assumes "0 \<le> a"
  shows "backoffCeilingMs a = min BACKOFF_CAP_MS (BACKOFF_BASE_MS * 2 ^ nat a)"
proof (cases "a \<le> 32")
  case True
  then show ?thesis using assms by (simp add: backoffCeilingMs_def min_def)
next
  case False
  have "(2::real) ^ 32 \<le> 2 ^ nat a" using False by (intro power_increasing) auto
  then have "BACKOFF_CAP_MS \<le> BACKOFF_BASE_MS * 2 ^ nat a"
    by (simp add: BACKOFF_CAP_MS_def BACKOFF_BASE_MS_def)
  then show ?thesis using False by (simp add: backoffCeilingMs_def min_def BACKOFF_CAP_MS_def BACKOFF_BASE_MS_def)
qed

section \<open>Properties\<close>

text \<open>C28. No band starves: from any state a constructed selector reaches, every call serves a band that
  has work (and \<open>null\<close> only when none has), and a band that keeps having work is served within as many
  calls as the other bands' weights add up to, plus one: with the default weights the LOW band at least
  once in ten.\<close>

theorem dwrr_never_starves:
  assumes "createDwrrSelector w = Inr s0"
    and "\<forall>av\<in>set avs. av b" "w HIGH + w NORMAL + w LOW - w b < int (length avs)"
  shows "Some b \<in> set (dwrr_run w (dwrr_after w s0 history) avs) \<and>
    (\<forall>av. case fst (dwrr_next w av (dwrr_after w s0 history)) of
        None \<Rightarrow> \<not> av HIGH \<and> \<not> av NORMAL \<and> \<not> av LOW | Some x \<Rightarrow> av x)"
proof -
  have w: "\<forall>b. 1 \<le> w b" and inv: "dwrr_inv w (dwrr_after w s0 history)"
    using create_inv [OF assms(1)] by (auto intro: dwrr_after_inv)
  have "Some b \<in> set (dwrr_run w (dwrr_after w s0 history) avs)"
    using dwrr_run_serves [OF inv w assms(2)] dwrr_wait_bounds [OF inv w, of b] assms(3) by linarith
  moreover have "case fst (dwrr_next w av (dwrr_after w s0 history)) of
        None \<Rightarrow> \<not> av HIGH \<and> \<not> av NORMAL \<and> \<not> av LOW | Some x \<Rightarrow> av x" for av
    using dwrr_step [OF inv w, of av] dwrr_next_none [of av w] by (cases "av HIGH \<or> av NORMAL \<or> av LOW") fastforce+
  ultimately show ?thesis by blast
qed

lemma dwrr_never_starves_witness:
  "Some LOW \<in> set (dwrr_run DEFAULT_BAND_WEIGHTS \<lparr>deficits = (\<lambda>_. 0), cursor = 0\<rparr> (replicate 10 (\<lambda>_. True)))"
  using dwrr_never_starves [of DEFAULT_BAND_WEIGHTS "\<lparr>deficits = (\<lambda>_. 0), cursor = 0\<rparr>"
      "replicate 10 (\<lambda>_. True)" LOW "[]"]
  by (simp add: createDwrrSelector_def assertValidWeights_def BAND_ORDER_def dwrr_after_def)

text \<open>The retry backoff is full jitter under a capped exponential: for a draw below one and a
  non-negative attempt count the delay lies between zero and the ceiling, the clamp of the exponent does
  not change the ceiling, and from the ninth retry on the ceiling is the fifteen-minute cap.\<close>

theorem backoff_full_jitter:
  assumes "0 \<le> u" "u < 1" "0 \<le> attempts"
  shows "0 \<le> backoff attempts u \<and> backoff attempts u \<le> min 900000 (2000 * 2 ^ nat attempts) \<and>
    backoff attempts u < 900000 \<and> (9 \<le> attempts \<longrightarrow> backoff attempts u = u * 900000)"
proof -
  define c where "c = backoffCeilingMs attempts"
  have c: "c = min 900000 (2000 * 2 ^ nat attempts)"
    unfolding c_def backoffCeilingMs_capped [OF assms(3)] by (simp add: BACKOFF_CAP_MS_def BACKOFF_BASE_MS_def)
  have pos: "0 \<le> c" "c \<le> 900000" by (simp_all add: c)
  have "u * c \<le> c" using assms pos by (auto intro: mult_left_le_one_le)
  moreover have "u * c < 900000"
  proof (cases "u = 0")
    case False
    then have "u * c \<le> u * 900000" using assms pos by (intro mult_left_mono) auto
    also have "\<dots> < 900000" using assms by simp
    finally show ?thesis .
  qed simp
  moreover have "c = 900000" if "9 \<le> attempts"
  proof -
    have "(2::real) ^ 9 \<le> 2 ^ nat attempts" using that by (intro power_increasing) auto
    then show ?thesis by (simp add: c)
  qed
  ultimately show ?thesis
    using assms pos by (auto simp: backoff_def c_def [symmetric] c [symmetric])
qed

lemma backoff_full_jitter_witness: "backoff 40 (1 / 2) = 450000"
  using backoff_full_jitter [of "1 / 2" 40] by simp

end
