(* ===== verification/Encodings.thy ===== *)
theory Encodings
  imports Prelude
begin

text \<open>
  The canonical strings the program hashes or routes by, and the ledgers keyed by them:
  \<open>queue/content-hash.ts\<close>, \<open>queue/delivery-event-id.ts\<close>, \<open>notifications/dedupe-key.ts\<close>,
  \<open>realtime/channel.ts\<close>, \<open>contacts/jid.ts\<close>, \<open>groups/group-jid.ts\<close> and
  \<open>inbound/ignore-jid.ts\<close> of \<open>packages/domain/src\<close>, and their use in
  \<open>engine/queue/delivery-event.ts\<close> and \<open>modules/inbound/receipts.ts\<close>.
  NFC normalisation and SHA-256 are parameters.
\<close>

section \<open>Ledgers keyed by an injective encoding\<close>

text \<open>\<open>INSERT ... ON CONFLICT DO NOTHING\<close>: whether the row was inserted, and the ledger.\<close>

definition ledger_insert :: "'k \<Rightarrow> 'k list \<Rightarrow> bool \<times> 'k list" where
  "ledger_insert k ks = (if k \<in> set ks then (False, ks) else (True, ks @ [k]))"

fun ledger_run :: "('f \<Rightarrow> 'k) \<Rightarrow> 'k list \<Rightarrow> 'f list \<Rightarrow> bool list \<times> 'k list" where
  "ledger_run key ks [] = ([], ks)"
| "ledger_run key ks (f # fs) =
     (let (b, ks') = ledger_insert (key f) ks; (bs, ks'') = ledger_run key ks' fs in (b # bs, ks''))"

locale idempotency_key =
  fixes key :: "'f \<Rightarrow> 'k"
    and valid :: "'f \<Rightarrow> bool"
  assumes key_inj: "valid f \<Longrightarrow> valid g \<Longrightarrow> key f = key g \<Longrightarrow> f = g"
begin

lemma key_mem: "\<forall>g\<in>set seen. valid g \<Longrightarrow> valid f \<Longrightarrow> key f \<in> set (map key seen) \<longleftrightarrow> f \<in> set seen"
  by (auto dest: key_inj)

lemma run_outcomes:
  assumes "\<forall>f\<in>set seen. valid f" "\<forall>f\<in>set fs. valid f"
  shows "\<forall>n<length fs. fst (ledger_run key (map key seen) fs) ! n \<longleftrightarrow> fs ! n \<notin> set seen \<union> set (take n fs)"
  using assms
proof (induction fs arbitrary: seen)
  case (Cons f fs)
  have mem: "key f \<in> set (map key seen) \<longleftrightarrow> f \<in> set seen"
    by (rule key_mem) (use Cons.prems in auto)
  show ?case
  proof (cases "f \<in> set seen")
    case True
    then show ?thesis using Cons.IH [OF Cons.prems(1)] Cons.prems(2) mem
      by (auto simp: ledger_insert_def nth_Cons take_Cons split: nat.splits prod.splits)
  next
    case False
    have "\<forall>n<length fs. fst (ledger_run key (map key (seen @ [f])) fs) ! n
        \<longleftrightarrow> fs ! n \<notin> set (seen @ [f]) \<union> set (take n fs)"
      by (rule Cons.IH) (use Cons.prems in auto)
    then show ?thesis using False mem
      by (auto simp: ledger_insert_def nth_Cons take_Cons split: nat.splits prod.splits)
  qed
qed simp

lemma run_length: "length (fst (ledger_run key ks fs)) = length fs"
  by (induction fs arbitrary: ks) (simp_all add: case_prod_beta Let_def)

text \<open>Each distinct item is inserted exactly once, at its first occurrence.\<close>

lemma run_inserts_each_once:
  assumes "\<forall>f\<in>set fs. valid f"
  shows "length (filter (\<lambda>b. b) (fst (ledger_run key [] fs))) = card (set fs)"
proof -
  have "length (filter (\<lambda>b. b) (fst (ledger_run key (map key seen) fs))) = card (set fs - set seen)"
    if "\<forall>f\<in>set seen. valid f" for seen
    using that assms
  proof (induction fs arbitrary: seen)
    case (Cons f fs)
    have mem: "key f \<in> set (map key seen) \<longleftrightarrow> f \<in> set seen"
      by (rule key_mem) (use Cons.prems in auto)
    show ?case
    proof (cases "f \<in> set seen")
      case True
      then show ?thesis using Cons.IH [OF Cons.prems(1)] Cons.prems(2) mem
        by (simp add: ledger_insert_def insert_Diff_if case_prod_beta Let_def)
    next
      case False
      have "length (filter (\<lambda>b. b) (fst (ledger_run key (map key (seen @ [f])) fs))) = card (set fs - set (seen @ [f]))"
        by (rule Cons.IH) (use Cons.prems in auto)
      moreover have "set (f # fs) - set seen = insert f (set fs - set (seen @ [f]))" using False by auto
      ultimately show ?thesis using False mem
        by (simp add: ledger_insert_def case_prod_beta Let_def)
    qed
  qed simp
  from this [of "[]"] show ?thesis by simp
qed

end

section \<open>contacts/jid.ts and groups/group-jid.ts\<close>

definition before :: "char \<Rightarrow> string \<Rightarrow> string" where
  "before c s = takeWhile (\<lambda>x. x \<noteq> c) s"

record decoded_jid =
  dj_user :: string
  dj_server :: string

text \<open>\<open>jidDecode\<close> restricted to the two fields its callers read; \<open>None\<close> is \<open>undefined\<close>.\<close>

definition jidDecode :: "string \<Rightarrow> decoded_jid option" where
  "jidDecode jid = (case index_of (CHR ''@'') jid of None \<Rightarrow> None
     | Some sepIdx \<Rightarrow>
         let server = drop (sepIdx + 1) jid; userCombined = take sepIdx jid;
             userAgent = before (CHR '':'') userCombined; user = before (CHR ''_'') userAgent
         in Some \<lparr>dj_user = user, dj_server = server\<rparr>)"

definition jidEncode :: "string \<Rightarrow> string \<Rightarrow> string" where
  "jidEncode user server = user @ ''@'' @ server"

definition normalizeJidUser :: "string \<Rightarrow> string" where
  "normalizeJidUser jid = (case jidDecode jid of None \<Rightarrow> ''''
     | Some d \<Rightarrow> jidEncode (dj_user d) (if dj_server d = ''c.us'' then ''s.whatsapp.net'' else dj_server d))"

definition lowerCaseServerOnly :: "string \<Rightarrow> string" where
  "lowerCaseServerOnly jid = (case index_of (CHR ''@'') jid of None \<Rightarrow> jid
     | Some i \<Rightarrow> take i jid @ ''@'' @ to_lower (drop (i + 1) jid))"

datatype addressing_mode = Mode_pn | Mode_lid

record jid_result =
  jr_jid :: string
  jr_mode :: addressing_mode
  jr_unattributable :: bool
  jr_e164 :: "string option"
  jr_lidJid :: "string option"

definition all_digits :: "string \<Rightarrow> bool" where
  "all_digits s \<longleftrightarrow> s \<noteq> [] \<and> list_all is_digit s"

text \<open>The recursive call of \<open>normaliseJid\<close> passes no options, so it is this function with no lid map.\<close>

definition normaliseJidWith :: "(string \<Rightarrow> jid_result option) \<Rightarrow> string \<Rightarrow> jid_result" where
  "normaliseJidWith onLid jid =
    (let normalised = normalizeJidUser (lowerCaseServerOnly jid) in
     if normalised = [] then \<lparr>jr_jid = [], jr_mode = Mode_pn, jr_unattributable = True, jr_e164 = None, jr_lidJid = None\<rparr>
     else let d = jidDecode normalised;
              server = (case d of None \<Rightarrow> [] | Some x \<Rightarrow> dj_server x);
              user = (case d of None \<Rightarrow> [] | Some x \<Rightarrow> dj_user x) in
       if server = ''lid''
       then (case onLid normalised of
               Some r \<Rightarrow> r\<lparr>jr_mode := Mode_lid, jr_lidJid := Some normalised\<rparr>
             | None \<Rightarrow> \<lparr>jr_jid = normalised, jr_mode = Mode_lid, jr_unattributable = True, jr_e164 = None,
                          jr_lidJid = Some normalised\<rparr>)
       else if server = ''s.whatsapp.net'' \<and> all_digits user
       then \<lparr>jr_jid = normalised, jr_mode = Mode_pn, jr_unattributable = False,
              jr_e164 = Some (''+'' @ user), jr_lidJid = None\<rparr>
       else \<lparr>jr_jid = normalised, jr_mode = Mode_pn, jr_unattributable = True, jr_e164 = None, jr_lidJid = None\<rparr>)"

definition normaliseJid :: "(string \<Rightarrow> string option) \<Rightarrow> string \<Rightarrow> jid_result" where
  "normaliseJid resolveLid jid =
     normaliseJidWith (\<lambda>lid. map_option (normaliseJidWith (\<lambda>_. None)) (resolveLid lid)) jid"

definition isGroupJid :: "string \<Rightarrow> bool" where
  "isGroupJid jid = (case last_index_of (CHR ''@'') jid of None \<Rightarrow> False
     | Some i \<Rightarrow> to_lower (drop (i + 1) jid) = ''g.us'')"

datatype encoding_error = Range_error string

definition groupRecipientHashInput :: "string \<Rightarrow> (encoding_error, string) result" where
  "groupRecipientHashInput jid =
    (if \<not> isGroupJid jid then Err (Range_error jid) else Ok (normalizeJidUser (lowerCaseServerOnly jid)))"

section \<open>inbound/ignore-jid.ts\<close>

datatype inbound_scope = Scope_message | Scope_receipt

definition serverPartLower :: "string \<Rightarrow> string" where
  "serverPartLower jid = (case index_of (CHR ''@'') jid of None \<Rightarrow> [] | Some i \<Rightarrow> to_lower (drop (i + 1) jid))"

definition isStatusOrNewsletter :: "string \<Rightarrow> bool" where
  "isStatusOrNewsletter jid \<longleftrightarrow> serverPartLower jid = ''newsletter'' \<or> to_lower jid = ''status@broadcast''"

definition shouldIgnoreJid :: "string option \<Rightarrow> inbound_scope \<Rightarrow> string set \<Rightarrow> bool" where
  "shouldIgnoreJid jid scope sendEnabledGroupJids =
    (case jid of
       None \<Rightarrow> scope = Scope_message
     | Some j \<Rightarrow>
         if j = [] then scope = Scope_message
         else if isStatusOrNewsletter j then True
         else if scope = Scope_receipt then False
         else if serverPartLower j = ''g.us'' then normalizeJidUser j \<notin> sendEnabledGroupJids
         else False)"

section \<open>queue/content-hash.ts\<close>

datatype content_kind = Kind_text | Kind_media

fun kind_label :: "content_kind \<Rightarrow> string" where
  "kind_label Kind_text = ''text''" | "kind_label Kind_media = ''media''"

record content_fields =
  cf_jid :: string
  cf_kind :: content_kind
  cf_text :: "string option"

definition strip_plus :: "string \<Rightarrow> string" where
  "strip_plus s = (if starts_with s ''+'' then drop 1 s else s)"

definition normalizeWaJidForHash :: "string \<Rightarrow> string" where
  "normalizeWaJidForHash rawJid =
    (let lowered = to_lower rawJid; atIndex = index_of (CHR ''@'') lowered;
         userPart = (case atIndex of None \<Rightarrow> lowered | Some i \<Rightarrow> take i lowered);
         serverPart = (case atIndex of None \<Rightarrow> ''s.whatsapp.net'' | Some i \<Rightarrow> drop (i + 1) lowered);
         user = strip_plus (before (CHR '':'') userPart);
         server = (if serverPart = ''c.us'' then ''s.whatsapp.net'' else serverPart)
     in user @ ''@'' @ server)"

text \<open>Strings are UTF-8 bytes, so \<open>utf8ByteLength\<close> is the list length.\<close>

definition contentHashInput :: "(string \<Rightarrow> string) \<Rightarrow> content_fields \<Rightarrow> string" where
  "contentHashInput nfc f =
    (let jid = normalizeWaJidForHash (cf_jid f);
         text = nfc (case cf_text f of None \<Rightarrow> [] | Some t \<Rightarrow> t)
     in ''v1|'' @ dec (length jid) @ '':'' @ jid @ ''|'' @ kind_label (cf_kind f) @ ''|''
        @ dec (length text) @ '':'' @ text)"

section \<open>queue/delivery-event-id.ts and notifications/dedupe-key.ts\<close>

definition EVENT_TYPES :: "string list" where
  "EVENT_TYPES = [''created'', ''queued'', ''claimed'', ''dispatched'', ''sent'', ''delivered'', ''read'',
     ''failed'', ''retry_scheduled'', ''paused_hold'', ''cancelled'', ''reconciled'']"

definition deliveryEventIdInput :: "string \<Rightarrow> string \<Rightarrow> string \<Rightarrow> nat \<Rightarrow> string" where
  "deliveryEventIdInput instanceId publicId eventType attemptNo =
     instanceId @ '':'' @ publicId @ '':'' @ eventType @ '':'' @ dec attemptNo"

definition RECEIPT_ID_SEPARATOR :: char where
  "RECEIPT_ID_SEPARATOR = char_of (31::nat)"

definition providerEventIdInput ::
  "string \<Rightarrow> string \<Rightarrow> string \<Rightarrow> string \<Rightarrow> string \<Rightarrow> (encoding_error, string) result" where
  "providerEventIdInput instanceId waMsgId eventType eventTs participantJid =
    (if instanceId = [] \<or> waMsgId = [] \<or> eventType = []
     then Err (Range_error ''providerEventIdInput requires non-empty instanceId, waMsgId and eventType'')
     else Ok (''receipt:'' @ join_with RECEIPT_ID_SEPARATOR [instanceId, waMsgId, eventType, eventTs, participantJid]))"

definition notificationDedupeKeyInput :: "string \<Rightarrow> string option \<Rightarrow> string \<Rightarrow> string option \<Rightarrow> string" where
  "notificationDedupeKeyInput kind instanceId transitionId bucket =
    kind @ (case instanceId of None \<Rightarrow> [] | Some i \<Rightarrow> i) @ transitionId @ (case bucket of None \<Rightarrow> [] | Some b \<Rightarrow> b)"

section \<open>realtime/channel.ts\<close>

definition assertSegment :: "string \<Rightarrow> (encoding_error, unit) result" where
  "assertSegment value = (if value = [] \<or> CHR '':'' \<in> set value then Err (Range_error value) else Ok ())"

definition realtimeChannel :: "string \<Rightarrow> string option \<Rightarrow> (encoding_error, string) result" where
  "realtimeChannel clientId instanceId =
    bindR (assertSegment clientId) (\<lambda>_.
      case instanceId of None \<Rightarrow> Ok (''client:'' @ clientId)
      | Some i \<Rightarrow> bindR (assertSegment i) (\<lambda>_. Ok (''client:'' @ clientId @ '':instance:'' @ i)))"

text \<open>The two anchored patterns, as splits at the colons; both groups are non-empty and colon-free.\<close>

fun split_on :: "char \<Rightarrow> string \<Rightarrow> string list" where
  "split_on c [] = [[]]"
| "split_on c (x # xs) =
    (if x = c then [] # split_on c xs
     else (case split_on c xs of [] \<Rightarrow> [[x]] | p # ps \<Rightarrow> (x # p) # ps))"

definition parseRealtimeChannel :: "string \<Rightarrow> (encoding_error, string \<times> string option) result" where
  "parseRealtimeChannel name =
    (case split_on (CHR '':'') name of
       [a, c, b, i] \<Rightarrow> if a = ''client'' \<and> b = ''instance'' \<and> c \<noteq> [] \<and> i \<noteq> [] then Ok (c, Some i) else Err (Range_error name)
     | [a, c] \<Rightarrow> if a = ''client'' \<and> c \<noteq> [] then Ok (c, None) else Err (Range_error name)
     | _ \<Rightarrow> Err (Range_error name))"

section \<open>Injectivity\<close>

lemma starts_receipt: "''receipt:'' @ s \<noteq> t" if "CHR '':'' \<notin> set (take 8 t)" for s t :: string
  using that by auto

lemma deliveryEventIdInput_inj [codec_inj]:
  assumes "CHR '':'' \<notin> set i" "CHR '':'' \<notin> set p" "CHR '':'' \<notin> set e"
    and "CHR '':'' \<notin> set i'" "CHR '':'' \<notin> set p'" "CHR '':'' \<notin> set e'"
    and "deliveryEventIdInput i p e n = deliveryEventIdInput i' p' e' n'"
  shows "i = i' \<and> p = p' \<and> e = e' \<and> n = n'"
proof -
  have d: "\<not> is_digit (CHR '':'')" by code_simp
  have "join_with (CHR '':'') [i, p, e, dec n] = join_with (CHR '':'') [i', p', e', dec n']"
    using assms(7) by (simp add: deliveryEventIdInput_def)
  then have "[i, p, e, dec n] = [i', p', e', dec n']"
    by (rule join_with_inj [rotated 3]) (use assms d dec_digits in auto)
  then show ?thesis using dec_inj by auto
qed

lemma providerEventIdInput_inj [codec_inj]:
  assumes "providerEventIdInput i w e t p = Inr k" "providerEventIdInput i' w' e' t' p' = Inr k"
    and "\<forall>x\<in>{i, w, e, t, p, i', w', e', t', p'}. RECEIPT_ID_SEPARATOR \<notin> set x"
  shows "[i, w, e, t, p] = [i', w', e', t', p']"
proof -
  have "join_with RECEIPT_ID_SEPARATOR [i, w, e, t, p] = join_with RECEIPT_ID_SEPARATOR [i', w', e', t', p']"
    using assms(1,2) by (auto simp: providerEventIdInput_def split: if_splits)
  then show ?thesis by (rule join_with_inj [rotated 3]) (use assms(3) in auto)
qed

text \<open>A length prefix makes any content self-delimiting.\<close>

lemma length_prefix_inj:
  assumes "dec (length x) @ CHR '':'' # x @ u = dec (length y) @ CHR '':'' # y @ v"
  shows "x = y \<and> u = v"
proof -
  have "CHR '':'' \<notin> set (dec n)" for n
    using dec_digits [of "CHR '':''" n] by (auto simp: is_digit_def less_eq_char_def)
  then have "dec (length x) = dec (length y) \<and> x @ u = y @ v"
    using append_sep_inj assms by metis
  then show ?thesis using dec_inj by auto
qed

lemma contentHashInput_eq [codec_inj]:
  assumes "contentHashInput nfc f = contentHashInput nfc g"
  shows "normalizeWaJidForHash (cf_jid f) = normalizeWaJidForHash (cf_jid g) \<and> cf_kind f = cf_kind g \<and>
    nfc (case cf_text f of None \<Rightarrow> [] | Some t \<Rightarrow> t) = nfc (case cf_text g of None \<Rightarrow> [] | Some t \<Rightarrow> t)"
proof -
  let ?jf = "normalizeWaJidForHash (cf_jid f)" and ?jg = "normalizeWaJidForHash (cf_jid g)"
  let ?tf = "nfc (case cf_text f of None \<Rightarrow> [] | Some t \<Rightarrow> t)" and ?tg = "nfc (case cf_text g of None \<Rightarrow> [] | Some t \<Rightarrow> t)"
  have "?jf = ?jg \<and> CHR ''|'' # kind_label (cf_kind f) @ CHR ''|'' # dec (length ?tf) @ CHR '':'' # ?tf
      = CHR ''|'' # kind_label (cf_kind g) @ CHR ''|'' # dec (length ?tg) @ CHR '':'' # ?tg"
    by (rule length_prefix_inj) (use assms in \<open>simp add: contentHashInput_def Let_def\<close>)
  moreover from this have "cf_kind f = cf_kind g \<and>
      dec (length ?tf) @ CHR '':'' # ?tf @ [] = dec (length ?tg) @ CHR '':'' # ?tg @ []"
    by (cases "cf_kind f"; cases "cf_kind g") auto
  ultimately show ?thesis using length_prefix_inj [of ?tf "[]" ?tg "[]"] by blast
qed

definition event_fields_ok :: "string \<times> string \<times> string \<times> nat \<Rightarrow> bool" where
  "event_fields_ok f \<longleftrightarrow> (case f of (i, p, e, n) \<Rightarrow> CHR '':'' \<notin> set i \<and> CHR '':'' \<notin> set p \<and> CHR '':'' \<notin> set e)"

definition event_key :: "string \<times> string \<times> string \<times> nat \<Rightarrow> string" where
  "event_key f = (case f of (i, p, e, n) \<Rightarrow> deliveryEventIdInput i p e n)"

interpretation delivery: idempotency_key event_key event_fields_ok
proof
  fix f g assume v: "event_fields_ok f" "event_fields_ok g" "event_key f = event_key g"
  obtain i p e n where f: "f = (i, p, e, n)" by (cases f)
  obtain i' p' e' n' where g: "g = (i', p', e', n')" by (cases g)
  have "i = i' \<and> p = p' \<and> e = e' \<and> n = n'"
    by (rule deliveryEventIdInput_inj) (use v in \<open>simp_all add: f g event_fields_ok_def event_key_def\<close>)
  then show "f = g" by (simp add: f g)
qed

interpretation content: idempotency_key
  "contentHashInput nfc"
  "\<lambda>f. cf_jid f = normalizeWaJidForHash (cf_jid f) \<and> (\<exists>t. cf_text f = Some t \<and> nfc t = t)" for nfc
proof
  fix f g :: content_fields
  assume "cf_jid f = normalizeWaJidForHash (cf_jid f) \<and> (\<exists>t. cf_text f = Some t \<and> nfc t = t)"
    "cf_jid g = normalizeWaJidForHash (cf_jid g) \<and> (\<exists>t. cf_text g = Some t \<and> nfc t = t)"
    "contentHashInput nfc f = contentHashInput nfc g"
  note v = this
  obtain tf tg where t: "cf_text f = Some tf" "nfc tf = tf" "cf_text g = Some tg" "nfc tg = tg"
    using v(1,2) by blast
  note e = contentHashInput_eq [OF v(3)]
  have "cf_text f = cf_text g" using e by (simp add: t)
  moreover have "cf_jid f = cf_jid g"
    by (rule trans [OF conjunct1 [OF v(1)] trans [OF conjunct1 [OF e] sym [OF conjunct1 [OF v(2)]]]])
  ultimately show "f = g" using e by (intro content_fields.equality) simp_all
qed

section \<open>delivery-event.ts and receipts.ts\<close>

record delivery_store =
  ds_ids :: "string list"                  \<comment> \<open>\<open>delivery_event_ids\<close>\<close>
  ds_events :: "(string \<times> string) list"  \<comment> \<open>\<open>delivery_events\<close>: job and event type\<close>

definition deliveryEventId :: "(string \<Rightarrow> string) \<Rightarrow> string \<Rightarrow> string \<Rightarrow> string \<Rightarrow> nat \<Rightarrow> string" where
  "deliveryEventId sha256 instanceId publicId eventType attemptNo =
     sha256 (deliveryEventIdInput instanceId publicId eventType attemptNo)"

definition receiptProviderEventId ::
  "(string \<Rightarrow> string) \<Rightarrow> string \<Rightarrow> string \<Rightarrow> string \<Rightarrow> string \<Rightarrow> string \<Rightarrow> (encoding_error, string) result" where
  "receiptProviderEventId sha256 instanceId waMsgId eventType eventTs participantJid =
     bindR (providerEventIdInput instanceId waMsgId eventType eventTs participantJid) (\<lambda>k. Ok (sha256 k))"

definition writeDeliveryEvent :: "string \<Rightarrow> string \<Rightarrow> string \<Rightarrow> delivery_store \<Rightarrow> bool \<times> delivery_store" where
  "writeDeliveryEvent job eventType providerEventId st =
    (let (inserted, ids) = ledger_insert providerEventId (ds_ids st) in
     if \<not> inserted then (False, st)
     else (True, st\<lparr>ds_ids := ids, ds_events := ds_events st @ [(job, eventType)]\<rparr>))"

definition receiptEventTypeFromStatus :: "int option \<Rightarrow> string option" where
  "receiptEventTypeFromStatus status =
    (if status = Some 3 then Some ''delivered''
     else if status = Some 4 \<or> status = Some 5 then Some ''read''
     else if status = Some 0 then Some ''failed'' else None)"

record inbound_receipt =
  rc_waMsgId :: string
  rc_eventType :: string
  rc_eventTs :: string
  rc_participantJid :: string

datatype receipt_outcome = Recorded | Duplicate | Unmatched

definition recordInboundReceipt ::
  "(string \<Rightarrow> string) \<Rightarrow> string \<Rightarrow> (string \<rightharpoonup> string) \<Rightarrow> inbound_receipt \<Rightarrow> delivery_store
     \<Rightarrow> (encoding_error, receipt_outcome \<times> delivery_store) result" where
  "recordInboundReceipt sha256 instanceId waIds r st =
    (case waIds (rc_waMsgId r) of
       None \<Rightarrow> Ok (Unmatched, st)
     | Some job \<Rightarrow>
         bindR (receiptProviderEventId sha256 instanceId (rc_waMsgId r) (rc_eventType r) [] (rc_participantJid r))
           (\<lambda>providerEventId.
              let (inserted, st') = writeDeliveryEvent job (rc_eventType r) providerEventId st
              in Ok (if inserted then Recorded else Duplicate, st')))"

fun recordAll ::
  "(string \<Rightarrow> string) \<Rightarrow> string \<Rightarrow> (string \<rightharpoonup> string) \<Rightarrow> inbound_receipt list \<Rightarrow> delivery_store
     \<Rightarrow> (encoding_error, receipt_outcome list \<times> delivery_store) result" where
  "recordAll h i waIds [] st = Ok ([], st)"
| "recordAll h i waIds (r # rs) st =
     bindR (recordInboundReceipt h i waIds r st) (\<lambda>(o1, st1).
       bindR (recordAll h i waIds rs st1) (\<lambda>(os, st2). Ok (o1 # os, st2)))"

text \<open>The identity of a receipt, the provider's timestamp excluded.\<close>

definition receipt_id :: "inbound_receipt \<Rightarrow> string \<times> string \<times> string" where
  "receipt_id r = (rc_waMsgId r, rc_eventType r, rc_participantJid r)"

definition receipt_ok :: "string \<times> string \<times> string \<Rightarrow> bool" where
  "receipt_ok f \<longleftrightarrow> (case f of (w, e, p) \<Rightarrow> w \<noteq> [] \<and> e \<noteq> [] \<and>
     RECEIPT_ID_SEPARATOR \<notin> set w \<and> RECEIPT_ID_SEPARATOR \<notin> set e \<and> RECEIPT_ID_SEPARATOR \<notin> set p)"

definition receipt_input :: "string \<Rightarrow> string \<times> string \<times> string \<Rightarrow> string" where
  "receipt_input i f = (case f of (w, e, p) \<Rightarrow> ''receipt:'' @ join_with RECEIPT_ID_SEPARATOR [i, w, e, [], p])"

definition receipt_key :: "(string \<Rightarrow> string) \<Rightarrow> string \<Rightarrow> string \<times> string \<times> string \<Rightarrow> string" where
  "receipt_key h i f = h (receipt_input i f)"

lemma receipt_input_inj:
  assumes "receipt_ok f" "receipt_ok g" "receipt_input i f = receipt_input i g" "RECEIPT_ID_SEPARATOR \<notin> set i" "i \<noteq> []"
  shows "f = g"
proof -
  obtain w e p where f: "f = (w, e, p)" by (cases f)
  obtain w' e' p' where g: "g = (w', e', p')" by (cases g)
  have "[i, w, e, [], p] = [i, w', e', [], p']"
  proof (rule providerEventIdInput_inj)
    show "providerEventIdInput i w e [] p = Inr (receipt_input i f)"
      using assms(1,5) by (simp add: providerEventIdInput_def receipt_input_def receipt_ok_def f)
    show "providerEventIdInput i w' e' [] p' = Inr (receipt_input i f)"
      using assms(2,3,5) by (simp add: providerEventIdInput_def receipt_input_def receipt_ok_def f g)
    show "\<forall>x\<in>{i, w, e, [], p, i, w', e', [], p'}. RECEIPT_ID_SEPARATOR \<notin> set x"
      using assms by (simp add: receipt_ok_def f g)
  qed
  then show ?thesis by (simp add: f g)
qed

lemma recordInboundReceipt_matched:
  assumes "waIds (rc_waMsgId r) = Some job" "receipt_ok (receipt_id r)" "i \<noteq> []"
  shows "recordInboundReceipt h i waIds r st =
    (let (ins, ids) = ledger_insert (h (receipt_input i (receipt_id r))) (ds_ids st) in
     Inr (if ins then Recorded else Duplicate,
          if ins then st\<lparr>ds_ids := ids, ds_events := ds_events st @ [(job, rc_eventType r)]\<rparr> else st))"
  using assms
  by (simp add: recordInboundReceipt_def receiptProviderEventId_def providerEventIdInput_def receipt_id_def
      receipt_ok_def receipt_input_def writeDeliveryEvent_def case_prod_beta Let_def)

lemma recordAll_ledger:
  assumes "\<forall>r\<in>set rs. waIds (rc_waMsgId r) \<noteq> None \<and> receipt_ok (receipt_id r)" "i \<noteq> []"
  shows "\<exists>st'. recordAll h i waIds rs st =
      Inr (map (\<lambda>b. if b then Recorded else Duplicate)
             (fst (ledger_run (receipt_key h i) (ds_ids st) (map receipt_id rs))), st') \<and>
    length (ds_events st') = length (ds_events st) +
      length (filter (\<lambda>b. b) (fst (ledger_run (receipt_key h i) (ds_ids st) (map receipt_id rs))))"
  using assms(1)
proof (induction rs arbitrary: st)
  case (Cons r rs)
  obtain job where job: "waIds (rc_waMsgId r) = Some job" using Cons.prems by auto
  have ok: "receipt_ok (receipt_id r)" using Cons.prems by simp
  define k where "k = h (receipt_input i (receipt_id r))"
  define st1 where "st1 = (if k \<in> set (ds_ids st) then st
      else st\<lparr>ds_ids := ds_ids st @ [k], ds_events := ds_events st @ [(job, rc_eventType r)]\<rparr>)"
  have step: "recordInboundReceipt h i waIds r st = Inr (if k \<in> set (ds_ids st) then Duplicate else Recorded, st1)"
    using recordInboundReceipt_matched [of waIds r job i h st] job ok assms(2)
    by (simp add: ledger_insert_def k_def st1_def)
  from Cons.IH [of st1] Cons.prems obtain st' where
    IH: "recordAll h i waIds rs st1 = Inr (map (\<lambda>b. if b then Recorded else Duplicate)
             (fst (ledger_run (receipt_key h i) (ds_ids st1) (map receipt_id rs))), st')"
    "length (ds_events st') = length (ds_events st1) +
      length (filter (\<lambda>b. b) (fst (ledger_run (receipt_key h i) (ds_ids st1) (map receipt_id rs))))"
    by auto
  have ids: "ds_ids st1 = snd (ledger_insert k (ds_ids st))"
    "length (ds_events st1) = length (ds_events st) + (if k \<in> set (ds_ids st) then 0 else 1)"
    by (simp_all add: st1_def ledger_insert_def)
  have k: "k = receipt_key h i (receipt_id r)" by (simp add: k_def receipt_key_def)
  show ?case
    using step IH ids
    by (simp add: case_prod_beta Let_def k [symmetric] ledger_insert_def split: if_splits)
qed simp

section \<open>Splitting and joining\<close>

lemma split_on_free: "c \<notin> set x \<Longrightarrow> split_on c x = [x]"
  by (induction x) auto

lemma split_on_app: "c \<notin> set x \<Longrightarrow> split_on c (x @ c # y) = x # split_on c y"
  by (induction x) auto

lemma split_on_ne [simp]: "split_on c x \<noteq> []"
  by (induction x) (auto split: list.splits)

lemma join_split_on: "join_with c (split_on c x) = x"
proof (induction x)
  case (Cons a x)
  then show ?case by (cases "split_on c x"; cases "tl (split_on c x)") auto
qed simp

lemma split_on_no_sep: "p \<in> set (split_on c x) \<Longrightarrow> c \<notin> set p"
proof (induction x arbitrary: p)
  case (Cons a x)
  then show ?case by (cases "split_on c x") (auto split: if_splits)
qed auto

lemma split_on_join2: "c \<notin> set a \<Longrightarrow> c \<notin> set x \<Longrightarrow> split_on c (join_with c [a, x]) = [a, x]"
  by (simp add: split_on_app split_on_free)

lemma split_on_join4: "c \<notin> set a \<Longrightarrow> c \<notin> set b \<Longrightarrow> c \<notin> set x \<Longrightarrow> c \<notin> set y \<Longrightarrow>
    split_on c (join_with c [a, x, b, y]) = [a, x, b, y]"
  by (simp add: split_on_app split_on_free)

lemma realtimeChannel_Ok: "realtimeChannel c i = Inr n \<longleftrightarrow>
    c \<noteq> [] \<and> CHR '':'' \<notin> set c \<and> (\<forall>x. i = Some x \<longrightarrow> x \<noteq> [] \<and> CHR '':'' \<notin> set x) \<and>
    n = join_with (CHR '':'') ([''client'', c] @ (case i of None \<Rightarrow> [] | Some x \<Rightarrow> [''instance'', x]))"
  by (auto simp: realtimeChannel_def assertSegment_def split: option.splits)

section \<open>Lemmas on JIDs\<close>

lemma before_no_sep: "c \<notin> set (before c s)" "set (before c s) \<subseteq> set s"
  by (auto simp: before_def dest: set_takeWhileD)

lemma before_id: "c \<notin> set s \<Longrightarrow> before c s = s"
  by (auto simp: before_def takeWhile_eq_all_conv)

lemma jidDecode_encode:
  assumes "CHR ''@'' \<notin> set u" "CHR '':'' \<notin> set u" "CHR ''_'' \<notin> set u"
  shows "jidDecode (jidEncode u v) = Some \<lparr>dj_user = u, dj_server = v\<rparr>"
proof -
  have "index_of (CHR ''@'') (u @ CHR ''@'' # v) = Some (length u)" by (rule index_of_append [OF assms(1)])
  then show ?thesis using assms by (simp add: jidDecode_def jidEncode_def Let_def before_id)
qed

lemma jidDecode_clean:
  assumes "jidDecode j = Some d"
  shows "CHR ''@'' \<notin> set (dj_user d) \<and> CHR '':'' \<notin> set (dj_user d) \<and> CHR ''_'' \<notin> set (dj_user d)"
proof -
  obtain i where i: "index_of (CHR ''@'') j = Some i" "dj_user d = before (CHR ''_'') (before (CHR '':'') (take i j))"
    using assms by (auto simp: jidDecode_def Let_def split: option.splits)
  then show ?thesis
    using index_of_SomeD [OF i(1)] before_no_sep(1) [of "CHR ''_''"] before_no_sep(1) [of "CHR '':''"]
      before_no_sep(2) [of "CHR ''_''" "before (CHR '':'') (take i j)"] before_no_sep(2) [of "CHR '':''" "take i j"]
    by auto
qed

lemma normalizeJidUser_decode:
  assumes "jidDecode j = Some d"
  shows "jidDecode (normalizeJidUser j) =
    Some \<lparr>dj_user = dj_user d, dj_server = (if dj_server d = ''c.us'' then ''s.whatsapp.net'' else dj_server d)\<rparr>"
  using jidDecode_clean [OF assms] by (simp add: normalizeJidUser_def assms jidDecode_encode)

lemma normalizeJidUser_idem: "normalizeJidUser (normalizeJidUser j) = normalizeJidUser j"
proof (cases "jidDecode j")
  case None
  then show ?thesis by (simp add: normalizeJidUser_def jidDecode_def)
next
  case (Some d)
  define v where "v = (if dj_server d = ''c.us'' then ''s.whatsapp.net'' else dj_server d)"
  define n where "n = normalizeJidUser j"
  have n: "n = jidEncode (dj_user d) v" by (simp add: n_def normalizeJidUser_def Some v_def)
  have "jidDecode n = Some \<lparr>dj_user = dj_user d, dj_server = v\<rparr>"
    using normalizeJidUser_decode [OF Some] by (simp add: n_def v_def)
  moreover have "v \<noteq> ''c.us''" by (simp add: v_def)
  ultimately have "normalizeJidUser n = n" by (simp add: normalizeJidUser_def n)
  then show ?thesis by (simp add: n_def)
qed

lemma lower_char_idem [simp]: "lower_char (lower_char c) = lower_char c"
  by (cases "CHR ''A'' \<le> c \<and> c \<le> CHR ''Z''") (auto simp: lower_char_def less_eq_char_def)

lemma to_lower_idem [simp]: "to_lower (to_lower s) = to_lower s"
  by (simp add: to_lower_def)

lemma lowerCaseServerOnly_decode:
  "jidDecode (lowerCaseServerOnly j) = map_option (\<lambda>d. d\<lparr>dj_server := to_lower (dj_server d)\<rparr>) (jidDecode j)"
proof (cases "index_of (CHR ''@'') j")
  case None
  then show ?thesis by (simp add: lowerCaseServerOnly_def jidDecode_def del: index_of_None)
next
  case (Some i)
  have "length (take i j) = i" using index_of_SomeD [OF Some] by simp
  moreover have "index_of (CHR ''@'') (take i j @ CHR ''@'' # to_lower (drop (i + 1) j)) = Some (length (take i j))"
    by (rule index_of_append) (use index_of_SomeD [OF Some] in blast)
  ultimately show ?thesis
    using Some by (simp add: lowerCaseServerOnly_def jidDecode_def Let_def del: index_of_append)
qed

lemma normalizeJidUser_empty: "normalizeJidUser j = [] \<longleftrightarrow> jidDecode j = None"
  by (auto simp: normalizeJidUser_def jidEncode_def split: option.splits)

text \<open>The normal form of a decodable JID: the bare user and the folded, lower-cased server.\<close>

definition jid_normal :: "decoded_jid \<Rightarrow> string \<times> string" where
  "jid_normal d = (dj_user d,
     let s = to_lower (dj_server d) in if s = ''c.us'' then ''s.whatsapp.net'' else s)"

lemma normalise_core:
  assumes "jidDecode j = Some d"
  shows "normalizeJidUser (lowerCaseServerOnly j) = jidEncode (fst (jid_normal d)) (snd (jid_normal d)) \<and>
    jidDecode (normalizeJidUser (lowerCaseServerOnly j))
      = Some \<lparr>dj_user = fst (jid_normal d), dj_server = snd (jid_normal d)\<rparr>"
proof -
  have d: "jidDecode (lowerCaseServerOnly j) = Some (d\<lparr>dj_server := to_lower (dj_server d)\<rparr>)"
    by (simp add: lowerCaseServerOnly_decode assms)
  show ?thesis
    using normalizeJidUser_decode [OF d] by (simp add: normalizeJidUser_def [of "lowerCaseServerOnly j"] d jid_normal_def Let_def)
qed

lemma normaliseJidWith_eq:
  "normaliseJidWith f j = (case jidDecode j of
     None \<Rightarrow> \<lparr>jr_jid = [], jr_mode = Mode_pn, jr_unattributable = True, jr_e164 = None, jr_lidJid = None\<rparr>
   | Some d \<Rightarrow> let (u, s) = jid_normal d; n = jidEncode u s in
       if s = ''lid'' then (case f n of Some r \<Rightarrow> r\<lparr>jr_mode := Mode_lid, jr_lidJid := Some n\<rparr>
          | None \<Rightarrow> \<lparr>jr_jid = n, jr_mode = Mode_lid, jr_unattributable = True, jr_e164 = None, jr_lidJid = Some n\<rparr>)
       else if s = ''s.whatsapp.net'' \<and> all_digits u
       then \<lparr>jr_jid = n, jr_mode = Mode_pn, jr_unattributable = False, jr_e164 = Some (''+'' @ u), jr_lidJid = None\<rparr>
       else \<lparr>jr_jid = n, jr_mode = Mode_pn, jr_unattributable = True, jr_e164 = None, jr_lidJid = None\<rparr>)"
proof (cases "jidDecode j")
  case None
  then have "normalizeJidUser (lowerCaseServerOnly j) = []"
    by (simp add: normalizeJidUser_empty lowerCaseServerOnly_decode)
  then show ?thesis using None by (simp add: normaliseJidWith_def)
next
  case (Some d)
  have ne: "jidEncode u s \<noteq> []" for u s by (simp add: jidEncode_def)
  show ?thesis
    unfolding normaliseJidWith_def Let_def conjunct1 [OF normalise_core [OF Some]]
      conjunct2 [OF normalise_core [OF Some], unfolded conjunct1 [OF normalise_core [OF Some]]]
    using ne by (simp add: Some case_prod_beta)
qed

lemma to_lower_fold: "s \<noteq> ''c.us'' \<Longrightarrow> to_lower t = s \<Longrightarrow> to_lower s = s"
  by auto

lemma to_lower_whatsapp: "to_lower ''s.whatsapp.net'' = ''s.whatsapp.net''"
  by code_simp

lemma jid_normal_lower: "to_lower (snd (jid_normal d)) = snd (jid_normal d) \<and> snd (jid_normal d) \<noteq> ''c.us''"
  by (simp add: jid_normal_def Let_def to_lower_whatsapp)

lemma jid_normal_again:
  assumes "jidDecode j = Some d"
  shows "\<exists>d'. jidDecode (jidEncode (fst (jid_normal d)) (snd (jid_normal d))) = Some d' \<and> jid_normal d' = jid_normal d"
proof -
  have "jidDecode (jidEncode (fst (jid_normal d)) (snd (jid_normal d)))
      = Some \<lparr>dj_user = fst (jid_normal d), dj_server = snd (jid_normal d)\<rparr>"
    using conjunct1 [OF normalise_core [OF assms]] conjunct2 [OF normalise_core [OF assms]] by metis
  moreover have "jid_normal \<lparr>dj_user = fst (jid_normal d), dj_server = snd (jid_normal d)\<rparr> = jid_normal d"
    unfolding jid_normal_def [of "\<lparr>dj_user = _, dj_server = _\<rparr>"] Let_def decoded_jid.simps
    using jid_normal_lower [of d] by (simp add: prod_eq_iff)
  ultimately show ?thesis by blast
qed

text \<open>What every result of \<open>normaliseJid\<close> has: its \<open>jid\<close> is empty or a normal form, and it is attributed
  exactly when it carries the number that form spells.\<close>

definition jid_result_ok :: "jid_result \<Rightarrow> bool" where
  "jid_result_ok r \<longleftrightarrow> (jr_jid r = [] \<or> (\<exists>j d. jidDecode j = Some d \<and> jr_jid r = jidEncode (fst (jid_normal d)) (snd (jid_normal d)))) \<and>
    (jr_unattributable r \<longleftrightarrow> jr_e164 r = None) \<and>
    (\<forall>e. jr_e164 r = Some e \<longrightarrow> (\<exists>u. all_digits u \<and> e = ''+'' @ u \<and> jr_jid r = jidEncode u ''s.whatsapp.net''))"

lemma normaliseJidWith_ok:
  assumes "\<And>n r. f n = Some r \<Longrightarrow> jid_result_ok r"
  shows "jid_result_ok (normaliseJidWith f j)"
proof (cases "jidDecode j")
  case None
  then show ?thesis by (simp add: normaliseJidWith_eq jid_result_ok_def)
next
  case (Some d)
  obtain u s where us: "jid_normal d = (u, s)" by (cases "jid_normal d")
  have ex: "\<exists>j d. jidDecode j = Some d \<and> jidEncode u s = jidEncode (fst (jid_normal d)) (snd (jid_normal d))"
    by (rule exI [of _ j], rule exI [of _ d]) (simp add: Some us)
  consider (mapped) r where "s = ''lid''" "f (jidEncode u s) = Some r" | (lid) "s = ''lid''" "f (jidEncode u s) = None"
    | (pn) "s \<noteq> ''lid''" by fastforce
  then show ?thesis
  proof cases
    case mapped
    then show ?thesis using assms [OF mapped(2)] by (simp add: normaliseJidWith_eq Some us jid_result_ok_def Let_def)
  next
    case lid
    then show ?thesis using ex by (simp add: normaliseJidWith_eq Some us jid_result_ok_def Let_def)
  next
    case pn
    then show ?thesis using ex by (auto simp: normaliseJidWith_eq Some us jid_result_ok_def Let_def)
  qed
qed

lemma normaliseJid_ok: "jid_result_ok (normaliseJid f j)"
  unfolding normaliseJid_def by (rule normaliseJidWith_ok) (auto intro: normaliseJidWith_ok)

lemma normaliseJidWith_jid: "jidDecode j = Some d \<Longrightarrow> jr_jid (normaliseJidWith (\<lambda>_. None) j) = jidEncode (fst (jid_normal d)) (snd (jid_normal d))"
  by (simp add: normaliseJidWith_eq case_prod_beta Let_def)

lemma normaliseJid_again:
  assumes "jid_result_ok r"
  shows "jr_jid (normaliseJid (\<lambda>_. None) (jr_jid r)) = jr_jid r"
proof -
  have none: "normaliseJid (\<lambda>_. None) = normaliseJidWith (\<lambda>_. None)" by (simp add: normaliseJid_def fun_eq_iff)
  consider "jr_jid r = []" | j d where "jidDecode j = Some d" "jr_jid r = jidEncode (fst (jid_normal d)) (snd (jid_normal d))"
    using assms by (auto simp: jid_result_ok_def)
  then show ?thesis
  proof cases
    case 1
    then show ?thesis by (simp add: none normaliseJidWith_eq jidDecode_def)
  next
    case 2
    then show ?thesis using jid_normal_again [OF 2(1)] normaliseJidWith_jid by (fastforce simp: none)
  qed
qed

lemma normaliseJid_lid:
  assumes "jr_mode (normaliseJid lid j) = Mode_lid" "jr_e164 (normaliseJid lid j) = Some e"
  shows "\<exists>l. jr_lidJid (normaliseJid lid j) = Some l \<and> lid l \<noteq> None"
  using assms by (auto simp: normaliseJid_def normaliseJidWith_eq Let_def split: option.splits if_splits prod.splits)

section \<open>Properties\<close>

text \<open>The content-hash input is exactly as fine as the wire projection: two inputs are equal if and
  only if the normalised recipient, the kind and the NFC text are equal, for any normalisation function
  and any text, whatever separators it contains.\<close>

theorem content_hash_input_injective:
  "contentHashInput nfc f = contentHashInput nfc g \<longleftrightarrow>
    normalizeWaJidForHash (cf_jid f) = normalizeWaJidForHash (cf_jid g) \<and> cf_kind f = cf_kind g \<and>
    nfc (case cf_text f of None \<Rightarrow> [] | Some t \<Rightarrow> t) = nfc (case cf_text g of None \<Rightarrow> [] | Some t \<Rightarrow> t)"
  using contentHashInput_eq [of nfc f g] by (auto simp: contentHashInput_def Let_def)

text \<open>Receipts are counted once: for matched receipts with well-formed ids, over any hash that is
  collision free on the ids at hand, a receipt is recorded exactly when no earlier one has the same
  message id, event type and participant, whatever the provider timestamps; the events written are as
  many as there are distinct receipts; and a receipt of an unknown message changes nothing.\<close>

theorem receipts_recorded_once:
  assumes "\<forall>r\<in>set rs. waIds (rc_waMsgId r) \<noteq> None \<and> receipt_ok (receipt_id r)"
    and "inst \<noteq> []" "RECEIPT_ID_SEPARATOR \<notin> set inst"
    and "inj_on sha256 (receipt_input inst ` set (map receipt_id rs))"
  shows "(\<exists>os st'. recordAll sha256 inst waIds rs \<lparr>ds_ids = [], ds_events = []\<rparr> = Inr (os, st') \<and>
      length os = length rs \<and>
      (\<forall>n<length rs. os ! n = (if receipt_id (rs ! n) \<in> receipt_id ` set (take n rs) then Duplicate else Recorded)) \<and>
      length (ds_events st') = card (receipt_id ` set rs)) \<and>
    (waIds (rc_waMsgId r) = None \<longrightarrow> recordInboundReceipt sha256 inst waIds r st = Inr (Unmatched, st))"
proof -
  define valid where "valid = (\<lambda>f. f \<in> receipt_id ` set rs)"
  have L: "idempotency_key (receipt_key sha256 inst) valid"
  proof
    fix f g assume v: "valid f" "valid g" "receipt_key sha256 inst f = receipt_key sha256 inst g"
    have "receipt_input inst f = receipt_input inst g"
      using assms(4) v by (auto simp: inj_on_def valid_def receipt_key_def)
    moreover have "receipt_ok f" "receipt_ok g" using v assms(1) by (auto simp: valid_def)
    ultimately show "f = g" using receipt_input_inj assms(2,3) by blast
  qed
  have valid: "\<forall>f\<in>set (map receipt_id rs). valid f" by (simp add: valid_def)
  let ?bs = "fst (ledger_run (receipt_key sha256 inst) [] (map receipt_id rs))"
  obtain st' where st': "recordAll sha256 inst waIds rs \<lparr>ds_ids = [], ds_events = []\<rparr>
      = Inr (map (\<lambda>b. if b then Recorded else Duplicate) ?bs, st')"
    "length (ds_events st') = length (filter (\<lambda>b. b) ?bs)"
    using recordAll_ledger [of rs waIds inst sha256 "\<lparr>ds_ids = [], ds_events = []\<rparr>"] assms(1,2) by auto
  have out: "?bs ! n \<longleftrightarrow> receipt_id (rs ! n) \<notin> receipt_id ` set (take n rs)" if "n < length rs" for n
    using idempotency_key.run_outcomes [OF L, of "[]" "map receipt_id rs"] valid that
    by (auto simp: take_map)
  have len: "length ?bs = length rs" using idempotency_key.run_length [OF L] by simp
  have card: "length (filter (\<lambda>b. b) ?bs) = card (receipt_id ` set rs)"
    using idempotency_key.run_inserts_each_once [OF L valid] by simp
  show ?thesis
    using st' out len card by (auto simp: recordInboundReceipt_def)
qed

lemma receipts_recorded_once_witness:
  "recordInboundReceipt id ''i'' [''m'' \<mapsto> ''j''] \<lparr>rc_waMsgId = ''x'', rc_eventType = ''read'', rc_eventTs = [], rc_participantJid = []\<rparr>
     \<lparr>ds_ids = [], ds_events = []\<rparr> = Inr (Unmatched, \<lparr>ds_ids = [], ds_events = []\<rparr>) \<and>
   (\<exists>os st'. recordAll id ''i'' [''m'' \<mapsto> ''j'']
     [\<lparr>rc_waMsgId = ''m'', rc_eventType = ''read'', rc_eventTs = ''1'', rc_participantJid = []\<rparr>,
      \<lparr>rc_waMsgId = ''m'', rc_eventType = ''read'', rc_eventTs = ''2'', rc_participantJid = []\<rparr>]
     \<lparr>ds_ids = [], ds_events = []\<rparr> = Inr (os, st') \<and> length os = 2)"
proof -
  have sep: "RECEIPT_ID_SEPARATOR \<notin> set ''i''" "RECEIPT_ID_SEPARATOR \<notin> set ''m''" "RECEIPT_ID_SEPARATOR \<notin> set ''read''"
    by code_simp+
  have "inj_on (id :: string \<Rightarrow> string) A" for A by simp
  then show ?thesis
    using receipts_recorded_once [of "[\<lparr>rc_waMsgId = ''m'', rc_eventType = ''read'', rc_eventTs = ''1'', rc_participantJid = []\<rparr>,
        \<lparr>rc_waMsgId = ''m'', rc_eventType = ''read'', rc_eventTs = ''2'', rc_participantJid = []\<rparr>]" "[''m'' \<mapsto> ''j'']" "''i''" id
        "\<lparr>rc_waMsgId = ''x'', rc_eventType = ''read'', rc_eventTs = [], rc_participantJid = []\<rparr>" "\<lparr>ds_ids = [], ds_events = []\<rparr>"] sep
    by (auto simp: receipt_id_def receipt_ok_def)
qed

text \<open>The notification dedupe key is not injective on its own: it joins its segments without a
  separator, so a bucket, a transition id and an instance id can trade characters, and the key of an
  instance-less notification equals that of an instance one. With instance ids of one length and no
  bucket it does distinguish the instance and the transition.\<close>

theorem dedupe_key_needs_fixed_width:
  "notificationDedupeKeyInput kind (Some a) (b @ c) None = notificationDedupeKeyInput kind (Some (a @ b)) c None \<and>
   notificationDedupeKeyInput kind (Some a) b None = notificationDedupeKeyInput kind None (a @ b) None \<and>
   notificationDedupeKeyInput kind i (b @ c) None = notificationDedupeKeyInput kind i b (Some c) \<and>
   (length a = length a' \<longrightarrow>
      (notificationDedupeKeyInput kind (Some a) t None = notificationDedupeKeyInput kind (Some a') t' None
        \<longleftrightarrow> a = a' \<and> t = t'))"
  by (simp add: notificationDedupeKeyInput_def)

lemma dedupe_key_needs_fixed_width_witness:
  "notificationDedupeKeyInput ''k'' (Some ''i1'') ''7'' None \<noteq> notificationDedupeKeyInput ''k'' (Some ''i2'') ''7'' None"
  using dedupe_key_needs_fixed_width [of "''k''" "''i1''" "[]" "[]" None "''i2''" "''7''" "''7''"] by simp

text \<open>C40. Channel names round-trip: building succeeds exactly for non-empty, colon-free segments, a name
  parses to given parts if and only if it is what building those parts returns, and so no two clients or
  instances share a channel.\<close>

theorem channel_roundtrip:
  "parseRealtimeChannel n = Inr (c, i) \<longleftrightarrow> realtimeChannel c i = Inr n"
proof
  have free: "CHR '':'' \<notin> set ''client''" "CHR '':'' \<notin> set ''instance''" by code_simp+
  assume b: "realtimeChannel c i = Inr n"
  show "parseRealtimeChannel n = Inr (c, i)"
    using b unfolding realtimeChannel_Ok parseRealtimeChannel_def
    by (cases i) (auto simp only: split_on_join2 [OF free(1)] split_on_join4 [OF free] append.simps option.case list.case
      option.inject simp_thms if_True)
next
  assume p: "parseRealtimeChannel n = Inr (c, i)"
  have "n = join_with (CHR '':'') (split_on (CHR '':'') n)" by (simp add: join_split_on)
  moreover have "split_on (CHR '':'') n = [''client'', c] @ (case i of None \<Rightarrow> [] | Some x \<Rightarrow> [''instance'', x])"
    "c \<noteq> []" "\<forall>x. i = Some x \<longrightarrow> x \<noteq> []"
    using p by (auto simp: parseRealtimeChannel_def split: list.splits if_splits)
  ultimately show "realtimeChannel c i = Inr n"
    unfolding realtimeChannel_Ok using split_on_no_sep [of _ "CHR '':''" n] by (auto split: option.splits)
qed

text \<open>JID normalisation is idempotent and never guesses: normalising the JID of any result gives that
  JID again; a result is unattributable exactly when it carries no number; the number is the digits of
  its own \<open>@s.whatsapp.net\<close> user; and a LID is attributed only through a mapping the caller supplied.\<close>

theorem normaliseJid_idempotent:
  "jr_jid (normaliseJid (\<lambda>_. None) (jr_jid (normaliseJid lid j))) = jr_jid (normaliseJid lid j) \<and>
   (jr_unattributable (normaliseJid lid j) \<longleftrightarrow> jr_e164 (normaliseJid lid j) = None) \<and>
   (jr_e164 (normaliseJid lid j) = Some e \<longrightarrow>
      (\<exists>u. all_digits u \<and> e = ''+'' @ u \<and> jr_jid (normaliseJid lid j) = u @ ''@'' @ ''s.whatsapp.net'') \<and>
      (jr_mode (normaliseJid lid j) = Mode_lid \<longrightarrow>
        (\<exists>l. jr_lidJid (normaliseJid lid j) = Some l \<and> lid l \<noteq> None)))"
  using normaliseJid_ok [of lid j] normaliseJid_again [OF normaliseJid_ok] normaliseJid_lid [of lid j e]
  unfolding jid_result_ok_def jidEncode_def by blast

lemma normaliseJid_idempotent_witness:
  "(\<exists>u. all_digits u \<and> ''+49'' = ''+'' @ u \<and>
      jr_jid (normaliseJid [''7@lid'' \<mapsto> ''49:3@c.us''] ''7@LID'') = u @ ''@'' @ ''s.whatsapp.net'') \<and>
   (\<exists>l. jr_lidJid (normaliseJid [''7@lid'' \<mapsto> ''49:3@c.us''] ''7@LID'') = Some l)"
proof -
  have "jr_e164 (normaliseJid [''7@lid'' \<mapsto> ''49:3@c.us''] ''7@LID'') = Some ''+49''"
    "jr_mode (normaliseJid [''7@lid'' \<mapsto> ''49:3@c.us''] ''7@LID'') = Mode_lid" by code_simp+
  then show ?thesis
    using normaliseJid_idempotent [of "[''7@lid'' \<mapsto> ''49:3@c.us'']" "''7@LID''" "''+49''"] by blast
qed

end
