(* ===== verification/Wallet.thy ===== *)
theory Wallet
  imports Prelude Fsm
begin

text \<open>
  The prepaid wallet: \<open>wallet/state.ts\<close>, \<open>pricing.ts\<close>, and under \<open>modules/wallet/\<close> \<open>charge.ts\<close>,
  \<open>refund.ts\<close>, \<open>credit.repo.ts\<close>, \<open>credit.service.ts\<close>, \<open>pricing.ts\<close> and check B of \<open>reconcile.ts\<close>,
  with the statements of \<open>debit-send.sql\<close>, \<open>refund-send.sql\<close>, \<open>wallet-credit.sql\<close> and
  \<open>wallet-reconcile.sql\<close>. Money is an integer number of paise. One transaction is one function on the
  database state; a transaction that throws returns an error and leaves the state as it was.
\<close>

section \<open>Insert-if-absent tables\<close>

text \<open>The contract of \<open>INSERT ... ON CONFLICT DO NOTHING RETURNING\<close>, on which every money movement is gated.\<close>

locale insert_once =
  fixes has :: "'t \<Rightarrow> 'k \<Rightarrow> bool"
    and ins :: "'k \<Rightarrow> 'v \<Rightarrow> 't \<Rightarrow> 't option"
  assumes conflict: "ins k v t = None \<longleftrightarrow> has t k"
    and inserted: "ins k v t = Some t' \<Longrightarrow> has t' k' \<longleftrightarrow> k' = k \<or> has t k'"
begin

lemma replay: "ins k v t = Some t' \<Longrightarrow> ins k w t' = None"
  using inserted [of k v t t' k] by (simp add: conflict)

lemma other_key: "ins k v t = Some t' \<Longrightarrow> k' \<noteq> k \<Longrightarrow> (\<exists>t''. ins k' w t' = Some t'') \<longleftrightarrow> (\<exists>t''. ins k' w t = Some t'')"
  using inserted [of k v t t' k'] conflict [of k' w] by (metis not_Some_eq)

end

section \<open>wallet/state.ts and pricing.ts\<close>

datatype wallet_state = W_active | W_low | W_empty | W_frozen

definition nextWalletState :: "int \<Rightarrow> int \<Rightarrow> int \<Rightarrow> wallet_state \<Rightarrow> wallet_state" where
  "nextWalletState balanceMinor maxRateMinor lowThresholdMinor currentState =
    (if currentState = W_frozen then W_frozen
     else if balanceMinor < maxRateMinor then W_empty
     else if balanceMinor < lowThresholdMinor then W_low
     else W_active)"

datatype price_key = PK_text | PK_media | PK_group_text | PK_group_media

definition PRICE_KEYS :: "price_key list" where
  "PRICE_KEYS = [PK_text, PK_media, PK_group_text, PK_group_media]"

definition resolvePriceKey :: "string \<Rightarrow> string \<Rightarrow> price_key" where
  "resolvePriceKey payloadKind recipientJid =
    (let isGroup = ends_with recipientJid ''@g.us''; isMedia = (payloadKind = ''media'') in
     if isGroup then (if isMedia then PK_group_media else PK_group_text)
     else (if isMedia then PK_media else PK_text))"

section \<open>Tables\<close>

record wallet_account =
  ac_balance :: int
  ac_debit :: int       \<comment> \<open>\<open>lifetime_debit_minor\<close>\<close>
  ac_credit :: int      \<comment> \<open>\<open>lifetime_credit_minor\<close>\<close>
  ac_seq :: nat         \<comment> \<open>\<open>entry_seq\<close>\<close>
  ac_maxRate :: int
  ac_low :: int         \<comment> \<open>\<open>low_balance_threshold_minor\<close>\<close>
  ac_state :: wallet_state

datatype wallet_kind =
    K_signup_credit | K_topup_manual | K_topup_gateway | K_promo_credit | K_debit_send | K_refund_send
  | K_adjustment_credit | K_adjustment_debit

record ledger_row =
  lr_client :: string
  lr_seq :: nat
  lr_kind :: wallet_kind
  lr_amount :: int
  lr_after :: int                    \<comment> \<open>\<open>balance_after_minor\<close>\<close>
  lr_rate :: "int option"
  lr_price :: "price_key option"
  lr_job :: "string option"
  lr_jobCreated :: "int option"
  lr_attempt :: "string option"
  lr_day :: nat                      \<comment> \<open>the UTC day of \<open>created_at\<close>\<close>

text \<open>A guard row: its key \<open>(send_attempt_id, kind, created_at)\<close>, its client and its \<open>ledger_seq\<close>.\<close>

type_synonym guard_key = "string \<times> wallet_kind \<times> int"
type_synonym guard_table = "(guard_key \<times> string \<times> nat) list"

record wallet_job =
  wj_client :: string
  wj_created :: int
  wj_status :: job_status
  wj_lease :: "string option"
  wj_payloadKind :: string
  wj_recipient :: string

datatype attempt_state =
    A_prepared | A_dispatched | A_acked | A_failed | A_reconciled_sent | A_reconciled_lost | A_abandoned

record wallet_attempt =
  wt_client :: string
  wt_job :: string
  wt_jobCreated :: int
  wt_state :: attempt_state

record wallet_db =
  wd_accounts :: "string \<rightharpoonup> wallet_account"
  wd_ledger :: "ledger_row list"
  wd_guards :: guard_table
  wd_refs :: "string \<times> string \<rightharpoonup> nat"       \<comment> \<open>\<open>wallet_ledger_ext_refs\<close>\<close>
  wd_jobs :: "string \<rightharpoonup> wallet_job"
  wd_attempts :: "string \<rightharpoonup> wallet_attempt"
  wd_rates :: "string \<Rightarrow> price_key \<Rightarrow> int option"  \<comment> \<open>\<open>readEffectiveRates\<close>\<close>
  wd_day :: nat                                \<comment> \<open>the UTC day of \<open>now()\<close>\<close>
  wd_findings :: "(string \<times> string \<times> string) list"

section \<open>Guards and the state CASE\<close>

definition guard_has :: "guard_table \<Rightarrow> guard_key \<Rightarrow> bool" where
  "guard_has gs k \<longleftrightarrow> k \<in> fst ` set gs"

definition guard_insert :: "guard_key \<Rightarrow> string \<Rightarrow> guard_table \<Rightarrow> guard_table option" where
  "guard_insert k client gs = (if k \<in> fst ` set gs then None else Some (gs @ [(k, client, 0)]))"

definition ref_insert :: "string \<times> string \<Rightarrow> nat \<Rightarrow> (string \<times> string \<rightharpoonup> nat) \<Rightarrow> (string \<times> string \<rightharpoonup> nat) option" where
  "ref_insert k seq refs = (if refs k = None then Some (refs(k \<mapsto> seq)) else None)"

interpretation charge_guard: insert_once guard_has guard_insert
  by unfold_locales (auto simp: guard_has_def guard_insert_def split: if_splits)

interpretation ext_ref: insert_once "\<lambda>refs k. refs k \<noteq> None" ref_insert
  by unfold_locales (auto simp: ref_insert_def split: if_splits)

definition wallet_stamp_guard :: "nat \<Rightarrow> string \<Rightarrow> wallet_kind \<Rightarrow> string \<Rightarrow> guard_table \<Rightarrow> guard_table" where
  "wallet_stamp_guard seq attempt kind client gs =
    map (\<lambda>((a, k, c), cl, s). if a = attempt \<and> k = kind \<and> cl = client \<and> s = 0 then ((a, k, c), cl, seq)
                              else ((a, k, c), cl, s)) gs"

text \<open>The \<open>CASE\<close> the four money statements repeat, as SQL evaluates it.\<close>

definition sql_state_case :: "wallet_account \<Rightarrow> int \<Rightarrow> wallet_state" where
  "sql_state_case w balance =
    (if ac_state w = W_frozen then W_frozen
     else if balance < ac_maxRate w then W_empty
     else if balance < ac_low w then W_low else W_active)"

section \<open>debit-send.sql and charge.ts\<close>

definition account_debit :: "int \<Rightarrow> wallet_account \<Rightarrow> wallet_account" where
  "account_debit rate w =
    w\<lparr>ac_balance := ac_balance w - rate, ac_debit := ac_debit w + rate, ac_seq := ac_seq w + 1,
      ac_state := sql_state_case w (ac_balance w - rate)\<rparr>"

record charge_result =
  cr_jobRows :: nat
  cr_guardRows :: nat
  cr_seq :: "nat option"

text \<open>
  The chain guard, account, ledger row from the charged job to the result row; every debit statement
  repeats it with its own kind and its own source of the job.
\<close>

definition charge_chain ::
  "wallet_kind \<Rightarrow> string \<Rightarrow> int \<Rightarrow> price_key \<Rightarrow> (string \<times> wallet_job) option \<Rightarrow> wallet_db \<Rightarrow> charge_result \<times> wallet_db" where
  "charge_chain kind attempt rate price source db =
    (case source of
       None \<Rightarrow> (\<lparr>cr_jobRows = 0, cr_guardRows = 0, cr_seq = None\<rparr>, db)
     | Some (jid, u) \<Rightarrow>
         (case guard_insert (attempt, kind, wj_created u) (wj_client u) (wd_guards db) of
            None \<Rightarrow> (\<lparr>cr_jobRows = 1, cr_guardRows = 0, cr_seq = None\<rparr>, db)
          | Some gs \<Rightarrow>
              (case wd_accounts db (wj_client u) of
                 None \<Rightarrow> (\<lparr>cr_jobRows = 1, cr_guardRows = 1, cr_seq = None\<rparr>, db\<lparr>wd_guards := gs\<rparr>)
               | Some w \<Rightarrow>
                   let w' = account_debit rate w;
                       row = \<lparr>lr_client = wj_client u, lr_seq = ac_seq w', lr_kind = kind, lr_amount = - rate,
                              lr_after = ac_balance w', lr_rate = Some rate, lr_price = Some price,
                              lr_job = Some jid, lr_jobCreated = Some (wj_created u), lr_attempt = Some attempt,
                              lr_day = wd_day db\<rparr>
                   in (\<lparr>cr_jobRows = 1, cr_guardRows = 1, cr_seq = Some (ac_seq w')\<rparr>,
                       db\<lparr>wd_guards := gs, wd_accounts := (wd_accounts db)(wj_client u \<mapsto> w'),
                          wd_ledger := wd_ledger db @ [row]\<rparr>))))"

definition debit_send ::
  "string \<Rightarrow> string \<Rightarrow> string \<Rightarrow> string \<Rightarrow> int \<Rightarrow> price_key \<Rightarrow> wallet_db \<Rightarrow> charge_result \<times> wallet_db" where
  "debit_send attempt jid lease client rate price db =
    (case wd_jobs db jid of
       Some j \<Rightarrow>
         if wj_lease j = Some lease \<and> wj_status j = Job_processing \<and> wj_client j = client
         then charge_chain K_debit_send attempt rate price (Some (jid, j))
                (db\<lparr>wd_jobs := (wd_jobs db)(jid \<mapsto> j\<lparr>wj_status := Job_sent\<rparr>)\<rparr>)
         else charge_chain K_debit_send attempt rate price None db
     | None \<Rightarrow> charge_chain K_debit_send attempt rate price None db)"

text \<open>The attempt joined with its job, as the repair statements select it.\<close>

definition attempt_job :: "string \<Rightarrow> string \<Rightarrow> wallet_db \<Rightarrow> (wallet_attempt \<times> string \<times> wallet_job) option" where
  "attempt_job attempt client db =
    (case wd_attempts db attempt of
       None \<Rightarrow> None
     | Some a \<Rightarrow> if wt_client a \<noteq> client then None
         else (case wd_jobs db (wt_job a) of
                 None \<Rightarrow> None
               | Some j \<Rightarrow> if wj_created j = wt_jobCreated a then Some (a, wt_job a, j) else None))"

definition attempt_settled :: "wallet_attempt \<Rightarrow> bool" where
  "attempt_settled a \<longleftrightarrow> wt_state a = A_acked \<or> wt_state a = A_reconciled_sent"

definition debit_repaired_send :: "string \<Rightarrow> string \<Rightarrow> int \<Rightarrow> price_key \<Rightarrow> wallet_db \<Rightarrow> charge_result \<times> wallet_db" where
  "debit_repaired_send attempt client rate price db =
    charge_chain K_debit_send attempt rate price
      (case attempt_job attempt client db of
         Some (a, jid, j) \<Rightarrow> if wj_client j = client \<and> attempt_settled a \<and> wj_status j = Job_sent
                             then Some (jid, j) else None
       | None \<Rightarrow> None) db"

definition stamp_result :: "string \<Rightarrow> wallet_kind \<Rightarrow> string \<Rightarrow> charge_result \<times> wallet_db \<Rightarrow> charge_result \<times> wallet_db" where
  "stamp_result attempt kind client r =
    (case cr_seq (fst r) of
       None \<Rightarrow> r
     | Some seq \<Rightarrow> (fst r, (snd r)\<lparr>wd_guards := wallet_stamp_guard seq attempt kind client (wd_guards (snd r))\<rparr>))"

definition chargeSend ::
  "string \<Rightarrow> string \<Rightarrow> string \<Rightarrow> string \<Rightarrow> price_key \<Rightarrow> int \<Rightarrow> wallet_db \<Rightarrow> charge_result \<times> wallet_db" where
  "chargeSend attempt jid lease client price rate db =
    stamp_result attempt K_debit_send client (debit_send attempt jid lease client rate price db)"

datatype wallet_error =
    Unpriced_key price_key string | Invalid_credit_kind wallet_kind | No_wallet_account string
  | Replay_without_ref string string

definition isValidRate :: "int option \<Rightarrow> bool" where
  "isValidRate r = (case r of None \<Rightarrow> False | Some n \<Rightarrow> \<bar>n\<bar> \<le> 2 ^ 53 - 1 \<and> 0 < n)"

definition resolveRateMinor :: "wallet_db \<Rightarrow> string \<Rightarrow> price_key \<Rightarrow> (wallet_error, int) result" where
  "resolveRateMinor db client price =
    (case wd_rates db client price of
       Some n \<Rightarrow> if isValidRate (Some n) then Ok n else Err (Unpriced_key price client)
     | None \<Rightarrow> Err (Unpriced_key price client))"

definition resolveAttemptPrice ::
  "wallet_db \<Rightarrow> string \<Rightarrow> string \<Rightarrow> (wallet_error, (price_key \<times> int) option) result" where
  "resolveAttemptPrice db client attempt =
    (case attempt_job attempt client db of
       None \<Rightarrow> Ok None
     | Some (a, jid, j) \<Rightarrow>
         let price = resolvePriceKey (wj_payloadKind j) (wj_recipient j)
         in bindR (resolveRateMinor db client price) (\<lambda>rate. Ok (Some (price, rate))))"

definition chargeRepairedSend :: "string \<Rightarrow> string \<Rightarrow> wallet_db \<Rightarrow> (wallet_error, charge_result \<times> wallet_db) result" where
  "chargeRepairedSend client attempt db =
    bindR (resolveAttemptPrice db client attempt) (\<lambda>resolved.
      case resolved of
        None \<Rightarrow> Ok (\<lparr>cr_jobRows = 0, cr_guardRows = 0, cr_seq = None\<rparr>, db)
      | Some (price, rate) \<Rightarrow>
          Ok (stamp_result attempt K_debit_send client (debit_repaired_send attempt client rate price db)))"

section \<open>refund-send.sql and refund.ts\<close>

record refund_result =
  rr_debitRows :: nat
  rr_guardRows :: nat
  rr_seq :: "nat option"

text \<open>The stamped \<open>debit_send\<close> guards of the attempt, each with its ledger row.\<close>

definition refund_debits :: "string \<Rightarrow> string \<Rightarrow> wallet_db \<Rightarrow> (int \<times> ledger_row) list" where
  "refund_debits attempt client db =
    concat (map (\<lambda>((a, k, c), cl, s).
      if a = attempt \<and> k = K_debit_send \<and> cl = client \<and> 0 < s
      then map (\<lambda>l. (c, l)) (filter (\<lambda>l. lr_client l = cl \<and> lr_seq l = s) (wd_ledger db)) else [])
      (wd_guards db))"

definition account_refund :: "int \<Rightarrow> wallet_account \<Rightarrow> wallet_account" where
  "account_refund rate w =
    w\<lparr>ac_balance := ac_balance w + rate, ac_debit := ac_debit w - rate, ac_seq := ac_seq w + 1,
      ac_state := sql_state_case w (ac_balance w + rate)\<rparr>"

text \<open>There is at most one such guard in every reachable state (\<open>wallet_inv\<close>), so the first is the one.\<close>

definition refund_send :: "string \<Rightarrow> string \<Rightarrow> wallet_db \<Rightarrow> refund_result \<times> wallet_db" where
  "refund_send attempt client db =
    (case refund_debits attempt client db of
       [] \<Rightarrow> (\<lparr>rr_debitRows = 0, rr_guardRows = 0, rr_seq = None\<rparr>, db)
     | (c, d) # ds \<Rightarrow>
         let n = length ((c, d) # ds); rate = (case lr_rate d of None \<Rightarrow> 0 | Some r \<Rightarrow> r) in
         (case guard_insert (attempt, K_refund_send, c) client (wd_guards db) of
            None \<Rightarrow> (\<lparr>rr_debitRows = n, rr_guardRows = 0, rr_seq = None\<rparr>, db)
          | Some gs \<Rightarrow>
              (case wd_accounts db client of
                 None \<Rightarrow> (\<lparr>rr_debitRows = n, rr_guardRows = 1, rr_seq = None\<rparr>, db\<lparr>wd_guards := gs\<rparr>)
               | Some w \<Rightarrow>
                   let w' = account_refund rate w;
                       row = d\<lparr>lr_seq := ac_seq w', lr_kind := K_refund_send, lr_amount := rate,
                               lr_after := ac_balance w', lr_attempt := Some attempt, lr_day := wd_day db\<rparr>
                   in (\<lparr>rr_debitRows = n, rr_guardRows = 1, rr_seq = Some (ac_seq w')\<rparr>,
                       db\<lparr>wd_guards := gs, wd_accounts := (wd_accounts db)(client \<mapsto> w'),
                          wd_ledger := wd_ledger db @ [row]\<rparr>))))"

definition refundSend :: "string \<Rightarrow> string \<Rightarrow> wallet_db \<Rightarrow> refund_result \<times> wallet_db" where
  "refundSend client attempt db =
    (let (r, db1) = refund_send attempt client db in
     case rr_seq r of
       None \<Rightarrow> (r, db1)
     | Some seq \<Rightarrow> (r, db1\<lparr>wd_guards := wallet_stamp_guard seq attempt K_refund_send client (wd_guards db1)\<rparr>))"

section \<open>wallet-credit.sql, credit.repo.ts and credit.service.ts\<close>

definition CREDIT_KINDS :: "wallet_kind list" where
  "CREDIT_KINDS = [K_topup_manual, K_promo_credit, K_adjustment_credit]"

definition account_credit :: "int \<Rightarrow> wallet_account \<Rightarrow> wallet_account" where
  "account_credit amount w =
    w\<lparr>ac_balance := ac_balance w + amount, ac_credit := ac_credit w + amount, ac_seq := ac_seq w + 1,
      ac_state := sql_state_case w (ac_balance w + amount)\<rparr>"

definition wallet_credit_ext_ref :: "string \<Rightarrow> string \<Rightarrow> wallet_kind \<Rightarrow> int \<Rightarrow> wallet_db \<Rightarrow> nat option \<times> wallet_db" where
  "wallet_credit_ext_ref client externalRef kind amount db =
    (case ref_insert (client, externalRef) 0 (wd_refs db) of
       None \<Rightarrow> (None, db)
     | Some refs \<Rightarrow>
         (case wd_accounts db client of
            None \<Rightarrow> (None, db\<lparr>wd_refs := refs\<rparr>)
          | Some w \<Rightarrow>
              let w' = account_credit amount w;
                  row = \<lparr>lr_client = client, lr_seq = ac_seq w', lr_kind = kind, lr_amount = amount,
                         lr_after = ac_balance w', lr_rate = None, lr_price = None, lr_job = None,
                         lr_jobCreated = None, lr_attempt = None, lr_day = wd_day db\<rparr>
              in (Some (ac_seq w'), db\<lparr>wd_refs := refs, wd_accounts := (wd_accounts db)(client \<mapsto> w'),
                                       wd_ledger := wd_ledger db @ [row]\<rparr>)))"

definition wallet_credit_stamp_ext_ref :: "nat \<Rightarrow> string \<Rightarrow> string \<Rightarrow> wallet_db \<Rightarrow> wallet_db" where
  "wallet_credit_stamp_ext_ref seq client externalRef db =
    (if wd_refs db (client, externalRef) = Some 0
     then db\<lparr>wd_refs := (wd_refs db)((client, externalRef) \<mapsto> seq)\<rparr> else db)"

record credit_input =
  ci_client :: string
  ci_amount :: int
  ci_kind :: wallet_kind
  ci_ref :: string

definition creditWallet :: "credit_input \<Rightarrow> wallet_db \<Rightarrow> (wallet_error, (nat \<times> bool) \<times> wallet_db) result" where
  "creditWallet i db =
    (if ci_kind i \<notin> set CREDIT_KINDS then Err (Invalid_credit_kind (ci_kind i))
     else let (seq, db1) = wallet_credit_ext_ref (ci_client i) (ci_ref i) (ci_kind i) (ci_amount i) db in
       (case seq of
          Some n \<Rightarrow> Ok ((n, False), wallet_credit_stamp_ext_ref n (ci_client i) (ci_ref i) db1)
        | None \<Rightarrow> (case wd_refs db1 (ci_client i, ci_ref i) of
                     None \<Rightarrow> Err (Replay_without_ref (ci_client i) (ci_ref i))
                   | Some n \<Rightarrow> Ok ((n, True), db1))))"

definition readWalletState :: "string \<Rightarrow> wallet_db \<Rightarrow> (wallet_error, wallet_state) result" where
  "readWalletState client db =
    (case wd_accounts db client of None \<Rightarrow> Err (No_wallet_account client) | Some w \<Rightarrow> Ok (ac_state w))"

definition isZeroClaimToClaimable :: "wallet_state \<Rightarrow> wallet_state \<Rightarrow> bool" where
  "isZeroClaimToClaimable stateBefore stateAfter \<longleftrightarrow>
    (stateBefore = W_empty \<or> stateBefore = W_frozen) \<and> (stateAfter = W_active \<or> stateAfter = W_low)"

datatype wallet_notice = Notify_low_if_due string | Notify_empty string

record credit_service_result =
  cs_seq :: nat
  cs_replayed :: bool
  cs_before :: wallet_state
  cs_after :: wallet_state
  cs_notices :: "wallet_notice list"

definition creditWalletInTx :: "credit_input \<Rightarrow> wallet_db \<Rightarrow> (wallet_error, credit_service_result \<times> wallet_db) result" where
  "creditWalletInTx i db =
    bindR (readWalletState (ci_client i) db) (\<lambda>stateBefore.
    bindR (creditWallet i db) (\<lambda>((seq, replayed), db1).
      if replayed
      then Ok (\<lparr>cs_seq = seq, cs_replayed = True, cs_before = stateBefore, cs_after = stateBefore, cs_notices = []\<rparr>, db1)
      else bindR (readWalletState (ci_client i) db1) (\<lambda>stateAfter.
        Ok (\<lparr>cs_seq = seq, cs_replayed = False, cs_before = stateBefore, cs_after = stateAfter,
             cs_notices = (if stateAfter = W_low then [Notify_low_if_due (ci_client i)]
                           else if stateAfter = W_empty then [Notify_empty (ci_client i)] else [])\<rparr>, db1))))"

definition creditWalletAndNotify ::
  "credit_input \<Rightarrow> wallet_db \<Rightarrow> (wallet_error, (credit_service_result \<times> bool) \<times> wallet_db) result" where
  "creditWalletAndNotify i db =
    bindR (creditWalletInTx i db) (\<lambda>(r, db1).
      let shouldWake = (\<not> cs_replayed r \<and> isZeroClaimToClaimable (cs_before r) (cs_after r))
      in Ok ((r, shouldWake), db1))"

section \<open>Signup, pricing and freezing\<close>

definition signupWallet :: "string \<Rightarrow> int \<Rightarrow> int \<Rightarrow> int \<Rightarrow> wallet_db \<Rightarrow> wallet_db" where
  "signupWallet client signupCredit low maxRate db =
    (if wd_accounts db client \<noteq> None then db
     else db\<lparr>wd_accounts := (wd_accounts db)(client \<mapsto>
               \<lparr>ac_balance = signupCredit, ac_debit = 0, ac_credit = signupCredit, ac_seq = 1,
                ac_maxRate = maxRate, ac_low = low, ac_state = W_active\<rparr>),
             wd_ledger := wd_ledger db @ [\<lparr>lr_client = client, lr_seq = 1, lr_kind = K_signup_credit,
               lr_amount = signupCredit, lr_after = signupCredit, lr_rate = None, lr_price = None,
               lr_job = None, lr_jobCreated = None, lr_attempt = None, lr_day = wd_day db\<rparr>],
             wd_refs := (wd_refs db)((client, ''signup:'' @ client) \<mapsto> 1)\<rparr>)"

fun materialiseLoop :: "wallet_db \<Rightarrow> string \<Rightarrow> price_key list \<Rightarrow> int \<Rightarrow> (wallet_error, int) result" where
  "materialiseLoop db client [] m = Ok m"
| "materialiseLoop db client (k # ks) m =
     bindR (resolveRateMinor db client k) (\<lambda>r. materialiseLoop db client ks (if m < r then r else m))"

definition materialiseMaxRate :: "string \<Rightarrow> wallet_db \<Rightarrow> (wallet_error, int \<times> wallet_db) result" where
  "materialiseMaxRate client db =
    bindR (materialiseLoop db client PRICE_KEYS 0) (\<lambda>m.
      case wd_accounts db client of
        None \<Rightarrow> Err (No_wallet_account client)
      | Some w \<Rightarrow> Ok (m, db\<lparr>wd_accounts := (wd_accounts db)(client \<mapsto> w\<lparr>ac_maxRate := m\<rparr>)\<rparr>))"

definition walletFreeze :: "string \<Rightarrow> wallet_db \<Rightarrow> wallet_state option \<times> wallet_db" where
  "walletFreeze client db =
    (case wd_accounts db client of
       Some w \<Rightarrow> if ac_state w = W_frozen then (None, db)
                 else (Some W_frozen, db\<lparr>wd_accounts := (wd_accounts db)(client \<mapsto> w\<lparr>ac_state := W_frozen\<rparr>)\<rparr>)
     | None \<Rightarrow> (None, db))"

text \<open>The read and the conditional write of an unfreeze; \<open>others\<close> is what other transactions commit between them.\<close>

definition walletUnfreeze :: "string \<Rightarrow> (wallet_db \<Rightarrow> wallet_db) \<Rightarrow> wallet_db \<Rightarrow> wallet_state option \<times> wallet_db" where
  "walletUnfreeze client others db =
    (case wd_accounts db client of
       Some w \<Rightarrow>
         if ac_state w \<noteq> W_frozen then (None, db)
         else let derived = nextWalletState (ac_balance w) (ac_maxRate w) (ac_low w) W_active; db1 = others db in
           (case wd_accounts db1 client of
              Some w1 \<Rightarrow> if ac_state w1 = W_frozen
                then (Some derived, db1\<lparr>wd_accounts := (wd_accounts db1)(client \<mapsto> w1\<lparr>ac_state := derived\<rparr>)\<rparr>)
                else (None, db1)
            | None \<Rightarrow> (None, db1))
     | None \<Rightarrow> (None, db))"

section \<open>Check B of reconcile.ts\<close>

record missing_debit =
  md_client :: string
  md_attempt :: string
  md_jobStatus :: job_status

text \<open>\<open>wp_wallet_check_missing_debits\<close>: whether the scan returns this attempt (its time window apart).\<close>

definition missing_debit_row :: "string \<Rightarrow> wallet_db \<Rightarrow> missing_debit option" where
  "missing_debit_row attempt db =
    (case wd_attempts db attempt of
       None \<Rightarrow> None
     | Some a \<Rightarrow>
         (case wd_jobs db (wt_job a) of
            None \<Rightarrow> None
          | Some j \<Rightarrow>
              if wj_created j = wt_jobCreated a \<and> attempt_settled a \<and>
                 \<not> guard_has (wd_guards db) (attempt, K_debit_send, wt_jobCreated a) \<and>
                 \<not> guard_has (wd_guards db) (attempt, K_adjustment_debit, wt_jobCreated a)
              then Some \<lparr>md_client = wt_client a, md_attempt = attempt, md_jobStatus = wj_status j\<rparr> else None))"

definition daily_correction_count :: "string \<Rightarrow> wallet_db \<Rightarrow> nat" where
  "daily_correction_count client db =
    length (filter (\<lambda>l. lr_client l = client \<and> lr_kind l = K_adjustment_debit \<and> lr_day l = wd_day db) (wd_ledger db))"

definition wallet_adjustment_debit :: "string \<Rightarrow> string \<Rightarrow> int \<Rightarrow> price_key \<Rightarrow> wallet_db \<Rightarrow> charge_result \<times> wallet_db" where
  "wallet_adjustment_debit attempt client rate price db =
    charge_chain K_adjustment_debit attempt rate price
      (case attempt_job attempt client db of
         Some (a, jid, j) \<Rightarrow> if wj_client j = client \<and> attempt_settled a then Some (jid, j) else None
       | None \<Rightarrow> None) db"

definition insertFinding :: "string \<Rightarrow> string \<Rightarrow> string \<Rightarrow> wallet_db \<Rightarrow> wallet_db" where
  "insertFinding client kind attempt db = db\<lparr>wd_findings := wd_findings db @ [(client, kind, attempt)]\<rparr>"

text \<open>One row of the scan; an error of its transaction is logged and leaves the state.\<close>

definition checkB_row :: "nat \<Rightarrow> missing_debit \<Rightarrow> wallet_db \<Rightarrow> wallet_db" where
  "checkB_row dailyCorrectionCap row db =
    (if md_jobStatus row = Job_sent
     then (case chargeRepairedSend (md_client row) (md_attempt row) db of
             Inl e \<Rightarrow> db
           | Inr (r, db1) \<Rightarrow> if cr_seq r \<noteq> None
               then insertFinding (md_client row) ''missing_debit_repaired'' (md_attempt row) db1 else db1)
     else (case resolveAttemptPrice db (md_client row) (md_attempt row) of
             Inl e \<Rightarrow> db
           | Inr resolved \<Rightarrow>
               let capped = insertFinding (md_client row) ''missing_debit_capped'' (md_attempt row) in
               (case resolved of
                  Some (price, rate) \<Rightarrow>
                    if daily_correction_count (md_client row) db < dailyCorrectionCap
                    then let (r, db1) = stamp_result (md_attempt row) K_adjustment_debit (md_client row)
                               (wallet_adjustment_debit (md_attempt row) (md_client row) rate price db)
                         in (if cr_seq r \<noteq> None
                             then insertFinding (md_client row) ''missing_debit'' (md_attempt row) db1
                             else capped db1)
                    else capped db
                | None \<Rightarrow> capped db)))"

section \<open>Histories\<close>

text \<open>
  Every transaction that touches the wallet tables, and what the rest of the system does to the rows the
  statements read: jobs change status and lease but keep their client and creation time, attempts change
  state but keep their job, prices, thresholds and the day change at will. A charge is made with the
  attempt of the claimed job, as \<open>resolveAck\<close> does. Rows of check B may be stale.
\<close>

datatype wallet_event =
    Ev_signup string int int int
  | Ev_charge string string string string price_key int
  | Ev_repaired string string
  | Ev_checkB nat missing_debit
  | Ev_refund string string
  | Ev_credit credit_input
  | Ev_freeze string
  | Ev_unfreeze string wallet_state
  | Ev_materialise string
  | Ev_low string int
  | Ev_job string wallet_job
  | Ev_attempt string wallet_attempt
  | Ev_prices "string \<Rightarrow> price_key \<Rightarrow> int option"
  | Ev_day nat

definition update_account :: "string \<Rightarrow> (wallet_account \<Rightarrow> wallet_account) \<Rightarrow> wallet_db \<Rightarrow> wallet_db" where
  "update_account client f db = db\<lparr>wd_accounts := (wd_accounts db)(client := map_option f (wd_accounts db client))\<rparr>"

definition committed :: "wallet_db \<Rightarrow> (wallet_error, 'a \<times> wallet_db) result \<Rightarrow> wallet_db" where
  "committed db r = (case r of Inl e \<Rightarrow> db | Inr (x, db1) \<Rightarrow> db1)"

definition put_job :: "string \<Rightarrow> wallet_job \<Rightarrow> wallet_db \<Rightarrow> wallet_db" where
  "put_job jid j db =
    (if wd_accounts db (wj_client j) \<noteq> None \<and>
        (case wd_jobs db jid of None \<Rightarrow> True | Some j0 \<Rightarrow> wj_client j0 = wj_client j \<and> wj_created j0 = wj_created j)
     then db\<lparr>wd_jobs := (wd_jobs db)(jid \<mapsto> j)\<rparr> else db)"

definition put_attempt :: "string \<Rightarrow> wallet_attempt \<Rightarrow> wallet_db \<Rightarrow> wallet_db" where
  "put_attempt aid a db =
    (if (case wd_jobs db (wt_job a) of None \<Rightarrow> False | Some j \<Rightarrow> wj_client j = wt_client a \<and> wj_created j = wt_jobCreated a) \<and>
        (case wd_attempts db aid of None \<Rightarrow> True
         | Some a0 \<Rightarrow> wt_client a0 = wt_client a \<and> wt_job a0 = wt_job a \<and> wt_jobCreated a0 = wt_jobCreated a)
     then db\<lparr>wd_attempts := (wd_attempts db)(aid \<mapsto> a)\<rparr> else db)"

fun wallet_step :: "wallet_event \<Rightarrow> wallet_db \<Rightarrow> wallet_db" where
  "wallet_step (Ev_signup c credit low maxRate) db = signupWallet c credit low maxRate db"
| "wallet_step (Ev_charge attempt jid lease client price rate) db =
     (case wd_attempts db attempt of
        Some a \<Rightarrow> if wt_job a = jid then snd (chargeSend attempt jid lease client price rate db) else db
      | None \<Rightarrow> db)"
| "wallet_step (Ev_repaired client attempt) db = committed db (chargeRepairedSend client attempt db)"
| "wallet_step (Ev_checkB cap row) db = checkB_row cap row db"
| "wallet_step (Ev_refund client attempt) db = snd (refundSend client attempt db)"
| "wallet_step (Ev_credit i) db = committed db (creditWalletAndNotify i db)"
| "wallet_step (Ev_freeze client) db = snd (walletFreeze client db)"
| "wallet_step (Ev_unfreeze client st) db = update_account client (\<lambda>w. if ac_state w = W_frozen then w\<lparr>ac_state := st\<rparr> else w) db"
| "wallet_step (Ev_materialise client) db = committed db (materialiseMaxRate client db)"
| "wallet_step (Ev_low client low) db = update_account client (\<lambda>w. w\<lparr>ac_low := low\<rparr>) db"
| "wallet_step (Ev_job jid j) db = put_job jid j db"
| "wallet_step (Ev_attempt aid a) db = put_attempt aid a db"
| "wallet_step (Ev_prices rates) db = db\<lparr>wd_rates := rates\<rparr>"
| "wallet_step (Ev_day d) db = db\<lparr>wd_day := d\<rparr>"

definition wallet_empty :: wallet_db where
  "wallet_empty = \<lparr>wd_accounts = (\<lambda>_. None), wd_ledger = [], wd_guards = [], wd_refs = (\<lambda>_. None), wd_jobs = (\<lambda>_. None),
     wd_attempts = (\<lambda>_. None), wd_rates = (\<lambda>_ _. None), wd_day = 0, wd_findings = []\<rparr>"

definition wallet_run :: "wallet_event list \<Rightarrow> wallet_db" where
  "wallet_run es = fold wallet_step es wallet_empty"

section \<open>Invariant\<close>

definition client_rows :: "string \<Rightarrow> ledger_row list \<Rightarrow> ledger_row list" where
  "client_rows c led = filter (\<lambda>l. lr_client l = c) led"

definition rows_ok :: "ledger_row list \<Rightarrow> bool" where
  "rows_ok L \<longleftrightarrow> (\<forall>i<length L. lr_seq (L ! i) = i + 1 \<and> lr_after (L ! i) = sum_list (map lr_amount (take (i + 1) L)))"

definition account_ok :: "ledger_row list \<Rightarrow> wallet_account option \<Rightarrow> bool" where
  "account_ok L acc = (case acc of None \<Rightarrow> L = []
     | Some w \<Rightarrow> rows_ok L \<and> ac_seq w = length L \<and> ac_balance w = sum_list (map lr_amount L) \<and>
                 ac_credit w - ac_debit w = ac_balance w)"

definition row_key :: "ledger_row \<Rightarrow> string option \<times> wallet_kind \<times> int option" where
  "row_key l = (lr_attempt l, lr_kind l, lr_jobCreated l)"

definition guard_row_ok :: "ledger_row list \<Rightarrow> (string \<rightharpoonup> wallet_attempt) \<Rightarrow> guard_key \<times> string \<times> nat \<Rightarrow> bool" where
  "guard_row_ok led atts g = (case g of ((a, k, c), cl, s) \<Rightarrow>
     (\<exists>l\<in>set led. lr_client l = cl \<and> lr_seq l = s \<and> row_key l = (Some a, k, Some c)) \<and> 0 < s \<and>
     (\<exists>t. atts a = Some t \<and> wt_jobCreated t = c \<and> wt_client t = cl))"

definition ledger_row_ok :: "ledger_row list \<Rightarrow> guard_table \<Rightarrow> ledger_row \<Rightarrow> bool" where
  "ledger_row_ok led gs l \<longleftrightarrow> (\<forall>a. lr_attempt l = Some a \<longrightarrow>
     (\<exists>c. lr_jobCreated l = Some c \<and> guard_has gs (a, lr_kind l, c)) \<and>
     (lr_kind l = K_refund_send \<longrightarrow>
        (\<exists>d\<in>set led. lr_client d = lr_client l \<and> row_key d = (Some a, K_debit_send, lr_jobCreated l) \<and> lr_amount d = - lr_amount l)) \<and>
     (lr_kind l = K_debit_send \<longrightarrow> lr_rate l = Some (- lr_amount l)))"

definition money_inv :: "(string \<rightharpoonup> wallet_account) \<Rightarrow> ledger_row list \<Rightarrow> guard_table \<Rightarrow> (string \<rightharpoonup> wallet_attempt) \<Rightarrow> bool" where
  "money_inv accs led gs atts \<longleftrightarrow>
     (\<forall>c. account_ok (client_rows c led) (accs c)) \<and>
     distinct (map fst gs) \<and> list_all (guard_row_ok led atts) gs \<and> list_all (ledger_row_ok led gs) led \<and>
     distinct (map row_key (filter (\<lambda>l. lr_attempt l \<noteq> None) led))"

definition jobs_inv :: "wallet_db \<Rightarrow> bool" where
  "jobs_inv db \<longleftrightarrow>
     (\<forall>jid j. wd_jobs db jid = Some j \<longrightarrow> wd_accounts db (wj_client j) \<noteq> None) \<and>
     (\<forall>aid a. wd_attempts db aid = Some a \<longrightarrow>
        (\<exists>j. wd_jobs db (wt_job a) = Some j \<and> wj_client j = wt_client a \<and> wj_created j = wt_jobCreated a))"

definition wallet_inv :: "wallet_db \<Rightarrow> bool" where
  "wallet_inv db \<longleftrightarrow> money_inv (wd_accounts db) (wd_ledger db) (wd_guards db) (wd_attempts db) \<and> jobs_inv db"

lemma rows_ok_snoc:
  "rows_ok (L @ [r]) \<longleftrightarrow> rows_ok L \<and> lr_seq r = length L + 1 \<and> lr_after r = sum_list (map lr_amount L) + lr_amount r"
proof -
  have "(\<forall>i<Suc (length L). P i) \<longleftrightarrow> (\<forall>i<length L. P i) \<and> P (length L)" for P
    by (auto simp: less_Suc_eq)
  then show ?thesis by (auto simp: rows_ok_def nth_append)
qed

lemma client_rows_snoc [simp]:
  "client_rows c (led @ [r]) = (if lr_client r = c then client_rows c led @ [r] else client_rows c led)"
  by (simp add: client_rows_def)

lemma guard_row_ok_mono: "guard_row_ok led atts g \<Longrightarrow> guard_row_ok (led @ [r]) atts g"
  by (auto simp: guard_row_ok_def)

lemma ledger_row_ok_mono:
  "ledger_row_ok led gs l \<Longrightarrow> (\<And>k. guard_has gs k \<Longrightarrow> guard_has gs' k) \<Longrightarrow> ledger_row_ok (led @ [r]) gs' l"
  by (fastforce simp: ledger_row_ok_def)

text \<open>Posting one row with its balance, unguarded (credits) or guarded (charges and refunds).\<close>

lemma post_accounts:
  assumes "\<forall>c. account_ok (client_rows c led) (accs c)" "accs (lr_client r) = Some w"
    and "ac_seq w' = ac_seq w + 1" "ac_balance w' = ac_balance w + lr_amount r"
    and "ac_credit w' - ac_debit w' = ac_balance w'" "lr_seq r = ac_seq w'" "lr_after r = ac_balance w'"
  shows "\<forall>c. account_ok (client_rows c (led @ [r])) ((accs(lr_client r \<mapsto> w')) c)"
proof
  fix c
  have "account_ok (client_rows (lr_client r) led) (Some w)" using assms(1,2) by metis
  then show "account_ok (client_rows c (led @ [r])) ((accs(lr_client r \<mapsto> w')) c)"
    using assms by (auto simp: account_ok_def rows_ok_snoc)
qed

lemma post_credit_inv:
  assumes inv: "money_inv accs led gs atts" and "accs (lr_client r) = Some w"
    and "ac_seq w' = ac_seq w + 1" "ac_balance w' = ac_balance w + lr_amount r"
    and "ac_credit w' - ac_debit w' = ac_balance w'" "lr_seq r = ac_seq w'" "lr_after r = ac_balance w'"
    and "lr_attempt r = None"
  shows "money_inv (accs(lr_client r \<mapsto> w')) (led @ [r]) gs atts"
proof -
  have "\<forall>c. account_ok (client_rows c (led @ [r])) ((accs(lr_client r \<mapsto> w')) c)"
    by (rule post_accounts) (use assms in \<open>auto simp: money_inv_def\<close>)
  moreover have "ledger_row_ok (led @ [r]) gs r" by (simp add: ledger_row_ok_def assms(8))
  ultimately show ?thesis
    using inv assms(8) by (auto simp: money_inv_def list_all_iff intro: guard_row_ok_mono ledger_row_ok_mono)
qed

lemma post_charge_inv:
  assumes inv: "money_inv accs led gs atts" and "accs (lr_client r) = Some w"
    and "ac_seq w' = ac_seq w + 1" "ac_balance w' = ac_balance w + lr_amount r"
    and "ac_credit w' - ac_debit w' = ac_balance w'" "lr_seq r = ac_seq w'" "lr_after r = ac_balance w'"
    and key: "row_key r = (Some a, k, Some c)" and new: "\<not> guard_has gs (a, k, c)"
    and att: "atts a = Some t" "wt_jobCreated t = c" "wt_client t = lr_client r"
    and refund: "k = K_refund_send \<Longrightarrow>
       \<exists>d\<in>set led. lr_client d = lr_client r \<and> row_key d = (Some a, K_debit_send, Some c) \<and> lr_amount d = - lr_amount r"
    and debit: "k = K_debit_send \<Longrightarrow> lr_rate r = Some (- lr_amount r)"
  shows "money_inv (accs(lr_client r \<mapsto> w')) (led @ [r]) (gs @ [((a, k, c), lr_client r, lr_seq r)]) atts"
proof -
  let ?gs = "gs @ [((a, k, c), lr_client r, lr_seq r)]"
  have acc: "\<forall>c. account_ok (client_rows c (led @ [r])) ((accs(lr_client r \<mapsto> w')) c)"
    by (rule post_accounts) (use assms in \<open>auto simp: money_inv_def\<close>)
  have r: "lr_attempt r = Some a" "lr_kind r = k" "lr_jobCreated r = Some c" using key by (simp_all add: row_key_def)
  have "ledger_row_ok (led @ [r]) ?gs r"
    using refund debit by (fastforce simp: ledger_row_ok_def r guard_has_def)
  moreover have "ledger_row_ok (led @ [r]) ?gs l" if "l \<in> set led" for l
    by (rule ledger_row_ok_mono) (use inv that in \<open>auto simp: money_inv_def list_all_iff guard_has_def\<close>)
  ultimately have led: "list_all (ledger_row_ok (led @ [r]) ?gs) (led @ [r])" by (auto simp: list_all_iff)
  have "guard_row_ok (led @ [r]) atts ((a, k, c), lr_client r, lr_seq r)"
    using assms(3,6) att key by (auto simp: guard_row_ok_def)
  then have gs: "list_all (guard_row_ok (led @ [r]) atts) ?gs"
    using inv by (auto simp: money_inv_def list_all_iff intro: guard_row_ok_mono)
  have "row_key r \<noteq> row_key l" if "l \<in> set led" "lr_attempt l \<noteq> None" for l
  proof
    assume "row_key r = row_key l"
    then have "guard_has gs (a, k, c)" using that inv key
      by (auto simp: money_inv_def list_all_iff ledger_row_ok_def row_key_def)
    then show False using new by simp
  qed
  then have "distinct (map row_key (filter (\<lambda>l. lr_attempt l \<noteq> None) (led @ [r])))"
    using inv r by (auto simp: money_inv_def)
  then show ?thesis using acc gs led inv new by (auto simp: money_inv_def guard_has_def)
qed

section \<open>The operations keep the invariant\<close>

lemma stamp_new:
  assumes "list_all (guard_row_ok led atts) gs"
  shows "wallet_stamp_guard seq a k cl (gs @ [((a, k, c), cl, 0)]) = gs @ [((a, k, c), cl, seq)]"
proof -
  have "wallet_stamp_guard seq a k cl gs = gs"
    unfolding wallet_stamp_guard_def
    by (rule map_idI) (use assms in \<open>auto simp: list_all_iff guard_row_ok_def\<close>)
  then show ?thesis by (simp add: wallet_stamp_guard_def)
qed

text \<open>What a completed charge looks like, and that the rest of the database is as before.\<close>

lemma charge_inv:
  assumes inv: "money_inv (wd_accounts db) (wd_ledger db) (wd_guards db) (wd_attempts db)"
    and src: "source = Some (jid, u) \<Longrightarrow> wj_client u = client \<and> wd_accounts db client \<noteq> None \<and>
        (\<exists>t. wd_attempts db attempt = Some t \<and> wt_jobCreated t = wj_created u \<and> wt_client t = client)"
    and kind: "kind \<noteq> K_refund_send"
    and run: "stamp_result attempt kind client (charge_chain kind attempt rate price source db) = (r, db')"
    and some: "source = None \<or> source = Some (jid, u)"
  shows "money_inv (wd_accounts db') (wd_ledger db') (wd_guards db') (wd_attempts db') \<and>
    wd_jobs db' = wd_jobs db \<and> wd_attempts db' = wd_attempts db \<and> dom (wd_accounts db') = dom (wd_accounts db)"
proof (cases "cr_seq (fst (charge_chain kind attempt rate price source db))")
  case None
  have "db' = db"
  proof (cases "source")
    case s: (Some x)
    then have x: "source = Some (jid, u)" using some by auto
    then show ?thesis using run None src [OF x]
      by (auto simp: stamp_result_def charge_chain_def Let_def split: option.splits)
  qed (use run in \<open>simp add: stamp_result_def charge_chain_def\<close>)
  then show ?thesis using inv by simp
next
  case (Some n)
  then have x: "source = Some (jid, u)" using some by (auto simp: charge_chain_def)
  obtain t where t: "wd_attempts db attempt = Some t" "wt_jobCreated t = wj_created u" "wt_client t = client"
    and cl: "wj_client u = client" using src [OF x] by auto
  obtain w where w: "wd_accounts db client = Some w" using src [OF x] by auto
  have ins: "guard_insert (attempt, kind, wj_created u) client (wd_guards db) = Some (wd_guards db @ [((attempt, kind, wj_created u), client, 0)])"
    using Some by (auto simp: charge_chain_def x cl guard_insert_def split: if_splits option.splits)
  define w' where "w' = account_debit rate w"
  define row where "row = \<lparr>lr_client = client, lr_seq = ac_seq w', lr_kind = kind, lr_amount = - rate,
      lr_after = ac_balance w', lr_rate = Some rate, lr_price = Some price, lr_job = Some jid,
      lr_jobCreated = Some (wj_created u), lr_attempt = Some attempt, lr_day = wd_day db\<rparr>"
  have db': "db' = db\<lparr>wd_guards := wd_guards db @ [((attempt, kind, wj_created u), client, ac_seq w')],
      wd_accounts := (wd_accounts db)(client \<mapsto> w'), wd_ledger := wd_ledger db @ [row]\<rparr>"
    using run stamp_new [of "wd_ledger db" "wd_attempts db" "wd_guards db"] inv
    by (auto simp: money_inv_def stamp_result_def charge_chain_def x cl ins w Let_def w'_def [symmetric] row_def)
  have "account_ok (client_rows client (wd_ledger db)) (Some w)" using inv w by (metis money_inv_def)
  then have "ac_credit w' - ac_debit w' = ac_balance w'" by (simp add: w'_def account_debit_def account_ok_def)
  then have "money_inv ((wd_accounts db)(lr_client row \<mapsto> w')) (wd_ledger db @ [row])
      (wd_guards db @ [((attempt, kind, wj_created u), lr_client row, lr_seq row)]) (wd_attempts db)"
    by (intro post_charge_inv [OF inv]) (use t w ins kind in
      \<open>auto simp: row_def w'_def account_debit_def row_key_def guard_has_def guard_insert_def split: if_splits\<close>)
  then show ?thesis using w by (auto simp: db' row_def)
qed

lemma attempt_jobD:
  assumes "jobs_inv db" "attempt_job attempt client db = Some (a, jid, j)"
  shows "wd_attempts db attempt = Some a \<and> wt_client a = client \<and> wd_jobs db jid = Some j \<and> wj_client j = client \<and>
    wj_created j = wt_jobCreated a \<and> wd_accounts db client \<noteq> None"
  using assms by (fastforce simp: attempt_job_def jobs_inv_def split: option.splits if_splits)

lemma jobs_inv_eq:
  assumes "jobs_inv db" "wd_jobs db' = wd_jobs db" "wd_attempts db' = wd_attempts db" "dom (wd_accounts db) \<subseteq> dom (wd_accounts db')"
  shows "jobs_inv db'"
  using assms unfolding jobs_inv_def by (metis domIff subsetD)

lemma repaired_inv:
  assumes inv: "wallet_inv db"
    and run: "stamp_result attempt kind client (charge_chain kind attempt rate price
      (case attempt_job attempt client db of Some (a, jid, j) \<Rightarrow> if P a j then Some (jid, j) else None | None \<Rightarrow> None) db) = (r, db')"
    and kind: "kind \<noteq> K_refund_send"
  shows "wallet_inv db'"
proof -
  have m: "money_inv (wd_accounts db) (wd_ledger db) (wd_guards db) (wd_attempts db)" and j: "jobs_inv db"
    using inv by (simp_all add: wallet_inv_def)
  have "money_inv (wd_accounts db') (wd_ledger db') (wd_guards db') (wd_attempts db') \<and>
    wd_jobs db' = wd_jobs db \<and> wd_attempts db' = wd_attempts db \<and> dom (wd_accounts db') = dom (wd_accounts db)"
  proof (cases "attempt_job attempt client db")
    case None
    then show ?thesis using run m by (auto simp: charge_chain_def stamp_result_def)
  next
    case (Some x)
    obtain a jid jb where x: "x = (a, jid, jb)" by (cases x)
    show ?thesis
      by (rule charge_inv [where jid = jid and u = jb, OF m _ kind run])
        (use attempt_jobD [OF j] Some in \<open>auto simp: x split: if_splits\<close>)
  qed
  moreover from this have "jobs_inv db'" using jobs_inv_eq [OF j, of db'] by simp
  ultimately show ?thesis unfolding wallet_inv_def by blast
qed

lemma charge_step_inv:
  assumes inv: "wallet_inv db" and at: "wd_attempts db attempt = Some a" "wt_job a = jid"
  shows "wallet_inv (snd (chargeSend attempt jid lease client price rate db))"
proof -
  have m: "money_inv (wd_accounts db) (wd_ledger db) (wd_guards db) (wd_attempts db)" and jb: "jobs_inv db"
    using inv by (simp_all add: wallet_inv_def)
  obtain j where j: "wd_jobs db jid = Some j" "wj_client j = wt_client a" "wj_created j = wt_jobCreated a"
    using jb at unfolding jobs_inv_def by blast
  then have acc: "wd_accounts db (wj_client j) \<noteq> None" using jb unfolding jobs_inv_def by blast
  obtain r db' where run: "chargeSend attempt jid lease client price rate db = (r, db')" by fastforce
  show ?thesis
  proof (cases "wj_lease j = Some lease \<and> wj_status j = Job_processing \<and> wj_client j = client")
    case True
    define db1 where "db1 = db\<lparr>wd_jobs := (wd_jobs db)(jid \<mapsto> j\<lparr>wj_status := Job_sent\<rparr>)\<rparr>"
    have jb1: "jobs_inv db1" using jb j acc by (fastforce simp: jobs_inv_def db1_def)
    have "money_inv (wd_accounts db') (wd_ledger db') (wd_guards db') (wd_attempts db') \<and>
      wd_jobs db' = wd_jobs db1 \<and> wd_attempts db' = wd_attempts db1 \<and> dom (wd_accounts db') = dom (wd_accounts db1)"
      by (rule charge_inv [where jid = jid and u = j and kind = K_debit_send and source = "Some (jid, j)" and r = r and
            rate = rate and price = price and attempt = attempt and client = client])
        (use True j acc at m run in \<open>auto simp: chargeSend_def debit_send_def db1_def\<close>)
    moreover from this have "jobs_inv db'" using jobs_inv_eq [OF jb1, of db'] by simp
    moreover have "snd (chargeSend attempt jid lease client price rate db) = db'" using run by simp
    ultimately show ?thesis unfolding wallet_inv_def by metis
  next
    case False
    then have "db' = db" using run j
      by (auto simp: chargeSend_def debit_send_def charge_chain_def stamp_result_def)
    then show ?thesis using inv run by simp
  qed
qed

lemma refund_debits_mem:
  assumes "(c, d) \<in> set (refund_debits attempt client db)"
  shows "\<exists>s. ((attempt, K_debit_send, c), client, s) \<in> set (wd_guards db) \<and> d \<in> set (wd_ledger db) \<and>
    lr_client d = client \<and> lr_seq d = s"
  using assms by (auto simp: refund_debits_def split: if_splits)

lemma rows_ok_unique:
  assumes "rows_ok L" "l \<in> set L" "d \<in> set L" "lr_seq l = lr_seq d"
  shows "l = d"
  using assms by (metis Suc_eq_plus1 in_set_conv_nth nat.inject rows_ok_def)

lemma ledger_unique:
  assumes "money_inv accs led gs atts" "l \<in> set led" "d \<in> set led" "lr_client l = lr_client d" "lr_seq l = lr_seq d"
  shows "l = d"
proof (rule rows_ok_unique [where L = "client_rows (lr_client l) led"])
  have "account_ok (client_rows (lr_client l) led) (accs (lr_client l))" using assms(1) by (simp add: money_inv_def)
  moreover have mem: "l \<in> set (client_rows (lr_client l) led)" using assms(2) by (simp add: client_rows_def)
  ultimately show "rows_ok (client_rows (lr_client l) led)" by (auto simp: account_ok_def split: option.splits)
  show "l \<in> set (client_rows (lr_client l) led)" "d \<in> set (client_rows (lr_client l) led)" "lr_seq l = lr_seq d"
    using assms by (auto simp: client_rows_def)
qed

lemma refund_debit_row:
  assumes inv: "money_inv (wd_accounts db) (wd_ledger db) (wd_guards db) (wd_attempts db)"
    and mem: "(c, d) \<in> set (refund_debits attempt client db)"
  shows "d \<in> set (wd_ledger db) \<and> lr_client d = client \<and> row_key d = (Some attempt, K_debit_send, Some c) \<and>
    lr_rate d = Some (- lr_amount d) \<and> (\<exists>w. wd_accounts db client = Some w) \<and>
    (\<exists>t. wd_attempts db attempt = Some t \<and> wt_jobCreated t = c \<and> wt_client t = client)"
proof -
  obtain s where s: "((attempt, K_debit_send, c), client, s) \<in> set (wd_guards db)" "d \<in> set (wd_ledger db)"
    "lr_client d = client" "lr_seq d = s" using refund_debits_mem [OF mem] by blast
  have "guard_row_ok (wd_ledger db) (wd_attempts db) ((attempt, K_debit_send, c), client, s)"
    using inv s(1) by (auto simp: money_inv_def list_all_iff)
  then obtain l t where l: "l \<in> set (wd_ledger db)" "lr_client l = client" "lr_seq l = s"
    "row_key l = (Some attempt, K_debit_send, Some c)"
    and t: "wd_attempts db attempt = Some t" "wt_jobCreated t = c" "wt_client t = client"
    by (auto simp: guard_row_ok_def)
  have "l = d" by (rule ledger_unique [OF inv]) (use s l in auto)
  moreover have "ledger_row_ok (wd_ledger db) (wd_guards db) d" using inv s by (auto simp: money_inv_def list_all_iff)
  moreover have "account_ok (client_rows client (wd_ledger db)) (wd_accounts db client)" using inv by (simp add: money_inv_def)
  moreover have "client_rows client (wd_ledger db) \<noteq> []" using s by (auto simp: client_rows_def filter_empty_conv)
  ultimately show ?thesis
    using l t s by (auto simp: ledger_row_ok_def row_key_def account_ok_def split: option.splits)
qed

lemma refund_inv:
  assumes inv: "wallet_inv db"
  shows "wallet_inv (snd (refundSend client attempt db))"
proof (cases "refund_debits attempt client db")
  case Nil
  then show ?thesis using inv by (simp add: refundSend_def refund_send_def)
next
  case (Cons x ds)
  obtain c d where x: "x = (c, d)" by (cases x)
  have m: "money_inv (wd_accounts db) (wd_ledger db) (wd_guards db) (wd_attempts db)" and jb: "jobs_inv db"
    using inv by (simp_all add: wallet_inv_def)
  have "(c, d) \<in> set (refund_debits attempt client db)" by (simp add: Cons x)
  note row = refund_debit_row [OF m this]
  then obtain w t where w: "wd_accounts db client = Some w"
    and t: "wd_attempts db attempt = Some t" "wt_jobCreated t = c" "wt_client t = client" by blast
  show ?thesis
  proof (cases "guard_has (wd_guards db) (attempt, K_refund_send, c)")
    case True
    then show ?thesis using inv Cons x
      by (simp add: refundSend_def refund_send_def guard_insert_def guard_has_def Let_def)
  next
    case False
    define w' where "w' = account_refund (- lr_amount d) w"
    define r where "r = d\<lparr>lr_seq := ac_seq w', lr_kind := K_refund_send, lr_amount := - lr_amount d,
        lr_after := ac_balance w', lr_attempt := Some attempt, lr_day := wd_day db\<rparr>"
    have ins: "guard_insert (attempt, K_refund_send, c) client (wd_guards db)
        = Some (wd_guards db @ [((attempt, K_refund_send, c), client, 0)])"
      using False by (simp add: guard_insert_def guard_has_def)
    have db': "snd (refundSend client attempt db) = db\<lparr>wd_guards := wd_guards db @ [((attempt, K_refund_send, c), client, ac_seq w')],
        wd_accounts := (wd_accounts db)(client \<mapsto> w'), wd_ledger := wd_ledger db @ [r]\<rparr>"
      using row stamp_new [of "wd_ledger db" "wd_attempts db" "wd_guards db"] m
      by (simp add: refundSend_def refund_send_def Cons x ins w Let_def w'_def [symmetric] r_def money_inv_def)
    have "account_ok (client_rows client (wd_ledger db)) (Some w)" using m w by (metis money_inv_def)
    then have bal: "ac_credit w' - ac_debit w' = ac_balance w'" by (simp add: w'_def account_refund_def account_ok_def)
    have "money_inv ((wd_accounts db)(lr_client r \<mapsto> w')) (wd_ledger db @ [r])
        (wd_guards db @ [((attempt, K_refund_send, c), lr_client r, lr_seq r)]) (wd_attempts db)"
    proof (rule post_charge_inv [OF m])
      show "\<exists>d\<in>set (wd_ledger db). lr_client d = lr_client r \<and> row_key d = (Some attempt, K_debit_send, Some c) \<and> lr_amount d = - lr_amount r"
        by (rule bexI [of _ d]) (use row in \<open>auto simp: r_def\<close>)
    qed (use row t w False bal in \<open>auto simp: r_def w'_def account_refund_def row_key_def\<close>)
    moreover have "lr_client r = client" "lr_seq r = ac_seq w'" using row by (simp_all add: r_def)
    ultimately have "money_inv (wd_accounts (snd (refundSend client attempt db))) (wd_ledger (snd (refundSend client attempt db)))
        (wd_guards (snd (refundSend client attempt db))) (wd_attempts (snd (refundSend client attempt db)))"
      by (simp add: db')
    moreover have "jobs_inv (snd (refundSend client attempt db))"
      by (rule jobs_inv_eq [OF jb]) (auto simp: db')
    ultimately show ?thesis by (simp add: wallet_inv_def)
  qed
qed

lemma credit_inv:
  assumes inv: "wallet_inv db"
  shows "wallet_inv (snd (wallet_credit_ext_ref client ref kind amount db))"
proof (cases "ref_insert (client, ref) 0 (wd_refs db)")
  case None
  then show ?thesis using inv by (simp add: wallet_credit_ext_ref_def)
next
  case (Some refs)
  show ?thesis
  proof (cases "wd_accounts db client")
    case None
    then show ?thesis using inv by (simp add: wallet_credit_ext_ref_def Some wallet_inv_def jobs_inv_def)
  next
    case w: (Some w)
    define w' where "w' = account_credit amount w"
    define r where "r = \<lparr>lr_client = client, lr_seq = ac_seq w', lr_kind = kind, lr_amount = amount,
        lr_after = ac_balance w', lr_rate = None, lr_price = None, lr_job = None,
        lr_jobCreated = None, lr_attempt = None, lr_day = wd_day db\<rparr>"
    have m: "money_inv (wd_accounts db) (wd_ledger db) (wd_guards db) (wd_attempts db)" and jb: "jobs_inv db"
      using inv by (simp_all add: wallet_inv_def)
    have db': "snd (wallet_credit_ext_ref client ref kind amount db) = db\<lparr>wd_refs := refs,
        wd_accounts := (wd_accounts db)(client \<mapsto> w'), wd_ledger := wd_ledger db @ [r]\<rparr>"
      by (simp add: wallet_credit_ext_ref_def Some w Let_def w'_def r_def)
    have "account_ok (client_rows client (wd_ledger db)) (Some w)" using m w by (metis money_inv_def)
    then have bal: "ac_credit w' - ac_debit w' = ac_balance w'" by (simp add: w'_def account_credit_def account_ok_def)
    have "money_inv ((wd_accounts db)(lr_client r \<mapsto> w')) (wd_ledger db @ [r]) (wd_guards db) (wd_attempts db)"
      by (rule post_credit_inv [OF m]) (use w bal in \<open>auto simp: r_def w'_def account_credit_def\<close>)
    moreover have "jobs_inv (snd (wallet_credit_ext_ref client ref kind amount db))"
      by (rule jobs_inv_eq [OF jb]) (auto simp: db')
    ultimately show ?thesis by (simp add: wallet_inv_def db') (simp add: r_def)
  qed
qed

lemma wallet_inv_other:
  assumes "wallet_inv db" "wd_accounts db' = wd_accounts db" "wd_ledger db' = wd_ledger db" "wd_guards db' = wd_guards db"
    "wd_attempts db' = wd_attempts db" "wd_jobs db' = wd_jobs db"
  shows "wallet_inv db'"
  using assms by (simp add: wallet_inv_def jobs_inv_def)

lemma creditWallet_state:
  assumes "creditWallet i db = Inr (x, db')"
  shows "\<exists>refs. db' = (snd (wallet_credit_ext_ref (ci_client i) (ci_ref i) (ci_kind i) (ci_amount i) db))\<lparr>wd_refs := refs\<rparr>"
proof -
  obtain sq db1 where r: "wallet_credit_ext_ref (ci_client i) (ci_ref i) (ci_kind i) (ci_amount i) db = (sq, db1)" by fastforce
  have same: "\<exists>refs. db1 = db1\<lparr>wd_refs := refs\<rparr>" by (rule exI [of _ "wd_refs db1"]) simp
  show ?thesis using assms same
    by (auto simp: creditWallet_def r wallet_credit_stamp_ext_ref_def Let_def split: if_splits option.splits)
qed

lemma credit_step_inv:
  assumes "wallet_inv db" "creditWallet i db = Inr (x, db')"
  shows "wallet_inv db'"
proof -
  obtain refs where db': "db' = (snd (wallet_credit_ext_ref (ci_client i) (ci_ref i) (ci_kind i) (ci_amount i) db))\<lparr>wd_refs := refs\<rparr>"
    using creditWallet_state [OF assms(2)] by blast
  show ?thesis by (rule wallet_inv_other [OF credit_inv [OF assms(1)]]) (auto simp: db')
qed

lemma creditWalletAndNotify_state:
  assumes "creditWalletAndNotify i db = Inr (r, db')"
  shows "\<exists>x. creditWallet i db = Inr (x, db')"
  using assms by (auto simp: creditWalletAndNotify_def creditWalletInTx_def Let_def split: prod.splits if_splits)

lemma signup_inv:
  assumes inv: "wallet_inv db"
  shows "wallet_inv (signupWallet c credit low maxRate db)"
proof (cases "wd_accounts db c")
  case None
  have m: "money_inv (wd_accounts db) (wd_ledger db) (wd_guards db) (wd_attempts db)" and jb: "jobs_inv db"
    using inv by (simp_all add: wallet_inv_def)
  define w where "w = \<lparr>ac_balance = credit, ac_debit = 0, ac_credit = credit, ac_seq = 1, ac_maxRate = maxRate,
    ac_low = low, ac_state = W_active\<rparr>"
  define w0 where "w0 = w\<lparr>ac_balance := 0, ac_credit := 0, ac_seq := 0\<rparr>"
  define r where "r = \<lparr>lr_client = c, lr_seq = 1, lr_kind = K_signup_credit,
      lr_amount = credit, lr_after = credit, lr_rate = None, lr_price = None,
      lr_job = None, lr_jobCreated = None, lr_attempt = None, lr_day = wd_day db\<rparr>"
  have rows: "client_rows c (wd_ledger db) = []" using m None by (auto simp: money_inv_def account_ok_def dest!: spec [of _ c])
  have "money_inv ((wd_accounts db)(c \<mapsto> w0)) (wd_ledger db) (wd_guards db) (wd_attempts db)"
    using m unfolding money_inv_def fun_upd_apply
    by (simp add: account_ok_def rows rows_ok_def w0_def w_def)
  from post_credit_inv [OF this, of r w0 w]
  have "money_inv ((wd_accounts db)(c \<mapsto> w)) (wd_ledger db @ [r]) (wd_guards db) (wd_attempts db)"
    by (simp add: r_def w0_def w_def)
  moreover have "jobs_inv (signupWallet c credit low maxRate db)"
    by (rule jobs_inv_eq [OF jb]) (auto simp: signupWallet_def)
  ultimately show ?thesis using None by (simp add: wallet_inv_def signupWallet_def w_def r_def)
qed (use inv in \<open>simp add: signupWallet_def\<close>)

text \<open>Account updates that move no money.\<close>

definition keeps_money :: "(wallet_account \<Rightarrow> wallet_account) \<Rightarrow> bool" where
  "keeps_money f \<longleftrightarrow> (\<forall>w. ac_balance (f w) = ac_balance w \<and> ac_debit (f w) = ac_debit w \<and>
     ac_credit (f w) = ac_credit w \<and> ac_seq (f w) = ac_seq w)"

lemma update_account_inv:
  assumes "wallet_inv db" "keeps_money f"
  shows "wallet_inv (update_account c f db)"
proof -
  have acc: "account_ok L (map_option f a) = account_ok L a" for L a
    using assms(2) by (cases a) (auto simp: account_ok_def keeps_money_def)
  have "jobs_inv (update_account c f db)"
    by (rule jobs_inv_eq [of db]) (use assms(1) in \<open>auto simp: wallet_inv_def update_account_def\<close>)
  then show ?thesis
    using assms(1) acc by (simp add: wallet_inv_def money_inv_def update_account_def)
qed

lemma put_job_inv: "wallet_inv db \<Longrightarrow> wallet_inv (put_job jid j db)"
  by (fastforce simp: wallet_inv_def jobs_inv_def put_job_def split: option.splits)

lemma put_attempt_inv:
  assumes inv: "wallet_inv db"
  shows "wallet_inv (put_attempt aid a db)"
proof (cases "put_attempt aid a db = db")
  case False
  then have same: "wd_attempts db aid = Some a0 \<Longrightarrow> wt_client a0 = wt_client a \<and> wt_job a0 = wt_job a \<and> wt_jobCreated a0 = wt_jobCreated a" for a0
    by (auto simp: put_attempt_def split: if_splits)
  have eq: "put_attempt aid a db = db\<lparr>wd_attempts := (wd_attempts db)(aid \<mapsto> a)\<rparr>"
    using False by (auto simp: put_attempt_def split: if_splits)
  have "guard_row_ok led ((wd_attempts db)(aid \<mapsto> a)) g" if "guard_row_ok led (wd_attempts db) g" for led g
    using that same by (fastforce simp: guard_row_ok_def)
  then have "money_inv (wd_accounts db) (wd_ledger db) (wd_guards db) ((wd_attempts db)(aid \<mapsto> a))"
    using inv by (auto simp: wallet_inv_def money_inv_def list_all_iff)
  moreover have "jobs_inv (put_attempt aid a db)"
    using inv False unfolding wallet_inv_def jobs_inv_def put_attempt_def by (auto split: if_splits option.splits)
  ultimately show ?thesis by (simp add: wallet_inv_def eq)
qed (use inv in simp)

lemma repaired_step_inv:
  assumes "wallet_inv db" "chargeRepairedSend client attempt db = Inr (r, db')"
  shows "wallet_inv db'"
proof -
  obtain res where "resolveAttemptPrice db client attempt = Inr res"
    and res: "(case res of None \<Rightarrow> Inr (\<lparr>cr_jobRows = 0, cr_guardRows = 0, cr_seq = None\<rparr>, db)
      | Some (price, rate) \<Rightarrow> Inr (stamp_result attempt K_debit_send client (debit_repaired_send attempt client rate price db)))
      = (Inr (r, db') :: (wallet_error, charge_result \<times> wallet_db) result)"
    using assms(2) by (auto simp: chargeRepairedSend_def)
  show ?thesis
  proof (cases res)
    case None
    then show ?thesis using res assms(1) by simp
  next
    case (Some x)
    obtain price rate where x: "x = (price, rate)" by (cases x)
    have "stamp_result attempt K_debit_send client (debit_repaired_send attempt client rate price db) = (r, db')"
      using res by (simp add: Some x)
    then show ?thesis
      unfolding debit_repaired_send_def by (rule repaired_inv [OF assms(1)]) simp
  qed
qed

lemma adjustment_inv:
  assumes "wallet_inv db"
  shows "wallet_inv (snd (stamp_result attempt K_adjustment_debit client (wallet_adjustment_debit attempt client rate price db)))"
  unfolding wallet_adjustment_debit_def
  by (rule repaired_inv [OF assms _, where kind = K_adjustment_debit]) (rule surjective_pairing, simp)

lemma finding_inv: "wallet_inv (insertFinding c k a db) = wallet_inv db"
  by (simp add: insertFinding_def wallet_inv_def jobs_inv_def)

lemma checkB_inv:
  assumes inv: "wallet_inv db"
  shows "wallet_inv (checkB_row cap row db)"
proof (cases "md_jobStatus row = Job_sent")
  case True
  then show ?thesis using inv
    by (auto simp: checkB_row_def finding_inv split: sum.splits intro: repaired_step_inv)
next
  case False
  then show ?thesis using inv adjustment_inv [OF inv]
    by (auto simp: checkB_row_def finding_inv case_prod_beta Let_def split: sum.splits option.splits)
qed

lemma wallet_step_inv:
  assumes inv: "wallet_inv db"
  shows "wallet_inv (wallet_step e db)"
proof (cases e)
  case (Ev_signup c credit low maxRate)
  then show ?thesis using inv by (simp add: signup_inv)
next
  case (Ev_charge attempt jid lease client price rate)
  then show ?thesis using inv charge_step_inv [OF inv] by (auto split: option.splits)
next
  case (Ev_repaired client attempt)
  then show ?thesis using inv repaired_step_inv [OF inv] by (auto simp: committed_def split: sum.splits)
next
  case (Ev_checkB cap row)
  then show ?thesis using inv by (simp add: checkB_inv)
next
  case (Ev_refund client attempt)
  then show ?thesis using inv by (simp add: refund_inv)
next
  case (Ev_credit i)
  then show ?thesis using inv credit_step_inv [OF inv] creditWalletAndNotify_state
    by (fastforce simp: committed_def split: sum.splits)
next
  case (Ev_freeze client)
  have "snd (walletFreeze client db) = update_account client (\<lambda>w. w\<lparr>ac_state := W_frozen\<rparr>) db"
    by (cases "wd_accounts db client") (auto simp: walletFreeze_def update_account_def fun_upd_idem)
  then show ?thesis using inv Ev_freeze by (simp add: update_account_inv keeps_money_def)
next
  case (Ev_unfreeze client st)
  then show ?thesis using inv by (auto intro!: update_account_inv simp: keeps_money_def)
next
  case (Ev_materialise client)
  have "wallet_inv db'" if "materialiseMaxRate client db = Inr (m, db')" for m db'
  proof -
    have "db' = update_account client (\<lambda>w. w\<lparr>ac_maxRate := m\<rparr>) db"
      using that by (auto simp: materialiseMaxRate_def update_account_def split: option.splits)
    then show ?thesis using inv by (simp add: update_account_inv keeps_money_def)
  qed
  then show ?thesis using inv Ev_materialise by (auto simp: committed_def split: sum.splits)
next
  case (Ev_low client low)
  then show ?thesis using inv by (auto intro!: update_account_inv simp: keeps_money_def)
next
  case (Ev_job jid j)
  then show ?thesis using inv by (simp add: put_job_inv)
next
  case (Ev_attempt aid a)
  then show ?thesis using inv by (simp add: put_attempt_inv)
next
  case (Ev_prices rates)
  then show ?thesis using wallet_inv_other [OF inv] by simp
next
  case (Ev_day d)
  then show ?thesis using wallet_inv_other [OF inv] by simp
qed

theorem wallet_run_inv: "wallet_inv (wallet_run es)"
proof -
  have "wallet_inv (fold wallet_step es db)" if "wallet_inv db" for db
    using that by (induction es arbitrary: db) (auto intro: wallet_step_inv)
  moreover have "wallet_inv wallet_empty"
    by (simp add: wallet_inv_def money_inv_def jobs_inv_def wallet_empty_def account_ok_def client_rows_def)
  ultimately show ?thesis by (simp add: wallet_run_def)
qed

section \<open>Replays\<close>

lemma stamp_guard_has [simp]: "guard_has (wallet_stamp_guard sq a k c gs) key = guard_has gs key"
proof -
  have "map fst (wallet_stamp_guard sq a k c gs) = map fst gs"
    by (induction gs) (auto simp: wallet_stamp_guard_def)
  then have "fst ` set (wallet_stamp_guard sq a k c gs) = fst ` set gs" by (metis list.set_map)
  then show ?thesis by (simp add: guard_has_def)
qed

lemma charge_again:
  assumes "stamp_result a k c (charge_chain k a rate p source db) = (r, db')"
  shows "\<exists>r'. stamp_result a k c (charge_chain k a rate' p' source db') = (r', db') \<and> cr_seq r' = None"
proof (cases source)
  case None
  then show ?thesis using assms by (auto simp: charge_chain_def stamp_result_def)
next
  case (Some x)
  obtain jid u where x: "x = (jid, u)" by (cases x)
  let ?key = "(a, k, wj_created u)"
  have "guard_has (wd_guards db') ?key"
  proof (cases "guard_insert ?key (wj_client u) (wd_guards db)")
    case None
    then have "guard_has (wd_guards db) ?key" using charge_guard.conflict by blast
    then show ?thesis using assms None by (simp add: charge_chain_def Some x stamp_result_def)
  next
    case gs: (Some gs)
    then have "guard_has gs ?key" using charge_guard.inserted by blast
    then show ?thesis using assms gs
      by (auto simp: charge_chain_def Some x stamp_result_def Let_def split: option.splits)
  qed
  then have "guard_insert ?key (wj_client u) (wd_guards db') = None" by (simp add: charge_guard.conflict)
  then show ?thesis by (simp add: charge_chain_def Some x stamp_result_def)
qed

lemma charge_frame:
  assumes "stamp_result a k c (charge_chain k a rate p source db) = (r, db')"
  shows "wd_jobs db' = wd_jobs db \<and> wd_attempts db' = wd_attempts db \<and> wd_rates db' = wd_rates db"
  using assms by (auto simp: charge_chain_def stamp_result_def Let_def split: option.splits)

lemma repaired_again:
  assumes "chargeRepairedSend client attempt db = Inr (r, db')"
  shows "\<exists>r'. chargeRepairedSend client attempt db' = Inr (r', db') \<and> cr_seq r' = None"
proof -
  obtain res where res: "resolveAttemptPrice db client attempt = Inr res"
    and run: "(case res of None \<Rightarrow> Inr (\<lparr>cr_jobRows = 0, cr_guardRows = 0, cr_seq = None\<rparr>, db)
      | Some (price, rate) \<Rightarrow> Inr (stamp_result attempt K_debit_send client (debit_repaired_send attempt client rate price db)))
      = (Inr (r, db') :: (wallet_error, charge_result \<times> wallet_db) result)"
    using assms by (auto simp: chargeRepairedSend_def)
  show ?thesis
  proof (cases res)
    case None
    then show ?thesis using res run by (auto simp: chargeRepairedSend_def)
  next
    case (Some x)
    obtain price rate where x: "x = (price, rate)" by (cases x)
    let ?src = "\<lambda>db. case attempt_job attempt client db of
         Some (a, jid, j) \<Rightarrow> if wj_client j = client \<and> attempt_settled a \<and> wj_status j = Job_sent
                             then Some (jid, j) else None
       | None \<Rightarrow> None"
    have st: "stamp_result attempt K_debit_send client (charge_chain K_debit_send attempt rate price (?src db) db) = (r, db')"
      using run by (simp add: Some x debit_repaired_send_def)
    have "wd_jobs db' = wd_jobs db" "wd_attempts db' = wd_attempts db" and rates: "wd_rates db' = wd_rates db"
      using charge_frame [OF st] by simp_all
    then have aj: "attempt_job attempt client db' = attempt_job attempt client db" by (simp add: attempt_job_def split: option.split)
    have "resolveAttemptPrice db' client attempt = resolveAttemptPrice db client attempt"
      by (simp add: resolveAttemptPrice_def resolveRateMinor_def aj rates split: option.split)
    then show ?thesis
      using charge_again [OF st, of rate price] res by (auto simp: chargeRepairedSend_def Some x debit_repaired_send_def aj)
  qed
qed

lemma refund_again: "wallet_inv db \<Longrightarrow> snd (refundSend client attempt (snd (refundSend client attempt db))) = snd (refundSend client attempt db)"
proof -
  assume inv: "wallet_inv db"
  have m: "money_inv (wd_accounts db) (wd_ledger db) (wd_guards db) (wd_attempts db)" using inv by (simp add: wallet_inv_def)
  show ?thesis
  proof (cases "refund_debits attempt client db")
    case Nil
    then show ?thesis by (simp add: refundSend_def refund_send_def)
  next
    case (Cons x ds)
    obtain c d where x: "x = (c, d)" by (cases x)
    let ?db = "snd (refundSend client attempt db)"
    have row: "\<exists>t. wd_attempts db attempt = Some t \<and> wt_jobCreated t = c"
      using refund_debit_row [OF m, of c d attempt client] by (auto simp: Cons x)
    have "guard_has (wd_guards ?db) (attempt, K_refund_send, c)"
    proof (cases "guard_insert (attempt, K_refund_send, c) client (wd_guards db)")
      case None
      then have "guard_has (wd_guards db) (attempt, K_refund_send, c)" using charge_guard.conflict by blast
      then show ?thesis using None by (simp add: refundSend_def refund_send_def Cons x Let_def)
    next
      case (Some gs)
      then have "guard_has gs (attempt, K_refund_send, c)" using charge_guard.inserted by blast
      then show ?thesis using Some
        by (auto simp: refundSend_def refund_send_def Cons x Let_def split: option.splits)
    qed
    moreover have "c' = c" if "(c', d') \<in> set (refund_debits attempt client ?db)" for c' d'
    proof -
      have "wallet_inv ?db" by (rule refund_inv [OF inv])
      then have "money_inv (wd_accounts ?db) (wd_ledger ?db) (wd_guards ?db) (wd_attempts ?db)" by (simp add: wallet_inv_def)
      from refund_debit_row [OF this that]
      obtain t where "wd_attempts ?db attempt = Some t" "wt_jobCreated t = c'" by blast
      moreover have "wd_attempts ?db = wd_attempts db"
        by (auto simp: refundSend_def refund_send_def Cons x Let_def split: option.splits)
      ultimately show ?thesis using row by auto
    qed
    ultimately have none: "guard_insert (attempt, K_refund_send, c') client (wd_guards ?db) = None"
      if "(c', d') \<in> set (refund_debits attempt client ?db)" for c' d'
      using that charge_guard.conflict by metis
    show ?thesis
    proof (cases "refund_debits attempt client ?db")
      case Nil
      then show ?thesis by (simp add: refundSend_def [of _ _ ?db] refund_send_def)
    next
      case c2: (Cons y ys)
      obtain c' d' where y: "y = (c', d')" by (cases y)
      have "guard_insert (attempt, K_refund_send, c') client (wd_guards ?db) = None" by (rule none [of _ d']) (simp add: c2 y)
      then show ?thesis unfolding refundSend_def [of _ _ ?db] refund_send_def [of _ _ ?db] c2 y by (simp add: Let_def)
    qed
  qed
qed

lemma credit_again:
  assumes "creditWallet i db = Inr ((n, b), db')"
  shows "creditWallet i db' = Inr ((n, True), db')"
  using assms
  by (auto simp: creditWallet_def wallet_credit_ext_ref_def wallet_credit_stamp_ext_ref_def ref_insert_def Let_def
      split: if_splits option.splits)

section \<open>State changes\<close>

lemma sql_state_case_eq: "sql_state_case w b = nextWalletState b (ac_maxRate w) (ac_low w) (ac_state w)"
  by (simp add: sql_state_case_def nextWalletState_def)

text \<open>An account update of a money statement: thresholds stay, and the state is the one of the domain function.\<close>

definition posts :: "wallet_account \<Rightarrow> wallet_account \<Rightarrow> bool" where
  "posts w w' \<longleftrightarrow> ac_seq w' = ac_seq w + 1 \<and> ac_maxRate w' = ac_maxRate w \<and> ac_low w' = ac_low w \<and>
     ac_state w' = nextWalletState (ac_balance w') (ac_maxRate w) (ac_low w) (ac_state w)"

lemma posts_simps [simp]:
  "posts w (account_debit r w)" "posts w (account_refund r w)" "posts w (account_credit r w)"
  by (simp_all add: posts_def account_debit_def account_refund_def account_credit_def sql_state_case_eq)

definition posts_at_most_one :: "wallet_db \<Rightarrow> wallet_db \<Rightarrow> bool" where
  "posts_at_most_one db db' \<longleftrightarrow> wd_accounts db' = wd_accounts db \<or>
     (\<exists>c w w'. wd_accounts db c = Some w \<and> posts w w' \<and> wd_accounts db' = (wd_accounts db)(c \<mapsto> w'))"

lemma posts_refl [simp]: "posts_at_most_one db db"
  by (simp add: posts_at_most_one_def)

lemma charge_posts: "posts_at_most_one db (snd (stamp_result a k c (charge_chain k' a' rate p source db)))"
  by (auto simp: posts_at_most_one_def stamp_result_def charge_chain_def Let_def split: option.splits prod.splits
      intro!: exI)

lemma posts_jobs: "posts_at_most_one (db\<lparr>wd_jobs := js\<rparr>) db' \<Longrightarrow> posts_at_most_one db db'"
  by (simp add: posts_at_most_one_def)

lemma chargeSend_posts: "posts_at_most_one db (snd (chargeSend attempt jid lease client price rate db))"
  unfolding chargeSend_def debit_send_def
  by (auto split: option.splits simp: charge_posts intro: posts_jobs [OF charge_posts])

lemma charge_postsD: "stamp_result a k c (charge_chain k' a' rate p source db) = (r, db') \<Longrightarrow> posts_at_most_one db db'"
  using charge_posts [of db a k c k' a' rate p source] by simp

lemma repaired_posts: "posts_at_most_one db (committed db (chargeRepairedSend client attempt db))"
proof (cases "resolveAttemptPrice db client attempt")
  case (Inr res)
  then show ?thesis
    by (cases res) (auto simp: chargeRepairedSend_def committed_def debit_repaired_send_def charge_posts split: prod.splits
        dest: charge_postsD)
qed (simp add: chargeRepairedSend_def committed_def)

lemma finding_posts: "posts_at_most_one db (insertFinding c k a db') = posts_at_most_one db db'"
  by (simp add: posts_at_most_one_def insertFinding_def)

lemma checkB_posts: "posts_at_most_one db (checkB_row cap row db)"
proof (cases "md_jobStatus row = Job_sent")
  case True
  then show ?thesis using repaired_posts [of db "md_client row" "md_attempt row"]
    by (auto simp: checkB_row_def finding_posts committed_def split: sum.splits)
next
  case False
  then show ?thesis
    by (auto simp: checkB_row_def finding_posts wallet_adjustment_debit_def case_prod_beta Let_def charge_posts
        split: sum.splits option.splits)
qed

lemma refund_posts: "posts_at_most_one db (snd (refundSend client attempt db))"
proof (cases "refund_debits attempt client db")
  case (Cons x ds)
  obtain c d where x: "x = (c, d)" by (cases x)
  show ?thesis
    by (auto simp: posts_at_most_one_def refundSend_def refund_send_def Cons x Let_def split: option.splits prod.splits intro!: exI)
qed (simp add: refundSend_def refund_send_def)

lemma credit_posts: "posts_at_most_one db (committed db (creditWalletAndNotify i db))"
proof (cases "creditWalletAndNotify i db")
  case (Inr y)
  obtain r db' where y: "y = (r, db')" by (cases y)
  obtain x where "creditWallet i db = Inr (x, db')" using creditWalletAndNotify_state Inr y by blast
  then obtain refs where db': "db' = (snd (wallet_credit_ext_ref (ci_client i) (ci_ref i) (ci_kind i) (ci_amount i) db))\<lparr>wd_refs := refs\<rparr>"
    using creditWallet_state by blast
  have "posts_at_most_one db (snd (wallet_credit_ext_ref (ci_client i) (ci_ref i) (ci_kind i) (ci_amount i) db))"
    by (auto simp: posts_at_most_one_def wallet_credit_ext_ref_def Let_def split: option.splits intro!: exI)
  then show ?thesis by (simp add: committed_def Inr y db' posts_at_most_one_def)
qed (simp add: committed_def)

fun money_event :: "wallet_event \<Rightarrow> bool" where
  "money_event (Ev_charge a j l c p r) = True"
| "money_event (Ev_repaired c a) = True"
| "money_event (Ev_checkB cap row) = True"
| "money_event (Ev_refund c a) = True"
| "money_event (Ev_credit i) = True"
| "money_event _ = False"

lemma money_step_posts: "money_event e \<Longrightarrow> posts_at_most_one db (wallet_step e db)"
  by (cases e) (auto simp: chargeSend_posts repaired_posts checkB_posts refund_posts credit_posts split: option.split)

lemma credit_wake:
  assumes "creditWalletAndNotify i db = Inr ((r, woke), db')"
  shows "\<exists>w. wd_accounts db (ci_client i) = Some w \<and> cs_before r = ac_state w \<and>
    (woke \<longleftrightarrow> \<not> cs_replayed r \<and> ac_state w = W_empty \<and> ac_maxRate w \<le> ac_balance w + ci_amount i)"
  using assms
  by (auto simp: creditWalletAndNotify_def creditWalletInTx_def readWalletState_def creditWallet_def Let_def
      wallet_credit_ext_ref_def wallet_credit_stamp_ext_ref_def isZeroClaimToClaimable_def account_credit_def sql_state_case_def
      split: option.splits if_splits prod.splits)

section \<open>Properties\<close>


text \<open>C5. Every send is charged at most once and refunded at most once: in every reachable database no two
  charge rows share attempt, kind and job, every refund row reverses exactly the amount of a debit row of
  the same client and attempt, and running a repair charge, a refund or a credit with the same reference
  a second time leaves the database as it is.\<close>

theorem wallet_charges_once:
  "distinct (map row_key (filter (\<lambda>l. lr_attempt l \<noteq> None) (wd_ledger (wallet_run es)))) \<and>
   (\<forall>l\<in>set (wd_ledger (wallet_run es)). lr_attempt l = Some attempt \<and> lr_kind l = K_refund_send \<longrightarrow>
      (\<exists>d\<in>set (wd_ledger (wallet_run es)). lr_client d = lr_client l \<and> lr_attempt d = lr_attempt l \<and>
         lr_kind d = K_debit_send \<and> lr_amount d = - lr_amount l)) \<and>
   (chargeRepairedSend client attempt (wallet_run es) = Inr (r, db') \<longrightarrow>
      (\<exists>r'. chargeRepairedSend client attempt db' = Inr (r', db') \<and> cr_seq r' = None)) \<and>
   snd (refundSend client attempt (snd (refundSend client attempt (wallet_run es)))) = snd (refundSend client attempt (wallet_run es)) \<and>
   (creditWallet i (wallet_run es) = Inr ((n, b), db'') \<longrightarrow> creditWallet i db'' = Inr ((n, True), db''))"
proof -
  have inv: "wallet_inv (wallet_run es)" by (rule wallet_run_inv)
  then have m: "money_inv (wd_accounts (wallet_run es)) (wd_ledger (wallet_run es)) (wd_guards (wallet_run es)) (wd_attempts (wallet_run es))"
    by (simp add: wallet_inv_def)
  have "\<exists>d\<in>set (wd_ledger (wallet_run es)). lr_client d = lr_client l \<and> lr_attempt d = lr_attempt l \<and>
      lr_kind d = K_debit_send \<and> lr_amount d = - lr_amount l"
    if "l \<in> set (wd_ledger (wallet_run es))" "lr_attempt l = Some attempt" "lr_kind l = K_refund_send" for l
  proof -
    note l = that
    have "ledger_row_ok (wd_ledger (wallet_run es)) (wd_guards (wallet_run es)) l"
      using m l(1) by (simp add: money_inv_def list_all_iff)
    then obtain d where "d \<in> set (wd_ledger (wallet_run es))" "lr_client d = lr_client l"
      "row_key d = (Some attempt, K_debit_send, lr_jobCreated l)" "lr_amount d = - lr_amount l"
      using l(2,3) unfolding ledger_row_ok_def by blast
    then show ?thesis using l(2) by (intro bexI [of _ d]) (simp_all add: row_key_def)
  qed
  moreover have "distinct (map row_key (filter (\<lambda>l. lr_attempt l \<noteq> None) (wd_ledger (wallet_run es))))"
    using m by (simp add: money_inv_def)
  ultimately show ?thesis
    using repaired_again [of client attempt "wallet_run es" r db'] refund_again [OF inv, of client attempt]
      credit_again [of i "wallet_run es" n b db''] by blast
qed

text \<open>A signup with 1000, one send at 50, its refund.\<close>

definition demo_history :: "wallet_event list" where
  "demo_history =
    [Ev_signup ''c'' 1000 100 50, Ev_prices (\<lambda>_ _. Some 50),
     Ev_job ''j'' \<lparr>wj_client = ''c'', wj_created = 7, wj_status = Job_processing, wj_lease = Some ''l'',
       wj_payloadKind = ''text'', wj_recipient = ''1@s.whatsapp.net''\<rparr>,
     Ev_attempt ''a'' \<lparr>wt_client = ''c'', wt_job = ''j'', wt_jobCreated = 7, wt_state = A_acked\<rparr>,
     Ev_charge ''a'' ''j'' ''l'' ''c'' PK_text 50]"

lemma demo_ledger:
  "map (\<lambda>l. (lr_kind l, lr_amount l, lr_after l)) (wd_ledger (wallet_run demo_history)) = [(K_signup_credit, 1000, 1000), (K_debit_send, - 50, 950)]"
  by code_simp

lemma demo_refund:
  "map (\<lambda>l. (lr_kind l, lr_amount l, lr_after l)) (wd_ledger (wallet_run (demo_history @ [Ev_refund ''c'' ''a'']))) =
     [(K_signup_credit, 1000, 1000), (K_debit_send, - 50, 950), (K_refund_send, 50, 1000)]"
  by code_simp



lemma wallet_charges_once_witness:
  "\<exists>r' db'. chargeRepairedSend ''c'' ''a'' db' = Inr (r', db') \<and> cr_seq r' = None \<and>
     map lr_amount (wd_ledger db') = [1000, - 50]"
proof -
  have "(case chargeRepairedSend ''c'' ''a'' (wallet_run demo_history) of Inl _ \<Rightarrow> [] | Inr (r, db) \<Rightarrow> map lr_amount (wd_ledger db)) = [1000, - 50]"
    by code_simp
  then obtain r db' where "chargeRepairedSend ''c'' ''a'' (wallet_run demo_history) = Inr (r, db')" "map lr_amount (wd_ledger db') = [1000, - 50]"
    by (auto split: sum.splits)
  moreover have "\<exists>r'. chargeRepairedSend ''c'' ''a'' db' = Inr (r', db') \<and> cr_seq r' = None"
    using wallet_charges_once [of demo_history "''a''" "''c''" r db' undefined undefined undefined undefined] calculation(1) by simp
  ultimately show ?thesis by (elim exE conjE) (intro exI conjI)
qed

text \<open>The SQL agrees with \<open>nextWalletState\<close>: a charge, repair, correction, refund or credit changes at most
  one account, and that account's new state is the domain function of its new balance, so a frozen wallet
  stays frozen; and a credit wakes the client's instances exactly when it is no replay, the wallet was
  empty and the new balance covers the highest rate - never from frozen.\<close>

theorem wallet_state_follows_domain:
  "(money_event e \<and> wd_accounts (wallet_step e db) c \<noteq> wd_accounts db c \<longrightarrow>
      (\<exists>w w'. wd_accounts db c = Some w \<and> wd_accounts (wallet_step e db) c = Some w' \<and>
         ac_state w' = nextWalletState (ac_balance w') (ac_maxRate w) (ac_low w) (ac_state w) \<and>
         (ac_state w = W_frozen \<longrightarrow> ac_state w' = W_frozen) \<and>
         (\<forall>c'. c' \<noteq> c \<longrightarrow> wd_accounts (wallet_step e db) c' = wd_accounts db c'))) \<and>
   (creditWalletAndNotify i db = Inr ((r, woke), db') \<longrightarrow>
      (\<exists>w. wd_accounts db (ci_client i) = Some w \<and> cs_before r = ac_state w \<and>
        (woke \<longleftrightarrow> \<not> cs_replayed r \<and> ac_state w = W_empty \<and> ac_maxRate w \<le> ac_balance w + ci_amount i)))"
proof -
  have P: "posts w w' \<Longrightarrow> ac_state w' = nextWalletState (ac_balance w') (ac_maxRate w) (ac_low w) (ac_state w) \<and>
      (ac_state w = W_frozen \<longrightarrow> ac_state w' = W_frozen)" for w w' by (auto simp: posts_def nextWalletState_def)
  have "\<exists>w w'. wd_accounts db c = Some w \<and> wd_accounts (wallet_step e db) c = Some w' \<and> posts w w' \<and>
       (\<forall>c'. c' \<noteq> c \<longrightarrow> wd_accounts (wallet_step e db) c' = wd_accounts db c')"
    if "money_event e" "wd_accounts (wallet_step e db) c \<noteq> wd_accounts db c"
    using money_step_posts [OF that(1), of db] that(2) by (auto simp: posts_at_most_one_def split: if_splits)
  then show ?thesis using credit_wake [of i db r woke db'] P by blast
qed

definition demo_top_up :: credit_input where
  "demo_top_up = \<lparr>ci_client = ''c'', ci_amount = 100, ci_kind = K_topup_manual, ci_ref = ''t''\<rparr>"

lemma wallet_state_follows_domain_witness:
  "\<exists>w w'. wd_accounts (wallet_run [Ev_signup ''c'' 10 100 50]) ''c'' = Some w \<and>
     wd_accounts (wallet_step (Ev_credit demo_top_up) (wallet_run [Ev_signup ''c'' 10 100 50])) ''c'' = Some w' \<and>
     ac_state w' = nextWalletState (ac_balance w') (ac_maxRate w) (ac_low w) (ac_state w)"
proof -
  have neq: "map_option f a = Some x \<Longrightarrow> map_option f b = Some y \<Longrightarrow> x \<noteq> y \<Longrightarrow> a \<noteq> b"
    for f :: "wallet_account \<Rightarrow> int" and a b x y by auto
  have 1: "map_option ac_balance (wd_accounts (wallet_run [Ev_signup ''c'' 10 100 50]) ''c'') = Some 10" by code_simp
  have 2: "map_option ac_balance (wd_accounts (wallet_step (Ev_credit demo_top_up) (wallet_run [Ev_signup ''c'' 10 100 50])) ''c'') = Some 110"
    by code_simp
  have "wd_accounts (wallet_step (Ev_credit demo_top_up) (wallet_run [Ev_signup ''c'' 10 100 50])) ''c''
      \<noteq> wd_accounts (wallet_run [Ev_signup ''c'' 10 100 50]) ''c''" by (rule neq [OF 2 1]) simp
  then show ?thesis
    using conjunct1 [OF wallet_state_follows_domain [of "Ev_credit demo_top_up" "wallet_run [Ev_signup ''c'' 10 100 50]" "''c''"]]
    unfolding money_event.simps by blast
qed

text \<open>A reconciler correction does not exclude the repair charge: the two guards have different kinds. A
  settled send whose job is not yet sent is corrected by check B for one rate, and when the job is later
  repaired to sent the repair charges it again, so two rates leave the wallet, of which a refund returns one.\<close>

theorem adjustment_then_repair_charges_twice:
  assumes "attempt_job attempt client db = Some (a, jid, j)" "wj_client j = client" "attempt_settled a"
    and "wj_status j \<noteq> Job_sent" "missing_debit_row attempt db = Some row"
    and "daily_correction_count client db < cap" "wd_accounts db client = Some w"
    and "resolveRateMinor db client (resolvePriceKey (wj_payloadKind j) (wj_recipient j)) = Inr rate"
    and "db1 = put_job jid (j\<lparr>wj_status := Job_sent\<rparr>) (checkB_row cap row db)"
    and "db2 = committed db1 (chargeRepairedSend client attempt db1)"
  shows "(\<exists>w1. wd_accounts db1 client = Some w1 \<and> ac_balance w1 = ac_balance w - rate) \<and>
    (\<exists>w2. wd_accounts db2 client = Some w2 \<and> ac_balance w2 = ac_balance w - 2 * rate)"
proof -
  have att: "wd_attempts db attempt = Some a" "wt_client a = client" "wt_job a = jid"
    and job: "wd_jobs db jid = Some j" "wj_created j = wt_jobCreated a"
    using assms(1) by (auto simp: attempt_job_def split: option.splits if_splits)
  have row: "md_client row = client" "md_attempt row = attempt" "md_jobStatus row = wj_status j"
    and guards: "\<not> guard_has (wd_guards db) (attempt, K_debit_send, wj_created j)"
      "\<not> guard_has (wd_guards db) (attempt, K_adjustment_debit, wj_created j)"
    using assms(5) att job by (auto simp: missing_debit_row_def split: if_splits)
  define price where "price = resolvePriceKey (wj_payloadKind j) (wj_recipient j)"
  have res: "resolveAttemptPrice db client attempt = Inr (Some (price, rate))"
    using assms(8) by (simp add: resolveAttemptPrice_def assms(1) price_def)
  obtain gs where gs: "guard_insert (attempt, K_adjustment_debit, wj_created j) client (wd_guards db) = Some gs"
    using guards(2) by (auto simp: guard_insert_def guard_has_def)
  define w1 where "w1 = account_debit rate w"
  define r where "r = \<lparr>lr_client = client, lr_seq = ac_seq w1, lr_kind = K_adjustment_debit, lr_amount = - rate,
      lr_after = ac_balance w1, lr_rate = Some rate, lr_price = Some price, lr_job = Some jid,
      lr_jobCreated = Some (wj_created j), lr_attempt = Some attempt, lr_day = wd_day db\<rparr>"
  define gs1 where "gs1 = wallet_stamp_guard (ac_seq w1) attempt K_adjustment_debit client gs"
  have B: "checkB_row cap row db = insertFinding client ''missing_debit'' attempt
      (db\<lparr>wd_accounts := (wd_accounts db)(client \<mapsto> w1), wd_ledger := wd_ledger db @ [r], wd_guards := gs1\<rparr>)"
    unfolding checkB_row_def row res using assms(1-4,6,7) gs
    by (simp add: wallet_adjustment_debit_def charge_chain_def stamp_result_def w1_def [symmetric] r_def gs1_def Let_def)
  have db1: "db1 = (checkB_row cap row db)\<lparr>wd_jobs := (wd_jobs db)(jid \<mapsto> j\<lparr>wj_status := Job_sent\<rparr>)\<rparr>"
    using assms(2,9) job by (simp add: put_job_def B insertFinding_def)
  have acc1: "wd_accounts db1 client = Some w1" by (simp add: db1 B insertFinding_def)
  have aj: "attempt_job attempt client db1 = Some (a, jid, j\<lparr>wj_status := Job_sent\<rparr>)"
    using att job by (simp add: attempt_job_def db1 B insertFinding_def)
  have "wd_rates db1 = wd_rates db" by (simp add: db1 B insertFinding_def)
  then have "resolveAttemptPrice db1 client attempt = Inr (Some (price, rate))"
    using assms(8) by (simp add: resolveAttemptPrice_def resolveRateMinor_def aj price_def)
  moreover have "\<not> guard_has (wd_guards db1) (attempt, K_debit_send, wj_created j)"
    using guards charge_guard.inserted [OF gs] by (simp add: db1 B insertFinding_def gs1_def)
  then obtain gs2 where "guard_insert (attempt, K_debit_send, wj_created j) client (wd_guards db1) = Some gs2"
    by (auto simp: guard_insert_def guard_has_def)
  ultimately have "wd_accounts db2 client = Some (account_debit rate w1)"
    using acc1 assms(2,3) by (simp add: assms(10) committed_def chargeRepairedSend_def debit_repaired_send_def aj
        charge_chain_def stamp_result_def Let_def)
  then show ?thesis using acc1 by (simp add: w1_def account_debit_def)
qed

text \<open>The same send as before, its job still processing when the reconciler runs.\<close>

definition demo_unpaid :: wallet_db where
  "demo_unpaid = wallet_run (take 4 demo_history)"

lemma adjustment_then_repair_charges_twice_witness:
  "\<exists>db1 w2. wd_accounts (committed db1 (chargeRepairedSend ''c'' ''a'' db1)) ''c'' = Some w2 \<and> ac_balance w2 = 900"
proof -
  let ?j = "\<lparr>wj_client = ''c'', wj_created = 7, wj_status = Job_processing, wj_lease = Some ''l'',
       wj_payloadKind = ''text'', wj_recipient = ''1@s.whatsapp.net''\<rparr>"
  let ?a = "\<lparr>wt_client = ''c'', wt_job = ''j'', wt_jobCreated = 7, wt_state = A_acked\<rparr>"
  have 1: "attempt_job ''a'' ''c'' demo_unpaid = Some (?a, ''j'', ?j)" by code_simp
  have 2: "missing_debit_row ''a'' demo_unpaid = Some \<lparr>md_client = ''c'', md_attempt = ''a'', md_jobStatus = Job_processing\<rparr>" by code_simp
  have 3: "daily_correction_count ''c'' demo_unpaid < 50" by code_simp
  have "map_option ac_balance (wd_accounts demo_unpaid ''c'') = Some 1000" by code_simp
  then obtain w where w: "wd_accounts demo_unpaid ''c'' = Some w" "ac_balance w = 1000" by auto
  have 4: "resolveRateMinor demo_unpaid ''c'' (resolvePriceKey ''text'' ''1@s.whatsapp.net'') = Inr 50" by code_simp
  have "attempt_settled ?a" by (simp add: attempt_settled_def)
  then show ?thesis
    using adjustment_then_repair_charges_twice [OF 1 _ _ _ 2 3 w(1) _ refl refl, of 50] 4 w(2) by auto
qed

end
