(* ===== verification/Delivery.thy ===== *)
theory Delivery
  imports Wallet Scheduling
begin

text \<open>
  The life of one queued job: \<open>claim-jobs.sql\<close>, \<open>defer-job.sql\<close>, \<open>dispose-job.sql\<close>, and under
  \<open>engine/queue/\<close> \<open>dispatch.ts\<close>, \<open>dispatch-prepare.ts\<close>, \<open>dispatch-optout-precheck.ts\<close>, \<open>result.ts\<close>,
  \<open>result-attempt-outcome.ts\<close>, \<open>result-retry-budget.ts\<close>, \<open>result-terminal.ts\<close>; the reaper
  (\<open>wp_reap_expired_leases\<close>, \<open>reaper.ts\<close>, \<open>reaper-failure-reclassify.ts\<close>), the reconciler
  (\<open>reconciler-decision.ts\<close>, \<open>reconciler.ts\<close>, \<open>reconciler-resolve.ts\<close>), \<open>unresolved.service.ts\<close>, and the other
  writers of the job's status. Every transaction is one step; a worker is the continuation of the send
  loop between two of its awaits and may crash at any of them; any number of workers may be alive, and the
  expiry of a lease may come at any time. \<open>dv_calls\<close> records the calls of \<open>transport.send\<close>.
\<close>

section \<open>State\<close>

record attempt_row =
  ar_no :: nat
  ar_lease :: nat
  ar_state :: attempt_state
  ar_error :: "string option"

text \<open>Where a worker stands: after the claim, after \<open>prepareAndIncrement\<close>, after \<open>markDispatched\<close>, in the
  provider call, and between the two transactions of \<open>resolveAck\<close> and \<open>resolveFailure\<close>.\<close>

datatype phase =
    Ph_claimed nat
  | Ph_prepared nat
  | Ph_marked nat
  | Ph_sending nat
  | Ph_acking nat
  | Ph_ack_job nat
  | Ph_failing nat string
  | Ph_fail_job nat string

datatype unresolved_reason = UR_ambiguous_echo_match | UR_no_echo_evidence | UR_session_epoch_advanced

record delivery =
  dv_status :: job_status
  dv_lease :: "nat option"
  dv_attempts :: nat
  dv_max :: nat
  dv_rows :: "attempt_row list"
  dv_workers :: "nat \<rightharpoonup> phase"        \<comment> \<open>by the lease of their claim\<close>
  dv_nextLease :: nat                    \<comment> \<open>\<open>gen_random_uuid()\<close>\<close>
  dv_calls :: "nat list"
  dv_paused :: bool
  dv_reason :: "unresolved_reason option"
  dv_delay :: "real option"              \<comment> \<open>the last scheduled retry delay\<close>
  dv_redrive :: "(nat \<times> string option) list"  \<comment> \<open>reaped failures not yet re-driven\<close>
  dv_candidates :: "nat list"            \<comment> \<open>attempts of the reconciler's last scan\<close>
  dv_released :: "nat list"              \<comment> \<open>attempts that failed for a named reason or that a user gave up\<close>

definition row_of :: "nat \<Rightarrow> attempt_row list \<Rightarrow> attempt_row option" where
  "row_of n rows = find (\<lambda>r. ar_no r = n) rows"

definition set_rows :: "nat \<Rightarrow> attempt_state \<Rightarrow> string option \<Rightarrow> attempt_row list \<Rightarrow> attempt_row list" where
  "set_rows n st err rows = map (\<lambda>r. if ar_no r = n then r\<lparr>ar_state := st, ar_error := err\<rparr> else r) rows"

definition set_state :: "nat \<Rightarrow> attempt_state \<Rightarrow> delivery \<Rightarrow> delivery" where
  "set_state n st s = s\<lparr>dv_rows := map (\<lambda>r. if ar_no r = n then r\<lparr>ar_state := st\<rparr> else r) (dv_rows s)\<rparr>"

definition to_phase :: "nat \<Rightarrow> phase \<Rightarrow> delivery \<Rightarrow> delivery" where
  "to_phase l p s = s\<lparr>dv_workers := (dv_workers s)(l \<mapsto> p)\<rparr>"

definition worker_done :: "nat \<Rightarrow> delivery \<Rightarrow> delivery" where
  "worker_done l s = s\<lparr>dv_workers := (dv_workers s)(l := None)\<rparr>"

section \<open>Claim, guard outcomes and dispatch\<close>

definition claim_jobs :: "delivery \<Rightarrow> delivery" where
  "claim_jobs s =
    (if dv_status s = Job_queued \<and> \<not> dv_paused s
     then to_phase (dv_nextLease s) (Ph_claimed (dv_attempts s))
       (s\<lparr>dv_status := Job_processing, dv_lease := Some (dv_nextLease s), dv_nextLease := dv_nextLease s + 1\<rparr>)
     else s)"

definition holds_claim :: "nat \<Rightarrow> delivery \<Rightarrow> bool" where
  "holds_claim l s \<longleftrightarrow> dv_lease s = Some l \<and> dv_status s = Job_processing"

definition defer_job :: "nat \<Rightarrow> delivery \<Rightarrow> delivery" where
  "defer_job l s = (if holds_claim l s then s\<lparr>dv_status := Job_queued, dv_lease := None\<rparr> else s)"

definition dispose_job :: "nat \<Rightarrow> bool \<Rightarrow> delivery \<Rightarrow> delivery" where
  "dispose_job l cancelled s =
    (if holds_claim l s then s\<lparr>dv_status := (if cancelled then Job_cancelled else Job_failed), dv_lease := None\<rparr> else s)"

definition runOptOutPrecheck :: "nat \<Rightarrow> bool \<Rightarrow> delivery \<Rightarrow> bool \<times> delivery" where
  "runOptOutPrecheck l optedOut s =
    (if \<not> optedOut then (False, s)
     else if holds_claim l s then (True, s\<lparr>dv_status := Job_cancelled, dv_lease := None\<rparr>) else (False, s))"

datatype dispatch_error = Claim_lost_before_dispatch | Dispatch_already_recorded | Attempts_range_check

definition prepareAndIncrement :: "nat \<Rightarrow> nat \<Rightarrow> delivery \<Rightarrow> (dispatch_error, delivery) result" where
  "prepareAndIncrement l attemptNo s =
    (if row_of attemptNo (dv_rows s) \<noteq> None then Err Dispatch_already_recorded
     else if dv_lease s \<noteq> Some l then Err Claim_lost_before_dispatch
     else if dv_max s + 1 < dv_attempts s + 1 then Err Attempts_range_check
     else Ok (s\<lparr>dv_rows := dv_rows s @ [\<lparr>ar_no = attemptNo, ar_lease = l, ar_state = A_prepared, ar_error = None\<rparr>],
                dv_attempts := dv_attempts s + 1\<rparr>))"

definition runPrecheckAndPrepare :: "nat \<Rightarrow> nat \<Rightarrow> bool \<Rightarrow> delivery \<Rightarrow> (dispatch_error, bool \<times> delivery) result" where
  "runPrecheckAndPrepare l attemptNo optedOut s =
    (let (cancelled, s1) = runOptOutPrecheck l optedOut s in
     if cancelled then Ok (True, s1) else bindR (prepareAndIncrement l attemptNo s1) (\<lambda>s2. Ok (False, s2)))"

text \<open>The first transaction of \<open>dispatch\<close>: the worker goes on only when it committed and did not cancel.\<close>

definition dispatch_prepare :: "nat \<Rightarrow> bool \<Rightarrow> delivery \<Rightarrow> delivery" where
  "dispatch_prepare l optedOut s =
    (case dv_workers s l of
       Some (Ph_claimed attempts) \<Rightarrow>
         (case runPrecheckAndPrepare l (attempts + 1) optedOut s of
            Inr (False, s1) \<Rightarrow> to_phase l (Ph_prepared (attempts + 1)) s1
          | Inr (True, s1) \<Rightarrow> worker_done l s1
          | Inl e \<Rightarrow> worker_done l s)
     | _ \<Rightarrow> s)"

definition markDispatched :: "nat \<Rightarrow> delivery \<Rightarrow> delivery" where
  "markDispatched l s =
    (case dv_workers s l of
       Some (Ph_prepared n) \<Rightarrow>
         to_phase l (Ph_marked n) (set_state n A_dispatched s)
     | _ \<Rightarrow> s)"

definition transport_send :: "nat \<Rightarrow> delivery \<Rightarrow> delivery" where
  "transport_send l s =
    (case dv_workers s l of
       Some (Ph_marked n) \<Rightarrow> to_phase l (Ph_sending n) (s\<lparr>dv_calls := dv_calls s @ [n]\<rparr>)
     | _ \<Rightarrow> s)"

text \<open>How the provider call ends; the send loop turns a timeout into a failure of class \<open>unknown\<close>.\<close>

datatype settlement = Send_ok | Send_error string | Timed_out

definition settle :: "nat \<Rightarrow> settlement \<Rightarrow> delivery \<Rightarrow> delivery" where
  "settle l o1 s =
    (case dv_workers s l of
       Some (Ph_sending n) \<Rightarrow>
         to_phase l (case o1 of Send_ok \<Rightarrow> Ph_acking n | Send_error c \<Rightarrow> Ph_failing n c | Timed_out \<Rightarrow> Ph_failing n ''unknown'') s
     | _ \<Rightarrow> s)"

section \<open>Results\<close>

definition markAttempt :: "nat \<Rightarrow> attempt_state \<Rightarrow> string option \<Rightarrow> delivery \<Rightarrow> bool \<times> delivery" where
  "markAttempt n st err s = (row_of n (dv_rows s) \<noteq> None, s\<lparr>dv_rows := set_rows n st err (dv_rows s)\<rparr>)"

definition resolveAck_attempt :: "nat \<Rightarrow> delivery \<Rightarrow> delivery" where
  "resolveAck_attempt l s =
    (case dv_workers s l of
       Some (Ph_acking n) \<Rightarrow>
         (let (found, s1) = markAttempt n A_acked None s
          in if found then to_phase l (Ph_ack_job n) s1 else worker_done l s1)
     | _ \<Rightarrow> s)"

text \<open>The second transaction; \<open>priced\<close> is whether the rate resolves, without which it rolls back.\<close>

definition resolveAck_job :: "nat \<Rightarrow> bool \<Rightarrow> delivery \<Rightarrow> delivery" where
  "resolveAck_job l priced s =
    (case dv_workers s l of
       Some (Ph_ack_job n) \<Rightarrow>
         worker_done l (if priced \<and> holds_claim l s then s\<lparr>dv_status := Job_sent\<rparr> else s)
     | _ \<Rightarrow> s)"

definition isRetryBudgetExhausted :: "nat \<Rightarrow> nat \<Rightarrow> bool" where
  "isRetryBudgetExhausted attemptNo maxAttempts \<longleftrightarrow> maxAttempts \<le> attemptNo"

definition classify_class :: "string \<Rightarrow> retry_class" where
  "classify_class c = classify \<lparr>pe_code = Some c, pe_category = Some c\<rparr> RETRY_CLASS_BY_CATEGORY"

definition resolveFailure_attempt :: "nat \<Rightarrow> delivery \<Rightarrow> delivery" where
  "resolveFailure_attempt l s =
    (case dv_workers s l of
       Some (Ph_failing n c) \<Rightarrow>
         (let s1 = snd (markAttempt n A_failed (Some c) s)
          in to_phase l (Ph_fail_job n c) (if c = ''unknown'' then s1 else s1\<lparr>dv_released := n # dv_released s1\<rparr>))
     | _ \<Rightarrow> s)"

text \<open>The outcome of a failed attempt on a job found in the expected state, for the worker and for the reaper;
  \<open>base\<close> is the count the caller passes to \<open>backoff\<close>.\<close>

definition failure_outcome :: "string \<Rightarrow> nat \<Rightarrow> nat \<Rightarrow> real \<Rightarrow> delivery \<Rightarrow> delivery" where
  "failure_outcome c n base rng s =
    (case classify_class c of
       FAIL_PERMANENT \<Rightarrow> s\<lparr>dv_status := Job_failed\<rparr>
     | PAUSE_INSTANCE \<Rightarrow> s\<lparr>dv_status := Job_queued, dv_paused := True\<rparr>
     | _ \<Rightarrow> if isRetryBudgetExhausted n (dv_max s) then s\<lparr>dv_status := Job_failed\<rparr>
            else s\<lparr>dv_status := Job_queued, dv_delay := Some (backoff (int base) rng)\<rparr>)"

definition resolveFailure_job :: "nat \<Rightarrow> real \<Rightarrow> delivery \<Rightarrow> delivery" where
  "resolveFailure_job l rng s =
    (case dv_workers s l of
       Some (Ph_fail_job n c) \<Rightarrow>
         worker_done l (if holds_claim l s then failure_outcome c n (n - 1) rng s else s)
     | _ \<Rightarrow> s)"

section \<open>The reaper\<close>

definition reap_status :: "attempt_row option \<Rightarrow> delivery \<Rightarrow> job_status" where
  "reap_status row s =
    (case row of
       None \<Rightarrow> Job_queued
     | Some r \<Rightarrow> (case ar_state r of
         A_prepared \<Rightarrow> if dv_max s \<le> dv_attempts s then Job_failed else Job_queued
       | A_acked \<Rightarrow> Job_sent
       | _ \<Rightarrow> Job_needs_reconcile))"

text \<open>\<open>wp_reap_expired_leases\<close> on this job, once its lease has expired.\<close>

definition reap_expired_lease :: "delivery \<Rightarrow> delivery" where
  "reap_expired_lease s =
    (case dv_lease s of
       None \<Rightarrow> s
     | Some l \<Rightarrow>
         let row = find (\<lambda>r. ar_lease r = l) (dv_rows s) in
         if dv_status s \<noteq> Job_processing \<or>
            (case row of None \<Rightarrow> False | Some r \<Rightarrow> ar_state r \<in> {A_reconciled_sent, A_reconciled_lost, A_abandoned}) then s
         else s\<lparr>dv_status := reap_status row s, dv_lease := None,
                dv_redrive := (case row of Some r \<Rightarrow> if ar_state r = A_failed then dv_redrive s @ [(ar_no r, ar_error r)] else dv_redrive s
                               | None \<Rightarrow> dv_redrive s)\<rparr>)"

text \<open>\<open>reclassifyReapedFailure\<close>: every one of its writes carries the \<open>needs_reconcile\<close> predicate.\<close>

definition reclassifyReapedFailure :: "nat \<Rightarrow> string option \<Rightarrow> real \<Rightarrow> delivery \<Rightarrow> delivery" where
  "reclassifyReapedFailure n err rng s =
    (case err of
       None \<Rightarrow> s
     | Some c \<Rightarrow>
         if dv_status s = Job_needs_reconcile then failure_outcome c n n rng s
         else if classify_class c = PAUSE_INSTANCE then s\<lparr>dv_paused := True\<rparr> else s)"

definition reaper_redrive :: "real \<Rightarrow> delivery \<Rightarrow> delivery" where
  "reaper_redrive rng s =
    (case dv_redrive s of
       [] \<Rightarrow> s
     | (n, err) # rest \<Rightarrow> reclassifyReapedFailure n err rng (s\<lparr>dv_redrive := rest\<rparr>))"

section \<open>The reconciler\<close>

datatype reconcile_outcome = RO_resolve string | RO_ambiguous | RO_expired | RO_wait

definition decideReconciliation :: "nat \<Rightarrow> string list \<Rightarrow> int \<Rightarrow> int \<Rightarrow> int \<Rightarrow> reconcile_outcome" where
  "decideReconciliation siblingInflightCount evidenceRows nowMs dispatchedAt reconcileWindowMs =
    (if siblingInflightCount > 0 \<or> length evidenceRows > 1 then RO_ambiguous
     else (case evidenceRows of
             [e] \<Rightarrow> RO_resolve e
           | _ \<Rightarrow> if nowMs - dispatchedAt \<ge> reconcileWindowMs then RO_expired else RO_wait))"

text \<open>What the resolving transaction reads: the evidence row's owner, the rows of the re-check, whether the
  assignment matched, and the owner read again after it did not.\<close>

datatype owner = Own_job | Other_job | No_owner

record resolve_env =
  re_owner :: owner
  re_recheck :: "string list"
  re_assigned :: bool
  re_raced :: owner

definition needs_reconcile_to :: "job_status \<Rightarrow> unresolved_reason option \<Rightarrow> delivery \<Rightarrow> delivery" where
  "needs_reconcile_to st reason s =
    (if dv_status s = Job_needs_reconcile then s\<lparr>dv_status := st, dv_reason := reason\<rparr> else s)"

definition writeAmbiguousInTx :: "delivery \<Rightarrow> delivery" where
  "writeAmbiguousInTx s = needs_reconcile_to Job_blocked_needs_review (Some UR_ambiguous_echo_match) s"

definition writeResolvedFields :: "nat \<Rightarrow> delivery \<Rightarrow> delivery" where
  "writeResolvedFields n s = needs_reconcile_to Job_sent (dv_reason s) (set_state n A_reconciled_sent s)"

definition applyResolve :: "resolve_env \<Rightarrow> string \<Rightarrow> nat \<Rightarrow> delivery \<Rightarrow> delivery" where
  "applyResolve env evidence n s =
    (if re_owner env = Own_job then writeResolvedFields n s
     else if re_owner env = Other_job then writeAmbiguousInTx s
     else if re_recheck env \<noteq> [evidence] then writeAmbiguousInTx s
     else if re_assigned env \<or> re_raced env = Own_job then writeResolvedFields n s
     else writeAmbiguousInTx s)"

definition applyAmbiguous :: "delivery \<Rightarrow> delivery" where
  "applyAmbiguous s = needs_reconcile_to Job_blocked_needs_review (Some UR_ambiguous_echo_match) s"

definition applyExpired :: "nat \<Rightarrow> delivery \<Rightarrow> delivery" where
  "applyExpired n s =
    needs_reconcile_to Job_blocked_needs_review (Some UR_no_echo_evidence) (set_state n A_abandoned s)"

text \<open>The scan returns attempts in flight of a job waiting for evidence; the writes come later.\<close>

definition reconcile_scan :: "delivery \<Rightarrow> delivery" where
  "reconcile_scan s =
    s\<lparr>dv_candidates := (if dv_status s = Job_needs_reconcile
        then map ar_no (filter (\<lambda>r. ar_state r = A_dispatched) (dv_rows s)) else [])\<rparr>"

definition reconcile_apply :: "reconcile_outcome \<Rightarrow> resolve_env \<Rightarrow> delivery \<Rightarrow> delivery" where
  "reconcile_apply out env s =
    (case dv_candidates s of
       [] \<Rightarrow> s
     | n # rest \<Rightarrow>
         (let s1 = s\<lparr>dv_candidates := rest\<rparr> in
          case out of
            RO_resolve e \<Rightarrow> applyResolve env e n s1
          | RO_ambiguous \<Rightarrow> applyAmbiguous s1
          | RO_expired \<Rightarrow> applyExpired n s1
          | RO_wait \<Rightarrow> s1))"

section \<open>User actions and the other writers of the status\<close>

definition last_dispatched :: "attempt_row list \<Rightarrow> nat option" where
  "last_dispatched rows =
    (case map ar_no (filter (\<lambda>r. ar_state r = A_dispatched) rows) of [] \<Rightarrow> None | n # ns \<Rightarrow> Some (fold max ns n))"

text \<open>\<open>retryUnresolved\<close>; a job in another status makes the transaction throw and roll back.\<close>

definition retryUnresolved :: "delivery \<Rightarrow> delivery" where
  "retryUnresolved s =
    (if dv_status s \<noteq> Job_blocked_needs_review then s
     else (let s1 = (case last_dispatched (dv_rows s) of None \<Rightarrow> s | Some n \<Rightarrow> set_state n A_reconciled_lost s)
           in s1\<lparr>dv_status := Job_queued, dv_reason := None, dv_released := map ar_no (dv_rows s) @ dv_released s\<rparr>))"

definition discardUnresolved :: "delivery \<Rightarrow> delivery" where
  "discardUnresolved s =
    (if dv_status s \<noteq> Job_blocked_needs_review then s else s\<lparr>dv_status := Job_cancelled, dv_reason := None\<rparr>)"

definition epoch_sweep :: "delivery \<Rightarrow> delivery" where
  "epoch_sweep s =
    (if dv_status s = Job_queued
     then s\<lparr>dv_status := Job_blocked_needs_review, dv_reason := Some UR_session_epoch_advanced\<rparr> else s)"

definition restamp :: "delivery \<Rightarrow> delivery" where
  "restamp s =
    (if dv_status s = Job_blocked_needs_review \<and> dv_reason s = Some UR_session_epoch_advanced
     then s\<lparr>dv_status := Job_queued, dv_reason := None\<rparr> else s)"

definition cancel_queued :: "delivery \<Rightarrow> delivery" where
  "cancel_queued s = (if dv_status s = Job_queued then s\<lparr>dv_status := Job_cancelled\<rparr> else s)"

definition drain_markNeedsReconcile :: "delivery \<Rightarrow> delivery" where
  "drain_markNeedsReconcile s =
    (if dv_status s = Job_processing then s\<lparr>dv_status := Job_needs_reconcile\<rparr> else s)"

section \<open>Histories\<close>

datatype delivery_event =
    Dv_claim | Dv_defer nat | Dv_dispose nat bool | Dv_prepare nat bool | Dv_mark nat | Dv_send nat
  | Dv_settle nat settlement | Dv_ack_attempt nat | Dv_ack_job nat bool | Dv_fail_attempt nat
  | Dv_fail_job nat real | Dv_crash nat | Dv_reap | Dv_redrive real | Dv_reaper_crash
  | Dv_scan | Dv_reconcile reconcile_outcome resolve_env | Dv_retry | Dv_discard | Dv_epoch | Dv_restamp
  | Dv_cancel | Dv_drain | Dv_resume

text \<open>A deferral or disposal happens in the claim's own transaction, so its worker is still at the claim.\<close>

definition at_claim :: "nat \<Rightarrow> delivery \<Rightarrow> bool" where
  "at_claim l s \<longleftrightarrow> (case dv_workers s l of Some (Ph_claimed a) \<Rightarrow> True | _ \<Rightarrow> False)"

fun delivery_step :: "delivery_event \<Rightarrow> delivery \<Rightarrow> delivery" where
  "delivery_step Dv_claim s = claim_jobs s"
| "delivery_step (Dv_defer l) s = (if at_claim l s then worker_done l (defer_job l s) else s)"
| "delivery_step (Dv_dispose l c) s = (if at_claim l s then worker_done l (dispose_job l c s) else s)"
| "delivery_step (Dv_prepare l o1) s = dispatch_prepare l o1 s"
| "delivery_step (Dv_mark l) s = markDispatched l s"
| "delivery_step (Dv_send l) s = transport_send l s"
| "delivery_step (Dv_settle l o1) s = settle l o1 s"
| "delivery_step (Dv_ack_attempt l) s = resolveAck_attempt l s"
| "delivery_step (Dv_ack_job l priced) s = resolveAck_job l priced s"
| "delivery_step (Dv_fail_attempt l) s = resolveFailure_attempt l s"
| "delivery_step (Dv_fail_job l u) s = resolveFailure_job l u s"
| "delivery_step (Dv_crash l) s = worker_done l s"
| "delivery_step Dv_reap s = reap_expired_lease s"
| "delivery_step (Dv_redrive u) s = reaper_redrive u s"
| "delivery_step Dv_reaper_crash s = s\<lparr>dv_redrive := []\<rparr>"
| "delivery_step Dv_scan s = reconcile_scan s"
| "delivery_step (Dv_reconcile out env) s = reconcile_apply out env s"
| "delivery_step Dv_retry s = retryUnresolved s"
| "delivery_step Dv_discard s = discardUnresolved s"
| "delivery_step Dv_epoch s = epoch_sweep s"
| "delivery_step Dv_restamp s = restamp s"
| "delivery_step Dv_cancel s = cancel_queued s"
| "delivery_step Dv_drain s = drain_markNeedsReconcile s"
| "delivery_step Dv_resume s = s\<lparr>dv_paused := False\<rparr>"

definition delivery_new :: "nat \<Rightarrow> delivery" where
  "delivery_new maxAttempts =
    \<lparr>dv_status = Job_queued, dv_lease = None, dv_attempts = 0, dv_max = maxAttempts, dv_rows = [],
     dv_workers = (\<lambda>_. None), dv_nextLease = 0, dv_calls = [], dv_paused = False, dv_reason = None, dv_delay = None,
     dv_redrive = [], dv_candidates = [], dv_released = []\<rparr>"

inductive delivery_reachable :: "nat \<Rightarrow> delivery_event list \<Rightarrow> delivery \<Rightarrow> bool" for maxAttempts where
  start: "delivery_reachable maxAttempts [] (delivery_new maxAttempts)"
| step: "delivery_reachable maxAttempts es s \<Longrightarrow> delivery_reachable maxAttempts (es @ [e]) (delivery_step e s)"

inductive_cases delivery_reachable_snocE: "delivery_reachable maxAttempts (es @ [e]) s"
inductive_simps delivery_reachable_Nil: "delivery_reachable maxAttempts [] s"

lemma delivery_reachable_fold: "delivery_reachable m es (fold delivery_step es (delivery_new m))"
proof (induction es rule: rev_induct)
  case (snoc e es)
  then show ?case using delivery_reachable.step by simp
qed (simp add: delivery_reachable_Nil)

section \<open>Bookkeeping invariant\<close>

text \<open>Leases are fresh, attempt numbers and the leases of attempts are distinct, and every worker past the
  claim has the attempt row of its own lease; the worker holding the lease knows the live count.\<close>

fun phase_no :: "phase \<Rightarrow> nat option" where
  "phase_no (Ph_claimed a) = None"
| "phase_no (Ph_prepared n) = Some n"
| "phase_no (Ph_marked n) = Some n"
| "phase_no (Ph_sending n) = Some n"
| "phase_no (Ph_acking n) = Some n"
| "phase_no (Ph_ack_job n) = Some n"
| "phase_no (Ph_failing n c) = Some n"
| "phase_no (Ph_fail_job n c) = Some n"

definition row_ids :: "attempt_row list \<Rightarrow> (nat \<times> nat) list" where
  "row_ids rows = map (\<lambda>r. (ar_no r, ar_lease r)) rows"

definition worker_ok :: "delivery \<Rightarrow> nat \<Rightarrow> phase \<Rightarrow> bool" where
  "worker_ok s l p \<longleftrightarrow> l < dv_nextLease s \<and>
     (case p of Ph_claimed a \<Rightarrow> l \<notin> snd ` set (row_ids (dv_rows s)) \<and> (dv_lease s = Some l \<longrightarrow> a = dv_attempts s)
      | _ \<Rightarrow> (the (phase_no p), l) \<in> set (row_ids (dv_rows s)))"

definition book_inv :: "delivery \<Rightarrow> bool" where
  "book_inv s \<longleftrightarrow>
     (\<forall>l p. dv_workers s l = Some p \<longrightarrow> worker_ok s l p) \<and>
     (\<forall>l. dv_lease s = Some l \<longrightarrow> l < dv_nextLease s) \<and>
     (dv_status s = Job_processing \<longrightarrow> dv_lease s \<noteq> None) \<and>
     distinct (map fst (row_ids (dv_rows s))) \<and> distinct (map snd (row_ids (dv_rows s))) \<and>
     (\<forall>(n, l)\<in>set (row_ids (dv_rows s)). n \<le> dv_attempts s \<and> l < dv_nextLease s) \<and>
     dv_attempts s \<le> dv_max s + 1"

lemma row_ids_simps [simp]:
  "row_ids (set_rows n st err rows) = row_ids rows"
  "row_ids (dv_rows (set_state n st s)) = row_ids (dv_rows s)"
  "row_ids (rows @ [r]) = row_ids rows @ [(ar_no r, ar_lease r)]"
  by (auto simp: row_ids_def set_rows_def set_state_def)

lemma set_state_simps [simp]:
  "dv_status (set_state n st s) = dv_status s" "dv_lease (set_state n st s) = dv_lease s"
  "dv_attempts (set_state n st s) = dv_attempts s" "dv_max (set_state n st s) = dv_max s"
  "dv_workers (set_state n st s) = dv_workers s" "dv_nextLease (set_state n st s) = dv_nextLease s"
  "dv_calls (set_state n st s) = dv_calls s" "dv_reason (set_state n st s) = dv_reason s"
  "dv_released (set_state n st s) = dv_released s" "dv_redrive (set_state n st s) = dv_redrive s"
  by (simp_all add: set_state_def)

lemma row_of_None [simp]: "row_of n rows = None \<longleftrightarrow> n \<notin> fst ` set (row_ids rows)"
  by (auto simp: row_of_def row_ids_def find_None_iff image_iff)

lemma book_inv_worker: "book_inv s \<Longrightarrow> dv_workers s l = Some p \<Longrightarrow> worker_ok s l p"
  by (simp add: book_inv_def)

lemma book_inv_rows: "book_inv s \<Longrightarrow> (n, l) \<in> set (row_ids (dv_rows s)) \<Longrightarrow> n \<le> dv_attempts s \<and> l < dv_nextLease s"
  by (auto simp: book_inv_def)

lemma book_inv_rest: "book_inv s \<Longrightarrow> (\<forall>l. dv_lease s = Some l \<longrightarrow> l < dv_nextLease s) \<and>
     (dv_status s = Job_processing \<longrightarrow> dv_lease s \<noteq> None) \<and>
     distinct (map fst (row_ids (dv_rows s))) \<and> distinct (map snd (row_ids (dv_rows s))) \<and> dv_attempts s \<le> dv_max s + 1"
  by (simp add: book_inv_def)

lemma book_invI:
  assumes "\<And>l p. dv_workers s l = Some p \<Longrightarrow> worker_ok s l p" "\<And>l. dv_lease s = Some l \<Longrightarrow> l < dv_nextLease s"
    "dv_status s = Job_processing \<Longrightarrow> dv_lease s \<noteq> None"
    "distinct (map fst (row_ids (dv_rows s)))" "distinct (map snd (row_ids (dv_rows s)))"
    "\<And>n l. (n, l) \<in> set (row_ids (dv_rows s)) \<Longrightarrow> n \<le> dv_attempts s \<and> l < dv_nextLease s"
    "dv_attempts s \<le> dv_max s + 1"
  shows "book_inv s"
  using assms unfolding book_inv_def by auto

text \<open>The part of the bookkeeping a step may change without touching claims and attempt rows.\<close>

definition keeps_books :: "delivery \<Rightarrow> delivery \<Rightarrow> bool" where
  "keeps_books s s' \<longleftrightarrow>
     row_ids (dv_rows s') = row_ids (dv_rows s) \<and> dv_attempts s' = dv_attempts s \<and> dv_max s' = dv_max s \<and>
     dv_nextLease s' = dv_nextLease s \<and> (dv_lease s' = dv_lease s \<or> dv_lease s' = None) \<and>
     (dv_status s' = Job_processing \<longrightarrow> dv_status s = Job_processing \<and> dv_lease s' = dv_lease s) \<and>
     (\<forall>l p. dv_workers s' l = Some p \<longrightarrow>
        (\<exists>p0. dv_workers s l = Some p0 \<and> phase_no p = phase_no p0 \<and> (phase_no p = None \<longrightarrow> p = p0)))"

lemma keeps_books_refl [simp]: "keeps_books s s"
  by (simp add: keeps_books_def)

lemma keeps_books_trans: "keeps_books s t \<Longrightarrow> keeps_books t u \<Longrightarrow> keeps_books s u"
  unfolding keeps_books_def by (elim conjE, intro conjI) (metis, metis, metis, metis, metis, metis, metis)

lemma worker_ok_phase: "phase_no p = Some n \<Longrightarrow> worker_ok s l p \<longleftrightarrow> l < dv_nextLease s \<and> (n, l) \<in> set (row_ids (dv_rows s))"
  by (cases p) (auto simp: worker_ok_def)

lemma phase_no_None: "phase_no p = None \<longleftrightarrow> (\<exists>a. p = Ph_claimed a)"
  by (cases p) auto

lemma worker_ok_claimed: "worker_ok s l (Ph_claimed a) \<longleftrightarrow> l < dv_nextLease s \<and>
    l \<notin> snd ` set (row_ids (dv_rows s)) \<and> (dv_lease s = Some l \<longrightarrow> a = dv_attempts s)"
  by (simp add: worker_ok_def)

lemma keeps_books_inv:
  assumes k: "keeps_books s s'" and inv: "book_inv s"
  shows "book_inv s'"
proof -
  have eqs: "row_ids (dv_rows s') = row_ids (dv_rows s)" "dv_attempts s' = dv_attempts s" "dv_max s' = dv_max s"
    "dv_nextLease s' = dv_nextLease s"
    and lease: "dv_lease s' = dv_lease s \<or> dv_lease s' = None"
      "dv_status s' = Job_processing \<Longrightarrow> dv_status s = Job_processing \<and> dv_lease s' = dv_lease s"
    using k by (simp_all add: keeps_books_def)
  have w: "worker_ok s' l p" if p: "dv_workers s' l = Some p" for l p
  proof -
    obtain p0 where p0: "dv_workers s l = Some p0" "phase_no p = phase_no p0" "phase_no p = None \<longrightarrow> p = p0"
      using k p unfolding keeps_books_def by blast
    have ok: "worker_ok s l p0" using inv p0(1) by (simp add: book_inv_def)
    show ?thesis
    proof (cases "phase_no p")
      case None
      then obtain a where a: "p = Ph_claimed a" unfolding phase_no_None by blast
      have "worker_ok s l (Ph_claimed a)" using ok p0(3) None a by simp
      then show ?thesis using lease(1) unfolding a worker_ok_claimed eqs by auto
    next
      case (Some n)
      then show ?thesis using ok p0(2) worker_ok_phase [of p n s' l] worker_ok_phase [of p0 n s l] by (simp add: eqs)
    qed
  qed
  show ?thesis
    unfolding book_inv_def eqs
  proof (intro conjI)
    show "\<forall>l p. dv_workers s' l = Some p \<longrightarrow> worker_ok s' l p" using w by blast
    have "\<forall>l. dv_lease s = Some l \<longrightarrow> l < dv_nextLease s" using inv unfolding book_inv_def by (elim conjE)
    then show "\<forall>l. dv_lease s' = Some l \<longrightarrow> l < dv_nextLease s" using lease(1) by auto
    have "dv_status s = Job_processing \<longrightarrow> dv_lease s \<noteq> None" using inv unfolding book_inv_def by (elim conjE)
    then show "dv_status s' = Job_processing \<longrightarrow> dv_lease s' \<noteq> None" using lease(2) by auto
  qed (use inv in \<open>simp_all add: book_inv_def\<close>)
qed

lemma keeps_worker_done [simp]: "keeps_books s (worker_done l s)"
  by (simp add: keeps_books_def worker_done_def)

lemma keeps_to_phase: "dv_workers s l = Some p0 \<Longrightarrow> phase_no p = phase_no p0 \<Longrightarrow> phase_no p \<noteq> None \<Longrightarrow>
    keeps_books s (to_phase l p s)"
  by (auto simp: keeps_books_def to_phase_def)

lemma claim_inv:
  assumes inv: "book_inv s"
  shows "book_inv (claim_jobs s)"
proof (cases "dv_status s = Job_queued \<and> \<not> dv_paused s")
  case True
  let ?l = "dv_nextLease s"
  define s' where "s' = claim_jobs s"
  have s': "dv_workers s' = (dv_workers s)(?l \<mapsto> Ph_claimed (dv_attempts s))" "dv_rows s' = dv_rows s" "dv_lease s' = Some ?l"
    "dv_nextLease s' = ?l + 1" "dv_attempts s' = dv_attempts s" "dv_max s' = dv_max s"
    using True by (simp_all add: s'_def claim_jobs_def to_phase_def)
  have rows: "?l \<notin> snd ` set (row_ids (dv_rows s))"
    using book_inv_rows [OF inv] by fastforce
  have "book_inv s'"
  proof (rule book_invI)
    fix l p assume p: "dv_workers s' l = Some p"
    show "worker_ok s' l p"
    proof (cases "l = ?l")
      case True
      then have "p = Ph_claimed (dv_attempts s)" using p by (simp add: s')
      then show ?thesis using rows True by (simp add: s' worker_ok_claimed)
    next
      case False
      then have "worker_ok s l p" using p book_inv_worker [OF inv] by (simp add: s')
      then show ?thesis using False by (cases p) (auto simp: worker_ok_def s')
    qed
  next
    fix n l assume "(n, l) \<in> set (row_ids (dv_rows s'))"
    then show "n \<le> dv_attempts s' \<and> l < dv_nextLease s'" using book_inv_rows [OF inv, of n l] by (simp add: s')
  qed (use book_inv_rest [OF inv] in \<open>simp_all add: s'\<close>)
  then show ?thesis by (simp add: s'_def)
qed (use inv in \<open>auto simp: claim_jobs_def\<close>)

lemma prepare_inv:
  assumes inv: "book_inv s" and w: "dv_workers s l = Some (Ph_claimed a)" and l: "dv_lease s = Some l"
    and m: "dv_attempts s < dv_max s + 1"
    and s': "dv_workers s' = (dv_workers s)(l \<mapsto> Ph_prepared (a + 1))" "row_ids (dv_rows s') = row_ids (dv_rows s) @ [(a + 1, l)]"
      "dv_attempts s' = dv_attempts s + 1" "dv_max s' = dv_max s" "dv_lease s' = dv_lease s" "dv_nextLease s' = dv_nextLease s"
  shows "book_inv s'"
proof -
  have a: "a = dv_attempts s" and l': "l < dv_nextLease s" "l \<notin> snd ` set (row_ids (dv_rows s))"
    using book_inv_worker [OF inv w] l by (auto simp: worker_ok_claimed)
  have new: "a + 1 \<notin> fst ` set (row_ids (dv_rows s))" using book_inv_rows [OF inv] a by fastforce
  show ?thesis
  proof (rule book_invI)
    fix k p assume p: "dv_workers s' k = Some p"
    show "worker_ok s' k p"
    proof (cases "k = l")
      case True
      then show ?thesis using p l' by (auto simp: s' worker_ok_def)
    next
      case False
      then have "worker_ok s k p" using p book_inv_worker [OF inv] by (simp add: s')
      then show ?thesis using False l by (cases p) (auto simp: worker_ok_def s')
    qed
  next
    fix n k assume "(n, k) \<in> set (row_ids (dv_rows s'))"
    then show "n \<le> dv_attempts s' \<and> k < dv_nextLease s'"
      using book_inv_rows [OF inv, of n k] a l' by (auto simp: s')
  qed (use book_inv_rest [OF inv] l l' m new in \<open>auto simp: s'\<close>)
qed

lemma keeps_books_simple:
  assumes "row_ids (dv_rows s') = row_ids (dv_rows s)" "dv_attempts s' = dv_attempts s" "dv_max s' = dv_max s"
    "dv_nextLease s' = dv_nextLease s" "dv_workers s' = dv_workers s" "dv_lease s' = dv_lease s \<or> dv_lease s' = None"
    "dv_status s' = Job_processing \<Longrightarrow> dv_status s = Job_processing \<and> dv_lease s' = dv_lease s"
  shows "keeps_books s s'"
  using assms by (auto simp: keeps_books_def)

lemma keeps_set_state [simp]: "keeps_books s (set_state n st s)"
  by (rule keeps_books_simple) auto

lemma failure_outcome_status: "dv_status (failure_outcome c n b u s) \<in> {Job_queued, Job_failed}"
  by (simp add: failure_outcome_def split: retry_class.split)

lemma failure_outcome_simps [simp]:
  "dv_rows (failure_outcome c n b u s) = dv_rows s" "dv_lease (failure_outcome c n b u s) = dv_lease s"
  "dv_attempts (failure_outcome c n b u s) = dv_attempts s" "dv_max (failure_outcome c n b u s) = dv_max s"
  "dv_workers (failure_outcome c n b u s) = dv_workers s" "dv_nextLease (failure_outcome c n b u s) = dv_nextLease s"
  "dv_calls (failure_outcome c n b u s) = dv_calls s" "dv_released (failure_outcome c n b u s) = dv_released s"
  "dv_reason (failure_outcome c n b u s) = dv_reason s" "dv_redrive (failure_outcome c n b u s) = dv_redrive s"
  by (simp_all add: failure_outcome_def split: retry_class.split)

lemma keeps_failure_outcome [simp]: "keeps_books s (failure_outcome c n b u s)"
  by (rule keeps_books_simple) (use failure_outcome_status [of c n b u s] in auto)

lemma needs_reconcile_to_simps [simp]:
  "dv_rows (needs_reconcile_to st r s) = dv_rows s" "dv_lease (needs_reconcile_to st r s) = dv_lease s"
  "dv_attempts (needs_reconcile_to st r s) = dv_attempts s" "dv_max (needs_reconcile_to st r s) = dv_max s"
  "dv_workers (needs_reconcile_to st r s) = dv_workers s" "dv_nextLease (needs_reconcile_to st r s) = dv_nextLease s"
  "dv_calls (needs_reconcile_to st r s) = dv_calls s" "dv_released (needs_reconcile_to st r s) = dv_released s"
  "dv_redrive (needs_reconcile_to st r s) = dv_redrive s"
  "dv_status (needs_reconcile_to st r s) = (if dv_status s = Job_needs_reconcile then st else dv_status s)"
  by (simp_all add: needs_reconcile_to_def)

lemma keeps_needs_reconcile_to [simp]: "st \<noteq> Job_processing \<Longrightarrow> keeps_books s (needs_reconcile_to st r s)"
  by (rule keeps_books_simple) (auto split: if_splits)

lemma keeps_then_done: "keeps_books s t \<Longrightarrow> keeps_books s (worker_done l t)"
  using keeps_books_trans keeps_worker_done by blast

lemma keeps_then_phase: "keeps_books s t \<Longrightarrow> dv_workers t = dv_workers s \<Longrightarrow> dv_workers s l = Some p0 \<Longrightarrow>
    phase_no p = phase_no p0 \<Longrightarrow> phase_no p \<noteq> None \<Longrightarrow> keeps_books s (to_phase l p t)"
  using keeps_books_trans keeps_to_phase by metis

lemma dispatch_prepare_inv:
  assumes inv: "book_inv s"
  shows "book_inv (dispatch_prepare l optedOut s)"
proof (cases "\<exists>a. dv_workers s l = Some (Ph_claimed a)")
  case True
  then obtain a where w: "dv_workers s l = Some (Ph_claimed a)" by blast
  obtain c s1 where pre: "runOptOutPrecheck l optedOut s = (c, s1)" by fastforce
  have c: "c \<Longrightarrow> keeps_books s s1" "\<not> c \<Longrightarrow> s1 = s"
    using pre by (auto simp: runOptOutPrecheck_def split: if_splits intro!: keeps_books_simple)
  show ?thesis
  proof (cases c)
    case True
    then show ?thesis using w pre keeps_books_inv [OF keeps_then_done [OF c(1)] inv]
      by (simp add: dispatch_prepare_def runPrecheckAndPrepare_def)
  next
    case False
    show ?thesis
    proof (cases "prepareAndIncrement l (a + 1) s")
      case (Inl e)
      then show ?thesis using w pre c(2) False keeps_books_inv [OF keeps_worker_done inv]
        by (simp add: dispatch_prepare_def runPrecheckAndPrepare_def)
    next
      case (Inr s2)
      then have ok: "dv_lease s = Some l" "dv_attempts s < dv_max s + 1"
        and s2: "s2 = s\<lparr>dv_rows := dv_rows s @ [\<lparr>ar_no = a + 1, ar_lease = l, ar_state = A_prepared, ar_error = None\<rparr>],
                dv_attempts := dv_attempts s + 1\<rparr>"
        by (auto simp: prepareAndIncrement_def split: if_splits)
      have "book_inv (to_phase l (Ph_prepared (a + 1)) s2)"
        by (rule prepare_inv [OF inv w ok]) (simp_all add: s2 to_phase_def)
      then show ?thesis using w pre c(2) False Inr by (simp add: dispatch_prepare_def runPrecheckAndPrepare_def)
    qed
  qed
next
  case False
  then show ?thesis using inv by (auto simp: dispatch_prepare_def split: option.split phase.split)
qed

lemma writeResolved_keeps: "keeps_books s (writeResolvedFields n s)"
  unfolding writeResolvedFields_def
  by (rule keeps_books_trans [OF keeps_set_state keeps_needs_reconcile_to]) simp

lemma reconcile_keeps: "keeps_books s (reconcile_apply out env s)"
proof (cases "dv_candidates s")
  case (Cons n rest)
  have 1: "keeps_books s (s\<lparr>dv_candidates := rest\<rparr>)" by (rule keeps_books_simple) auto
  have 2: "keeps_books t (applyResolve env e n t)" for t e
    by (simp add: applyResolve_def writeAmbiguousInTx_def writeResolved_keeps)
  have 3: "keeps_books t (applyExpired n t)" for t
    unfolding applyExpired_def by (rule keeps_books_trans [OF keeps_set_state keeps_needs_reconcile_to]) simp
  show ?thesis
    using keeps_books_trans [OF 1 2] keeps_books_trans [OF 1 3] keeps_books_trans [OF 1 keeps_needs_reconcile_to]
    by (cases out) (simp_all add: reconcile_apply_def Cons applyAmbiguous_def 1)
qed (simp add: reconcile_apply_def)

lemma redrive_keeps: "keeps_books s (reaper_redrive u s)"
proof (cases "dv_redrive s")
  case (Cons x rest)
  have 1: "keeps_books s (s\<lparr>dv_redrive := rest\<rparr>)" by (rule keeps_books_simple) auto
  have 2: "keeps_books t (reclassifyReapedFailure n err u t)" for n err t
    by (cases err) (auto simp: reclassifyReapedFailure_def intro: keeps_books_simple)
  show ?thesis using keeps_books_trans [OF 1 2] by (simp add: reaper_redrive_def Cons case_prod_beta)
qed (simp add: reaper_redrive_def)

lemma retry_keeps: "keeps_books s (retryUnresolved s)"
  by (auto simp: retryUnresolved_def Let_def split: option.split intro!: keeps_books_simple)

text \<open>Every step but a claim and a preparation keeps the books.\<close>

lemma other_steps_keep:
  assumes "e \<noteq> Dv_claim" "\<And>l o1. e \<noteq> Dv_prepare l o1"
  shows "keeps_books s (delivery_step e s)"
proof (cases e)
  case (Dv_defer l)
  then show ?thesis by (auto simp: defer_job_def holds_claim_def intro!: keeps_then_done keeps_books_simple)
next
  case (Dv_dispose l c)
  then show ?thesis by (auto simp: dispose_job_def holds_claim_def intro!: keeps_then_done keeps_books_simple)
next
  case (Dv_mark l)
  then show ?thesis by (auto simp: markDispatched_def split: option.split phase.split intro: keeps_then_phase)
next
  case (Dv_send l)
  then show ?thesis
    by (auto simp: transport_send_def split: option.split phase.split intro!: keeps_then_phase keeps_books_simple)
next
  case (Dv_settle l o1)
  then show ?thesis by (auto simp: settle_def split: option.split phase.split settlement.split intro!: keeps_to_phase)
next
  case (Dv_ack_attempt l)
  then show ?thesis
    by (auto simp: resolveAck_attempt_def markAttempt_def Let_def split: option.split phase.split
        intro!: keeps_then_done keeps_then_phase keeps_books_simple)
next
  case (Dv_ack_job l priced)
  then show ?thesis
    by (auto simp: resolveAck_job_def split: option.split phase.split intro!: keeps_then_done keeps_books_simple)
next
  case (Dv_fail_attempt l)
  then show ?thesis
    by (auto simp: resolveFailure_attempt_def markAttempt_def Let_def split: option.split phase.split
        intro!: keeps_then_phase keeps_books_simple)
next
  case (Dv_fail_job l u)
  then show ?thesis by (auto simp: resolveFailure_job_def split: option.split phase.split intro!: keeps_then_done)
next
  case Dv_reap
  have "reap_status row s \<noteq> Job_processing" for row
    by (simp add: reap_status_def split: option.split attempt_state.split)
  then show ?thesis using Dv_reap
    by (auto simp: reap_expired_lease_def Let_def split: option.split intro!: keeps_books_simple)
next
  case (Dv_reconcile out env)
  then show ?thesis by (simp add: reconcile_keeps)
next
  case (Dv_redrive u)
  then show ?thesis by (simp add: redrive_keeps)
next
  case Dv_retry
  then show ?thesis by (simp add: retry_keeps)
qed (use assms in \<open>auto simp: reconcile_scan_def discardUnresolved_def epoch_sweep_def restamp_def cancel_queued_def
    drain_markNeedsReconcile_def intro!: keeps_books_simple\<close>)

lemma delivery_step_books: "book_inv s \<Longrightarrow> book_inv (delivery_step e s)"
proof (cases "e = Dv_claim \<or> (\<exists>l o1. e = Dv_prepare l o1)")
  case True
  assume "book_inv s"
  then show ?thesis using True claim_inv dispatch_prepare_inv by auto
next
  case False
  assume "book_inv s"
  then show ?thesis using False keeps_books_inv [OF other_steps_keep] by blast
qed

lemma reachable_books: "delivery_reachable m es s \<Longrightarrow> book_inv s \<and> dv_max s = m"
proof (induction rule: delivery_reachable.induct)
  case start
  show ?case by (simp add: book_inv_def delivery_new_def row_ids_def)
next
  case (step es s e)
  have "dv_max (delivery_step e s) = dv_max s"
  proof (cases "e = Dv_claim \<or> (\<exists>l o1. e = Dv_prepare l o1)")
    case True
    then show ?thesis
      by (auto simp: claim_jobs_def to_phase_def dispatch_prepare_def worker_done_def runPrecheckAndPrepare_def runOptOutPrecheck_def
          prepareAndIncrement_def Let_def split: option.splits phase.splits sum.splits if_splits prod.splits bool.splits)
  next
    case False
    then show ?thesis using other_steps_keep [of e s] by (simp add: keeps_books_def)
  qed
  then show ?case using step delivery_step_books by simp
qed

section \<open>Unresolved sends\<close>

text \<open>The attempts that were handed to the provider, or are about to be, and have neither failed for a named
  reason nor been given up by a user.\<close>

definition opens :: "delivery \<Rightarrow> nat set" where
  "opens s = ({n. \<exists>l. dv_workers s l = Some (Ph_prepared n) \<or> dv_workers s l = Some (Ph_marked n)} \<union> set (dv_calls s))
     - set (dv_released s)"

text \<open>
  The timing the system relies on: the reaper does not reclaim a lease while its worker stands between
  \<open>prepareAndIncrement\<close> and \<open>markDispatched\<close>; a worker does not prepare a job that was drained away from it;
  a reaped failure is re-driven before the job is claimed again; and the provider gives a definite outcome.
\<close>

fun prompt :: "delivery_event \<Rightarrow> delivery \<Rightarrow> bool" where
  "prompt Dv_claim s \<longleftrightarrow> dv_redrive s = []"
| "prompt (Dv_prepare l o1) s \<longleftrightarrow> (dv_lease s = Some l \<longrightarrow> dv_status s = Job_processing)"
| "prompt Dv_reap s \<longleftrightarrow>
     (case dv_lease s of None \<Rightarrow> True | Some l \<Rightarrow> (case dv_workers s l of Some (Ph_prepared n) \<Rightarrow> False | _ \<Rightarrow> True))"
| "prompt (Dv_settle l o1) s \<longleftrightarrow> o1 \<noteq> Timed_out \<and> o1 \<noteq> Send_error ''unknown''"
| "prompt _ s \<longleftrightarrow> True"

fun prompt_run :: "delivery_event list \<Rightarrow> delivery \<Rightarrow> bool" where
  "prompt_run [] s = True"
| "prompt_run (e # es) s = (prompt e s \<and> prompt_run es (delivery_step e s))"

lemma prompt_run_snoc: "prompt_run (es @ [e]) s \<longleftrightarrow> prompt_run es s \<and> prompt e (fold delivery_step es s)"
  by (induction es arbitrary: s) auto

section \<open>No attempt is sent twice\<close>

definition calls_inv :: "delivery \<Rightarrow> bool" where
  "calls_inv s \<longleftrightarrow> distinct (dv_calls s) \<and> set (dv_calls s) \<subseteq> fst ` set (row_ids (dv_rows s)) \<and>
     (\<forall>l n. dv_workers s l = Some (Ph_prepared n) \<or> dv_workers s l = Some (Ph_marked n) \<longrightarrow> n \<notin> set (dv_calls s)) \<and>
     (\<forall>r\<in>set (dv_rows s). ar_state r = A_prepared \<longrightarrow> ar_no r \<notin> set (dv_calls s) \<and>
        (\<forall>l. dv_workers s l \<noteq> Some (Ph_marked (ar_no r))))"

lemma row_no_mem: "r \<in> set rows \<Longrightarrow> ar_no r \<in> fst ` set (row_ids rows)"
  by (force simp: row_ids_def)

text \<open>A step that adds no call, prepares or marks no worker, and resets no attempt to \<open>prepared\<close>.\<close>

lemma calls_frame:
  assumes "calls_inv s" "dv_calls s' = dv_calls s" "set (row_ids (dv_rows s)) \<subseteq> set (row_ids (dv_rows s'))"
    and "\<And>l n. dv_workers s' l = Some (Ph_prepared n) \<Longrightarrow> dv_workers s l = Some (Ph_prepared n)"
    and "\<And>l n. dv_workers s' l = Some (Ph_marked n) \<Longrightarrow> dv_workers s l = Some (Ph_marked n)"
    and "\<And>r. r \<in> set (dv_rows s') \<Longrightarrow> ar_state r = A_prepared \<Longrightarrow> r \<in> set (dv_rows s)"
  shows "calls_inv s'"
  using assms unfolding calls_inv_def by (metis image_mono order_trans)

definition quiet :: "delivery \<Rightarrow> delivery \<Rightarrow> bool" where
  "quiet s s' \<longleftrightarrow> dv_calls s' = dv_calls s \<and> set (row_ids (dv_rows s)) \<subseteq> set (row_ids (dv_rows s')) \<and>
     (\<forall>l n. (dv_workers s' l = Some (Ph_prepared n) \<longrightarrow> dv_workers s l = Some (Ph_prepared n)) \<and>
        (dv_workers s' l = Some (Ph_marked n) \<longrightarrow> dv_workers s l = Some (Ph_marked n))) \<and>
     (\<forall>r\<in>set (dv_rows s'). ar_state r = A_prepared \<longrightarrow> r \<in> set (dv_rows s)) \<and>
     set (dv_released s) \<subseteq> set (dv_released s')"

lemma quiet_refl [simp]: "quiet s s"
  by (simp add: quiet_def)

lemma quiet_trans: "quiet s t \<Longrightarrow> quiet t u \<Longrightarrow> quiet s u"
  unfolding quiet_def by (elim conjE, intro conjI) (metis, blast, blast, blast, blast)

lemma quiet_calls: "quiet s s' \<Longrightarrow> calls_inv s \<Longrightarrow> calls_inv s'"
  using calls_frame [of s s'] unfolding quiet_def by blast

lemma quiet_opens: "quiet s s' \<Longrightarrow> opens s' \<subseteq> opens s"
  by (auto simp: quiet_def opens_def)

lemma quiet_simple:
  assumes "dv_calls s' = dv_calls s" "dv_rows s' = dv_rows s" "dv_workers s' = dv_workers s" "set (dv_released s) \<subseteq> set (dv_released s')"
  shows "quiet s s'"
  using assms by (simp add: quiet_def)

lemma quiet_set_state: "st \<noteq> A_prepared \<Longrightarrow> quiet s (set_state n st s)"
  by (auto simp: quiet_def set_state_def) (auto simp: row_ids_def)

lemma quiet_set_rows: "st \<noteq> A_prepared \<Longrightarrow> quiet s (s\<lparr>dv_rows := set_rows n st err (dv_rows s)\<rparr>)"
  by (auto simp: quiet_def set_rows_def) (auto simp: row_ids_def)

lemma quiet_worker_done: "quiet s (worker_done l s)"
  by (auto simp: quiet_def worker_done_def)

lemma quiet_to_phase: "(\<And>n. p \<noteq> Ph_prepared n \<and> p \<noteq> Ph_marked n) \<Longrightarrow> quiet s (to_phase l p s)"
  by (auto simp: quiet_def to_phase_def)

lemma quiet_then_done: "quiet s t \<Longrightarrow> quiet s (worker_done l t)"
  using quiet_trans quiet_worker_done by blast

lemma quiet_then_phase: "quiet s t \<Longrightarrow> (\<And>n. p \<noteq> Ph_prepared n \<and> p \<noteq> Ph_marked n) \<Longrightarrow> quiet s (to_phase l p t)"
  using quiet_trans quiet_to_phase by blast

lemma quiet_needs_reconcile_to: "quiet s (needs_reconcile_to st r s)"
  by (rule quiet_simple) auto

lemma quiet_failure_outcome: "quiet s (failure_outcome c n b u s)"
  by (rule quiet_simple) auto

lemma quiet_writeResolved: "quiet s (writeResolvedFields n s)"
  unfolding writeResolvedFields_def by (rule quiet_trans [OF quiet_set_state quiet_needs_reconcile_to]) simp

lemma quiet_reconcile: "quiet s (reconcile_apply out env s)"
proof (cases "dv_candidates s")
  case (Cons n rest)
  have 1: "quiet s (s\<lparr>dv_candidates := rest\<rparr>)" by (rule quiet_simple) auto
  have 2: "quiet t (applyResolve env e n t)" for t e
    by (simp add: applyResolve_def writeAmbiguousInTx_def quiet_writeResolved quiet_needs_reconcile_to)
  have 3: "quiet t (applyExpired n t)" for t
    unfolding applyExpired_def by (rule quiet_trans [OF quiet_set_state quiet_needs_reconcile_to]) simp
  show ?thesis
    using quiet_trans [OF 1 2] quiet_trans [OF 1 3] quiet_trans [OF 1 quiet_needs_reconcile_to]
    by (cases out) (simp_all add: reconcile_apply_def Cons applyAmbiguous_def 1)
qed (simp add: reconcile_apply_def)

lemma quiet_redrive: "quiet s (reaper_redrive u s)"
proof (cases "dv_redrive s")
  case (Cons x rest)
  have 1: "quiet s (s\<lparr>dv_redrive := rest\<rparr>)" by (rule quiet_simple) auto
  have 2: "quiet t (reclassifyReapedFailure n err u t)" for n err t
    by (cases err) (auto simp: reclassifyReapedFailure_def quiet_failure_outcome intro: quiet_simple)
  show ?thesis using quiet_trans [OF 1 2] by (simp add: reaper_redrive_def Cons case_prod_beta)
qed (simp add: reaper_redrive_def)

lemma quiet_retry: "quiet s (retryUnresolved s)"
proof -
  have "quiet s (case last_dispatched (dv_rows s) of None \<Rightarrow> s | Some n \<Rightarrow> set_state n A_reconciled_lost s)" (is "quiet s ?t")
    by (simp add: quiet_set_state split: option.split)
  moreover have "quiet ?t (?t\<lparr>dv_status := Job_queued, dv_reason := None, dv_released := map ar_no (dv_rows s) @ dv_released s\<rparr>)"
    by (rule quiet_simple) (auto split: option.split)
  ultimately show ?thesis using quiet_trans by (fastforce simp: retryUnresolved_def Let_def)
qed

text \<open>Only a preparation, a marking and a provider call are not quiet.\<close>

lemma other_steps_quiet:
  assumes "\<And>l o1. e \<noteq> Dv_prepare l o1" "\<And>l. e \<noteq> Dv_mark l" "\<And>l. e \<noteq> Dv_send l"
  shows "quiet s (delivery_step e s)"
proof (cases e)
  case Dv_claim
  then show ?thesis by (auto simp: claim_jobs_def intro!: quiet_then_phase quiet_simple)
next
  case (Dv_defer l)
  then show ?thesis by (auto simp: defer_job_def intro!: quiet_then_done quiet_simple)
next
  case (Dv_dispose l c)
  then show ?thesis by (auto simp: dispose_job_def intro!: quiet_then_done quiet_simple)
next
  case (Dv_settle l o1)
  then show ?thesis by (auto simp: settle_def split: option.split phase.split settlement.split intro!: quiet_to_phase)
next
  case (Dv_ack_attempt l)
  then show ?thesis
    by (auto simp: resolveAck_attempt_def markAttempt_def Let_def split: option.split phase.split
        intro!: quiet_then_done quiet_then_phase quiet_set_rows)
next
  case (Dv_ack_job l priced)
  then show ?thesis
    by (auto simp: resolveAck_job_def split: option.split phase.split intro!: quiet_then_done quiet_simple)
next
  case (Dv_fail_attempt l)
  have "quiet s (s\<lparr>dv_rows := set_rows n A_failed c (dv_rows s), dv_released := n # dv_released s\<rparr>)" for n c
    by (rule quiet_trans [OF quiet_set_rows [of A_failed s n c] quiet_simple]) auto
  then show ?thesis using Dv_fail_attempt
    by (auto simp: resolveFailure_attempt_def markAttempt_def Let_def split: option.split phase.split
        intro!: quiet_then_phase quiet_set_rows)
next
  case (Dv_fail_job l u)
  then show ?thesis
    by (auto simp: resolveFailure_job_def quiet_failure_outcome split: option.split phase.split intro!: quiet_then_done)
next
  case Dv_reap
  then show ?thesis by (auto simp: reap_expired_lease_def Let_def split: option.split intro!: quiet_simple)
next
  case (Dv_reconcile out env)
  then show ?thesis by (simp add: quiet_reconcile)
next
  case (Dv_redrive u)
  then show ?thesis by (simp add: quiet_redrive)
next
  case Dv_retry
  then show ?thesis by (simp add: quiet_retry)
qed (use assms in \<open>auto simp: reconcile_scan_def discardUnresolved_def epoch_sweep_def restamp_def cancel_queued_def
    drain_markNeedsReconcile_def quiet_worker_done intro!: quiet_simple\<close>)


lemma phase_row:
  assumes "book_inv s" "dv_workers s l = Some p" "phase_no p = Some n"
  shows "(n, l) \<in> set (row_ids (dv_rows s))"
  using book_inv_worker [OF assms(1,2)] worker_ok_phase [OF assms(3)] by simp

lemma row_ids_inj:
  assumes "book_inv s" "(n, l) \<in> set (row_ids (dv_rows s))" "(m, k) \<in> set (row_ids (dv_rows s))"
  shows "n = m \<longleftrightarrow> l = k"
proof -
  have "inj_on fst (set (row_ids (dv_rows s)))" "inj_on snd (set (row_ids (dv_rows s)))"
    using book_inv_rest [OF assms(1)] by (simp_all add: distinct_map)
  then have "n = m \<Longrightarrow> (n, l) = (m, k)" "l = k \<Longrightarrow> (n, l) = (m, k)"
    using inj_onD [of fst _ "(n, l)" "(m, k)"] inj_onD [of snd _ "(n, l)" "(m, k)"] assms(2,3) by simp_all
  then show ?thesis by auto
qed

text \<open>The effect of a preparation: nothing but a quiet end of the worker, or one new prepared attempt.\<close>

lemma dispatch_prepare_cases:
  assumes inv: "book_inv s"
  shows "(quiet s (dispatch_prepare l o1 s) \<and> keeps_books s (dispatch_prepare l o1 s) \<and>
       dv_redrive (dispatch_prepare l o1 s) = dv_redrive s \<and> dv_reason (dispatch_prepare l o1 s) = dv_reason s \<and>
       (dv_status (dispatch_prepare l o1 s) = dv_status s \<or> dv_status (dispatch_prepare l o1 s) = Job_cancelled)) \<or>
    (dv_lease s = Some l \<and> dv_workers s l = Some (Ph_claimed (dv_attempts s)) \<and> dv_attempts s < dv_max s + 1 \<and>
     dispatch_prepare l o1 s = to_phase l (Ph_prepared (dv_attempts s + 1))
       (s\<lparr>dv_rows := dv_rows s @ [\<lparr>ar_no = dv_attempts s + 1, ar_lease = l, ar_state = A_prepared, ar_error = None\<rparr>],
          dv_attempts := dv_attempts s + 1\<rparr>))"
proof (cases "\<exists>a. dv_workers s l = Some (Ph_claimed a)")
  case True
  then obtain a where w: "dv_workers s l = Some (Ph_claimed a)" by blast
  have a: "dv_lease s = Some l \<Longrightarrow> a = dv_attempts s"
    using book_inv_worker [OF inv w] by (simp add: worker_ok_claimed)
  have done1: "quiet s (worker_done l s) \<and> keeps_books s (worker_done l s) \<and> dv_redrive (worker_done l s) = dv_redrive s \<and>
      dv_reason (worker_done l s) = dv_reason s \<and> dv_status (worker_done l s) = dv_status s"
    using quiet_worker_done [of s l] keeps_worker_done [of s l] by (simp add: worker_done_def)
  show ?thesis
  proof (cases "o1 \<and> holds_claim l s")
    case True
    then have eq: "dispatch_prepare l o1 s = worker_done l (s\<lparr>dv_status := Job_cancelled, dv_lease := None\<rparr>)"
      using w by (simp add: dispatch_prepare_def runPrecheckAndPrepare_def runOptOutPrecheck_def)
    have "keeps_books s (dispatch_prepare l o1 s)" "quiet s (dispatch_prepare l o1 s)"
      unfolding eq by (auto intro!: keeps_then_done keeps_books_simple quiet_then_done quiet_simple)
    then show ?thesis by (simp add: eq worker_done_def)
  next
    case False
    then have eq: "dispatch_prepare l o1 s = (case prepareAndIncrement l (a + 1) s of
        Inr s1 \<Rightarrow> to_phase l (Ph_prepared (a + 1)) s1 | Inl e \<Rightarrow> worker_done l s)"
      using w by (auto simp: dispatch_prepare_def runPrecheckAndPrepare_def runOptOutPrecheck_def split: sum.split)
    show ?thesis
    proof (cases "prepareAndIncrement l (a + 1) s")
      case (Inl e)
      then show ?thesis using done1 by (simp add: eq)
    next
      case (Inr s1)
      then show ?thesis using a w by (auto simp: eq prepareAndIncrement_def split: if_splits)
    qed
  qed
next
  case False
  then have "dispatch_prepare l o1 s = s" by (auto simp: dispatch_prepare_def split: option.split phase.split)
  then show ?thesis by simp
qed

lemma new_attempt_fresh: "book_inv s \<Longrightarrow> dv_attempts s + 1 \<notin> fst ` set (row_ids (dv_rows s))"
  using book_inv_rows by fastforce

lemma mark_eq: "markDispatched l s = (case dv_workers s l of
    Some (Ph_prepared n) \<Rightarrow> to_phase l (Ph_marked n) (set_state n A_dispatched s) | _ \<Rightarrow> s)"
  by (simp add: markDispatched_def)

lemma calls_invI:
  assumes "distinct (dv_calls s)" "set (dv_calls s) \<subseteq> fst ` set (row_ids (dv_rows s))"
    and "\<And>l n. dv_workers s l = Some (Ph_prepared n) \<Longrightarrow> n \<notin> set (dv_calls s)"
    and "\<And>l n. dv_workers s l = Some (Ph_marked n) \<Longrightarrow> n \<notin> set (dv_calls s)"
    and "\<And>r. r \<in> set (dv_rows s) \<Longrightarrow> ar_state r = A_prepared \<Longrightarrow> ar_no r \<notin> set (dv_calls s)"
    and "\<And>r l. r \<in> set (dv_rows s) \<Longrightarrow> ar_state r = A_prepared \<Longrightarrow> dv_workers s l \<noteq> Some (Ph_marked (ar_no r))"
  shows "calls_inv s"
  using assms unfolding calls_inv_def by blast

lemma calls_invD:
  assumes "calls_inv s"
  shows "distinct (dv_calls s)" "set (dv_calls s) \<subseteq> fst ` set (row_ids (dv_rows s))"
    "dv_workers s l = Some (Ph_prepared n) \<Longrightarrow> n \<notin> set (dv_calls s)"
    "dv_workers s l = Some (Ph_marked n) \<Longrightarrow> n \<notin> set (dv_calls s)"
    "r \<in> set (dv_rows s) \<Longrightarrow> ar_state r = A_prepared \<Longrightarrow> ar_no r \<notin> set (dv_calls s)"
    "r \<in> set (dv_rows s) \<Longrightarrow> ar_state r = A_prepared \<Longrightarrow> dv_workers s l \<noteq> Some (Ph_marked (ar_no r))"
  using assms unfolding calls_inv_def by blast+

lemma calls_step:
  assumes inv: "book_inv s" and c: "calls_inv s"
  shows "calls_inv (delivery_step e s)"
proof -
  consider (prep) l o1 where "e = Dv_prepare l o1" | (mark) l where "e = Dv_mark l" | (send) l where "e = Dv_send l"
    | (quiet) "quiet s (delivery_step e s)" using other_steps_quiet by blast
  then show ?thesis
  proof cases
    case prep
    show ?thesis
    proof (cases "quiet s (dispatch_prepare l o1 s)")
      case True
      then show ?thesis using prep quiet_calls [OF _ c] by simp
    next
      case False
      let ?n = "dv_attempts s + 1"
      have eq: "dispatch_prepare l o1 s = to_phase l (Ph_prepared ?n)
         (s\<lparr>dv_rows := dv_rows s @ [\<lparr>ar_no = ?n, ar_lease = l, ar_state = A_prepared, ar_error = None\<rparr>], dv_attempts := ?n\<rparr>)"
        using dispatch_prepare_cases [OF inv, of l o1] False by blast
      define t where "t = dispatch_prepare l o1 s"
      have t: "dv_calls t = dv_calls s" "row_ids (dv_rows t) = row_ids (dv_rows s) @ [(?n, l)]"
        "dv_workers t = (dv_workers s)(l \<mapsto> Ph_prepared ?n)"
        "dv_rows t = dv_rows s @ [\<lparr>ar_no = ?n, ar_lease = l, ar_state = A_prepared, ar_error = None\<rparr>]"
        by (simp_all add: t_def eq to_phase_def)
      have fresh: "?n \<notin> set (dv_calls s)" "dv_workers s k \<noteq> Some (Ph_marked ?n)" for k
        using calls_invD(2) [OF c] new_attempt_fresh [OF inv] phase_row [OF inv, of k "Ph_marked ?n" ?n] by force+
      have "calls_inv t"
      proof (rule calls_invI)
        show "distinct (dv_calls t)" "set (dv_calls t) \<subseteq> fst ` set (row_ids (dv_rows t))"
          using calls_invD(1,2) [OF c] by (auto simp: t)
      qed (use calls_invD(3-6) [OF c] fresh in \<open>auto simp: t split: if_splits\<close>)
      then show ?thesis using prep by (simp add: t_def)
    qed
  next
    case mark
    show ?thesis
    proof (cases "\<exists>n. dv_workers s l = Some (Ph_prepared n)")
      case True
      then obtain n where w: "dv_workers s l = Some (Ph_prepared n)" by blast
      define t where "t = markDispatched l s"
      have t: "dv_calls t = dv_calls s" "row_ids (dv_rows t) = row_ids (dv_rows s)" "dv_workers t = (dv_workers s)(l \<mapsto> Ph_marked n)"
        by (simp_all add: t_def mark_eq w to_phase_def)
      have r: "r \<in> set (dv_rows s) \<and> ar_no r \<noteq> n" if "r \<in> set (dv_rows t)" "ar_state r = A_prepared" for r
        using that by (auto simp: t_def mark_eq w to_phase_def set_state_def split: if_splits)
      have "calls_inv t"
      proof (rule calls_invI)
        show "distinct (dv_calls t)" "set (dv_calls t) \<subseteq> fst ` set (row_ids (dv_rows t))"
          using calls_invD(1,2) [OF c] by (simp_all add: t)
        show "k \<notin> set (dv_calls t)" if "dv_workers t i = Some (Ph_prepared k)" for i k
          using that calls_invD(3) [OF c] by (auto simp: t split: if_splits)
        show "k \<notin> set (dv_calls t)" if "dv_workers t i = Some (Ph_marked k)" for i k
          using that calls_invD(4) [OF c] calls_invD(3) [OF c w] by (auto simp: t split: if_splits)
        show "ar_no r \<notin> set (dv_calls t)" if "r \<in> set (dv_rows t)" "ar_state r = A_prepared" for r
          using r [OF that] that(2) calls_invD(5) [OF c] by (simp add: t)
        show "dv_workers t k \<noteq> Some (Ph_marked (ar_no r))" if "r \<in> set (dv_rows t)" "ar_state r = A_prepared" for r k
          using r [OF that] that(2) calls_invD(6) [OF c, of r k] by (auto simp: t)
      qed
      then show ?thesis using mark by (simp add: t_def)
    qed (use c mark in \<open>auto simp: mark_eq split: option.split phase.split\<close>)
  next
    case send
    show ?thesis
    proof (cases "\<exists>n. dv_workers s l = Some (Ph_marked n)")
      case True
      then obtain n where w: "dv_workers s l = Some (Ph_marked n)" by blast
      have n: "(n, l) \<in> set (row_ids (dv_rows s))" "n \<notin> set (dv_calls s)"
        using phase_row [OF inv w] calls_invD(4) [OF c w] by auto
      have only: "k = l" if "dv_workers s k = Some p" "phase_no p = Some n" for k p
        using row_ids_inj [OF inv n(1) phase_row [OF inv that]] by simp
      define t where "t = transport_send l s"
      have t: "dv_calls t = dv_calls s @ [n]" "dv_rows t = dv_rows s" "dv_workers t = (dv_workers s)(l \<mapsto> Ph_sending n)"
        by (simp_all add: t_def transport_send_def w to_phase_def)
      have "calls_inv t"
      proof (rule calls_invI)
        show "distinct (dv_calls t)" using calls_invD(1) [OF c] n by (simp add: t)
        show "set (dv_calls t) \<subseteq> fst ` set (row_ids (dv_rows t))"
          using calls_invD(2) [OF c] n by (force simp: t)
        show "k \<notin> set (dv_calls t)" if "dv_workers t i = Some (Ph_prepared k)" for i k
          using that calls_invD(3) [OF c] only [of i "Ph_prepared k"] by (auto simp: t split: if_splits)
        show "k \<notin> set (dv_calls t)" if "dv_workers t i = Some (Ph_marked k)" for i k
          using that calls_invD(4) [OF c] only [of i "Ph_marked k"] by (auto simp: t split: if_splits)
        show "ar_no r \<notin> set (dv_calls t)" if "r \<in> set (dv_rows t)" "ar_state r = A_prepared" for r
          using that calls_invD(5) [OF c] calls_invD(6) [OF c, of r l] w by (auto simp: t)
        show "dv_workers t k \<noteq> Some (Ph_marked (ar_no r))" if "r \<in> set (dv_rows t)" "ar_state r = A_prepared" for r k
          using that calls_invD(6) [OF c, of r k] by (auto simp: t)
      qed
      then show ?thesis using send by (simp add: t_def)
    qed (use c send in \<open>auto simp: transport_send_def split: option.split phase.split\<close>)
  next
    case quiet
    then show ?thesis using quiet_calls [OF _ c] by simp
  qed
qed

lemma reachable_calls: "delivery_reachable m es s \<Longrightarrow> calls_inv s"
proof (induction rule: delivery_reachable.induct)
  case start
  show ?case by (simp add: calls_inv_def delivery_new_def)
next
  case (step es s e)
  then show ?case using calls_step reachable_books by blast
qed


section \<open>Released attempts\<close>

definition fail_inv :: "delivery \<Rightarrow> bool" where
  "fail_inv s \<longleftrightarrow> (\<forall>r\<in>set (dv_rows s). ar_state r = A_failed \<longrightarrow> ar_no r \<in> set (dv_released s)) \<and>
     (\<forall>l n c. dv_workers s l = Some (Ph_failing n c) \<longrightarrow> c \<noteq> ''unknown'') \<and>
     (\<forall>l n c. dv_workers s l = Some (Ph_fail_job n c) \<longrightarrow> n \<in> set (dv_released s))"

lemma fail_invI:
  assumes "\<And>r. r \<in> set (dv_rows s) \<Longrightarrow> ar_state r = A_failed \<Longrightarrow> ar_no r \<in> set (dv_released s)"
    and "\<And>l n c. dv_workers s l = Some (Ph_failing n c) \<Longrightarrow> c \<noteq> ''unknown''"
    and "\<And>l n c. dv_workers s l = Some (Ph_fail_job n c) \<Longrightarrow> n \<in> set (dv_released s)"
  shows "fail_inv s"
  using assms unfolding fail_inv_def by blast

lemma fail_invD:
  assumes "fail_inv s"
  shows "r \<in> set (dv_rows s) \<Longrightarrow> ar_state r = A_failed \<Longrightarrow> ar_no r \<in> set (dv_released s)"
    "dv_workers s l = Some (Ph_failing n c) \<Longrightarrow> c \<noteq> ''unknown''"
    "dv_workers s l = Some (Ph_fail_job n c) \<Longrightarrow> n \<in> set (dv_released s)"
  using assms unfolding fail_inv_def by blast+

lemma fail_rows:
  assumes "fail_inv s" "set (dv_released s) \<subseteq> set (dv_released s')"
    and "\<And>r. r \<in> set (dv_rows s') \<Longrightarrow> ar_state r = A_failed \<Longrightarrow> r \<in> set (dv_rows s)"
    and "\<And>l n c. dv_workers s' l = Some (Ph_failing n c) \<Longrightarrow> dv_workers s l = Some (Ph_failing n c)"
    and "\<And>l n c. dv_workers s' l = Some (Ph_fail_job n c) \<Longrightarrow> dv_workers s l = Some (Ph_fail_job n c)"
  shows "fail_inv s'"
  using assms fail_invD [OF assms(1)] by (intro fail_invI) blast+

lemma set_state_failed: "st \<noteq> A_failed \<Longrightarrow> r \<in> set (dv_rows (set_state n st s)) \<Longrightarrow> ar_state r = A_failed \<Longrightarrow> r \<in> set (dv_rows s)"
  by (auto simp: set_state_def split: if_splits)

lemma set_rows_failed: "st \<noteq> A_failed \<Longrightarrow> r \<in> set (set_rows n st err rows) \<Longrightarrow> ar_state r = A_failed \<Longrightarrow> r \<in> set rows"
  by (auto simp: set_rows_def split: if_splits)

lemma reconcile_rows:
  "r \<in> set (dv_rows (reconcile_apply out env s)) \<Longrightarrow> ar_state r = A_failed \<Longrightarrow> r \<in> set (dv_rows s)"
  "dv_workers (reconcile_apply out env s) = dv_workers s \<and> dv_released (reconcile_apply out env s) = dv_released s"
  by (auto simp: reconcile_apply_def applyResolve_def writeAmbiguousInTx_def writeResolvedFields_def applyAmbiguous_def
      applyExpired_def Let_def set_state_def split: list.splits reconcile_outcome.splits if_splits)

lemma redrive_rows:
  "dv_rows (reaper_redrive u s) = dv_rows s \<and> dv_workers (reaper_redrive u s) = dv_workers s \<and>
   dv_released (reaper_redrive u s) = dv_released s"
  by (auto simp: reaper_redrive_def reclassifyReapedFailure_def split: list.split option.split)

lemma fail_step:
  assumes inv: "fail_inv s" and p: "prompt e s"
  shows "fail_inv (delivery_step e s)"
proof (cases e)
  case (Dv_settle l o1)
  have no_unknown: "dv_workers s k \<noteq> Some (Ph_failing n ''unknown'')" for k n using fail_invD(2) [OF inv] by blast
  show ?thesis using Dv_settle p fail_invD [OF inv]
    by (auto simp: settle_def to_phase_def no_unknown intro!: fail_invI split: option.splits phase.splits settlement.splits if_splits)
next
  case (Dv_fail_attempt l)
  show ?thesis
  proof (cases "\<exists>n c. dv_workers s l = Some (Ph_failing n c)")
    case True
    then obtain n c where w: "dv_workers s l = Some (Ph_failing n c)" by blast
    have c: "c \<noteq> ''unknown''" by (rule fail_invD(2) [OF inv w])
    have "resolveFailure_attempt l s = to_phase l (Ph_fail_job n c)
        (s\<lparr>dv_rows := set_rows n A_failed (Some c) (dv_rows s), dv_released := n # dv_released s\<rparr>)"
      using c by (simp add: resolveFailure_attempt_def w markAttempt_def Let_def)
    moreover have "dv_workers s k \<noteq> Some (Ph_failing n ''unknown'')" for k n using fail_invD(2) [OF inv] by blast
    ultimately show ?thesis using Dv_fail_attempt fail_invD [OF inv]
      by (auto simp: to_phase_def set_rows_def intro!: fail_invI split: if_splits)
  qed (use inv Dv_fail_attempt in \<open>auto simp: resolveFailure_attempt_def split: option.split phase.split\<close>)
next
  case (Dv_prepare l o1)
  then show ?thesis using inv
    by (auto simp: dispatch_prepare_def runPrecheckAndPrepare_def runOptOutPrecheck_def prepareAndIncrement_def worker_done_def
        to_phase_def Let_def elim!: fail_rows split: option.splits phase.splits sum.splits prod.splits bool.splits if_splits)
next
  case (Dv_mark l)
  then show ?thesis using inv
    by (auto simp: mark_eq to_phase_def elim!: fail_rows split: option.splits phase.splits if_splits intro: set_state_failed [rotated])
next
  case (Dv_ack_attempt l)
  then show ?thesis using inv
    by (auto simp: resolveAck_attempt_def markAttempt_def Let_def to_phase_def worker_done_def elim!: fail_rows
        split: option.splits phase.splits if_splits intro: set_rows_failed [rotated])
next
  case (Dv_reconcile out env)
  then show ?thesis using inv by (auto simp: reconcile_rows(2) elim!: fail_rows dest: reconcile_rows(1))
next
  case (Dv_redrive u)
  then show ?thesis using inv by (auto simp: redrive_rows elim!: fail_rows)
next
  case Dv_retry
  then show ?thesis using inv
    by (auto simp: retryUnresolved_def Let_def elim!: fail_rows split: option.splits if_splits intro: set_state_failed [rotated])
next
  case (Dv_fail_job l u)
  then show ?thesis using inv
    by (auto simp: resolveFailure_job_def worker_done_def elim!: fail_rows split: option.splits phase.splits if_splits)
next
  case (Dv_send l)
  then show ?thesis using inv
    by (auto simp: transport_send_def to_phase_def elim!: fail_rows split: option.splits phase.splits if_splits)
next
  case (Dv_ack_job l priced)
  then show ?thesis using inv
    by (auto simp: resolveAck_job_def worker_done_def elim!: fail_rows split: option.splits phase.splits if_splits)
qed (use inv in \<open>auto simp: claim_jobs_def to_phase_def defer_job_def dispose_job_def worker_done_def reap_expired_lease_def
    Let_def reconcile_scan_def discardUnresolved_def epoch_sweep_def restamp_def cancel_queued_def drain_markNeedsReconcile_def
    elim!: fail_rows split: option.splits if_splits\<close>)

section \<open>The gate\<close>

lemma mark_opens: "opens (markDispatched l s) \<subseteq> opens s"
  by (auto simp: opens_def mark_eq to_phase_def split: option.splits phase.splits if_splits)

lemma send_opens: "opens (transport_send l s) \<subseteq> opens s"
  by (auto simp: opens_def transport_send_def to_phase_def split: option.splits phase.splits if_splits)

lemma opens_shrink:
  assumes "\<And>l o1. e \<noteq> Dv_prepare l o1"
  shows "opens (delivery_step e s) \<subseteq> opens s"
proof (cases "(\<exists>l. e = Dv_mark l) \<or> (\<exists>l. e = Dv_send l)")
  case True
  then show ?thesis using mark_opens [of _ s] send_opens [of _ s] by (elim disjE exE) simp_all
next
  case False
  then show ?thesis using other_steps_quiet [of e s] quiet_opens assms by blast
qed

definition gate_inv :: "delivery \<Rightarrow> bool" where
  "gate_inv s \<longleftrightarrow>
     (dv_status s = Job_queued \<longrightarrow> opens s = {}) \<and>
     (dv_status s = Job_blocked_needs_review \<and> dv_reason s = Some UR_session_epoch_advanced \<longrightarrow> opens s = {}) \<and>
     (\<forall>l. dv_status s = Job_processing \<and> dv_lease s = Some l \<longrightarrow> (\<forall>n\<in>opens s. (n, l) \<in> set (row_ids (dv_rows s)))) \<and>
     (dv_redrive s \<noteq> [] \<longrightarrow> dv_lease s = None \<and> opens s = {}) \<and>
     (\<forall>n\<in>opens s. \<forall>k\<in>opens s. n = k)"

lemma gate_invI:
  assumes "dv_status s = Job_queued \<Longrightarrow> opens s = {}"
    "dv_status s = Job_blocked_needs_review \<Longrightarrow> dv_reason s = Some UR_session_epoch_advanced \<Longrightarrow> opens s = {}"
    "\<And>l n. dv_status s = Job_processing \<Longrightarrow> dv_lease s = Some l \<Longrightarrow> n \<in> opens s \<Longrightarrow> (n, l) \<in> set (row_ids (dv_rows s))"
    "dv_redrive s \<noteq> [] \<Longrightarrow> dv_lease s = None" "dv_redrive s \<noteq> [] \<Longrightarrow> opens s = {}"
    "\<And>n k. n \<in> opens s \<Longrightarrow> k \<in> opens s \<Longrightarrow> n = k"
  shows "gate_inv s"
  using assms unfolding gate_inv_def by blast

lemma gate_invD:
  assumes "gate_inv s"
  shows "dv_status s = Job_queued \<Longrightarrow> opens s = {}"
    "dv_status s = Job_blocked_needs_review \<Longrightarrow> dv_reason s = Some UR_session_epoch_advanced \<Longrightarrow> opens s = {}"
    "dv_status s = Job_processing \<Longrightarrow> dv_lease s = Some l \<Longrightarrow> n \<in> opens s \<Longrightarrow> (n, l) \<in> set (row_ids (dv_rows s))"
    "dv_redrive s \<noteq> [] \<Longrightarrow> dv_lease s = None" "dv_redrive s \<noteq> [] \<Longrightarrow> opens s = {}"
    "n \<in> opens s \<Longrightarrow> k \<in> opens s \<Longrightarrow> n = k"
  using assms unfolding gate_inv_def by blast+

lemma gate_frame:
  assumes g: "gate_inv s" and o1: "opens s' \<subseteq> opens s" and k: "keeps_books s s'"
    and q: "dv_status s' = Job_queued \<Longrightarrow> dv_status s = Job_queued \<or> opens s' = {}"
    and b: "dv_status s' = Job_blocked_needs_review \<Longrightarrow> dv_reason s' = Some UR_session_epoch_advanced \<Longrightarrow>
      dv_status s = Job_queued \<or> dv_status s = Job_blocked_needs_review \<and> dv_reason s = Some UR_session_epoch_advanced"
    and r: "dv_redrive s' \<noteq> [] \<Longrightarrow> dv_redrive s \<noteq> [] \<or> dv_lease s' = None \<and> opens s' = {}"
  shows "gate_inv s'"
proof (rule gate_invI)
  have k': "row_ids (dv_rows s') = row_ids (dv_rows s)" "dv_lease s' = dv_lease s \<or> dv_lease s' = None"
    "dv_status s' = Job_processing \<Longrightarrow> dv_status s = Job_processing \<and> dv_lease s' = dv_lease s"
    using k by (simp_all add: keeps_books_def)
  show "opens s' = {}" if "dv_status s' = Job_queued" using q [OF that] gate_invD(1) [OF g] o1 by blast
  show "opens s' = {}" if "dv_status s' = Job_blocked_needs_review" "dv_reason s' = Some UR_session_epoch_advanced"
    using b [OF that] gate_invD(1,2) [OF g] o1 by blast
  show "(n, l) \<in> set (row_ids (dv_rows s'))" if "dv_status s' = Job_processing" "dv_lease s' = Some l" "n \<in> opens s'" for l n
    using that k'(1) k'(3) gate_invD(3) [OF g, of l n] o1 by auto
  show "dv_lease s' = None" if "dv_redrive s' \<noteq> []" using r [OF that] gate_invD(4) [OF g] k'(2) by auto
  show "opens s' = {}" if "dv_redrive s' \<noteq> []" using r [OF that] gate_invD(5) [OF g] o1 by blast
  show "n = k" if "n \<in> opens s'" "k \<in> opens s'" for n k
    by (rule gate_invD(6) [OF g]) (use that o1 in auto)
qed

text \<open>Whoever holds the claim knows what is open: nothing before the preparation, and only its own attempt after it.\<close>

lemma holder_opens:
  assumes g: "gate_inv s" and inv: "book_inv s" and h: "holds_claim l s"
  shows "at_claim l s \<Longrightarrow> opens s = {}" "(m, l) \<in> set (row_ids (dv_rows s)) \<Longrightarrow> opens s \<subseteq> {m}"
proof -
  have o1: "(n, l) \<in> set (row_ids (dv_rows s))" if "n \<in> opens s" for n
    using gate_invD(3) [OF g _ _ that] h by (simp add: holds_claim_def)
  show "opens s = {}" if claim: "at_claim l s"
  proof -
    obtain a where "dv_workers s l = Some (Ph_claimed a)"
      using claim by (auto simp: at_claim_def split: option.splits phase.splits)
    then have "l \<notin> snd ` set (row_ids (dv_rows s))" using book_inv_worker [OF inv, of l "Ph_claimed a"] by (simp add: worker_ok_claimed)
    then show ?thesis using o1 by force
  qed
  show "opens s \<subseteq> {m}" if "(m, l) \<in> set (row_ids (dv_rows s))"
    using o1 row_ids_inj [OF inv _ that] by blast
qed

lemma released_opens: "opens s \<subseteq> {m} \<Longrightarrow> m \<in> set (dv_released s) \<Longrightarrow> opens s = {}"
  by (auto simp: opens_def)

lemma opens_rows:
  assumes "book_inv s" "calls_inv s"
  shows "opens s \<subseteq> fst ` set (row_ids (dv_rows s))"
proof
  fix n assume "n \<in> opens s"
  then consider l where "dv_workers s l = Some (Ph_prepared n)" | l where "dv_workers s l = Some (Ph_marked n)"
    | "n \<in> set (dv_calls s)" by (auto simp: opens_def)
  then show "n \<in> fst ` set (row_ids (dv_rows s))"
  proof cases
    case 1
    show ?thesis using phase_row [OF assms(1) 1, of n] by force
  next
    case 2
    show ?thesis using phase_row [OF assms(1) 2, of n] by force
  next
    case 3
    then show ?thesis using calls_invD(2) [OF assms(2)] by blast
  qed
qed

text \<open>What the reaper finds on an expired lease decides that nothing is open, or that the job waits for evidence.\<close>

lemma reap_opens:
  assumes inv: "book_inv s" and c: "calls_inv s" and f: "fail_inv s" and g: "gate_inv s" and p: "prompt Dv_reap s"
    and h: "holds_claim l s" and row: "find (\<lambda>r. ar_lease r = l) (dv_rows s) = row"
    and st: "row = None \<or> (\<exists>r. row = Some r \<and> ar_state r \<in> {A_prepared, A_failed})"
  shows "opens s = {}"
proof (cases row)
  case None
  then have "(n, l) \<notin> set (row_ids (dv_rows s))" for n
    using row by (auto simp: find_None_iff row_ids_def)
  then show ?thesis using gate_invD(3) [OF g] h by (auto simp: holds_claim_def)
next
  case (Some r)
  have r: "r \<in> set (dv_rows s)" "ar_lease r = l" using row Some by (auto simp: find_Some_iff)
  have m: "(ar_no r, l) \<in> set (row_ids (dv_rows s))" using r by (force simp: row_ids_def)
  have sub: "opens s \<subseteq> {ar_no r}" by (rule holder_opens(2) [OF g inv h m])
  consider "ar_state r = A_prepared" | "ar_state r = A_failed" using st Some by auto
  then show ?thesis
  proof cases
    case 1
    have "dv_workers s k \<noteq> Some (Ph_prepared (ar_no r))" for k
    proof
      assume w: "dv_workers s k = Some (Ph_prepared (ar_no r))"
      have "(ar_no r, k) \<in> set (row_ids (dv_rows s))" by (rule phase_row [OF inv w]) simp
      then have "k = l" using row_ids_inj [OF inv m] by blast
      then show False using p w h by (simp add: holds_claim_def)
    qed
    then have "ar_no r \<notin> opens s" using calls_invD(5,6) [OF c r(1) 1] by (simp add: opens_def)
    then show ?thesis using sub by blast
  next
    case 2
    then show ?thesis using released_opens [OF sub] fail_invD(1) [OF f r(1)] by blast
  qed
qed


lemma gate_prepare:
  assumes inv: "book_inv s" and g: "gate_inv s" and p: "prompt (Dv_prepare l o1) s"
  shows "gate_inv (dispatch_prepare l o1 s)"
proof -
  let ?t = "dispatch_prepare l o1 s" and ?n = "dv_attempts s + 1"
  consider (quiet) "quiet s ?t" "keeps_books s ?t" "dv_redrive ?t = dv_redrive s" "dv_reason ?t = dv_reason s"
      "dv_status ?t = dv_status s \<or> dv_status ?t = Job_cancelled"
    | (new) "dv_lease s = Some l" "dv_workers s l = Some (Ph_claimed (dv_attempts s))"
      "?t = to_phase l (Ph_prepared ?n)
       (s\<lparr>dv_rows := dv_rows s @ [\<lparr>ar_no = ?n, ar_lease = l, ar_state = A_prepared, ar_error = None\<rparr>], dv_attempts := ?n\<rparr>)"
    using dispatch_prepare_cases [OF inv, of l o1] by blast
  then show ?thesis
  proof cases
    case quiet
    show ?thesis by (rule gate_frame [OF g quiet_opens [OF quiet(1)] quiet(2)]) (use quiet(3-5) in auto)
  next
    case new
    have h: "holds_claim l s" using new(1) p by (simp add: holds_claim_def)
    have o1: "opens s = {}" by (rule holder_opens(1) [OF g inv h]) (simp add: at_claim_def new(2))
    define t where "t = ?t"
    have t: "dv_status t = dv_status s" "dv_lease t = dv_lease s" "row_ids (dv_rows t) = row_ids (dv_rows s) @ [(?n, l)]"
      "dv_redrive t = dv_redrive s" "dv_workers t = (dv_workers s)(l \<mapsto> Ph_prepared ?n)" "dv_calls t = dv_calls s"
      "dv_released t = dv_released s"
      by (simp_all add: t_def new(3) to_phase_def)
    have o2: "opens t \<subseteq> {?n}" using o1 by (auto simp: opens_def t split: if_splits)
    have "dv_status s = Job_processing" "dv_redrive s = []"
      using h gate_invD(4) [OF g] by (auto simp: holds_claim_def)
    then have "gate_inv t" using o2 new(1) by (intro gate_invI) (auto simp: t)
    then show ?thesis by (simp add: t_def)
  qed
qed

lemma gate_claim:
  assumes g: "gate_inv s" and p: "prompt Dv_claim s"
  shows "gate_inv (claim_jobs s)"
proof (cases "dv_status s = Job_queued \<and> \<not> dv_paused s")
  case True
  have "opens s = {}" using gate_invD(1) [OF g] True by blast
  then have "opens (claim_jobs s) = {}" using opens_shrink [of Dv_claim s] by simp
  then show ?thesis using True p by (intro gate_invI) (auto simp: claim_jobs_def to_phase_def)
qed (use g in \<open>auto simp: claim_jobs_def\<close>)

lemma reap_keeps_gate:
  assumes inv: "book_inv s" and c: "calls_inv s" and f: "fail_inv s" and g: "gate_inv s" and p: "prompt Dv_reap s"
  shows "gate_inv (reap_expired_lease s)"
proof -
  let ?t = "reap_expired_lease s"
  have k: "keeps_books s ?t" "opens ?t \<subseteq> opens s"
    using other_steps_keep [of Dv_reap s] opens_shrink [of Dv_reap s] by simp_all
  show ?thesis
  proof (cases "?t = s")
    case False
    then obtain l where l: "holds_claim l s" by (auto simp: reap_expired_lease_def Let_def holds_claim_def split: option.splits if_splits)
    let ?row = "find (\<lambda>r. ar_lease r = l) (dv_rows s)"
    have t: "dv_status ?t = reap_status ?row s" "dv_reason ?t = dv_reason s" "dv_lease ?t = None"
      "dv_redrive ?t = (case ?row of Some r \<Rightarrow> if ar_state r = A_failed then dv_redrive s @ [(ar_no r, ar_error r)] else dv_redrive s
                               | None \<Rightarrow> dv_redrive s)"
      using False l by (auto simp: reap_expired_lease_def Let_def holds_claim_def split: if_splits)
    note ro = reap_opens [OF inv c f g p l refl]
    show ?thesis
    proof (rule gate_frame [OF g k(2) k(1)])
      assume "dv_status ?t = Job_queued"
      then have "?row = None \<or> (\<exists>r. ?row = Some r \<and> ar_state r \<in> {A_prepared, A_failed})"
        unfolding t reap_status_def by (auto split: option.splits attempt_state.splits if_splits)
      then show "dv_status s = Job_queued \<or> opens ?t = {}" using ro k(2) by blast
    next
      assume "dv_redrive ?t \<noteq> []"
      then have "dv_redrive s \<noteq> [] \<or> (\<exists>r. ?row = Some r \<and> ar_state r = A_failed)"
        unfolding t by (auto split: option.splits if_splits)
      then show "dv_redrive s \<noteq> [] \<or> dv_lease ?t = None \<and> opens ?t = {}" using ro k(2) t(3) by blast
    next
      assume "dv_status ?t = Job_blocked_needs_review"
      then show "dv_status s = Job_queued \<or> dv_status s = Job_blocked_needs_review \<and> dv_reason s = Some UR_session_epoch_advanced"
        unfolding t reap_status_def by (auto split: option.splits attempt_state.splits if_splits)
    qed
  qed (use g in simp)
qed


text \<open>Steps that leave the status or move it away from \<open>queued\<close>, and queue no reaped failure.\<close>

lemma gate_calm:
  assumes g: "gate_inv s" and e: "\<And>l o1. e \<noteq> Dv_prepare l o1" "e \<noteq> Dv_claim"
    and "dv_status (delivery_step e s) = Job_queued \<Longrightarrow> dv_status s = Job_queued \<or> opens s = {}"
    and "dv_status (delivery_step e s) = Job_blocked_needs_review \<Longrightarrow> dv_reason (delivery_step e s) = Some UR_session_epoch_advanced \<Longrightarrow>
      dv_status s = Job_queued \<or> dv_status s = Job_blocked_needs_review \<and> dv_reason s = Some UR_session_epoch_advanced"
    and "dv_redrive (delivery_step e s) \<noteq> [] \<Longrightarrow> dv_redrive s \<noteq> []"
  shows "gate_inv (delivery_step e s)"
  using gate_frame [OF g opens_shrink [of e s] other_steps_keep [of e s]] opens_shrink [of e s] assms by blast

lemma gate_step:
  assumes inv: "book_inv s" and c: "calls_inv s" and f: "fail_inv s" and g: "gate_inv s" and p: "prompt e s"
  shows "gate_inv (delivery_step e s)"
proof (cases e)
  case Dv_claim
  then show ?thesis using gate_claim [OF g] p by simp
next
  case (Dv_prepare l o1)
  then show ?thesis using gate_prepare [OF inv g] p by simp
next
  case Dv_reap
  then show ?thesis using reap_keeps_gate [OF inv c f g] p by simp
next
  case (Dv_defer l)
  then show ?thesis
    by (intro gate_calm [OF g]) (use holder_opens(1) [OF g inv, of l] in \<open>auto simp: defer_job_def worker_done_def split: if_splits\<close>)
next
  case (Dv_dispose l x)
  then show ?thesis by (intro gate_calm [OF g]) (auto simp: dispose_job_def worker_done_def split: if_splits)
next
  case (Dv_mark l)
  then show ?thesis
    by (intro gate_calm [OF g]) (auto simp: mark_eq to_phase_def split: option.splits phase.splits)
next
  case (Dv_send l)
  then show ?thesis
    by (intro gate_calm [OF g]) (auto simp: transport_send_def to_phase_def split: option.splits phase.splits)
next
  case (Dv_settle l o1)
  then show ?thesis
    by (intro gate_calm [OF g]) (auto simp: settle_def to_phase_def split: option.splits phase.splits)
next
  case (Dv_ack_attempt l)
  then show ?thesis
    by (intro gate_calm [OF g])
      (auto simp: resolveAck_attempt_def markAttempt_def Let_def to_phase_def worker_done_def split: option.splits phase.splits if_splits)
next
  case (Dv_ack_job l x)
  then show ?thesis
    by (intro gate_calm [OF g]) (auto simp: resolveAck_job_def worker_done_def split: option.splits phase.splits if_splits)
next
  case (Dv_fail_attempt l)
  then show ?thesis
    by (intro gate_calm [OF g])
      (auto simp: resolveFailure_attempt_def markAttempt_def Let_def to_phase_def split: option.splits phase.splits if_splits)
next
  case (Dv_fail_job l u)
  have o1: "opens s = {}" if w: "dv_workers s l = Some (Ph_fail_job n d)" and h: "holds_claim l s" for n d
  proof -
    have "(n, l) \<in> set (row_ids (dv_rows s))" by (rule phase_row [OF inv w]) simp
    then show ?thesis using released_opens [OF holder_opens(2) [OF g inv h]] fail_invD(3) [OF f w] by blast
  qed
  have b: "dv_status (failure_outcome d n k u s) \<noteq> Job_blocked_needs_review" for d n k
    using failure_outcome_status [of d n k u s] by auto
  show ?thesis using Dv_fail_job
    by (intro gate_calm [OF g])
      (auto simp: resolveFailure_job_def worker_done_def b o1 split: option.splits phase.splits if_splits)
next
  case (Dv_redrive u)
  have "dv_redrive s = [] \<Longrightarrow> reaper_redrive u s = s" by (simp add: reaper_redrive_def)
  moreover have "opens s = {}" if "dv_redrive s \<noteq> []" using gate_invD(5) [OF g that] .
  moreover have "dv_redrive (reaper_redrive u s) = tl (dv_redrive s)"
    by (auto simp: reaper_redrive_def reclassifyReapedFailure_def split: list.split option.split)
  moreover have "dv_status (reaper_redrive u s) = Job_blocked_needs_review \<Longrightarrow>
      dv_status s = Job_blocked_needs_review \<and> dv_reason (reaper_redrive u s) = dv_reason s"
    using failure_outcome_status
    by (auto simp: reaper_redrive_def reclassifyReapedFailure_def failure_outcome_def split: list.splits option.splits if_splits retry_class.splits)
  ultimately show ?thesis using Dv_redrive by (cases "dv_redrive s = []") (use g in simp, intro gate_calm [OF g], auto)
next
  case (Dv_reconcile out env)
  have "dv_redrive (reconcile_apply out env s) = dv_redrive s" "dv_status (reconcile_apply out env s) = Job_queued \<Longrightarrow> dv_status s = Job_queued"
    "dv_status (reconcile_apply out env s) = Job_blocked_needs_review \<Longrightarrow>
       dv_reason (reconcile_apply out env s) = Some UR_session_epoch_advanced \<Longrightarrow>
       dv_status s = Job_blocked_needs_review \<and> dv_reason s = Some UR_session_epoch_advanced"
    by (auto simp: reconcile_apply_def applyResolve_def writeAmbiguousInTx_def writeResolvedFields_def applyAmbiguous_def
      applyExpired_def needs_reconcile_to_def Let_def set_state_def split: list.splits reconcile_outcome.splits if_splits)
  then show ?thesis using Dv_reconcile by (intro gate_calm [OF g]) auto
next
  case Dv_retry
  have "opens (retryUnresolved s) = {}" if "dv_status s = Job_blocked_needs_review"
    using opens_rows [OF inv c] that
    by (auto simp: retryUnresolved_def Let_def opens_def row_ids_def image_image split: option.splits)
  then have "gate_inv (retryUnresolved s)"
    by (intro gate_frame [OF g opens_shrink [of Dv_retry s, simplified] retry_keeps])
      (auto simp: retryUnresolved_def Let_def split: if_splits option.splits)
  then show ?thesis using Dv_retry by simp
next
  case Dv_restamp
  then show ?thesis
    by (intro gate_calm [OF g]) (use gate_invD(2) [OF g] in \<open>auto simp: restamp_def split: if_splits\<close>)
qed (rule gate_calm [OF g]; simp add: worker_done_def reconcile_scan_def discardUnresolved_def epoch_sweep_def
    cancel_queued_def drain_markNeedsReconcile_def split: if_splits)+

lemma reachable_gate: "delivery_reachable m es s \<Longrightarrow> prompt_run es (delivery_new m) \<Longrightarrow> fail_inv s \<and> gate_inv s"
proof (induction rule: delivery_reachable.induct)
  case start
  show ?case by (simp add: gate_inv_def fail_inv_def opens_def delivery_new_def)
next
  case (step es s e)
  have s: "s = fold delivery_step es (delivery_new m)" using step(1) by (induction rule: delivery_reachable.induct) simp_all
  have p: "prompt_run es (delivery_new m)" "prompt e s" using step(3) by (simp_all add: prompt_run_snoc s)
  have inv: "book_inv s" "calls_inv s" using reachable_books [OF step(1)] reachable_calls [OF step(1)] by auto
  show ?case using step(2) p gate_step [OF inv] fail_step by blast
qed

section \<open>Sends\<close>

definition one_send :: "nat \<Rightarrow> settlement \<Rightarrow> delivery_event list" where
  "one_send l o1 = [Dv_claim, Dv_prepare l False, Dv_mark l, Dv_send l, Dv_settle l o1, Dv_fail_attempt l, Dv_fail_job l 0]"

text \<open>C1. In every history with the timing of \<open>prompt\<close>, whatever the crashes, expiries, re-drives, reconciler writes and
  user actions in it, no attempt is handed to the provider twice, at most one send is unresolved (neither failed
  for a named reason nor given up by a user), and a job waiting in the queue has no unresolved send.\<close>

lemma no_second_unresolved_send:
  assumes "delivery_reachable m es s" and "prompt_run es (delivery_new m)"
  shows "distinct (dv_calls s) \<and> card (set (dv_calls s) - set (dv_released s)) \<le> 1 \<and>
    (dv_status s = Job_queued \<longrightarrow> set (dv_calls s) \<subseteq> set (dv_released s))"
proof -
  have g: "gate_inv s" and c: "calls_inv s" using reachable_gate [OF assms] reachable_calls [OF assms(1)] by auto
  have sub: "set (dv_calls s) - set (dv_released s) \<subseteq> opens s" by (auto simp: opens_def)
  then have "n = k" if "n \<in> set (dv_calls s) - set (dv_released s)" "k \<in> set (dv_calls s) - set (dv_released s)" for n k
    using gate_invD(6) [OF g, of n k] that by blast
  then have "card (set (dv_calls s) - set (dv_released s)) \<le> Suc 0" by (simp add: card_le_Suc0_iff_eq)
  then show ?thesis using calls_invD(1) [OF c] gate_invD(1) [OF g] sub by auto
qed

definition retried_send :: "delivery_event list" where
  "retried_send = one_send 0 (Send_error ''transient'') @ [Dv_claim, Dv_prepare 1 False, Dv_mark 1, Dv_crash 0, Dv_send 1]"

lemma no_second_unresolved_send_witness:
  "prompt_run retried_send (delivery_new 3) \<and> dv_calls (fold delivery_step retried_send (delivery_new 3)) = [1, 2] \<and>
   dv_released (fold delivery_step retried_send (delivery_new 3)) = [1] \<and>
   card (set (dv_calls (fold delivery_step retried_send (delivery_new 3))) - set (dv_released (fold delivery_step retried_send (delivery_new 3)))) \<le> 1"
proof -
  have 1: "prompt_run retried_send (delivery_new 3)" by code_simp
  have 2: "dv_calls (fold delivery_step retried_send (delivery_new 3)) = [1, 2]" by code_simp
  have 3: "dv_released (fold delivery_step retried_send (delivery_new 3)) = [1]" by code_simp
  show ?thesis using no_second_unresolved_send [OF delivery_reachable_fold 1] 1 2 3 by blast
qed

text \<open>C37. A provider call that times out is recorded as failed with class \<open>unknown\<close>, which classifies as a pause: the
  job goes back to the queue, the instance is paused, and after the resume the next claim sends the job again
  although the first send was neither refused nor given up.\<close>

lemma timed_out_send_is_sent_again:
  assumes "delivery_reachable m es s" and w: "dv_workers s l = Some (Ph_sending n)" and h: "holds_claim l s"
    and a: "dv_attempts s \<le> m" and k: "k = dv_nextLease s"
    and s1: "s1 = fold delivery_step [Dv_settle l Timed_out, Dv_fail_attempt l, Dv_fail_job l u] s"
    and s2: "s2 = fold delivery_step [Dv_resume, Dv_claim, Dv_prepare k False, Dv_mark k, Dv_send k] s1"
  shows "dv_status s1 = Job_queued \<and> dv_paused s1 \<and> dv_released s1 = dv_released s \<and>
    dv_calls s2 = dv_calls s @ [dv_attempts s + 1] \<and> dv_released s2 = dv_released s"
proof -
  have inv: "book_inv s" "dv_max s = m" using reachable_books [OF assms(1)] by auto
  have new: "dv_attempts s + 1 \<notin> fst ` set (row_ids (dv_rows s))" by (rule new_attempt_fresh [OF inv(1)])
  have p: "classify_class ''unknown'' = PAUSE_INSTANCE" by code_simp
  let ?rows = "set_rows n A_failed (Some ''unknown'') (dv_rows s)"
  have e1: "s1 = s\<lparr>dv_status := Job_queued, dv_rows := ?rows, dv_workers := (dv_workers s)(l := None), dv_paused := True\<rparr>"
    using h by (simp add: s1 settle_def w to_phase_def resolveFailure_attempt_def markAttempt_def resolveFailure_job_def
        holds_claim_def failure_outcome_def p worker_done_def)
  let ?s3 = "fold delivery_step [Dv_resume, Dv_claim] s1"
  have e3: "dv_workers ?s3 k = Some (Ph_claimed (dv_attempts s))" "dv_lease ?s3 = Some k" "dv_rows ?s3 = ?rows"
    "dv_attempts ?s3 = dv_attempts s" "dv_max ?s3 = m" "dv_calls ?s3 = dv_calls s" "dv_released ?s3 = dv_released s"
    using k inv(2) by (simp_all add: e1 claim_jobs_def to_phase_def)
  have "s2 = fold delivery_step [Dv_prepare k False, Dv_mark k, Dv_send k] ?s3" by (simp add: s2)
  then have "dv_calls s2 = dv_calls s @ [dv_attempts s + 1] \<and> dv_released s2 = dv_released s"
    using e3 new a by (simp add: dispatch_prepare_def runPrecheckAndPrepare_def runOptOutPrecheck_def prepareAndIncrement_def
        markDispatched_def transport_send_def to_phase_def set_state_def)
  then show ?thesis by (simp add: e1)
qed

definition one_in_flight :: delivery where
  "one_in_flight = fold delivery_step [Dv_claim, Dv_prepare 0 False, Dv_mark 0, Dv_send 0] (delivery_new 3)"

lemma timed_out_send_is_sent_again_witness:
  "dv_calls (fold delivery_step [Dv_resume, Dv_claim, Dv_prepare 1 False, Dv_mark 1, Dv_send 1]
     (fold delivery_step [Dv_settle 0 Timed_out, Dv_fail_attempt 0, Dv_fail_job 0 0] one_in_flight)) = [1, 2]"
proof -
  have 1: "delivery_reachable 3 [Dv_claim, Dv_prepare 0 False, Dv_mark 0, Dv_send 0] one_in_flight"
    unfolding one_in_flight_def by (rule delivery_reachable_fold)
  have 2: "dv_workers one_in_flight 0 = Some (Ph_sending 1)" "holds_claim 0 one_in_flight" by code_simp+
  have 3: "dv_attempts one_in_flight = 1" "1 = dv_nextLease one_in_flight" "dv_calls one_in_flight = [1]" by code_simp+
  have 4: "dv_attempts one_in_flight \<le> 3" by (simp add: 3)
  have 5: "dv_calls one_in_flight @ [dv_attempts one_in_flight + 1] = [1, 2]" by (simp add: 3(1) 3(3))
  show ?thesis unfolding 5 [symmetric] using timed_out_send_is_sent_again [OF 1 2 4 3(2) refl refl, of 0] by blast
qed

text \<open>The attempt rows of a job are numbered 1, 2, ... up to its live count, one per lease, and the count never passes
  \<open>maxAttempts + 1\<close>; so the worker that holds the lease is never refused with \<open>DispatchAlreadyRecorded\<close>.\<close>

lemma attempt_numbers_consecutive:
  assumes "delivery_reachable m es s"
  shows "map ar_no (dv_rows s) = [1..<dv_attempts s + 1] \<and> distinct (map ar_lease (dv_rows s)) \<and> dv_attempts s \<le> m + 1 \<and>
    (\<forall>l a. dv_workers s l = Some (Ph_claimed a) \<and> dv_lease s = Some l \<longrightarrow>
      prepareAndIncrement l (a + 1) s \<noteq> Err Dispatch_already_recorded)"
proof -
  have inv: "book_inv s" "dv_max s = m" using reachable_books [OF assms] by auto
  have "map fst (row_ids (dv_rows s)) = [1..<dv_attempts s + 1]" using assms
  proof (induction rule: delivery_reachable.induct)
    case (step es s e)
    have binv: "book_inv s" using reachable_books [OF step(1)] by blast
    consider l o1 where "e = Dv_prepare l o1" | "keeps_books s (delivery_step e s)" | "e = Dv_claim"
      using other_steps_keep [of e s] by blast
    then show ?case
    proof cases
      case (1 l o1)
      then show ?thesis using dispatch_prepare_cases [OF binv, of l o1] step(2) by (auto simp: to_phase_def keeps_books_def)
    next
      case 2
      then show ?thesis using step(2) by (simp add: keeps_books_def)
    next
      case 3
      then show ?thesis using step(2) by (simp add: claim_jobs_def to_phase_def del: upt_Suc)
    qed
  qed (simp add: delivery_new_def row_ids_def)
  moreover have "prepareAndIncrement l (a + 1) s \<noteq> Err Dispatch_already_recorded"
    if "dv_workers s l = Some (Ph_claimed a)" "dv_lease s = Some l" for l a
    using that book_inv_worker [OF inv(1) that(1)] new_attempt_fresh [OF inv(1)]
    by (auto simp: prepareAndIncrement_def worker_ok_claimed)
  ultimately show ?thesis using book_inv_rest [OF inv(1)] inv(2) by (simp add: row_ids_def comp_def)
qed

text \<open>A pause puts the job back without looking at the budget. Once its count stands at \<open>maxAttempts + 1\<close>, every later
  claim, preparation (refused by the range check) and reaping brings the job back to the queue unchanged: it is neither
  sent nor failed.\<close>

lemma exhausted_job_circles:
  assumes "delivery_reachable m es s" and "dv_status s = Job_queued" and "\<not> dv_paused s" and "dv_attempts s = m + 1"
    and k: "k = dv_nextLease s" and t: "t = fold delivery_step [Dv_claim, Dv_prepare k False, Dv_reap] s"
  shows "dv_status t = Job_queued \<and> \<not> dv_paused t \<and> dv_attempts t = m + 1 \<and> dv_lease t = None \<and> dv_calls t = dv_calls s \<and>
    dv_rows t = dv_rows s"
proof -
  have inv: "book_inv s" "dv_max s = m" using reachable_books [OF assms(1)] by auto
  have new: "dv_attempts s + 1 \<notin> fst ` set (row_ids (dv_rows s))" by (rule new_attempt_fresh [OF inv(1)])
  let ?c = "claim_jobs s"
  have c: "dv_workers ?c k = Some (Ph_claimed (m + 1))" "dv_lease ?c = Some k" "dv_status ?c = Job_processing"
    "dv_rows ?c = dv_rows s" "dv_attempts ?c = m + 1" "dv_max ?c = m" "dv_calls ?c = dv_calls s" "\<not> dv_paused ?c"
    using assms(2-4) k inv(2) by (simp_all add: claim_jobs_def to_phase_def)
  have "prepareAndIncrement k (m + 1 + 1) ?c = Err Attempts_range_check"
    using new assms(4) by (simp add: prepareAndIncrement_def c)
  then have p: "dispatch_prepare k False ?c = worker_done k ?c"
    by (simp add: dispatch_prepare_def c(1) runPrecheckAndPrepare_def runOptOutPrecheck_def)
  have "k \<notin> ar_lease ` set (dv_rows s)" using book_inv_rows [OF inv(1)] k by (fastforce simp: row_ids_def)
  then have "find (\<lambda>r. ar_lease r = k) (dv_rows s) = None" by (auto simp: find_None_iff)
  then have "t = (worker_done k ?c)\<lparr>dv_status := Job_queued, dv_lease := None\<rparr>"
    by (simp add: t p reap_expired_lease_def reap_status_def worker_done_def c)
  then show ?thesis by (simp add: worker_done_def c)
qed

definition exhausted :: delivery where
  "exhausted = fold delivery_step (one_send 0 Timed_out @ [Dv_resume] @ one_send 1 Timed_out @ [Dv_resume]) (delivery_new 1)"

lemma exhausted_job_circles_witness:
  "dv_status exhausted = Job_queued \<and> dv_attempts exhausted = 2 \<and>
   dv_calls (fold delivery_step [Dv_claim, Dv_prepare 2 False, Dv_reap] exhausted) = [1, 2] \<and>
   dv_status (fold delivery_step [Dv_claim, Dv_prepare 2 False, Dv_reap] exhausted) = Job_queued"
proof -
  have 1: "delivery_reachable 1 (one_send 0 Timed_out @ [Dv_resume] @ one_send 1 Timed_out @ [Dv_resume]) exhausted"
    unfolding exhausted_def by (rule delivery_reachable_fold)
  have 2: "dv_status exhausted = Job_queued" "\<not> dv_paused exhausted" "dv_attempts exhausted = 1 + 1" by code_simp+
  have 3: "2 = dv_nextLease exhausted" "[1, 2] = dv_calls exhausted" "dv_attempts exhausted = 2" by code_simp+
  show ?thesis unfolding 3(2) using exhausted_job_circles [OF 1 2 3(1) refl] 2 3(3) by blast
qed

text \<open>Every step of every writer moves the status along \<open>JOB_TRANSITIONS\<close>, but for two.\<close>

lemma status_write_edge:
  "dv_status (delivery_step e s) = dv_status s \<or> canTransition (dv_status s) (dv_status (delivery_step e s)) \<or>
   (\<exists>u. e = Dv_redrive u) \<and> dv_status s = Job_needs_reconcile \<and> dv_status (delivery_step e s) \<in> {Job_queued, Job_failed} \<or>
   e = Dv_epoch \<and> dv_status s = Job_queued \<and> dv_status (delivery_step e s) = Job_blocked_needs_review"
proof (cases e)
  case Dv_reap
  then show ?thesis
    by (auto simp: reap_expired_lease_def reap_status_def Let_def canTransition_def split: option.splits attempt_state.splits if_splits)
next
  case (Dv_redrive u)
  then show ?thesis using failure_outcome_status
    by (auto simp: reaper_redrive_def reclassifyReapedFailure_def split: list.splits option.splits if_splits)
next
  case (Dv_fail_job l u)
  have "canTransition Job_processing (dv_status (failure_outcome c n k u s))" for c n k
    using failure_outcome_status [of c n k u s] by (auto simp: canTransition_def)
  then show ?thesis using Dv_fail_job
    by (auto simp: resolveFailure_job_def worker_done_def holds_claim_def split: option.splits phase.splits)
next
  case (Dv_prepare l o1)
  then show ?thesis
    by (auto simp: dispatch_prepare_def runPrecheckAndPrepare_def runOptOutPrecheck_def prepareAndIncrement_def worker_done_def
        to_phase_def holds_claim_def canTransition_def Let_def split: option.splits phase.splits sum.splits prod.splits bool.splits if_splits)
next
  case (Dv_reconcile out env)
  then show ?thesis
    by (auto simp: reconcile_apply_def applyResolve_def writeAmbiguousInTx_def writeResolvedFields_def applyAmbiguous_def
      applyExpired_def needs_reconcile_to_def Let_def set_state_def canTransition_def
      split: list.splits reconcile_outcome.splits if_splits)
qed (auto simp: claim_jobs_def to_phase_def defer_job_def dispose_job_def worker_done_def holds_claim_def mark_eq transport_send_def
    settle_def resolveAck_attempt_def resolveAck_job_def resolveFailure_attempt_def markAttempt_def Let_def
    reconcile_scan_def retryUnresolved_def discardUnresolved_def epoch_sweep_def restamp_def cancel_queued_def
    drain_markNeedsReconcile_def canTransition_def split: option.splits phase.splits if_splits)

text \<open>The writers that do not leave the graph: all but the re-drive and the epoch sweep.\<close>

fun in_graph :: "delivery_event \<Rightarrow> bool" where
  "in_graph (Dv_redrive u) = False"
| "in_graph Dv_epoch = False"
| "in_graph _ = True"

interpretation writes: follows_graph delivery_step in_graph dv_status canTransition
proof unfold_locales
  fix e s
  assume "in_graph e"
  then show "dv_status (delivery_step e s) = dv_status s \<or> canTransition (dv_status s) (dv_status (delivery_step e s))"
    using status_write_edge [of e s] by auto
qed

text \<open>C2. The writers of a job's status refine the domain's state machine: in any history without the two writers below,
  from any state, the statuses the job goes through are a walk of \<open>JOB_TRANSITIONS\<close>, so everything shown of such walks
  holds of it; and the only writes outside the graph are the re-drive of a reaped failure, from \<open>needs_reconcile\<close> to
  \<open>queued\<close> or \<open>failed\<close>, and the epoch sweep of a queued job, which is blocked for review.\<close>

lemma delivery_refines_job_fsm:
  "(\<forall>es s. list_all in_graph es \<longrightarrow> job_history (remdups_adj (map dv_status (run_states delivery_step s es)))) \<and>
   (\<forall>e s. dv_status (delivery_step e s) = dv_status s \<or> canTransition (dv_status s) (dv_status (delivery_step e s)) \<or>
     (\<exists>u. e = Dv_redrive u) \<and> dv_status s = Job_needs_reconcile \<and> dv_status (delivery_step e s) \<in> {Job_queued, Job_failed} \<or>
     e = Dv_epoch \<and> dv_status s = Job_queued \<and> dv_status (delivery_step e s) = Job_blocked_needs_review)"
  using writes.history_is_walk status_write_edge by blast

lemma delivery_refines_job_fsm_witness:
  "job_history (remdups_adj (map dv_status (run_states delivery_step (delivery_new 3) retried_send)))"
proof -
  have "list_all in_graph retried_send" by code_simp
  then show ?thesis using conjunct1 [OF delivery_refines_job_fsm] by blast
qed

fun event_lease :: "delivery_event \<Rightarrow> nat option" where
  "event_lease (Dv_defer l) = Some l"
| "event_lease (Dv_dispose l c) = Some l"
| "event_lease (Dv_prepare l o1) = Some l"
| "event_lease (Dv_mark l) = Some l"
| "event_lease (Dv_send l) = Some l"
| "event_lease (Dv_settle l o1) = Some l"
| "event_lease (Dv_ack_attempt l) = Some l"
| "event_lease (Dv_ack_job l priced) = Some l"
| "event_lease (Dv_fail_attempt l) = Some l"
| "event_lease (Dv_fail_job l u) = Some l"
| "event_lease _ = None"

fun_cases event_lease_SomeE: "event_lease e = Some l"

text \<open>Setting the state of one attempt leaves the other attempts alone.\<close>

lemma row_of_map:
  assumes "m \<noteq> n" and "\<And>r. ar_no (f r) = ar_no r"
  shows "row_of m (map (\<lambda>r. if ar_no r = n then f r else r) rows) = row_of m rows"
  using assms by (induction rows) (auto simp: row_of_def)

lemma row_of_changed:
  "row_of m (set_rows n st err rows) \<noteq> row_of m rows \<Longrightarrow> n = m"
  "row_of m (dv_rows (set_state n st s)) \<noteq> row_of m (dv_rows s) \<Longrightarrow> n = m"
  using row_of_map [of m n "\<lambda>r. r\<lparr>ar_state := st, ar_error := err\<rparr>" rows]
    row_of_map [of m n "\<lambda>r. r\<lparr>ar_state := st\<rparr>" "dv_rows s"]
  by (auto simp: set_rows_def set_state_def)

lemma row_nos:
  "map ar_no (set_rows n st err rows) = map ar_no rows" "map ar_no (dv_rows (set_state n st s)) = map ar_no (dv_rows s)"
  "dv_delay (set_state n st s) = dv_delay s"
  by (simp_all add: set_rows_def set_state_def comp_def if_distrib cong: if_cong)

text \<open>C3. A worker whose lease the job no longer carries can change neither the job's status, lease, count and delay nor its
  list of attempts, whatever continuation it resumes; only the state of its own attempt is still written.\<close>

lemma stale_worker_cannot_write:
  assumes "event_lease e = Some l" and "dv_lease s \<noteq> Some l"
  shows "dv_status (delivery_step e s) = dv_status s \<and> dv_lease (delivery_step e s) = dv_lease s \<and>
    dv_attempts (delivery_step e s) = dv_attempts s \<and> dv_delay (delivery_step e s) = dv_delay s \<and>
    map ar_no (dv_rows (delivery_step e s)) = map ar_no (dv_rows s) \<and>
    (\<forall>m. row_of m (dv_rows (delivery_step e s)) \<noteq> row_of m (dv_rows s) \<longrightarrow>
       (\<exists>p. dv_workers s l = Some p \<and> phase_no p = Some m))"
proof (cases e)
  case (Dv_prepare k o1)
  then have "k = l" using assms(1) by simp
  then show ?thesis using assms(2) Dv_prepare
    by (auto simp: dispatch_prepare_def runPrecheckAndPrepare_def runOptOutPrecheck_def prepareAndIncrement_def holds_claim_def
        worker_done_def split: option.splits phase.splits)
next
  case (Dv_mark k)
  then have "k = l" using assms(1) by simp
  then have eq: "delivery_step e s = markDispatched l s" using Dv_mark by simp
  show ?thesis unfolding eq by (auto simp: mark_eq to_phase_def row_nos dest: row_of_changed split: option.split phase.split)
next
  case (Dv_ack_attempt k)
  then have "k = l" using assms(1) by simp
  then show ?thesis using Dv_ack_attempt
    by (auto dest: row_of_changed simp: resolveAck_attempt_def markAttempt_def Let_def to_phase_def worker_done_def row_nos split: option.splits phase.splits)
next
  case (Dv_fail_attempt k)
  then have "k = l" using assms(1) by simp
  then show ?thesis using Dv_fail_attempt
    by (auto dest: row_of_changed simp: resolveFailure_attempt_def markAttempt_def Let_def to_phase_def row_nos split: option.splits phase.splits)
qed (use assms in \<open>auto simp: defer_job_def dispose_job_def worker_done_def holds_claim_def transport_send_def
    settle_def resolveAck_job_def resolveFailure_job_def to_phase_def split: option.splits phase.splits\<close>)

definition reclaimed :: delivery where
  "reclaimed = fold delivery_step [Dv_claim, Dv_prepare 0 False, Dv_reap, Dv_claim, Dv_prepare 1 False] (delivery_new 3)"

lemma stale_worker_cannot_write_witness:
  "event_lease (Dv_mark 0) = Some 0 \<and> dv_lease reclaimed = Some 1 \<and>
   dv_status (delivery_step (Dv_mark 0) reclaimed) = Job_processing \<and> dv_attempts (delivery_step (Dv_mark 0) reclaimed) = 2"
proof -
  have 1: "event_lease (Dv_mark 0) = Some 0" by (rule event_lease.simps)
  have 2: "dv_lease reclaimed \<noteq> Some 0" "dv_lease reclaimed = Some 1" by code_simp+
  have 3: "dv_status reclaimed = Job_processing" "dv_attempts reclaimed = 2" by code_simp+
  show ?thesis using stale_worker_cannot_write [OF 1 2(1)] 1 2(2) 3 by simp
qed

text \<open>The send itself is not fenced: when the reaper reclaims the lease of a worker that has committed its attempt but
  not yet marked it \<open>dispatched\<close>, the job is queued again, its next claim sends a second attempt, and the first worker,
  which reads no lease after \<open>prepareAndIncrement\<close>, then hands the first attempt to the provider too.\<close>

lemma stalled_worker_sends_second_time:
  assumes "delivery_reachable m es s" and w: "dv_workers s l = Some (Ph_prepared n)" and h: "holds_claim l s"
    and row: "row_of n (dv_rows s) = Some r" "ar_state r = A_prepared" and a: "dv_attempts s < m" and p: "\<not> dv_paused s"
    and k: "k = dv_nextLease s"
    and t: "t = fold delivery_step [Dv_reap, Dv_claim, Dv_prepare k False, Dv_mark k, Dv_send k, Dv_mark l, Dv_send l] s"
  shows "dv_calls t = dv_calls s @ [dv_attempts s + 1, n] \<and> dv_released t = dv_released s"
proof -
  have inv: "book_inv s" "dv_max s = m" using reachable_books [OF assms(1)] by auto
  have new: "dv_attempts s + 1 \<notin> fst ` set (row_ids (dv_rows s))" by (rule new_attempt_fresh [OF inv(1)])
  have n: "(n, l) \<in> set (row_ids (dv_rows s))" by (rule phase_row [OF inv(1) w]) simp
  have lk: "l \<noteq> k" using book_inv_rows [OF inv(1) n] k by simp
  obtain r' where r': "find (\<lambda>r. ar_lease r = l) (dv_rows s) = Some r'" "r' \<in> set (dv_rows s)" "ar_lease r' = l"
    using n by (cases "find (\<lambda>r. ar_lease r = l) (dv_rows s)") (auto simp: find_None_iff find_Some_iff row_ids_def)
  have "(ar_no r', l) \<in> set (row_ids (dv_rows s))" using r'(2,3) by (force simp: row_ids_def)
  then have no: "ar_no r' = n" using row_ids_inj [OF inv(1) n] by blast
  have r: "r \<in> set (dv_rows s)" "ar_no r = n" using row(1) by (auto simp: row_of_def find_Some_iff)
  have "inj_on ar_no (set (dv_rows s))"
    using book_inv_rest [OF inv(1)] by (simp add: row_ids_def comp_def distinct_map)
  then have "r' = r" using r r'(2) no by (auto dest: inj_onD)
  then have reap: "reap_expired_lease s = s\<lparr>dv_status := Job_queued, dv_lease := None\<rparr>"
    using h a row(2) inv(2) r'(1) by (simp add: reap_expired_lease_def holds_claim_def reap_status_def)
  let ?s3 = "fold delivery_step [Dv_reap, Dv_claim] s"
  have e3: "dv_workers ?s3 = (dv_workers s)(k \<mapsto> Ph_claimed (dv_attempts s))" "dv_lease ?s3 = Some k" "dv_rows ?s3 = dv_rows s"
    "dv_attempts ?s3 = dv_attempts s" "dv_max ?s3 = m" "dv_calls ?s3 = dv_calls s" "dv_released ?s3 = dv_released s"
    using k p inv(2) by (simp_all add: reap claim_jobs_def to_phase_def)
  have "t = fold delivery_step [Dv_prepare k False, Dv_mark k, Dv_send k, Dv_mark l, Dv_send l] ?s3" by (simp add: t)
  then show ?thesis
    using e3 new a w lk by (simp add: dispatch_prepare_def runPrecheckAndPrepare_def runOptOutPrecheck_def prepareAndIncrement_def
        markDispatched_def transport_send_def to_phase_def set_state_def)
qed

definition stalled :: delivery where
  "stalled = fold delivery_step [Dv_claim, Dv_prepare 0 False] (delivery_new 3)"

lemma stalled_worker_sends_second_time_witness:
  "dv_calls (fold delivery_step [Dv_reap, Dv_claim, Dv_prepare 1 False, Dv_mark 1, Dv_send 1, Dv_mark 0, Dv_send 0] stalled) = [2, 1]"
proof -
  have 1: "delivery_reachable 3 [Dv_claim, Dv_prepare 0 False] stalled"
    unfolding stalled_def by (rule delivery_reachable_fold)
  have 2: "dv_workers stalled 0 = Some (Ph_prepared 1)" "holds_claim 0 stalled" by code_simp+
  have 3: "row_of 1 (dv_rows stalled) = Some \<lparr>ar_no = 1, ar_lease = 0, ar_state = A_prepared, ar_error = None\<rparr>"
    "ar_state \<lparr>ar_no = 1, ar_lease = 0, ar_state = A_prepared, ar_error = None\<rparr> = A_prepared" by code_simp+
  have 4: "dv_attempts stalled < 3" "\<not> dv_paused stalled" "1 = dv_nextLease stalled" by code_simp+
  have 5: "dv_calls stalled @ [dv_attempts stalled + 1, 1] = [2, 1]" by code_simp
  show ?thesis unfolding 5 [symmetric] using stalled_worker_sends_second_time [OF 1 2 3 4 refl] by blast
qed

end
