(* ===== verification/Pacing.thy ===== *)
theory Pacing
  imports Complex_Main Prelude "HOL-Library.List_Lexorder"
begin

text \<open>
  Sending limits, \<open>packages/domain/src/pacing\<close>: the absolute constants, the warm-up ladder and the health band
  effects, the fold of the four layers (\<open>resolve-effective.ts\<close>), the clamp of a staff relax (\<open>relax-bounds.ts\<close>), the
  gap draw and the long pause (\<open>gap-jitter.ts\<close>); and the warm-up decision of the engine
  (\<open>engine/pacing/warmup-decision.ts\<close>, with the rounding of \<open>config-service.ts\<close>). JavaScript numbers are reals, so
  a product such as \<open>20 * 0.7\<close> is exact; the random source is the argument \<open>u\<close>.
\<close>

section \<open>Constants (constants.ts)\<close>

definition ABSOLUTE_GAP_MIN_MS :: real where "ABSOLUTE_GAP_MIN_MS = 15000"
definition ABSOLUTE_DAILY_CEILING :: real where "ABSOLUTE_DAILY_CEILING = 2000"
definition ABSOLUTE_GROUP_DAILY_CEILING :: real where "ABSOLUTE_GROUP_DAILY_CEILING = 50"
definition LONG_PAUSE_MIN_EVERY_N_SENDS :: int where "LONG_PAUSE_MIN_EVERY_N_SENDS = 18"
definition LONG_PAUSE_MAX_EVERY_N_SENDS :: int where "LONG_PAUSE_MAX_EVERY_N_SENDS = 35"
definition LONG_PAUSE_MULTIPLIER_MIN :: real where "LONG_PAUSE_MULTIPLIER_MIN = 4"
definition LONG_PAUSE_MULTIPLIER_MAX :: real where "LONG_PAUSE_MULTIPLIER_MAX = 9"
definition LONG_PAUSE_CAP_MS :: int where "LONG_PAUSE_CAP_MS = 15 * 60 * 1000"

lemmas absolutes = ABSOLUTE_GAP_MIN_MS_def ABSOLUTE_DAILY_CEILING_def ABSOLUTE_GROUP_DAILY_CEILING_def

section \<open>Layers (resolve-effective.ts, warmup-ladder.ts)\<close>

record local_window =
  startLocal :: string
  endLocal :: string

record pacing_layer =
  ly_dailyCap :: "real option"
  ly_hourlyCap :: "real option"
  ly_newConvCap :: "real option"
  ly_gapMinMs :: "real option"
  ly_gapMaxMs :: "real option"
  ly_coldRatioMax :: "real option"
  ly_coldRatioFloor :: "real option"
  ly_perRecipient24h :: "real option"
  ly_groupDailyCap :: "real option"
  ly_window :: "local_window option"
  ly_blockLinkFirst :: "bool option"
  ly_blockGroupActions :: "bool option"

definition no_opinion :: pacing_layer where
  "no_opinion = \<lparr>ly_dailyCap = None, ly_hourlyCap = None, ly_newConvCap = None, ly_gapMinMs = None, ly_gapMaxMs = None,
     ly_coldRatioMax = None, ly_coldRatioFloor = None, ly_perRecipient24h = None, ly_groupDailyCap = None,
     ly_window = None, ly_blockLinkFirst = None, ly_blockGroupActions = None\<rparr>"

text \<open>The bands, from the most to the least restricted (\<open>BAND_ORDER\<close> of \<open>bands.ts\<close>).\<close>

datatype health_band = Critical | Degraded | Watch | Healthy

fun band_rank :: "health_band \<Rightarrow> nat" where
  "band_rank Critical = 0"
| "band_rank Degraded = 1"
| "band_rank Watch = 2"
| "band_rank Healthy = 3"

instantiation health_band :: linorder
begin

definition less_eq_health_band :: "health_band \<Rightarrow> health_band \<Rightarrow> bool" where
  "less_eq_health_band a b \<longleftrightarrow> band_rank a \<le> band_rank b"

definition less_health_band :: "health_band \<Rightarrow> health_band \<Rightarrow> bool" where
  "less_health_band a b \<longleftrightarrow> band_rank a < band_rank b"

instance
proof
  fix a b c :: health_band
  show "a \<le> b \<Longrightarrow> b \<le> a \<Longrightarrow> a = b"
    by (cases a; cases b) (simp_all add: less_eq_health_band_def)
qed (auto simp: less_eq_health_band_def less_health_band_def)

end

record health_band_effect =
  capMultiplier :: real
  gapMultiplier :: real
  newConvMultiplier :: real
  freezesWarmup :: bool
  groupCapMultiplier :: real
  he_paused :: bool

fun HEALTH_BAND_EFFECTS :: "health_band \<Rightarrow> health_band_effect" where
  "HEALTH_BAND_EFFECTS Healthy = \<lparr>capMultiplier = 1, gapMultiplier = 1, newConvMultiplier = 1, freezesWarmup = False,
     groupCapMultiplier = 1, he_paused = False\<rparr>"
| "HEALTH_BAND_EFFECTS Watch = \<lparr>capMultiplier = 7/10, gapMultiplier = 3/2, newConvMultiplier = 1/2, freezesWarmup = True,
     groupCapMultiplier = 1/2, he_paused = False\<rparr>"
| "HEALTH_BAND_EFFECTS Degraded = \<lparr>capMultiplier = 4/10, gapMultiplier = 5/2, newConvMultiplier = 0, freezesWarmup = True,
     groupCapMultiplier = 0, he_paused = False\<rparr>"
| "HEALTH_BAND_EFFECTS Critical = \<lparr>capMultiplier = 0, gapMultiplier = 1, newConvMultiplier = 0, freezesWarmup = True,
     groupCapMultiplier = 0, he_paused = True\<rparr>"

record warmup_tier =
  wt_tier :: int
  wt_dayFrom :: int
  wt_dayTo :: "int option"
  wt_dailyCap :: real
  wt_hourlyCap :: real
  wt_newConvCap :: real
  wt_gapMinMs :: real
  wt_gapMaxMs :: real
  wt_coldRatioMax :: real
  wt_groupDailyCap :: real
  wt_blockLinkFirst :: bool
  wt_blockGroupActions :: bool

definition WARMUP_LADDER :: "warmup_tier list" where
  "WARMUP_LADDER =
    [\<lparr>wt_tier = 1, wt_dayFrom = 1, wt_dayTo = Some 2, wt_dailyCap = 20, wt_hourlyCap = 6, wt_newConvCap = 8,
      wt_gapMinMs = 45000, wt_gapMaxMs = 180000, wt_coldRatioMax = 4/10, wt_groupDailyCap = 0,
      wt_blockLinkFirst = True, wt_blockGroupActions = True\<rparr>,
     \<lparr>wt_tier = 2, wt_dayFrom = 3, wt_dayTo = Some 7, wt_dailyCap = 50, wt_hourlyCap = 12, wt_newConvCap = 15,
      wt_gapMinMs = 40000, wt_gapMaxMs = 150000, wt_coldRatioMax = 5/10, wt_groupDailyCap = 0,
      wt_blockLinkFirst = True, wt_blockGroupActions = True\<rparr>,
     \<lparr>wt_tier = 3, wt_dayFrom = 8, wt_dayTo = Some 14, wt_dailyCap = 150, wt_hourlyCap = 25, wt_newConvCap = 40,
      wt_gapMinMs = 30000, wt_gapMaxMs = 120000, wt_coldRatioMax = 6/10, wt_groupDailyCap = 0,
      wt_blockLinkFirst = True, wt_blockGroupActions = True\<rparr>,
     \<lparr>wt_tier = 4, wt_dayFrom = 15, wt_dayTo = Some 21, wt_dailyCap = 300, wt_hourlyCap = 45, wt_newConvCap = 80,
      wt_gapMinMs = 25000, wt_gapMaxMs = 90000, wt_coldRatioMax = 7/10, wt_groupDailyCap = 10,
      wt_blockLinkFirst = False, wt_blockGroupActions = False\<rparr>,
     \<lparr>wt_tier = 5, wt_dayFrom = 22, wt_dayTo = Some 29, wt_dailyCap = 450, wt_hourlyCap = 60, wt_newConvCap = 110,
      wt_gapMinMs = 20000, wt_gapMaxMs = 75000, wt_coldRatioMax = 75/100, wt_groupDailyCap = 20,
      wt_blockLinkFirst = False, wt_blockGroupActions = False\<rparr>,
     \<lparr>wt_tier = 6, wt_dayFrom = 30, wt_dayTo = None, wt_dailyCap = 600, wt_hourlyCap = 80, wt_newConvCap = 150,
      wt_gapMinMs = 15000, wt_gapMaxMs = 60000, wt_coldRatioMax = 8/10, wt_groupDailyCap = 30,
      wt_blockLinkFirst = False, wt_blockGroupActions = False\<rparr>]"

text \<open>\<open>warmupTierLayer\<close> of \<open>warmup-evaluator-row.ts\<close>: an unknown tier falls back to the first row.\<close>

definition tier_row :: "int \<Rightarrow> warmup_tier option" where
  "tier_row t = find (\<lambda>r. wt_tier r = t) WARMUP_LADDER"

definition warmupTierLayer :: "int \<Rightarrow> pacing_layer" where
  "warmupTierLayer tier =
    (let row = (case tier_row tier of Some r \<Rightarrow> r | None \<Rightarrow> WARMUP_LADDER ! 0) in
     no_opinion\<lparr>ly_dailyCap := Some (wt_dailyCap row), ly_hourlyCap := Some (wt_hourlyCap row),
       ly_newConvCap := Some (wt_newConvCap row), ly_gapMinMs := Some (wt_gapMinMs row), ly_gapMaxMs := Some (wt_gapMaxMs row),
       ly_coldRatioMax := Some (wt_coldRatioMax row), ly_groupDailyCap := Some (wt_groupDailyCap row),
       ly_blockLinkFirst := Some (wt_blockLinkFirst row), ly_blockGroupActions := Some (wt_blockGroupActions row)\<rparr>)"

record admin_override =
  ao_layer :: pacing_layer
  ao_actorUserId :: string
  ao_reason :: string
  ao_expiresAt :: "int option"

record layers =
  systemProfile :: pacing_layer
  warmupTier :: pacing_layer
  healthBand :: health_band
  tenantTightening :: "pacing_layer option"
  adminOverride :: "admin_override option"

record effective_limits =
  ef_dailyCap :: real
  ef_hourlyCap :: real
  ef_newConvCap :: real
  ef_gapMinMs :: real
  ef_gapMaxMs :: real
  ef_coldRatioMax :: real
  ef_coldRatioFloor :: real
  ef_perRecipient24h :: "real option"
  ef_groupDailyCap :: real
  ef_windowStartLocal :: "string option"
  ef_windowEndLocal :: "string option"
  ef_blockLinkFirst :: bool
  ef_blockGroupActions :: bool

section \<open>The fold (resolve-effective.ts)\<close>

definition minOf :: "real option list \<Rightarrow> real option" where
  "minOf vs = (case List.map_filter (\<lambda>v. v) vs of [] \<Rightarrow> None | x # xs \<Rightarrow> Some (fold min xs x))"

definition maxOf :: "real option list \<Rightarrow> real option" where
  "maxOf vs = (case List.map_filter (\<lambda>v. v) vs of [] \<Rightarrow> None | x # xs \<Rightarrow> Some (fold max xs x))"

definition orFalse :: "bool option list \<Rightarrow> bool" where
  "orFalse vs \<longleftrightarrow> Some True \<in> set vs"

definition intersectWindow :: "local_window option list \<Rightarrow> local_window option" where
  "intersectWindow ws = (case List.map_filter (\<lambda>w. w) ws of
      [] \<Rightarrow> None
    | first # rest \<Rightarrow> Some (fold (\<lambda>w acc.
        \<lparr>startLocal = (if startLocal w > startLocal acc then startLocal w else startLocal acc),
         endLocal = (if endLocal w < endLocal acc then endLocal w else endLocal acc)\<rparr>) rest first))"

definition applyHealthBandCaps :: "pacing_layer \<Rightarrow> health_band \<Rightarrow> pacing_layer" where
  "applyHealthBandCaps layer band =
    (let effect = HEALTH_BAND_EFFECTS band in
     layer\<lparr>ly_dailyCap := map_option (\<lambda>v. v * capMultiplier effect) (ly_dailyCap layer),
       ly_hourlyCap := map_option (\<lambda>v. v * capMultiplier effect) (ly_hourlyCap layer),
       ly_newConvCap := map_option (\<lambda>v. v * newConvMultiplier effect) (ly_newConvCap layer),
       ly_gapMinMs := map_option (\<lambda>v. v * gapMultiplier effect) (ly_gapMinMs layer),
       ly_gapMaxMs := map_option (\<lambda>v. v * gapMultiplier effect) (ly_gapMaxMs layer),
       ly_groupDailyCap := map_option (\<lambda>v. v * groupCapMultiplier effect) (ly_groupDailyCap layer)\<rparr>)"

definition foldStrictest :: "pacing_layer list \<Rightarrow> pacing_layer" where
  "foldStrictest ls =
    \<lparr>ly_dailyCap = minOf (map ly_dailyCap ls), ly_hourlyCap = minOf (map ly_hourlyCap ls),
     ly_newConvCap = minOf (map ly_newConvCap ls), ly_gapMinMs = maxOf (map ly_gapMinMs ls),
     ly_gapMaxMs = maxOf (map ly_gapMaxMs ls), ly_coldRatioMax = minOf (map ly_coldRatioMax ls),
     ly_coldRatioFloor = maxOf (map ly_coldRatioFloor ls), ly_perRecipient24h = minOf (map ly_perRecipient24h ls),
     ly_groupDailyCap = minOf (map ly_groupDailyCap ls), ly_window = intersectWindow (map ly_window ls),
     ly_blockLinkFirst = Some (orFalse (map ly_blockLinkFirst ls)),
     ly_blockGroupActions = Some (orFalse (map ly_blockGroupActions ls))\<rparr>"

text \<open>\<open>a ?? b\<close>\<close>

definition or_else :: "'a option \<Rightarrow> 'a option \<Rightarrow> 'a option" where
  "or_else a b = (case a of None \<Rightarrow> b | Some x \<Rightarrow> Some x)"

definition applyAdminOverride :: "pacing_layer \<Rightarrow> admin_override option \<Rightarrow> pacing_layer" where
  "applyAdminOverride folded override =
    (case override of
       None \<Rightarrow> folded
     | Some ao \<Rightarrow> (let o1 = ao_layer ao in
        \<lparr>ly_dailyCap = or_else (ly_dailyCap o1) (ly_dailyCap folded),
         ly_hourlyCap = or_else (ly_hourlyCap o1) (ly_hourlyCap folded),
         ly_newConvCap = or_else (ly_newConvCap o1) (ly_newConvCap folded),
         ly_gapMinMs = or_else (ly_gapMinMs o1) (ly_gapMinMs folded),
         ly_gapMaxMs = or_else (ly_gapMaxMs o1) (ly_gapMaxMs folded),
         ly_coldRatioMax = or_else (ly_coldRatioMax o1) (ly_coldRatioMax folded),
         ly_coldRatioFloor = or_else (ly_coldRatioFloor o1) (ly_coldRatioFloor folded),
         ly_perRecipient24h = or_else (ly_perRecipient24h o1) (ly_perRecipient24h folded),
         ly_groupDailyCap = or_else (ly_groupDailyCap o1) (ly_groupDailyCap folded),
         ly_window = or_else (ly_window o1) (ly_window folded),
         ly_blockLinkFirst = or_else (ly_blockLinkFirst o1) (ly_blockLinkFirst folded),
         ly_blockGroupActions = or_else (ly_blockGroupActions o1) (ly_blockGroupActions folded)\<rparr>))"

definition clampToAbsolutes :: "pacing_layer \<Rightarrow> pacing_layer" where
  "clampToAbsolutes layer =
    layer\<lparr>ly_dailyCap := map_option (\<lambda>v. min v ABSOLUTE_DAILY_CEILING) (ly_dailyCap layer),
      ly_gapMinMs := map_option (\<lambda>v. max v ABSOLUTE_GAP_MIN_MS) (ly_gapMinMs layer),
      ly_gapMaxMs := map_option (\<lambda>v. max v ABSOLUTE_GAP_MIN_MS) (ly_gapMaxMs layer),
      ly_groupDailyCap := map_option (\<lambda>v. min v ABSOLUTE_GROUP_DAILY_CEILING) (ly_groupDailyCap layer)\<rparr>"

text \<open>The \<open>RangeError\<close> names the missing field.\<close>

definition requireNumber :: "real option \<Rightarrow> string \<Rightarrow> (string, real) result" where
  "requireNumber v field = (case v of None \<Rightarrow> Err field | Some x \<Rightarrow> Ok x)"

definition folded_layers :: "layers \<Rightarrow> pacing_layer" where
  "folded_layers ls =
    foldStrictest
      ([applyHealthBandCaps (systemProfile ls) (healthBand ls), applyHealthBandCaps (warmupTier ls) (healthBand ls)] @
       (case tenantTightening ls of None \<Rightarrow> [] | Some t \<Rightarrow> [applyHealthBandCaps t (healthBand ls)]))"

definition resolveEffective :: "layers \<Rightarrow> (string, effective_limits) result" where
  "resolveEffective ls =
    (let clamped = clampToAbsolutes (applyAdminOverride (folded_layers ls) (adminOverride ls)) in
     bindR (requireNumber (ly_dailyCap clamped) ''dailyCap'') (\<lambda>dc.
     bindR (requireNumber (ly_hourlyCap clamped) ''hourlyCap'') (\<lambda>hc.
     bindR (requireNumber (ly_newConvCap clamped) ''newConvCap'') (\<lambda>nc.
     bindR (requireNumber (ly_gapMinMs clamped) ''gapMinMs'') (\<lambda>gmin.
     bindR (requireNumber (ly_gapMaxMs clamped) ''gapMaxMs'') (\<lambda>gmax.
     bindR (requireNumber (ly_coldRatioMax clamped) ''coldRatioMax'') (\<lambda>crm.
     bindR (requireNumber (ly_coldRatioFloor clamped) ''coldRatioFloor'') (\<lambda>crf.
     Ok \<lparr>ef_dailyCap = dc, ef_hourlyCap = hc, ef_newConvCap = nc, ef_gapMinMs = gmin, ef_gapMaxMs = gmax,
         ef_coldRatioMax = crm, ef_coldRatioFloor = crf, ef_perRecipient24h = ly_perRecipient24h clamped,
         ef_groupDailyCap = (case ly_groupDailyCap clamped of None \<Rightarrow> 0 | Some g \<Rightarrow> g),
         ef_windowStartLocal = map_option startLocal (ly_window clamped),
         ef_windowEndLocal = map_option endLocal (ly_window clamped),
         ef_blockLinkFirst = (case ly_blockLinkFirst clamped of None \<Rightarrow> False | Some b \<Rightarrow> b),
         ef_blockGroupActions = (case ly_blockGroupActions clamped of None \<Rightarrow> False | Some b \<Rightarrow> b)\<rparr>))))))))"

section \<open>Staff relax (relax-bounds.ts)\<close>

datatype relax_field = F_dailyCap | F_hourlyCap | F_newConvCap | F_gapMinMs | F_gapMaxMs | F_groupDailyCap

text \<open>A patch as its own properties in order; a property may hold \<open>undefined\<close>.\<close>

type_synonym relax_patch = "(relax_field \<times> real option) list"

datatype relax_error =
    AdminRelaxEmptyPatchError
  | AdminRelaxInvalidValueError relax_field real
  | AdminRelaxExpiryError int int

definition MAX_ADMIN_RELAX_MS :: int where "MAX_ADMIN_RELAX_MS = 30 * 24 * 3600 * 1000"

definition CEILING_FIELDS :: "(relax_field \<times> real) list" where
  "CEILING_FIELDS = [(F_dailyCap, ABSOLUTE_DAILY_CEILING), (F_hourlyCap, ABSOLUTE_DAILY_CEILING),
     (F_newConvCap, ABSOLUTE_DAILY_CEILING), (F_groupDailyCap, ABSOLUTE_GROUP_DAILY_CEILING)]"

definition FLOOR_FIELDS :: "relax_field list" where
  "FLOOR_FIELDS = [F_gapMinMs, F_gapMaxMs]"

definition patch_get :: "relax_patch \<Rightarrow> relax_field \<Rightarrow> real option" where
  "patch_get p f = (case map_of p f of None \<Rightarrow> None | Some v \<Rightarrow> v)"

definition patch_set :: "relax_patch \<Rightarrow> relax_field \<Rightarrow> real \<Rightarrow> relax_patch" where
  "patch_set p f v = map (\<lambda>(g, w). if g = f then (g, Some v) else (g, w)) p"

definition isInteger :: "real \<Rightarrow> bool" where
  "isInteger v \<longleftrightarrow> of_int \<lfloor>v\<rfloor> = v"

fun assertValid :: "relax_patch \<Rightarrow> (relax_error, unit) result" where
  "assertValid [] = Ok ()"
| "assertValid ((f, None) # p) = assertValid p"
| "assertValid ((f, Some v) # p) =
    (if \<not> isInteger v \<or> v \<le> 0 then Err (AdminRelaxInvalidValueError f v) else assertValid p)"

definition clamp_ceiling :: "relax_field \<times> real \<Rightarrow> relax_patch \<times> relax_field list \<Rightarrow> relax_patch \<times> relax_field list" where
  "clamp_ceiling = (\<lambda>(field, ceiling) (clamped, fields).
    (case patch_get clamped field of
       Some value \<Rightarrow> if value > ceiling then (patch_set clamped field ceiling, fields @ [field]) else (clamped, fields)
     | None \<Rightarrow> (clamped, fields)))"

definition clamp_floor :: "relax_field \<Rightarrow> relax_patch \<times> relax_field list \<Rightarrow> relax_patch \<times> relax_field list" where
  "clamp_floor = (\<lambda>field (clamped, fields).
    (case patch_get clamped field of
       Some value \<Rightarrow> if value < ABSOLUTE_GAP_MIN_MS then (patch_set clamped field ABSOLUTE_GAP_MIN_MS, fields @ [field])
                     else (clamped, fields)
     | None \<Rightarrow> (clamped, fields)))"

definition clamp_gap_order :: "relax_patch \<times> relax_field list \<Rightarrow> relax_patch \<times> relax_field list" where
  "clamp_gap_order = (\<lambda>(clamped, fields).
    (case (patch_get clamped F_gapMinMs, patch_get clamped F_gapMaxMs) of
       (Some gmin, Some gmax) \<Rightarrow>
         if gmax < gmin
         then (patch_set clamped F_gapMaxMs gmin, if F_gapMaxMs \<in> set fields then fields else fields @ [F_gapMaxMs])
         else (clamped, fields)
     | _ \<Rightarrow> (clamped, fields)))"

definition clampAdminRelax :: "relax_patch \<Rightarrow> int \<Rightarrow> int \<Rightarrow> (relax_error, relax_patch \<times> relax_field list) result" where
  "clampAdminRelax patch expiresAtMs nowMs =
    (if patch = [] then Err AdminRelaxEmptyPatchError
     else bindR (assertValid patch) (\<lambda>_.
       if expiresAtMs \<le> nowMs \<or> expiresAtMs - nowMs > MAX_ADMIN_RELAX_MS
       then Err (AdminRelaxExpiryError expiresAtMs nowMs)
       else Ok (clamp_gap_order (fold clamp_floor FLOOR_FIELDS (fold clamp_ceiling CEILING_FIELDS (patch, []))))))"

text \<open>The patch as the layer the override carries.\<close>

definition patch_layer :: "relax_patch \<Rightarrow> pacing_layer" where
  "patch_layer p = no_opinion\<lparr>ly_dailyCap := patch_get p F_dailyCap, ly_hourlyCap := patch_get p F_hourlyCap,
     ly_newConvCap := patch_get p F_newConvCap, ly_gapMinMs := patch_get p F_gapMinMs, ly_gapMaxMs := patch_get p F_gapMaxMs,
     ly_groupDailyCap := patch_get p F_groupDailyCap\<rparr>"

section \<open>Gap jitter (gap-jitter.ts)\<close>

text \<open>\<open>Math.round\<close>\<close>

definition math_round :: "real \<Rightarrow> int" where
  "math_round x = \<lfloor>x + 1/2\<rfloor>"

definition drawGapMs :: "real \<Rightarrow> real \<Rightarrow> real \<Rightarrow> (string, real) result" where
  "drawGapMs minMs maxMs u =
    (if minMs \<le> 0 \<or> maxMs < minMs then Err ''drawGapMs: invalid bounds''
     else (let lower = max minMs ABSOLUTE_GAP_MIN_MS;
               lo = ln lower;
               hi = ln (max maxMs lower);
               draw = of_int (math_round (exp (lo + u * (hi - lo))))
           in Ok (min (max draw lower) (of_int (math_round (exp hi))))))"

record long_pause_state =
  sendsSinceLastPause :: int
  nextPauseAtSends :: int

definition drawNextPauseThreshold :: "real \<Rightarrow> int" where
  "drawNextPauseThreshold u =
    (let span = LONG_PAUSE_MAX_EVERY_N_SENDS - LONG_PAUSE_MIN_EVERY_N_SENDS
     in LONG_PAUSE_MIN_EVERY_N_SENDS + \<lfloor>u * of_int (span + 1)\<rfloor>)"

text \<open>The gap, the new state and whether the pause fired; the two draws come in the code's order.\<close>

definition applyLongPause :: "int \<Rightarrow> long_pause_state \<Rightarrow> real \<Rightarrow> real \<Rightarrow> int \<times> long_pause_state \<times> bool" where
  "applyLongPause baseGapMs s u1 u2 =
    (let sends = sendsSinceLastPause s + 1 in
     if sends < nextPauseAtSends s then (baseGapMs, s\<lparr>sendsSinceLastPause := sends\<rparr>, False)
     else (let multiplier = LONG_PAUSE_MULTIPLIER_MIN + u1 * (LONG_PAUSE_MULTIPLIER_MAX - LONG_PAUSE_MULTIPLIER_MIN);
               gapMs = min (math_round (of_int baseGapMs * multiplier)) LONG_PAUSE_CAP_MS
           in (gapMs, \<lparr>sendsSinceLastPause = 0, nextPauseAtSends = drawNextPauseThreshold u2\<rparr>, True)))"

section \<open>Rounding and checks of the config service (config-service.ts)\<close>

record eff_row =
  er_daily_cap :: int
  er_hourly_cap :: int
  er_new_conv_cap :: int
  er_gap_min_ms :: int
  er_gap_max_ms :: int
  er_cold_ratio_max :: real
  er_cold_ratio_floor :: int
  er_window_start_local :: "string option"
  er_window_end_local :: "string option"
  er_group_daily_cap :: int

definition toEffRow :: "effective_limits \<Rightarrow> eff_row" where
  "toEffRow r = \<lparr>er_daily_cap = \<lfloor>ef_dailyCap r\<rfloor>, er_hourly_cap = \<lfloor>ef_hourlyCap r\<rfloor>, er_new_conv_cap = \<lfloor>ef_newConvCap r\<rfloor>,
     er_gap_min_ms = \<lceil>ef_gapMinMs r\<rceil>, er_gap_max_ms = \<lceil>ef_gapMaxMs r\<rceil>, er_cold_ratio_max = ef_coldRatioMax r,
     er_cold_ratio_floor = \<lceil>ef_coldRatioFloor r\<rceil>, er_window_start_local = ef_windowStartLocal r,
     er_window_end_local = ef_windowEndLocal r, er_group_daily_cap = \<lfloor>ef_groupDailyCap r\<rfloor>\<rparr>"

datatype config_error =
    TenantTighteningLoosenedError string
  | AdminRelaxInvalidError string
  | Unresolved string

text \<open>A patched cap above, or a patched gap below, the limits resolved without the patch.\<close>

definition loosens_cap :: "real option \<Rightarrow> real \<Rightarrow> bool" where
  "loosens_cap patched baseline \<longleftrightarrow> (case patched of None \<Rightarrow> False | Some v \<Rightarrow> v > baseline)"

definition loosens_gap :: "real option \<Rightarrow> real \<Rightarrow> bool" where
  "loosens_gap patched baseline \<longleftrightarrow> (case patched of None \<Rightarrow> False | Some v \<Rightarrow> v < baseline)"

definition assertTenantPatchOnlyTightens :: "pacing_layer \<Rightarrow> effective_limits \<Rightarrow> (config_error, unit) result" where
  "assertTenantPatchOnlyTightens patch withoutPatch =
    (if loosens_cap (ly_dailyCap patch) (ef_dailyCap withoutPatch) then Err (TenantTighteningLoosenedError ''dailyCap'')
     else if loosens_cap (ly_hourlyCap patch) (ef_hourlyCap withoutPatch) then Err (TenantTighteningLoosenedError ''hourlyCap'')
     else if loosens_cap (ly_newConvCap patch) (ef_newConvCap withoutPatch) then Err (TenantTighteningLoosenedError ''newConvCap'')
     else if loosens_cap (ly_coldRatioMax patch) (ef_coldRatioMax withoutPatch) then Err (TenantTighteningLoosenedError ''coldRatioMax'')
     else if loosens_cap (ly_groupDailyCap patch) (ef_groupDailyCap withoutPatch) then Err (TenantTighteningLoosenedError ''groupDailyCap'')
     else if loosens_gap (ly_gapMinMs patch) (ef_gapMinMs withoutPatch) then Err (TenantTighteningLoosenedError ''gapMinMs'')
     else if loosens_gap (ly_gapMaxMs patch) (ef_gapMaxMs withoutPatch) then Err (TenantTighteningLoosenedError ''gapMaxMs'')
     else Ok ())"

definition THIRTY_DAYS_MS :: int where "THIRTY_DAYS_MS = 30 * 24 * 60 * 60 * 1000"

definition assertAdminRelaxValid :: "admin_override \<Rightarrow> int \<Rightarrow> (config_error, unit) result" where
  "assertAdminRelaxValid ao nowMs =
    (if ao_actorUserId ao = [] \<or> ao_reason ao = [] then Err (AdminRelaxInvalidError ''actor and reason are both required'')
     else (case ao_expiresAt ao of
             Some t \<Rightarrow> if t > nowMs + THIRTY_DAYS_MS then Err (AdminRelaxInvalidError ''expiresAt must be <= now() + 30 days'') else Ok ()
           | None \<Rightarrow> Ok ()))"

section \<open>Warm-up decision (warmup-decision.ts)\<close>

record warmup_input =
  wi_warmupTier :: int
  wi_warmupStartedAtMs :: "int option"
  wi_healthBand :: health_band
  wi_hasRecentHardRestrictionSignal :: bool
  wi_isPaused :: bool
  wi_degradedRollbackDueForEpisode :: bool
  wi_elapsedDays :: int

datatype warmup_decision = Hold "string list" | Advance int "string list" | Rollback int "string list"

fun band_name :: "health_band \<Rightarrow> string" where
  "band_name Critical = ''critical''"
| "band_name Degraded = ''degraded''"
| "band_name Watch = ''watch''"
| "band_name Healthy = ''healthy''"

definition decideWarmupAction :: "warmup_input \<Rightarrow> warmup_decision" where
  "decideWarmupAction i =
    (if wi_warmupStartedAtMs i = None then Hold [''missing_warmup_start'']
     else if wi_isPaused i then Hold [''instance_paused'']
     else if wi_healthBand i = Critical then Hold [''critical_band_pause_owned_by_p16'']
     else if wi_healthBand i = Degraded \<and> wi_degradedRollbackDueForEpisode i then
       (let toTier = max 1 (wi_warmupTier i - 1) in
        if toTier = wi_warmupTier i then Hold [''warmup_tier_floor_reached'']
        else Rollback toTier [''health_band_degraded''])
     else if freezesWarmup (HEALTH_BAND_EFFECTS (wi_healthBand i)) then Hold [''warmup_frozen_'' @ band_name (wi_healthBand i)]
     else (case tier_row (wi_warmupTier i + 1) of
             None \<Rightarrow> Hold [''warmup_tier_ceiling_reached'']
           | Some nextTier \<Rightarrow>
               if wi_elapsedDays i < wt_dayFrom nextTier then Hold [''warmup_not_yet_due'']
               else if wi_hasRecentHardRestrictionSignal i then Hold [''hard_restriction_signal_recent'']
               else Advance (wt_tier nextTier) [''warmup_day_threshold_reached'', ''no_restriction_signal_24h'']))"

text \<open>One evaluation of an instance standing at a tier, and a history of evaluations.\<close>

definition warmup_tick :: "warmup_input \<Rightarrow> int \<Rightarrow> int" where
  "warmup_tick i tier =
    (case decideWarmupAction (i\<lparr>wi_warmupTier := tier\<rparr>) of Hold rs \<Rightarrow> tier | Advance t rs \<Rightarrow> t | Rollback t rs \<Rightarrow> t)"


section \<open>The fold is the strictest layer\<close>

lemma fold_min_le: "fold min xs (a :: 'a :: linorder) \<le> a \<and> (\<forall>x\<in>set xs. fold min xs a \<le> x)"
  by (induction xs arbitrary: a) (auto simp: min_def intro: order_trans, meson linear order_trans)

lemma fold_max_ge: "(a :: 'a :: linorder) \<le> fold max xs a \<and> (\<forall>x\<in>set xs. x \<le> fold max xs a)"
  by (induction xs arbitrary: a) (auto simp: max_def intro: order_trans, meson linear order_trans)

lemma fold_min_in: "fold min xs (a :: 'a :: linorder) \<in> insert a (set xs)"
  by (induction xs arbitrary: a) (auto simp: min_def)

lemma fold_max_in: "fold max xs (a :: 'a :: linorder) \<in> insert a (set xs)"
  by (induction xs arbitrary: a) (auto simp: max_def)

lemma set_present: "x \<in> set (List.map_filter (\<lambda>v. v) vs) \<longleftrightarrow> Some x \<in> set vs"
  by (induction vs) (auto simp: List.map_filter_simps split: option.splits)

lemma minOf_le: "minOf vs = Some m \<Longrightarrow> Some v \<in> set vs \<Longrightarrow> m \<le> v"
  using fold_min_le by (fastforce simp: minOf_def set_present [symmetric] split: list.splits)

lemma maxOf_ge: "maxOf vs = Some m \<Longrightarrow> Some v \<in> set vs \<Longrightarrow> v \<le> m"
  using fold_max_ge by (fastforce simp: maxOf_def set_present [symmetric] split: list.splits)

lemma minOf_in: "minOf vs = Some m \<Longrightarrow> Some m \<in> set vs"
  using fold_min_in by (fastforce simp: minOf_def set_present [symmetric] split: list.splits)

lemma maxOf_in: "maxOf vs = Some m \<Longrightarrow> Some m \<in> set vs"
  using fold_max_in by (fastforce simp: maxOf_def set_present [symmetric] split: list.splits)

lemma minOf_None: "minOf vs = None \<longleftrightarrow> (\<forall>v. Some v \<notin> set vs)"
  using set_present [of _ vs] by (auto simp: minOf_def split: list.splits) (metis list.set_intros(1))

lemma maxOf_None: "maxOf vs = None \<longleftrightarrow> (\<forall>v. Some v \<notin> set vs)"
  using set_present [of _ vs] by (auto simp: maxOf_def split: list.splits) (metis list.set_intros(1))

lemma minOf_mono: "set vs \<subseteq> set ws \<Longrightarrow> minOf vs = Some m \<Longrightarrow> \<exists>m'. minOf ws = Some m' \<and> m' \<le> m"
  by (metis (no_types, opaque_lifting) minOf_in minOf_None minOf_le not_Some_eq subsetD)

lemma maxOf_mono: "set vs \<subseteq> set ws \<Longrightarrow> maxOf vs = Some m \<Longrightarrow> \<exists>m'. maxOf ws = Some m' \<and> m \<le> m'"
  by (metis (no_types, opaque_lifting) maxOf_in maxOf_None maxOf_ge not_Some_eq subsetD)

lemma requireNumber_Ok [simp]: "requireNumber v f = Inr x \<longleftrightarrow> v = Some x"
  by (auto simp: requireNumber_def split: option.splits)

text \<open>The layers that take part, after the band has been applied.\<close>

definition active_layers :: "layers \<Rightarrow> pacing_layer list" where
  "active_layers ls = map (\<lambda>l. applyHealthBandCaps l (healthBand ls))
     ([systemProfile ls, warmupTier ls] @ (case tenantTightening ls of None \<Rightarrow> [] | Some t \<Rightarrow> [t]))"

lemma folded_layers_eq: "folded_layers ls = foldStrictest (active_layers ls)"
  by (simp add: folded_layers_def active_layers_def split: option.splits)


definition resolved :: "pacing_layer \<Rightarrow> effective_limits \<Rightarrow> bool" where
  "resolved l e \<longleftrightarrow> ly_dailyCap l = Some (ef_dailyCap e) \<and> ly_hourlyCap l = Some (ef_hourlyCap e) \<and>
     ly_newConvCap l = Some (ef_newConvCap e) \<and> ly_gapMinMs l = Some (ef_gapMinMs e) \<and> ly_gapMaxMs l = Some (ef_gapMaxMs e) \<and>
     ly_coldRatioMax l = Some (ef_coldRatioMax e) \<and> ly_coldRatioFloor l = Some (ef_coldRatioFloor e) \<and>
     ef_groupDailyCap e = (case ly_groupDailyCap l of None \<Rightarrow> 0 | Some g \<Rightarrow> g) \<and>
     ef_blockLinkFirst e = (ly_blockLinkFirst l = Some True) \<and> ef_blockGroupActions e = (ly_blockGroupActions l = Some True)"

lemma resolveEffective_resolved:
  assumes "resolveEffective ls = Ok e"
  shows "resolved (clampToAbsolutes (applyAdminOverride (folded_layers ls) (adminOverride ls))) e"
  using assms by (auto simp: resolveEffective_def Let_def resolved_def split: option.splits)

lemma resolveEffective_total:
  assumes "c = clampToAbsolutes (applyAdminOverride (folded_layers ls) (adminOverride ls))"
    and "ly_dailyCap c = Some v1" "ly_hourlyCap c = Some v2" "ly_newConvCap c = Some v3" "ly_gapMinMs c = Some v4"
      "ly_gapMaxMs c = Some v5" "ly_coldRatioMax c = Some v6" "ly_coldRatioFloor c = Some v7"
  shows "\<exists>e. resolveEffective ls = Ok e"
  using assms by (simp add: resolveEffective_def Let_def requireNumber_def)

lemma foldStrictest_sel [simp]:
  "ly_dailyCap (foldStrictest ls) = minOf (map ly_dailyCap ls)" "ly_hourlyCap (foldStrictest ls) = minOf (map ly_hourlyCap ls)"
  "ly_newConvCap (foldStrictest ls) = minOf (map ly_newConvCap ls)" "ly_gapMinMs (foldStrictest ls) = maxOf (map ly_gapMinMs ls)"
  "ly_gapMaxMs (foldStrictest ls) = maxOf (map ly_gapMaxMs ls)" "ly_coldRatioMax (foldStrictest ls) = minOf (map ly_coldRatioMax ls)"
  "ly_coldRatioFloor (foldStrictest ls) = maxOf (map ly_coldRatioFloor ls)"
  "ly_perRecipient24h (foldStrictest ls) = minOf (map ly_perRecipient24h ls)"
  "ly_groupDailyCap (foldStrictest ls) = minOf (map ly_groupDailyCap ls)"
  "ly_blockLinkFirst (foldStrictest ls) = Some (orFalse (map ly_blockLinkFirst ls))"
  "ly_blockGroupActions (foldStrictest ls) = Some (orFalse (map ly_blockGroupActions ls))"
  by (simp_all add: foldStrictest_def)

lemma no_override [simp]: "applyAdminOverride l None = l"
  by (simp add: applyAdminOverride_def)






lemma orFalse_map [simp]: "orFalse (map f ls) \<longleftrightarrow> (\<exists>l\<in>set ls. f l = Some True)"
  by (auto simp: orFalse_def image_iff intro: sym)

text \<open>What the clamp does to the numbers it resolves.\<close>

lemma resolved_clamped:
  assumes "resolved (clampToAbsolutes l) e"
  shows "\<exists>d. ly_dailyCap l = Some d \<and> ef_dailyCap e = min d 2000"
    and "\<exists>g. ly_gapMinMs l = Some g \<and> ef_gapMinMs e = max g 15000"
    and "\<exists>g. ly_gapMaxMs l = Some g \<and> ef_gapMaxMs e = max g 15000"
    and "ef_groupDailyCap e = (case ly_groupDailyCap l of None \<Rightarrow> 0 | Some g \<Rightarrow> min g 50)"
    and "ly_hourlyCap l = Some (ef_hourlyCap e)" "ly_newConvCap l = Some (ef_newConvCap e)"
    and "ly_coldRatioMax l = Some (ef_coldRatioMax e)" "ly_coldRatioFloor l = Some (ef_coldRatioFloor e)"
    and "ef_blockLinkFirst e = (ly_blockLinkFirst l = Some True)"
    and "ef_blockGroupActions e = (ly_blockGroupActions l = Some True)"
  using assms by (auto simp: resolved_def clampToAbsolutes_def absolutes split: option.splits)
















text \<open>The layers of an instance that has just been provisioned: \<open>safe_default\<close> (migration 0031) and tier 1.\<close>

record profile =
  daily_cap_ceiling :: real
  hourly_cap_ceiling :: real
  gap_min_floor_ms :: real
  cold_ratio_max :: real
  cold_ratio_floor :: real
  window_start_local :: string
  window_end_local :: string

definition readSystemProfileLayer :: "profile \<Rightarrow> pacing_layer" where
  "readSystemProfileLayer row = no_opinion\<lparr>ly_dailyCap := Some (daily_cap_ceiling row), ly_hourlyCap := Some (hourly_cap_ceiling row),
     ly_gapMinMs := Some (gap_min_floor_ms row), ly_coldRatioMax := Some (cold_ratio_max row),
     ly_coldRatioFloor := Some (cold_ratio_floor row),
     ly_window := Some \<lparr>startLocal = window_start_local row, endLocal = window_end_local row\<rparr>\<rparr>"

definition safe_default :: profile where
  "safe_default = \<lparr>daily_cap_ceiling = 1000, hourly_cap_ceiling = 80, gap_min_floor_ms = 15000, cold_ratio_max = 8/10,
     cold_ratio_floor = 5, window_start_local = ''08:00'', window_end_local = ''20:00''\<rparr>"

definition new_instance_layers :: layers where
  "new_instance_layers = \<lparr>systemProfile = readSystemProfileLayer safe_default, warmupTier = warmupTierLayer 1, healthBand = Healthy,
     tenantTightening = None, adminOverride = None\<rparr>"

definition new_instance_limits :: effective_limits where
  "new_instance_limits = \<lparr>ef_dailyCap = 20, ef_hourlyCap = 6, ef_newConvCap = 8, ef_gapMinMs = 45000, ef_gapMaxMs = 180000,
     ef_coldRatioMax = 4/10, ef_coldRatioFloor = 5, ef_perRecipient24h = None, ef_groupDailyCap = 0,
     ef_windowStartLocal = Some ''08:00'', ef_windowEndLocal = Some ''20:00'', ef_blockLinkFirst = True, ef_blockGroupActions = True\<rparr>"

lemma new_instance_resolves: "resolveEffective new_instance_layers = Ok new_instance_limits"
  by (simp add: resolveEffective_def new_instance_layers_def new_instance_limits_def folded_layers_def
      foldStrictest_def readSystemProfileLayer_def safe_default_def warmupTierLayer_def tier_row_def WARMUP_LADDER_def Let_def
      applyHealthBandCaps_def no_opinion_def minOf_def maxOf_def orFalse_def intersectWindow_def
      List.map_filter_simps clampToAbsolutes_def absolutes requireNumber_def)


definition at_least_as_strict :: "effective_limits \<Rightarrow> effective_limits \<Rightarrow> bool" where
  "at_least_as_strict e d \<longleftrightarrow> ef_dailyCap e \<le> ef_dailyCap d \<and> ef_hourlyCap e \<le> ef_hourlyCap d \<and>
     ef_newConvCap e \<le> ef_newConvCap d \<and> ef_gapMinMs d \<le> ef_gapMinMs e \<and> ef_gapMaxMs d \<le> ef_gapMaxMs e \<and>
     ef_coldRatioMax e \<le> ef_coldRatioMax d \<and> (ef_blockLinkFirst d \<longrightarrow> ef_blockLinkFirst e) \<and>
     (ef_blockGroupActions d \<longrightarrow> ef_blockGroupActions e)"

lemma folded_layers_tenant:
  "folded_layers (ls\<lparr>tenantTightening := Some p\<rparr>) =
     foldStrictest (active_layers (ls\<lparr>tenantTightening := None\<rparr>) @ [applyHealthBandCaps p (healthBand ls)])"
  by (simp add: folded_layers_eq active_layers_def)

lemma minOf_snoc: "minOf (map f (ls @ [l])) = (case minOf (map f ls) of None \<Rightarrow> f l | Some m \<Rightarrow>
    (case f l of None \<Rightarrow> Some m | Some v \<Rightarrow> Some (min v m)))"
  by (auto simp: minOf_def List.map_filter_def split: option.splits list.splits)

lemma maxOf_snoc: "maxOf (map f (ls @ [l])) = (case maxOf (map f ls) of None \<Rightarrow> f l | Some m \<Rightarrow>
    (case f l of None \<Rightarrow> Some m | Some v \<Rightarrow> Some (max v m)))"
  by (auto simp: maxOf_def List.map_filter_def split: option.splits list.splits)

lemma minOf_snoc_rel: "minOf (map f ls) = Some m \<Longrightarrow> rel_option (\<le>) (minOf (map f (ls @ [l]))) (minOf (map f ls))"
  unfolding minOf_snoc by (auto split: option.splits)

lemma maxOf_snoc_rel: "maxOf (map f ls) = Some m \<Longrightarrow> rel_option (\<ge>) (maxOf (map f (ls @ [l]))) (maxOf (map f ls))"
  unfolding maxOf_snoc by (auto split: option.splits)

text \<open>The override on a folded layer, field by field, and how it preserves the order of two folds.\<close>

lemma applyAdminOverride_sel:
  "applyAdminOverride l (Some ao) = (let o1 = ao_layer ao in
     \<lparr>ly_dailyCap = or_else (ly_dailyCap o1) (ly_dailyCap l), ly_hourlyCap = or_else (ly_hourlyCap o1) (ly_hourlyCap l),
      ly_newConvCap = or_else (ly_newConvCap o1) (ly_newConvCap l), ly_gapMinMs = or_else (ly_gapMinMs o1) (ly_gapMinMs l),
      ly_gapMaxMs = or_else (ly_gapMaxMs o1) (ly_gapMaxMs l), ly_coldRatioMax = or_else (ly_coldRatioMax o1) (ly_coldRatioMax l),
      ly_coldRatioFloor = or_else (ly_coldRatioFloor o1) (ly_coldRatioFloor l),
      ly_perRecipient24h = or_else (ly_perRecipient24h o1) (ly_perRecipient24h l),
      ly_groupDailyCap = or_else (ly_groupDailyCap o1) (ly_groupDailyCap l), ly_window = or_else (ly_window o1) (ly_window l),
      ly_blockLinkFirst = or_else (ly_blockLinkFirst o1) (ly_blockLinkFirst l),
      ly_blockGroupActions = or_else (ly_blockGroupActions o1) (ly_blockGroupActions l)\<rparr>)"
  by (simp add: applyAdminOverride_def)

definition tighter_layer :: "pacing_layer \<Rightarrow> pacing_layer \<Rightarrow> bool" where
  "tighter_layer k l \<longleftrightarrow>
     rel_option (\<le>) (ly_dailyCap k) (ly_dailyCap l) \<and> rel_option (\<le>) (ly_hourlyCap k) (ly_hourlyCap l) \<and>
     rel_option (\<le>) (ly_newConvCap k) (ly_newConvCap l) \<and> rel_option (\<ge>) (ly_gapMinMs k) (ly_gapMinMs l) \<and>
     rel_option (\<ge>) (ly_gapMaxMs k) (ly_gapMaxMs l) \<and> rel_option (\<le>) (ly_coldRatioMax k) (ly_coldRatioMax l) \<and>
     rel_option (\<ge>) (ly_coldRatioFloor k) (ly_coldRatioFloor l) \<and>
     rel_option (\<longrightarrow>) (ly_blockLinkFirst l) (ly_blockLinkFirst k) \<and>
     rel_option (\<longrightarrow>) (ly_blockGroupActions l) (ly_blockGroupActions k)"

lemma rel_option_or_else: "rel_option R a b \<Longrightarrow> (\<And>x. R x x) \<Longrightarrow> rel_option R (or_else c a) (or_else c b)"
  by (cases c) (auto simp: or_else_def)

lemma tighter_override: "tighter_layer k l \<Longrightarrow> tighter_layer (applyAdminOverride k ao) (applyAdminOverride l ao)"
  by (cases ao) (auto simp: tighter_layer_def applyAdminOverride_sel Let_def intro!: rel_option_or_else)

lemma rel_option_SomeD: "rel_option R a b \<Longrightarrow> b = Some y \<Longrightarrow> \<exists>x. a = Some x \<and> R x y"
  by (auto simp: option_rel_Some2)

lemma tighter_fields:
  assumes "tighter_layer k l"
  shows "ly_dailyCap l = Some v \<Longrightarrow> \<exists>w. ly_dailyCap k = Some w \<and> w \<le> v"
    "ly_hourlyCap l = Some v \<Longrightarrow> \<exists>w. ly_hourlyCap k = Some w \<and> w \<le> v"
    "ly_newConvCap l = Some v \<Longrightarrow> \<exists>w. ly_newConvCap k = Some w \<and> w \<le> v"
    "ly_gapMinMs l = Some v \<Longrightarrow> \<exists>w. ly_gapMinMs k = Some w \<and> v \<le> w"
    "ly_gapMaxMs l = Some v \<Longrightarrow> \<exists>w. ly_gapMaxMs k = Some w \<and> v \<le> w"
    "ly_coldRatioMax l = Some v \<Longrightarrow> \<exists>w. ly_coldRatioMax k = Some w \<and> w \<le> v"
    "ly_coldRatioFloor l = Some v \<Longrightarrow> \<exists>w. ly_coldRatioFloor k = Some w \<and> v \<le> w"
    "ly_blockLinkFirst l = Some True \<Longrightarrow> ly_blockLinkFirst k = Some True"
    "ly_blockGroupActions l = Some True \<Longrightarrow> ly_blockGroupActions k = Some True"
  using assms unfolding tighter_layer_def by (auto simp: option_rel_Some1 option_rel_Some2)

lemma tighter_resolves:
  assumes k: "tighter_layer (applyAdminOverride (folded_layers ls) (adminOverride ls)) l"
    and r: "resolved (clampToAbsolutes l) d"
  shows "\<exists>e. resolveEffective ls = Ok e"
proof -
  note c = resolved_clamped [OF r]
  show ?thesis
    using c(1-3) tighter_fields(1,4,5) [OF k] tighter_fields(2) [OF k c(5)] tighter_fields(3) [OF k c(6)]
      tighter_fields(6) [OF k c(7)] tighter_fields(7) [OF k c(8)]
    by (auto simp: resolveEffective_def Let_def requireNumber_def clampToAbsolutes_def)
qed

lemma tighter_strict:
  assumes t: "tighter_layer k l" and l: "resolved (clampToAbsolutes l) d" and k: "resolved (clampToAbsolutes k) e"
  shows "at_least_as_strict e d"
  unfolding at_least_as_strict_def
proof (intro conjI)
  note f = tighter_fields [OF t] and c = resolved_clamped [OF l] and g = resolved_clamped [OF k]
  show "ef_dailyCap e \<le> ef_dailyCap d" using f(1) c(1) g(1) by fastforce
  show "ef_hourlyCap e \<le> ef_hourlyCap d" using f(2) c(5) g(5) by fastforce
  show "ef_newConvCap e \<le> ef_newConvCap d" using f(3) c(6) g(6) by fastforce
  show "ef_gapMinMs d \<le> ef_gapMinMs e" using f(4) c(2) g(2) by fastforce
  show "ef_gapMaxMs d \<le> ef_gapMaxMs e" using f(5) c(3) g(3) by fastforce
  show "ef_coldRatioMax e \<le> ef_coldRatioMax d" using f(6) c(7) g(7) by fastforce
  show "ef_blockLinkFirst d \<longrightarrow> ef_blockLinkFirst e" using f(8) c(9) g(9) by blast
  show "ef_blockGroupActions d \<longrightarrow> ef_blockGroupActions e" using f(9) c(10) g(10) by blast
qed

lemma tenant_fold_tighter:
  assumes "resolveEffective (ls\<lparr>tenantTightening := None, adminOverride := None\<rparr>) = Ok d"
  shows "tighter_layer (folded_layers (ls\<lparr>tenantTightening := Some p\<rparr>)) (folded_layers (ls\<lparr>tenantTightening := None\<rparr>))"
proof -
  define acts where "acts = active_layers (ls\<lparr>tenantTightening := None\<rparr>)"
  have f: "folded_layers (ls\<lparr>tenantTightening := None\<rparr>) = foldStrictest acts"
      "folded_layers (ls\<lparr>tenantTightening := None, adminOverride := None\<rparr>) = foldStrictest acts"
    by (simp_all add: folded_layers_eq acts_def active_layers_def)
  have "resolved (clampToAbsolutes (foldStrictest acts)) d"
    using resolveEffective_resolved [OF assms] f by simp
  note c = resolved_clamped [OF this, simplified]
  show ?thesis
    unfolding folded_layers_tenant f acts_def [symmetric] tighter_layer_def foldStrictest_sel
  proof (intro conjI)
    show "rel_option (\<le>) (minOf (map ly_dailyCap (acts @ [q]))) (minOf (map ly_dailyCap acts))" for q
      using c(1) by (auto intro: minOf_snoc_rel simp del: map_append)
    show "rel_option (\<ge>) (maxOf (map ly_gapMinMs (acts @ [q]))) (maxOf (map ly_gapMinMs acts))" for q
      using c(2) by (auto intro: maxOf_snoc_rel simp del: map_append)
    show "rel_option (\<ge>) (maxOf (map ly_gapMaxMs (acts @ [q]))) (maxOf (map ly_gapMaxMs acts))" for q
      using c(3) by (auto intro: maxOf_snoc_rel simp del: map_append)
  qed (rule minOf_snoc_rel [OF c(5)] minOf_snoc_rel [OF c(6)] minOf_snoc_rel [OF c(7)] maxOf_snoc_rel [OF c(8)] | auto simp only: option.rel_inject orFalse_map set_append)+
qed

text \<open>
  A tenant patch can only tighten: when the limits resolve with and without it, under the same override, no cap
  grows and no gap shrinks, whatever the patch holds, and no patch makes them fail to resolve.
\<close>

theorem tenant_patch_only_tightens:
  assumes "resolveEffective (ls\<lparr>tenantTightening := None, adminOverride := None\<rparr>) = Ok base"
    and "resolveEffective (ls\<lparr>tenantTightening := None\<rparr>) = Ok d"
  shows "\<exists>e. resolveEffective (ls\<lparr>tenantTightening := Some p\<rparr>) = Ok e \<and> at_least_as_strict e d"
proof -
  define k where "k = applyAdminOverride (folded_layers (ls\<lparr>tenantTightening := Some p\<rparr>)) (adminOverride ls)"
  define l where "l = applyAdminOverride (folded_layers (ls\<lparr>tenantTightening := None\<rparr>)) (adminOverride ls)"
  have t: "tighter_layer k l" using tighter_override [OF tenant_fold_tighter [OF assms(1)]] by (simp add: k_def l_def)
  have d: "resolved (clampToAbsolutes l) d" using resolveEffective_resolved [OF assms(2)] by (simp add: l_def)
  have "tighter_layer (applyAdminOverride (folded_layers (ls\<lparr>tenantTightening := Some p\<rparr>))
      (adminOverride (ls\<lparr>tenantTightening := Some p\<rparr>))) l"
    using t by (simp add: k_def)
  then obtain e where e: "resolveEffective (ls\<lparr>tenantTightening := Some p\<rparr>) = Ok e"
    using tighter_resolves d by blast
  then have "resolved (clampToAbsolutes k) e" using resolveEffective_resolved by (fastforce simp: k_def)
  then show ?thesis using e tighter_strict [OF t d] by blast
qed

lemma tenant_patch_only_tightens_witness:
  "\<exists>e. resolveEffective (new_instance_layers\<lparr>tenantTightening := Some (no_opinion\<lparr>ly_dailyCap := Some 5000\<rparr>)\<rparr>) = Ok e \<and>
     at_least_as_strict e new_instance_limits"
  by (rule tenant_patch_only_tightens [of _ new_instance_limits])
    (simp_all add: new_instance_resolves [unfolded new_instance_layers_def] new_instance_layers_def)


section \<open>The clamp of a relax\<close>

lemma patch_get_Nil [simp]: "patch_get [] f = None"
  by (simp add: patch_get_def)

lemma map_of_patch_set: "map_of (patch_set p f v) g = (if g = f then map_option (\<lambda>_. Some v) (map_of p f) else map_of p g)"
  by (induction p) (auto simp: patch_set_def)

lemma patch_get_set [simp]:
  "patch_get (patch_set p f v) g = (if g = f \<and> f \<in> fst ` set p then Some v else patch_get p g)"
proof (cases "map_of p f")
  case None
  then show ?thesis using map_of_eq_None_iff [of p f] by (auto simp: patch_get_def map_of_patch_set)
next
  case (Some w)
  then have "f \<in> fst ` set p" by (metis map_of_eq_None_iff option.discI)
  then show ?thesis using Some by (simp add: patch_get_def map_of_patch_set)
qed

lemma fst_patch_set [simp]: "map fst (patch_set p f v) = map fst p"
  by (induction p) (auto simp: patch_set_def)

lemma fst_set_patch_set [simp]: "fst ` set (patch_set p f v) = fst ` set p"
  by (metis fst_patch_set list.set_map)

lemma patch_get_in: "patch_get p f = Some v \<Longrightarrow> f \<in> fst ` set p"
  by (metis map_of_eq_None_iff option.case(1) option.discI patch_get_def)

lemma patch_get_iff: "distinct (map fst p) \<Longrightarrow> patch_get p f = Some v \<longleftrightarrow> (f, Some v) \<in> set p"
  by (auto simp: patch_get_def map_of_is_SomeI split: option.splits dest: map_of_SomeD)
    (metis eq_key_imp_eq_value)

lemma patch_set_same: "distinct (map fst p) \<Longrightarrow> patch_get p f = Some v \<Longrightarrow> patch_set p f v = p"
  by (auto simp: patch_get_iff patch_set_def eq_key_imp_eq_value intro!: map_idI)

lemma assertValid_set: "assertValid p = Ok () \<longleftrightarrow> (\<forall>x\<in>set p. \<forall>v. snd x = Some v \<longrightarrow> isInteger v \<and> 0 < v)"
  by (induction p rule: assertValid.induct) (simp, simp, auto simp: not_le)

lemma assertValid_Ok: "distinct (map fst p) \<Longrightarrow>
    assertValid p = Ok () \<longleftrightarrow> (\<forall>f v. patch_get p f = Some v \<longrightarrow> isInteger v \<and> 0 < v)"
  by (auto simp: assertValid_set patch_get_iff)

text \<open>The value each field ends at: the ceiling or the floor, then the gap order.\<close>

definition relax_bounded :: "relax_field \<Rightarrow> real \<Rightarrow> real" where
  "relax_bounded f v = (case f of F_dailyCap \<Rightarrow> min v 2000 | F_hourlyCap \<Rightarrow> min v 2000 | F_newConvCap \<Rightarrow> min v 2000
     | F_groupDailyCap \<Rightarrow> min v 50 | F_gapMinMs \<Rightarrow> max v 15000 | F_gapMaxMs \<Rightarrow> max v 15000)"

definition relax_final :: "relax_patch \<Rightarrow> relax_field \<Rightarrow> real option" where
  "relax_final p f = (case patch_get p f of None \<Rightarrow> None
     | Some v \<Rightarrow> Some (if f = F_gapMaxMs then (case patch_get p F_gapMinMs of None \<Rightarrow> relax_bounded f v
                         | Some g \<Rightarrow> max (relax_bounded f v) (relax_bounded F_gapMinMs g)) else relax_bounded f v))"

lemma clamp_ceiling_get:
  "patch_get (fst (clamp_ceiling (f, c) (p, fs))) g =
    (if g = f then map_option (\<lambda>v. min v c) (patch_get p f) else patch_get p g)"
  using patch_get_in [of p f] by (auto simp: clamp_ceiling_def split: option.splits)

lemma clamp_floor_get:
  "patch_get (fst (clamp_floor f (p, fs))) g =
    (if g = f then map_option (\<lambda>v. max v 15000) (patch_get p f) else patch_get p g)"
  using patch_get_in [of p f] by (auto simp: clamp_floor_def absolutes split: option.splits)

lemma clamp_get [simp]:
  "patch_get (fst (clamp_ceiling (f, c) s)) g =
    (if g = f then map_option (\<lambda>v. min v c) (patch_get (fst s) f) else patch_get (fst s) g)"
  "patch_get (fst (clamp_floor f s)) g =
    (if g = f then map_option (\<lambda>v. max v 15000) (patch_get (fst s) f) else patch_get (fst s) g)"
  by (cases s; simp add: clamp_ceiling_get clamp_floor_get)+

lemma clamp_order_get:
  "patch_get (fst (clamp_gap_order s)) g =
    (case (patch_get (fst s) F_gapMinMs, patch_get (fst s) F_gapMaxMs) of
       (Some a, Some b) \<Rightarrow> if g = F_gapMaxMs then Some (max a b) else patch_get (fst s) g
     | _ \<Rightarrow> patch_get (fst s) g)"
  using patch_get_in [of "fst s" F_gapMaxMs] by (cases s) (auto simp: clamp_gap_order_def split: option.splits)

lemma clamp_keys [simp]: "map fst (fst (clamp_ceiling fc s)) = map fst (fst s)" "map fst (fst (clamp_floor f s)) = map fst (fst s)"
    "map fst (fst (clamp_gap_order s)) = map fst (fst s)"
  by (cases s; cases fc; auto simp: clamp_ceiling_def clamp_floor_def clamp_gap_order_def split: option.splits)+

definition relax_clamped :: "relax_patch \<Rightarrow> relax_patch \<times> relax_field list" where
  "relax_clamped p = clamp_gap_order (fold clamp_floor FLOOR_FIELDS (fold clamp_ceiling CEILING_FIELDS (p, [])))"

lemma relax_clamped_get: "patch_get (fst (relax_clamped p)) f = relax_final p f"
  by (cases f) (auto simp: relax_clamped_def relax_final_def relax_bounded_def clamp_order_get CEILING_FIELDS_def FLOOR_FIELDS_def
      absolutes max.commute split: option.splits)

lemma relax_clamped_keys: "map fst (fst (relax_clamped p)) = map fst p"
  by (simp add: relax_clamped_def CEILING_FIELDS_def FLOOR_FIELDS_def)

lemma clampAdminRelax_Ok:
  assumes "distinct (map fst p)"
  shows "clampAdminRelax p expiry now = Ok r \<longleftrightarrow> p \<noteq> [] \<and> (\<forall>f v. patch_get p f = Some v \<longrightarrow> isInteger v \<and> 0 < v) \<and>
    now < expiry \<and> expiry - now \<le> MAX_ADMIN_RELAX_MS \<and> r = relax_clamped p"
  using assertValid_Ok [OF assms] by (auto simp: clampAdminRelax_def relax_clamped_def simp del: fold.simps split: if_splits)

text \<open>The report: the fields whose value the clamp changed, none twice.\<close>

lemma clamp_report:
  "snd (clamp_ceiling (f, c) s) = snd s @ (case patch_get (fst s) f of Some v \<Rightarrow> if c < v then [f] else [] | None \<Rightarrow> [])"
  "snd (clamp_floor f s) = snd s @ (case patch_get (fst s) f of Some v \<Rightarrow> if v < 15000 then [f] else [] | None \<Rightarrow> [])"
  "snd (clamp_gap_order s) = snd s @ (case (patch_get (fst s) F_gapMinMs, patch_get (fst s) F_gapMaxMs) of
     (Some a, Some b) \<Rightarrow> if b < a \<and> F_gapMaxMs \<notin> set (snd s) then [F_gapMaxMs] else [] | _ \<Rightarrow> [])"
  by (cases s; simp add: clamp_ceiling_def clamp_floor_def clamp_gap_order_def absolutes split: option.splits)+

definition reported :: "relax_patch \<Rightarrow> relax_field \<Rightarrow> bool" where
  "reported p f \<longleftrightarrow> (\<exists>v. patch_get p f = Some v \<and> relax_bounded f v \<noteq> v)"

lemma report_before_order:
  assumes "s = fold clamp_floor FLOOR_FIELDS (fold clamp_ceiling CEILING_FIELDS (p, []))"
  shows "snd s = filter (reported p) [F_dailyCap, F_hourlyCap, F_newConvCap, F_groupDailyCap, F_gapMinMs, F_gapMaxMs]"
  unfolding assms CEILING_FIELDS_def FLOOR_FIELDS_def
  by (simp add: clamp_report absolutes reported_def relax_bounded_def split: option.splits)

lemma relax_report:
  "distinct (snd (relax_clamped p))" "set (snd (relax_clamped p)) = {f. relax_final p f \<noteq> patch_get p f}"
proof -
  define s where "s = fold clamp_floor FLOOR_FIELDS (fold clamp_ceiling CEILING_FIELDS (p, []))"
  have snd_s: "snd s = filter (reported p) [F_dailyCap, F_hourlyCap, F_newConvCap, F_groupDailyCap, F_gapMinMs, F_gapMaxMs]"
    using s_def by (rule report_before_order)
  have get: "patch_get (fst s) F_gapMinMs = map_option (\<lambda>v. max v 15000) (patch_get p F_gapMinMs)"
    "patch_get (fst s) F_gapMaxMs = map_option (\<lambda>v. max v 15000) (patch_get p F_gapMaxMs)"
    by (simp_all add: s_def CEILING_FIELDS_def FLOOR_FIELDS_def)
  have all: "UNIV = {F_dailyCap, F_hourlyCap, F_newConvCap, F_groupDailyCap, F_gapMinMs, F_gapMaxMs}"
    using relax_field.exhaust by blast
  have set_s: "set (snd s) = {f. reported p f}"
    unfolding snd_s set_filter using all by auto
  have rc: "relax_clamped p = clamp_gap_order s" by (simp add: relax_clamped_def s_def)
  have "distinct (snd s)" unfolding snd_s by (intro distinct_filter) simp
  then show "distinct (snd (relax_clamped p))" by (auto simp: rc clamp_report split: option.splits)
  have in_report: "f \<in> set (snd (relax_clamped p)) \<longleftrightarrow> reported p f \<or> f = F_gapMaxMs \<and>
      (\<exists>a b. patch_get p F_gapMinMs = Some a \<and> patch_get p F_gapMaxMs = Some b \<and> max b 15000 < max a 15000)" for f
    unfolding rc clamp_report(3) set_append set_s get
    by (cases "patch_get p F_gapMinMs"; cases "patch_get p F_gapMaxMs") auto
  have "f \<in> set (snd (relax_clamped p)) \<longleftrightarrow> relax_final p f \<noteq> patch_get p f" for f
  proof (cases "f = F_gapMaxMs")
    case False
    then show ?thesis by (simp add: in_report reported_def relax_final_def split: option.splits)
  next
    case True
    show ?thesis unfolding in_report True reported_def relax_final_def relax_bounded_def
      by (cases "patch_get p F_gapMaxMs"; cases "patch_get p F_gapMinMs") (auto simp: max_def)
  qed
  then show "set (snd (relax_clamped p)) = {f. relax_final p f \<noteq> patch_get p f}" by blast
qed

text \<open>A patch already inside the bounds is left alone.\<close>

lemma clamp_unchanged:
  "(\<And>v. patch_get q f = Some v \<Longrightarrow> v \<le> c) \<Longrightarrow> clamp_ceiling (f, c) (q, fs) = (q, fs)"
  "(\<And>v. patch_get q f = Some v \<Longrightarrow> 15000 \<le> v) \<Longrightarrow> clamp_floor f (q, fs) = (q, fs)"
  "(\<And>a b. patch_get q F_gapMinMs = Some a \<Longrightarrow> patch_get q F_gapMaxMs = Some b \<Longrightarrow> a \<le> b) \<Longrightarrow> clamp_gap_order (q, fs) = (q, fs)"
  by (auto simp: clamp_ceiling_def clamp_floor_def clamp_gap_order_def absolutes not_le split: option.splits dest: leD)

lemma relax_clamped_unchanged:
  assumes "\<And>f v. patch_get q f = Some v \<Longrightarrow> relax_bounded f v = v"
    and "\<And>a b. patch_get q F_gapMinMs = Some a \<Longrightarrow> patch_get q F_gapMaxMs = Some b \<Longrightarrow> a \<le> b"
  shows "relax_clamped q = (q, [])"
proof -
  have b: "patch_get q F_dailyCap = Some v \<Longrightarrow> v \<le> 2000" "patch_get q F_hourlyCap = Some v \<Longrightarrow> v \<le> 2000"
    "patch_get q F_newConvCap = Some v \<Longrightarrow> v \<le> 2000" "patch_get q F_groupDailyCap = Some v \<Longrightarrow> v \<le> 50"
    "patch_get q F_gapMinMs = Some v \<Longrightarrow> 15000 \<le> v" "patch_get q F_gapMaxMs = Some v \<Longrightarrow> 15000 \<le> v" for v
    using assms(1) by (fastforce simp: relax_bounded_def)+
  show ?thesis
    by (simp add: relax_clamped_def CEILING_FIELDS_def FLOOR_FIELDS_def absolutes clamp_unchanged b assms(2))
qed

lemma isInteger_of [simp]: "isInteger 2000" "isInteger 50" "isInteger 15000"
  unfolding isInteger_def by simp_all

lemma relax_bounded_valid: "isInteger v \<Longrightarrow> 0 < v \<Longrightarrow> isInteger (relax_bounded f v) \<and> 0 < relax_bounded f v"
  by (cases f) (auto simp: relax_bounded_def min_def max_def)

lemma relax_bounded_idem: "relax_bounded f (relax_bounded f v) = relax_bounded f v"
  by (cases f) (auto simp: relax_bounded_def)

lemma relax_final_valid:
  assumes "\<forall>f v. patch_get p f = Some v \<longrightarrow> isInteger v \<and> 0 < v" "relax_final p f = Some v"
  shows "isInteger v \<and> 0 < v"
  using assms relax_bounded_valid by (fastforce simp: relax_final_def max_def split: option.splits if_splits)

lemma relax_final_bounds:
  assumes "relax_final p f = Some v"
  shows "relax_bounded f v = v"
  using assms by (cases f) (auto simp: relax_final_def relax_bounded_def split: option.splits)

lemma relax_final_order: "relax_final p F_gapMinMs = Some a \<Longrightarrow> relax_final p F_gapMaxMs = Some b \<Longrightarrow> a \<le> b"
  by (auto simp: relax_final_def split: option.splits)

text \<open>
  C39. A relax is accepted exactly when it sets something, every value set is a positive integer and it expires within
  30 days. What is stored keeps the fields, holds positive integers inside the platform's bounds with the gaps in
  order, and clamping it again changes nothing; the report lists, once each, the fields stored with a value other than
  the requested one.
\<close>

theorem relax_is_bounded:
  assumes "distinct (map fst p)"
  shows "((\<exists>q fs. clampAdminRelax p expiry now = Ok (q, fs)) \<longleftrightarrow>
      p \<noteq> [] \<and> (\<forall>f v. patch_get p f = Some v \<longrightarrow> isInteger v \<and> 0 < v) \<and> now < expiry \<and> expiry - now \<le> MAX_ADMIN_RELAX_MS) \<and>
    (\<forall>q fs. clampAdminRelax p expiry now = Ok (q, fs) \<longrightarrow>
      map fst q = map fst p \<and> (\<forall>f. patch_get q f = relax_final p f) \<and>
      distinct fs \<and> set fs = {f. patch_get q f \<noteq> patch_get p f} \<and>
      (\<forall>f v. patch_get q f = Some v \<longrightarrow> isInteger v \<and> 0 < v \<and> relax_bounded f v = v) \<and>
      (\<forall>a b. patch_get q F_gapMinMs = Some a \<longrightarrow> patch_get q F_gapMaxMs = Some b \<longrightarrow> a \<le> b) \<and>
      clampAdminRelax q expiry now = Ok (q, []))"
proof (intro conjI allI impI)
  show "(\<exists>q fs. clampAdminRelax p expiry now = Ok (q, fs)) \<longleftrightarrow>
      p \<noteq> [] \<and> (\<forall>f v. patch_get p f = Some v \<longrightarrow> isInteger v \<and> 0 < v) \<and> now < expiry \<and> expiry - now \<le> MAX_ADMIN_RELAX_MS"
    using clampAdminRelax_Ok [OF assms] by (metis surj_pair)
next
  fix q fs
  assume ok: "clampAdminRelax p expiry now = Ok (q, fs)"
  then have v: "\<forall>f v. patch_get p f = Some v \<longrightarrow> isInteger v \<and> 0 < v" and q: "relax_clamped p = (q, fs)"
    and rest: "p \<noteq> []" "now < expiry" "expiry - now \<le> MAX_ADMIN_RELAX_MS"
    using clampAdminRelax_Ok [OF assms] by auto
  show keys: "map fst q = map fst p" and get: "patch_get q f = relax_final p f" for f
    using relax_clamped_keys [of p] relax_clamped_get [of p] q by auto
  show "distinct fs" and "set fs = {f. patch_get q f \<noteq> patch_get p f}"
    using relax_report [of p] q by (simp_all add: get)
  show int: "isInteger v" and pos: "0 < v" and bnd: "relax_bounded f v = v" if "patch_get q f = Some v" for f v
    using that relax_final_valid [OF v] relax_final_bounds by (auto simp: get)
  show order: "a \<le> b" if "patch_get q F_gapMinMs = Some a" "patch_get q F_gapMaxMs = Some b" for a b
    using that relax_final_order [of p a b] by (simp add: get)
  have "relax_clamped q = (q, [])" using bnd order by (rule relax_clamped_unchanged)
  then show "clampAdminRelax q expiry now = Ok (q, [])"
    using clampAdminRelax_Ok [of q expiry now "(q, [])"] keys assms rest int pos by auto
qed

text \<open>A request for 5000 messages a day with a gap of 10 seconds, for one day.\<close>

lemma relax_is_bounded_witness:
  "clampAdminRelax [(F_dailyCap, Some 2000), (F_gapMinMs, Some 15000)] 86400000 0 = Ok ([(F_dailyCap, Some 2000), (F_gapMinMs, Some 15000)], [])"
proof -
  have "clampAdminRelax [(F_dailyCap, Some 5000), (F_gapMinMs, Some 10000)] 86400000 0 =
      Ok ([(F_dailyCap, Some 2000), (F_gapMinMs, Some 15000)], [F_dailyCap, F_gapMinMs])"
    by (simp add: clampAdminRelax_def CEILING_FIELDS_def FLOOR_FIELDS_def absolutes clamp_ceiling_def clamp_floor_def
        clamp_gap_order_def patch_get_def patch_set_def MAX_ADMIN_RELAX_MS_def isInteger_def)
  from relax_is_bounded [of "[(F_dailyCap, Some 5000), (F_gapMinMs, Some 10000)]" 86400000 0, THEN conjunct2, rule_format, OF _ this]
  show ?thesis by simp
qed


lemma resolveEffective_Ok_iff:
  "(\<exists>e. resolveEffective ls = Ok e) \<longleftrightarrow>
    (let c = applyAdminOverride (folded_layers ls) (adminOverride ls) in
     ly_dailyCap c \<noteq> None \<and> ly_hourlyCap c \<noteq> None \<and> ly_newConvCap c \<noteq> None \<and> ly_gapMinMs c \<noteq> None \<and>
     ly_gapMaxMs c \<noteq> None \<and> ly_coldRatioMax c \<noteq> None \<and> ly_coldRatioFloor c \<noteq> None)"
  by (simp add: resolveEffective_def Let_def requireNumber_def clampToAbsolutes_def split: option.splits)

definition relax_override :: "relax_patch \<Rightarrow> string \<Rightarrow> string \<Rightarrow> int \<Rightarrow> admin_override" where
  "relax_override p actor why expiry = \<lparr>ao_layer = patch_layer p, ao_actorUserId = actor, ao_reason = why, ao_expiresAt = Some expiry\<rparr>"

text \<open>A relax of the upper gap alone.\<close>

lemma gap_max_relax_resolves:
  assumes "resolveEffective (ls\<lparr>adminOverride := None\<rparr>) = Ok d" "15000 \<le> v"
  shows "\<exists>e. resolveEffective (ls\<lparr>adminOverride := Some (relax_override [(F_gapMaxMs, Some v)] a w x)\<rparr>) = Ok e \<and>
    ef_gapMaxMs e = v \<and> ef_gapMinMs e = ef_gapMinMs d"
proof -
  define f where "f = folded_layers ls"
  define c where "c = applyAdminOverride f (Some (relax_override [(F_gapMaxMs, Some v)] a w x))"
  have f: "folded_layers (ls\<lparr>adminOverride := o1\<rparr>) = f" for o1
    by (cases "tenantTightening ls") (simp_all add: f_def folded_layers_def)
  have c: "ly_gapMaxMs c = Some v" "ly_gapMinMs c = ly_gapMinMs f" "ly_dailyCap c = ly_dailyCap f" "ly_hourlyCap c = ly_hourlyCap f"
      "ly_newConvCap c = ly_newConvCap f" "ly_coldRatioMax c = ly_coldRatioMax f" "ly_coldRatioFloor c = ly_coldRatioFloor f"
    by (simp_all add: c_def applyAdminOverride_sel relax_override_def patch_layer_def patch_get_def no_opinion_def Let_def or_else_def)
  have d: "resolved (clampToAbsolutes f) d" using resolveEffective_resolved [OF assms(1)] by (simp add: f)
  have "\<exists>e. resolveEffective (ls\<lparr>adminOverride := Some (relax_override [(F_gapMaxMs, Some v)] a w x)\<rparr>) = Ok e"
    using resolved_clamped [OF d] by (auto simp: resolveEffective_Ok_iff f c_def [symmetric] c Let_def)
  then obtain e where e: "resolveEffective (ls\<lparr>adminOverride := Some (relax_override [(F_gapMaxMs, Some v)] a w x)\<rparr>) = Ok e" ..
  then have "resolved (clampToAbsolutes c) e" using resolveEffective_resolved by (fastforce simp: f c_def)
  from resolved_clamped(2,3) [OF this] resolved_clamped(2) [OF d] have "ef_gapMaxMs e = v" "ef_gapMinMs e = ef_gapMinMs d"
    using c assms(2) by auto
  with e show ?thesis by blast
qed

text \<open>
  A relax that lowers only the upper gap is accepted as asked even when it falls below the lower gap in force; the limits
  then resolve with the bounds crossed, and a gap draw from them fails. Only the check of migration 0033 keeps such limits
  from being stored (\<open>Pacing_Config\<close>).
\<close>

lemma crossed_gap_relax_resolves:
  assumes "resolveEffective (ls\<lparr>adminOverride := None\<rparr>) = Ok d" "15000 \<le> v" "isInteger v" "v < ef_gapMinMs d"
    and "now < expiry" "expiry - now \<le> MAX_ADMIN_RELAX_MS"
  shows "clampAdminRelax [(F_gapMaxMs, Some v)] expiry now = Ok ([(F_gapMaxMs, Some v)], []) \<and>
    (\<exists>e. resolveEffective (ls\<lparr>adminOverride := Some (relax_override [(F_gapMaxMs, Some v)] actor why expiry)\<rparr>) = Ok e \<and>
      ef_gapMaxMs e < ef_gapMinMs e \<and>
      (\<forall>u. drawGapMs (of_int (er_gap_min_ms (toEffRow e))) (of_int (er_gap_max_ms (toEffRow e))) u = Err ''drawGapMs: invalid bounds''))"
proof -
  have "clampAdminRelax [(F_gapMaxMs, Some v)] expiry now = Ok ([(F_gapMaxMs, Some v)], [])"
    using assms by (simp add: clampAdminRelax_def CEILING_FIELDS_def FLOOR_FIELDS_def absolutes clamp_ceiling_def clamp_floor_def
        clamp_gap_order_def patch_get_def)
  moreover obtain e where e: "resolveEffective (ls\<lparr>adminOverride := Some (relax_override [(F_gapMaxMs, Some v)] actor why expiry)\<rparr>) = Ok e"
      "ef_gapMaxMs e = v" "ef_gapMinMs e = ef_gapMinMs d"
    using gap_max_relax_resolves [OF assms(1,2)] by blast
  moreover have "of_int (\<lceil>v\<rceil>) = v" using assms(3) by (metis ceiling_of_int isInteger_def)
  then have "(of_int \<lceil>v\<rceil> :: real) < of_int \<lceil>ef_gapMinMs d\<rceil>" using assms(4) by linarith
  then have "drawGapMs (of_int (er_gap_min_ms (toEffRow e))) (of_int (er_gap_max_ms (toEffRow e))) u = Err ''drawGapMs: invalid bounds''" for u
    using e by (simp add: drawGapMs_def toEffRow_def)
  ultimately show ?thesis using assms(4) by auto
qed

section \<open>Draws\<close>

text \<open>
  A draw fails exactly on crossed or non-positive bounds. Otherwise, for whole bounds and any random number below
  one, the gap is at least the lower bound and at least 15 seconds, and at most the upper bound once that is lifted to
  the lower one; the smallest random number gives the floor itself.
\<close>

lemma math_round_of_int [simp]: "math_round (of_int i) = i"
  unfolding math_round_def by linarith

lemma math_round_mono: "x \<le> y \<Longrightarrow> math_round x \<le> math_round y"
  unfolding math_round_def by (intro floor_mono) simp

theorem gap_draw_bounds:
  fixes lo hi :: int
  shows "((\<exists>e. drawGapMs (of_int lo) (of_int hi) u = Err e) \<longleftrightarrow> lo \<le> 0 \<or> hi < lo) \<and>
    (\<forall>g. drawGapMs (of_int lo) (of_int hi) u = Ok g \<longrightarrow>
      of_int (max lo 15000) \<le> g \<and> g \<le> of_int (max hi (max lo 15000)) \<and> (u = 0 \<longrightarrow> g = of_int (max lo 15000)))"
proof -
  define l where "l = max lo 15000"
  define h where "h = max hi l"
  have pos: "(0 :: real) < of_int l" "(0 :: real) < of_int h" and lh: "l \<le> h" by (auto simp: l_def h_def)
  have l: "max (of_int lo) ABSOLUTE_GAP_MIN_MS = (of_int l :: real)" by (simp add: l_def absolutes of_int_max)
  have h: "max (of_int hi) (of_int l) = (of_int h :: real)" by (simp add: h_def of_int_max)
  have d: "drawGapMs (of_int lo) (of_int hi) u = (if lo \<le> 0 \<or> hi < lo then Err ''drawGapMs: invalid bounds''
      else Ok (min (max (of_int (math_round (exp (ln (of_int l) + u * (ln (of_int h) - ln (of_int l)))))) (of_int l)) (of_int h)))"
    using pos by (simp add: drawGapMs_def l h Let_def)
  show ?thesis
    using lh pos unfolding d by (auto simp: l_def [symmetric] h_def [symmetric])
qed

text \<open>A run of sends: each has its base gap and its two random numbers.\<close>

fun long_pause_run :: "(int \<times> real \<times> real) list \<Rightarrow> long_pause_state \<Rightarrow> bool list" where
  "long_pause_run [] s = []"
| "long_pause_run ((b, u1, u2) # xs) s = (let (g, s', fired) = applyLongPause b s u1 u2 in fired # long_pause_run xs s')"

lemma long_pause_threshold: "0 \<le> u \<Longrightarrow> u < 1 \<Longrightarrow> 18 \<le> drawNextPauseThreshold u \<and> drawNextPauseThreshold u \<le> 35"
  unfolding drawNextPauseThreshold_def LONG_PAUSE_MIN_EVERY_N_SENDS_def LONG_PAUSE_MAX_EVERY_N_SENDS_def by simp

text \<open>
  The long pause multiplies the gap by four to nine and stops at 15 minutes, so it lengthens every gap of at most
  15 minutes; a longer gap it cuts down to 15 minutes. It fires when the drawn count of sends is reached, and the next
  count is again between 18 and 35.
\<close>

theorem long_pause_bounds:
  assumes "0 \<le> b" "0 \<le> u1" "u1 < 1" "0 \<le> u2" "u2 < 1" and r: "applyLongPause b s u1 u2 = (g, t, fired)"
  shows "(fired \<longleftrightarrow> nextPauseAtSends s \<le> sendsSinceLastPause s + 1) \<and>
    (\<not> fired \<longrightarrow> g = b \<and> sendsSinceLastPause t = sendsSinceLastPause s + 1 \<and> nextPauseAtSends t = nextPauseAtSends s) \<and>
    (fired \<longrightarrow> min (4 * b) 900000 \<le> g \<and> g \<le> min (9 * b) 900000 \<and> sendsSinceLastPause t = 0 \<and>
       18 \<le> nextPauseAtSends t \<and> nextPauseAtSends t \<le> 35) \<and>
    (b \<le> 900000 \<longrightarrow> b \<le> g) \<and> (fired \<and> 900000 < b \<longrightarrow> g < b)"
proof -
  define m where "m = 4 + u1 * 5"
  have m: "4 \<le> m" "m \<le> 9" using assms(2,3) by (auto simp: m_def)
  have "4 * of_int b \<le> of_int b * m" "of_int b * m \<le> of_int b * 9"
    using mult_left_mono [of 4 m "of_int b"] mult_left_mono [of m 9 "of_int b"] m assms(1) by simp_all
  then have lo: "4 * b \<le> math_round (of_int b * m)" and hi: "math_round (of_int b * m) \<le> 9 * b"
    unfolding math_round_def by linarith+
  show ?thesis
    using r lo hi assms(1) long_pause_threshold [OF assms(4,5)]
    by (auto simp: applyLongPause_def Let_def m_def LONG_PAUSE_MULTIPLIER_MIN_def LONG_PAUSE_MULTIPLIER_MAX_def LONG_PAUSE_CAP_MS_def
        split: if_splits)
qed

lemma long_pause_bounds_witness:
  "snd (snd (applyLongPause 1000000 \<lparr>sendsSinceLastPause = 17, nextPauseAtSends = 18\<rparr> 0 0)) \<and>
   fst (applyLongPause 1000000 \<lparr>sendsSinceLastPause = 17, nextPauseAtSends = 18\<rparr> 0 0) < 1000000"
proof -
  obtain g t fired where r: "applyLongPause 1000000 \<lparr>sendsSinceLastPause = 17, nextPauseAtSends = 18\<rparr> 0 0 = (g, t, fired)"
    by (metis prod_cases3)
  from long_pause_bounds [OF _ _ _ _ _ r] show ?thesis by (simp add: r)
qed

section \<open>Warm-up over time\<close>

definition warmup_run :: "int \<Rightarrow> warmup_input list \<Rightarrow> int" where
  "warmup_run tier is = fold warmup_tick is tier"

text \<open>An input that lets the ladder advance, day threshold aside.\<close>

definition may_advance :: "warmup_input \<Rightarrow> bool" where
  "may_advance i \<longleftrightarrow> wi_warmupStartedAtMs i \<noteq> None \<and> \<not> wi_isPaused i \<and> wi_healthBand i = Healthy \<and>
     \<not> wi_hasRecentHardRestrictionSignal i"

lemma tier_row_simps [simp]:
  "tier_row 1 = Some (WARMUP_LADDER ! 0)" "tier_row 2 = Some (WARMUP_LADDER ! 1)" "tier_row 3 = Some (WARMUP_LADDER ! 2)"
  "tier_row 4 = Some (WARMUP_LADDER ! 3)" "tier_row 5 = Some (WARMUP_LADDER ! 4)" "tier_row 6 = Some (WARMUP_LADDER ! 5)"
  "t < 1 \<or> 6 < t \<Longrightarrow> tier_row t = None"
  by (auto simp: tier_row_def WARMUP_LADDER_def)

text \<open>The first day of each tier.\<close>

definition tier_day :: "int \<Rightarrow> int" where
  "tier_day t = (case tier_row t of None \<Rightarrow> 0 | Some r \<Rightarrow> wt_dayFrom r)"

lemma tier_row_tier: "tier_row t = Some r \<Longrightarrow> wt_tier r = t"
  by (auto simp: tier_row_def find_Some_iff)

lemma tier_range: "1 \<le> t \<Longrightarrow> t \<le> 6 \<Longrightarrow> t \<in> {1, 2, 3, 4, 5, 6 :: int}"
  by auto

lemma tier_day_simps [simp]: "tier_day 1 = 1" "tier_day 2 = 3" "tier_day 3 = 8" "tier_day 4 = 15" "tier_day 5 = 22" "tier_day 6 = 30"
  by (simp_all add: tier_day_def WARMUP_LADDER_def)

lemma tier_day_mono: "1 \<le> s \<Longrightarrow> s \<le> t \<Longrightarrow> t \<le> 6 \<Longrightarrow> tier_day s \<le> tier_day t"
  using tier_range [of s] tier_range [of t] by auto

lemma tier_row_ex: "1 \<le> t \<Longrightarrow> t \<le> 6 \<Longrightarrow> \<exists>r. tier_row t = Some r \<and> wt_tier r = t \<and> wt_dayFrom r = tier_day t"
  using tier_range [of t] by (auto simp: WARMUP_LADDER_def)

text \<open>The three moves of one evaluation.\<close>

lemma warmup_tick_cases:
  assumes "1 \<le> t" "t \<le> 6"
  obtains (hold) "warmup_tick i t = t"
    | (advance) "warmup_tick i t = t + 1" "t + 1 \<le> 6" "may_advance i" "tier_day (t + 1) \<le> wi_elapsedDays i"
    | (rollback) "warmup_tick i t = t - 1" "1 \<le> t - 1" "wi_healthBand i = Degraded" "wi_degradedRollbackDueForEpisode i"
proof (cases "decideWarmupAction (i\<lparr>wi_warmupTier := t\<rparr>)")
  case (Hold rs)
  then show ?thesis using hold by (simp add: warmup_tick_def)
next
  case (Advance u rs)
  then have t6: "t + 1 \<le> 6" by (cases "t = 6") (use assms in \<open>auto simp: decideWarmupAction_def Let_def split: if_splits option.splits\<close>)
  then obtain r where r: "tier_row (t + 1) = Some r" "wt_tier r = t + 1" "wt_dayFrom r = tier_day (t + 1)"
    using tier_row_ex [of "t + 1"] assms by auto
  from Advance r have "u = t + 1 \<and> may_advance i \<and> tier_day (t + 1) \<le> wi_elapsedDays i"
    by (cases "wi_healthBand i") (auto simp: decideWarmupAction_def may_advance_def Let_def split: if_splits)
  then show ?thesis using advance Advance t6 by (simp add: warmup_tick_def)
next
  case (Rollback u rs)
  then have "u = t - 1 \<and> 1 \<le> t - 1 \<and> wi_healthBand i = Degraded \<and> wi_degradedRollbackDueForEpisode i"
    using assms by (auto simp: decideWarmupAction_def Let_def split: if_splits option.splits)
  then show ?thesis using rollback Rollback by (simp add: warmup_tick_def)
qed

lemma warmup_run_invariant:
  assumes "1 \<le> t0" "t0 \<le> 6"
  shows "1 \<le> warmup_run t0 is \<and> warmup_run t0 is \<le> 6 \<and>
    (t0 < warmup_run t0 is \<longrightarrow> (\<exists>i\<in>set is. may_advance i \<and> tier_day (warmup_run t0 is) \<le> wi_elapsedDays i))"
proof (induction "is" rule: rev_induct)
  case Nil
  then show ?case using assms by (simp add: warmup_run_def)
next
  case (snoc i "is")
  define t where "t = warmup_run t0 is"
  have t: "1 \<le> t" "t \<le> 6" and old: "t0 < t \<Longrightarrow> \<exists>i\<in>set is. may_advance i \<and> tier_day t \<le> wi_elapsedDays i"
    using snoc.IH by (auto simp: t_def)
  have run: "warmup_run t0 (is @ [i]) = warmup_tick i t" by (simp add: warmup_run_def t_def)
  consider "warmup_tick i t = t" | "warmup_tick i t = t + 1" "t + 1 \<le> 6" "may_advance i" "tier_day (t + 1) \<le> wi_elapsedDays i"
    | "warmup_tick i t = t - 1" "1 \<le> t - 1"
    using warmup_tick_cases [OF t, of i] by metis
  then show ?case
  proof cases
    case 3
    then show ?thesis unfolding run using t old tier_day_mono [of "t - 1" t] by fastforce
  qed (use t old in \<open>auto simp: run\<close>)
qed

lemma warmup_tick_advance:
  assumes "1 \<le> t" "t < 6" "may_advance i" "30 \<le> wi_elapsedDays i"
  shows "warmup_tick i t = t + 1"
proof -
  obtain r where "tier_row (t + 1) = Some r" "wt_tier r = t + 1" "wt_dayFrom r = tier_day (t + 1)"
    using tier_row_ex [of "t + 1"] assms by auto
  then show ?thesis using assms tier_day_mono [of "t + 1" 6]
    by (auto simp: warmup_tick_def decideWarmupAction_def may_advance_def)
qed

lemma warmup_tick_top: "warmup_tick i 6 = 6 \<or> wi_healthBand i = Degraded"
  by (auto simp: warmup_tick_def decideWarmupAction_def Let_def split: if_splits)

lemma warmup_run_climbs:
  assumes "1 \<le> t0" "t0 \<le> 6" "\<forall>i\<in>set is. may_advance i \<and> 30 \<le> wi_elapsedDays i"
  shows "warmup_run t0 is = min 6 (t0 + int (length is))"
  using assms(3)
proof (induction "is" rule: rev_induct)
  case Nil
  then show ?case using assms(2) by (simp add: warmup_run_def)
next
  case (snoc i "is")
  have run: "warmup_run t0 (is @ [i]) = warmup_tick i (min 6 (t0 + int (length is)))"
    using snoc by (simp add: warmup_run_def)
  have "warmup_tick i 6 = 6" using warmup_tick_top [of i] snoc.prems by (auto simp: may_advance_def)
  then show ?case unfolding run
    using warmup_tick_advance [of "t0 + int (length is)" i] assms(1) snoc.prems by (auto simp: min_def)
qed

text \<open>
  The warm-up ladder: over any history of evaluations the tier stays between 1 and 6, each evaluation moves it by
  one at most, it rises only on a healthy, running instance without a recent hard signal, and a tier above the first
  one was preceded by an evaluation on or after its first day. Six such evaluations from day 30 on reach the top.
\<close>

theorem warmup_ladder_one_step_at_a_time:
  assumes "1 \<le> t0" "t0 \<le> 6"
  shows "1 \<le> warmup_run t0 is \<and> warmup_run t0 is \<le> 6 \<and>
    (\<forall>i. \<bar>warmup_tick i (warmup_run t0 is) - warmup_run t0 is\<bar> \<le> 1 \<and>
      (warmup_run t0 is < warmup_tick i (warmup_run t0 is) \<longrightarrow> may_advance i)) \<and>
    (t0 < warmup_run t0 is \<longrightarrow> (\<exists>i\<in>set is. may_advance i \<and> tier_day (warmup_run t0 is) \<le> wi_elapsedDays i)) \<and>
    ((\<forall>i\<in>set is. may_advance i \<and> 30 \<le> wi_elapsedDays i) \<longrightarrow> warmup_run t0 is = min 6 (t0 + int (length is)))"
proof -
  define t where "t = warmup_run t0 is"
  have t: "1 \<le> t" "t \<le> 6" using warmup_run_invariant [OF assms, of "is"] by (auto simp: t_def)
  have "\<bar>warmup_tick i t - t\<bar> \<le> 1 \<and> (t < warmup_tick i t \<longrightarrow> may_advance i)" for i
    using t by (rule warmup_tick_cases [of t i]) auto
  then show ?thesis
    using warmup_run_invariant [OF assms, of "is"] warmup_run_climbs [OF assms, of "is"] by (simp add: t_def)
qed

definition demo_input :: warmup_input where
  "demo_input = \<lparr>wi_warmupTier = 1, wi_warmupStartedAtMs = Some 0, wi_healthBand = Healthy, wi_hasRecentHardRestrictionSignal = False,
     wi_isPaused = False, wi_degradedRollbackDueForEpisode = False, wi_elapsedDays = 31\<rparr>"

lemma warmup_ladder_one_step_at_a_time_witness: "warmup_run 1 (replicate 5 demo_input) = 6"
  using warmup_ladder_one_step_at_a_time [of 1 "replicate 5 demo_input"] by (simp add: demo_input_def may_advance_def)

end
