(* ===== verification/Pacing_Config.thy ===== *)
theory Pacing_Config
  imports Pacing
begin

text \<open>
  The limits in force of one instance, \<open>instance_pacing_state\<close>: its provisioning (\<open>engine/pacing/provision.ts\<close>), the
  one writer of the \<open>eff_*\<close> columns (\<open>config-service.ts\<close>, \<open>config-service-warmup-write.ts\<close>, migration 0034) under the
  row checks of migration 0033, and its callers: the staff relax (\<open>modules/internal/routes/pacing.ts\<close>), the sweep of
  expired relaxes (\<open>admin-relax-expiry.ts\<close>, \<open>pacing-overrides.repo.ts\<close>), the warm-up tick
  (\<open>warmup-evaluator-apply.ts\<close>) and the band change (\<open>modules/pacing/health/apply-band.ts\<close>). Audit rows, events,
  notifications and metrics are left out. A transaction that fails leaves the row as it was.
\<close>

section \<open>Rows\<close>

record override_row =
  ov_id :: nat
  ov_patch :: relax_patch
  ov_reason :: string
  ov_actor_staff_id :: string
  ov_expires_at :: int
  ov_expiry_applied :: bool

text \<open>
  The columns of \<open>instance_pacing_state\<close> that the writes read or change, the profile row it points to, the override rows
  of the instance in the order of their insertion, and from \<open>whatsapp_instances\<close> whether it is paused for a provider
  restriction.
\<close>

record config_row =
  cf_profile :: profile
  cf_warmup_tier :: int
  cf_health_band :: health_band
  cf_eff :: eff_row
  cf_config_version :: nat
  cf_timezone :: string
  cf_timezone_changed_at :: "int option"
  cf_overrides :: "override_row list"
  cf_provider_restricted :: bool

text \<open>The checks that migration 0033 puts on the row; an \<open>UPDATE\<close> that breaks one raises.\<close>

definition eff_checks :: "eff_row \<Rightarrow> bool" where
  "eff_checks e \<longleftrightarrow> 15000 \<le> er_gap_min_ms e \<and> er_gap_min_ms e \<le> er_gap_max_ms e \<and>
     0 \<le> er_daily_cap e \<and> er_daily_cap e \<le> 2000 \<and> 0 \<le> er_group_daily_cap e \<and> er_group_daily_cap e \<le> 50"

section \<open>Provisioning (provision.ts)\<close>

text \<open>The tier-1 row of the profile gives the limits, the profile only the floor of the cold ratio and the window.\<close>

definition provision_eff :: "profile \<Rightarrow> warmup_tier \<Rightarrow> eff_row" where
  "provision_eff p t = \<lparr>er_daily_cap = \<lfloor>wt_dailyCap t\<rfloor>, er_hourly_cap = \<lfloor>wt_hourlyCap t\<rfloor>, er_new_conv_cap = \<lfloor>wt_newConvCap t\<rfloor>,
     er_gap_min_ms = \<lfloor>wt_gapMinMs t\<rfloor>, er_gap_max_ms = \<lfloor>wt_gapMaxMs t\<rfloor>, er_cold_ratio_max = wt_coldRatioMax t,
     er_cold_ratio_floor = \<lfloor>cold_ratio_floor p\<rfloor>, er_window_start_local = Some (window_start_local p),
     er_window_end_local = Some (window_end_local p), er_group_daily_cap = \<lfloor>wt_groupDailyCap t\<rfloor>\<rparr>"

definition provisionInstancePacingState :: "profile \<Rightarrow> warmup_tier option \<Rightarrow> config_row option" where
  "provisionInstancePacingState p tier1 = (case tier1 of
     None \<Rightarrow> None
   | Some t \<Rightarrow> if eff_checks (provision_eff p t)
       then Some \<lparr>cf_profile = p, cf_warmup_tier = 1, cf_health_band = Healthy, cf_eff = provision_eff p t,
         cf_config_version = 1, cf_timezone = ''Asia/Kolkata'', cf_timezone_changed_at = None, cf_overrides = [],
         cf_provider_restricted = False\<rparr>
       else None)"

section \<open>The writer (config-service.ts)\<close>

definition loadInstanceLayers :: "config_row \<Rightarrow> admin_override option \<Rightarrow> layers" where
  "loadInstanceLayers st o1 = \<lparr>systemProfile = readSystemProfileLayer (cf_profile st),
     warmupTier = warmupTierLayer (cf_warmup_tier st), healthBand = cf_health_band st,
     tenantTightening = None, adminOverride = o1\<rparr>"

datatype config_kind = Profile_Kind | Warmup_Tier int int | Health_Band_Kind | Tenant_Tighten | Admin_Relax | Timezone string

datatype update_error =
    Config_Invalid config_error
  | Timezone_Rate_Limited
  | Limit_Missing string
  | Check_Violation
  | Warmup_Tier_Race_Lost

definition SEVEN_DAYS_MS :: int where "SEVEN_DAYS_MS = 7 * 24 * 60 * 60 * 1000"

text \<open>The \<open>eff_*\<close> columns as the statements set them: a missing window keeps the stored one.\<close>

definition write_eff :: "eff_row \<Rightarrow> eff_row \<Rightarrow> eff_row" where
  "write_eff new old = new\<lparr>er_window_start_local := or_else (er_window_start_local new) (er_window_start_local old),
     er_window_end_local := or_else (er_window_end_local new) (er_window_end_local old)\<rparr>"

definition updateEffRow :: "eff_row \<Rightarrow> health_band option \<Rightarrow> config_row \<Rightarrow> (update_error, config_row) result" where
  "updateEffRow eff band st =
    (let e = write_eff eff (cf_eff st) in
     if eff_checks e
     then Ok (st\<lparr>cf_eff := e, cf_config_version := Suc (cf_config_version st),
        cf_health_band := (case band of None \<Rightarrow> cf_health_band st | Some b \<Rightarrow> b)\<rparr>)
     else Err Check_Violation)"

text \<open>\<open>wp_warmup_apply_tier_change\<close>: guarded by the tier alone.\<close>

definition applyWarmupTierChangeAtomic :: "eff_row \<Rightarrow> int \<Rightarrow> int \<Rightarrow> config_row \<Rightarrow> (update_error, config_row) result" where
  "applyWarmupTierChangeAtomic eff from_tier to_tier st =
    (if cf_warmup_tier st \<noteq> from_tier then Err Warmup_Tier_Race_Lost
     else (let e = write_eff eff (cf_eff st) in
       if eff_checks e
       then Ok (st\<lparr>cf_eff := e, cf_config_version := Suc (cf_config_version st), cf_warmup_tier := to_tier\<rparr>)
       else Err Check_Violation))"

definition check_patch :: "config_kind \<Rightarrow> layers \<Rightarrow> int \<Rightarrow> (update_error, unit) result" where
  "check_patch kind ls nowMs =
    (case kind of
       Tenant_Tighten \<Rightarrow> (case tenantTightening ls of
           None \<Rightarrow> Ok ()
         | Some patch \<Rightarrow> (case resolveEffective (ls\<lparr>tenantTightening := None\<rparr>) of
             Err e \<Rightarrow> Err (Limit_Missing e)
           | Ok w \<Rightarrow> (case assertTenantPatchOnlyTightens patch w of Err e \<Rightarrow> Err (Config_Invalid e) | Ok _ \<Rightarrow> Ok ())))
     | Admin_Relax \<Rightarrow> (case adminOverride ls of
           None \<Rightarrow> Ok ()
         | Some ao \<Rightarrow> (case assertAdminRelaxValid ao nowMs of Err e \<Rightarrow> Err (Config_Invalid e) | Ok _ \<Rightarrow> Ok ()))
     | _ \<Rightarrow> Ok ())"

definition change_timezone :: "config_kind \<Rightarrow> int \<Rightarrow> config_row \<Rightarrow> (update_error, config_row) result" where
  "change_timezone kind nowMs st =
    (case kind of
       Timezone tz \<Rightarrow>
         if (case cf_timezone_changed_at st of None \<Rightarrow> False | Some t \<Rightarrow> nowMs - t < SEVEN_DAYS_MS) then Err Timezone_Rate_Limited
         else Ok (st\<lparr>cf_timezone := tz, cf_timezone_changed_at := Some nowMs\<rparr>)
     | _ \<Rightarrow> Ok st)"

definition updatePacingConfig :: "config_kind \<Rightarrow> layers \<Rightarrow> int \<Rightarrow> config_row \<Rightarrow> (update_error, config_row) result" where
  "updatePacingConfig kind ls nowMs st =
    bindR (check_patch kind ls nowMs) (\<lambda>_.
    bindR (change_timezone kind nowMs st) (\<lambda>st1.
    (case resolveEffective ls of
       Err e \<Rightarrow> Err (Limit_Missing e)
     | Ok r \<Rightarrow> (case kind of
           Warmup_Tier from_tier to_tier \<Rightarrow> applyWarmupTierChangeAtomic (toEffRow r) from_tier to_tier st1
         | Health_Band_Kind \<Rightarrow> updateEffRow (toEffRow r) (Some (healthBand ls)) st1
         | _ \<Rightarrow> updateEffRow (toEffRow r) None st1))))"

section \<open>Staff relax (modules/internal/routes/pacing.ts)\<close>

datatype route_error =
    Validation_400 relax_error
  | Invalid_State_409
  | Server_Error_500 update_error

definition toNumericPatch :: "relax_patch \<Rightarrow> relax_patch" where
  "toNumericPatch p = filter (\<lambda>(f, v). v \<noteq> None) p"

definition adminOverrideFromRow :: "override_row \<Rightarrow> admin_override" where
  "adminOverrideFromRow row = relax_override (ov_patch row) (ov_actor_staff_id row) (ov_reason row) (ov_expires_at row)"

definition insertAdminRelaxOverride :: "relax_patch \<Rightarrow> string \<Rightarrow> string \<Rightarrow> int \<Rightarrow> config_row \<Rightarrow> config_row" where
  "insertAdminRelaxOverride patch why staff expiresAt st =
    st\<lparr>cf_overrides := cf_overrides st @ [\<lparr>ov_id = length (cf_overrides st), ov_patch = patch, ov_reason = why,
       ov_actor_staff_id = staff, ov_expires_at = expiresAt, ov_expiry_applied = False\<rparr>]\<rparr>"

definition pacingOverride :: "relax_patch \<Rightarrow> int \<Rightarrow> string \<Rightarrow> string \<Rightarrow> int \<Rightarrow> config_row \<Rightarrow>
    (route_error, config_row \<times> relax_patch \<times> relax_field list) result" where
  "pacingOverride patch expiresAt why staff nowMs st =
    (case clampAdminRelax patch expiresAt nowMs of
       Err e \<Rightarrow> Err (Validation_400 e)
     | Ok (clamped, clampedFields) \<Rightarrow>
         if cf_provider_restricted st then Err Invalid_State_409
         else (let p = toNumericPatch clamped; st1 = insertAdminRelaxOverride p why staff expiresAt st in
           (case updatePacingConfig Admin_Relax (loadInstanceLayers st1 (Some (relax_override p staff why expiresAt))) nowMs st1 of
              Err e \<Rightarrow> Err (Server_Error_500 e)
            | Ok st2 \<Rightarrow> Ok (st2, p, clampedFields))))"

section \<open>The expiry sweep (admin-relax-expiry.ts, pacing-overrides.repo.ts)\<close>

definition selectExpiredAdminRelaxOverrides :: "config_row \<Rightarrow> nat \<Rightarrow> int \<Rightarrow> override_row list" where
  "selectExpiredAdminRelaxOverrides st limit asOf =
    take limit (sort_key ov_expires_at (filter (\<lambda>r. ov_expires_at r \<le> asOf \<and> \<not> ov_expiry_applied r) (cf_overrides st)))"

definition markAdminRelaxExpiryApplied :: "nat \<Rightarrow> config_row \<Rightarrow> config_row \<times> bool" where
  "markAdminRelaxExpiryApplied i st =
    (st\<lparr>cf_overrides := map (\<lambda>r. if ov_id r = i \<and> \<not> ov_expiry_applied r then r\<lparr>ov_expiry_applied := True\<rparr> else r) (cf_overrides st)\<rparr>,
     \<exists>r\<in>set (cf_overrides st). ov_id r = i \<and> \<not> ov_expiry_applied r)"

definition readNewestLiveAdminRelaxOverride :: "config_row \<Rightarrow> int \<Rightarrow> override_row option" where
  "readNewestLiveAdminRelaxOverride st asOf =
    (case sort_key (\<lambda>r. - ov_expires_at r) (filter (\<lambda>r. \<not> ov_expiry_applied r \<and> ov_expires_at r > asOf) (cf_overrides st)) of
       [] \<Rightarrow> None
     | r # _ \<Rightarrow> Some r)"

datatype sweep_outcome = Expired | Not_Won | Failed update_error

definition sweep_row :: "int \<Rightarrow> nat \<Rightarrow> config_row \<Rightarrow> config_row \<times> sweep_outcome" where
  "sweep_row nowMs i st =
    (let (st1, won) = markAdminRelaxExpiryApplied i st in
     if \<not> won then (st, Not_Won)
     else (let ls = loadInstanceLayers st1 (map_option adminOverrideFromRow (readNewestLiveAdminRelaxOverride st1 nowMs)) in
       (case updatePacingConfig Admin_Relax ls nowMs st1 of
          Err e \<Rightarrow> (st, Failed e)
        | Ok st2 \<Rightarrow> (st2, Expired))))"

fun sweep_rows :: "int \<Rightarrow> override_row list \<Rightarrow> config_row \<Rightarrow> config_row \<times> sweep_outcome list" where
  "sweep_rows nowMs [] st = (st, [])"
| "sweep_rows nowMs (r # rs) st =
    (let (st1, out) = sweep_row nowMs (ov_id r) st; (st2, outs) = sweep_rows nowMs rs st1 in (st2, out # outs))"

definition runOneAdminRelaxExpirySweep :: "nat \<Rightarrow> int \<Rightarrow> config_row \<Rightarrow> config_row \<times> sweep_outcome list" where
  "runOneAdminRelaxExpirySweep maxRows nowMs st = sweep_rows nowMs (selectExpiredAdminRelaxOverrides st maxRows nowMs) st"

section \<open>Warm-up tick and band change\<close>

text \<open>
  \<open>evaluateOneInstance\<close> computes the layers of a tier change from the tier and band of its scan row, read before the
  write; \<open>applyBandChange\<close> from the tier of the row it read. Neither passes an override.
\<close>

definition evaluateOneInstance :: "int \<Rightarrow> health_band \<Rightarrow> warmup_decision \<Rightarrow> int \<Rightarrow> config_row \<Rightarrow> (update_error, config_row) result" where
  "evaluateOneInstance scan_tier scan_band decision nowMs st =
    (let apply_to = (\<lambda>to_tier. updatePacingConfig (Warmup_Tier scan_tier to_tier)
        \<lparr>systemProfile = readSystemProfileLayer (cf_profile st), warmupTier = warmupTierLayer to_tier, healthBand = scan_band,
         tenantTightening = None, adminOverride = None\<rparr> nowMs st) in
     (case decision of
        Hold _ \<Rightarrow> Ok st
      | Advance to_tier _ \<Rightarrow> apply_to to_tier
      | Rollback to_tier _ \<Rightarrow> apply_to to_tier))"

definition applyBandChange :: "int \<Rightarrow> health_band \<Rightarrow> int \<Rightarrow> config_row \<Rightarrow> (update_error, config_row) result" where
  "applyBandChange read_tier toBand nowMs st =
    updatePacingConfig Health_Band_Kind
      \<lparr>systemProfile = readSystemProfileLayer (cf_profile st), warmupTier = warmupTierLayer read_tier, healthBand = toBand,
       tenantTightening = None, adminOverride = None\<rparr> nowMs st"


section \<open>The resolved limits in closed form\<close>

text \<open>The tier row that \<open>warmupTierLayer\<close> uses, and the limits of a row under a relax patch (empty for none).\<close>

definition ladder_row :: "int \<Rightarrow> warmup_tier" where
  "ladder_row tier = (case tier_row tier of Some r \<Rightarrow> r | None \<Rightarrow> WARMUP_LADDER ! 0)"

definition pick :: "relax_patch \<Rightarrow> relax_field \<Rightarrow> real \<Rightarrow> real" where
  "pick q f v = (case patch_get q f of None \<Rightarrow> v | Some w \<Rightarrow> w)"

definition row_limits :: "profile \<Rightarrow> int \<Rightarrow> health_band \<Rightarrow> relax_patch \<Rightarrow> effective_limits" where
  "row_limits p tier b q = (let fx = HEALTH_BAND_EFFECTS b; t = ladder_row tier in
    \<lparr>ef_dailyCap = min (pick q F_dailyCap (min (daily_cap_ceiling p * capMultiplier fx) (wt_dailyCap t * capMultiplier fx))) 2000,
     ef_hourlyCap = pick q F_hourlyCap (min (hourly_cap_ceiling p * capMultiplier fx) (wt_hourlyCap t * capMultiplier fx)),
     ef_newConvCap = pick q F_newConvCap (wt_newConvCap t * newConvMultiplier fx),
     ef_gapMinMs = max (pick q F_gapMinMs (max (gap_min_floor_ms p * gapMultiplier fx) (wt_gapMinMs t * gapMultiplier fx))) 15000,
     ef_gapMaxMs = max (pick q F_gapMaxMs (wt_gapMaxMs t * gapMultiplier fx)) 15000,
     ef_coldRatioMax = min (cold_ratio_max p) (wt_coldRatioMax t), ef_coldRatioFloor = cold_ratio_floor p,
     ef_perRecipient24h = None,
     ef_groupDailyCap = min (pick q F_groupDailyCap (wt_groupDailyCap t * groupCapMultiplier fx)) 50,
     ef_windowStartLocal = Some (window_start_local p), ef_windowEndLocal = Some (window_end_local p),
     ef_blockLinkFirst = wt_blockLinkFirst t, ef_blockGroupActions = wt_blockGroupActions t\<rparr>)"

lemma warmupTierLayer_eq: "warmupTierLayer tier = (let row = ladder_row tier in
     no_opinion\<lparr>ly_dailyCap := Some (wt_dailyCap row), ly_hourlyCap := Some (wt_hourlyCap row),
       ly_newConvCap := Some (wt_newConvCap row), ly_gapMinMs := Some (wt_gapMinMs row), ly_gapMaxMs := Some (wt_gapMaxMs row),
       ly_coldRatioMax := Some (wt_coldRatioMax row), ly_groupDailyCap := Some (wt_groupDailyCap row),
       ly_blockLinkFirst := Some (wt_blockLinkFirst row), ly_blockGroupActions := Some (wt_blockGroupActions row)\<rparr>)"
  by (simp add: warmupTierLayer_def ladder_row_def)

lemma pick_or_else: "or_else (patch_get q f) (Some v) = Some (pick q f v)"
  by (simp add: or_else_def pick_def split: option.splits)

lemma or_else_None [simp]: "or_else None v = v"
  by (simp add: or_else_def)

lemma pick_empty [simp]: "pick [] f v = v"
  by (simp add: pick_def patch_get_def)

definition base_layers :: "profile \<Rightarrow> int \<Rightarrow> health_band \<Rightarrow> admin_override option \<Rightarrow> layers" where
  "base_layers p tier b o1 = \<lparr>systemProfile = readSystemProfileLayer p, warmupTier = warmupTierLayer tier, healthBand = b,
     tenantTightening = None, adminOverride = o1\<rparr>"

lemma base_override [simp]: "adminOverride (base_layers p tier b o1) = o1"
  by (simp add: base_layers_def)

lemma folded_base:
  "folded_layers (base_layers p tier b o1) = (let fx = HEALTH_BAND_EFFECTS b; t = ladder_row tier in
    \<lparr>ly_dailyCap = Some (min (daily_cap_ceiling p * capMultiplier fx) (wt_dailyCap t * capMultiplier fx)),
     ly_hourlyCap = Some (min (hourly_cap_ceiling p * capMultiplier fx) (wt_hourlyCap t * capMultiplier fx)),
     ly_newConvCap = Some (wt_newConvCap t * newConvMultiplier fx),
     ly_gapMinMs = Some (max (gap_min_floor_ms p * gapMultiplier fx) (wt_gapMinMs t * gapMultiplier fx)),
     ly_gapMaxMs = Some (wt_gapMaxMs t * gapMultiplier fx),
     ly_coldRatioMax = Some (min (cold_ratio_max p) (wt_coldRatioMax t)), ly_coldRatioFloor = Some (cold_ratio_floor p),
     ly_perRecipient24h = None, ly_groupDailyCap = Some (wt_groupDailyCap t * groupCapMultiplier fx),
     ly_window = Some \<lparr>startLocal = window_start_local p, endLocal = window_end_local p\<rparr>,
     ly_blockLinkFirst = Some (wt_blockLinkFirst t), ly_blockGroupActions = Some (wt_blockGroupActions t)\<rparr>)"
  unfolding base_layers_def folded_layers_def foldStrictest_def readSystemProfileLayer_def warmupTierLayer_eq Let_def
    applyHealthBandCaps_def no_opinion_def
  by (simp add: minOf_def maxOf_def orFalse_def intersectWindow_def List.map_filter_simps min.commute max.commute)

lemma resolve_base_override:
  "resolveEffective (base_layers p tier b (Some (relax_override q a w x))) = Ok (row_limits p tier b q)"
  unfolding resolveEffective_def folded_base Let_def base_override
  by (simp add: applyAdminOverride_sel relax_override_def patch_layer_def no_opinion_def pick_or_else clampToAbsolutes_def
      requireNumber_def row_limits_def Let_def absolutes)

lemma resolve_base: "resolveEffective (base_layers p tier b None) = Ok (row_limits p tier b [])"
  unfolding resolveEffective_def folded_base Let_def base_override
  by (simp add: clampToAbsolutes_def requireNumber_def row_limits_def Let_def absolutes)


lemma loadInstanceLayers_base:
  "loadInstanceLayers st o1 = base_layers (cf_profile st) (cf_warmup_tier st) (cf_health_band st) o1"
  by (simp add: loadInstanceLayers_def base_layers_def)

definition live_patch :: "override_row option \<Rightarrow> relax_patch" where
  "live_patch r = (case r of None \<Rightarrow> [] | Some row \<Rightarrow> ov_patch row)"

lemma resolve_base_row:
  "resolveEffective (base_layers p tier b (map_option adminOverrideFromRow r)) = Ok (row_limits p tier b (live_patch r))"
  by (cases r) (simp_all add: resolve_base resolve_base_override adminOverrideFromRow_def live_patch_def)

lemma write_eff_row [simp]: "write_eff (toEffRow (row_limits p tier b q)) old = toEffRow (row_limits p tier b q)"
  by (simp add: write_eff_def toEffRow_def row_limits_def Let_def or_else_def)


text \<open>Without a relax every row of the ladder under every band passes the checks, for a profile with sensible numbers.\<close>

definition profile_ok :: "profile \<Rightarrow> bool" where
  "profile_ok p \<longleftrightarrow> 0 \<le> daily_cap_ceiling p \<and> gap_min_floor_ms p \<le> 60000"

lemma ladder_row_in: "ladder_row tier \<in> set WARMUP_LADDER"
proof (cases "tier_row tier")
  case None
  then show ?thesis by (simp add: ladder_row_def WARMUP_LADDER_def)
next
  case (Some r)
  then have "r \<in> set WARMUP_LADDER" unfolding tier_row_def find_Some_iff by auto
  with Some show ?thesis by (simp add: ladder_row_def)
qed

lemma ladder_bounds:
  assumes "t \<in> set WARMUP_LADDER"
  shows "0 \<le> wt_dailyCap t" "0 \<le> wt_groupDailyCap t" "wt_gapMinMs t \<le> wt_gapMaxMs t" "60000 \<le> wt_gapMaxMs t"
  using assms by (auto simp: WARMUP_LADDER_def)

lemma effect_bounds [simp]:
  "0 \<le> capMultiplier (HEALTH_BAND_EFFECTS b)" "0 \<le> groupCapMultiplier (HEALTH_BAND_EFFECTS b)"
  "0 \<le> gapMultiplier (HEALTH_BAND_EFFECTS b)"
  by (cases b; simp)+

lemma unrelaxed_checks:
  assumes "profile_ok p"
  shows "eff_checks (toEffRow (row_limits p tier b []))"
proof -
  note t = ladder_bounds [OF ladder_row_in [of tier]]
  let ?t = "ladder_row tier" and ?g = "gapMultiplier (HEALTH_BAND_EFFECTS b)" and ?c = "capMultiplier (HEALTH_BAND_EFFECTS b)"
  have "max (gap_min_floor_ms p * ?g) (wt_gapMinMs ?t * ?g) \<le> wt_gapMaxMs ?t * ?g"
    using assms t by (auto simp: profile_ok_def intro!: mult_right_mono)
  then have "\<lceil>max (max (gap_min_floor_ms p * ?g) (wt_gapMinMs ?t * ?g)) 15000\<rceil> \<le> \<lceil>max (wt_gapMaxMs ?t * ?g) 15000\<rceil>"
    by (intro ceiling_mono) linarith
  moreover have "15000 \<le> \<lceil>max (max (gap_min_floor_ms p * ?g) (wt_gapMinMs ?t * ?g)) 15000\<rceil>"
    using ceiling_mono [of "15000::real"] by (metis ceiling_numeral max.cobounded2)
  moreover have "0 \<le> \<lfloor>min (min (daily_cap_ceiling p * ?c) (wt_dailyCap ?t * ?c)) 2000\<rfloor>"
    using assms t by (simp add: profile_ok_def)
  moreover have "\<lfloor>min (min (daily_cap_ceiling p * ?c) (wt_dailyCap ?t * ?c)) 2000\<rfloor> \<le> 2000"
    by (simp add: floor_le_iff)
  moreover have "0 \<le> \<lfloor>min (wt_groupDailyCap ?t * groupCapMultiplier (HEALTH_BAND_EFFECTS b)) 50\<rfloor>" using t by simp
  moreover have "\<lfloor>min (wt_groupDailyCap ?t * groupCapMultiplier (HEALTH_BAND_EFFECTS b)) 50\<rfloor> \<le> 50"
    by (simp add: floor_le_iff)
  ultimately show ?thesis by (simp add: eff_checks_def toEffRow_def row_limits_def Let_def)
qed

section \<open>Histories\<close>

datatype config_event =
    Relax relax_patch int string string int
  | Sweep nat int
  | Warmup_Tick int health_band warmup_decision int
  | Band_Changed int health_band int
  | Band_Recorded health_band
  | Restrict bool

text \<open>
  A relax and each row of a sweep read and write in one step. A warm-up tick carries the tier and band of its scan and a
  band change the tier it read, which the row need not have any more at the write. \<open>Band_Recorded\<close> is the bookkeeping
  \<open>UPDATE\<close> of the health evaluator: it stores a band and leaves the limits, which is all a tick that enters band critical
  writes. A failing event leaves the row unchanged.
\<close>

definition settle_config :: "config_row \<Rightarrow> ('e, config_row) result \<Rightarrow> config_row" where
  "settle_config st r = (case r of Err _ \<Rightarrow> st | Ok st' \<Rightarrow> st')"

fun config_step :: "config_event \<Rightarrow> config_row \<Rightarrow> config_row" where
  "config_step (Relax patch expiresAt why staff now) st =
     (case pacingOverride patch expiresAt why staff now st of Err _ \<Rightarrow> st | Ok (st', _) \<Rightarrow> st')"
| "config_step (Sweep maxRows now) st = fst (runOneAdminRelaxExpirySweep maxRows now st)"
| "config_step (Warmup_Tick scan_tier scan_band d now) st = settle_config st (evaluateOneInstance scan_tier scan_band d now st)"
| "config_step (Band_Changed read_tier b now) st = settle_config st (applyBandChange read_tier b now st)"
| "config_step (Band_Recorded b) st = st\<lparr>cf_health_band := b\<rparr>"
| "config_step (Restrict b) st = st\<lparr>cf_provider_restricted := b\<rparr>"

definition config_run :: "config_event list \<Rightarrow> config_row \<Rightarrow> config_row" where
  "config_run es st = fold config_step es st"

text \<open>
  The tier and band that the last write of the limits used (each such write raises \<open>config_version\<close>), carried beside the
  row; and the histories in which every write used what the row had, and no band was recorded without rewriting the limits.
\<close>

type_synonym applied = "int \<times> health_band"

definition row_layers :: "config_row \<Rightarrow> applied" where
  "row_layers st = (cf_warmup_tier st, cf_health_band st)"

fun used_layers :: "config_event \<Rightarrow> config_row \<Rightarrow> applied" where
  "used_layers (Warmup_Tick scan_tier scan_band d now) st = (cf_warmup_tier (config_step (Warmup_Tick scan_tier scan_band d now) st), scan_band)"
| "used_layers (Band_Changed read_tier b now) st = (read_tier, b)"
| "used_layers _ st = row_layers st"

fun applied_after :: "config_event list \<Rightarrow> config_row \<Rightarrow> applied \<Rightarrow> applied" where
  "applied_after [] st a = a"
| "applied_after (e # es) st a = applied_after es (config_step e st)
     (if cf_config_version (config_step e st) = cf_config_version st then a else used_layers e st)"

fun fresh_event :: "config_event \<Rightarrow> config_row \<Rightarrow> bool" where
  "fresh_event (Warmup_Tick scan_tier scan_band d now) st \<longleftrightarrow> scan_band = cf_health_band st"
| "fresh_event (Band_Changed read_tier b now) st \<longleftrightarrow> read_tier = cf_warmup_tier st"
| "fresh_event (Band_Recorded b) st \<longleftrightarrow> b = cf_health_band st"
| "fresh_event _ st \<longleftrightarrow> True"

fun fresh_history :: "config_event list \<Rightarrow> config_row \<Rightarrow> bool" where
  "fresh_history [] st \<longleftrightarrow> True"
| "fresh_history (e # es) st \<longleftrightarrow> fresh_event e st \<and> fresh_history es (config_step e st)"

definition from_layers :: "applied \<Rightarrow> config_row \<Rightarrow> override_row option \<Rightarrow> bool" where
  "from_layers a st r \<longleftrightarrow> cf_eff st = toEffRow (row_limits (cf_profile st) (fst a) (snd a) (live_patch r))"

definition from_row :: "config_row \<Rightarrow> override_row option \<Rightarrow> bool" where
  "from_row st r \<longleftrightarrow> cf_eff st = toEffRow (row_limits (cf_profile st) (cf_warmup_tier st) (cf_health_band st) (live_patch r))"

lemma from_layers_row: "from_layers (row_layers st) st r \<longleftrightarrow> from_row st r"
  by (simp add: from_layers_def from_row_def row_layers_def)

definition config_ok :: "applied \<Rightarrow> config_row \<Rightarrow> bool" where
  "config_ok a st \<longleftrightarrow> eff_checks (cf_eff st) \<and> map ov_id (cf_overrides st) = [0..<length (cf_overrides st)] \<and>
     (from_layers a st None \<or> (\<exists>r\<in>set (cf_overrides st). \<not> ov_expiry_applied r \<and> from_layers a st (Some r)))"

lemma admin_update:
  assumes "updatePacingConfig Admin_Relax (loadInstanceLayers st (map_option adminOverrideFromRow r)) now st = Ok st'"
  shows "st' = st\<lparr>cf_eff := toEffRow (row_limits (cf_profile st) (cf_warmup_tier st) (cf_health_band st) (live_patch r)),
           cf_config_version := Suc (cf_config_version st)\<rparr> \<and> eff_checks (cf_eff st') \<and> from_row st' r"
  using assms
  by (auto simp: updatePacingConfig_def change_timezone_def loadInstanceLayers_base resolve_base_row updateEffRow_def Let_def
      from_row_def split: if_splits)

lemma admin_update_none:
  assumes "profile_ok (cf_profile st)"
  shows "\<exists>st'. updatePacingConfig Admin_Relax (loadInstanceLayers st None) now st = Ok st'"
  using unrelaxed_checks [OF assms]
  by (simp add: updatePacingConfig_def change_timezone_def loadInstanceLayers_base resolve_base updateEffRow_def Let_def
      check_patch_def)


definition new_override :: "relax_patch \<Rightarrow> string \<Rightarrow> string \<Rightarrow> int \<Rightarrow> config_row \<Rightarrow> override_row" where
  "new_override p why staff x st = \<lparr>ov_id = length (cf_overrides st), ov_patch = p, ov_reason = why, ov_actor_staff_id = staff,
     ov_expires_at = x, ov_expiry_applied = False\<rparr>"

lemma pacingOverride_Ok:
  assumes "pacingOverride patch expiresAt why staff now st = Ok (st', p, cf)"
  obtains clamped where "clampAdminRelax patch expiresAt now = Ok (clamped, cf)" "p = toNumericPatch clamped"
    "\<not> cf_provider_restricted st" "eff_checks (cf_eff st')"
    "st' = st\<lparr>cf_overrides := cf_overrides st @ [new_override p why staff expiresAt st],
       cf_eff := toEffRow (row_limits (cf_profile st) (cf_warmup_tier st) (cf_health_band st) p),
       cf_config_version := Suc (cf_config_version st)\<rparr>"
proof -
  let ?r = "new_override p why staff expiresAt st"
  let ?st1 = "st\<lparr>cf_overrides := cf_overrides st @ [?r]\<rparr>"
  from assms obtain clamped where c: "clampAdminRelax patch expiresAt now = Ok (clamped, cf)" "p = toNumericPatch clamped"
      "\<not> cf_provider_restricted st"
    and u: "updatePacingConfig Admin_Relax (loadInstanceLayers ?st1 (Some (relax_override p staff why expiresAt))) now ?st1 = Ok st'"
    by (auto simp: pacingOverride_def Let_def insertAdminRelaxOverride_def new_override_def split: sum.splits if_splits)
  have "relax_override p staff why expiresAt = adminOverrideFromRow ?r" by (simp add: new_override_def adminOverrideFromRow_def)
  with u have "updatePacingConfig Admin_Relax (loadInstanceLayers ?st1 (map_option adminOverrideFromRow (Some ?r))) now ?st1 = Ok st'"
    by simp
  note a = admin_update [OF this]
  have "live_patch (Some ?r) = p" by (simp add: new_override_def live_patch_def)
  with a show thesis by (intro that [OF c]) auto
qed

lemma config_ok_newest:
  assumes "readNewestLiveAdminRelaxOverride st now = Some r"
  shows "r \<in> set (cf_overrides st) \<and> \<not> ov_expiry_applied r \<and> now < ov_expires_at r"
proof -
  let ?l = "filter (\<lambda>r. \<not> ov_expiry_applied r \<and> ov_expires_at r > now) (cf_overrides st)"
  from assms obtain rs where "sort_key (\<lambda>r. - ov_expires_at r) ?l = r # rs"
    by (auto simp: readNewestLiveAdminRelaxOverride_def split: list.splits)
  then have "r \<in> set (sort_key (\<lambda>r. - ov_expires_at r) ?l)" by (metis list.set_intros(1))
  then show ?thesis by simp
qed

definition stamp :: "nat \<Rightarrow> config_row \<Rightarrow> config_row" where
  "stamp i st = fst (markAdminRelaxExpiryApplied i st)"

lemma stamp_fields [simp]:
  "cf_profile (stamp i st) = cf_profile st" "cf_warmup_tier (stamp i st) = cf_warmup_tier st"
  "cf_health_band (stamp i st) = cf_health_band st" "cf_eff (stamp i st) = cf_eff st"
  "map ov_id (cf_overrides (stamp i st)) = map ov_id (cf_overrides st)"
  "length (cf_overrides (stamp i st)) = length (cf_overrides st)"
  by (simp_all add: stamp_def markAdminRelaxExpiryApplied_def)

lemma sweep_row_cases:
  obtains (not_won) "sweep_row now i st = (st, Not_Won)" "\<not> (\<exists>r\<in>set (cf_overrides st). ov_id r = i \<and> \<not> ov_expiry_applied r)"
  | (failed) e where "sweep_row now i st = (st, Failed e)"
  | (swept) st' r where "sweep_row now i st = (st', Expired)" "r = readNewestLiveAdminRelaxOverride (stamp i st) now"
      "st' = (stamp i st)\<lparr>cf_eff := toEffRow (row_limits (cf_profile st) (cf_warmup_tier st) (cf_health_band st) (live_patch r)),
         cf_config_version := Suc (cf_config_version (stamp i st))\<rparr>" "eff_checks (cf_eff st')"
proof (cases "snd (markAdminRelaxExpiryApplied i st)")
  case False
  then show thesis by (intro not_won) (auto simp: sweep_row_def markAdminRelaxExpiryApplied_def)
next
  case True
  let ?r = "readNewestLiveAdminRelaxOverride (stamp i st) now"
  let ?u = "updatePacingConfig Admin_Relax (loadInstanceLayers (stamp i st) (map_option adminOverrideFromRow ?r)) now (stamp i st)"
  have s: "sweep_row now i st = (case ?u of Err e \<Rightarrow> (st, Failed e) | Ok st2 \<Rightarrow> (st2, Expired))"
    using True by (simp add: sweep_row_def stamp_def case_prod_unfold Let_def split: sum.splits)
  show thesis
  proof (cases ?u)
    case (Inl e)
    with s show thesis by (intro failed [of e]) simp
  next
    case (Inr st')
    note a = admin_update [OF Inr]
    have "sweep_row now i st = (st', Expired)" using s Inr by simp
    moreover have "eff_checks (cf_eff st')" using a by blast
    moreover have "st' = (stamp i st)\<lparr>cf_eff := toEffRow (row_limits (cf_profile st) (cf_warmup_tier st) (cf_health_band st) (live_patch ?r)),
         cf_config_version := Suc (cf_config_version (stamp i st))\<rparr>" using a by simp
    ultimately show thesis using swept by blast
  qed
qed

lemma sweep_row_ok:
  assumes "config_ok a st" "st' = fst (sweep_row now i st)"
  shows "row_layers st' = row_layers st \<and> cf_config_version st \<le> cf_config_version st' \<and>
    config_ok (if cf_config_version st' = cf_config_version st then a else row_layers st) st'"
proof (cases rule: sweep_row_cases [of now i st])
  case not_won
  then show ?thesis using assms by simp
next
  case (failed e)
  then show ?thesis using assms by simp
next
  case (swept st2 r)
  then have st2: "st' = st2" using assms(2) by simp
  have v: "cf_config_version (stamp i st) = cf_config_version st" by (simp add: stamp_def markAdminRelaxExpiryApplied_def)
  have rl: "row_layers st' = row_layers st" using swept(3) st2 by (simp add: row_layers_def)
  have "map ov_id (cf_overrides st') = [0..<length (cf_overrides st')]" using assms(1) swept(3) st2 by (simp add: config_ok_def)
  moreover have f: "from_layers (row_layers st) st' r" using swept(3) st2 by (simp add: from_layers_def row_layers_def)
  moreover have o: "cf_overrides st' = cf_overrides (stamp i st)" using swept(3) st2 by simp
  moreover have "from_layers (row_layers st) st' None \<or>
      (\<exists>r\<in>set (cf_overrides st'). \<not> ov_expiry_applied r \<and> from_layers (row_layers st) st' (Some r))"
  proof (cases r)
    case None
    then show ?thesis using f by simp
  next
    case (Some row)
    then show ?thesis using f config_ok_newest [of "stamp i st" now row] swept(2) unfolding o by auto
  qed
  moreover have "cf_config_version st' = Suc (cf_config_version st)" using swept(3) st2 v by simp
  ultimately show ?thesis using swept(4) st2 rl by (simp add: config_ok_def)
qed

lemma sweep_rows_layers: "row_layers (fst (sweep_rows now rs st)) = row_layers st"
proof (induction rs arbitrary: st)
  case (Cons r rs)
  have "row_layers (fst (sweep_row now (ov_id r) st)) = row_layers st"
    by (cases rule: sweep_row_cases [of now "ov_id r" st]) (simp_all add: row_layers_def)
  then show ?case using Cons.IH [of "fst (sweep_row now (ov_id r) st)"] by (simp add: case_prod_unfold Let_def)
qed simp

lemma sweep_rows_version: "cf_config_version st \<le> cf_config_version (fst (sweep_rows now rs st))"
proof (induction rs arbitrary: st)
  case (Cons r rs)
  have "cf_config_version st \<le> cf_config_version (fst (sweep_row now (ov_id r) st))"
    by (cases rule: sweep_row_cases [of now "ov_id r" st]) (simp_all add: stamp_def markAdminRelaxExpiryApplied_def)
  then show ?case using Cons.IH [of "fst (sweep_row now (ov_id r) st)"] by (simp add: case_prod_unfold Let_def)
qed simp

lemma sweep_rows_ok:
  "config_ok a st \<Longrightarrow> st' = fst (sweep_rows now rs st) \<Longrightarrow>
    row_layers st' = row_layers st \<and> cf_config_version st \<le> cf_config_version st' \<and>
    config_ok (if cf_config_version st' = cf_config_version st then a else row_layers st) st'"
proof (induction rs arbitrary: st a)
  case (Cons r rs)
  obtain st1 out where 1: "sweep_row now (ov_id r) st = (st1, out)" by (cases "sweep_row now (ov_id r) st")
  note s1 = sweep_row_ok [OF Cons.prems(1), of st1 now "ov_id r", unfolded 1, simplified]
  have "st' = fst (sweep_rows now rs st1)" using Cons.prems(2) 1 by (simp add: case_prod_unfold Let_def)
  note s2 = Cons.IH [OF s1 [THEN conjunct2, THEN conjunct2] this]
  show ?case using s1 s2 by (auto split: if_splits)
qed simp

lemma evaluateOneInstance_Ok:
  assumes "evaluateOneInstance scan_tier scan_band d now st = Ok st'"
  shows "st' = st \<or> (\<exists>t. scan_tier = cf_warmup_tier st \<and> eff_checks (cf_eff st') \<and>
    st' = st\<lparr>cf_eff := toEffRow (row_limits (cf_profile st) t scan_band []), cf_config_version := Suc (cf_config_version st),
      cf_warmup_tier := t\<rparr>)"
  using assms
  by (auto simp: evaluateOneInstance_def Let_def updatePacingConfig_def check_patch_def change_timezone_def
      base_layers_def [symmetric] resolve_base applyWarmupTierChangeAtomic_def split: warmup_decision.splits if_splits)

lemma applyBandChange_Ok:
  assumes "applyBandChange tier b now st = Ok st'"
  shows "eff_checks (cf_eff st') \<and> st' = st\<lparr>cf_eff := toEffRow (row_limits (cf_profile st) tier b []),
      cf_config_version := Suc (cf_config_version st), cf_health_band := b\<rparr>"
  using assms
  by (auto simp: applyBandChange_def updatePacingConfig_def check_patch_def change_timezone_def Let_def
      base_layers_def [symmetric] resolve_base updateEffRow_def split: if_splits)
   (simp_all add: base_layers_def)

lemma config_step_ok:
  assumes "config_ok a st" "st' = config_step e st"
  shows "config_ok (if cf_config_version st' = cf_config_version st then a else used_layers e st) st'"
proof (cases e)
  case (Relax patch x why staff now)
  show ?thesis
  proof (cases "pacingOverride patch x why staff now st")
    case (Inl e)
    then show ?thesis using Relax assms by simp
  next
    case (Inr t)
    obtain st2 p cf where t: "t = (st2, p, cf)" by (cases t)
    have "config_ok (row_layers st) st2 \<and> cf_config_version st2 = Suc (cf_config_version st)"
      by (rule pacingOverride_Ok [OF Inr [unfolded t]])
        (use assms in \<open>auto simp: config_ok_def from_layers_def row_layers_def new_override_def live_patch_def\<close>)
    then show ?thesis using Relax Inr t assms(2) by simp
  qed
next
  case (Sweep n now)
  then show ?thesis using sweep_rows_ok [OF assms(1), of st' now "selectExpiredAdminRelaxOverrides st n now"] assms(2)
    by (simp add: runOneAdminRelaxExpirySweep_def split: if_splits)
next
  case (Warmup_Tick t b d now)
  then show ?thesis
    using assms by (auto simp: settle_config_def config_ok_def from_layers_def live_patch_def split: sum.splits
        dest!: evaluateOneInstance_Ok)
next
  case (Band_Changed t b now)
  then show ?thesis
    using assms by (auto simp: settle_config_def config_ok_def from_layers_def live_patch_def split: sum.splits
        dest!: applyBandChange_Ok)
qed (use assms in \<open>simp_all add: config_ok_def from_layers_def\<close>)

lemma fresh_step:
  assumes "fresh_event e st" "a = row_layers st" "st' = config_step e st"
  shows "(if cf_config_version st' = cf_config_version st then a else used_layers e st) = row_layers st'"
proof (cases e)
  case (Relax patch x why staff now)
  show ?thesis
  proof (cases "pacingOverride patch x why staff now st")
    case (Inl e)
    then show ?thesis using Relax assms by simp
  next
    case (Inr t)
    obtain st2 p cf where t: "t = (st2, p, cf)" by (cases t)
    have "row_layers st2 = row_layers st" by (rule pacingOverride_Ok [OF Inr [unfolded t]]) (simp add: row_layers_def)
    then show ?thesis using Relax Inr t assms by simp
  qed
next
  case (Sweep n now)
  then show ?thesis using sweep_rows_layers [of now "selectExpiredAdminRelaxOverrides st n now" st] assms
    by (simp add: runOneAdminRelaxExpirySweep_def)
next
  case (Warmup_Tick t b d now)
  then show ?thesis using assms
    by (auto simp: settle_config_def row_layers_def split: sum.splits dest!: evaluateOneInstance_Ok)
next
  case (Band_Changed t b now)
  then show ?thesis using assms
    by (auto simp: settle_config_def row_layers_def split: sum.splits dest!: applyBandChange_Ok)
qed (use assms in \<open>simp_all add: row_layers_def\<close>)

lemma config_run_ok: "config_ok a st \<Longrightarrow> config_ok (applied_after es st a) (config_run es st)"
  by (induction es arbitrary: st a) (simp_all add: config_run_def config_step_ok del: config_step.simps used_layers.simps)

lemma fresh_run: "fresh_history es st \<Longrightarrow> applied_after es st (row_layers st) = row_layers (config_run es st)"
proof (induction es arbitrary: st)
  case (Cons e es)
  then show ?case using fresh_step [of e st "row_layers st", OF _ refl refl]
    by (simp add: config_run_def del: config_step.simps used_layers.simps)
qed (simp add: config_run_def)


section \<open>Properties\<close>

text \<open>A profile whose numbers the tier-1 row does not exceed.\<close>

definition profile_admits_tier1 :: "profile \<Rightarrow> bool" where
  "profile_admits_tier1 p \<longleftrightarrow> (let t = ladder_row 1 in
     wt_dailyCap t \<le> daily_cap_ceiling p \<and> wt_hourlyCap t \<le> hourly_cap_ceiling p \<and> gap_min_floor_ms p \<le> wt_gapMinMs t \<and>
     wt_coldRatioMax t \<le> cold_ratio_max p \<and> isInteger (cold_ratio_floor p))"

lemma ladder_row_1: "ladder_row 1 = WARMUP_LADDER ! 0"
  by (simp add: ladder_row_def tier_row_def WARMUP_LADDER_def)

lemma isInteger_ceiling: "isInteger v \<Longrightarrow> \<lceil>v\<rceil> = \<lfloor>v\<rfloor>"
  by (metis ceiling_of_int isInteger_def)

lemma provision_eff_eq:
  assumes "profile_admits_tier1 p"
  shows "provision_eff p (ladder_row 1) = toEffRow (row_limits p 1 Healthy [])"
  using assms
  by (simp add: profile_admits_tier1_def Let_def ladder_row_1 provision_eff_def toEffRow_def row_limits_def WARMUP_LADDER_def
      isInteger_ceiling min.absorb2 max.absorb2)

lemma provisioned:
  assumes "provisionInstancePacingState p (tier_row 1) = Some st"
  shows "cf_profile st = p" "cf_warmup_tier st = 1" "cf_health_band st = Healthy" "cf_overrides st = []"
    "cf_eff st = provision_eff p (ladder_row 1)" "eff_checks (cf_eff st)"
  using assms by (auto simp: provisionInstancePacingState_def ladder_row_def split: option.splits if_splits)

lemma provisioned_ok:
  assumes "provisionInstancePacingState p (tier_row 1) = Some st" "profile_admits_tier1 p"
  shows "config_ok (row_layers st) st"
  using provisioned [OF assms(1)] provision_eff_eq [OF assms(2)]
  by (simp add: config_ok_def from_layers_def row_layers_def live_patch_def)

text \<open>
  C20. After any history of relaxes, sweeps, warm-up ticks, band changes and recorded bands, successful or not, the limits
  in force satisfy the checks of the table (gaps ordered and at least 15 seconds, caps within the absolutes) and are the
  strictest fold of the profile with the tier and the band that the last write of the limits used, under no relax or
  under one whose expiry has not been swept. Those are the row's own tier and band as long as every warm-up tick wrote
  with the band the row still had, every band change with its tier, and no band was recorded without rewriting the limits.
\<close>

theorem limits_follow_stored_layers:
  assumes "provisionInstancePacingState p (tier_row 1) = Some st0" "profile_admits_tier1 p" "st = config_run es st0"
    and "applied_after es st0 (1, Healthy) = (tier, band)"
  shows "eff_checks (cf_eff st) \<and>
    (\<exists>o1 e. resolveEffective (loadInstanceLayers (st\<lparr>cf_warmup_tier := tier, cf_health_band := band\<rparr>) o1) = Ok e \<and>
      cf_eff st = toEffRow e \<and>
      (o1 = None \<or> (\<exists>r\<in>set (cf_overrides st). \<not> ov_expiry_applied r \<and> o1 = Some (adminOverrideFromRow r)))) \<and>
    (fresh_history es st0 \<longrightarrow> tier = cf_warmup_tier st \<and> band = cf_health_band st)"
proof -
  have st0: "row_layers st0 = (1, Healthy)" using provisioned [OF assms(1)] by (simp add: row_layers_def)
  have ok: "config_ok (tier, band) st"
    using config_run_ok [OF provisioned_ok [OF assms(1,2)], of es] assms(3,4) st0 by simp
  have res: "resolveEffective (loadInstanceLayers (st\<lparr>cf_warmup_tier := tier, cf_health_band := band\<rparr>) (map_option adminOverrideFromRow r)) =
      Ok (row_limits (cf_profile st) tier band (live_patch r))" for r
    by (simp add: loadInstanceLayers_base resolve_base_row)
  have fresh: "fresh_history es st0 \<longrightarrow> tier = cf_warmup_tier st \<and> band = cf_health_band st"
    using fresh_run [of es st0] assms(3,4) st0 by (simp add: row_layers_def)
  from ok consider "from_layers (tier, band) st None"
    | r where "r \<in> set (cf_overrides st)" "\<not> ov_expiry_applied r" "from_layers (tier, band) st (Some r)"
    unfolding config_ok_def by blast
  then show ?thesis
  proof cases
    case 1
    then show ?thesis using res [of None] ok fresh unfolding from_layers_def config_ok_def by auto
  next
    case (2 r)
    then show ?thesis using res [of "Some r"] ok fresh unfolding from_layers_def config_ok_def by auto
  qed
qed

definition demo_config :: config_row where
  "demo_config = \<lparr>cf_profile = safe_default, cf_warmup_tier = 1, cf_health_band = Healthy,
     cf_eff = provision_eff safe_default (ladder_row 1), cf_config_version = 1, cf_timezone = ''Asia/Kolkata'',
     cf_timezone_changed_at = None, cf_overrides = [], cf_provider_restricted = False\<rparr>"

lemma safe_default_admits: "profile_admits_tier1 safe_default"
  by (simp add: profile_admits_tier1_def ladder_row_1 WARMUP_LADDER_def safe_default_def isInteger_def)

lemma safe_default_ok: "profile_ok safe_default"
  by (simp add: profile_ok_def safe_default_def)

lemma demo_provisioned: "provisionInstancePacingState safe_default (tier_row 1) = Some demo_config"
proof -
  have t: "tier_row 1 = Some (ladder_row 1)" by (simp add: ladder_row_def tier_row_def WARMUP_LADDER_def)
  have "eff_checks (provision_eff safe_default (ladder_row 1))"
    using unrelaxed_checks [of safe_default 1 Healthy] provision_eff_eq [OF safe_default_admits]
    by (simp add: profile_ok_def safe_default_def)
  then show ?thesis unfolding provisionInstancePacingState_def t option.case demo_config_def by (simp only: if_True)
qed

definition demo_relaxes :: "config_event list" where
  "demo_relaxes = [Relax [(F_dailyCap, Some 500)] 1000 ''event'' ''staff'' 0, Band_Changed 1 Watch 10, Sweep 100 2000]"

lemma limits_follow_stored_layers_witness:
  "\<exists>tier band. applied_after demo_relaxes demo_config (1, Healthy) = (tier, band) \<and>
     eff_checks (cf_eff (config_run demo_relaxes demo_config)) \<and>
     (tier, band) = row_layers (config_run demo_relaxes demo_config)"
proof -
  obtain tier band where a: "applied_after demo_relaxes demo_config (1, Healthy) = (tier, band)"
    by (cases "applied_after demo_relaxes demo_config (1, Healthy)")
  have "cf_warmup_tier (config_step (Relax p x w s n) demo_config) = 1" for p x w s n
  proof -
    have "row_layers (config_step (Relax p x w s n) demo_config) = row_layers demo_config"
      using fresh_step [of "Relax p x w s n" demo_config, OF _ refl refl] by (simp split: if_splits)
    then show ?thesis by (simp add: row_layers_def demo_config_def)
  qed
  then have "fresh_history demo_relaxes demo_config" by (simp add: demo_relaxes_def del: config_step.simps)
  with limits_follow_stored_layers [OF demo_provisioned safe_default_admits refl a] show ?thesis
    using a by (auto simp: row_layers_def)
qed

text \<open>What a sweep leaves unstamped.\<close>

lemma sweep_row_unstamped:
  assumes "sweep_row now i st = (st', out)" "\<nexists>e. out = Failed e" "r \<in> set (cf_overrides st')" "\<not> ov_expiry_applied r"
  shows "r \<in> set (cf_overrides st) \<and> ov_id r \<noteq> i"
proof (cases rule: sweep_row_cases [of now i st])
  case not_won
  then show ?thesis using assms by auto
next
  case (failed e)
  then show ?thesis using assms by simp
next
  case (swept st2 r2)
  have "cf_overrides st' = cf_overrides (stamp i st)" using swept(1,3) assms(1) by simp
  then show ?thesis using assms(3,4) by (auto simp: stamp_def markAdminRelaxExpiryApplied_def split: if_splits)
qed

lemma sweep_rows_unstamped:
  assumes "sweep_rows now rs st = (st', outs)" "\<forall>e. Failed e \<notin> set outs" "r \<in> set (cf_overrides st')" "\<not> ov_expiry_applied r"
  shows "r \<in> set (cf_overrides st) \<and> ov_id r \<notin> ov_id ` set rs"
  using assms
proof (induction rs arbitrary: st outs)
  case (Cons q rs)
  obtain st1 out where 1: "sweep_row now (ov_id q) st = (st1, out)" by (cases "sweep_row now (ov_id q) st")
  obtain st2 outs2 where 2: "sweep_rows now rs st1 = (st2, outs2)" by (cases "sweep_rows now rs st1")
  have outs: "st' = st2" "outs = out # outs2" using Cons.prems(1) 1 2 by auto
  have "r \<in> set (cf_overrides st1) \<and> ov_id r \<notin> ov_id ` set rs"
    by (rule Cons.IH [of st1 outs2]) (use 2 outs Cons.prems in auto)
  moreover have "r \<in> set (cf_overrides st) \<and> ov_id r \<noteq> ov_id q"
    by (rule sweep_row_unstamped [OF 1]) (use calculation outs Cons.prems in auto)
  ultimately show ?case by auto
qed simp

definition none_live :: "int \<Rightarrow> config_row \<Rightarrow> bool" where
  "none_live now st \<longleftrightarrow> (\<forall>r\<in>set (cf_overrides st). ov_expiry_applied r \<or> ov_expires_at r \<le> now)"

lemma none_live_read: "none_live now st \<Longrightarrow> readNewestLiveAdminRelaxOverride st now = None"
  using config_ok_newest [of st now] unfolding none_live_def
  by (cases "readNewestLiveAdminRelaxOverride st now") force+

lemma none_live_stamp: "none_live now st \<Longrightarrow> none_live now (stamp i st)"
  by (auto simp: none_live_def stamp_def markAdminRelaxExpiryApplied_def)

lemma sweep_row_none_live:
  assumes "none_live now st" "profile_ok (cf_profile st)" "sweep_row now i st = (st', out)"
  shows "none_live now st' \<and> cf_profile st' = cf_profile st \<and> (\<nexists>e. out = Failed e)"
proof -
  have n: "readNewestLiveAdminRelaxOverride (stamp i st) now = None" by (rule none_live_read [OF none_live_stamp [OF assms(1)]])
  obtain st2 where u: "updatePacingConfig Admin_Relax (loadInstanceLayers (stamp i st) None) now (stamp i st) = Ok st2"
    using admin_update_none [of "stamp i st" now] assms(2) by auto
  then have "cf_overrides st2 = cf_overrides (stamp i st)" "cf_profile st2 = cf_profile st"
    using admin_update [of "stamp i st" None now st2] by simp_all
  then have "none_live now st2" using none_live_stamp [OF assms(1), of i] by (simp add: none_live_def)
  moreover have "sweep_row now i st = (st, Not_Won) \<or> sweep_row now i st = (st2, Expired)"
    using n u by (simp add: sweep_row_def stamp_def [symmetric] case_prod_unfold Let_def)
  ultimately show ?thesis using assms \<open>cf_profile st2 = cf_profile st\<close> by auto
qed

lemma sweep_rows_none_live:
  "none_live now st \<Longrightarrow> profile_ok (cf_profile st) \<Longrightarrow> sweep_rows now rs st = (st', outs) \<Longrightarrow> \<forall>e. Failed e \<notin> set outs"
proof (induction rs arbitrary: st st' outs)
  case (Cons q rs)
  obtain st1 out where 1: "sweep_row now (ov_id q) st = (st1, out)" by (cases "sweep_row now (ov_id q) st")
  obtain st2 outs2 where 2: "sweep_rows now rs st1 = (st2, outs2)" by (cases "sweep_rows now rs st1")
  have "outs = out # outs2" using Cons.prems(3) 1 2 by auto
  then show ?case using sweep_row_none_live [OF Cons.prems(1,2) 1] Cons.IH [OF _ _ 2] Cons.prems(2) by auto
qed simp

lemma sweep_rows_expired:
  "sweep_rows now rs st = (st', outs) \<Longrightarrow> Expired \<in> set outs \<Longrightarrow> cf_config_version st < cf_config_version st'"
proof (induction rs arbitrary: st outs)
  case (Cons q rs)
  obtain st1 out where 1: "sweep_row now (ov_id q) st = (st1, out)" by (cases "sweep_row now (ov_id q) st")
  obtain st2 outs2 where 2: "sweep_rows now rs st1 = (st2, outs2)" by (cases "sweep_rows now rs st1")
  have v: "cf_config_version (stamp (ov_id q) st) = cf_config_version st" by (simp add: stamp_def markAdminRelaxExpiryApplied_def)
  have "cf_config_version st \<le> cf_config_version st1 \<and> (out = Expired \<longrightarrow> cf_config_version st < cf_config_version st1)"
    by (cases rule: sweep_row_cases [of now "ov_id q" st]) (use 1 v in auto)
  moreover have e: "st' = st2" "outs = out # outs2" using Cons.prems(1) 1 2 by auto
  moreover have "cf_config_version st1 \<le> cf_config_version st2" using sweep_rows_version [of st1 now rs] 2 by simp
  moreover have "Expired \<in> set outs2 \<Longrightarrow> cf_config_version st1 < cf_config_version st'" using Cons.IH [of st1 outs2] 2 e(1) by simp
  ultimately show ?case using Cons.prems(2) by auto
qed simp

lemma applied_after_append:
  "applied_after (es @ [e]) st a = (let st1 = config_run es st; a1 = applied_after es st a in
     if cf_config_version (config_step e st1) = cf_config_version st1 then a1 else used_layers e st1)"
  by (induction es arbitrary: st a) (simp_all add: config_run_def Let_def del: config_step.simps used_layers.simps)

text \<open>
  C21. No relax outlives its sweep: after a sweep that reached every due override and in which no row failed, each
  override still unswept expires later, and the limits in force are those under no relax or under one that expires
  later, for the tier and band that the last write of the limits used: the row's own when the sweep removed a relax or
  the history before was fresh (\<open>fresh_history\<close>). Such a sweep of a profile with sensible numbers never fails when no
  override is still live, and then leaves the limits without a relax.
\<close>

theorem relax_never_outlives_sweep:
  assumes "provisionInstancePacingState p (tier_row 1) = Some st0" "profile_admits_tier1 p" "st = config_run es st0"
    and "length (filter (\<lambda>r. ov_expires_at r \<le> now \<and> \<not> ov_expiry_applied r) (cf_overrides st)) \<le> maxRows"
    and "runOneAdminRelaxExpirySweep maxRows now st = (st', outs)"
    and "a = applied_after (es @ [Sweep maxRows now]) st0 (1, Healthy)"
  shows "((\<forall>e. Failed e \<notin> set outs) \<longrightarrow>
      (\<forall>r\<in>set (cf_overrides st'). \<not> ov_expiry_applied r \<longrightarrow> now < ov_expires_at r) \<and>
      (from_layers a st' None \<or> (\<exists>r\<in>set (cf_overrides st'). now < ov_expires_at r \<and> from_layers a st' (Some r)))) \<and>
    (none_live now st \<and> profile_ok (cf_profile st) \<longrightarrow> (\<forall>e. Failed e \<notin> set outs) \<and> from_layers a st' None) \<and>
    (Expired \<in> set outs \<or> fresh_history es st0 \<longrightarrow> a = (cf_warmup_tier st', cf_health_band st'))"
proof -
  let ?due = "selectExpiredAdminRelaxOverrides st maxRows now"
  have sw: "sweep_rows now ?due st = (st', outs)" using assms(5) by (simp add: runOneAdminRelaxExpirySweep_def)
  have due: "set ?due = {r \<in> set (cf_overrides st). ov_expires_at r \<le> now \<and> \<not> ov_expiry_applied r}"
    using assms(4) by (auto simp: selectExpiredAdminRelaxOverrides_def)
  have st0: "row_layers st0 = (1, Healthy)" using provisioned [OF assms(1)] by (simp add: row_layers_def)
  let ?a1 = "applied_after es st0 (1, Healthy)"
  have ok1: "config_ok ?a1 st" using config_run_ok [OF provisioned_ok [OF assms(1,2)], of es] assms(3) st0 by simp
  have step: "config_step (Sweep maxRows now) st = st'" using assms(5) by simp
  have a: "a = (if cf_config_version st' = cf_config_version st then ?a1 else row_layers st)"
    using assms(6) step by (simp add: applied_after_append assms(3) [symmetric] Let_def)
  have rl: "row_layers st' = row_layers st" using sweep_rows_layers [of now ?due st] sw by simp
  have ok: "config_ok a st'" using sweep_rows_ok [OF ok1, of st' now ?due] sw a by simp
  have late: "\<forall>r\<in>set (cf_overrides st'). \<not> ov_expiry_applied r \<longrightarrow> now < ov_expires_at r \<and> r \<in> set (cf_overrides st)"
    if "\<forall>e. Failed e \<notin> set outs"
  proof (intro ballI impI)
    fix r assume r: "r \<in> set (cf_overrides st')" "\<not> ov_expiry_applied r"
    from sweep_rows_unstamped [OF sw that r] due r(2) show "now < ov_expires_at r \<and> r \<in> set (cf_overrides st)" by force
  qed
  have "(\<forall>r\<in>set (cf_overrides st'). \<not> ov_expiry_applied r \<longrightarrow> now < ov_expires_at r) \<and>
      (from_layers a st' None \<or> (\<exists>r\<in>set (cf_overrides st'). now < ov_expires_at r \<and> from_layers a st' (Some r)))"
    if "\<forall>e. Failed e \<notin> set outs"
    using late [OF that] ok unfolding config_ok_def by blast
  moreover have "(\<forall>e. Failed e \<notin> set outs) \<and> from_layers a st' None" if n: "none_live now st" "profile_ok (cf_profile st)"
  proof -
    have f: "\<forall>e. Failed e \<notin> set outs" using sweep_rows_none_live [OF n sw] .
    then have "\<not> (\<exists>r\<in>set (cf_overrides st'). \<not> ov_expiry_applied r)" using late n(1) unfolding none_live_def by force
    then show ?thesis using f ok unfolding config_ok_def by blast
  qed
  moreover have "a = (cf_warmup_tier st', cf_health_band st')" if "Expired \<in> set outs \<or> fresh_history es st0"
    using that sweep_rows_expired [OF sw] fresh_run [of es st0] assms(3) st0 a rl by (auto simp: row_layers_def)
  ultimately show ?thesis by blast
qed


text \<open>A relax that asks only for a smaller upper gap, or for a cap above the layers.\<close>

lemma single_field_clamp:
  assumes "isInteger v" "0 < v" "now < x" "x - now \<le> MAX_ADMIN_RELAX_MS"
  shows "v \<le> 2000 \<Longrightarrow> clampAdminRelax [(F_dailyCap, Some v)] x now = Ok ([(F_dailyCap, Some v)], [])"
    and "15000 \<le> v \<Longrightarrow> clampAdminRelax [(F_gapMaxMs, Some v)] x now = Ok ([(F_gapMaxMs, Some v)], [])"
  using assms
  by (simp_all add: clampAdminRelax_def CEILING_FIELDS_def FLOOR_FIELDS_def absolutes clamp_ceiling_def clamp_floor_def
        clamp_gap_order_def patch_get_def)

lemma pacingOverride_eq:
  assumes "clampAdminRelax patch x now = Ok (c, cf)" "\<not> cf_provider_restricted st" "staff \<noteq> []" "why \<noteq> []"
    and "x - now \<le> MAX_ADMIN_RELAX_MS"
  shows "pacingOverride patch x why staff now st =
    (let q = toNumericPatch c; e = toEffRow (row_limits (cf_profile st) (cf_warmup_tier st) (cf_health_band st) q) in
     if eff_checks e
     then Ok (st\<lparr>cf_overrides := cf_overrides st @ [new_override q why staff x st], cf_eff := e,
        cf_config_version := Suc (cf_config_version st)\<rparr>, q, cf)
     else Err (Server_Error_500 Check_Violation))"
proof -
  have x: "\<not> x > now + THIRTY_DAYS_MS" using assms(5) by (simp add: MAX_ADMIN_RELAX_MS_def THIRTY_DAYS_MS_def)
  then have v: "assertAdminRelaxValid (relax_override q staff why x) now = Ok ()" for q
    using assms(3,4) by (simp add: assertAdminRelaxValid_def relax_override_def)
  show ?thesis
    using assms(1,2)
    by (simp add: pacingOverride_def Let_def insertAdminRelaxOverride_def new_override_def [symmetric] updatePacingConfig_def
        check_patch_def change_timezone_def loadInstanceLayers_base resolve_base_override updateEffRow_def v)
qed


lemma daily_relax_limits:
  "row_limits p tier b [(F_dailyCap, Some v)] = (row_limits p tier b [])\<lparr>ef_dailyCap := min v 2000\<rparr>"
  by (simp add: row_limits_def Let_def pick_def patch_get_def)

lemma daily_relax_checks:
  assumes "profile_ok p" "0 \<le> v"
  shows "eff_checks (toEffRow (row_limits p tier b [(F_dailyCap, Some v)]))"
  using unrelaxed_checks [OF assms(1), of tier b] assms(2)
  by (simp add: daily_relax_limits eff_checks_def toEffRow_def)

definition relaxed_row :: config_row where
  "relaxed_row = demo_config\<lparr>cf_overrides := [new_override [(F_dailyCap, Some 500)] ''event'' ''staff'' 1000 demo_config],
     cf_eff := toEffRow (row_limits safe_default 1 Healthy [(F_dailyCap, Some 500)]), cf_config_version := Suc (Suc 0)\<rparr>"

lemma relaxed_run: "relaxed_row = config_run [Relax [(F_dailyCap, Some 500)] 1000 ''event'' ''staff'' 0] demo_config"
proof -
  have c: "clampAdminRelax [(F_dailyCap, Some 500)] 1000 0 = Ok ([(F_dailyCap, Some 500)], [])"
    by (rule single_field_clamp(1)) (simp_all add: isInteger_def MAX_ADMIN_RELAX_MS_def)
  have "pacingOverride [(F_dailyCap, Some 500)] 1000 ''event'' ''staff'' 0 demo_config = Ok (relaxed_row, [(F_dailyCap, Some 500)], [])"
    using daily_relax_checks [OF safe_default_ok, of 500 1 Healthy]
    by (subst pacingOverride_eq [OF c])
      (simp_all add: MAX_ADMIN_RELAX_MS_def demo_config_def relaxed_row_def toNumericPatch_def Let_def)
  then show ?thesis by (simp add: config_run_def)
qed

text \<open>A relax requested at 0 for 500 messages a day, expiring at 1000, and the sweep at 2000.\<close>

lemma relax_never_outlives_sweep_witness:
  "from_row (fst (runOneAdminRelaxExpirySweep 100 2000 relaxed_row)) None \<and> \<not> from_row relaxed_row None"
proof
  obtain st' outs where s: "runOneAdminRelaxExpirySweep 100 2000 relaxed_row = (st', outs)"
    by (cases "runOneAdminRelaxExpirySweep 100 2000 relaxed_row")
  have "none_live 2000 relaxed_row" "profile_ok (cf_profile relaxed_row)"
    by (simp_all add: none_live_def relaxed_row_def new_override_def demo_config_def profile_ok_def safe_default_def)
  then show "from_row (fst (runOneAdminRelaxExpirySweep 100 2000 relaxed_row)) None"
    using relax_never_outlives_sweep [OF demo_provisioned safe_default_admits relaxed_run _ s refl] s
    by (simp add: relaxed_row_def from_layers_def from_row_def del: config_step.simps)
  show "\<not> from_row relaxed_row None"
    by (simp add: from_row_def relaxed_row_def demo_config_def live_patch_def pick_def patch_get_def toEffRow_def row_limits_def Let_def
        ladder_row_1 WARMUP_LADDER_def safe_default_def)
qed

text \<open>
  A staff relax of the daily cap takes effect exactly as asked up to the absolute ceiling, whatever the profile, the
  tier and the band would allow: also in band critical, under which the cap without the relax is zero.
\<close>

theorem relax_replaces_every_layer:
  assumes "profile_ok (cf_profile st)" "isInteger v" "0 < v" "v \<le> 2000" "now < x" "x - now \<le> MAX_ADMIN_RELAX_MS"
    and "\<not> cf_provider_restricted st" "staff \<noteq> []" "why \<noteq> []"
  shows "\<exists>st'. pacingOverride [(F_dailyCap, Some v)] x why staff now st = Ok (st', [(F_dailyCap, Some v)], []) \<and>
    of_int (er_daily_cap (cf_eff st')) = v \<and> cf_health_band st' = cf_health_band st \<and>
    er_daily_cap (toEffRow (row_limits (cf_profile st) (cf_warmup_tier st) Critical [])) = 0"
proof -
  have c: "clampAdminRelax [(F_dailyCap, Some v)] x now = Ok ([(F_dailyCap, Some v)], [])"
    by (rule single_field_clamp(1)) (use assms in auto)
  have "of_int \<lfloor>v\<rfloor> = v" using assms(2) by (simp add: isInteger_def)
  then have v: "of_int \<lfloor>min v 2000\<rfloor> = v" using assms(4) by (simp add: min_def)
  have e: "of_int (er_daily_cap (toEffRow (row_limits p tier b [(F_dailyCap, Some v)]))) = v" for p tier b
    by (simp add: daily_relax_limits toEffRow_def v)
  have z: "er_daily_cap (toEffRow (row_limits p tier Critical [])) = 0" for p tier
    by (simp add: toEffRow_def row_limits_def Let_def)
  have "0 \<le> v" using assms(3) by simp
  then show ?thesis
    unfolding pacingOverride_eq [OF c assms(7,8,9,6)]
    using daily_relax_checks [OF assms(1), of v "cf_warmup_tier st" "cf_health_band st"]
    by (simp add: Let_def toNumericPatch_def e z)
qed

lemma relax_replaces_every_layer_witness:
  "\<exists>st'. pacingOverride [(F_dailyCap, Some 2000)] 1000 ''event'' ''staff'' 0 (demo_config\<lparr>cf_health_band := Critical\<rparr>) =
     Ok (st', [(F_dailyCap, Some 2000)], []) \<and> er_daily_cap (cf_eff st') = 2000"
  using relax_replaces_every_layer [of "demo_config\<lparr>cf_health_band := Critical\<rparr>" 2000 0 1000 "''staff''" "''event''"]
  by (auto simp: demo_config_def profile_ok_def safe_default_def isInteger_def MAX_ADMIN_RELAX_MS_def)

text \<open>
  A relax of the upper gap alone below the lower gap in force passes the clamp, resolves to crossed gaps and is stopped
  only by the check of the table: the request fails as an internal error and stores nothing.
\<close>

theorem crossed_gap_relax_is_an_internal_error:
  assumes "isInteger v" "15000 \<le> v" "v < ef_gapMinMs (row_limits (cf_profile st) (cf_warmup_tier st) (cf_health_band st) [])"
    and "now < x" "x - now \<le> MAX_ADMIN_RELAX_MS" "\<not> cf_provider_restricted st" "staff \<noteq> []" "why \<noteq> []"
  shows "clampAdminRelax [(F_gapMaxMs, Some v)] x now = Ok ([(F_gapMaxMs, Some v)], []) \<and>
    pacingOverride [(F_gapMaxMs, Some v)] x why staff now st = Err (Server_Error_500 Check_Violation) \<and>
    config_step (Relax [(F_gapMaxMs, Some v)] x why staff now) st = st"
proof -
  have c: "clampAdminRelax [(F_gapMaxMs, Some v)] x now = Ok ([(F_gapMaxMs, Some v)], [])"
    by (rule single_field_clamp(2)) (use assms in auto)
  let ?l = "row_limits (cf_profile st) (cf_warmup_tier st) (cf_health_band st)"
  have "?l [(F_gapMaxMs, Some v)] = (?l [])\<lparr>ef_gapMaxMs := v\<rparr>"
    using assms(2) by (simp add: row_limits_def Let_def pick_def patch_get_def)
  moreover have "of_int \<lceil>v\<rceil> = v" using assms(1) by (metis ceiling_of_int isInteger_def)
  then have "\<lceil>v\<rceil> < \<lceil>ef_gapMinMs (?l [])\<rceil>" using assms(3) by linarith
  ultimately have "\<not> eff_checks (toEffRow (?l [(F_gapMaxMs, Some v)]))" by (simp add: eff_checks_def toEffRow_def)
  then have "pacingOverride [(F_gapMaxMs, Some v)] x why staff now st = Err (Server_Error_500 Check_Violation)"
    by (subst pacingOverride_eq [OF c assms(6,7,8,5)]) (simp add: toNumericPatch_def Let_def)
  with c show ?thesis by simp
qed

lemma crossed_gap_relax_is_an_internal_error_witness:
  "pacingOverride [(F_gapMaxMs, Some 20000)] 1000 ''event'' ''staff'' 0 demo_config = Err (Server_Error_500 Check_Violation)"
  using crossed_gap_relax_is_an_internal_error [of 20000 demo_config 0 1000 "''staff''" "''event''"]
  by (simp add: demo_config_def isInteger_def row_limits_def Let_def ladder_row_1 WARMUP_LADDER_def safe_default_def MAX_ADMIN_RELAX_MS_def)

text \<open>
  The warm-up tick writes with the band of its scan, guarded by the tier alone: when the band changes between the scan
  and the write, the write succeeds and puts the limits of the old band in force, while the row keeps the new band.
\<close>

theorem stale_warmup_write_undoes_band:
  assumes "profile_ok (cf_profile st)" "cf_warmup_tier st = tier" "cf_health_band st = band"
  shows "\<exists>st1 st2. applyBandChange tier b now st = Ok st1 \<and> evaluateOneInstance tier band (Advance t codes) now st1 = Ok st2 \<and>
    cf_health_band st2 = b \<and> cf_warmup_tier st2 = t \<and>
    resolveEffective (loadInstanceLayers (st2\<lparr>cf_health_band := band\<rparr>) None) = Ok (row_limits (cf_profile st) t band []) \<and>
    cf_eff st2 = toEffRow (row_limits (cf_profile st) t band [])"
proof -
  define st1 where "st1 = st\<lparr>cf_eff := toEffRow (row_limits (cf_profile st) tier b []), cf_config_version := Suc (cf_config_version st),
      cf_health_band := b\<rparr>"
  have b: "resolveEffective (base_layers (cf_profile st) tier b None) = Ok (row_limits (cf_profile st) tier b [])" for tier b
    by (rule resolve_base)
  have h: "healthBand (base_layers p tier b None) = b" for p tier b by (simp add: base_layers_def)
  have "applyBandChange tier b now st = Ok st1"
    using unrelaxed_checks [OF assms(1), of tier b]
    by (simp add: applyBandChange_def base_layers_def [symmetric] updatePacingConfig_def check_patch_def change_timezone_def b h
        updateEffRow_def st1_def)
  moreover define st2 where "st2 = st1\<lparr>cf_eff := toEffRow (row_limits (cf_profile st) t band []),
      cf_config_version := Suc (cf_config_version st1), cf_warmup_tier := t\<rparr>"
  have "evaluateOneInstance tier band (Advance t codes) now st1 = Ok st2"
    using unrelaxed_checks [OF assms(1), of t band] assms(2)
    by (simp add: evaluateOneInstance_def base_layers_def [symmetric] updatePacingConfig_def check_patch_def change_timezone_def b
        applyWarmupTierChangeAtomic_def st1_def st2_def)
  ultimately show ?thesis by (intro exI [of _ st1] exI [of _ st2]) (simp add: st2_def st1_def loadInstanceLayers_base resolve_base)
qed

lemma stale_warmup_write_undoes_band_witness:
  "\<exists>st1 st2. applyBandChange 1 Degraded 5 demo_config = Ok st1 \<and> evaluateOneInstance 1 Healthy (Advance 2 []) 5 st1 = Ok st2 \<and>
     cf_health_band st2 = Degraded \<and> er_daily_cap (cf_eff st2) = 50 \<and>
     er_daily_cap (toEffRow (row_limits safe_default 2 Degraded [])) = 20"
proof -
  have "ladder_row 2 = WARMUP_LADDER ! 1" by (simp add: ladder_row_def tier_row_def WARMUP_LADDER_def)
  then have "er_daily_cap (toEffRow (row_limits safe_default 2 Healthy [])) = 50"
      "er_daily_cap (toEffRow (row_limits safe_default 2 Degraded [])) = 20"
    by (simp_all add: toEffRow_def row_limits_def Let_def WARMUP_LADDER_def safe_default_def)
  then show ?thesis
    using stale_warmup_write_undoes_band [of demo_config 1 Healthy Degraded 5 2 "[]"]
    by (auto simp: demo_config_def profile_ok_def safe_default_def)
qed

text \<open>A band change or a warm-up step drops a live relax: neither passes an override.\<close>

lemma band_change_drops_relax:
  assumes "applyBandChange (cf_warmup_tier st) b now st = Ok st'"
  shows "from_row st' None \<and> cf_overrides st' = cf_overrides st"
  using applyBandChange_Ok [OF assms] by (simp add: from_row_def live_patch_def)

end
