(* ===== verification/Pacing_Ledger.thy ===== *)
theory Pacing_Ledger
  imports Complex_Main Prelude
begin

text \<open>
  The pacing ledger: the statements \<open>pacing-ensure-ledger-row.sql\<close>, \<open>pacing-ensure-daily-usage-row.sql\<close>,
  \<open>reserve-pacing.sql\<close>, \<open>pacing-deny-reason.sql\<close> and \<open>release-pacing.sql\<close> over their tables, the deny table of
  \<open>packages/domain/src/pacing/deny-reasons.ts\<close>, and \<open>reserve\<close>, \<open>release\<close> and the retry times of
  \<open>engine/pacing\<close>. Times are milliseconds. The time zone database is the argument \<open>z\<close>: it gives the local day, the
  local hour and the milliseconds since local midnight of an instant.
\<close>

section \<open>Tables\<close>

record tz_rules =
  z_date :: "string \<Rightarrow> int \<Rightarrow> int"
  z_hour :: "string \<Rightarrow> int \<Rightarrow> int"
  z_time :: "string \<Rightarrow> int \<Rightarrow> int"

text \<open>\<open>instance_pacing_state\<close>\<close>

record pacing_state =
  ps_client :: string
  ps_timezone :: string
  ps_daily_cap :: int
  ps_hourly_cap :: int
  ps_new_conv_cap :: int
  ps_cold_ratio_max :: rat
  ps_cold_ratio_floor :: int
  ps_group_daily_cap :: int
  ps_window_start :: int
  ps_window_end :: int

text \<open>\<open>pacing_ledger\<close>, one row per instance and local day\<close>

record ledger_row =
  lr_client :: string
  consumed_count :: int
  sent_this_hour :: int
  hour_key :: int
  new_conv_count :: int
  group_sent_count :: int
  system_count :: int
  refund_count :: int
  next_eligible_at :: int

text \<open>
  The tables, with \<open>effective_client_limits.max_daily_sends\<close> as \<open>pd_cap\<close> and the jobs whose
  \<open>pacing_refunded_at\<close> is set as \<open>pd_refunded\<close>.
\<close>

record pacing_db =
  pd_state :: "string \<Rightarrow> pacing_state option"
  pd_ledger :: "string \<times> int \<Rightarrow> ledger_row option"
  pd_usage :: "string \<times> int \<Rightarrow> int option"
  pd_cap :: "string \<Rightarrow> int option"
  pd_refunded :: "string set"

record reserve_input =
  ri_client :: string
  ri_instance :: string
  ri_new_conversation :: bool
  ri_group :: bool
  ri_exempt :: bool
  ri_gap_ms :: int

section \<open>Send origins and deny reasons\<close>

datatype send_origin = Campaign | Api_Send | Inbox_Manual | System_Reply | Opt_Out_Confirmation

fun isExemptOrigin :: "send_origin \<Rightarrow> bool" where
  "isExemptOrigin System_Reply = True"
| "isExemptOrigin Opt_Out_Confirmation = True"
| "isExemptOrigin _ = False"

datatype deny_reason =
    MIN_GAP | DAILY_CAP | HOURLY_CAP | NEW_CONV_CAP | COLD_RATIO | GROUP_DAILY_CAP | PLAN_CAP | OUTSIDE_WINDOW
  | PER_RECIPIENT_FREQ | NEEDS_HUMAN_ACK | INSTANCE_PAUSED | NOT_CONNECTED | OPT_OUT | BLOCKED_WORD
  | LINK_IN_FIRST_MESSAGE | NO_LEDGER_ROW | UNKNOWN

datatype retry_rule = NextEligibleAt | NextLocalMidnight | NextWindowOpen | FixedHoldMs int | NoRule

datatype deny_outcome = Stay_Queued | Cancel_Job | Fail_Job

record deny_effect =
  de_jobOutcome :: deny_outcome
  de_touchesAttempts :: bool
  de_retryAtRule :: retry_rule
  de_alerting :: bool

fun DENY_REASON_EFFECTS :: "deny_reason \<Rightarrow> deny_effect" where
  "DENY_REASON_EFFECTS MIN_GAP = \<lparr>de_jobOutcome = Stay_Queued, de_touchesAttempts = False, de_retryAtRule = NextEligibleAt, de_alerting = False\<rparr>"
| "DENY_REASON_EFFECTS DAILY_CAP = \<lparr>de_jobOutcome = Stay_Queued, de_touchesAttempts = False, de_retryAtRule = NextLocalMidnight, de_alerting = False\<rparr>"
| "DENY_REASON_EFFECTS PLAN_CAP = \<lparr>de_jobOutcome = Stay_Queued, de_touchesAttempts = False, de_retryAtRule = NextLocalMidnight, de_alerting = False\<rparr>"
| "DENY_REASON_EFFECTS HOURLY_CAP = \<lparr>de_jobOutcome = Stay_Queued, de_touchesAttempts = False, de_retryAtRule = NextLocalMidnight, de_alerting = False\<rparr>"
| "DENY_REASON_EFFECTS NEW_CONV_CAP = \<lparr>de_jobOutcome = Stay_Queued, de_touchesAttempts = False, de_retryAtRule = NextLocalMidnight, de_alerting = False\<rparr>"
| "DENY_REASON_EFFECTS COLD_RATIO = \<lparr>de_jobOutcome = Stay_Queued, de_touchesAttempts = False, de_retryAtRule = NextLocalMidnight, de_alerting = False\<rparr>"
| "DENY_REASON_EFFECTS GROUP_DAILY_CAP = \<lparr>de_jobOutcome = Stay_Queued, de_touchesAttempts = False, de_retryAtRule = NextLocalMidnight, de_alerting = False\<rparr>"
| "DENY_REASON_EFFECTS OUTSIDE_WINDOW = \<lparr>de_jobOutcome = Stay_Queued, de_touchesAttempts = False, de_retryAtRule = NextWindowOpen, de_alerting = False\<rparr>"
| "DENY_REASON_EFFECTS PER_RECIPIENT_FREQ = \<lparr>de_jobOutcome = Stay_Queued, de_touchesAttempts = False, de_retryAtRule = NextWindowOpen, de_alerting = False\<rparr>"
| "DENY_REASON_EFFECTS NEEDS_HUMAN_ACK = \<lparr>de_jobOutcome = Stay_Queued, de_touchesAttempts = False, de_retryAtRule = NoRule, de_alerting = True\<rparr>"
| "DENY_REASON_EFFECTS INSTANCE_PAUSED = \<lparr>de_jobOutcome = Stay_Queued, de_touchesAttempts = False, de_retryAtRule = NoRule, de_alerting = False\<rparr>"
| "DENY_REASON_EFFECTS NOT_CONNECTED = \<lparr>de_jobOutcome = Stay_Queued, de_touchesAttempts = False, de_retryAtRule = NoRule, de_alerting = False\<rparr>"
| "DENY_REASON_EFFECTS OPT_OUT = \<lparr>de_jobOutcome = Cancel_Job, de_touchesAttempts = False, de_retryAtRule = NoRule, de_alerting = False\<rparr>"
| "DENY_REASON_EFFECTS BLOCKED_WORD = \<lparr>de_jobOutcome = Fail_Job, de_touchesAttempts = False, de_retryAtRule = NoRule, de_alerting = False\<rparr>"
| "DENY_REASON_EFFECTS LINK_IN_FIRST_MESSAGE = \<lparr>de_jobOutcome = Fail_Job, de_touchesAttempts = False, de_retryAtRule = NoRule, de_alerting = False\<rparr>"
| "DENY_REASON_EFFECTS NO_LEDGER_ROW = \<lparr>de_jobOutcome = Stay_Queued, de_touchesAttempts = False, de_retryAtRule = NextEligibleAt, de_alerting = False\<rparr>"
| "DENY_REASON_EFFECTS UNKNOWN = \<lparr>de_jobOutcome = Stay_Queued, de_touchesAttempts = False, de_retryAtRule = FixedHoldMs 60000, de_alerting = True\<rparr>"

section \<open>Statements\<close>

text \<open>The CTE \<open>s\<close>, and the three columns of \<open>d\<close>.\<close>

definition cte_s :: "pacing_db \<Rightarrow> reserve_input \<Rightarrow> pacing_state option" where
  "cte_s db i = (case pd_state db (ri_instance i) of
      Some s \<Rightarrow> if ps_client s = ri_client i then Some s else None
    | None \<Rightarrow> None)"

definition d_date :: "tz_rules \<Rightarrow> pacing_state \<Rightarrow> int \<Rightarrow> int" where
  "d_date z s now = z_date z (ps_timezone s) now"

definition d_hk :: "tz_rules \<Rightarrow> pacing_state \<Rightarrow> int \<Rightarrow> int" where
  "d_hk z s now = z_hour z (ps_timezone s) now"

definition in_window :: "tz_rules \<Rightarrow> pacing_state \<Rightarrow> int \<Rightarrow> bool" where
  "in_window z s now \<longleftrightarrow> ps_window_start s \<le> z_time z (ps_timezone s) now \<and> z_time z (ps_timezone s) now \<le> ps_window_end s"

text \<open>The row of the day, if it belongs to the client.\<close>

definition cte_l :: "tz_rules \<Rightarrow> pacing_db \<Rightarrow> reserve_input \<Rightarrow> pacing_state \<Rightarrow> int \<Rightarrow> ledger_row option" where
  "cte_l z db i s now = (case pd_ledger db (ri_instance i, d_date z s now) of
      Some l \<Rightarrow> if lr_client l = ri_client i then Some l else None
    | None \<Rightarrow> None)"

text \<open>\<open>u\<close>: the plan cap is reached; no usage row or no cap means it is not.\<close>

definition plan_cap_reached :: "tz_rules \<Rightarrow> pacing_db \<Rightarrow> reserve_input \<Rightarrow> pacing_state \<Rightarrow> int \<Rightarrow> bool" where
  "plan_cap_reached z db i s now \<longleftrightarrow>
    (case pd_usage db (ri_client i, d_date z s now) of
       None \<Rightarrow> False
     | Some sent \<Rightarrow> (case pd_cap db (ri_client i) of None \<Rightarrow> False | Some cap \<Rightarrow> cap \<le> sent))"

definition ensurePacingLedgerRow :: "tz_rules \<Rightarrow> reserve_input \<Rightarrow> int \<Rightarrow> pacing_db \<Rightarrow> pacing_db" where
  "ensurePacingLedgerRow z i now db = (case cte_s db i of
      None \<Rightarrow> db
    | Some s \<Rightarrow> (case pd_ledger db (ri_instance i, d_date z s now) of
        Some l \<Rightarrow> db
      | None \<Rightarrow> db\<lparr>pd_ledger := (pd_ledger db)((ri_instance i, d_date z s now) \<mapsto>
          \<lparr>lr_client = ri_client i, consumed_count = 0, sent_this_hour = 0, hour_key = d_hk z s now, new_conv_count = 0,
           group_sent_count = 0, system_count = 0, refund_count = 0, next_eligible_at = now\<rparr>)\<rparr>))"

definition ensureDailyUsageRow :: "tz_rules \<Rightarrow> reserve_input \<Rightarrow> int \<Rightarrow> pacing_db \<Rightarrow> pacing_db" where
  "ensureDailyUsageRow z i now db = (case cte_s db i of
      None \<Rightarrow> db
    | Some s \<Rightarrow> (case pd_usage db (ri_client i, d_date z s now) of
        Some n \<Rightarrow> db
      | None \<Rightarrow> db\<lparr>pd_usage := (pd_usage db)((ri_client i, d_date z s now) \<mapsto> 0)\<rparr>))"

text \<open>The sends counted against the current hour.\<close>

definition hour_count :: "ledger_row \<Rightarrow> int \<Rightarrow> int" where
  "hour_count l hk = (if hour_key l = hk then sent_this_hour l else 0)"

text \<open>The \<open>WHERE\<close> clause of the grant.\<close>

definition reserve_where :: "tz_rules \<Rightarrow> pacing_db \<Rightarrow> reserve_input \<Rightarrow> pacing_state \<Rightarrow> ledger_row \<Rightarrow> int \<Rightarrow> bool" where
  "reserve_where z db i s l now \<longleftrightarrow>
     in_window z s now \<and>
     (ri_exempt i \<or> next_eligible_at l \<le> now) \<and>
     (ri_exempt i \<or> consumed_count l < ps_daily_cap s) \<and>
     (ri_exempt i \<or> hour_count l (d_hk z s now) < ps_hourly_cap s) \<and>
     (ri_exempt i \<or> \<not> ri_new_conversation i \<or> new_conv_count l < ps_new_conv_cap s) \<and>
     (ri_exempt i \<or> \<not> ri_new_conversation i \<or> consumed_count l < ps_cold_ratio_floor s \<or>
        of_int (new_conv_count l + 1) \<le> ps_cold_ratio_max s * of_int (consumed_count l + 1)) \<and>
     (ri_exempt i \<or> \<not> ri_group i \<or> group_sent_count l < ps_group_daily_cap s) \<and>
     \<not> plan_cap_reached z db i s now"

definition reserve_set :: "tz_rules \<Rightarrow> reserve_input \<Rightarrow> pacing_state \<Rightarrow> int \<Rightarrow> ledger_row \<Rightarrow> ledger_row" where
  "reserve_set z i s now l =
    l\<lparr>consumed_count := consumed_count l + of_bool (\<not> ri_exempt i),
      sent_this_hour := (if ri_exempt i then sent_this_hour l
                         else if hour_key l = d_hk z s now then sent_this_hour l + 1 else 1),
      hour_key := (if ri_exempt i then hour_key l else d_hk z s now),
      new_conv_count := new_conv_count l + (if ri_exempt i then 0 else of_bool (ri_new_conversation i)),
      group_sent_count := group_sent_count l + (if ri_exempt i then 0 else of_bool (ri_group i)),
      system_count := system_count l + of_bool (ri_exempt i),
      next_eligible_at := (if ri_exempt i then next_eligible_at l else now + ri_gap_ms i)\<rparr>"

text \<open>The statement: the tables after it, and the returned row with its day when it granted.\<close>

definition reservePacing :: "tz_rules \<Rightarrow> reserve_input \<Rightarrow> int \<Rightarrow> pacing_db \<Rightarrow> pacing_db \<times> (ledger_row \<times> int) option" where
  "reservePacing z i now db = (case cte_s db i of
      None \<Rightarrow> (db, None)
    | Some s \<Rightarrow> (case cte_l z db i s now of
        None \<Rightarrow> (db, None)
      | Some l \<Rightarrow>
          if reserve_where z db i s l now
          then (let day = d_date z s now; l' = reserve_set z i s now l
                in (db\<lparr>pd_ledger := (pd_ledger db)((ri_instance i, day) \<mapsto> l'),
                       pd_usage := (case pd_usage db (ri_client i, day) of
                           None \<Rightarrow> pd_usage db | Some n \<Rightarrow> (pd_usage db)((ri_client i, day) \<mapsto> n + 1))\<rparr>,
                    Some (l', day)))
          else (db, None)))"

definition pacingDenyReason :: "tz_rules \<Rightarrow> reserve_input \<Rightarrow> int \<Rightarrow> pacing_db \<Rightarrow> deny_reason \<times> int" where
  "pacingDenyReason z i now db = (case cte_s db i of
      None \<Rightarrow> (NO_LEDGER_ROW, now)
    | Some s \<Rightarrow> (case cte_l z db i s now of
        None \<Rightarrow> (NO_LEDGER_ROW, now)
      | Some l \<Rightarrow>
          (if \<not> in_window z s now then OUTSIDE_WINDOW
           else if ri_exempt i \<and> plan_cap_reached z db i s now then PLAN_CAP
           else if ri_exempt i then UNKNOWN
           else if next_eligible_at l > now then MIN_GAP
           else if consumed_count l \<ge> ps_daily_cap s then DAILY_CAP
           else if hour_count l (d_hk z s now) \<ge> ps_hourly_cap s then HOURLY_CAP
           else if ri_new_conversation i \<and> new_conv_count l \<ge> ps_new_conv_cap s then NEW_CONV_CAP
           else if ri_new_conversation i \<and> consumed_count l \<ge> ps_cold_ratio_floor s \<and>
                   of_int (new_conv_count l) + 1 > ps_cold_ratio_max s * (of_int (consumed_count l) + 1) then COLD_RATIO
           else if ri_group i \<and> group_sent_count l \<ge> ps_group_daily_cap s then GROUP_DAILY_CAP
           else if plan_cap_reached z db i s now then PLAN_CAP
           else UNKNOWN,
           next_eligible_at l)))"

text \<open>\<open>release-pacing.sql\<close>: the job's stamp is the guard; the ledger row is the one of the original day.\<close>

definition release_set :: "reserve_input \<Rightarrow> int \<Rightarrow> ledger_row \<Rightarrow> ledger_row" where
  "release_set i now l =
    l\<lparr>consumed_count := max (consumed_count l - of_bool (\<not> ri_exempt i)) 0,
      new_conv_count := max (new_conv_count l - (if ri_exempt i then 0 else of_bool (ri_new_conversation i))) 0,
      group_sent_count := max (group_sent_count l - (if ri_exempt i then 0 else of_bool (ri_group i))) 0,
      system_count := max (system_count l - of_bool (ri_exempt i)) 0,
      refund_count := refund_count l + 1,
      next_eligible_at := (if ri_exempt i then next_eligible_at l else max (next_eligible_at l - ri_gap_ms i) now)\<rparr>"

definition releasePacing :: "reserve_input \<Rightarrow> int \<Rightarrow> string \<Rightarrow> int \<Rightarrow> pacing_db \<Rightarrow> pacing_db \<times> ledger_row option" where
  "releasePacing i day job now db =
    (if job \<in> pd_refunded db then (db, None)
     else (let db' = db\<lparr>pd_refunded := insert job (pd_refunded db)\<rparr> in
       (case pd_ledger db (ri_instance i, day) of
          Some l \<Rightarrow> if lr_client l = ri_client i
                    then (db'\<lparr>pd_ledger := (pd_ledger db)((ri_instance i, day) \<mapsto> release_set i now l)\<rparr>, Some (release_set i now l))
                    else (db', None)
        | None \<Rightarrow> (db', None))))"

section \<open>Retry times (engine/pacing/retry-at.ts)\<close>

text \<open>The search of \<open>nextLocalMidnightMs\<close>; \<open>same t\<close> says that \<open>t\<close> falls on the local day of the start.\<close>

function midnight_search :: "(int \<Rightarrow> bool) \<Rightarrow> int \<Rightarrow> int \<Rightarrow> int" where
  "midnight_search same lo hi =
    (if hi - lo > 1000
     then (let mid = lo + (hi - lo) div 2
           in if same mid then midnight_search same mid hi else midnight_search same lo mid)
     else hi)"
  by pat_completeness auto
termination
  by (relation "measure (\<lambda>(same, lo, hi). nat (hi - lo))") auto

declare midnight_search.simps [simp del]

definition nextLocalMidnightMs :: "tz_rules \<Rightarrow> string \<Rightarrow> int \<Rightarrow> int" where
  "nextLocalMidnightMs z tz epochMs =
    (let same = (\<lambda>t. z_date z tz t = z_date z tz epochMs);
         hi0 = epochMs + 26 * 60 * 60 * 1000;
         hi = (if same hi0 then hi0 + 24 * 60 * 60 * 1000 else hi0);
         h = midnight_search same epochMs hi
     in - ((- h) div 1000) * 1000)"

definition nextWindowOpenMs :: "tz_rules \<Rightarrow> string \<Rightarrow> int \<Rightarrow> int \<Rightarrow> int \<Rightarrow> int" where
  "nextWindowOpenMs z tz epochMs startOfDayMs endOfDayMs =
    (let midnight = nextLocalMidnightMs z tz (epochMs - 1);
         todayWindowStart = midnight - 24 * 60 * 60 * 1000 + startOfDayMs;
         todayWindowEnd = midnight - 24 * 60 * 60 * 1000 + endOfDayMs
     in if todayWindowStart \<le> epochMs \<and> epochMs < todayWindowEnd then epochMs
        else if todayWindowStart > epochMs then todayWindowStart
        else midnight + startOfDayMs)"

definition resolveRetryAt :: "tz_rules \<Rightarrow> retry_rule \<Rightarrow> pacing_state \<Rightarrow> int \<Rightarrow> int \<Rightarrow> int" where
  "resolveRetryAt z rule s nextEligible now =
    (case rule of
       NextEligibleAt \<Rightarrow> nextEligible
     | NextLocalMidnight \<Rightarrow> nextLocalMidnightMs z (ps_timezone s) now
     | NextWindowOpen \<Rightarrow> nextWindowOpenMs z (ps_timezone s) now (ps_window_start s) (ps_window_end s)
     | FixedHoldMs ms \<Rightarrow> now + ms
     | NoRule \<Rightarrow> now)"

section \<open>reserve (engine/pacing/index.ts)\<close>

datatype reserve_outcome = Granted int int | Denied deny_reason int bool

text \<open>The caller has read the state row \<open>s\<close> in the same transaction.\<close>

definition reserve :: "tz_rules \<Rightarrow> reserve_input \<Rightarrow> pacing_state \<Rightarrow> int \<Rightarrow> pacing_db \<Rightarrow> pacing_db \<times> reserve_outcome" where
  "reserve z i s now db =
    (let db1 = ensureDailyUsageRow z i now (ensurePacingLedgerRow z i now db) in
     (case reservePacing z i now db1 of
        (db2, Some (l, day)) \<Rightarrow> (db2, Granted day (next_eligible_at l))
      | (db2, None) \<Rightarrow>
          (let (reason, elig) = pacingDenyReason z i now db2; effect = DENY_REASON_EFFECTS reason
           in (db2, Denied reason (resolveRetryAt z (de_retryAtRule effect) s elig now) (de_alerting effect)))))"

section \<open>Deny reasons\<close>

text \<open>The row of the day exists after the two ensure statements, unless another client's row holds its key.\<close>

lemma ensure_state [simp]:
  "pd_state (ensurePacingLedgerRow z i now db) = pd_state db" "pd_state (ensureDailyUsageRow z i now db) = pd_state db"
  "pd_ledger (ensureDailyUsageRow z i now db) = pd_ledger db" "pd_usage (ensurePacingLedgerRow z i now db) = pd_usage db"
  "pd_cap (ensurePacingLedgerRow z i now db) = pd_cap db" "pd_cap (ensureDailyUsageRow z i now db) = pd_cap db"
  "pd_refunded (ensurePacingLedgerRow z i now db) = pd_refunded db" "pd_refunded (ensureDailyUsageRow z i now db) = pd_refunded db"
  by (simp_all add: ensurePacingLedgerRow_def ensureDailyUsageRow_def split: option.splits)

lemma cte_s_ensure [simp]:
  "cte_s (ensurePacingLedgerRow z i now db) j = cte_s db j" "cte_s (ensureDailyUsageRow z i now db) j = cte_s db j"
  by (simp_all add: cte_s_def)

lemma cte_l_ensured:
  assumes "cte_s db i = Some s" "\<And>l. pd_ledger db (ri_instance i, d_date z s now) = Some l \<Longrightarrow> lr_client l = ri_client i"
  shows "\<exists>l. cte_l z (ensureDailyUsageRow z i now (ensurePacingLedgerRow z i now db)) i s now = Some l"
  using assms by (auto simp: cte_l_def ensurePacingLedgerRow_def split: option.splits)

text \<open>The deny query names a reason exactly when the grant statement, run on the same tables, returns no row.\<close>

lemma grant_iff_unknown: "snd (reservePacing z i now db) \<noteq> None \<longleftrightarrow> fst (pacingDenyReason z i now db) = UNKNOWN"
  by (auto simp: reservePacing_def pacingDenyReason_def reserve_where_def Let_def of_int_add split: option.splits)

lemma no_grant_unchanged: "reservePacing z i now db = (db', None) \<Longrightarrow> db' = db"
  by (auto simp: reservePacing_def Let_def split: option.splits if_splits)

text \<open>The conjuncts of the grant, each with the reason that explains its failure, in the order they are reported.\<close>

definition grant_checks :: "tz_rules \<Rightarrow> pacing_db \<Rightarrow> reserve_input \<Rightarrow> pacing_state \<Rightarrow> ledger_row \<Rightarrow> int \<Rightarrow> (bool \<times> deny_reason) list" where
  "grant_checks z db i s l now =
    [(in_window z s now, OUTSIDE_WINDOW),
     (ri_exempt i \<or> next_eligible_at l \<le> now, MIN_GAP),
     (ri_exempt i \<or> consumed_count l < ps_daily_cap s, DAILY_CAP),
     (ri_exempt i \<or> hour_count l (d_hk z s now) < ps_hourly_cap s, HOURLY_CAP),
     (ri_exempt i \<or> \<not> ri_new_conversation i \<or> new_conv_count l < ps_new_conv_cap s, NEW_CONV_CAP),
     (ri_exempt i \<or> \<not> ri_new_conversation i \<or> consumed_count l < ps_cold_ratio_floor s \<or>
        of_int (new_conv_count l + 1) \<le> ps_cold_ratio_max s * of_int (consumed_count l + 1), COLD_RATIO),
     (ri_exempt i \<or> \<not> ri_group i \<or> group_sent_count l < ps_group_daily_cap s, GROUP_DAILY_CAP),
     (\<not> plan_cap_reached z db i s now, PLAN_CAP)]"

definition first_failing :: "(bool \<times> deny_reason) list \<Rightarrow> deny_reason" where
  "first_failing cs = (case find (\<lambda>c. \<not> fst c) cs of Some c \<Rightarrow> snd c | None \<Rightarrow> UNKNOWN)"

lemma where_is_all_checks: "reserve_where z db i s l now \<longleftrightarrow> list_all fst (grant_checks z db i s l now)"
  by (simp add: reserve_where_def grant_checks_def)

lemma reason_is_first_failing:
  "cte_s db i = Some s \<Longrightarrow> cte_l z db i s now = Some l \<Longrightarrow>
    fst (pacingDenyReason z i now db) = first_failing (grant_checks z db i s l now)"
  by (auto simp: pacingDenyReason_def grant_checks_def first_failing_def not_less not_le)

text \<open>
  C27. The deny query explains the grant statement. On the same tables the statement grants exactly when the query says
  UNKNOWN; it is the conjunction of eight checks, and the reason is that of the first check that fails, in the order
  window, gap, daily, hourly, new contacts, cold ratio, groups, plan. So \<open>reserve\<close> never ends in UNKNOWN; it ends in
  NO_LEDGER_ROW only without a state row, otherwise in the first failing check of the tables it leaves, and a denial
  leaves every counter alone, does not touch the attempts, and keeps the job queued.
\<close>

theorem denial_names_the_reason:
  assumes "\<And>d l. pd_ledger db (ri_instance i, d) = Some l \<Longrightarrow> lr_client l = ri_client i"
    and "reserve z i s now db = (db', outcome)"
  shows "(snd (reservePacing z i now db) \<noteq> None \<longleftrightarrow> fst (pacingDenyReason z i now db) = UNKNOWN) \<and>
    (\<forall>t l. cte_s db i = Some t \<longrightarrow> cte_l z db i t now = Some l \<longrightarrow>
      reserve_where z db i t l now = list_all fst (grant_checks z db i t l now) \<and>
      fst (pacingDenyReason z i now db) = first_failing (grant_checks z db i t l now)) \<and>
    (\<forall>reason retryAt alerting. outcome = Denied reason retryAt alerting \<longrightarrow>
      reason \<noteq> UNKNOWN \<and> (reason = NO_LEDGER_ROW \<longleftrightarrow> cte_s db i = None) \<and>
      (\<forall>t. cte_s db i = Some t \<longrightarrow>
        (\<exists>l. cte_l z db' i t now = Some l \<and> reason = first_failing (grant_checks z db' i t l now))) \<and>
      de_jobOutcome (DENY_REASON_EFFECTS reason) = Stay_Queued \<and> \<not> de_touchesAttempts (DENY_REASON_EFFECTS reason) \<and> \<not> alerting \<and>
      db' = ensureDailyUsageRow z i now (ensurePacingLedgerRow z i now db))"
proof (intro conjI allI impI)
  show "snd (reservePacing z i now db) \<noteq> None \<longleftrightarrow> fst (pacingDenyReason z i now db) = UNKNOWN"
    by (rule grant_iff_unknown)
  show "reserve_where z db i t l now = list_all fst (grant_checks z db i t l now)" for t l
    by (rule where_is_all_checks)
  show "fst (pacingDenyReason z i now db) = first_failing (grant_checks z db i t l now)"
    if "cte_s db i = Some t" "cte_l z db i t now = Some l" for t l
    using that by (rule reason_is_first_failing)
next
  fix reason retryAt alerting
  assume o1: "outcome = Denied reason retryAt alerting"
  define db1 where "db1 = ensureDailyUsageRow z i now (ensurePacingLedgerRow z i now db)"
  obtain db2 r where res: "reservePacing z i now db1 = (db2, r)" by fastforce
  then have r: "r = None" and out: "db' = db2" "reason = fst (pacingDenyReason z i now db2)" "alerting = de_alerting (DENY_REASON_EFFECTS reason)"
    using assms(2) o1 by (auto simp: reserve_def db1_def [symmetric] Let_def split: option.splits prod.splits)
  have db2: "db2 = db1" using no_grant_unchanged res r by blast
  then show "db' = ensureDailyUsageRow z i now (ensurePacingLedgerRow z i now db)" using out by (simp add: db1_def)
  show unk: "reason \<noteq> UNKNOWN" using grant_iff_unknown [of z i now db1] res r out db2 by simp
  have s1: "cte_s db1 i = cte_s db i" by (simp add: db1_def)
  have row: "\<exists>l. cte_l z db' i t now = Some l \<and> reason = first_failing (grant_checks z db' i t l now)" if t: "cte_s db i = Some t" for t
  proof -
    obtain l where l: "cte_l z db1 i t now = Some l" using cte_l_ensured [OF t] assms(1) by (fastforce simp: db1_def)
    have "cte_s db1 i = Some t" using t s1 by simp
    from reason_is_first_failing [OF this l] show ?thesis using l out db2 by auto
  qed
  then show "\<exists>l. cte_l z db' i t now = Some l \<and> reason = first_failing (grant_checks z db' i t l now)" if "cte_s db i = Some t" for t
    using that .
  show "reason = NO_LEDGER_ROW \<longleftrightarrow> cte_s db i = None"
  proof (cases "cte_s db i")
    case None
    then show ?thesis using out db2 s1 by (simp add: pacingDenyReason_def)
  next
    case (Some t)
    then obtain l where "cte_l z db1 i t now = Some l" using row out db2 by auto
    then show ?thesis using Some out db2 s1 by (auto simp: pacingDenyReason_def split: if_splits)
  qed
  have "reason \<in> {OUTSIDE_WINDOW, PLAN_CAP, MIN_GAP, DAILY_CAP, HOURLY_CAP, NEW_CONV_CAP, COLD_RATIO, GROUP_DAILY_CAP, NO_LEDGER_ROW}"
    using unk out by (auto simp: pacingDenyReason_def split: option.splits if_splits)
  then show "de_jobOutcome (DENY_REASON_EFFECTS reason) = Stay_Queued" "\<not> de_touchesAttempts (DENY_REASON_EFFECTS reason)" "\<not> alerting"
    using out by auto
qed

section \<open>The next local midnight\<close>

text \<open>The local day of the start ends at \<open>b\<close>.\<close>

definition day_ends_at :: "(int \<Rightarrow> bool) \<Rightarrow> int \<Rightarrow> int \<Rightarrow> bool" where
  "day_ends_at same start b \<longleftrightarrow> (\<forall>t. start \<le> t \<longrightarrow> (same t \<longleftrightarrow> t < b))"

lemma midnight_search_brackets:
  assumes "day_ends_at same start b" "start \<le> lo" "lo < b" "b \<le> hi"
  shows "b \<le> midnight_search same lo hi \<and> midnight_search same lo hi < b + 1000"
  using assms
proof (induction same lo hi rule: midnight_search.induct)
  case (1 same lo hi)
  show ?case
  proof (cases "hi - lo > 1000")
    case False
    then show ?thesis using 1 by (subst (1 2) midnight_search.simps) auto
  next
    case True
    define mid where "mid = lo + (hi - lo) div 2"
    have m: "lo < mid" "mid < hi" using True by (auto simp: mid_def)
    have same: "same mid \<longleftrightarrow> mid < b" using 1 m by (simp add: day_ends_at_def)
    have step: "midnight_search same lo hi = (if same mid then midnight_search same mid hi else midnight_search same lo mid)"
      using True by (subst midnight_search.simps) (simp add: mid_def Let_def)
    show ?thesis
    proof (cases "same mid")
      case sm: True
      have "b \<le> midnight_search same mid hi \<and> midnight_search same mid hi < b + 1000"
        by (rule 1(1)) (use True sm 1(3-6) m same in \<open>auto simp: mid_def\<close>)
      then show ?thesis using step sm by simp
    next
      case sm: False
      have "b \<le> midnight_search same lo mid \<and> midnight_search same lo mid < b + 1000"
        by (rule 1(2)) (use True sm 1(3-6) m same in \<open>auto simp: mid_def\<close>)
      then show ?thesis using step sm by simp
    qed
  qed
qed

text \<open>
  \<open>nextLocalMidnightMs\<close> ends for every zone; when the local day of the start is an interval of instants ending at
  most 50 hours later, it returns a whole second at or after the first instant of the next day and less than two
  seconds late, so a job deferred to it finds the new day's ledger row.
\<close>

theorem next_midnight_is_next_day:
  assumes "day_ends_at (\<lambda>t. z_date z tz t = z_date z tz now) now b" "now < b" "b \<le> now + 50 * 60 * 60 * 1000"
  shows "b \<le> nextLocalMidnightMs z tz now \<and> nextLocalMidnightMs z tz now < b + 2000 \<and>
    1000 dvd nextLocalMidnightMs z tz now \<and> z_date z tz (nextLocalMidnightMs z tz now) \<noteq> z_date z tz now"
proof -
  let ?same = "\<lambda>t. z_date z tz t = z_date z tz now"
  define hi where "hi = (if ?same (now + 26 * 60 * 60 * 1000) then now + 50 * 60 * 60 * 1000 else now + 26 * 60 * 60 * 1000)"
  define h where "h = midnight_search ?same now hi"
  have "b \<le> hi" using assms by (auto simp: hi_def day_ends_at_def)
  then have h: "b \<le> h" "h < b + 1000" using midnight_search_brackets [OF assms(1) order_refl assms(2)] by (auto simp: h_def)
  have r: "nextLocalMidnightMs z tz now = - ((- h) div 1000) * 1000"
    by (simp add: nextLocalMidnightMs_def Let_def h_def hi_def add.assoc)
  have "h \<le> - ((- h) div 1000) * 1000 \<and> - ((- h) div 1000) * 1000 < h + 1000"
    using div_mult_mod_eq [of "- h" 1000] pos_mod_bound [of 1000 "- h"] pos_mod_sign [of 1000 "- h"] by linarith
  then have b: "b \<le> nextLocalMidnightMs z tz now \<and> nextLocalMidnightMs z tz now < b + 2000" using h r by linarith
  moreover have "1000 dvd nextLocalMidnightMs z tz now" by (simp add: r)
  moreover have "z_date z tz (nextLocalMidnightMs z tz now) \<noteq> z_date z tz now"
    using assms(1,2) b by (auto simp: day_ends_at_def)
  ultimately show ?thesis by blast
qed

text \<open>A zone at a fixed distance from UTC, and what the search returns in it.\<close>

definition fixed_zone :: "int \<Rightarrow> tz_rules" where
  "fixed_zone off = \<lparr>z_date = (\<lambda>_ t. (t + off) div 86400000), z_hour = (\<lambda>_ t. (t + off) mod 86400000 div 3600000),
     z_time = (\<lambda>_ t. (t + off) mod 86400000)\<rparr>"

lemma next_midnight_is_next_day_witness: "86400000 \<le> nextLocalMidnightMs (fixed_zone 0) [] 36000000"
proof -
  have "day_ends_at (\<lambda>t. z_date (fixed_zone 0) [] t = z_date (fixed_zone 0) [] 36000000) 36000000 86400000"
    by (auto simp: day_ends_at_def fixed_zone_def)
  from next_midnight_is_next_day [OF this] show ?thesis by simp
qed

section \<open>Histories\<close>

text \<open>A grant as the claim remembers it: the bound values, the job, the day and hour it was counted in, and when.\<close>

record grant =
  g_in :: reserve_input
  g_job :: string
  g_day :: int
  g_hour :: int
  g_at :: int

record pacing_sys =
  sy_db :: pacing_db
  sy_grants :: "grant list"
  sy_refunds :: "grant list"

text \<open>
  What happens to the tables: a claim reserves, a dispatch stopped before sending releases what its claim was granted,
  the limits or the zone of an instance are written, the plan of a client changes.
\<close>

datatype pacing_event =
    Ev_Reserve reserve_input string int
  | Ev_Release grant int
  | Ev_State string pacing_state
  | Ev_Plan string "int option"

fun pacing_step :: "tz_rules \<Rightarrow> pacing_event \<Rightarrow> pacing_sys \<Rightarrow> pacing_sys" where
  "pacing_step z (Ev_Reserve i job now) y = (case cte_s (sy_db y) i of
      None \<Rightarrow> y
    | Some s \<Rightarrow> (case reserve z i s now (sy_db y) of
        (db, Granted day _) \<Rightarrow>
          y\<lparr>sy_db := db, sy_grants := \<lparr>g_in = i, g_job = job, g_day = day, g_hour = d_hk z s now, g_at = now\<rparr> # sy_grants y\<rparr>
      | (db, Denied _ _ _) \<Rightarrow> y\<lparr>sy_db := db\<rparr>))"
| "pacing_step z (Ev_Release g now) y =
    (if g \<in> set (sy_grants y)
     then (case releasePacing (g_in g) (g_day g) (g_job g) now (sy_db y) of
             (db, None) \<Rightarrow> y\<lparr>sy_db := db\<rparr>
           | (db, Some l) \<Rightarrow> y\<lparr>sy_db := db, sy_refunds := g # sy_refunds y\<rparr>)
     else y)"
| "pacing_step z (Ev_State inst s) y = y\<lparr>sy_db := (sy_db y)\<lparr>pd_state := (pd_state (sy_db y))(inst \<mapsto> s)\<rparr>\<rparr>"
| "pacing_step z (Ev_Plan client cap) y = y\<lparr>sy_db := (sy_db y)\<lparr>pd_cap := (pd_cap (sy_db y))(client := cap)\<rparr>\<rparr>"

definition pacing_run :: "tz_rules \<Rightarrow> (string \<Rightarrow> int option) \<Rightarrow> pacing_event list \<Rightarrow> pacing_sys" where
  "pacing_run z plans es = fold (pacing_step z) es
     \<lparr>sy_db = \<lparr>pd_state = Map.empty, pd_ledger = Map.empty, pd_usage = Map.empty, pd_cap = plans, pd_refunded = {}\<rparr>,
      sy_grants = [], sy_refunds = []\<rparr>"

text \<open>Counting.\<close>

definition cnt :: "('a \<Rightarrow> bool) \<Rightarrow> 'a list \<Rightarrow> int" where
  "cnt P xs = int (length (filter P xs))"

lemma cnt_simps [simp]: "cnt P [] = 0" "cnt P (x # xs) = of_bool (P x) + cnt P xs"
  by (simp_all add: cnt_def)

lemma cnt_nonneg [simp]: "0 \<le> cnt P xs"
  by (simp add: cnt_def)

lemma cnt_mono:
  assumes "distinct rs" "set rs \<subseteq> set gs"
  shows "cnt P rs \<le> cnt P gs"
proof -
  have "length (filter P rs) = card (set (filter P rs))" using assms(1) by (metis distinct_card distinct_filter)
  also have "\<dots> \<le> card (set (filter P gs))" using assms(2) by (intro card_mono) auto
  also have "\<dots> \<le> length (filter P gs)" by (rule card_length)
  finally show ?thesis by (simp add: cnt_def)
qed

lemma cnt_zero: "(\<And>x. x \<in> set xs \<Longrightarrow> \<not> P x) \<Longrightarrow> cnt P xs = 0"
  by (auto simp: cnt_def filter_empty_conv)

text \<open>The grants of an instance on a day, by what they count against.\<close>

definition on :: "string \<Rightarrow> int \<Rightarrow> grant \<Rightarrow> bool" where
  "on x d g \<longleftrightarrow> ri_instance (g_in g) = x \<and> g_day g = d"

definition regular :: "string \<Rightarrow> int \<Rightarrow> grant \<Rightarrow> bool" where
  "regular x d g \<longleftrightarrow> on x d g \<and> \<not> ri_exempt (g_in g)"

definition cold :: "string \<Rightarrow> int \<Rightarrow> grant \<Rightarrow> bool" where
  "cold x d g \<longleftrightarrow> regular x d g \<and> ri_new_conversation (g_in g)"

definition grouped :: "string \<Rightarrow> int \<Rightarrow> grant \<Rightarrow> bool" where
  "grouped x d g \<longleftrightarrow> regular x d g \<and> ri_group (g_in g)"

definition of_client :: "string \<Rightarrow> int \<Rightarrow> grant \<Rightarrow> bool" where
  "of_client c d g \<longleftrightarrow> ri_client (g_in g) = c \<and> g_day g = d"

definition net :: "(grant \<Rightarrow> bool) \<Rightarrow> pacing_sys \<Rightarrow> int" where
  "net P y = cnt P (sy_grants y) - cnt P (sy_refunds y)"

text \<open>The highest limits an instance is ever given, and the highest plan cap of a client (if it always has one).\<close>

record limits_of =
  l_daily :: int
  l_new_conv :: int
  l_group :: int
  l_hourly :: int

definition limits_within :: "limits_of \<Rightarrow> pacing_state \<Rightarrow> bool" where
  "limits_within m s \<longleftrightarrow> ps_daily_cap s \<le> l_daily m \<and> ps_new_conv_cap s \<le> l_new_conv m \<and> ps_group_daily_cap s \<le> l_group m \<and>
     ps_hourly_cap s \<le> l_hourly m"

definition nonneg_limits :: "limits_of \<Rightarrow> bool" where
  "nonneg_limits m \<longleftrightarrow> 0 \<le> l_daily m \<and> 0 \<le> l_new_conv m \<and> 0 \<le> l_group m \<and> 0 \<le> l_hourly m"

definition plan_within :: "int option \<Rightarrow> int option \<Rightarrow> bool" where
  "plan_within bound cap = (case bound of None \<Rightarrow> True | Some p \<Rightarrow> (case cap of None \<Rightarrow> False | Some n \<Rightarrow> n \<le> p) \<and> 0 \<le> p)"

fun fair_event :: "(string \<Rightarrow> string) \<Rightarrow> (string \<Rightarrow> limits_of) \<Rightarrow> (string \<Rightarrow> int option) \<Rightarrow> pacing_event \<Rightarrow> bool" where
  "fair_event owner m plan (Ev_Reserve i job now) \<longleftrightarrow> ri_client i = owner (ri_instance i)"
| "fair_event owner m plan (Ev_Release g now) \<longleftrightarrow> True"
| "fair_event owner m plan (Ev_State x s) \<longleftrightarrow> ps_client s = owner x \<and> limits_within (m x) s"
| "fair_event owner m plan (Ev_Plan c cap) \<longleftrightarrow> plan_within (plan c) cap"

definition row_counts :: "pacing_sys \<Rightarrow> string \<Rightarrow> int \<Rightarrow> ledger_row \<Rightarrow> bool" where
  "row_counts y x d l \<longleftrightarrow> consumed_count l = net (regular x d) y \<and> new_conv_count l = net (cold x d) y \<and>
     group_sent_count l = net (grouped x d) y"

definition row_within :: "limits_of \<Rightarrow> ledger_row \<Rightarrow> bool" where
  "row_within m l \<longleftrightarrow> consumed_count l \<le> l_daily m \<and> new_conv_count l \<le> l_new_conv m \<and> group_sent_count l \<le> l_group m"

definition states_ok :: "(string \<Rightarrow> string) \<Rightarrow> (string \<Rightarrow> limits_of) \<Rightarrow> pacing_db \<Rightarrow> bool" where
  "states_ok owner m db \<longleftrightarrow> (\<forall>x s. pd_state db x = Some s \<longrightarrow> ps_client s = owner x \<and> limits_within (m x) s)"

definition rows_ok :: "(string \<Rightarrow> string) \<Rightarrow> (string \<Rightarrow> limits_of) \<Rightarrow> pacing_sys \<Rightarrow> bool" where
  "rows_ok owner m y \<longleftrightarrow> (\<forall>x d l. pd_ledger (sy_db y) (x, d) = Some l \<longrightarrow>
     lr_client l = owner x \<and> row_counts y x d l \<and> row_within (m x) l)"

definition grants_ok :: "(string \<Rightarrow> string) \<Rightarrow> pacing_sys \<Rightarrow> bool" where
  "grants_ok owner y \<longleftrightarrow> (\<forall>g\<in>set (sy_grants y). owner (ri_instance (g_in g)) = ri_client (g_in g) \<and>
     pd_ledger (sy_db y) (ri_instance (g_in g), g_day g) \<noteq> None \<and> pd_usage (sy_db y) (ri_client (g_in g), g_day g) \<noteq> None)"

definition usage_ok :: "(string \<Rightarrow> int option) \<Rightarrow> pacing_sys \<Rightarrow> bool" where
  "usage_ok plan y \<longleftrightarrow> (\<forall>c d n. pd_usage (sy_db y) (c, d) = Some n \<longrightarrow>
     n = cnt (of_client c d) (sy_grants y) \<and> (\<forall>p. plan c = Some p \<longrightarrow> n \<le> p))"

definition refunds_ok :: "pacing_sys \<Rightarrow> bool" where
  "refunds_ok y \<longleftrightarrow> set (sy_refunds y) \<subseteq> set (sy_grants y) \<and> distinct (map g_job (sy_refunds y)) \<and>
     g_job ` set (sy_refunds y) \<subseteq> pd_refunded (sy_db y)"

definition ledger_ok :: "(string \<Rightarrow> string) \<Rightarrow> (string \<Rightarrow> limits_of) \<Rightarrow> (string \<Rightarrow> int option) \<Rightarrow> pacing_sys \<Rightarrow> bool" where
  "ledger_ok owner m plan y \<longleftrightarrow> states_ok owner m (sy_db y) \<and> (\<forall>c. plan_within (plan c) (pd_cap (sy_db y) c)) \<and>
     rows_ok owner m y \<and> grants_ok owner y \<and> usage_ok plan y \<and> refunds_ok y"

lemma states_okD: "states_ok owner m db \<Longrightarrow> pd_state db x = Some s \<Longrightarrow> ps_client s = owner x \<and> limits_within (m x) s"
  by (simp add: states_ok_def)

lemma rows_okD: "rows_ok owner m y \<Longrightarrow> pd_ledger (sy_db y) (x, d) = Some l \<Longrightarrow>
    lr_client l = owner x \<and> row_counts y x d l \<and> row_within (m x) l"
  by (simp add: rows_ok_def)

lemma grants_okD: "grants_ok owner y \<Longrightarrow> g \<in> set (sy_grants y) \<Longrightarrow> owner (ri_instance (g_in g)) = ri_client (g_in g) \<and>
    pd_ledger (sy_db y) (ri_instance (g_in g), g_day g) \<noteq> None \<and> pd_usage (sy_db y) (ri_client (g_in g), g_day g) \<noteq> None"
  unfolding grants_ok_def by blast

lemma usage_okD: "usage_ok plan y \<Longrightarrow> pd_usage (sy_db y) (c, d) = Some n \<Longrightarrow>
    n = cnt (of_client c d) (sy_grants y) \<and> (\<forall>p. plan c = Some p \<longrightarrow> n \<le> p)"
  by (simp add: usage_ok_def)

lemma ledger_okD:
  assumes "ledger_ok owner m plan y"
  shows "states_ok owner m (sy_db y)" "plan_within (plan c) (pd_cap (sy_db y) c)" "rows_ok owner m y" "grants_ok owner y"
    "usage_ok plan y" "refunds_ok y"
  using assms unfolding ledger_ok_def by simp_all

lemma ledger_okI:
  assumes "states_ok owner m (sy_db y)" "\<And>c. plan_within (plan c) (pd_cap (sy_db y) c)" "rows_ok owner m y" "grants_ok owner y"
    "usage_ok plan y" "refunds_ok y"
  shows "ledger_ok owner m plan y"
  using assms unfolding ledger_ok_def by simp

lemma on_grants:
  assumes "ledger_ok owner m plan y" "g \<in> set (sy_grants y) \<or> g \<in> set (sy_refunds y)" "on x d g"
  shows "pd_ledger (sy_db y) (x, d) \<noteq> None"
  using grants_okD [OF ledger_okD(4) [OF assms(1)], of g] ledger_okD(6) [OF assms(1)] assms(2,3)
  by (auto simp: on_def refunds_ok_def)

lemma no_row_no_grants:
  assumes "ledger_ok owner m plan y" "pd_ledger (sy_db y) (x, d) = None"
  shows "net (regular x d) y = 0 \<and> net (cold x d) y = 0 \<and> net (grouped x d) y = 0"
proof -
  have z: "net P y = 0" if "\<And>g. P g \<Longrightarrow> on x d g" for P
  proof -
    have "cnt P (sy_grants y) = 0" "cnt P (sy_refunds y) = 0"
      by (rule cnt_zero; use on_grants [OF assms(1), of _ x d] assms(2) that in blast)+
    then show ?thesis by (simp add: net_def)
  qed
  show ?thesis by (intro conjI z) (simp_all add: regular_def cold_def grouped_def)
qed

lemma no_usage_no_grants:
  assumes "ledger_ok owner m plan y" "pd_usage (sy_db y) (c, d) = None"
  shows "cnt (of_client c d) (sy_grants y) = 0"
  using grants_okD [OF ledger_okD(4) [OF assms(1)]] assms(2) by (intro cnt_zero) (force simp: of_client_def)

lemma cte_s_state: "cte_s db i = Some s \<Longrightarrow> pd_state db (ri_instance i) = Some s \<and> ps_client s = ri_client i"
  by (auto simp: cte_s_def split: option.splits if_splits)

lemma net_db [simp]: "net P (y\<lparr>sy_db := db\<rparr>) = net P y"
  by (simp add: net_def)

lemma row_counts_db [simp]: "row_counts (y\<lparr>sy_db := db\<rparr>) x d l = row_counts y x d l"
  by (simp add: row_counts_def)

lemma ledger_ok_ensure_row:
  assumes ok: "ledger_ok owner m plan y" and m: "\<And>x. nonneg_limits (m x)"
  shows "ledger_ok owner m plan (y\<lparr>sy_db := ensurePacingLedgerRow z i now (sy_db y)\<rparr>)"
proof (cases "cte_s (sy_db y) i")
  case None
  then show ?thesis using ok by (simp add: ensurePacingLedgerRow_def)
next
  case (Some s)
  define d where "d = d_date z s now"
  have own: "owner (ri_instance i) = ri_client i" using cte_s_state [OF Some] states_okD [OF ledger_okD(1) [OF ok]] by metis
  show ?thesis
  proof (cases "pd_ledger (sy_db y) (ri_instance i, d)")
    case (Some l)
    then show ?thesis using ok \<open>cte_s (sy_db y) i = Some s\<close> by (simp add: ensurePacingLedgerRow_def d_def)
  next
    case None
    define l0 where "l0 = \<lparr>lr_client = ri_client i, consumed_count = 0, sent_this_hour = 0, hour_key = d_hk z s now, new_conv_count = 0,
       group_sent_count = 0, system_count = 0, refund_count = 0, next_eligible_at = now\<rparr>"
    have e: "ensurePacingLedgerRow z i now (sy_db y) = (sy_db y)\<lparr>pd_ledger := (pd_ledger (sy_db y))((ri_instance i, d) \<mapsto> l0)\<rparr>"
      using None \<open>cte_s (sy_db y) i = Some s\<close> by (simp add: ensurePacingLedgerRow_def d_def [symmetric] l0_def)
    have new: "lr_client l0 = owner (ri_instance i) \<and> row_counts y (ri_instance i) d l0 \<and> row_within (m (ri_instance i)) l0"
      using no_row_no_grants [OF ok None] own m [of "ri_instance i"] by (simp add: l0_def row_counts_def row_within_def nonneg_limits_def)
    show ?thesis unfolding e
    proof (rule ledger_okI)
      show "rows_ok owner m (y\<lparr>sy_db := (sy_db y)\<lparr>pd_ledger := (pd_ledger (sy_db y))((ri_instance i, d) \<mapsto> l0)\<rparr>\<rparr>)"
        using rows_okD [OF ledger_okD(3) [OF ok]] new by (auto simp: rows_ok_def)
      show "grants_ok owner (y\<lparr>sy_db := (sy_db y)\<lparr>pd_ledger := (pd_ledger (sy_db y))((ri_instance i, d) \<mapsto> l0)\<rparr>\<rparr>)"
        using grants_okD [OF ledger_okD(4) [OF ok]] by (auto simp: grants_ok_def)
    qed (use ledger_okD(1,2,5,6) [OF ok] in \<open>simp_all add: usage_ok_def refunds_ok_def states_ok_def\<close>)
  qed
qed

lemma ledger_ok_ensure_usage:
  assumes ok: "ledger_ok owner m plan y"
  shows "ledger_ok owner m plan (y\<lparr>sy_db := ensureDailyUsageRow z i now (sy_db y)\<rparr>)"
proof (cases "cte_s (sy_db y) i")
  case None
  then show ?thesis using ok by (simp add: ensureDailyUsageRow_def)
next
  case (Some s)
  have p: "0 \<le> p" if "plan (ri_client i) = Some p" for p
    using ledger_okD(2) [OF ok, of "ri_client i"] that by (simp add: plan_within_def)
  show ?thesis
  proof (cases "pd_usage (sy_db y) (ri_client i, d_date z s now)")
    case (Some n)
    then show ?thesis using ok \<open>cte_s (sy_db y) i = Some s\<close> by (simp add: ensureDailyUsageRow_def)
  next
    case None
    then have e: "ensureDailyUsageRow z i now (sy_db y) = (sy_db y)\<lparr>pd_usage := (pd_usage (sy_db y))((ri_client i, d_date z s now) \<mapsto> 0)\<rparr>"
      using \<open>cte_s (sy_db y) i = Some s\<close> by (simp add: ensureDailyUsageRow_def)
    show ?thesis unfolding e
    proof (rule ledger_okI)
      show "usage_ok plan (y\<lparr>sy_db := (sy_db y)\<lparr>pd_usage := (pd_usage (sy_db y))((ri_client i, d_date z s now) \<mapsto> 0)\<rparr>\<rparr>)"
        using usage_okD [OF ledger_okD(5) [OF ok]] no_usage_no_grants [OF ok None] p by (auto simp: usage_ok_def)
      show "grants_ok owner (y\<lparr>sy_db := (sy_db y)\<lparr>pd_usage := (pd_usage (sy_db y))((ri_client i, d_date z s now) \<mapsto> 0)\<rparr>\<rparr>)"
        using grants_okD [OF ledger_okD(4) [OF ok]] by (auto simp: grants_ok_def)
    qed (use ledger_okD(1,2,3,6) [OF ok] in \<open>simp_all add: rows_ok_def refunds_ok_def states_ok_def\<close>)
  qed
qed

text \<open>What a grant does.\<close>

lemma reservePacing_grant:
  assumes "reservePacing z i now db = (db', Some (l', day))"
  obtains s l where "cte_s db i = Some s" "pd_ledger db (ri_instance i, day) = Some l" "lr_client l = ri_client i"
    "day = d_date z s now" "reserve_where z db i s l now" "l' = reserve_set z i s now l"
    "pd_ledger db' = (pd_ledger db)((ri_instance i, day) \<mapsto> l')" "pd_state db' = pd_state db" "pd_cap db' = pd_cap db"
    "pd_refunded db' = pd_refunded db"
    "pd_usage db' = (case pd_usage db (ri_client i, day) of None \<Rightarrow> pd_usage db | Some n \<Rightarrow> (pd_usage db)((ri_client i, day) \<mapsto> n + 1))"
  using assms by (auto simp: reservePacing_def cte_l_def Let_def split: option.splits if_splits)

lemma reserve_where_below:
  assumes "reserve_where z db i s l now" "limits_within m s" "row_within m l"
  shows "row_within m (reserve_set z i s now l)"
  using assms by (auto simp: reserve_where_def limits_within_def row_within_def reserve_set_def)

lemma ledger_ok_grant:
  assumes ok: "ledger_ok owner m plan y" and res: "reservePacing z i now (sy_db y) = (db', Some (l', day))"
    and use: "\<And>s. cte_s (sy_db y) i = Some s \<Longrightarrow> pd_usage (sy_db y) (ri_client i, d_date z s now) \<noteq> None"
  shows "ledger_ok owner m plan (y\<lparr>sy_db := db', sy_grants := \<lparr>g_in = i, g_job = job, g_day = day, g_hour = h, g_at = now\<rparr> # sy_grants y\<rparr>)"
proof -
  obtain s l where s: "cte_s (sy_db y) i = Some s" and l: "pd_ledger (sy_db y) (ri_instance i, day) = Some l" "lr_client l = ri_client i"
    and day: "day = d_date z s now" and wh: "reserve_where z (sy_db y) i s l now" and l': "l' = reserve_set z i s now l"
    and db': "pd_ledger db' = (pd_ledger (sy_db y))((ri_instance i, day) \<mapsto> l')" "pd_state db' = pd_state (sy_db y)"
      "pd_cap db' = pd_cap (sy_db y)" "pd_refunded db' = pd_refunded (sy_db y)"
      "pd_usage db' = (case pd_usage (sy_db y) (ri_client i, day) of None \<Rightarrow> pd_usage (sy_db y)
         | Some n \<Rightarrow> (pd_usage (sy_db y))((ri_client i, day) \<mapsto> n + 1))"
    using res by (rule reservePacing_grant)
  obtain n where n: "pd_usage (sy_db y) (ri_client i, day) = Some n" using use [OF s] day by auto
  define g where "g = \<lparr>g_in = i, g_job = job, g_day = day, g_hour = h, g_at = now\<rparr>"
  define y' where "y' = y\<lparr>sy_db := db', sy_grants := g # sy_grants y\<rparr>"
  have own: "owner (ri_instance i) = ri_client i" and win: "limits_within (m (ri_instance i)) s"
    using cte_s_state [OF s] states_okD [OF ledger_okD(1) [OF ok]] by metis+
  have net': "net P y' = net P y + of_bool (P g)" for P by (simp add: net_def y'_def)
  have old: "lr_client l = owner (ri_instance i)" "row_counts y (ri_instance i) day l" "row_within (m (ri_instance i)) l"
    using rows_okD [OF ledger_okD(3) [OF ok] l(1)] by auto
  have new: "row_counts y' (ri_instance i) day l'"
    using old(2) by (auto simp: row_counts_def net' l' reserve_set_def regular_def cold_def grouped_def on_def g_def)
  have other: "row_counts y' x d k" if "row_counts y x d k" "(x, d) \<noteq> (ri_instance i, day)" for x d k
    using that by (auto simp: row_counts_def net' regular_def cold_def grouped_def on_def g_def)
  have lr: "lr_client l' = owner (ri_instance i)" using old(1) by (simp add: l' reserve_set_def)
  have below: "row_within (m (ri_instance i)) l'" using reserve_where_below [OF wh win old(3)] by (simp add: l')
  have cap: "n + 1 \<le> p" if "plan (ri_client i) = Some p" for p
    using ledger_okD(2) [OF ok, of "ri_client i"] that wh n day
    by (auto simp: plan_within_def reserve_where_def plan_cap_reached_def split: option.splits)
  have "ledger_ok owner m plan y'"
  proof (rule ledger_okI)
    show "rows_ok owner m y'"
      using rows_okD [OF ledger_okD(3) [OF ok]] new other below lr
      by (auto simp: rows_ok_def y'_def db' split: if_splits)
    show "grants_ok owner y'"
      using grants_okD [OF ledger_okD(4) [OF ok]] own n by (auto simp: grants_ok_def y'_def db' g_def)
    show "usage_ok plan y'"
      using usage_okD [OF ledger_okD(5) [OF ok]] n cap by (auto simp: usage_ok_def y'_def db' g_def of_client_def split: if_splits)
  qed (use ledger_okD(1,2,6) [OF ok] in \<open>auto simp: y'_def db' refunds_ok_def states_ok_def\<close>)
  then show ?thesis by (simp add: y'_def g_def)
qed

lemma ledger_ok_reserve:
  assumes ok: "ledger_ok owner m plan y" and m: "\<And>x. nonneg_limits (m x)"
  shows "ledger_ok owner m plan (pacing_step z (Ev_Reserve i job now) y)"
proof (cases "cte_s (sy_db y) i")
  case None
  then show ?thesis using ok by simp
next
  case (Some s)
  define db1 where "db1 = ensureDailyUsageRow z i now (ensurePacingLedgerRow z i now (sy_db y))"
  have ok1: "ledger_ok owner m plan (y\<lparr>sy_db := db1\<rparr>)"
    using ledger_ok_ensure_usage [OF ledger_ok_ensure_row [OF ok m], of z i now z i now] by (simp add: db1_def)
  have s1: "cte_s db1 i = Some s" using Some by (simp add: db1_def)
  have use: "pd_usage db1 (ri_client i, d_date z s now) \<noteq> None"
    using Some by (simp add: db1_def ensureDailyUsageRow_def split: option.splits)
  obtain db2 r where res: "reservePacing z i now db1 = (db2, r)" by fastforce
  show ?thesis
  proof (cases r)
    case None
    then have "db2 = db1" using no_grant_unchanged res by blast
    then show ?thesis using ok1 Some res None by (simp add: reserve_def db1_def [symmetric] Let_def split: prod.splits)
  next
    case (Some q)
    then obtain l' day where q: "r = Some (l', day)" by (cases q) auto
    have "ledger_ok owner m plan ((y\<lparr>sy_db := db1\<rparr>)\<lparr>sy_db := db2, sy_grants :=
        \<lparr>g_in = i, g_job = job, g_day = day, g_hour = d_hk z s now, g_at = now\<rparr> # sy_grants (y\<lparr>sy_db := db1\<rparr>)\<rparr>)"
      by (rule ledger_ok_grant [OF ok1]) (use res q s1 use in auto)
    then show ?thesis using \<open>cte_s (sy_db y) i = Some s\<close> res q by (simp add: reserve_def db1_def [symmetric])
  qed
qed

lemma refund_le_grants:
  assumes "refunds_ok y" "g \<in> set (sy_grants y)" "g_job g \<notin> pd_refunded (sy_db y)"
  shows "of_bool (P g) \<le> net P y"
proof -
  have g: "g \<notin> set (sy_refunds y)" using assms(1,3) by (auto simp: refunds_ok_def)
  have "cnt P (g # sy_refunds y) \<le> cnt P (sy_grants y)"
    using assms g by (intro cnt_mono) (auto simp: refunds_ok_def distinct_map)
  then show ?thesis by (simp add: net_def)
qed

lemma ledger_ok_release:
  assumes ok: "ledger_ok owner m plan y" and m: "\<And>x. nonneg_limits (m x)"
  shows "ledger_ok owner m plan (pacing_step z (Ev_Release g now) y)"
proof (cases "g \<in> set (sy_grants y) \<and> g_job g \<notin> pd_refunded (sy_db y)")
  case False
  then show ?thesis using ok by (auto simp: releasePacing_def)
next
  case True
  define x where "x = ri_instance (g_in g)"
  define d where "d = g_day g"
  obtain l where l: "pd_ledger (sy_db y) (x, d) = Some l"
    using grants_okD [OF ledger_okD(4) [OF ok], of g] True by (auto simp: x_def d_def)
  have own: "owner x = ri_client (g_in g)" using grants_okD [OF ledger_okD(4) [OF ok], of g] True by (auto simp: x_def)
  have old: "lr_client l = owner x" "row_counts y x d l" "row_within (m x) l"
    using rows_okD [OF ledger_okD(3) [OF ok] l] by auto
  define l' where "l' = release_set (g_in g) now l"
  define y' where "y' = y\<lparr>sy_db := (sy_db y)\<lparr>pd_refunded := insert (g_job g) (pd_refunded (sy_db y)),
    pd_ledger := (pd_ledger (sy_db y))((x, d) \<mapsto> l')\<rparr>, sy_refunds := g # sy_refunds y\<rparr>"
  have step: "pacing_step z (Ev_Release g now) y = y'"
    using True l old(1) own by (simp add: releasePacing_def Let_def x_def d_def y'_def l'_def)
  have net': "net P y' = net P y - of_bool (P g)" for P by (simp add: net_def y'_def)
  have le: "of_bool (P g) \<le> net P y" for P using refund_le_grants [OF ledger_okD(6) [OF ok]] True by blast
  have new: "row_counts y' x d l'"
    using old(2) le [of "regular x d"] le [of "cold x d"] le [of "grouped x d"]
    by (auto simp: row_counts_def net' l'_def release_set_def regular_def cold_def grouped_def on_def x_def d_def)
  have other: "row_counts y' a b k" if "row_counts y a b k" "(a, b) \<noteq> (x, d)" for a b k
    using that by (auto simp: row_counts_def net' regular_def cold_def grouped_def on_def x_def d_def)
  have lr: "lr_client l' = owner x" and below: "row_within (m x) l'"
    using old m [of x] by (auto simp: l'_def release_set_def row_within_def nonneg_limits_def)
  show ?thesis unfolding step
  proof (rule ledger_okI)
    show "rows_ok owner m y'"
      using rows_okD [OF ledger_okD(3) [OF ok]] new other lr below by (auto simp: rows_ok_def y'_def split: if_splits)
    show "grants_ok owner y'"
      using grants_okD [OF ledger_okD(4) [OF ok]] by (auto simp: grants_ok_def y'_def)
    show "refunds_ok y'"
      using ledger_okD(6) [OF ok] True by (auto simp: refunds_ok_def y'_def)
  qed (use ledger_okD(1,2,5) [OF ok] in \<open>auto simp: y'_def usage_ok_def states_ok_def\<close>)
qed

lemma ledger_ok_step:
  assumes ok: "ledger_ok owner m plan y" and m: "\<And>x. nonneg_limits (m x)" and e: "fair_event owner m plan e"
  shows "ledger_ok owner m plan (pacing_step z e y)"
proof (cases e)
  case (Ev_Reserve i job now)
  then show ?thesis using ledger_ok_reserve [OF ok m] by simp
next
  case (Ev_Release g now)
  then show ?thesis using ledger_ok_release [OF ok m] by blast
qed (use ok e in \<open>auto simp: ledger_ok_def states_ok_def rows_ok_def grants_ok_def usage_ok_def refunds_ok_def row_counts_def net_def\<close>)

lemma ledger_ok_run:
  assumes "\<And>x. nonneg_limits (m x)" "\<And>c. plan_within (plan c) (plans c)" "\<forall>e\<in>set es. fair_event owner m plan e"
  shows "ledger_ok owner m plan (pacing_run z plans es)"
  using assms(3)
proof (induction es rule: rev_induct)
  case Nil
  then show ?case using assms(2)
    by (simp add: pacing_run_def ledger_ok_def states_ok_def rows_ok_def grants_ok_def usage_ok_def refunds_ok_def)
next
  case (snoc e es)
  have "pacing_run z plans (es @ [e]) = pacing_step z e (pacing_run z plans es)" by (simp add: pacing_run_def)
  then show ?case using snoc ledger_ok_step [OF _ assms(1)] by simp
qed

text \<open>
  C6. Over any history of claims, releases, limit and zone changes and plan changes: on every local day the regular
  grants of an instance that were not released never exceed the highest daily cap it had, nor its grants to new
  contacts the highest cap for them, nor its group grants the highest group cap; they equal the three counters of the
  ledger row; all grants of a client on a day, over its instances and exempt ones included, are the count of its usage row
  and stay within the highest plan cap it had; and what was refunded are grants, no job twice.
\<close>

theorem caps_hold_over_histories:
  assumes "\<And>x. nonneg_limits (m x)" "\<And>c. plan_within (plan c) (plans c)" "\<forall>e\<in>set es. fair_event owner m plan e"
    and "y = pacing_run z plans es"
  shows "net (regular x d) y \<le> l_daily (m x) \<and> net (cold x d) y \<le> l_new_conv (m x) \<and> net (grouped x d) y \<le> l_group (m x) \<and>
    (\<forall>l. pd_ledger (sy_db y) (x, d) = Some l \<longrightarrow> consumed_count l = net (regular x d) y \<and>
       new_conv_count l = net (cold x d) y \<and> group_sent_count l = net (grouped x d) y) \<and>
    (\<forall>n. pd_usage (sy_db y) (c, d) = Some n \<longrightarrow> n = cnt (of_client c d) (sy_grants y)) \<and>
    (\<forall>p. plan c = Some p \<longrightarrow> cnt (of_client c d) (sy_grants y) \<le> p) \<and>
    set (sy_refunds y) \<subseteq> set (sy_grants y) \<and> distinct (map g_job (sy_refunds y))"
proof -
  have ok: "ledger_ok owner m plan y" unfolding assms(4) using assms(1-3) by (rule ledger_ok_run)
  have "net (regular x d) y \<le> l_daily (m x) \<and> net (cold x d) y \<le> l_new_conv (m x) \<and> net (grouped x d) y \<le> l_group (m x) \<and>
    (\<forall>l. pd_ledger (sy_db y) (x, d) = Some l \<longrightarrow> consumed_count l = net (regular x d) y \<and>
       new_conv_count l = net (cold x d) y \<and> group_sent_count l = net (grouped x d) y)"
  proof (cases "pd_ledger (sy_db y) (x, d)")
    case None
    then show ?thesis using no_row_no_grants [OF ok] assms(1) [of x] by (simp add: nonneg_limits_def)
  next
    case (Some l)
    then show ?thesis using rows_okD [OF ledger_okD(3) [OF ok] Some] by (auto simp: row_counts_def row_within_def)
  qed
  moreover have "cnt (of_client c d) (sy_grants y) \<le> p" if p: "plan c = Some p" for p
  proof (cases "pd_usage (sy_db y) (c, d)")
    case None
    then show ?thesis using no_usage_no_grants [OF ok] ledger_okD(2) [OF ok, of c] p by (simp add: plan_within_def)
  next
    case (Some n)
    then show ?thesis using usage_okD [OF ledger_okD(5) [OF ok]] p by auto
  qed
  moreover have "n = cnt (of_client c d) (sy_grants y)" if "pd_usage (sy_db y) (c, d) = Some n" for n
    using usage_okD [OF ledger_okD(5) [OF ok] that] by blast
  moreover have "set (sy_refunds y) \<subseteq> set (sy_grants y)" "distinct (map g_job (sy_refunds y))"
    using ledger_okD(6) [OF ok] by (simp_all add: refunds_ok_def)
  ultimately show ?thesis by blast
qed

text \<open>A demonstration: one instance with a cap of two a day, two claims, a release, two more claims.\<close>

definition demo_state :: pacing_state where
  "demo_state = \<lparr>ps_client = ''c'', ps_timezone = [], ps_daily_cap = 2, ps_hourly_cap = 6, ps_new_conv_cap = 8,
     ps_cold_ratio_max = 4/10, ps_cold_ratio_floor = 5, ps_group_daily_cap = 0, ps_window_start = 0, ps_window_end = 86399999\<rparr>"

definition demo_in :: reserve_input where
  "demo_in = \<lparr>ri_client = ''c'', ri_instance = ''i'', ri_new_conversation = False, ri_group = False, ri_exempt = False, ri_gap_ms = 60000\<rparr>"

definition demo_grant :: "string \<Rightarrow> int \<Rightarrow> grant" where
  "demo_grant job now = \<lparr>g_in = demo_in, g_job = job, g_day = now div 86400000, g_hour = now mod 86400000 div 3600000, g_at = now\<rparr>"

definition demo_limits :: "string \<Rightarrow> limits_of" where
  "demo_limits x = \<lparr>l_daily = 2, l_new_conv = 8, l_group = 0, l_hourly = 6\<rparr>"

definition demo_day :: "pacing_event list" where
  "demo_day = [Ev_State ''i'' demo_state, Ev_Reserve demo_in ''a'' 3600000, Ev_Release (demo_grant ''a'' 3600000) 3601000,
     Ev_Reserve demo_in ''b'' 3700000, Ev_Reserve demo_in ''c'' 3800000, Ev_Reserve demo_in ''d'' 3900000]"

lemma demo_day_run:
  "map g_job (sy_grants (pacing_run (fixed_zone 0) (\<lambda>_. Some 3) demo_day)) = [''c'', ''b'', ''a'']"
  "map g_job (sy_refunds (pacing_run (fixed_zone 0) (\<lambda>_. Some 3) demo_day)) = [''a'']"
  "list_all (fair_event (\<lambda>_. ''c'') demo_limits (\<lambda>_. Some 3)) demo_day"
  by code_simp+

lemma caps_hold_over_histories_witness:
  "net (regular ''i'' 0) (pacing_run (fixed_zone 0) (\<lambda>_. Some 3) demo_day) \<le> 2 \<and>
   cnt (of_client ''c'' 0) (sy_grants (pacing_run (fixed_zone 0) (\<lambda>_. Some 3) demo_day)) \<le> 3"
proof -
  have "nonneg_limits (demo_limits x)" "plan_within (Some 3) (Some 3)" for x
    by (simp_all add: nonneg_limits_def demo_limits_def plan_within_def)
  moreover have "\<forall>e\<in>set demo_day. fair_event (\<lambda>_. ''c'') demo_limits (\<lambda>_. Some 3) e"
    using demo_day_run(3) by (simp only: list_all_iff)
  ultimately have "net (regular ''i'' 0) (pacing_run (fixed_zone 0) (\<lambda>_. Some 3) demo_day) \<le> l_daily (demo_limits ''i'') \<and>
      (\<forall>p. Some 3 = Some p \<longrightarrow> cnt (of_client ''c'' 0) (sy_grants (pacing_run (fixed_zone 0) (\<lambda>_. Some 3) demo_day)) \<le> p)"
    using caps_hold_over_histories [of demo_limits "\<lambda>_. Some 3" "\<lambda>_. Some 3" demo_day "\<lambda>_. ''c''" _ "fixed_zone 0" "''i''" 0 "''c''", OF _ _ _ refl]
    by blast
  then show ?thesis by (simp add: demo_limits_def)
qed

lemma denial_names_the_reason_witness:
  "\<exists>reason till. snd (reserve (fixed_zone 0) demo_in demo_state 3900000 (sy_db (pacing_run (fixed_zone 0) (\<lambda>_. Some 3) demo_day))) =
      Denied reason till False \<and> reason \<noteq> UNKNOWN"
proof -
  define y where "y = pacing_run (fixed_zone 0) (\<lambda>_. Some 3) demo_day"
  have r: "snd (reserve (fixed_zone 0) demo_in demo_state 3900000 (sy_db y)) = Denied DAILY_CAP 86401000 False"
    unfolding y_def by code_simp
  then obtain db' where res: "reserve (fixed_zone 0) demo_in demo_state 3900000 (sy_db y) = (db', Denied DAILY_CAP 86401000 False)"
    by (metis prod.collapse)
  have "ledger_ok (\<lambda>_. ''c'') demo_limits (\<lambda>_. Some 3) y"
    unfolding y_def by (rule ledger_ok_run)
      (use demo_day_run(3) in \<open>auto simp: list_all_iff nonneg_limits_def demo_limits_def plan_within_def\<close>)
  then have "lr_client l = ri_client demo_in" if "pd_ledger (sy_db y) (ri_instance demo_in, d) = Some l" for d l
    using rows_okD [OF ledger_okD(3)] that by (fastforce simp: demo_in_def)
  from denial_names_the_reason [OF this res] show ?thesis using r by (auto simp: y_def)
qed

section \<open>The hour and the gap\<close>

text \<open>The effect of one claim on the ledger: the row of the day exists afterwards; it is granted or left alone.\<close>

definition day_row :: "tz_rules \<Rightarrow> reserve_input \<Rightarrow> pacing_state \<Rightarrow> int \<Rightarrow> pacing_db \<Rightarrow> ledger_row" where
  "day_row z i s now db = (case pd_ledger db (ri_instance i, d_date z s now) of Some l \<Rightarrow> l
     | None \<Rightarrow> \<lparr>lr_client = ri_client i, consumed_count = 0, sent_this_hour = 0, hour_key = d_hk z s now, new_conv_count = 0,
         group_sent_count = 0, system_count = 0, refund_count = 0, next_eligible_at = now\<rparr>)"

lemma reserve_step_cases:
  assumes s: "cte_s (sy_db y) i = Some s" and y': "y' = pacing_step z (Ev_Reserve i job now) y"
    and d: "d = d_date z s now" and l: "l = day_row z i s now (sy_db y)"
  obtains (denied) "pd_ledger (sy_db y') = (pd_ledger (sy_db y))((ri_instance i, d) \<mapsto> l)" "sy_grants y' = sy_grants y"
      "pd_state (sy_db y') = pd_state (sy_db y)"
    | (granted) db where "pd_ledger (sy_db y') = (pd_ledger (sy_db y))((ri_instance i, d) \<mapsto> reserve_set z i s now l)"
      "sy_grants y' = \<lparr>g_in = i, g_job = job, g_day = d, g_hour = d_hk z s now, g_at = now\<rparr> # sy_grants y"
      "pd_state (sy_db y') = pd_state (sy_db y)" "reserve_where z db i s l now"
proof -
  define db1 where "db1 = ensureDailyUsageRow z i now (ensurePacingLedgerRow z i now (sy_db y))"
  have led: "pd_ledger db1 = (pd_ledger (sy_db y))((ri_instance i, d) \<mapsto> l)"
    using s by (auto simp: db1_def ensurePacingLedgerRow_def d l day_row_def fun_upd_idem_iff split: option.splits)
  have s1: "cte_s db1 i = Some s" "pd_state db1 = pd_state (sy_db y)" using s by (simp_all add: db1_def)
  obtain db2 r where res: "reservePacing z i now db1 = (db2, r)" by fastforce
  show ?thesis
  proof (cases r)
    case None
    then have "db2 = db1" using no_grant_unchanged res by blast
    then show ?thesis using denied s res None led s1 by (simp add: y' reserve_def db1_def [symmetric] Let_def split: prod.splits)
  next
    case (Some q)
    then obtain l' day where q: "reservePacing z i now db1 = (db2, Some (l', day))" using res by (cases q) auto
    obtain s2 k where k: "cte_s db1 i = Some s2" "pd_ledger db1 (ri_instance i, day) = Some k" "lr_client k = ri_client i"
        "day = d_date z s2 now" "reserve_where z db1 i s2 k now" "l' = reserve_set z i s2 now k"
        "pd_ledger db2 = (pd_ledger db1)((ri_instance i, day) \<mapsto> l')" "pd_state db2 = pd_state db1" "pd_cap db2 = pd_cap db1"
        "pd_refunded db2 = pd_refunded db1"
        "pd_usage db2 = (case pd_usage db1 (ri_client i, day) of None \<Rightarrow> pd_usage db1 | Some n \<Rightarrow> (pd_usage db1)((ri_client i, day) \<mapsto> n + 1))"
      using q by (rule reservePacing_grant)
    have s2: "s2 = s" and dd: "day = d" using k(1,4) s1(1) by (simp_all add: d)
    have kl: "k = l" using led k(2) dd by simp
    have y1: "y' = y\<lparr>sy_db := db2, sy_grants := \<lparr>g_in = i, g_job = job, g_day = d, g_hour = d_hk z s now, g_at = now\<rparr> # sy_grants y\<rparr>"
      using s q dd by (simp add: y' reserve_def db1_def [symmetric])
    show thesis
    proof (rule granted [of db1])
      show "reserve_where z db1 i s l now" using k(5) by (simp add: s2 kl)
    qed (use k(6-8) led s1 in \<open>simp_all add: y1 kl s2 dd\<close>)
  qed
qed

definition in_hour :: "string \<Rightarrow> int \<Rightarrow> int \<Rightarrow> grant \<Rightarrow> bool" where
  "in_hour x d h g \<longleftrightarrow> regular x d g \<and> g_hour g = h"

text \<open>
  A row and the grants counted in it: at most \<open>H\<close> in any hour, those of the row's hour counted by \<open>sent_this_hour\<close>, the
  hour being that of an instant \<open>u\<close> of the day, no later grant.
\<close>

definition hour_inv :: "tz_rules \<Rightarrow> string \<Rightarrow> int \<Rightarrow> string \<Rightarrow> int \<Rightarrow> int \<Rightarrow> grant list \<Rightarrow> ledger_row \<Rightarrow> bool" where
  "hour_inv z tz H x d t gs l \<longleftrightarrow> (\<forall>h. cnt (in_hour x d h) gs \<le> H) \<and> cnt (in_hour x d (hour_key l)) gs \<le> sent_this_hour l \<and>
     (\<exists>u\<le>t. z_date z tz u = d \<and> z_hour z tz u = hour_key l \<and> (\<forall>g\<in>set gs. regular x d g \<longrightarrow> g_at g \<le> u))"

definition gap_inv :: "string \<Rightarrow> int \<Rightarrow> grant list \<Rightarrow> ledger_row \<Rightarrow> bool" where
  "gap_inv x d gs l \<longleftrightarrow> (\<forall>g\<in>set gs. regular x d g \<longrightarrow> g_at g + ri_gap_ms (g_in g) \<le> next_eligible_at l) \<and>
     sorted_wrt (\<lambda>new old. g_at old + ri_gap_ms (g_in old) \<le> g_at new) (filter (regular x d) gs)"

definition row_paced :: "tz_rules \<Rightarrow> string \<Rightarrow> int \<Rightarrow> string \<Rightarrow> bool \<Rightarrow> int \<Rightarrow> grant list \<Rightarrow> int \<Rightarrow> ledger_row option \<Rightarrow> bool" where
  "row_paced z tz H x norel t gs d row \<longleftrightarrow> (case row of
        None \<Rightarrow> (\<forall>g\<in>set gs. \<not> on x d g)
      | Some l \<Rightarrow> hour_inv z tz H x d t gs l \<and> (norel \<longrightarrow> gap_inv x d gs l))"

definition paced :: "tz_rules \<Rightarrow> string \<Rightarrow> int \<Rightarrow> string \<Rightarrow> bool \<Rightarrow> int \<Rightarrow> pacing_sys \<Rightarrow> bool" where
  "paced z tz H x norel t y \<longleftrightarrow>
     (\<forall>s. pd_state (sy_db y) x = Some s \<longrightarrow> ps_timezone s = tz \<and> ps_hourly_cap s \<le> H) \<and>
     (\<forall>g\<in>set (sy_grants y). ri_instance (g_in g) = x \<longrightarrow> g_hour g = z_hour z tz (g_at g) \<and> g_day g = z_date z tz (g_at g)) \<and>
     (\<forall>d. row_paced z tz H x norel t (sy_grants y) d (pd_ledger (sy_db y) (x, d)))"

fun ev_time :: "pacing_event \<Rightarrow> int option" where
  "ev_time (Ev_Reserve i job now) = Some now"
| "ev_time (Ev_Release g now) = Some now"
| "ev_time _ = None"

fun steady :: "string \<Rightarrow> int \<Rightarrow> string \<Rightarrow> bool \<Rightarrow> pacing_event \<Rightarrow> bool" where
  "steady tz H x norel (Ev_State a s) \<longleftrightarrow> (a = x \<longrightarrow> ps_timezone s = tz \<and> ps_hourly_cap s \<le> H)"
| "steady tz H x norel (Ev_Release g now) \<longleftrightarrow> (norel \<longrightarrow> ri_instance (g_in g) \<noteq> x)"
| "steady tz H x norel (Ev_Reserve i job now) \<longleftrightarrow> 0 \<le> ri_gap_ms i"
| "steady tz H x norel (Ev_Plan c cap) \<longleftrightarrow> True"

text \<open>Within a local day the hour does not go back.\<close>

definition hours_forward :: "tz_rules \<Rightarrow> string \<Rightarrow> bool" where
  "hours_forward z tz \<longleftrightarrow> (\<forall>t u. t \<le> u \<longrightarrow> z_date z tz t = z_date z tz u \<longrightarrow> z_hour z tz t \<le> z_hour z tz u)"

lemma hours_forwardD: "hours_forward z tz \<Longrightarrow> t \<le> u \<Longrightarrow> z_date z tz t = z_date z tz u \<Longrightarrow> z_hour z tz t \<le> z_hour z tz u"
  unfolding hours_forward_def by blast

lemma hour_invI:
  assumes "\<And>h. cnt (in_hour x d h) gs \<le> H" "cnt (in_hour x d (hour_key l)) gs \<le> sent_this_hour l"
    and "u \<le> t" "z_date z tz u = d" "z_hour z tz u = hour_key l" "\<And>g. g \<in> set gs \<Longrightarrow> regular x d g \<Longrightarrow> g_at g \<le> u"
  shows "hour_inv z tz H x d t gs l"
  using assms unfolding hour_inv_def by blast

lemma hour_invE:
  assumes "hour_inv z tz H x d t gs l"
  obtains u where "u \<le> t" "z_date z tz u = d" "z_hour z tz u = hour_key l" "\<And>g. g \<in> set gs \<Longrightarrow> regular x d g \<Longrightarrow> g_at g \<le> u"
    and "\<And>h. cnt (in_hour x d h) gs \<le> H" "cnt (in_hour x d (hour_key l)) gs \<le> sent_this_hour l"
  using assms unfolding hour_inv_def by blast

lemma hour_inv_later:
  assumes "hour_inv z tz H x d t gs l" "t \<le> u"
  shows "hour_inv z tz H x d u gs l"
  using assms(1) by (rule hour_invE) (rule hour_invI; use assms(2) in fastforce)

lemma hour_inv_cong: "hour_key l' = hour_key l \<Longrightarrow> sent_this_hour l' = sent_this_hour l \<Longrightarrow>
    hour_inv z tz H x d t gs l' = hour_inv z tz H x d t gs l"
  by (simp add: hour_inv_def)

lemma hour_inv_irrelevant: "\<not> regular x d g \<Longrightarrow> hour_inv z tz H x d t (g # gs) l = hour_inv z tz H x d t gs l"
  by (simp add: hour_inv_def in_hour_def)

lemma gap_inv_irrelevant: "\<not> regular x d g \<Longrightarrow> gap_inv x d (g # gs) l = gap_inv x d gs l"
  by (simp add: gap_inv_def)

lemma hour_inv_grant:
  assumes inv: "hour_inv z tz H x d t gs l" and fwd: "hours_forward z tz" and t: "t \<le> now" "z_date z tz now = d"
    and tz: "ps_timezone s = tz" "ps_hourly_cap s \<le> H" and w: "reserve_where z db i s l now" and ne: "\<not> ri_exempt i"
    and gs: "\<And>g. g \<in> set gs \<Longrightarrow> regular x d g \<Longrightarrow> g_hour g = z_hour z tz (g_at g) \<and> z_date z tz (g_at g) = d"
    and g: "g = \<lparr>g_in = i, g_job = job, g_day = d, g_hour = d_hk z s now, g_at = now\<rparr>"
  shows "hour_inv z tz H x d now (g # gs) (reserve_set z i s now l)"
proof -
  define hk where "hk = z_hour z tz now"
  have hk: "d_hk z s now = hk" by (simp add: d_hk_def tz hk_def)
  obtain u where u: "u \<le> t" "z_date z tz u = d" "z_hour z tz u = hour_key l" "\<And>g. g \<in> set gs \<Longrightarrow> regular x d g \<Longrightarrow> g_at g \<le> u"
    and old: "\<And>h. cnt (in_hour x d h) gs \<le> H" "cnt (in_hour x d (hour_key l)) gs \<le> sent_this_hour l"
    using inv by (rule hour_invE) blast
  have none: "cnt (in_hour x d hk) gs = 0" if "hour_key l \<noteq> hk"
  proof (rule cnt_zero)
    fix k assume k: "k \<in> set gs"
    show "\<not> in_hour x d hk k"
    proof
      assume ih: "in_hour x d hk k"
      then have at: "z_hour z tz (g_at k) = hk" "z_date z tz (g_at k) = d" "g_at k \<le> u"
        using gs [OF k] u(4) [OF k] by (auto simp: in_hour_def)
      have "hk \<le> z_hour z tz u" using hours_forwardD [OF fwd at(3)] at u(2) by simp
      moreover have "z_hour z tz u \<le> hk" using hours_forwardD [OF fwd, of u now] u(1,2) t by (simp add: hk_def)
      ultimately show False using that u(3) by simp
    qed
  qed
  have c: "cnt (in_hour x d h) (g # gs) \<le> cnt (in_hour x d h) gs + of_bool (h = hk)" for h
    by (auto simp: in_hour_def g hk)
  have lt: "hour_count l hk < H" using w ne tz(2) by (simp add: reserve_where_def hk)
  have now_hour: "cnt (in_hour x d hk) (g # gs) \<le> (if hour_key l = hk then sent_this_hour l + 1 else 1)"
    using c [of hk] old(2) none by auto
  have "(if hour_key l = hk then sent_this_hour l + 1 else 1) \<le> H" using lt by (auto simp: hour_count_def)
  moreover have "cnt (in_hour x d h) (g # gs) \<le> H" if "h \<noteq> hk" for h using c [of h] old(1) [of h] that by simp
  ultimately have all: "cnt (in_hour x d h) (g # gs) \<le> H" for h using order_trans [OF now_hour] by (cases "h = hk") simp_all
  have before: "g_at k \<le> now" if "k \<in> set (g # gs)" "regular x d k" for k
  proof (cases "k = g")
    case True
    then show ?thesis by (simp add: g)
  next
    case False
    then show ?thesis using u(4) [of k] that u(1) t(1) by simp
  qed
  have row: "hour_key (reserve_set z i s now l) = hk"
      "sent_this_hour (reserve_set z i s now l) = (if hour_key l = hk then sent_this_hour l + 1 else 1)"
    using ne by (simp_all add: reserve_set_def hk)
  show ?thesis
  proof (rule hour_invI)
    show "cnt (in_hour x d h) (g # gs) \<le> H" for h by (rule all)
    show "cnt (in_hour x d (hour_key (reserve_set z i s now l))) (g # gs) \<le> sent_this_hour (reserve_set z i s now l)"
      unfolding row by (rule now_hour)
    show "z_hour z tz now = hour_key (reserve_set z i s now l)" by (simp only: row hk_def)
    show "g_at k \<le> now" if "k \<in> set (g # gs)" "regular x d k" for k using that by (rule before)
  qed (use t(2) in simp_all)
qed

lemma gap_inv_grant:
  assumes "gap_inv x d gs l" "reserve_where z db i s l now" "\<not> ri_exempt i" "0 \<le> ri_gap_ms i"
    and "g = \<lparr>g_in = i, g_job = job, g_day = d, g_hour = h, g_at = now\<rparr>"
  shows "gap_inv x d (g # gs) (reserve_set z i s now l)"
  using assms by (force simp: gap_inv_def reserve_where_def reserve_set_def)

lemma pacedD:
  assumes "paced z tz H x norel t y"
  shows "pd_state (sy_db y) x = Some s \<Longrightarrow> ps_timezone s = tz \<and> ps_hourly_cap s \<le> H"
    and "g \<in> set (sy_grants y) \<Longrightarrow> ri_instance (g_in g) = x \<Longrightarrow> g_hour g = z_hour z tz (g_at g) \<and> g_day g = z_date z tz (g_at g)"
    and "row_paced z tz H x norel t (sy_grants y) d (pd_ledger (sy_db y) (x, d))"
  using assms by (simp_all add: paced_def)

lemma row_paced_later: "row_paced z tz H x norel t gs d row \<Longrightarrow> t \<le> u \<Longrightarrow> row_paced z tz H x norel u gs d row"
  by (cases row) (auto simp: row_paced_def intro: hour_inv_later)

lemma row_paced_irrelevant: "\<not> on x d g \<Longrightarrow> row_paced z tz H x norel t (g # gs) d row = row_paced z tz H x norel t gs d row"
  by (auto simp: row_paced_def hour_inv_irrelevant gap_inv_irrelevant regular_def split: option.splits)

lemma paced_later: "paced z tz H x norel t y \<Longrightarrow> t \<le> u \<Longrightarrow> paced z tz H x norel u y"
  unfolding paced_def using row_paced_later by blast

text \<open>The row a claim works on, before the grant.\<close>

lemma day_row_paced:
  assumes p: "paced z tz H x norel t y" and s: "ps_timezone s = tz" and i: "ri_instance i = x" and d: "d = d_date z s now"
    and t: "t \<le> now" and H: "0 \<le> H"
  shows "row_paced z tz H x norel now (sy_grants y) d (Some (day_row z i s now (sy_db y)))"
proof (cases "pd_ledger (sy_db y) (x, d)")
  case (Some l)
  then show ?thesis using row_paced_later [OF pacedD(3) [OF p] t, of d] i d by (simp add: day_row_def)
next
  case None
  then have none: "\<not> regular x d g" if "g \<in> set (sy_grants y)" for g
    using pacedD(3) [OF p, of d] that by (simp add: row_paced_def regular_def)
  have "cnt (in_hour x d h) (sy_grants y) = 0" for h using none by (auto intro!: cnt_zero simp: in_hour_def)
  moreover have "filter (regular x d) (sy_grants y) = []" using none by (simp add: filter_empty_conv)
  ultimately have "hour_inv z tz H x d now (sy_grants y) (day_row z i s now (sy_db y)) \<and>
      gap_inv x d (sy_grants y) (day_row z i s now (sy_db y))"
    using None none i d H s
    by (auto simp: day_row_def gap_inv_def d_date_def d_hk_def intro!: hour_invI [where u = now])
  then show ?thesis by (simp add: row_paced_def)
qed

lemma row_paced_grant:
  assumes r: "row_paced z tz H x norel t gs d (Some l)" and fwd: "hours_forward z tz" and t: "t \<le> now" "z_date z tz now = d"
    and tz: "ps_timezone s = tz" "ps_hourly_cap s \<le> H" and w: "reserve_where z db i s l now" and gap: "0 \<le> ri_gap_ms i"
    and gs: "\<And>g. g \<in> set gs \<Longrightarrow> regular x d g \<Longrightarrow> g_hour g = z_hour z tz (g_at g) \<and> z_date z tz (g_at g) = d"
    and g: "g = \<lparr>g_in = i, g_job = job, g_day = d, g_hour = d_hk z s now, g_at = now\<rparr>"
  shows "row_paced z tz H x norel now (g # gs) d (Some (reserve_set z i s now l))"
proof (cases "ri_exempt i")
  case True
  then have "\<not> regular x d g" by (simp add: g regular_def)
  then show ?thesis using r True hour_inv_later [OF _ t(1)]
    by (auto simp: row_paced_def hour_inv_irrelevant gap_inv_irrelevant gap_inv_def reserve_set_def
        hour_inv_cong [of "reserve_set z i s now l" l] intro!: hour_inv_later [OF _ t(1)])
      (simp_all add: hour_inv_def)
next
  case False
  then show ?thesis using r hour_inv_grant [OF _ fwd t tz w False gs g] gap_inv_grant [OF _ w False gap g]
    by (simp add: row_paced_def)
qed

lemma paced_reserve:
  assumes p: "paced z tz H x norel t y" and fwd: "hours_forward z tz" and t: "t \<le> now" and H: "0 \<le> H" and gap: "0 \<le> ri_gap_ms i"
  shows "paced z tz H x norel now (pacing_step z (Ev_Reserve i job now) y)"
proof (cases "cte_s (sy_db y) i")
  case None
  then show ?thesis using paced_later [OF p t] by simp
next
  case (Some s)
  define d where "d = d_date z s now"
  define l where "l = day_row z i s now (sy_db y)"
  define g where "g = \<lparr>g_in = i, g_job = job, g_day = d, g_hour = d_hk z s now, g_at = now\<rparr>"
  define y' where "y' = pacing_step z (Ev_Reserve i job now) y"
  have old: "row_paced z tz H x norel now (sy_grants y) e (pd_ledger (sy_db y) (x, e))" for e
    using pacedD(3) [OF paced_later [OF p t]] .
  have st: "ps_timezone s = tz \<and> ps_hourly_cap s \<le> H" if "ri_instance i = x"
    using cte_s_state [OF Some] pacedD(1) [OF p] that by simp
  have row: "row_paced z tz H x norel now (sy_grants y) d (Some l)" if "ri_instance i = x"
    using day_row_paced [OF p _ that d_def t H] st [OF that] by (simp add: l_def)
  have "paced z tz H x norel now y'"
  proof (rule reserve_step_cases [OF Some y'_def d_def l_def])
    assume "pd_ledger (sy_db y') = (pd_ledger (sy_db y))((ri_instance i, d) \<mapsto> l)" "sy_grants y' = sy_grants y"
      "pd_state (sy_db y') = pd_state (sy_db y)"
    then show ?thesis
      using pacedD(1,2) [OF p] old row by (auto simp: paced_def)
  next
    fix db
    assume granted: "pd_ledger (sy_db y') = (pd_ledger (sy_db y))((ri_instance i, d) \<mapsto> reserve_set z i s now l)"
      "sy_grants y' = \<lparr>g_in = i, g_job = job, g_day = d, g_hour = d_hk z s now, g_at = now\<rparr> # sy_grants y"
      "pd_state (sy_db y') = pd_state (sy_db y)" "reserve_where z db i s l now"
    have g_ok: "g_hour g = z_hour z tz (g_at g) \<and> g_day g = z_date z tz (g_at g)" if "ri_instance i = x"
      using st [OF that] by (simp add: g_def d_def d_date_def d_hk_def)
    have new: "row_paced z tz H x norel now (g # sy_grants y) d (Some (reserve_set z i s now l))" if x: "ri_instance i = x"
      by (rule row_paced_grant [OF row [OF x] fwd order_refl _ _ _ granted(4) gap _ g_def])
        (use st [OF x] pacedD(2) [OF p] in \<open>auto simp: d_def d_date_def regular_def on_def\<close>)
    have other: "row_paced z tz H x norel now (g # sy_grants y) e (pd_ledger (sy_db y) (x, e))" if "(x, e) \<noteq> (ri_instance i, d)" for e
    proof -
      have "\<not> on x e g" using that by (auto simp: on_def g_def)
      then show ?thesis using old row_paced_irrelevant by blast
    qed
    have rows: "row_paced z tz H x norel now (g # sy_grants y) e (pd_ledger (sy_db y') (x, e))" for e
      using new other [of e] by (cases "(x, e) = (ri_instance i, d)") (auto simp: granted(1))
    have "g_hour k = z_hour z tz (g_at k) \<and> g_day k = z_date z tz (g_at k)"
      if "k \<in> set (g # sy_grants y)" "ri_instance (g_in k) = x" for k
      using that pacedD(2) [OF p, of k] g_ok by (auto simp: g_def)
    then show ?thesis using rows pacedD(1) [OF p] by (simp add: paced_def granted(2,3) g_def)
  qed
  then show ?thesis by (simp add: y'_def)
qed

lemma paced_release:
  assumes p: "paced z tz H x norel t y" and t: "t \<le> now" and r: "norel \<longrightarrow> ri_instance (g_in g) \<noteq> x"
  shows "paced z tz H x norel now (pacing_step z (Ev_Release g now) y)"
proof -
  define y' where "y' = pacing_step z (Ev_Release g now) y"
  have y': "pd_state (sy_db y') = pd_state (sy_db y)" "sy_grants y' = sy_grants y"
    by (auto simp: y'_def releasePacing_def Let_def split: option.splits prod.splits)
  have led: "pd_ledger (sy_db y') (x, d) = pd_ledger (sy_db y) (x, d) \<or>
      (ri_instance (g_in g) = x \<and> (\<exists>l. pd_ledger (sy_db y) (x, d) = Some l \<and> pd_ledger (sy_db y') (x, d) = Some (release_set (g_in g) now l)))" for d
    by (auto simp: y'_def releasePacing_def Let_def split: option.splits prod.splits)
  have "row_paced z tz H x norel now (sy_grants y) d (pd_ledger (sy_db y') (x, d))" for d
    using led [of d] row_paced_later [OF pacedD(3) [OF p] t, of d] r
    by (auto simp: row_paced_def release_set_def hour_inv_def)
  then have "paced z tz H x norel now y'" using pacedD(1,2) [OF p] by (simp add: paced_def y')
  then show ?thesis by (simp add: y'_def)
qed

definition event_times :: "pacing_event list \<Rightarrow> int list" where
  "event_times es = List.map_filter ev_time es"

lemma event_times_snoc: "event_times (es @ [e]) = event_times es @ (case ev_time e of None \<Rightarrow> [] | Some t \<Rightarrow> [t])"
  by (auto simp: event_times_def List.map_filter_def split: option.splits)

lemma paced_untimed:
  assumes "paced z tz H x norel t y" "ev_time e = None" "steady tz H x norel e"
  shows "paced z tz H x norel t (pacing_step z e y)"
  using assms by (cases e) (auto simp: paced_def)

lemma paced_timed:
  assumes "paced z tz H x norel now y" "ev_time e = Some now" "steady tz H x norel e" "hours_forward z tz" "0 \<le> H"
  shows "paced z tz H x norel now (pacing_step z e y)"
proof (cases e)
  case (Ev_Reserve i job u)
  then show ?thesis using paced_reserve [OF assms(1,4) order_refl assms(5)] assms(2,3) by simp
next
  case (Ev_Release g u)
  then show ?thesis using paced_release [OF assms(1) order_refl] assms(2,3) by simp
qed (use assms(2) in simp_all)

lemma paced_run:
  assumes fwd: "hours_forward z tz" and H: "0 \<le> H" and es: "sorted (event_times es)" "\<forall>e\<in>set es. steady tz H x norel e"
    and t: "\<forall>u\<in>set (event_times es). u \<le> t"
  shows "paced z tz H x norel t (pacing_run z plans es)"
  using es t
proof (induction es arbitrary: t rule: rev_induct)
  case Nil
  then show ?case by (auto simp: paced_def pacing_run_def row_paced_def)
next
  case (snoc e es)
  have run: "pacing_run z plans (es @ [e]) = pacing_step z e (pacing_run z plans es)" by (simp add: pacing_run_def)
  have st: "steady tz H x norel e" "\<forall>e\<in>set es. steady tz H x norel e" using snoc.prems(2) by simp_all
  show ?case
  proof (cases "ev_time e")
    case None
    then have "paced z tz H x norel t (pacing_run z plans es)"
      using snoc.IH [OF _ st(2)] snoc.prems(1,3) by (simp add: event_times_snoc)
    then show ?thesis unfolding run using None st(1) by (rule paced_untimed)
  next
    case (Some now)
    then have s: "sorted (event_times es)" "\<forall>u\<in>set (event_times es). u \<le> now" "now \<le> t"
      using snoc.prems(1,3) by (simp_all add: event_times_snoc sorted_append)
    have "paced z tz H x norel now (pacing_run z plans es)" using snoc.IH [OF s(1) st(2) s(2)] .
    then have "paced z tz H x norel now (pacing_run z plans (es @ [e]))"
      unfolding run using Some st(1) fwd H by (rule paced_timed)
    then show ?thesis using s(3) by (rule paced_later)
  qed
qed

text \<open>
  C7. While the clock does not go back and the zone of an instance stays the same, no local hour sees more regular grants
  of the instance than the highest hourly cap it had, released or not; and as long as none of its claims is released, two
  regular grants of one local day are at least the gap drawn for the earlier one apart.
\<close>

theorem hourly_cap_and_gap_hold:
  assumes "hours_forward z tz" "0 \<le> H" "sorted (event_times es)" "\<forall>e\<in>set es. steady tz H x norel e"
  shows "cnt (in_hour x d h) (sy_grants (pacing_run z plans es)) \<le> H \<and>
    (norel \<longrightarrow> sorted_wrt (\<lambda>new old. g_at old + ri_gap_ms (g_in old) \<le> g_at new)
       (filter (regular x d) (sy_grants (pacing_run z plans es))))"
proof -
  define y where "y = pacing_run z plans es"
  obtain t where "\<forall>u\<in>set (event_times es). u \<le> t"
    using Max_ge [of "set (event_times es)"] by (metis List.finite_set)
  then have p: "paced z tz H x norel t y" unfolding y_def by (rule paced_run [OF assms])
  show ?thesis
  proof (cases "pd_ledger (sy_db y) (x, d)")
    case None
    then have none: "\<not> regular x d g" if "g \<in> set (sy_grants y)" for g
      using pacedD(3) [OF p, of d] that by (simp add: row_paced_def regular_def)
    then have "cnt (in_hour x d h) (sy_grants y) = 0" by (auto intro!: cnt_zero simp: in_hour_def)
    moreover have "filter (regular x d) (sy_grants y) = []" using none by (simp add: filter_empty_conv)
    ultimately show ?thesis using assms(2) by (simp add: y_def)
  next
    case (Some l)
    then show ?thesis using pacedD(3) [OF p, of d] by (simp add: row_paced_def hour_inv_def gap_inv_def y_def)
  qed
qed

lemma fixed_zone_forward: "hours_forward (fixed_zone off) tz"
proof -
  have "(t + off) mod 86400000 div 3600000 \<le> (u + off) mod 86400000 div 3600000"
    if "t \<le> u" "(t + off) div 86400000 = (u + off) div 86400000" for t u :: int
  proof -
    have "(t + off) mod 86400000 \<le> (u + off) mod 86400000"
      using that div_mult_mod_eq [of "t + off" 86400000] div_mult_mod_eq [of "u + off" 86400000] by linarith
    then show ?thesis by (rule zdiv_mono1) simp
  qed
  then show ?thesis by (simp add: hours_forward_def fixed_zone_def)
qed

definition demo_claims :: "pacing_event list" where
  "demo_claims = [Ev_State ''i'' demo_state, Ev_Reserve demo_in ''a'' 3600000, Ev_Reserve demo_in ''b'' 3650000,
     Ev_Reserve demo_in ''c'' 3660000]"

lemma demo_claims_run:
  "map g_at (sy_grants (pacing_run (fixed_zone 0) (\<lambda>_. None) demo_claims)) = [3660000, 3600000]"
  "sorted (event_times demo_claims)" "list_all (steady [] 6 ''i'' True) demo_claims"
  by code_simp+

lemma hourly_cap_and_gap_hold_witness:
  "cnt (in_hour ''i'' 0 1) (sy_grants (pacing_run (fixed_zone 0) (\<lambda>_. None) demo_claims)) \<le> 6"
  using hourly_cap_and_gap_hold [OF fixed_zone_forward _ demo_claims_run(2), of 6 "[]" "''i''" True] demo_claims_run(3)
  by (simp add: list_all_iff)

definition midnight_claims :: "pacing_event list" where
  "midnight_claims = [Ev_State ''i'' demo_state, Ev_Reserve demo_in ''a'' 86399000, Ev_Reserve demo_in ''b'' 86400000]"

definition late_release :: "pacing_event list" where
  "late_release = [Ev_State ''i'' demo_state, Ev_Reserve demo_in ''a'' 3600000, Ev_Reserve demo_in ''b'' 3660000,
     Ev_Release (demo_grant ''a'' 3600000) 3661000, Ev_Reserve demo_in ''c'' 3661000]"

text \<open>
  The gap is not kept across two edges. The first claim after local midnight starts a new ledger row and may be
  granted at once, one second after a grant whose gap is a minute. And a release takes the gap of its own claim off the
  row's clock whatever came later: with an older claim released, the next grant follows the newer one within a second.
\<close>

theorem gap_is_lost_at_midnight_and_by_late_release:
  "map g_at (sy_grants (pacing_run (fixed_zone 0) (\<lambda>_. None) midnight_claims)) = [86400000, 86399000] \<and>
   map g_at (sy_grants (pacing_run (fixed_zone 0) (\<lambda>_. None) late_release)) = [3661000, 3660000, 3600000] \<and>
   ri_gap_ms demo_in = 60000"
  by code_simp

text \<open>A change of zone starts the local day again: both daily caps are used within fifteen hours.\<close>

definition zone_change :: "pacing_event list" where
  "zone_change = [Ev_State ''i'' demo_state, Ev_Reserve demo_in ''a'' 36000000, Ev_Reserve demo_in ''b'' 36060000,
     Ev_Reserve demo_in ''c'' 50400000, Ev_State ''i'' (demo_state\<lparr>ps_timezone := ''+12''\<rparr>),
     Ev_Reserve demo_in ''c'' 50400000, Ev_Reserve demo_in ''d'' 50460000]"

definition two_zones :: tz_rules where
  "two_zones = \<lparr>z_date = (\<lambda>tz t. (t + (if tz = [] then 0 else 43200000)) div 86400000),
     z_hour = (\<lambda>tz t. (t + (if tz = [] then 0 else 43200000)) mod 86400000 div 3600000),
     z_time = (\<lambda>tz t. (t + (if tz = [] then 0 else 43200000)) mod 86400000)\<rparr>"

lemma zone_change_resets_caps:
  "map g_job (sy_grants (pacing_run two_zones (\<lambda>_. None) zone_change)) = [''d'', ''c'', ''b'', ''a''] \<and> ps_daily_cap demo_state = 2"
  by code_simp

text \<open>
  A claim refused by the hourly cap is deferred to the next local midnight, like one refused by the daily cap: in the
  demonstration the cap of one an hour is used at one o'clock, and the second job waits for the end of the day.
\<close>

lemma hourly_denial_waits_for_midnight:
  assumes "reserve z i s now db = (db', Denied HOURLY_CAP t a)"
  shows "t = nextLocalMidnightMs z (ps_timezone s) now"
  using assms by (auto simp: reserve_def resolveRetryAt_def Let_def split: option.splits prod.splits)

definition one_an_hour :: "pacing_event list" where
  "one_an_hour = [Ev_State ''i'' (demo_state\<lparr>ps_hourly_cap := 1\<rparr>), Ev_Reserve demo_in ''a'' 3600000]"

lemma hourly_denial_waits_for_midnight_demo:
  "snd (reserve (fixed_zone 0) demo_in (demo_state\<lparr>ps_hourly_cap := 1\<rparr>) 3700000 (sy_db (pacing_run (fixed_zone 0) (\<lambda>_. None) one_an_hour)))
     = Denied HOURLY_CAP 86401000 False"
  by code_simp

end
