(* ===== verification/Guards.thy ===== *)
theory Guards
  imports Pacing_Ledger
begin

text \<open>
  The guards a claimed job passes before pacing: \<open>modules/pacing/guards\<close> and \<open>modules/pacing/content\<close>, the blocked-word
  matcher of \<open>packages/domain/src/content\<close> (on ASCII text, one character per byte), and the claim pass of
  \<open>engine/queue/send-loop-claim-evaluation.ts\<close> and \<open>send-loop-pacing-claim.ts\<close> that runs them and then reserves. The
  link regular expression and the SHA-256 fingerprint are arguments of the model.
\<close>

section \<open>Blocked words (blocked-word-match.ts)\<close>

definition leet :: "char \<Rightarrow> char" where
  "leet c = (if c = CHR ''0'' then CHR ''o'' else if c = CHR ''1'' then CHR ''i'' else if c = CHR ''3'' then CHR ''e''
     else if c = CHR ''4'' then CHR ''a'' else if c = CHR ''5'' then CHR ''s'' else if c = CHR ''7'' then CHR ''t''
     else if c = CHR ''@'' then CHR ''a'' else if c = CHR ''$'' then CHR ''s'' else c)"

definition deleetify :: "string \<Rightarrow> string" where
  "deleetify s = map leet s"

text \<open>\<open>\w\<close> and \<open>\s\<close> of a regular expression, on ASCII.\<close>

definition is_word :: "char \<Rightarrow> bool" where
  "is_word c \<longleftrightarrow> is_digit c \<or> (CHR ''A'' \<le> c \<and> c \<le> CHR ''Z'') \<or> (CHR ''a'' \<le> c \<and> c \<le> CHR ''z'') \<or> c = CHR ''_''"

definition is_space :: "char \<Rightarrow> bool" where
  "is_space c \<longleftrightarrow> c = CHR '' '' \<or> (CHR 0x09 \<le> c \<and> c \<le> CHR 0x0D)"

text \<open>\<open>phrase.trim().split(/\s+/)\<close>\<close>

fun words_of :: "string \<Rightarrow> string list" where
  "words_of [] = []"
| "words_of (c # cs) =
    (if is_space c then words_of cs
     else (case cs of
             [] \<Rightarrow> [[c]]
           | d # _ \<Rightarrow> if is_space d then [c] # words_of cs
                      else (case words_of cs of [] \<Rightarrow> [[c]] | w # ws \<Rightarrow> (c # w) # ws)))"

text \<open>The words one after the other, spaces between them; what is left when they match at the start.\<close>

fun match_words :: "string list \<Rightarrow> string \<Rightarrow> string option" where
  "match_words [] s = Some s"
| "match_words [w] s = (if starts_with s w then Some (drop (length w) s) else None)"
| "match_words (w # ws) s =
    (if starts_with s w
     then (let rest = drop (length w) s
           in if rest \<noteq> [] \<and> is_space (hd rest) then match_words ws (dropWhile is_space rest) else None)
     else None)"

definition next_is_word :: "string \<Rightarrow> bool" where
  "next_is_word s \<longleftrightarrow> (case s of [] \<Rightarrow> False | c # _ \<Rightarrow> is_word c)"

text \<open>
  \<open>buildPhraseRegex(phrase).test(body)\<close>: try every position; \<open>prev\<close> says whether the character before is a word
  character. Next to a word character of the phrase \<open>\b\<close> asks that the neighbour is none; next to another character the
  lookaround asks the same.
\<close>

fun phrase_test :: "string list \<Rightarrow> bool \<Rightarrow> string \<Rightarrow> bool" where
  "phrase_test ws prev s =
    ((\<not> prev \<and> (case match_words ws s of None \<Rightarrow> False | Some rest \<Rightarrow> \<not> next_is_word rest)) \<or>
     (case s of [] \<Rightarrow> False | c # cs \<Rightarrow> phrase_test ws (is_word c) cs))"

declare phrase_test.simps [simp del]

type_synonym blocked_entry = "string \<times> string"

definition PLATFORM_BLOCKED_WORDS :: "blocked_entry list" where
  "PLATFORM_BLOCKED_WORDS =
    [(''share your card pin'', ''payment_fraud''), (''send payment to unlock'', ''payment_fraud''),
     (''send me the otp'', ''otp_harvesting''), (''share your otp'', ''otp_harvesting''),
     (''you have won a lottery'', ''lottery_prize''), (''lucky draw winner'', ''lottery_prize''),
     (''instant loan no documents'', ''loan_shark''), (''loan'', ''loan_shark''),
     (''explicit adult content'', ''adult''), (''nude photos'', ''adult''),
     (''buy fake documents'', ''illegal_offer''), (''sell counterfeit goods'', ''illegal_offer'')]"

definition prepareBlockedWordEntries :: "blocked_entry list \<Rightarrow> (string list \<times> string) list" where
  "prepareBlockedWordEntries es = map (\<lambda>(word, category). (words_of (deleetify (to_lower word)), category)) es"

definition matchPreparedBlockedWord :: "string \<Rightarrow> (string list \<times> string) list \<Rightarrow> string option" where
  "matchPreparedBlockedWord body prepared =
    map_option snd (find (\<lambda>(ws, category). phrase_test ws False (deleetify (to_lower body))) prepared)"

definition fetchBlockedWordEntries :: "string list \<Rightarrow> (string list \<times> string) list" where
  "fetchBlockedWordEntries tenant_words =
    prepareBlockedWordEntries (PLATFORM_BLOCKED_WORDS @ map (\<lambda>w. (w, ''tenant'')) tenant_words)"

section \<open>Decisions\<close>

text \<open>\<open>None\<close> lets the job through.\<close>

type_synonym guard_decision = "(deny_reason \<times> int option) option"

record guard_job =
  gj_id :: string
  gj_recipientJid :: string
  gj_recipientHash :: "string option"
  gj_sendOrigin :: send_origin
  gj_contentFingerprint :: "string option"
  gj_text :: "string option"
  gj_caption :: "string option"
  gj_isNewConversation :: bool

record guard_state =
  gs_warmupTier :: int
  gs_localDate :: int
  gs_dupFanoutWarn :: int
  gs_dupFanoutAck :: int
  gs_perRecipient24h :: int
  gs_perRecipient7d :: int

text \<open>
  The tables the guards read for one client and instance: opt-outs in force, \<open>first_inbound_at\<close>, the hourly buckets of
  sends to a contact in ascending order, and \<open>content_fingerprints\<close> with its recipients, count and acknowledgement.
\<close>

record fingerprint_row =
  fr_recipients :: "string list"
  fr_count :: int
  fr_ack :: bool

record guard_tables =
  gt_optedOut :: "string \<Rightarrow> bool"
  gt_firstInbound :: "string \<Rightarrow> int option"
  gt_buckets :: "string \<Rightarrow> (int \<times> int) list"
  gt_fingerprints :: "int \<times> string \<Rightarrow> fingerprint_row option"

record content_rules =
  cr_prepared :: "(string list \<times> string) list"
  cr_containsLink :: "string \<Rightarrow> bool"
  cr_fingerprint :: "string \<Rightarrow> string"

definition is_group_jid :: "guard_job \<Rightarrow> bool" where
  "is_group_jid j \<longleftrightarrow> ends_with (gj_recipientJid j) ''@g.us''"

definition extractBody :: "guard_job \<Rightarrow> string option" where
  "extractBody j = (case gj_text j of Some t \<Rightarrow> Some t | None \<Rightarrow> gj_caption j)"

definition evaluateOptOutGate :: "guard_tables \<Rightarrow> guard_job \<Rightarrow> guard_decision" where
  "evaluateOptOutGate t j =
    (if is_group_jid j \<or> gj_recipientHash j = None \<or> gj_sendOrigin j = Opt_Out_Confirmation then None
     else if gt_optedOut t (the (gj_recipientHash j)) then Some (OPT_OUT, None) else None)"

definition evaluateBlockedWordsPrepared :: "content_rules \<Rightarrow> string \<Rightarrow> guard_decision" where
  "evaluateBlockedWordsPrepared r body =
    (case matchPreparedBlockedWord body (cr_prepared r) of Some category \<Rightarrow> Some (BLOCKED_WORD, None) | None \<Rightarrow> None)"

definition evaluateLinkGuard :: "content_rules \<Rightarrow> guard_tables \<Rightarrow> guard_state \<Rightarrow> guard_job \<Rightarrow> string \<Rightarrow> string \<Rightarrow> guard_decision" where
  "evaluateLinkGuard r t st j hash body =
    (if \<not> cr_containsLink r body then None
     else if is_group_jid j then None
     else if gt_firstInbound t hash \<noteq> None then None
     else if gs_warmupTier st \<le> 2 then Some (LINK_IN_FIRST_MESSAGE, None)
     else None)"

text \<open>\<open>count-fingerprint-recipient.sql\<close>\<close>

definition count_fingerprint_recipient :: "int \<Rightarrow> string \<Rightarrow> string \<Rightarrow> guard_tables \<Rightarrow> guard_tables \<times> fingerprint_row" where
  "count_fingerprint_recipient day fp hash t =
    (let old = (case gt_fingerprints t (day, fp) of Some row \<Rightarrow> row | None \<Rightarrow> \<lparr>fr_recipients = [], fr_count = 0, fr_ack = False\<rparr>);
         new = (if hash \<in> set (fr_recipients old) then old
                else old\<lparr>fr_recipients := hash # fr_recipients old, fr_count := fr_count old + 1\<rparr>)
     in (t\<lparr>gt_fingerprints := (gt_fingerprints t)((day, fp) \<mapsto> new)\<rparr>, new))"

definition evaluateDuplicateFanout :: "guard_state \<Rightarrow> string \<Rightarrow> string \<Rightarrow> guard_tables \<Rightarrow> guard_tables \<times> guard_decision" where
  "evaluateDuplicateFanout st fp hash t =
    (let (t', row) = count_fingerprint_recipient (gs_localDate st) fp hash t
     in (t', if fr_ack row then None
             else if fr_count row > gs_dupFanoutAck st then Some (NEEDS_HUMAN_ACK, None)
             else None))"

text \<open>\<open>ackFanout\<close>, the write to the fingerprint\<close>

definition ack_fingerprint :: "int \<Rightarrow> string \<Rightarrow> guard_tables \<Rightarrow> guard_tables" where
  "ack_fingerprint day fp t = (case gt_fingerprints t (day, fp) of
      None \<Rightarrow> t
    | Some row \<Rightarrow> t\<lparr>gt_fingerprints := (gt_fingerprints t)((day, fp) \<mapsto> row\<lparr>fr_ack := True\<rparr>)\<rparr>)"

section \<open>Recipient frequency (recipient-frequency.ts)\<close>

definition WINDOW_24H_MS :: int where "WINDOW_24H_MS = 24 * 60 * 60 * 1000"
definition WINDOW_7D_MS :: int where "WINDOW_7D_MS = 7 * 24 * 60 * 60 * 1000"
definition UNCOMPUTABLE_EXPIRY_HOLD_MS :: int where "UNCOMPUTABLE_EXPIRY_HOLD_MS = 60 * 60 * 1000"

text \<open>\<open>recipient-frequency-window.sql\<close> and the two filters: the buckets of a window at an instant.\<close>

definition window_buckets :: "(int \<times> int) list \<Rightarrow> int \<Rightarrow> int \<Rightarrow> (int \<times> int) list" where
  "window_buckets buckets windowMs now =
    filter (\<lambda>(b, n). b > now - windowMs) (filter (\<lambda>(b, n). b > now - WINDOW_7D_MS \<and> b \<le> now) buckets)"

definition bucket_sum :: "(int \<times> int) list \<Rightarrow> int" where
  "bucket_sum bs = sum_list (map snd bs)"

fun expiry_walk :: "(int \<times> int) list \<Rightarrow> int \<Rightarrow> int \<Rightarrow> int \<Rightarrow> int option" where
  "expiry_walk [] cumulative mustAgeOut windowMs = None"
| "expiry_walk ((b, n) # bs) cumulative mustAgeOut windowMs =
    (if cumulative + n \<ge> mustAgeOut then Some (b + windowMs) else expiry_walk bs (cumulative + n) mustAgeOut windowMs)"

definition computeExpiry :: "(int \<times> int) list \<Rightarrow> int \<Rightarrow> int \<Rightarrow> int \<Rightarrow> int option" where
  "computeExpiry bs recordedCount limit windowMs =
    (if recordedCount < limit then None else expiry_walk bs 0 (recordedCount - limit + 1) windowMs)"

definition evaluateRecipientFrequency :: "guard_tables \<Rightarrow> guard_state \<Rightarrow> guard_job \<Rightarrow> string \<Rightarrow> int \<Rightarrow> guard_decision" where
  "evaluateRecipientFrequency t st j hash now =
    (if is_group_jid j then None
     else (let b24 = window_buckets (gt_buckets t hash) WINDOW_24H_MS now; b7 = window_buckets (gt_buckets t hash) WINDOW_7D_MS now;
               breached24h = bucket_sum b24 \<ge> gs_perRecipient24h st; breached7d = bucket_sum b7 \<ge> gs_perRecipient7d st;
               fallback = now + UNCOMPUTABLE_EXPIRY_HOLD_MS;
               resolved = (\<lambda>e. case e of Some x \<Rightarrow> x | None \<Rightarrow> fallback);
               r24 = resolved (computeExpiry b24 (bucket_sum b24) (gs_perRecipient24h st) WINDOW_24H_MS);
               r7 = resolved (computeExpiry b7 (bucket_sum b7) (gs_perRecipient7d st) WINDOW_7D_MS)
           in if \<not> breached24h \<and> \<not> breached7d then None
              else Some (PER_RECIPIENT_FREQ,
                Some (if breached24h \<and> breached7d then max r24 r7 else if breached24h then r24 else r7))))"

section \<open>The pipeline (pipeline.ts)\<close>

definition NEEDS_HUMAN_ACK_RECHECK_HOLD_MS :: int where "NEEDS_HUMAN_ACK_RECHECK_HOLD_MS = 300000"

definition resolve_guard_retry :: "deny_reason \<Rightarrow> int option \<Rightarrow> int \<Rightarrow> int" where
  "resolve_guard_retry reason retryAt now =
    (case retryAt of Some t \<Rightarrow> t
     | None \<Rightarrow> if reason = NEEDS_HUMAN_ACK then now + NEEDS_HUMAN_ACK_RECHECK_HOLD_MS else now)"

text \<open>The guards in order; the first denial wins and a later guard does not run.\<close>

definition evaluateGuards :: "content_rules \<Rightarrow> guard_state \<Rightarrow> guard_job \<Rightarrow> int \<Rightarrow> guard_tables \<Rightarrow>
    guard_tables \<times> (deny_reason \<times> int) option" where
  "evaluateGuards r st j now t =
    (let resolve = (\<lambda>(reason, later). (reason, resolve_guard_retry reason later now)) in
     case evaluateOptOutGate t j of
       Some d \<Rightarrow> (t, Some (resolve d))
     | None \<Rightarrow>
       (case (case extractBody j of None \<Rightarrow> None | Some body \<Rightarrow> evaluateBlockedWordsPrepared r body) of
          Some d \<Rightarrow> (t, Some (resolve d))
        | None \<Rightarrow>
          (case (case (extractBody j, gj_recipientHash j) of
                   (Some body, Some hash) \<Rightarrow> evaluateLinkGuard r t st j hash body | _ \<Rightarrow> None) of
             Some d \<Rightarrow> (t, Some (resolve d))
           | None \<Rightarrow>
             (case (case (extractBody j, gj_recipientHash j) of
                      (Some body, Some hash) \<Rightarrow>
                        evaluateDuplicateFanout st
                          (case gj_contentFingerprint j of Some fp \<Rightarrow> fp | None \<Rightarrow> cr_fingerprint r body) hash t
                    | _ \<Rightarrow> (t, None)) of
                (t', Some d) \<Rightarrow> (t', Some (resolve d))
              | (t', None) \<Rightarrow>
                (case (case gj_recipientHash j of
                         Some hash \<Rightarrow> evaluateRecipientFrequency t' st j hash now | None \<Rightarrow> None) of
                   Some d \<Rightarrow> (t', Some (resolve d))
                 | None \<Rightarrow> (t', None))))))"

section \<open>One claimed job, and a claim pass\<close>

datatype claim_evaluation =
    Disposed deny_outcome deny_reason
  | Deferred deny_reason int
  | Reserved int reserve_input

record claim_tables =
  ct_guards :: guard_tables
  ct_pacing :: pacing_db

definition NO_LEDGER_ROW_HOLD_MS :: int where "NO_LEDGER_ROW_HOLD_MS = 60000"
definition MAX_DISPOSALS_PER_PASS :: nat where "MAX_DISPOSALS_PER_PASS = 25"

text \<open>
  The guards run when their state row was read; \<open>gap\<close> is the gap drawn for the job. The client and instance of the
  pass are \<open>client\<close> and \<open>inst\<close>.
\<close>

definition evaluateOneClaimedJob :: "tz_rules \<Rightarrow> content_rules \<Rightarrow> guard_state option \<Rightarrow> string \<Rightarrow> string \<Rightarrow> int \<Rightarrow> int \<Rightarrow>
    guard_job \<Rightarrow> claim_tables \<Rightarrow> claim_tables \<times> claim_evaluation" where
  "evaluateOneClaimedJob z r gst client inst now gap j c =
    (let (g', denial) = (case gst of Some st \<Rightarrow> evaluateGuards r st j now (ct_guards c) | None \<Rightarrow> (ct_guards c, None));
         c' = c\<lparr>ct_guards := g'\<rparr> in
     case denial of
       Some (reason, retryAt) \<Rightarrow>
         (if de_jobOutcome (DENY_REASON_EFFECTS reason) = Stay_Queued then (c', Deferred reason retryAt)
          else (c', Disposed (de_jobOutcome (DENY_REASON_EFFECTS reason)) reason))
     | None \<Rightarrow>
         (let i = \<lparr>ri_client = client, ri_instance = inst, ri_new_conversation = gj_isNewConversation j \<and> \<not> is_group_jid j,
                   ri_group = is_group_jid j, ri_exempt = isExemptOrigin (gj_sendOrigin j), ri_gap_ms = gap\<rparr> in
          case cte_s (ct_pacing c') i of
            None \<Rightarrow> (c', Deferred NO_LEDGER_ROW (now + NO_LEDGER_ROW_HOLD_MS))
          | Some s \<Rightarrow>
              (case reserve z i s now (ct_pacing c') of
                 (db, Granted day _) \<Rightarrow> (c'\<lparr>ct_pacing := db\<rparr>, Reserved day i)
               | (db, Denied reason retryAt _) \<Rightarrow> (c'\<lparr>ct_pacing := db\<rparr>, Deferred reason retryAt))))"

text \<open>
  The pass over the claimable jobs in claim order, each with its gap: disposed jobs are skipped, up to the cap; the list
  holds what was decided, the tables are those at the end.
\<close>

fun claim_pass :: "nat \<Rightarrow> tz_rules \<Rightarrow> content_rules \<Rightarrow> guard_state option \<Rightarrow> string \<Rightarrow> string \<Rightarrow> int \<Rightarrow> (guard_job \<times> int) list \<Rightarrow>
    claim_tables \<Rightarrow> claim_tables \<times> (guard_job \<times> claim_evaluation) list" where
  "claim_pass 0 z r gst client inst now jobs c = (c, [])"
| "claim_pass (Suc n) z r gst client inst now [] c = (c, [])"
| "claim_pass (Suc n) z r gst client inst now ((j, gap) # jobs) c =
    (case evaluateOneClaimedJob z r gst client inst now gap j c of
       (c', Disposed out reason) \<Rightarrow>
         (case claim_pass n z r gst client inst now jobs c' of (c'', ds) \<Rightarrow> (c'', (j, Disposed out reason) # ds))
     | (c', e) \<Rightarrow> (c', [(j, e)]))"

definition claimAndReserve :: "tz_rules \<Rightarrow> content_rules \<Rightarrow> guard_state option \<Rightarrow> string \<Rightarrow> string \<Rightarrow> int \<Rightarrow> (guard_job \<times> int) list \<Rightarrow>
    claim_tables \<Rightarrow> claim_tables \<times> (guard_job \<times> claim_evaluation) list" where
  "claimAndReserve z r gst client inst now jobs c = claim_pass MAX_DISPOSALS_PER_PASS z r gst client inst now jobs c"

section \<open>The matcher\<close>

text \<open>What the regular expression means: somewhere in the text, no word character right before or after the words.\<close>

lemma phrase_test_iff:
  "phrase_test ws prev s \<longleftrightarrow> (\<exists>pre suf rest. s = pre @ suf \<and> match_words ws suf = Some rest \<and> \<not> next_is_word rest \<and>
     \<not> (if pre = [] then prev else is_word (last pre)))"
proof (induction s arbitrary: prev)
  case Nil
  show ?case by (subst phrase_test.simps) (auto split: option.splits)
next
  case (Cons c cs)
  have "phrase_test ws prev (c # cs) \<longleftrightarrow>
      (\<not> prev \<and> (\<exists>rest. match_words ws (c # cs) = Some rest \<and> \<not> next_is_word rest)) \<or> phrase_test ws (is_word c) cs"
    by (subst phrase_test.simps) (auto split: option.splits)
  also have "\<dots> \<longleftrightarrow> (\<exists>pre suf rest. c # cs = pre @ suf \<and> match_words ws suf = Some rest \<and> \<not> next_is_word rest \<and>
     \<not> (if pre = [] then prev else is_word (last pre)))" (is "_ \<longleftrightarrow> ?R")
  proof
    assume "(\<not> prev \<and> (\<exists>rest. match_words ws (c # cs) = Some rest \<and> \<not> next_is_word rest)) \<or> phrase_test ws (is_word c) cs"
    then show ?R
    proof
      assume "\<not> prev \<and> (\<exists>rest. match_words ws (c # cs) = Some rest \<and> \<not> next_is_word rest)"
      then show ?R by (metis append_Nil)
    next
      assume "phrase_test ws (is_word c) cs"
      then obtain pre suf rest where "cs = pre @ suf" "match_words ws suf = Some rest" "\<not> next_is_word rest"
        "\<not> (if pre = [] then is_word c else is_word (last pre))" using Cons by blast
      then show ?R by (intro exI [of _ "c # pre"] exI [of _ suf] exI [of _ rest]) auto
    qed
  next
    assume ?R
    then obtain pre suf rest where r: "c # cs = pre @ suf" "match_words ws suf = Some rest" "\<not> next_is_word rest"
        "\<not> (if pre = [] then prev else is_word (last pre))" by blast
    show "(\<not> prev \<and> (\<exists>rest. match_words ws (c # cs) = Some rest \<and> \<not> next_is_word rest)) \<or> phrase_test ws (is_word c) cs"
    proof (cases pre)
      case Nil
      then show ?thesis using r by auto
    next
      case (Cons d pre')
      then have "\<exists>pre suf rest. cs = pre @ suf \<and> match_words ws suf = Some rest \<and> \<not> next_is_word rest \<and>
          \<not> (if pre = [] then is_word c else is_word (last pre))"
        using r by (intro exI [of _ pre'] exI [of _ suf] exI [of _ rest]) auto
      then show ?thesis using Cons.IH by blast
    qed
  qed
  finally show ?case .
qed

lemma leet_letters:
  "lower_char CHR ''o'' = CHR ''o''" "lower_char CHR ''i'' = CHR ''i''" "lower_char CHR ''e'' = CHR ''e''"
  "lower_char CHR ''a'' = CHR ''a''" "lower_char CHR ''s'' = CHR ''s''" "lower_char CHR ''t'' = CHR ''t''"
  "lower_char CHR ''0'' = CHR ''0''" "lower_char CHR ''1'' = CHR ''1''" "lower_char CHR ''3'' = CHR ''3''"
  "lower_char CHR ''4'' = CHR ''4''" "lower_char CHR ''5'' = CHR ''5''" "lower_char CHR ''7'' = CHR ''7''"
  "lower_char CHR ''@'' = CHR ''@''" "lower_char CHR ''$'' = CHR ''$''"
  by code_simp+

lemma leet_idem [simp]: "leet (lower_char (leet c)) = leet (lower_char c)"
proof -
  have "leet c = c \<or> c \<in> {CHR ''0'', CHR ''1'', CHR ''3'', CHR ''4'', CHR ''5'', CHR ''7'', CHR ''@'', CHR ''$''}"
    by (simp add: leet_def)
  then show ?thesis
  proof
    assume "c \<in> {CHR ''0'', CHR ''1'', CHR ''3'', CHR ''4'', CHR ''5'', CHR ''7'', CHR ''@'', CHR ''$''}"
    then show ?thesis by (auto simp: leet_letters) (simp_all add: leet_def leet_letters)
  qed simp
qed

lemma phrase_of_one_word: "match_words [w] s = Some rest \<longleftrightarrow> s = w @ rest"
  by (auto simp: starts_with_def) (metis append_take_drop_id)

section \<open>The frequency window\<close>

definition removed :: "(int \<times> int) list \<Rightarrow> int \<Rightarrow> int \<Rightarrow> int" where
  "removed bs windowMs t = bucket_sum (filter (\<lambda>(b, n). b \<le> t - windowMs) bs)"

definition good_buckets :: "(int \<times> int) list \<Rightarrow> bool" where
  "good_buckets bs \<longleftrightarrow> sorted (map fst bs) \<and> (\<forall>(b, n)\<in>set bs. 0 < n)"

lemma bucket_sum_simps [simp]: "bucket_sum [] = 0" "bucket_sum ((b, n) # bs) = n + bucket_sum bs"
  by (simp_all add: bucket_sum_def)

lemma bucket_sum_nonneg: "good_buckets bs \<Longrightarrow> 0 \<le> bucket_sum (filter P bs)"
  by (induction bs) (auto simp: good_buckets_def)

lemma good_Cons: "good_buckets ((b, n) # bs) \<longleftrightarrow> 0 < n \<and> (\<forall>(c, m)\<in>set bs. b \<le> c) \<and> good_buckets bs"
  by (auto simp: good_buckets_def)

lemma good_filter: "good_buckets bs \<Longrightarrow> good_buckets (filter P bs)"
  by (induction bs) (auto simp: good_Cons good_buckets_def [of "[]"])

lemma bucket_sum_split: "bucket_sum (filter P bs) + bucket_sum (filter (\<lambda>x. \<not> P x) bs) = bucket_sum bs"
  by (induction bs) auto

text \<open>The walk stops at the bucket whose leaving brings the removed sends up to the wanted number.\<close>

lemma expiry_walk_exact:
  assumes "good_buckets bs" "c < m" "expiry_walk bs c m w = Some e"
  shows "c + removed bs w t < m \<longleftrightarrow> t < e"
  using assms
proof (induction bs arbitrary: c)
  case (Cons x bs)
  obtain b n where x: "x = (b, n)" by fastforce
  have g: "0 < n" "\<forall>(d, k)\<in>set bs. b \<le> d" "good_buckets bs" using Cons.prems(1) by (auto simp: x good_Cons)
  have early: "removed ((b, n) # bs) w t = 0" if "t - w < b"
  proof -
    have "filter (\<lambda>(d, k). d \<le> t - w) bs = []" using g(2) that by (fastforce simp: filter_empty_conv)
    then show ?thesis using that by (simp add: removed_def)
  qed
  have late: "removed ((b, n) # bs) w t = n + removed bs w t" if "b \<le> t - w" using that by (simp add: removed_def)
  have nn: "0 \<le> removed bs w t" using g(3) by (simp add: removed_def bucket_sum_nonneg)
  show ?case
  proof (cases "m \<le> c + n")
    case True
    then have "e = b + w" using Cons.prems(3) by (simp add: x)
    then show ?thesis using True early late nn Cons.prems(2) unfolding x by (cases "t - w < b") auto
  next
    case False
    then have ih: "c + n + removed bs w t < m \<longleftrightarrow> t < e" using Cons.IH [of "c + n"] Cons.prems g(3) by (simp add: x)
    show ?thesis
    proof (cases "t - w < b")
      case True
      then have "filter (\<lambda>(d, k). d \<le> t - w) bs = []" using g(2) by (fastforce simp: filter_empty_conv)
      then have "removed bs w t = 0" by (simp add: removed_def)
      then show ?thesis using ih False early True Cons.prems(2) unfolding x by simp
    next
      case False
      then show ?thesis using ih late unfolding x by (simp add: add.assoc)
    qed
  qed
qed simp

lemma expiry_walk_found: "m \<le> c + bucket_sum bs \<Longrightarrow> bs \<noteq> [] \<Longrightarrow> \<exists>e. expiry_walk bs c m w = Some e"
proof (induction bs arbitrary: c)
  case (Cons x bs)
  obtain b n where x: "x = (b, n)" by fastforce
  show ?case
  proof (cases "m \<le> c + n")
    case False
    then have "bs \<noteq> []" using Cons.prems by (auto simp: x)
    then show ?thesis using Cons.IH [of "c + n"] Cons.prems False by (simp add: x add.assoc)
  qed (simp add: x)
qed simp

text \<open>The count of a window at a later instant, when no send has been recorded since.\<close>

lemma later_count:
  assumes "now \<le> t" "w \<le> WINDOW_7D_MS" "\<forall>(b, n)\<in>set bs. b \<le> now"
  shows "bucket_sum (window_buckets bs w t) = bucket_sum (window_buckets bs w now) - removed (window_buckets bs w now) w t"
proof -
  have w: "window_buckets bs w u = filter (\<lambda>(b, n). u - w < b) bs" if "now \<le> u" for u
    using assms(2,3) that by (auto simp: window_buckets_def intro!: filter_cong)
  have "filter (\<lambda>(b, n). t - w < b) bs = filter (\<lambda>x. \<not> (case x of (b, n) \<Rightarrow> b \<le> t - w)) (filter (\<lambda>(b, n). now - w < b) bs)"
    using assms(1) by (auto intro!: filter_cong)
  then show ?thesis
    using bucket_sum_split [of "\<lambda>(b, n). b \<le> t - w" "filter (\<lambda>(b, n). now - w < b) bs"] assms(1)
    by (simp add: w removed_def)
qed

lemma breach_ends_at_expiry:
  assumes good: "good_buckets bs" and le: "\<forall>(b, n)\<in>set bs. b \<le> now" and w: "w \<le> WINDOW_7D_MS" and limit: "0 < limit"
    and br: "limit \<le> bucket_sum (window_buckets bs w now)"
  shows "\<exists>e. computeExpiry (window_buckets bs w now) (bucket_sum (window_buckets bs w now)) limit w = Some e \<and>
    (\<forall>t\<ge>now. limit \<le> bucket_sum (window_buckets bs w t) \<longleftrightarrow> t < e)"
proof -
  define ws where "ws = window_buckets bs w now"
  have g: "good_buckets ws" using good by (simp add: ws_def window_buckets_def good_filter)
  have ne: "ws \<noteq> []" using br limit by (auto simp: ws_def)
  define m where "m = bucket_sum ws - limit + 1"
  obtain e where e: "expiry_walk ws 0 m w = Some e" using expiry_walk_found [of m 0 ws w] ne limit by (auto simp: m_def)
  have gone: "removed ws w t < m \<longleftrightarrow> t < e" for t
    using expiry_walk_exact [OF g _ e, of t] br by (simp add: m_def ws_def)
  have left: "bucket_sum (window_buckets bs w t) = bucket_sum ws - removed ws w t" if "now \<le> t" for t
    using later_count [OF that w le] by (simp add: ws_def)
  have "\<forall>t\<ge>now. limit \<le> bucket_sum (window_buckets bs w t) \<longleftrightarrow> t < e"
  proof (intro allI impI)
    fix t assume t: "now \<le> t"
    have "limit \<le> bucket_sum (window_buckets bs w t) \<longleftrightarrow> removed ws w t < m" unfolding left [OF t] m_def by linarith
    then show "limit \<le> bucket_sum (window_buckets bs w t) \<longleftrightarrow> t < e" unfolding gone .
  qed
  moreover have "computeExpiry ws (bucket_sum ws) limit w = Some e" using e br by (simp add: computeExpiry_def m_def ws_def)
  ultimately show ?thesis by (auto simp: ws_def)
qed

lemma count_falls:
  assumes "good_buckets bs" "now \<le> t" "w \<le> WINDOW_7D_MS" "\<forall>(b, n)\<in>set bs. b \<le> now"
  shows "bucket_sum (window_buckets bs w t) \<le> bucket_sum (window_buckets bs w now)"
proof -
  have "good_buckets (window_buckets bs w now)" using assms(1) by (simp add: window_buckets_def good_filter)
  then have "0 \<le> removed (window_buckets bs w now) w t" by (simp add: removed_def bucket_sum_nonneg)
  then show ?thesis using later_count [OF assms(2-4)] by simp
qed

text \<open>
  The retry time of a frequency denial is exact: while no further send to the contact is recorded, the guard denies
  at every instant before it and lets the job through from it on; the hold for an expiry that cannot be computed is
  never used.
\<close>

theorem frequency_retry_is_exact:
  assumes "good_buckets (gt_buckets t hash)" "\<forall>(b, n)\<in>set (gt_buckets t hash). b \<le> now"
    and "0 < gs_perRecipient24h st" "0 < gs_perRecipient7d st"
    and "evaluateRecipientFrequency t st j hash now = Some (reason, retryAt)"
  shows "reason = PER_RECIPIENT_FREQ \<and> (\<exists>e. retryAt = Some e \<and> now < e \<and>
    (\<forall>u\<ge>now. evaluateRecipientFrequency t st j hash u = None \<longleftrightarrow> e \<le> u))"
proof -
  define bs where "bs = gt_buckets t hash"
  define c24 where "c24 u = bucket_sum (window_buckets bs WINDOW_24H_MS u)" for u
  define c7 where "c7 u = bucket_sum (window_buckets bs WINDOW_7D_MS u)" for u
  have group: "\<not> is_group_jid j" using assms(5) by (auto simp: evaluateRecipientFrequency_def)
  have none: "evaluateRecipientFrequency t st j hash u = None \<longleftrightarrow> c24 u < gs_perRecipient24h st \<and> c7 u < gs_perRecipient7d st" for u
    using group by (auto simp: evaluateRecipientFrequency_def Let_def bs_def c24_def c7_def)
  have le24: "WINDOW_24H_MS \<le> WINDOW_7D_MS" by (simp add: WINDOW_24H_MS_def WINDOW_7D_MS_def)
  have stay24: "c24 u < gs_perRecipient24h st" if "now \<le> u" "c24 now < gs_perRecipient24h st" for u
    using count_falls [OF assms(1) that(1) le24 assms(2)] that(2) by (simp add: c24_def bs_def)
  have stay7: "c7 u < gs_perRecipient7d st" if "now \<le> u" "c7 now < gs_perRecipient7d st" for u
    using count_falls [OF assms(1) that(1) order_refl assms(2)] that(2) by (simp add: c7_def bs_def)
  define x24 where "x24 = computeExpiry (window_buckets bs WINDOW_24H_MS now) (c24 now) (gs_perRecipient24h st) WINDOW_24H_MS"
  define x7 where "x7 = computeExpiry (window_buckets bs WINDOW_7D_MS now) (c7 now) (gs_perRecipient7d st) WINDOW_7D_MS"
  have e24: "\<exists>e. x24 = Some e \<and> (\<forall>u\<ge>now. gs_perRecipient24h st \<le> c24 u \<longleftrightarrow> u < e)" if "gs_perRecipient24h st \<le> c24 now"
    using breach_ends_at_expiry [OF assms(1,2) le24 assms(3)] that by (simp add: x24_def c24_def bs_def)
  have e7: "\<exists>e. x7 = Some e \<and> (\<forall>u\<ge>now. gs_perRecipient7d st \<le> c7 u \<longleftrightarrow> u < e)" if "gs_perRecipient7d st \<le> c7 now"
    using breach_ends_at_expiry [OF assms(1,2) order_refl assms(4)] that by (simp add: x7_def c7_def bs_def)
  have res: "reason = PER_RECIPIENT_FREQ" "retryAt = Some (if gs_perRecipient24h st \<le> c24 now \<and> gs_perRecipient7d st \<le> c7 now
      then max (case x24 of Some x \<Rightarrow> x | None \<Rightarrow> now + UNCOMPUTABLE_EXPIRY_HOLD_MS) (case x7 of Some x \<Rightarrow> x | None \<Rightarrow> now + UNCOMPUTABLE_EXPIRY_HOLD_MS)
      else if gs_perRecipient24h st \<le> c24 now then (case x24 of Some x \<Rightarrow> x | None \<Rightarrow> now + UNCOMPUTABLE_EXPIRY_HOLD_MS)
      else (case x7 of Some x \<Rightarrow> x | None \<Rightarrow> now + UNCOMPUTABLE_EXPIRY_HOLD_MS))"
    using assms(5) group by (auto simp: evaluateRecipientFrequency_def Let_def bs_def c24_def c7_def x24_def x7_def split: if_splits)
  have br: "gs_perRecipient24h st \<le> c24 now \<or> gs_perRecipient7d st \<le> c7 now" using none [of now] assms(5) by auto
  show ?thesis
  proof (cases "gs_perRecipient24h st \<le> c24 now")
    case True
    then obtain a where a: "x24 = Some a" "\<And>u. now \<le> u \<Longrightarrow> gs_perRecipient24h st \<le> c24 u \<longleftrightarrow> u < a" using e24 by blast
    show ?thesis
    proof (cases "gs_perRecipient7d st \<le> c7 now")
      case both: True
      then obtain b where b: "x7 = Some b" "\<And>u. now \<le> u \<Longrightarrow> gs_perRecipient7d st \<le> c7 u \<longleftrightarrow> u < b" using e7 by blast
      have "evaluateRecipientFrequency t st j hash u = None \<longleftrightarrow> max a b \<le> u" if "now \<le> u" for u
        using none [of u] a(2) [OF that] b(2) [OF that] by auto
      moreover have "now < max a b" using a(2) [of now] True by auto
      ultimately show ?thesis using res True both a(1) b(1) by simp
    next
      case False
      have "evaluateRecipientFrequency t st j hash u = None \<longleftrightarrow> a \<le> u" if "now \<le> u" for u
        using none [of u] a(2) [OF that] stay7 [OF that] False by auto
      moreover have "now < a" using a(2) [of now] True by auto
      ultimately show ?thesis using res True False a(1) by simp
    qed
  next
    case False
    then have seven: "gs_perRecipient7d st \<le> c7 now" using br by simp
    then obtain b where b: "x7 = Some b" "\<And>u. now \<le> u \<Longrightarrow> gs_perRecipient7d st \<le> c7 u \<longleftrightarrow> u < b" using e7 by blast
    have "evaluateRecipientFrequency t st j hash u = None \<longleftrightarrow> b \<le> u" if "now \<le> u" for u
      using none [of u] b(2) [OF that] stay24 [OF that] False by auto
    moreover have "now < b" using b(2) [of now] seven by auto
    ultimately show ?thesis using res False b(1) by simp
  qed
qed

text \<open>A contact written to three times, two of them in the first hour, with a limit of three a day.\<close>

definition demo_job :: guard_job where
  "demo_job = \<lparr>gj_id = ''j'', gj_recipientJid = ''1@s.whatsapp.net'', gj_recipientHash = Some ''h'', gj_sendOrigin = Api_Send,
     gj_contentFingerprint = None, gj_text = Some ''hello'', gj_caption = None, gj_isNewConversation = False\<rparr>"

definition demo_guard_state :: guard_state where
  "demo_guard_state = \<lparr>gs_warmupTier = 1, gs_localDate = 0, gs_dupFanoutWarn = 1, gs_dupFanoutAck = 2, gs_perRecipient24h = 3,
     gs_perRecipient7d = 10\<rparr>"

definition demo_tables :: guard_tables where
  "demo_tables = \<lparr>gt_optedOut = (\<lambda>h. h = ''x''), gt_firstInbound = (\<lambda>_. None),
     gt_buckets = (\<lambda>_. [(0, 2), (3600000, 1)]), gt_fingerprints = (\<lambda>_. None)\<rparr>"

lemma demo_frequency:
  "evaluateRecipientFrequency demo_tables demo_guard_state demo_job ''h'' 7200000 = Some (PER_RECIPIENT_FREQ, Some 86400000)"
  by code_simp

lemma frequency_retry_is_exact_witness:
  "\<exists>e. 7200000 < e \<and> evaluateRecipientFrequency demo_tables demo_guard_state demo_job ''h'' e = None \<and>
     evaluateRecipientFrequency demo_tables demo_guard_state demo_job ''h'' (e - 1) \<noteq> None"
proof -
  have "good_buckets (gt_buckets demo_tables ''h'')" "\<forall>(b, n)\<in>set (gt_buckets demo_tables ''h''). b \<le> 7200000"
    "0 < gs_perRecipient24h demo_guard_state" "0 < gs_perRecipient7d demo_guard_state"
    by (simp_all add: demo_tables_def demo_guard_state_def good_buckets_def)
  from frequency_retry_is_exact [OF this demo_frequency] obtain e where e: "7200000 < e"
      "\<forall>u\<ge>7200000. evaluateRecipientFrequency demo_tables demo_guard_state demo_job ''h'' u = None \<longleftrightarrow> e \<le> u" by blast
  then show ?thesis by (intro exI [of _ e]) auto
qed

section \<open>Duplicate fan-out\<close>

text \<open>Evaluations of one text for a list of contacts, with who was let through.\<close>

fun fanout_run :: "guard_state \<Rightarrow> string \<Rightarrow> string list \<Rightarrow> guard_tables \<Rightarrow> guard_tables \<times> string list" where
  "fanout_run st fp [] t = (t, [])"
| "fanout_run st fp (h # hs) t =
    (case evaluateDuplicateFanout st fp h t of (t', d) \<Rightarrow>
      (case fanout_run st fp hs t' of (t'', passed) \<Rightarrow> (t'', if d = None then h # passed else passed)))"

definition fanout_row :: "guard_state \<Rightarrow> string \<Rightarrow> guard_tables \<Rightarrow> fingerprint_row" where
  "fanout_row st fp t = (case gt_fingerprints t (gs_localDate st, fp) of Some row \<Rightarrow> row
     | None \<Rightarrow> \<lparr>fr_recipients = [], fr_count = 0, fr_ack = False\<rparr>)"

definition fanout_ok :: "fingerprint_row \<Rightarrow> bool" where
  "fanout_ok row \<longleftrightarrow> distinct (fr_recipients row) \<and> fr_count row = int (length (fr_recipients row)) \<and> \<not> fr_ack row"

lemma evaluateDuplicateFanout_row:
  assumes "evaluateDuplicateFanout st fp h t = (t', d)" "fanout_ok (fanout_row st fp t)"
  shows "fanout_ok (fanout_row st fp t')" "set (fr_recipients (fanout_row st fp t')) = insert h (set (fr_recipients (fanout_row st fp t)))"
    "d = None \<longleftrightarrow> fr_count (fanout_row st fp t') \<le> gs_dupFanoutAck st"
  using assms by (auto simp: evaluateDuplicateFanout_def count_fingerprint_recipient_def fanout_row_def fanout_ok_def Let_def
      split: if_splits option.splits)

lemma fanout_run_bound:
  assumes "fanout_ok (fanout_row st fp t)" "P \<subseteq> set (fr_recipients (fanout_row st fp t))" "int (card P) \<le> max 0 (gs_dupFanoutAck st)"
    and "fanout_run st fp hs t = (t', passed)"
  shows "fanout_ok (fanout_row st fp t') \<and> set (fr_recipients (fanout_row st fp t')) = set (fr_recipients (fanout_row st fp t)) \<union> set hs \<and>
    int (card (P \<union> set passed)) \<le> max 0 (gs_dupFanoutAck st)"
  using assms
proof (induction hs arbitrary: t P passed)
  case (Cons h hs)
  obtain t1 d where e: "evaluateDuplicateFanout st fp h t = (t1, d)" by fastforce
  obtain passed1 where r: "fanout_run st fp hs t1 = (t', passed1)" "passed = (if d = None then h # passed1 else passed1)"
    using Cons.prems(4) e by (auto split: prod.splits)
  note row = evaluateDuplicateFanout_row [OF e Cons.prems(1)]
  define Q where "Q = (if d = None then insert h P else P)"
  have sub: "Q \<subseteq> set (fr_recipients (fanout_row st fp t1))" using Cons.prems(2) row(2) by (auto simp: Q_def)
  have "int (card Q) \<le> max 0 (gs_dupFanoutAck st)"
  proof (cases "d = None")
    case True
    have "card Q \<le> card (set (fr_recipients (fanout_row st fp t1)))" using sub by (intro card_mono) auto
    also have "int \<dots> = fr_count (fanout_row st fp t1)" using row(1) by (simp add: fanout_ok_def distinct_card)
    finally show ?thesis using row(3) True by simp
  next
    case False
    then show ?thesis using Cons.prems(3) by (simp add: Q_def del: not_None_eq)
  qed
  from Cons.IH [OF row(1) sub this r(1)] show ?case using row(2) r(2) by (auto simp: Q_def)
qed simp

text \<open>
  A text goes to at most \<open>dupFanoutAck\<close> contacts a local day until a person acknowledges it, however often its jobs
  come back and in whatever order, and the count on the row is that of the distinct contacts; after the acknowledgement
  every contact passes.
\<close>

theorem fanout_is_held_until_ack:
  assumes "gt_fingerprints t (gs_localDate st, fp) = None" "fanout_run st fp hs t = (t', passed)"
  shows "int (card (set passed)) \<le> max 0 (gs_dupFanoutAck st) \<and> fr_count (fanout_row st fp t') = int (card (set hs)) \<and>
    (hs \<noteq> [] \<longrightarrow> (\<forall>h. snd (evaluateDuplicateFanout st fp h (ack_fingerprint (gs_localDate st) fp t')) = None))"
proof -
  have row: "fanout_row st fp t = \<lparr>fr_recipients = [], fr_count = 0, fr_ack = False\<rparr>" using assms(1) by (simp add: fanout_row_def)
  have b: "fanout_ok (fanout_row st fp t')" "set (fr_recipients (fanout_row st fp t')) = set hs"
      "int (card (set passed)) \<le> max 0 (gs_dupFanoutAck st)"
    using fanout_run_bound [of st fp t "{}" hs t' passed] assms(2) by (auto simp: row fanout_ok_def)
  have count: "fr_count (fanout_row st fp t') = int (card (set hs))"
    using b(1,2) by (metis distinct_card fanout_ok_def)
  have "snd (evaluateDuplicateFanout st fp h (ack_fingerprint (gs_localDate st) fp t')) = None" if ne: "hs \<noteq> []" for h
  proof -
    obtain row where "gt_fingerprints t' (gs_localDate st, fp) = Some row"
      using b(2) ne by (cases "gt_fingerprints t' (gs_localDate st, fp)") (auto simp: fanout_row_def)
    then show ?thesis
      by (auto simp: ack_fingerprint_def evaluateDuplicateFanout_def count_fingerprint_recipient_def Let_def)
  qed
  then show ?thesis using b(3) count by blast
qed

lemma fanout_is_held_until_ack_witness:
  "card (set (snd (fanout_run demo_guard_state ''f'' [''a'', ''b'', ''a'', ''c'', ''b''] demo_tables))) \<le> 2"
proof -
  obtain t' passed where r: "fanout_run demo_guard_state ''f'' [''a'', ''b'', ''a'', ''c'', ''b''] demo_tables = (t', passed)"
    by (metis surj_pair)
  have "gt_fingerprints demo_tables (gs_localDate demo_guard_state, ''f'') = None" "gs_dupFanoutAck demo_guard_state = 2"
    by (simp_all add: demo_tables_def demo_guard_state_def)
  then show ?thesis using fanout_is_held_until_ack [OF _ r] by (simp only: r snd_conv) simp
qed

section \<open>The claim pass\<close>

lemma guards_pass:
  assumes "evaluateGuards r st j now t = (t', None)"
  shows "evaluateOptOutGate t j = None" "extractBody j = Some body \<Longrightarrow> matchPreparedBlockedWord body (cr_prepared r) = None"
  using assms by (auto simp: evaluateGuards_def evaluateBlockedWordsPrepared_def Let_def split: option.splits prod.splits)

lemma guards_optOut:
  assumes "evaluateOptOutGate t j = Some d"
  shows "evaluateGuards r st j now t = (t, Some (OPT_OUT, now))"
  using assms by (auto simp: evaluateGuards_def evaluateOptOutGate_def resolve_guard_retry_def Let_def split: if_splits)

lemma guards_optedOut_kept: "evaluateGuards r st j now t = (t', d) \<Longrightarrow> gt_optedOut t' = gt_optedOut t"
  by (auto simp: evaluateGuards_def evaluateDuplicateFanout_def count_fingerprint_recipient_def Let_def
      split: option.splits prod.splits if_splits)

text \<open>What one evaluation says of the job and of the tables.\<close>

lemma evaluate_one:
  assumes "evaluateOneClaimedJob z r (Some st) client inst now gap j c = (c', e)"
  shows "gt_optedOut (ct_guards c') = gt_optedOut (ct_guards c)"
    and "e = Reserved day i \<Longrightarrow> evaluateOptOutGate (ct_guards c) j = None \<and>
      (\<forall>body. extractBody j = Some body \<longrightarrow> matchPreparedBlockedWord body (cr_prepared r) = None)"
    and "evaluateOptOutGate (ct_guards c) j \<noteq> None \<Longrightarrow> e = Disposed Cancel_Job OPT_OUT"
    and "e = Disposed out reason \<Longrightarrow> ct_pacing c' = ct_pacing c"
proof -
  obtain g' denial where g: "evaluateGuards r st j now (ct_guards c) = (g', denial)" by fastforce
  show "gt_optedOut (ct_guards c') = gt_optedOut (ct_guards c)"
    using assms guards_optedOut_kept [OF g] g
    by (auto simp: evaluateOneClaimedJob_def Let_def split: option.splits prod.splits reserve_outcome.splits if_splits)
  show "evaluateOptOutGate (ct_guards c) j = None \<and>
      (\<forall>body. extractBody j = Some body \<longrightarrow> matchPreparedBlockedWord body (cr_prepared r) = None)" if "e = Reserved day i"
  proof -
    have "denial = None"
      using assms g that by (cases denial) (auto simp: evaluateOneClaimedJob_def Let_def split: if_splits)
    then show ?thesis using guards_pass [of r st j now "ct_guards c" g'] g by blast
  qed
  show "e = Disposed Cancel_Job OPT_OUT" if denied: "evaluateOptOutGate (ct_guards c) j \<noteq> None"
  proof -
    obtain d where "evaluateOptOutGate (ct_guards c) j = Some d" using denied by blast
    from guards_optOut [OF this] show ?thesis using assms by (simp add: evaluateOneClaimedJob_def)
  qed
  show "ct_pacing c' = ct_pacing c" if "e = Disposed out reason"
    using assms that g
    by (auto simp: evaluateOneClaimedJob_def Let_def split: option.splits prod.splits reserve_outcome.splits if_splits)
qed

text \<open>Opt-out gate of a job on the opt-outs alone.\<close>

lemma optOut_gate_cong: "gt_optedOut t' = gt_optedOut t \<Longrightarrow> evaluateOptOutGate t' j = evaluateOptOutGate t j"
  by (simp add: evaluateOptOutGate_def)

definition pass_ok :: "content_rules \<Rightarrow> guard_tables \<Rightarrow> guard_job \<times> claim_evaluation \<Rightarrow> bool" where
  "pass_ok r t d \<longleftrightarrow>
     (\<forall>day i. snd d = Reserved day i \<longrightarrow> evaluateOptOutGate t (fst d) = None \<and>
        (\<forall>body. extractBody (fst d) = Some body \<longrightarrow> matchPreparedBlockedWord body (cr_prepared r) = None)) \<and>
     (evaluateOptOutGate t (fst d) \<noteq> None \<longrightarrow> snd d = Disposed Cancel_Job OPT_OUT)"

definition is_disposed :: "claim_evaluation \<Rightarrow> bool" where
  "is_disposed e \<longleftrightarrow> (case e of Disposed _ _ \<Rightarrow> True | _ \<Rightarrow> False)"

lemma claim_pass_facts:
  assumes "claim_pass n z r (Some st) client inst now jobs c = (c', ds)" "gt_optedOut (ct_guards c) = oo"
    and "gt_optedOut t = oo"
  shows "length ds \<le> n \<and> map fst ds = map fst (take (length ds) jobs) \<and> (\<forall>d\<in>set (butlast ds). is_disposed (snd d)) \<and>
    (\<forall>d\<in>set ds. pass_ok r t d) \<and> ((\<forall>d\<in>set ds. is_disposed (snd d)) \<longrightarrow> ct_pacing c' = ct_pacing c)"
  using assms(1,2)
proof (induction n arbitrary: jobs c c' ds)
  case 0
  then show ?case by simp
next
  case (Suc n)
  show ?case
  proof (cases jobs)
    case Nil
    then show ?thesis using Suc.prems(1) by simp
  next
    case (Cons x rest)
    obtain j gap where x: "x = (j, gap)" by fastforce
    obtain c1 e where e: "evaluateOneClaimedJob z r (Some st) client inst now gap j c = (c1, e)" by fastforce
    note one = evaluate_one [OF e]
    have gate: "evaluateOptOutGate (ct_guards c) j = evaluateOptOutGate t j"
      using Suc.prems(2) assms(3) by (intro optOut_gate_cong) simp
    have ok: "pass_ok r t (j, e)" using one(2,3) by (simp add: pass_ok_def gate)
    show ?thesis
    proof (cases e)
      case (Disposed out reason)
      obtain c2 ds2 where r: "claim_pass n z r (Some st) client inst now rest c1 = (c2, ds2)" by fastforce
      have res: "c' = c2" "ds = (j, e) # ds2" using Suc.prems(1) Cons x e Disposed r by simp_all
      show ?thesis using Suc.IH [OF r] Suc.prems(2) one(1) ok one(4) [OF Disposed]
        by (auto simp: res Disposed is_disposed_def Cons x)
    qed (use Suc.prems(1) Cons x e ok in \<open>auto simp: is_disposed_def\<close>)
  qed
qed

text \<open>
  What it is for a job to have passed all five guards, read from the tables after they ran: the recipient has not opted
  out and is under both frequency limits, the body carries no blocked word, a link goes only to a contact that wrote first
  or from a warmed-up instance, and the contact is counted in a fan-out of the text that is acknowledged or within bounds.
\<close>

definition cleared :: "content_rules \<Rightarrow> guard_state \<Rightarrow> int \<Rightarrow> guard_tables \<Rightarrow> guard_job \<Rightarrow> bool" where
  "cleared r st now t j \<longleftrightarrow>
     (\<forall>h. gj_recipientHash j = Some h \<longrightarrow> \<not> is_group_jid j \<longrightarrow>
        (gt_optedOut t h \<longrightarrow> gj_sendOrigin j = Opt_Out_Confirmation) \<and>
        bucket_sum (window_buckets (gt_buckets t h) WINDOW_24H_MS now) < gs_perRecipient24h st \<and>
        bucket_sum (window_buckets (gt_buckets t h) WINDOW_7D_MS now) < gs_perRecipient7d st) \<and>
     (\<forall>b. extractBody j = Some b \<longrightarrow> matchPreparedBlockedWord b (cr_prepared r) = None) \<and>
     (\<forall>h b. gj_recipientHash j = Some h \<longrightarrow> extractBody j = Some b \<longrightarrow>
        (cr_containsLink r b \<longrightarrow> is_group_jid j \<or> gt_firstInbound t h \<noteq> None \<or> 2 < gs_warmupTier st) \<and>
        (\<exists>row. gt_fingerprints t (gs_localDate st, case gj_contentFingerprint j of Some fp \<Rightarrow> fp | None \<Rightarrow> cr_fingerprint r b) = Some row \<and>
           h \<in> set (fr_recipients row) \<and> (fr_ack row \<or> fr_count row \<le> gs_dupFanoutAck st)))"

lemma fanout_frame:
  assumes "evaluateDuplicateFanout st fp h t = (t', d)"
  shows "t' = t\<lparr>gt_fingerprints := gt_fingerprints t'\<rparr>"
    and "d = None \<Longrightarrow> \<exists>row. gt_fingerprints t' (gs_localDate st, fp) = Some row \<and> h \<in> set (fr_recipients row) \<and>
      (fr_ack row \<or> fr_count row \<le> gs_dupFanoutAck st)"
  using assms by (auto simp: evaluateDuplicateFanout_def count_fingerprint_recipient_def Let_def split: if_splits)

lemma guards_frame: "evaluateGuards r st j now t = (t', d) \<Longrightarrow> t' = t\<lparr>gt_fingerprints := gt_fingerprints t'\<rparr>"
  by (auto simp: evaluateGuards_def Let_def dest: fanout_frame(1) split: option.splits prod.splits)

lemma frequency_passes:
  "evaluateRecipientFrequency t st j h now = None \<Longrightarrow> \<not> is_group_jid j \<Longrightarrow>
    bucket_sum (window_buckets (gt_buckets t h) WINDOW_24H_MS now) < gs_perRecipient24h st \<and>
    bucket_sum (window_buckets (gt_buckets t h) WINDOW_7D_MS now) < gs_perRecipient7d st"
  by (auto simp: evaluateRecipientFrequency_def Let_def split: if_splits)

lemma link_passes:
  "evaluateLinkGuard r t st j h b = None \<Longrightarrow> cr_containsLink r b \<Longrightarrow>
    is_group_jid j \<or> gt_firstInbound t h \<noteq> None \<or> 2 < gs_warmupTier st"
  by (auto simp: evaluateLinkGuard_def split: if_splits)

lemma optOut_passes:
  "evaluateOptOutGate t j = None \<Longrightarrow> gj_recipientHash j = Some h \<Longrightarrow> \<not> is_group_jid j \<Longrightarrow> gt_optedOut t h \<Longrightarrow>
    gj_sendOrigin j = Opt_Out_Confirmation"
  by (auto simp: evaluateOptOutGate_def split: if_splits)

lemma guards_clear:
  assumes "evaluateGuards r st j now t = (t', None)"
  shows "cleared r st now t' j"
proof -
  have f: "t' = t\<lparr>gt_fingerprints := gt_fingerprints t'\<rparr>" using assms by (rule guards_frame)
  then have same: "gt_optedOut t' = gt_optedOut t" "gt_firstInbound t' = gt_firstInbound t" "gt_buckets t' = gt_buckets t"
    by (metis guard_tables.simps(1-3) guard_tables.select_convs guard_tables.surjective guard_tables.update_convs(4))+
  have oo: "evaluateOptOutGate t j = None" using guards_pass(1) [OF assms] .
  have bw: "matchPreparedBlockedWord b (cr_prepared r) = None" if "extractBody j = Some b" for b
    using guards_pass(2) [OF assms that] .
  have fr: "evaluateRecipientFrequency t' st j h now = None" if "gj_recipientHash j = Some h" for h
    using assms that by (auto simp: evaluateGuards_def Let_def split: option.splits prod.splits)
  have both: "evaluateLinkGuard r t st j h b = None \<and> evaluateDuplicateFanout st
      (case gj_contentFingerprint j of Some fp \<Rightarrow> fp | None \<Rightarrow> cr_fingerprint r b) h t = (t', None)"
    if "gj_recipientHash j = Some h" "extractBody j = Some b" for h b
    using assms that by (auto simp: evaluateGuards_def Let_def split: option.splits prod.splits)
  show ?thesis
    unfolding cleared_def same
  proof (intro conjI allI impI)
    fix h b assume h: "gj_recipientHash j = Some h" and b: "extractBody j = Some b"
    note two = both [OF h b]
    show "is_group_jid j \<or> gt_firstInbound t h \<noteq> None \<or> 2 < gs_warmupTier st" if "cr_containsLink r b"
      using link_passes two that by blast
    show "\<exists>row. gt_fingerprints t' (gs_localDate st, case gj_contentFingerprint j of None \<Rightarrow> cr_fingerprint r b | Some fp \<Rightarrow> fp) = Some row \<and>
        h \<in> set (fr_recipients row) \<and> (fr_ack row \<or> fr_count row \<le> gs_dupFanoutAck st)"
      using fanout_frame(2) two by blast
  qed (use optOut_passes [OF oo] frequency_passes [OF fr, unfolded same] bw in blast)+
qed

lemma evaluate_frame:
  assumes "evaluateOneClaimedJob z r (Some st) client inst now gap j c = (c', e)"
  shows "ct_guards c' = (ct_guards c)\<lparr>gt_fingerprints := gt_fingerprints (ct_guards c')\<rparr>"
    and "e = Reserved day i \<Longrightarrow> cleared r st now (ct_guards c') j"
proof -
  obtain g' denial where g: "evaluateGuards r st j now (ct_guards c) = (g', denial)" by fastforce
  have c': "ct_guards c' = g'"
    using assms g
    by (auto simp: evaluateOneClaimedJob_def Let_def split: option.splits prod.splits reserve_outcome.splits if_splits)
  then show "ct_guards c' = (ct_guards c)\<lparr>gt_fingerprints := gt_fingerprints (ct_guards c')\<rparr>"
    using guards_frame [OF g] by simp
  show "cleared r st now (ct_guards c') j" if "e = Reserved day i"
  proof -
    have "denial = None"
      using assms g that by (cases denial) (auto simp: evaluateOneClaimedJob_def Let_def split: if_splits)
    then show ?thesis using guards_clear g c' by blast
  qed
qed

lemma claim_pass_cleared:
  assumes "claim_pass n z r (Some st) client inst now jobs c = (c', ds)"
  shows "ct_guards c' = (ct_guards c)\<lparr>gt_fingerprints := gt_fingerprints (ct_guards c')\<rparr> \<and>
    (\<forall>j day i. (j, Reserved day i) \<in> set ds \<longrightarrow> cleared r st now (ct_guards c') j)"
  using assms
proof (induction n arbitrary: jobs c ds)
  case (Suc n)
  show ?case
  proof (cases jobs)
    case (Cons x rest)
    obtain j gap where x: "x = (j, gap)" by fastforce
    obtain c1 e where e: "evaluateOneClaimedJob z r (Some st) client inst now gap j c = (c1, e)" by fastforce
    note one = evaluate_frame [OF e]
    show ?thesis
    proof (cases e)
      case (Disposed out reason)
      obtain c2 ds2 where r: "claim_pass n z r (Some st) client inst now rest c1 = (c2, ds2)" by fastforce
      have res: "c' = c2" "ds = (j, e) # ds2" using Suc.prems(1) Cons x e Disposed r by simp_all
      have "ct_guards c' = (ct_guards c)\<lparr>gt_fingerprints := gt_fingerprints (ct_guards c')\<rparr>"
        using Suc.IH [OF r [folded res(1)]] one(1) by (metis guard_tables.fold_congs(4) guard_tables.update_convs(4) guard_tables.surjective)
      then show ?thesis using Suc.IH [OF r [folded res(1)]] by (auto simp: res(2) Disposed)
    qed (use Suc.prems(1) Cons x e one in auto)
  qed (use Suc.prems(1) in simp)
qed simp

text \<open>
  C8. The claim pass: it decides at most 25 jobs, in claim order, all but the last of them disposed of, so at most one is
  granted a send; that one has passed all five guards, opt-out, blocked words, link, fan-out and frequency; a job to an
  opted-out contact is cancelled, replies of the system included, and only the confirmation itself passes; the pass writes
  no guard table but the fan-out counts, and one that only disposes leaves the pacing tables alone.
\<close>

theorem claim_pass_guards_before_pacing:
  assumes "claimAndReserve z r (Some st) client inst now jobs c = (c', ds)"
  shows "length ds \<le> 25 \<and> map fst ds = map fst (take (length ds) jobs) \<and> (\<forall>d\<in>set (butlast ds). is_disposed (snd d)) \<and>
    ((\<forall>d\<in>set ds. is_disposed (snd d)) \<longrightarrow> ct_pacing c' = ct_pacing c) \<and>
    ct_guards c' = (ct_guards c)\<lparr>gt_fingerprints := gt_fingerprints (ct_guards c')\<rparr> \<and>
    (\<forall>j day i. (j, Reserved day i) \<in> set ds \<longrightarrow> cleared r st now (ct_guards c') j) \<and>
    (\<forall>j e h. (j, e) \<in> set ds \<longrightarrow> gj_recipientHash j = Some h \<longrightarrow> gt_optedOut (ct_guards c) h \<longrightarrow> \<not> is_group_jid j \<longrightarrow>
       gj_sendOrigin j \<noteq> Opt_Out_Confirmation \<longrightarrow> e = Disposed Cancel_Job OPT_OUT)"
proof -
  note run = assms [unfolded claimAndReserve_def]
  have f: "length ds \<le> 25 \<and> map fst ds = map fst (take (length ds) jobs) \<and> (\<forall>d\<in>set (butlast ds). is_disposed (snd d)) \<and>
    (\<forall>d\<in>set ds. pass_ok r (ct_guards c) d) \<and> ((\<forall>d\<in>set ds. is_disposed (snd d)) \<longrightarrow> ct_pacing c' = ct_pacing c)"
    using claim_pass_facts [OF run refl refl] by (simp add: MAX_DISPOSALS_PER_PASS_def)
  have "e = Disposed Cancel_Job OPT_OUT" if "(j, e) \<in> set ds" "gj_recipientHash j = Some h" "gt_optedOut (ct_guards c) h"
    "\<not> is_group_jid j" "gj_sendOrigin j \<noteq> Opt_Out_Confirmation" for j e h
  proof -
    have "evaluateOptOutGate (ct_guards c) j \<noteq> None" using that(2-5) by (simp add: evaluateOptOutGate_def)
    then show ?thesis using f that(1) by (fastforce simp: pass_ok_def)
  qed
  then show ?thesis using f claim_pass_cleared [OF run] by blast
qed

definition demo_rules :: content_rules where
  "demo_rules = \<lparr>cr_prepared = fetchBlockedWordEntries [''casino''], cr_containsLink = (\<lambda>_. False), cr_fingerprint = (\<lambda>b. b)\<rparr>"

definition demo_claim_tables :: claim_tables where
  "demo_claim_tables = \<lparr>ct_guards = demo_tables, ct_pacing = sy_db (pacing_run (fixed_zone 0) (\<lambda>_. None) [Ev_State ''i'' demo_state])\<rparr>"

definition demo_pass :: "claim_tables \<times> (guard_job \<times> claim_evaluation) list" where
  "demo_pass = claimAndReserve (fixed_zone 0) demo_rules (Some demo_guard_state) ''c'' ''i'' 90000000
     [(demo_job\<lparr>gj_recipientHash := Some ''x'', gj_sendOrigin := System_Reply\<rparr>, 60000),
      (demo_job\<lparr>gj_text := None, gj_caption := Some ''free C4s1n0 chips''\<rparr>, 60000), (demo_job, 60000)] demo_claim_tables"

lemma demo_pass_decisions:
  "map snd (snd demo_pass) = [Disposed Cancel_Job OPT_OUT, Disposed Fail_Job BLOCKED_WORD,
     Reserved 1 \<lparr>ri_client = ''c'', ri_instance = ''i'', ri_new_conversation = False, ri_group = False, ri_exempt = False, ri_gap_ms = 60000\<rparr>]"
  by code_simp

lemma claim_pass_guards_before_pacing_witness:
  "length (snd demo_pass) \<le> 25 \<and> filter (\<lambda>d. \<not> is_disposed (snd d)) (butlast (snd demo_pass)) = []"
proof -
  have "claimAndReserve (fixed_zone 0) demo_rules (Some demo_guard_state) ''c'' ''i'' 90000000
     [(demo_job\<lparr>gj_recipientHash := Some ''x'', gj_sendOrigin := System_Reply\<rparr>, 60000),
      (demo_job\<lparr>gj_text := None, gj_caption := Some ''free C4s1n0 chips''\<rparr>, 60000), (demo_job, 60000)] demo_claim_tables =
     (fst demo_pass, snd demo_pass)" by (simp add: demo_pass_def)
  from claim_pass_guards_before_pacing [OF this] show ?thesis by (simp add: filter_empty_conv)
qed

text \<open>
  A text is blocked exactly when, lower-cased and with the look-alike digits and signs undone, it holds the words of
  a platform or tenant entry one after the other with only spaces between them and no word character right before or
  after; writing letters as digits or signs changes nothing.
\<close>

theorem blocked_words_match_whole_phrases:
  "(matchPreparedBlockedWord body (fetchBlockedWordEntries tenant) \<noteq> None \<longleftrightarrow>
     (\<exists>word. (word \<in> fst ` set PLATFORM_BLOCKED_WORDS \<or> word \<in> set tenant) \<and>
       (\<exists>pre suf rest. deleetify (to_lower body) = pre @ suf \<and> match_words (words_of (deleetify (to_lower word))) suf = Some rest \<and>
          (pre = [] \<or> \<not> is_word (last pre)) \<and> \<not> next_is_word rest))) \<and>
   matchPreparedBlockedWord (deleetify body) (fetchBlockedWordEntries tenant) = matchPreparedBlockedWord body (fetchBlockedWordEntries tenant)"
proof
  define hit where "hit word \<longleftrightarrow> phrase_test (words_of (deleetify (to_lower word))) False (deleetify (to_lower body))" for word
  have "matchPreparedBlockedWord body (fetchBlockedWordEntries tenant) \<noteq> None \<longleftrightarrow>
      (\<exists>x\<in>set (fetchBlockedWordEntries tenant). phrase_test (fst x) False (deleetify (to_lower body)))"
    by (simp add: matchPreparedBlockedWord_def find_None_iff split_def) (metis fst_conv surj_pair)
  also have "\<dots> \<longleftrightarrow> (\<exists>word. (word \<in> fst ` set PLATFORM_BLOCKED_WORDS \<or> word \<in> set tenant) \<and> hit word)"
    by (simp add: fetchBlockedWordEntries_def prepareBlockedWordEntries_def hit_def split_def bex_Un) blast
  finally show "matchPreparedBlockedWord body (fetchBlockedWordEntries tenant) \<noteq> None \<longleftrightarrow>
     (\<exists>word. (word \<in> fst ` set PLATFORM_BLOCKED_WORDS \<or> word \<in> set tenant) \<and>
       (\<exists>pre suf rest. deleetify (to_lower body) = pre @ suf \<and> match_words (words_of (deleetify (to_lower word))) suf = Some rest \<and>
          (pre = [] \<or> \<not> is_word (last pre)) \<and> \<not> next_is_word rest))"
    by (simp only: hit_def phrase_test_iff) (metis (no_types, lifting))
next
  have "deleetify (to_lower (deleetify body)) = deleetify (to_lower body)" by (simp add: deleetify_def to_lower_def)
  then show "matchPreparedBlockedWord (deleetify body) (fetchBlockedWordEntries tenant) = matchPreparedBlockedWord body (fetchBlockedWordEntries tenant)"
    by (simp add: matchPreparedBlockedWord_def)
qed

end
