(* ===== verification/Health.thy ===== *)
theory Health
  imports Instances Pacing_Config
begin

text \<open>
  Instance health, \<open>modules/pacing/health\<close>: the twelve signals and the score (\<open>signals\<close>, \<open>score.ts\<close>), the band decision
  (\<open>bands.ts\<close>), the evaluation cadence (\<open>eval-tier-ladder.ts\<close>, \<open>dirty-set.ts\<close>), one evaluator tick
  (\<open>HealthEvaluator.ts\<close>, \<open>apply-band.ts\<close>), the pause it writes (\<open>hard-signal-pause.ts\<close>), the fast lanes
  (\<open>fast-lane.ts\<close>), the staff pause and the resume by a human (\<open>staff-pause.ts\<close>, \<open>human-resume.ts\<close>,
  \<open>transitions.ts\<close>, \<open>modules/instances/resume.ts\<close>). The counts of \<open>health-signal-windows.sql\<close> are an argument of a
  tick. The database clock and the injected one are the same \<open>now\<close>. Samples, audit rows, notifications, outbox events and
  metrics are left out.
\<close>

section \<open>Signals (signals/registry.ts, types.ts, ratio-evidence.ts)\<close>

record window_row =
  disconnect_count_6h :: int
  reconnect_churn_count_6h :: int
  last_hard_signal_audit_at :: "int option"
  attempted_1h :: int
  transient_failed_1h :: int
  attempted_24h :: int
  rejected_failed_24h :: int
  invalid_jid_failed_24h :: int
  eligible_sent_24h :: int
  delivered_24h :: int
  read_24h :: int
  sent_24h :: int
  opt_outs_24h :: int
  new_convs_72h :: int
  cold_sent_24h :: int

text \<open>Collected evidence is numerator, denominator and value; \<open>None\<close> is \<open>'unmeasured'\<close>.\<close>

type_synonym collected = "(int \<times> int \<times> real) option"

definition piecewiseLinearSeverity :: "real \<Rightarrow> real \<Rightarrow> real \<Rightarrow> real" where
  "piecewiseLinearSeverity value good bad =
    (if good = bad then (if value = good then 0 else 1)
     else (let fraction = (value - good) / (bad - good) in
       if fraction \<le> 0 then 0 else if fraction \<ge> 1 then 1 else fraction))"

definition ratioEvidence :: "int \<Rightarrow> int \<Rightarrow> int \<Rightarrow> collected" where
  "ratioEvidence numerator denominator minEvidence =
    (if denominator \<le> 0 \<or> denominator < minEvidence then None
     else Some (numerator, denominator, of_int numerator / of_int denominator))"

definition perThousandEvidence :: "int \<Rightarrow> int \<Rightarrow> int \<Rightarrow> collected" where
  "perThousandEvidence numerator sentCount minEvidence =
    (if sentCount \<le> 0 \<or> sentCount < minEvidence then None
     else Some (numerator, sentCount, (of_int numerator / of_int sentCount) * 1000))"

definition HARD_SIGNAL_WINDOW_MS :: int where "HARD_SIGNAL_WINDOW_MS = 24 * 60 * 60 * 1000"

definition collect_hard_restriction :: "window_row \<Rightarrow> int \<Rightarrow> collected" where
  "collect_hard_restriction row now =
    (let value = (case last_hard_signal_audit_at row of
        None \<Rightarrow> 0 | Some t \<Rightarrow> if now - t \<le> HARD_SIGNAL_WINDOW_MS then 1 else 0) in Some (value, 1, of_int value))"

record signal =
  sg_key :: string
  sg_weight :: real
  sg_scored :: bool
  sg_collect :: "window_row \<Rightarrow> int \<Rightarrow> collected"
  sg_severity :: "real \<Rightarrow> real"

definition count_evidence :: "int \<Rightarrow> collected" where
  "count_evidence value = Some (value, 1, of_int value)"

definition hardRestrictionSignal :: signal where
  "hardRestrictionSignal = \<lparr>sg_key = ''hard_restriction'', sg_weight = 0, sg_scored = True,
     sg_collect = collect_hard_restriction, sg_severity = (\<lambda>v. if v \<ge> 1 then 1 else 0)\<rparr>"

definition disconnectFrequencySignal :: signal where
  "disconnectFrequencySignal = \<lparr>sg_key = ''disconnect_frequency'', sg_weight = 15, sg_scored = False,
     sg_collect = (\<lambda>row _. count_evidence (disconnect_count_6h row)), sg_severity = (\<lambda>v. piecewiseLinearSeverity v 1 8)\<rparr>"

definition reconnectChurnSignal :: signal where
  "reconnectChurnSignal = \<lparr>sg_key = ''reconnect_churn'', sg_weight = 5, sg_scored = False,
     sg_collect = (\<lambda>row _. count_evidence (reconnect_churn_count_6h row)), sg_severity = (\<lambda>v. piecewiseLinearSeverity v 2 12)\<rparr>"

definition transientFailureRateSignal :: signal where
  "transientFailureRateSignal = \<lparr>sg_key = ''transient_failure_rate'', sg_weight = 8, sg_scored = False,
     sg_collect = (\<lambda>row _. ratioEvidence (transient_failed_1h row) (attempted_1h row) 20), sg_severity = (\<lambda>v. piecewiseLinearSeverity v (2/100) (25/100))\<rparr>"

definition rejectedSendRateSignal :: signal where
  "rejectedSendRateSignal = \<lparr>sg_key = ''rejected_send_rate'', sg_weight = 12, sg_scored = True,
     sg_collect = (\<lambda>row _. ratioEvidence (rejected_failed_24h row) (attempted_24h row) 20), sg_severity = (\<lambda>v. piecewiseLinearSeverity v 0 (5/100))\<rparr>"

definition deliveryRatioSignal :: signal where
  "deliveryRatioSignal = \<lparr>sg_key = ''delivery_ratio'', sg_weight = 20, sg_scored = True,
     sg_collect = (\<lambda>row _. ratioEvidence (delivered_24h row) (eligible_sent_24h row) 30), sg_severity = (\<lambda>v. piecewiseLinearSeverity v (9/10) (5/10))\<rparr>"

definition readRatioSignal :: signal where
  "readRatioSignal = \<lparr>sg_key = ''read_ratio'', sg_weight = 5, sg_scored = False,
     sg_collect = (\<lambda>row _. ratioEvidence (read_24h row) (delivered_24h row) 50), sg_severity = (\<lambda>v. piecewiseLinearSeverity v (4/10) (5/100))\<rparr>"

definition invalidJidRateSignal :: signal where
  "invalidJidRateSignal = \<lparr>sg_key = ''invalid_jid_rate'', sg_weight = 10, sg_scored = False,
     sg_collect = (\<lambda>row _. ratioEvidence (invalid_jid_failed_24h row) (attempted_24h row) 30), sg_severity = (\<lambda>v. piecewiseLinearSeverity v (1/100) (1/10))\<rparr>"

definition recipientBlockIndicatorSignal :: signal where
  "recipientBlockIndicatorSignal = \<lparr>sg_key = ''recipient_block_indicator'', sg_weight = 10, sg_scored = False,
     sg_collect = (\<lambda>_ _. None), sg_severity = (\<lambda>v. piecewiseLinearSeverity v 1 15)\<rparr>"

definition optOutRateSignal :: signal where
  "optOutRateSignal = \<lparr>sg_key = ''opt_out_rate'', sg_weight = 15, sg_scored = False,
     sg_collect = (\<lambda>row _. perThousandEvidence (opt_outs_24h row) (sent_24h row) 100), sg_severity = (\<lambda>v. piecewiseLinearSeverity v 2 20)\<rparr>"

definition replyRateSignal :: signal where
  "replyRateSignal = \<lparr>sg_key = ''reply_rate'', sg_weight = 10, sg_scored = False,
     sg_collect = (\<lambda>_ _. None), sg_severity = (\<lambda>v. piecewiseLinearSeverity v (8/100) (5/1000))\<rparr>"

definition coldOutreachRatioSignal :: signal where
  "coldOutreachRatioSignal = \<lparr>sg_key = ''cold_outreach_ratio'', sg_weight = 10, sg_scored = False,
     sg_collect = (\<lambda>row _. ratioEvidence (cold_sent_24h row) (sent_24h row) 50), sg_severity = (\<lambda>v. piecewiseLinearSeverity v (4/10) (9/10))\<rparr>"

definition HEALTH_SIGNALS :: "signal list" where
  "HEALTH_SIGNALS =
    [hardRestrictionSignal, disconnectFrequencySignal, reconnectChurnSignal,
     transientFailureRateSignal, rejectedSendRateSignal, deliveryRatioSignal,
     readRatioSignal, invalidJidRateSignal, recipientBlockIndicatorSignal,
     optOutRateSignal, replyRateSignal, coldOutreachRatioSignal]"

lemmas registry =
  HEALTH_SIGNALS_def hardRestrictionSignal_def disconnectFrequencySignal_def reconnectChurnSignal_def transientFailureRateSignal_def
  rejectedSendRateSignal_def deliveryRatioSignal_def readRatioSignal_def invalidJidRateSignal_def
  recipientBlockIndicatorSignal_def optOutRateSignal_def replyRateSignal_def coldOutreachRatioSignal_def

definition WEIGHT_SUM :: real where
  "WEIGHT_SUM = sum_list (map sg_weight (filter (\<lambda>s. sg_key s \<noteq> ''hard_restriction'') HEALTH_SIGNALS))"

section \<open>Score (score.ts)\<close>

record signal_evidence =
  se_numerator :: "int option"
  se_denominator :: "int option"
  se_value :: "real option"
  se_severity :: "real option"
  se_weightApplied :: real
  se_unmeasured :: bool

type_synonym score_evidence = "string \<rightharpoonup> signal_evidence"

definition EWMA_ALPHA :: real where "EWMA_ALPHA = 3/10"

definition clampScore :: "real \<Rightarrow> real" where
  "clampScore value = min 100 (max 0 value)"

definition smoothSeverity :: "real \<Rightarrow> real option \<Rightarrow> real" where
  "smoothSeverity fresh prior = (case prior of None \<Rightarrow> fresh | Some p \<Rightarrow> EWMA_ALPHA * fresh + (1 - EWMA_ALPHA) * p)"

definition unmeasured_evidence :: signal_evidence where
  "unmeasured_evidence = \<lparr>se_numerator = None, se_denominator = None, se_value = None, se_severity = None,
     se_weightApplied = 0, se_unmeasured = True\<rparr>"

text \<open>\<open>priorEvidence[key]?.severity ?? undefined\<close>\<close>

definition prior_severity :: "score_evidence \<Rightarrow> string \<Rightarrow> real option" where
  "prior_severity prior key = (case prior key of None \<Rightarrow> None | Some e \<Rightarrow> se_severity e)"

text \<open>One signal: its evidence, its penalty and whether it overrides the score.\<close>

definition score_signal :: "window_row \<Rightarrow> int \<Rightarrow> score_evidence \<Rightarrow> signal \<Rightarrow> signal_evidence \<times> real \<times> bool" where
  "score_signal row now prior sg =
    (case sg_collect sg row now of
       None \<Rightarrow> (unmeasured_evidence, 0, False)
     | Some (n, d, v) \<Rightarrow>
        (let freshSeverity = sg_severity sg v;
             hard = (sg_key sg = ''hard_restriction'');
             recorded = (if hard then freshSeverity else smoothSeverity freshSeverity (prior_severity prior (sg_key sg)));
             weightApplied = (if sg_scored sg then sg_weight sg else 0) in
         (\<lparr>se_numerator = Some n, se_denominator = Some d, se_value = Some v, se_severity = Some recorded,
           se_weightApplied = weightApplied, se_unmeasured = False\<rparr>,
          if sg_scored sg \<and> \<not> hard then weightApplied * recorded else 0,
          sg_scored sg \<and> hard \<and> freshSeverity \<ge> 1)))"

definition computeHealthScore :: "window_row \<Rightarrow> int \<Rightarrow> score_evidence \<Rightarrow> real \<times> score_evidence" where
  "computeHealthScore row now prior =
    (let rs = map (\<lambda>sg. (sg_key sg, score_signal row now prior sg)) HEALTH_SIGNALS;
         penaltySum = sum_list (map (\<lambda>(k, e, p, h). p) rs);
         active = (\<exists>r\<in>set rs. snd (snd (snd r))) in
     (if active then 0 else clampScore (100 - penaltySum), map_of (map (\<lambda>(k, e, p, h). (k, e)) rs)))"

section \<open>Band decision (bands.ts)\<close>

record band_change =
  bc_at :: int
  bc_from :: health_band
  bc_to :: health_band

record decide_band_input =
  currentBand :: health_band
  db_score :: real
  db_now :: int
  bandSinceMs :: int
  lastHardSignalAtMs :: "int option"
  recentBandChanges :: "band_change list"

datatype band_direction = Tighten | Loosen | No_direction

record decide_band_result =
  dr_band :: health_band
  dr_changed :: bool
  dr_direction :: band_direction
  suppressedByFlap :: bool
  dr_reason :: string

definition bandForScore :: "real \<Rightarrow> health_band" where
  "bandForScore score = (if score \<ge> 70 then Healthy else if score \<ge> 55 then Watch
     else if score \<ge> 35 then health_band.Degraded else Critical)"

definition HYSTERESIS_MARGIN :: real where "HYSTERESIS_MARGIN = 8"
definition HARD_SIGNAL_LOOKBACK_MS :: int where "HARD_SIGNAL_LOOKBACK_MS = 24 * 60 * 60 * 1000"
definition ONE_HOUR_MS :: int where "ONE_HOUR_MS = 60 * 60 * 1000"
definition SIX_HOURS_MS :: int where "SIX_HOURS_MS = 6 * 60 * 60 * 1000"
definition TWENTY_FOUR_HOURS_MS :: int where "TWENTY_FOUR_HOURS_MS = 24 * 60 * 60 * 1000"

fun DWELL_MS :: "health_band \<Rightarrow> int option" where
  "DWELL_MS Healthy = Some (2 * 60 * 60 * 1000)"
| "DWELL_MS Watch = Some (6 * 60 * 60 * 1000)"
| "DWELL_MS health_band.Degraded = None"
| "DWELL_MS Critical = None"

fun entryScoreFor :: "health_band \<Rightarrow> real" where
  "entryScoreFor Healthy = 70"
| "entryScoreFor Watch = 55"
| "entryScoreFor health_band.Degraded = 35"
| "entryScoreFor Critical = 0"

definition countImprovementsSince :: "band_change list \<Rightarrow> int \<Rightarrow> int \<Rightarrow> nat" where
  "countImprovementsSince cs nowMs windowMs = length (filter (\<lambda>c. nowMs - bc_at c \<le> windowMs \<and> bc_to c > bc_from c) cs)"

definition countChangesSince :: "band_change list \<Rightarrow> int \<Rightarrow> int \<Rightarrow> nat" where
  "countChangesSince cs nowMs windowMs = length (filter (\<lambda>c. nowMs - bc_at c \<le> windowMs) cs)"

definition hasHardSignalWithin24h :: "int option \<Rightarrow> int \<Rightarrow> bool" where
  "hasHardSignalWithin24h t nowMs \<longleftrightarrow> (case t of None \<Rightarrow> False | Some s \<Rightarrow> nowMs - s \<le> HARD_SIGNAL_LOOKBACK_MS)"

definition loosingAllowed :: "decide_band_input \<Rightarrow> health_band \<Rightarrow> bool" where
  "loosingAllowed i targetBand \<longleftrightarrow>
     \<not> db_score i < entryScoreFor targetBand + HYSTERESIS_MARGIN \<and>
     \<not> db_now i - bandSinceMs i < (case DWELL_MS targetBand of None \<Rightarrow> 0 | Some d \<Rightarrow> d) \<and>
     \<not> hasHardSignalWithin24h (lastHardSignalAtMs i) (db_now i) \<and>
     \<not> countImprovementsSince (recentBandChanges i) (db_now i) SIX_HOURS_MS \<ge> 1 \<and>
     \<not> countImprovementsSince (recentBandChanges i) (db_now i) TWENTY_FOUR_HOURS_MS \<ge> 2"

definition decideBand :: "decide_band_input \<Rightarrow> decide_band_result" where
  "decideBand i =
    (let target = bandForScore (db_score i); keep = \<lparr>dr_band = currentBand i, dr_changed = False,
           dr_direction = No_direction, suppressedByFlap = False, dr_reason = ''no_crossing''\<rparr> in
     if target = currentBand i then keep
     else if target < currentBand i
     then \<lparr>dr_band = target, dr_changed = True, dr_direction = Tighten, suppressedByFlap = False, dr_reason = ''threshold_crossed_down''\<rparr>
     else if countChangesSince (recentBandChanges i) (db_now i) ONE_HOUR_MS \<ge> 2
     then keep\<lparr>suppressedByFlap := True, dr_reason := ''flap_lock_1h''\<rparr>
     else if \<not> loosingAllowed i target then keep\<lparr>dr_reason := ''loosening_gate_not_satisfied''\<rparr>
     else \<lparr>dr_band = target, dr_changed = True, dr_direction = Loosen, suppressedByFlap = False, dr_reason = ''hysteresis_dwell_satisfied''\<rparr>)"


section \<open>Cadence (eval-tier-ladder.ts)\<close>

definition FIFTEEN_MIN_MS :: int where "FIFTEEN_MIN_MS = 15 * 60 * 1000"

definition EVAL_TIER_DELAYS_MS :: "nat \<Rightarrow> int" where
  "EVAL_TIER_DELAYS_MS tier = (if tier = 1 then 60 * 1000 else if tier = 2 then 5 * 60 * 1000 else 30 * 60 * 1000)"

text \<open>\<open>parked\<close> is not a health state of the table, so the third member of the set never occurs.\<close>

definition resolveTier :: "int \<Rightarrow> wa_health \<Rightarrow> bool \<Rightarrow> int option \<Rightarrow> int option \<Rightarrow> nat" where
  "resolveTier nowMs hs bandChanged bandChangedAtMs lastSendOutcomeAtMs =
    (if hs = Paused \<or> hs = Logged_out then 3
     else if (case lastSendOutcomeAtMs of None \<Rightarrow> False | Some t \<Rightarrow> nowMs - t \<le> FIFTEEN_MIN_MS) \<or> bandChanged \<or>
         (case bandChangedAtMs of None \<Rightarrow> False | Some t \<Rightarrow> nowMs - t \<le> ONE_HOUR_MS) then 1
     else 2)"

definition decideEvalTier :: "int \<Rightarrow> wa_health \<Rightarrow> bool \<Rightarrow> int option \<Rightarrow> int option \<Rightarrow> nat \<times> int" where
  "decideEvalTier nowMs hs bandChanged bandChangedAtMs lastSendOutcomeAtMs =
    (let tier = resolveTier nowMs hs bandChanged bandChangedAtMs lastSendOutcomeAtMs in (tier, nowMs + EVAL_TIER_DELAYS_MS tier))"

section \<open>State\<close>

datatype pacing_ev =
    Band_Change band_change
  | Band_Change_Suppressed int health_band
  | Hard_Signal_Pause int pause_reason

text \<open>
  The health columns of \<open>instance_pacing_state\<close> beside the limits, the row of \<open>whatsapp_instances\<close>, and the events of
  the instance in the order of their insertion.
\<close>

record health_sys =
  h_cfg :: config_row
  h_inst :: instance_row
  h_band_since :: "int option"
  h_last_hard_signal_at :: "int option"
  h_last_band_improved_at :: "int option"
  h_score :: real
  h_evidence :: score_evidence
  h_eval_due_at :: int
  h_eval_tier :: nat
  h_events :: "pacing_ev list"

abbreviation h_band :: "health_sys \<Rightarrow> health_band" where "h_band s \<equiv> cf_health_band (h_cfg s)"
abbreviation h_state :: "health_sys \<Rightarrow> wa_health" where "h_state s \<equiv> ir_health (h_inst s)"

text \<open>Every write of the instance row also settles what the relax route reads of it.\<close>

definition set_inst :: "instance_row \<Rightarrow> health_sys \<Rightarrow> health_sys" where
  "set_inst r s = s\<lparr>h_inst := r, h_cfg := (h_cfg s)\<lparr>cf_provider_restricted := (ir_pauseReason r = Some PR_provider_restriction)\<rparr>\<rparr>"

definition readRecentBandChanges :: "health_sys \<Rightarrow> int \<Rightarrow> band_change list" where
  "readRecentBandChanges s sinceMs =
    List.map_filter (\<lambda>e. case e of Band_Change c \<Rightarrow> if bc_at c > sinceMs then Some c else None | _ \<Rightarrow> None) (h_events s)"

section \<open>Pauses and the resume (hard-signal-pause.ts, staff-pause.ts, human-resume.ts, instances/resume.ts)\<close>

definition applyHardSignalPause :: "pause_reason \<Rightarrow> int \<Rightarrow> health_sys \<Rightarrow> health_sys \<times> bool" where
  "applyHardSignalPause reason now s =
    (let r = h_inst s; s1 = s\<lparr>h_last_hard_signal_at := Some now\<rparr> in
     if ir_deletedAt r = None \<and> (ir_health r \<noteq> Paused \<or> ir_pauseReason r \<noteq> Some reason)
     then (set_inst (r\<lparr>ir_health := Paused, ir_pauseReason := Some reason, ir_pausedAt := Some now, ir_needsUserAction := True,
         ir_reason := Some RESTRICTION_SIGNAL\<rparr>) (s1\<lparr>h_events := h_events s @ [Hard_Signal_Pause now reason]\<rparr>), True)
     else (s1, False))"

definition staffPause :: "int \<Rightarrow> health_sys \<Rightarrow> health_sys \<times> bool" where
  "staffPause now s =
    (let r = h_inst s in
     if ir_deletedAt r = None \<and> (ir_health r = Connected \<or> ir_health r = wa_health.Degraded)
     then (set_inst (r\<lparr>ir_health := Paused, ir_pauseReason := Some PR_admin_action, ir_pausedAt := Some now,
         ir_needsUserAction := False, ir_reason := None\<rparr>) s, True)
     else (s, False))"

datatype actor = System_Actor | Api_Key_Actor string | User string | Staff_User string

text \<open>\<open>exitPaused\<close>: the one transition out of \<open>paused\<close>, for a human actor only.\<close>

definition exitPaused :: "wa_health \<Rightarrow> actor \<Rightarrow> (string, wa_health \<times> wa_health \<times> actor) result" where
  "exitPaused to a = (case a of
      System_Actor \<Rightarrow> Err ''requires a UserActor''
    | Api_Key_Actor _ \<Rightarrow> Err ''requires a UserActor''
    | _ \<Rightarrow> Ok (Paused, to, a))"

definition humanResume :: "health_sys \<Rightarrow> health_sys \<times> bool" where
  "humanResume s =
    (let r = h_inst s in
     if ir_deletedAt r = None \<and> ir_health r = Paused
     then (set_inst (r\<lparr>ir_health := wa_health.Degraded, ir_pauseReason := None, ir_needsUserAction := False, ir_reason := None\<rparr>) s, True)
     else (s, False))"

datatype resume_error = RESUME_REQUIRES_USER | Instance_Not_Found | INVALID_STATE | ACKNOWLEDGEMENT_REQUIRED

text \<open>
  The tenant route reads the row without a lock before \<open>humanResume\<close> writes it, so the row read is an argument of its own;
  the staff route locks the row, so what it reads is what it writes.
\<close>

definition resumeInstance :: "actor \<Rightarrow> bool option \<Rightarrow> instance_row \<Rightarrow> health_sys \<Rightarrow> (resume_error, health_sys) result" where
  "resumeInstance a acknowledgement read s =
    (case a of
       User _ \<Rightarrow>
         if ir_deletedAt read \<noteq> None then Err Instance_Not_Found
         else if ir_health read \<noteq> Paused then Err INVALID_STATE
         else if ir_pauseReason read = Some PR_provider_restriction \<and> acknowledgement \<noteq> Some True then Err ACKNOWLEDGEMENT_REQUIRED
         else Ok (fst (humanResume s))
     | _ \<Rightarrow> Err RESUME_REQUIRES_USER)"

definition staffResume :: "bool option \<Rightarrow> health_sys \<Rightarrow> (resume_error, health_sys) result" where
  "staffResume acknowledgement s =
    (let current = h_inst s in
     if ir_deletedAt current \<noteq> None then Err Instance_Not_Found
     else if ir_health current \<noteq> Paused then Err INVALID_STATE
     else if ir_pauseReason current = Some PR_provider_restriction \<and> acknowledgement \<noteq> Some True then Err ACKNOWLEDGEMENT_REQUIRED
     else Ok (fst (humanResume s)))"

section \<open>One evaluator tick (HealthEvaluator.ts, apply-band.ts)\<close>

text \<open>\<open>applyBandChange\<close> over the health columns: the limits, the band and its time, and the \<open>BAND_CHANGE\<close> event.\<close>

definition applyBandChangeTo :: "health_band \<Rightarrow> health_band \<Rightarrow> int \<Rightarrow> health_sys \<Rightarrow> (update_error, health_sys) result" where
  "applyBandChangeTo from_band to_band now s =
    bindR (applyBandChange (cf_warmup_tier (h_cfg s)) to_band now (h_cfg s)) (\<lambda>cfg.
      Ok (s\<lparr>h_cfg := cfg, h_band_since := (if to_band \<noteq> h_band s then Some now else h_band_since s),
        h_events := h_events s @ [Band_Change \<lparr>bc_at = now, bc_from = from_band, bc_to = to_band\<rparr>]\<rparr>))"

definition writeBookkeeping :: "real \<Rightarrow> health_band \<Rightarrow> bool \<Rightarrow> bool \<Rightarrow> score_evidence \<Rightarrow> int \<Rightarrow> wa_health \<Rightarrow> int option \<Rightarrow>
    health_sys \<Rightarrow> health_sys" where
  "writeBookkeeping score band bandChanged bandLoosened ev nowMs hs bandChangedAtMs s =
    (let (tier, due) = decideEvalTier nowMs hs bandChanged bandChangedAtMs None in
     s\<lparr>h_evidence := ev, h_score := score, h_cfg := (h_cfg s)\<lparr>cf_health_band := band\<rparr>,
       h_band_since := (if bandChanged then Some nowMs else h_band_since s),
       h_last_band_improved_at := (if bandLoosened then Some nowMs else h_last_band_improved_at s),
       h_eval_due_at := due, h_eval_tier := tier\<rparr>)"

definition tick_input :: "window_row \<Rightarrow> int \<Rightarrow> health_sys \<Rightarrow> decide_band_input" where
  "tick_input row now s =
     \<lparr>currentBand = h_band s, db_score = fst (computeHealthScore row now (h_evidence s)), db_now = now,
      bandSinceMs = (case h_band_since s of None \<Rightarrow> now | Some t \<Rightarrow> t), lastHardSignalAtMs = h_last_hard_signal_at s,
      recentBandChanges = readRecentBandChanges s (now - TWENTY_FOUR_HOURS_MS)\<rparr>"

definition tick_decision :: "window_row \<Rightarrow> int \<Rightarrow> health_sys \<Rightarrow> decide_band_result" where
  "tick_decision row now s = decideBand (tick_input row now s)"

definition evaluate :: "window_row \<Rightarrow> int \<Rightarrow> health_sys \<Rightarrow> (update_error, health_sys) result" where
  "evaluate row now s =
    (let (score, ev) = computeHealthScore row now (h_evidence s);
         recent = readRecentBandChanges s (now - TWENTY_FOUR_HOURS_MS);
         d = tick_decision row now s;
         changedAt = (if recent = [] then None else Some (bc_at (last recent)));
         hs = h_state s in
     if hs = Paused
     then Ok (writeBookkeeping score (h_band s) False False ev now hs changedAt s)
     else (let s1 = (if suppressedByFlap d then s\<lparr>h_events := h_events s @ [Band_Change_Suppressed now (h_band s)]\<rparr> else s) in
       bindR (if dr_changed d \<and> dr_band d = Critical then Ok (fst (applyHardSignalPause PR_health_critical now s1))
              else if dr_changed d then applyBandChangeTo (h_band s) (dr_band d) now s1
              else Ok s1)
         (\<lambda>s2. Ok (writeBookkeeping score (dr_band d) (dr_changed d) (dr_changed d \<and> dr_direction d = Loosen) ev now hs changedAt s2))))"

section \<open>Fast lanes (fast-lane.ts, dirty-set.ts)\<close>

definition markDirty :: "int \<Rightarrow> health_sys \<Rightarrow> health_sys" where
  "markDirty now s = s\<lparr>h_eval_due_at := now, h_eval_tier := 1\<rparr>"

definition onSendOutcome :: "string \<Rightarrow> int \<Rightarrow> health_sys \<Rightarrow> (update_error, health_sys \<times> bool) result" where
  "onSendOutcome errorClass now s =
    (let s1 = markDirty now s in
     if errorClass \<noteq> ''rate_limited'' then Ok (s1, False)
     else if h_band s1 \<le> Watch then Ok (s1, False)
     else bindR (applyBandChangeTo (h_band s1) Watch now s1) (\<lambda>s2. Ok (s2, True)))"

definition HARD_RESTRICTION_CODES :: "int set" where
  "HARD_RESTRICTION_CODES = {402, 403, 406}"

definition onConnectionUpdate :: "int \<Rightarrow> int \<Rightarrow> health_sys \<Rightarrow> health_sys \<times> bool" where
  "onConnectionUpdate disconnectCode now s =
    (let s1 = markDirty now s in
     if disconnectCode \<notin> HARD_RESTRICTION_CODES then (s1, False)
     else applyHardSignalPause PR_provider_restriction now s1)"


section \<open>The score\<close>

definition sound_evidence :: "score_evidence \<Rightarrow> bool" where
  "sound_evidence ev \<longleftrightarrow> (\<forall>e\<in>ran ev. \<forall>v. se_severity e = Some v \<longrightarrow> 0 \<le> v \<and> v \<le> 1)"

lemma piecewise_bounds [simp]: "0 \<le> piecewiseLinearSeverity v g b" "piecewiseLinearSeverity v g b \<le> 1"
  by (auto simp: piecewiseLinearSeverity_def Let_def)

lemma severity_bounds: "\<forall>sg\<in>set HEALTH_SIGNALS. \<forall>v. 0 \<le> sg_severity sg v \<and> sg_severity sg v \<le> 1"
  by (simp add: registry)

lemma hard_signal_only: "\<forall>sg\<in>set HEALTH_SIGNALS. sg_key sg = ''hard_restriction'' \<longrightarrow>
    sg_collect sg = collect_hard_restriction \<and> sg_severity sg = (\<lambda>v. if v \<ge> 1 then 1 else 0) \<and> sg_scored sg"
  by (simp add: registry)

text \<open>The weight a signal can add to the penalty.\<close>

definition penalty_weight :: "signal \<Rightarrow> real" where
  "penalty_weight sg = (if sg_scored sg \<and> sg_key sg \<noteq> ''hard_restriction'' then sg_weight sg else 0)"

lemma penalty_weights: "sum_list (map penalty_weight HEALTH_SIGNALS) = 32"
  "\<forall>sg\<in>set HEALTH_SIGNALS. 0 \<le> penalty_weight sg"
  by (simp_all add: registry penalty_weight_def)

lemma weight_sum: "WEIGHT_SUM = 120"
  by (simp add: WEIGHT_SUM_def registry)

lemma smooth_bounds:
  assumes "0 \<le> f" "f \<le> 1" "\<And>p. prior = Some p \<Longrightarrow> 0 \<le> p \<and> p \<le> 1"
  shows "0 \<le> smoothSeverity f prior \<and> smoothSeverity f prior \<le> 1"
proof (cases prior)
  case None
  then show ?thesis using assms by (simp add: smoothSeverity_def)
next
  case (Some p)
  then have "0 \<le> p" "p \<le> 1" using assms(3) by auto
  moreover have "3 * f + 7 * p \<le> 10" using calculation assms by linarith
  ultimately show ?thesis using Some assms(1,2) by (simp add: smoothSeverity_def EWMA_ALPHA_def field_simps)
qed

lemma prior_bounds: "sound_evidence ev \<Longrightarrow> prior_severity ev k = Some p \<Longrightarrow> 0 \<le> p \<and> p \<le> 1"
  by (auto simp: sound_evidence_def prior_severity_def ran_def split: option.splits)

lemma score_signal_bounds:
  assumes "sg \<in> set HEALTH_SIGNALS" "sound_evidence prior" "score_signal row now prior sg = (e, p, h)"
  shows "0 \<le> p \<and> p \<le> penalty_weight sg \<and> (\<forall>v. se_severity e = Some v \<longrightarrow> 0 \<le> v \<and> v \<le> 1)"
proof (cases "sg_collect sg row now")
  case None
  then show ?thesis using assms penalty_weights(2) by (auto simp: score_signal_def unmeasured_evidence_def)
next
  case (Some t)
  obtain n d v where t: "t = (n, d, v)" by (cases t)
  have f: "0 \<le> sg_severity sg v" "sg_severity sg v \<le> 1" using severity_bounds assms(1) by auto
  let ?s = "smoothSeverity (sg_severity sg v) (prior_severity prior (sg_key sg))"
  have s: "0 \<le> ?s \<and> ?s \<le> 1" by (rule smooth_bounds [OF f]) (use prior_bounds [OF assms(2)] in blast)
  have w: "0 \<le> penalty_weight sg" using penalty_weights(2) assms(1) by blast
  then have "penalty_weight sg * ?s \<le> penalty_weight sg" "0 \<le> penalty_weight sg * ?s"
    using s mult_left_le [of ?s "penalty_weight sg"] by auto
  then show ?thesis using assms(3) f s w Some t
    by (auto simp: score_signal_def Let_def penalty_weight_def split: if_splits)
qed

lemma sum_list_bounds:
  assumes "\<forall>x\<in>set xs. (0::real) \<le> f x \<and> f x \<le> g x"
  shows "0 \<le> sum_list (map f xs) \<and> sum_list (map f xs) \<le> sum_list (map g xs)"
  using assms by (induction xs) auto

definition restricted :: "window_row \<Rightarrow> int \<Rightarrow> bool" where
  "restricted row now \<longleftrightarrow> (case last_hard_signal_audit_at row of None \<Rightarrow> False | Some t \<Rightarrow> now - t \<le> HARD_SIGNAL_WINDOW_MS)"

lemma score_active:
  "(\<exists>sg\<in>set HEALTH_SIGNALS. snd (snd (score_signal row now prior sg))) \<longleftrightarrow> restricted row now"
proof -
  have hard: "snd (snd (score_signal row now prior sg)) \<longleftrightarrow> restricted row now"
    if "sg \<in> set HEALTH_SIGNALS" "sg_key sg = ''hard_restriction''" for sg
    using hard_signal_only that
    by (auto simp: score_signal_def Let_def collect_hard_restriction_def restricted_def split: option.splits)
  have soft: "\<not> snd (snd (score_signal row now prior sg))" if "sg_key sg \<noteq> ''hard_restriction''" for sg
    using that by (simp add: score_signal_def Let_def split: option.splits prod.splits)
  have "\<exists>sg\<in>set HEALTH_SIGNALS. sg_key sg = ''hard_restriction''" by (simp add: registry)
  then show ?thesis using hard soft by blast
qed

lemma computeHealthScore_eq:
  "computeHealthScore row now prior =
    (if restricted row now then 0
     else clampScore (100 - sum_list (map (\<lambda>sg. fst (snd (score_signal row now prior sg))) HEALTH_SIGNALS)),
     map_of (map (\<lambda>sg. (sg_key sg, fst (score_signal row now prior sg))) HEALTH_SIGNALS))"
  unfolding computeHealthScore_def Let_def score_active [of row now prior, symmetric]
  by (simp add: case_prod_unfold comp_def)

lemma score_range:
  assumes "sound_evidence prior"
  shows "(if restricted row now then fst (computeHealthScore row now prior) = 0
      else 68 \<le> fst (computeHealthScore row now prior) \<and> fst (computeHealthScore row now prior) \<le> 100) \<and>
    sound_evidence (snd (computeHealthScore row now prior))"
proof -
  have b: "0 \<le> fst (snd (score_signal row now prior sg)) \<and> fst (snd (score_signal row now prior sg)) \<le> penalty_weight sg"
    if "sg \<in> set HEALTH_SIGNALS" for sg
    using score_signal_bounds [OF that assms, of row now] by (metis prod.collapse)
  have "0 \<le> sum_list (map (\<lambda>sg. fst (snd (score_signal row now prior sg))) HEALTH_SIGNALS) \<and>
      sum_list (map (\<lambda>sg. fst (snd (score_signal row now prior sg))) HEALTH_SIGNALS) \<le> 32"
    using sum_list_bounds [of HEALTH_SIGNALS "\<lambda>sg. fst (snd (score_signal row now prior sg))" penalty_weight] b penalty_weights(1)
    by simp
  moreover have "sound_evidence (map_of (map (\<lambda>sg. (sg_key sg, fst (score_signal row now prior sg))) HEALTH_SIGNALS))"
    unfolding sound_evidence_def
  proof (intro ballI allI impI)
    fix e v
    assume "e \<in> ran (map_of (map (\<lambda>sg. (sg_key sg, fst (score_signal row now prior sg))) HEALTH_SIGNALS))" and v: "se_severity e = Some v"
    then obtain sg where "sg \<in> set HEALTH_SIGNALS" "e = fst (score_signal row now prior sg)"
      by (auto simp: ran_def dest!: map_of_SomeD)
    then show "0 \<le> v \<and> v \<le> 1" using score_signal_bounds [OF _ assms, of sg row now e] v by (metis prod.collapse)
  qed
  ultimately show ?thesis by (simp add: computeHealthScore_eq clampScore_def)
qed


section \<open>Histories\<close>

datatype health_event =
    Tick window_row int
  | Send_Outcome string int
  | Connection_Close int int
  | Staff_Pause int
  | Resume actor "bool option"
  | Staff_Resume "bool option"
  | Session_Writes engine_write

definition ok_or :: "health_sys \<Rightarrow> ('e, health_sys) result \<Rightarrow> health_sys" where
  "ok_or s r = (case r of Err _ \<Rightarrow> s | Ok s' \<Rightarrow> s')"

text \<open>A failing operation rolls back; a write of the session engine, one of the statements of \<open>Instances\<close>, takes effect.\<close>

fun health_step :: "health_event \<Rightarrow> health_sys \<Rightarrow> health_sys" where
  "health_step (Tick row now) s = ok_or s (evaluate row now s)"
| "health_step (Send_Outcome c now) s = (case onSendOutcome c now s of Err _ \<Rightarrow> s | Ok (s', _) \<Rightarrow> s')"
| "health_step (Connection_Close code now) s = fst (onConnectionUpdate code now s)"
| "health_step (Staff_Pause now) s = fst (staffPause now s)"
| "health_step (Resume a k) s = ok_or s (resumeInstance a k (h_inst s) s)"
| "health_step (Staff_Resume k) s = ok_or s (staffResume k s)"
| "health_step (Session_Writes ew) s = set_inst (engine_update ew (h_inst s)) s"

definition health_run :: "health_event list \<Rightarrow> health_sys \<Rightarrow> health_sys" where
  "health_run es s = fold health_step es s"

lemma health_run_inv:
  assumes "P s" "\<And>e s. e \<in> set es \<Longrightarrow> P s \<Longrightarrow> P (health_step e s)"
  shows "P (health_run es s)"
  using assms unfolding health_run_def by (induction es arbitrary: s) simp_all

lemma set_inst_sel [simp]:
  "h_inst (set_inst r s) = r" "cf_health_band (h_cfg (set_inst r s)) = h_band s" "cf_eff (h_cfg (set_inst r s)) = cf_eff (h_cfg s)"
  "cf_profile (h_cfg (set_inst r s)) = cf_profile (h_cfg s)" "cf_warmup_tier (h_cfg (set_inst r s)) = cf_warmup_tier (h_cfg s)"
  "h_evidence (set_inst r s) = h_evidence s" "h_events (set_inst r s) = h_events s"
  "h_last_hard_signal_at (set_inst r s) = h_last_hard_signal_at s"
  by (simp_all add: set_inst_def)

lemma markDirty_sel [simp]:
  "h_cfg (markDirty now s) = h_cfg s" "h_inst (markDirty now s) = h_inst s" "h_evidence (markDirty now s) = h_evidence s"
  "h_events (markDirty now s) = h_events s" "h_band_since (markDirty now s) = h_band_since s"
  by (simp_all add: markDirty_def)

lemma hardPause_sel [simp]:
  "cf_health_band (h_cfg (fst (applyHardSignalPause r now s))) = h_band s"
  "cf_eff (h_cfg (fst (applyHardSignalPause r now s))) = cf_eff (h_cfg s)"
  "cf_profile (h_cfg (fst (applyHardSignalPause r now s))) = cf_profile (h_cfg s)"
  "cf_warmup_tier (h_cfg (fst (applyHardSignalPause r now s))) = cf_warmup_tier (h_cfg s)"
  "h_evidence (fst (applyHardSignalPause r now s)) = h_evidence s"
  by (simp_all add: applyHardSignalPause_def Let_def)

lemma bookkeeping_sel [simp]:
  "h_inst (writeBookkeeping sc b ch lo ev now hs at1 s) = h_inst s"
  "h_cfg (writeBookkeeping sc b ch lo ev now hs at1 s) = (h_cfg s)\<lparr>cf_health_band := b\<rparr>"
  "h_evidence (writeBookkeeping sc b ch lo ev now hs at1 s) = ev"
  "h_events (writeBookkeeping sc b ch lo ev now hs at1 s) = h_events s"
  "h_score (writeBookkeeping sc b ch lo ev now hs at1 s) = sc"
  by (simp_all add: writeBookkeeping_def case_prod_unfold Let_def)

lemma applyBandChangeTo_Ok:
  assumes "applyBandChangeTo f t now s = Ok s'"
  shows "h_inst s' = h_inst s \<and> h_evidence s' = h_evidence s \<and> h_band s' = t \<and>
    h_events s' = h_events s @ [Band_Change \<lparr>bc_at = now, bc_from = f, bc_to = t\<rparr>] \<and>
    cf_eff (h_cfg s') = toEffRow (row_limits (cf_profile (h_cfg s)) (cf_warmup_tier (h_cfg s)) t []) \<and>
    cf_profile (h_cfg s') = cf_profile (h_cfg s) \<and> cf_warmup_tier (h_cfg s') = cf_warmup_tier (h_cfg s)"
  using assms by (auto simp: applyBandChangeTo_def dest!: applyBandChange_Ok)

lemma decideBand_result:
  "dr_changed (decideBand i) \<Longrightarrow> dr_band (decideBand i) = bandForScore (db_score i) \<and> \<not> suppressedByFlap (decideBand i)"
  "\<not> dr_changed (decideBand i) \<Longrightarrow> dr_band (decideBand i) = currentBand i"
  "dr_changed (decideBand i) \<Longrightarrow> dr_band (decideBand i) \<noteq> currentBand i"
  by (auto simp: decideBand_def Let_def split: if_splits)

lemma tick_result:
  "dr_changed (tick_decision row now s) \<Longrightarrow>
     dr_band (tick_decision row now s) = bandForScore (fst (computeHealthScore row now (h_evidence s))) \<and>
     \<not> suppressedByFlap (tick_decision row now s) \<and> dr_band (tick_decision row now s) \<noteq> h_band s"
  "\<not> dr_changed (tick_decision row now s) \<Longrightarrow> dr_band (tick_decision row now s) = h_band s"
  using decideBand_result [of "tick_input row now s"] by (simp_all add: tick_decision_def tick_input_def)

text \<open>The ways a tick can end.\<close>

lemma evaluate_cases:
  assumes "evaluate row now s = Ok s'"
  obtains (paused) "h_state s = Paused" "h_inst s' = h_inst s" "h_band s' = h_band s" "cf_eff (h_cfg s') = cf_eff (h_cfg s)"
      "h_events s' = h_events s" "cf_profile (h_cfg s') = cf_profile (h_cfg s)" "cf_warmup_tier (h_cfg s') = cf_warmup_tier (h_cfg s)"
  | (critical) "h_state s \<noteq> Paused" "dr_changed (tick_decision row now s)" "dr_band (tick_decision row now s) = Critical" "h_band s' = Critical"
      "cf_eff (h_cfg s') = cf_eff (h_cfg s)" "h_inst s' = h_inst (fst (applyHardSignalPause PR_health_critical now s))"
      "h_events s' = h_events (fst (applyHardSignalPause PR_health_critical now s))"
      "cf_profile (h_cfg s') = cf_profile (h_cfg s)" "cf_warmup_tier (h_cfg s') = cf_warmup_tier (h_cfg s)"
  | (changed) "h_state s \<noteq> Paused" "dr_changed (tick_decision row now s)" "dr_band (tick_decision row now s) \<noteq> Critical"
      "h_band s' = dr_band (tick_decision row now s)" "h_inst s' = h_inst s"
      "cf_eff (h_cfg s') = toEffRow (row_limits (cf_profile (h_cfg s)) (cf_warmup_tier (h_cfg s)) (h_band s') [])"
      "h_events s' = h_events s @ [Band_Change \<lparr>bc_at = now, bc_from = h_band s, bc_to = h_band s'\<rparr>]"
      "cf_profile (h_cfg s') = cf_profile (h_cfg s)" "cf_warmup_tier (h_cfg s') = cf_warmup_tier (h_cfg s)"
  | (kept) "h_state s \<noteq> Paused" "\<not> dr_changed (tick_decision row now s)" "h_band s' = h_band s" "h_inst s' = h_inst s"
      "cf_eff (h_cfg s') = cf_eff (h_cfg s)"
      "h_events s' = h_events s \<or> h_events s' = h_events s @ [Band_Change_Suppressed now (h_band s)]"
      "cf_profile (h_cfg s') = cf_profile (h_cfg s)" "cf_warmup_tier (h_cfg s') = cf_warmup_tier (h_cfg s)"
proof -
  let ?d = "tick_decision row now s"
  consider "h_state s = Paused" | "h_state s \<noteq> Paused" "dr_changed ?d" "dr_band ?d = Critical"
    | "h_state s \<noteq> Paused" "dr_changed ?d" "dr_band ?d \<noteq> Critical" | "h_state s \<noteq> Paused" "\<not> dr_changed ?d" by blast
  then show thesis
  proof cases
    case 1
    then show thesis using assms by (intro paused) (auto simp: evaluate_def case_prod_unfold Let_def)
  next
    case 2
    then have "\<not> suppressedByFlap ?d" using tick_result(1) by blast
    with 2 show thesis using assms by (intro critical) (auto simp: evaluate_def case_prod_unfold Let_def)
  next
    case 3
    then have n: "\<not> suppressedByFlap ?d" using tick_result(1) by blast
    with 3 obtain s2 where a: "applyBandChangeTo (h_band s) (dr_band ?d) now s = Ok s2" and e: "h_inst s' = h_inst s2"
        "h_cfg s' = (h_cfg s2)\<lparr>cf_health_band := dr_band ?d\<rparr>" "h_events s' = h_events s2"
      using assms by (auto simp: evaluate_def case_prod_unfold Let_def)
    show thesis using 3 applyBandChangeTo_Ok [OF a] e by (intro changed) auto
  next
    case 4
    then have "dr_band ?d = h_band s" using tick_result(2) by blast
    with 4 show thesis using assms by (intro kept) (auto simp: evaluate_def case_prod_unfold Let_def)
  qed
qed


section \<open>Properties\<close>

definition band_reachable :: "health_sys \<Rightarrow> bool" where
  "band_reachable s \<longleftrightarrow> h_band s \<noteq> health_band.Degraded \<and> sound_evidence (h_evidence s)"

lemma bandForScore_range: "s = 0 \<or> 68 \<le> s \<Longrightarrow> bandForScore s \<noteq> health_band.Degraded"
  by (auto simp: bandForScore_def)

lemma evaluate_evidence: "evaluate row now s = Ok s' \<Longrightarrow> h_evidence s' = snd (computeHealthScore row now (h_evidence s))"
  by (auto simp: evaluate_def case_prod_unfold Let_def split: if_splits)

lemma tick_reachable:
  assumes "band_reachable s" "evaluate row now s = Ok s'"
  shows "band_reachable s'"
proof -
  note sr = score_range [of "h_evidence s" row now]
  have e: "sound_evidence (h_evidence s')" using evaluate_evidence [OF assms(2)] sr assms(1) by (auto simp: band_reachable_def)
  have b: "bandForScore (fst (computeHealthScore row now (h_evidence s))) \<noteq> health_band.Degraded"
    by (rule bandForScore_range) (use sr assms(1) in \<open>auto simp: band_reachable_def split: if_splits\<close>)
  from assms(2) have "h_band s' \<noteq> health_band.Degraded"
    by (cases rule: evaluate_cases) (use assms(1) b tick_result in \<open>auto simp: band_reachable_def\<close>)
  with e show ?thesis by (simp add: band_reachable_def)
qed

lemma step_reachable: "band_reachable s \<Longrightarrow> band_reachable (health_step e s)"
proof (cases e)
  case (Tick row now)
  then show "band_reachable s \<Longrightarrow> ?thesis" using tick_reachable by (auto simp: ok_or_def split: sum.splits)
next
  case (Send_Outcome c now)
  then show "band_reachable s \<Longrightarrow> ?thesis"
    by (auto simp: onSendOutcome_def Let_def band_reachable_def split: sum.splits if_splits dest!: applyBandChangeTo_Ok)
qed (auto simp: band_reachable_def onConnectionUpdate_def staffPause_def resumeInstance_def staffResume_def humanResume_def
    ok_or_def Let_def split: actor.splits if_splits)

text \<open>
  Band by band: whatever happens, the band of an instance stays among healthy, watch and critical, for the weights of
  the scored signals can lower a score to 68 at the least unless a restriction was recorded in the last 24 hours, and then
  it is 0. Band degraded, and with it the warm-up rollback, is out of reach.
\<close>

theorem degraded_band_is_unreachable:
  assumes "h_band s \<in> {Healthy, Watch, Critical}" "h_evidence s = Map.empty"
  shows "h_band (health_run es s) \<in> {Healthy, Watch, Critical} \<and>
    (let sc = fst (computeHealthScore row now (h_evidence (health_run es s))) in
       if restricted row now then sc = 0 else 68 \<le> sc \<and> sc \<le> 100)"
proof -
  have "band_reachable s" using assms by (auto simp: band_reachable_def sound_evidence_def)
  then have r: "band_reachable (health_run es s)" by (rule health_run_inv) (rule step_reachable)
  then have "h_band (health_run es s) \<noteq> health_band.Degraded" by (simp add: band_reachable_def)
  then have "h_band (health_run es s) \<in> {Healthy, Watch, Critical}" by (cases "h_band (health_run es s)") auto
  then show ?thesis using score_range [of "h_evidence (health_run es s)" row now] r by (simp add: band_reachable_def Let_def)
qed

text \<open>A provisioned, connected instance, and the window of a quiet day.\<close>

definition demo_inst :: instance_row where
  "demo_inst = \<lparr>ir_client = ''c1'', ir_health = Connected, ir_link = Linked, ir_desired = Online, ir_needsUserAction = False,
     ir_reason = None, ir_pauseReason = None, ir_pausedAt = None, ir_qrAttempts = 0, ir_pairingStartedAt = None, ir_ownerJid = None,
     ir_phone = None, ir_deletedAt = None, ir_discCode = None\<rparr>"

definition demo_health :: health_sys where
  "demo_health = \<lparr>h_cfg = demo_config, h_inst = demo_inst, h_band_since = None, h_last_hard_signal_at = None,
     h_last_band_improved_at = None, h_score = 100, h_evidence = Map.empty, h_eval_due_at = 0, h_eval_tier = 2, h_events = []\<rparr>"

definition quiet :: window_row where
  "quiet = \<lparr>disconnect_count_6h = 0, reconnect_churn_count_6h = 0, last_hard_signal_audit_at = None, attempted_1h = 0,
     transient_failed_1h = 0, attempted_24h = 0, rejected_failed_24h = 0, invalid_jid_failed_24h = 0, eligible_sent_24h = 0,
     delivered_24h = 0, read_24h = 0, sent_24h = 0, opt_outs_24h = 0, new_convs_72h = 0, cold_sent_24h = 0\<rparr>"

definition bad_day :: window_row where
  "bad_day = quiet\<lparr>attempted_24h := 100, rejected_failed_24h := 50, eligible_sent_24h := 100, delivered_24h := 0\<rparr>"

lemma demo_sel [simp]: "h_band demo_health = Healthy" "h_evidence demo_health = Map.empty" "h_inst demo_health = demo_inst"
    "h_events demo_health = []" "ir_health demo_inst = Connected" "ir_deletedAt demo_inst = None" "ir_pauseReason demo_inst = None"
    "h_cfg demo_health = demo_config" "h_last_hard_signal_at demo_health = None" "h_band_since demo_health = None"
    "cf_health_band demo_config = Healthy" "cf_warmup_tier demo_config = 1" "cf_profile demo_config = safe_default"
  by (simp_all add: demo_health_def demo_config_def demo_inst_def)

lemma degraded_band_is_unreachable_witness:
  "h_band (health_run [Tick bad_day 0, Send_Outcome ''rate_limited'' 5, Connection_Close 403 10] demo_health) \<noteq> health_band.Degraded"
  using degraded_band_is_unreachable [of demo_health "[Tick bad_day 0, Send_Outcome ''rate_limited'' 5, Connection_Close 403 10]"]
  by auto


text \<open>What a loosening tick has checked.\<close>

lemma loosening_gates:
  assumes "evaluate row now s = Ok s'" "h_band s < h_band s'"
  shows "h_state s \<noteq> Paused \<and> h_band s' = bandForScore (h_score s') \<and>
    entryScoreFor (h_band s') + 8 \<le> h_score s' \<and>
    (\<forall>d. DWELL_MS (h_band s') = Some d \<longrightarrow> (\<exists>t. h_band_since s = Some t \<and> t + d \<le> now)) \<and>
    (\<forall>t. h_last_hard_signal_at s = Some t \<longrightarrow> t + 24 * 3600000 < now) \<and>
    countImprovementsSince (readRecentBandChanges s (now - TWENTY_FOUR_HOURS_MS)) now SIX_HOURS_MS = 0 \<and>
    countImprovementsSince (readRecentBandChanges s (now - TWENTY_FOUR_HOURS_MS)) now TWENTY_FOUR_HOURS_MS \<le> 1 \<and>
    countChangesSince (readRecentBandChanges s (now - TWENTY_FOUR_HOURS_MS)) now ONE_HOUR_MS \<le> 1"
proof -
  let ?d = "tick_decision row now s" and ?i = "tick_input row now s"
  have sc: "h_score s' = db_score ?i"
    using assms(1) by (auto simp: evaluate_def case_prod_unfold Let_def tick_input_def split: if_splits)
  have h: "h_state s \<noteq> Paused \<and> dr_changed ?d \<and> h_band s' = dr_band ?d"
    using assms(1) by (cases rule: evaluate_cases) (use assms(2) in \<open>auto simp: less_health_band_def less_eq_health_band_def\<close>)
  have c: "currentBand ?i = h_band s" "db_now ?i = now" "lastHardSignalAtMs ?i = h_last_hard_signal_at s"
      "recentBandChanges ?i = readRecentBandChanges s (now - TWENTY_FOUR_HOURS_MS)"
      "bandSinceMs ?i = (case h_band_since s of None \<Rightarrow> now | Some t \<Rightarrow> t)"
    by (simp_all add: tick_input_def)
  have t: "h_band s' = bandForScore (db_score ?i)" using h decideBand_result(1) [of ?i] by (simp add: tick_decision_def)
  then have "\<not> bandForScore (db_score ?i) < currentBand ?i" "bandForScore (db_score ?i) \<noteq> currentBand ?i"
    using assms(2) by (auto simp: c)
  then have g: "loosingAllowed ?i (h_band s')" "countChangesSince (recentBandChanges ?i) now ONE_HOUR_MS < 2"
    using h t by (auto simp: tick_decision_def decideBand_def Let_def c split: if_splits)
  have dwell: "\<exists>t. h_band_since s = Some t \<and> t + d \<le> now" if "DWELL_MS (h_band s') = Some d" for d
  proof -
    have "0 < d" using that by (cases "h_band s'") auto
    then show ?thesis using g(1) that by (cases "h_band_since s") (auto simp: loosingAllowed_def c)
  qed
  have hs: "t + 24 * 3600000 < now" if "h_last_hard_signal_at s = Some t" for t
    using g(1) that by (simp add: loosingAllowed_def c hasHardSignalWithin24h_def HARD_SIGNAL_LOOKBACK_MS_def)
  show ?thesis using h t sc g dwell hs by (simp add: loosingAllowed_def c HYSTERESIS_MARGIN_def)
qed

text \<open>
  A tick loosens the band only when every gate is open: the instance is not paused, the score clears the entry of the
  new band by 8, the band is as old as the dwell of the new one, no hard signal came in 24 hours, no improvement in 6 hours,
  at most one in 24 hours and at most one change of any kind in the last hour. Downward a tick moves at once: the band after
  it is never above the band of the score.
\<close>

theorem loosening_needs_every_gate:
  assumes "evaluate row now s = Ok s'"
  shows "(h_band s < h_band s' \<longrightarrow> h_state s \<noteq> Paused \<and> h_band s' = bandForScore (h_score s') \<and>
      entryScoreFor (h_band s') + 8 \<le> h_score s' \<and>
      (\<forall>d. DWELL_MS (h_band s') = Some d \<longrightarrow> (\<exists>t. h_band_since s = Some t \<and> t + d \<le> now)) \<and>
      (\<forall>t. h_last_hard_signal_at s = Some t \<longrightarrow> t + 24 * 3600000 < now) \<and>
      countImprovementsSince (readRecentBandChanges s (now - TWENTY_FOUR_HOURS_MS)) now SIX_HOURS_MS = 0 \<and>
      countImprovementsSince (readRecentBandChanges s (now - TWENTY_FOUR_HOURS_MS)) now TWENTY_FOUR_HOURS_MS \<le> 1 \<and>
      countChangesSince (readRecentBandChanges s (now - TWENTY_FOUR_HOURS_MS)) now ONE_HOUR_MS \<le> 1) \<and>
    (h_state s \<noteq> Paused \<and> bandForScore (fst (computeHealthScore row now (h_evidence s))) < h_band s \<longrightarrow>
      h_band s' = bandForScore (fst (computeHealthScore row now (h_evidence s))))"
proof (intro conjI impI)
  let ?b = "bandForScore (fst (computeHealthScore row now (h_evidence s)))"
  assume t: "h_state s \<noteq> Paused \<and> ?b < h_band s"
  then have "dr_changed (tick_decision row now s)" "dr_band (tick_decision row now s) = ?b"
    by (auto simp: tick_decision_def tick_input_def decideBand_def Let_def)
  with assms t show "h_band s' = ?b" by (cases rule: evaluate_cases) auto
qed (use loosening_gates [OF assms] in blast)+

lemma quiet_score: "fst (computeHealthScore quiet now Map.empty) = 100"
  by (simp add: computeHealthScore_eq restricted_def quiet_def registry score_signal_def count_evidence_def
      ratioEvidence_def perThousandEvidence_def collect_hard_restriction_def clampScore_def)

text \<open>An instance that entered watch at 0 and has a quiet day two hours later.\<close>

definition watch_health :: health_sys where
  "watch_health = demo_health\<lparr>h_cfg := demo_config\<lparr>cf_health_band := Watch\<rparr>, h_band_since := Some 0\<rparr>"

lemma quiet_tick_loosens:
  "\<exists>s'. evaluate quiet 7200000 watch_health = Ok s' \<and> h_band s' = Healthy \<and>
     h_events s' = [Band_Change \<lparr>bc_at = 7200000, bc_from = Watch, bc_to = Healthy\<rparr>]"
proof -
  have "tick_decision quiet 7200000 watch_health = \<lparr>dr_band = Healthy, dr_changed = True, dr_direction = Loosen,
      suppressedByFlap = False, dr_reason = ''hysteresis_dwell_satisfied''\<rparr>"
    by (simp add: tick_decision_def tick_input_def watch_health_def quiet_score decideBand_def Let_def bandForScore_def
        less_health_band_def less_eq_health_band_def countChangesSince_def readRecentBandChanges_def List.map_filter_simps
        loosingAllowed_def HYSTERESIS_MARGIN_def hasHardSignalWithin24h_def countImprovementsSince_def)
  moreover have "eff_checks (toEffRow (row_limits safe_default 1 Healthy []))" by (rule unrelaxed_checks [OF safe_default_ok])
  ultimately show ?thesis
    by (simp add: evaluate_def Let_def case_prod_unfold watch_health_def applyBandChangeTo_def applyBandChange_def
        base_layers_def [symmetric] updatePacingConfig_def check_patch_def change_timezone_def resolve_base updateEffRow_def)
qed

lemma loosening_needs_every_gate_witness:
  "\<exists>s'. evaluate quiet 7200000 watch_health = Ok s' \<and> 78 \<le> h_score s'"
proof -
  obtain s' where s: "evaluate quiet 7200000 watch_health = Ok s'" "h_band s' = Healthy" using quiet_tick_loosens by blast
  then have "h_band watch_health < h_band s'" by (simp add: watch_health_def less_health_band_def less_eq_health_band_def)
  then show ?thesis using loosening_needs_every_gate [OF s(1)] s by auto
qed


text \<open>The recorded changes, and the budget of an improvement against the changes recorded before it.\<close>

definition changes :: "pacing_ev list \<Rightarrow> band_change list" where
  "changes evs = List.map_filter (\<lambda>e. case e of Band_Change c \<Rightarrow> Some c | _ \<Rightarrow> None) evs"

definition improvement :: "band_change \<Rightarrow> bool" where
  "improvement c \<longleftrightarrow> bc_from c < bc_to c"

definition within_budget :: "band_change list \<Rightarrow> band_change \<Rightarrow> bool" where
  "within_budget before c \<longleftrightarrow>
     (\<forall>b\<in>set before. improvement b \<longrightarrow> 6 * 3600000 < bc_at c - bc_at b) \<and>
     length (filter (\<lambda>b. improvement b \<and> bc_at c - bc_at b < 24 * 3600000) before) \<le> 1 \<and>
     length (filter (\<lambda>b. bc_at c - bc_at b \<le> 3600000) before) \<le> 1"

definition budgeted :: "band_change list \<Rightarrow> bool" where
  "budgeted cs \<longleftrightarrow> (\<forall>i<length cs. improvement (cs ! i) \<longrightarrow> within_budget (take i cs) (cs ! i))"

lemma budgeted_snoc: "budgeted (cs @ [c]) \<longleftrightarrow> budgeted cs \<and> (improvement c \<longrightarrow> within_budget cs c)"
  by (auto simp: budgeted_def nth_append less_Suc_eq)

lemma changes_snoc [simp]:
  "changes (evs @ [Band_Change c]) = changes evs @ [c]" "changes (evs @ [Band_Change_Suppressed t b]) = changes evs"
  "changes (evs @ [Hard_Signal_Pause t r]) = changes evs"
  by (simp_all add: changes_def List.map_filter_def)

lemma readRecent_filter: "readRecentBandChanges s since = filter (\<lambda>c. since < bc_at c) (changes (h_events s))"
proof -
  have "List.map_filter (\<lambda>e. case e of Band_Change c \<Rightarrow> if bc_at c > since then Some c else None | _ \<Rightarrow> None) evs =
      filter (\<lambda>c. since < bc_at c) (changes evs)" for evs
    by (induction evs) (auto simp: changes_def List.map_filter_simps split: pacing_ev.splits)
  then show ?thesis by (simp add: readRecentBandChanges_def)
qed

lemma tick_budget:
  assumes "evaluate row now s = Ok s'" "h_band s < h_band s'"
  shows "within_budget (changes (h_events s)) \<lparr>bc_at = now, bc_from = h_band s, bc_to = h_band s'\<rparr>"
proof -
  let ?cs = "changes (h_events s)"
  note g = loosening_gates [OF assms]
  have 6: "6 * 3600000 < now - bc_at b" if "b \<in> set ?cs" "improvement b" for b
  proof (rule ccontr)
    assume "\<not> 6 * 3600000 < now - bc_at b"
    then have "b \<in> set (filter (\<lambda>c. now - bc_at c \<le> SIX_HOURS_MS \<and> bc_to c > bc_from c)
        (filter (\<lambda>c. now - TWENTY_FOUR_HOURS_MS < bc_at c) ?cs))"
      using that by (simp add: improvement_def SIX_HOURS_MS_def TWENTY_FOUR_HOURS_MS_def)
    then show False using g by (auto simp: countImprovementsSince_def readRecent_filter filter_empty_conv)
  qed
  have 24: "filter (\<lambda>b. improvement b \<and> now - bc_at b < 86400000) ?cs =
      filter (\<lambda>c. now - bc_at c \<le> TWENTY_FOUR_HOURS_MS \<and> bc_to c > bc_from c) (filter (\<lambda>c. now - TWENTY_FOUR_HOURS_MS < bc_at c) ?cs)"
    unfolding filter_filter by (rule filter_cong) (auto simp: improvement_def TWENTY_FOUR_HOURS_MS_def)
  have 1: "filter (\<lambda>b. now - bc_at b \<le> 3600000) ?cs =
      filter (\<lambda>c. now - bc_at c \<le> ONE_HOUR_MS) (filter (\<lambda>c. now - TWENTY_FOUR_HOURS_MS < bc_at c) ?cs)"
    unfolding filter_filter by (rule filter_cong) (auto simp: ONE_HOUR_MS_def TWENTY_FOUR_HOURS_MS_def)
  show ?thesis
    using 6 g by (simp add: within_budget_def 24 1 countImprovementsSince_def countChangesSince_def readRecent_filter)
qed

lemma step_budgeted:
  assumes "budgeted (changes (h_events s))"
  shows "budgeted (changes (h_events (health_step e s)))"
proof (cases e)
  case (Tick row now)
  show ?thesis
  proof (cases "evaluate row now s")
    case (Inl e)
    then show ?thesis using Tick assms by (simp add: ok_or_def)
  next
    case (Inr s')
    then have "budgeted (changes (h_events s'))"
    proof (cases rule: evaluate_cases)
      case changed
      then show ?thesis using tick_budget [OF Inr] assms by (simp add: budgeted_snoc improvement_def)
    qed (use assms in \<open>auto simp: applyHardSignalPause_def Let_def\<close>)
    then show ?thesis using Tick Inr by (simp add: ok_or_def)
  qed
next
  case (Send_Outcome c now)
  then show ?thesis
    using assms by (auto simp: onSendOutcome_def Let_def budgeted_snoc improvement_def split: sum.splits if_splits
        dest!: applyBandChangeTo_Ok)
qed (use assms in \<open>auto simp: onConnectionUpdate_def applyHardSignalPause_def staffPause_def resumeInstance_def staffResume_def
      humanResume_def ok_or_def Let_def split: actor.splits if_splits\<close>)

text \<open>
  Over any history the improvements recorded for an instance keep the anti-flap budget: no two within 6 hours, at most
  two within 24 hours, and none after two changes of any kind within the hour before it.
\<close>

theorem improvements_keep_the_budget:
  assumes "h_events s = []" "cs = changes (h_events (health_run es s))" "i < length cs" "bc_from (cs ! i) < bc_to (cs ! i)"
  shows "(\<forall>j<i. bc_from (cs ! j) < bc_to (cs ! j) \<longrightarrow> 6 * 3600000 < bc_at (cs ! i) - bc_at (cs ! j)) \<and>
    length (filter (\<lambda>b. bc_from b < bc_to b \<and> bc_at (cs ! i) - bc_at b < 24 * 3600000) (take i cs)) \<le> 1 \<and>
    length (filter (\<lambda>b. bc_at (cs ! i) - bc_at b \<le> 3600000) (take i cs)) \<le> 1"
proof -
  have "budgeted (changes (h_events s))" using assms(1) by (simp add: changes_def budgeted_def List.map_filter_simps)
  then have "budgeted cs" unfolding assms(2) by (rule health_run_inv) (rule step_budgeted)
  then have "within_budget (take i cs) (cs ! i)" using assms(3,4) by (simp add: budgeted_def improvement_def)
  moreover have "cs ! j \<in> set (take i cs)" if "j < i" for j using that assms(3) by (auto simp: in_set_conv_nth)
  ultimately show ?thesis by (auto simp: within_budget_def improvement_def)
qed


definition human_resume_event :: "health_sys \<Rightarrow> health_event \<Rightarrow> bool" where
  "human_resume_event s e \<longleftrightarrow> (\<exists>k. (e = Staff_Resume k \<or> (\<exists>u. e = Resume (User u) k)) \<and>
     (ir_pauseReason (h_inst s) = Some PR_provider_restriction \<longrightarrow> k = Some True))"

text \<open>A write of the session engine that names another state; none of those statements looks at the pause.\<close>

definition engine_overwrites :: "health_sys \<Rightarrow> health_event \<Rightarrow> bool" where
  "engine_overwrites s e \<longleftrightarrow> (\<exists>ew. e = Session_Writes ew \<and> ir_health (engine_update ew (h_inst s)) \<noteq> Paused)"

lemma paused_step:
  assumes "h_state s = Paused"
  shows "(h_state (health_step e s) = Paused \<or> human_resume_event s e \<or> engine_overwrites s e) \<and> cf_profile (h_cfg (health_step e s)) = cf_profile (h_cfg s) \<and>
    cf_warmup_tier (h_cfg (health_step e s)) = cf_warmup_tier (h_cfg s) \<and>
    ((h_band (health_step e s) = h_band s \<and> cf_eff (h_cfg (health_step e s)) = cf_eff (h_cfg s)) \<or>
     (h_band s = Healthy \<and> h_band (health_step e s) = Watch \<and>
      cf_eff (h_cfg (health_step e s)) = toEffRow (row_limits (cf_profile (h_cfg s)) (cf_warmup_tier (h_cfg s)) Watch [])))"
proof (cases e)
  case (Tick row now)
  show ?thesis
  proof (cases "evaluate row now s")
    case (Inl e)
    then show ?thesis using Tick assms by (simp add: ok_or_def)
  next
    case (Inr s')
    then show ?thesis by (cases rule: evaluate_cases) (use Tick Inr assms in \<open>simp_all add: ok_or_def\<close>)
  qed
next
  case (Send_Outcome c now)
  have w: "\<not> h_band s \<le> Watch \<Longrightarrow> h_band s = Healthy" by (cases "h_band s") (auto simp: less_eq_health_band_def)
  show ?thesis
    using assms w Send_Outcome by (auto simp: onSendOutcome_def Let_def split: sum.splits if_splits dest!: applyBandChangeTo_Ok)
next
  case (Resume a k)
  then show ?thesis using assms
    by (auto simp: resumeInstance_def humanResume_def ok_or_def Let_def human_resume_event_def split: actor.splits if_splits)
next
  case (Staff_Resume k)
  then show ?thesis using assms
    by (auto simp: staffResume_def humanResume_def ok_or_def Let_def human_resume_event_def split: if_splits)
qed (use assms in \<open>auto simp: onConnectionUpdate_def applyHardSignalPause_def staffPause_def engine_overwrites_def Let_def\<close>)

text \<open>
  C9. A paused instance leaves the pause in two ways only: a human resumes it, with an acknowledgement while its row carries
  a provider restriction; or a write of the session engine names another health state. Until then its limits and band do
  not change, except that a rate-limited send outcome moves healthy to watch. The second way is open to every reconnection:
  marking the link connected ends any pause, and no human and no acknowledgement is asked for.
\<close>

theorem paused_until_a_human_resumes:
  assumes "h_state s = Paused"
    and "\<forall>i<length es. \<not> human_resume_event (health_run (take i es) s) (es ! i) \<and> \<not> engine_overwrites (health_run (take i es) s) (es ! i)"
  shows "h_state (health_run es s) = Paused \<and>
    ((h_band (health_run es s) = h_band s \<and> cf_eff (h_cfg (health_run es s)) = cf_eff (h_cfg s)) \<or>
     (h_band s = Healthy \<and> h_band (health_run es s) = Watch \<and>
      cf_eff (h_cfg (health_run es s)) = toEffRow (row_limits (cf_profile (h_cfg s)) (cf_warmup_tier (h_cfg s)) Watch []))) \<and>
    h_state (health_step (Session_Writes (EW_linked jid phone)) (health_run es s)) = Connected"
proof -
  have "h_state (health_run es s) = Paused \<and> cf_profile (h_cfg (health_run es s)) = cf_profile (h_cfg s) \<and>
    cf_warmup_tier (h_cfg (health_run es s)) = cf_warmup_tier (h_cfg s) \<and>
    ((h_band (health_run es s) = h_band s \<and> cf_eff (h_cfg (health_run es s)) = cf_eff (h_cfg s)) \<or>
     (h_band s = Healthy \<and> h_band (health_run es s) = Watch \<and>
      cf_eff (h_cfg (health_run es s)) = toEffRow (row_limits (cf_profile (h_cfg s)) (cf_warmup_tier (h_cfg s)) Watch [])))"
    using assms(2)
  proof (induction es rule: rev_induct)
    case Nil
    then show ?case using assms(1) by (simp add: health_run_def)
  next
    case (snoc e es)
    let ?m = "health_run es s"
    have run: "health_run (es @ [e]) s = health_step e ?m" by (simp add: health_run_def)
    have "\<not> human_resume_event (health_run (take i es) s) (es ! i) \<and> \<not> engine_overwrites (health_run (take i es) s) (es ! i)"
      if "i < length es" for i
      using snoc.prems [rule_format, of i] that by (simp add: nth_append)
    with snoc.IH have IH: "h_state ?m = Paused" "cf_profile (h_cfg ?m) = cf_profile (h_cfg s)"
        "cf_warmup_tier (h_cfg ?m) = cf_warmup_tier (h_cfg s)"
        "(h_band ?m = h_band s \<and> cf_eff (h_cfg ?m) = cf_eff (h_cfg s)) \<or> (h_band s = Healthy \<and> h_band ?m = Watch \<and>
          cf_eff (h_cfg ?m) = toEffRow (row_limits (cf_profile (h_cfg s)) (cf_warmup_tier (h_cfg s)) Watch []))" by auto
    have "\<not> human_resume_event ?m e" "\<not> engine_overwrites ?m e" using snoc.prems[rule_format, of "length es"] by simp_all
    then show ?case using paused_step [OF IH(1), of e] IH(2-4) unfolding run by auto
  qed
  then show ?thesis by (simp add: instance_mark_linked_connected_def)
qed


lemma improvements_keep_the_budget_witness:
  "length (filter (\<lambda>b. bc_at (changes (h_events (health_run [Tick quiet 7200000] watch_health)) ! 0) - bc_at b \<le> 3600000) []) \<le> 1 \<and>
    bc_from (changes (h_events (health_run [Tick quiet 7200000] watch_health)) ! 0) = Watch"
proof -
  obtain s' where "evaluate quiet 7200000 watch_health = Ok s'"
      "h_events s' = [] @ [Band_Change \<lparr>bc_at = 7200000, bc_from = Watch, bc_to = Healthy\<rparr>]"
    using quiet_tick_loosens by auto
  then have c: "changes (h_events (health_run [Tick quiet 7200000] watch_health)) =
      [\<lparr>bc_at = 7200000, bc_from = Watch, bc_to = Healthy\<rparr>]"
    unfolding health_run_def by (simp only: fold.simps comp_def id_def health_step.simps ok_or_def sum.case changes_snoc)
      (simp add: changes_def List.map_filter_simps)
  show ?thesis
    using improvements_keep_the_budget [of watch_health _ "[Tick quiet 7200000]" 0, OF _ refl] c
    by (simp add: watch_health_def less_health_band_def less_eq_health_band_def)
qed

definition paused_health :: health_sys where
  "paused_health = demo_health\<lparr>h_inst := demo_inst\<lparr>ir_health := Paused, ir_pauseReason := Some PR_provider_restriction\<rparr>\<rparr>"

lemma paused_until_a_human_resumes_witness:
  "h_state (health_run [Tick quiet 5, Resume System_Actor (Some True), Staff_Resume None, Session_Writes EW_qr] paused_health) = Paused"
proof -
  have p: "h_state paused_health = Paused" "ir_pauseReason (h_inst paused_health) = Some PR_provider_restriction"
    by (simp_all add: paused_health_def)
  obtain s1 where e: "evaluate quiet 5 paused_health = Ok s1" using p by (simp add: evaluate_def case_prod_unfold Let_def)
  then have i: "h_inst s1 = h_inst paused_health" by (cases rule: evaluate_cases) (use p in auto)
  let ?es = "[Tick quiet 5, Resume System_Actor (Some True), Staff_Resume None, Session_Writes EW_qr]"
  have n: "\<not> human_resume_event (health_run (take k ?es) paused_health) (?es ! k) \<and>
      \<not> engine_overwrites (health_run (take k ?es) paused_health) (?es ! k)" if "k < 4" for k
  proof -
    from that consider "k = 0" | "k = 1" | "k = 2" | "k = 3" by linarith
    then show ?thesis
      by cases (simp_all add: human_resume_event_def engine_overwrites_def health_run_def ok_or_def e i p resumeInstance_def
          staffResume_def Let_def instance_increment_qr_attempts_def)
  qed
  show ?thesis
    by (rule paused_until_a_human_resumes [THEN conjunct1]) (use p n in auto)
qed

lemma restricted_tick_kept:
  assumes "h_state s \<noteq> Paused" "h_band s = Critical" "restricted row now" "sound_evidence (h_evidence s)"
  shows "\<exists>s'. evaluate row now s = Ok s' \<and> h_inst s' = h_inst s \<and> h_band s' = Critical \<and> cf_eff (h_cfg s') = cf_eff (h_cfg s) \<and>
    sound_evidence (h_evidence s')"
proof -
  have "fst (computeHealthScore row now (h_evidence s)) = 0" using score_range [OF assms(4), of row now] assms(3) by simp
  then have d: "\<not> dr_changed (tick_decision row now s)" "\<not> suppressedByFlap (tick_decision row now s)"
    using assms(2) by (simp_all add: tick_decision_def tick_input_def decideBand_def Let_def bandForScore_def)
  then obtain s' where e: "evaluate row now s = Ok s'" using assms(1) by (simp add: evaluate_def case_prod_unfold Let_def)
  moreover have "h_inst s' = h_inst s \<and> h_band s' = Critical \<and> cf_eff (h_cfg s') = cf_eff (h_cfg s)"
    using e by (cases rule: evaluate_cases) (use assms d in auto)
  moreover have "sound_evidence (h_evidence s')"
    using evaluate_evidence [OF e] score_range [OF assms(4), of row now] by simp
  ultimately show ?thesis by blast
qed

text \<open>
  Band critical never limits anything: the tick that finds a restriction pauses the instance and records band critical,
  but rewrites no limit; after the human resume the instance has the limits from before the restriction, and while the
  restriction stays in the window no tick pauses it again or touches them.
\<close>

theorem critical_band_never_limits:
  assumes "h_state s \<noteq> Paused" "h_band s \<noteq> Critical" "ir_deletedAt (h_inst s) = None" "sound_evidence (h_evidence s)" "restricted row now"
    and "\<forall>(r, t)\<in>set later. restricted r t"
  shows "\<exists>s1. evaluate row now s = Ok s1 \<and> h_state s1 = Paused \<and> ir_pauseReason (h_inst s1) = Some PR_health_critical \<and>
    h_band s1 = Critical \<and> cf_eff (h_cfg s1) = cf_eff (h_cfg s) \<and>
    (let s2 = health_run (map (\<lambda>(r, t). Tick r t) later) (fst (humanResume s1)) in
       h_state s2 = wa_health.Degraded \<and> h_band s2 = Critical \<and> cf_eff (h_cfg s2) = cf_eff (h_cfg s))"
proof -
  note sr = score_range [OF assms(4), of row now]
  have z: "fst (computeHealthScore row now (h_evidence s)) = 0" using sr assms(5) by simp
  have "Critical < h_band s" using assms(2) by (cases "h_band s") (auto simp: less_health_band_def less_eq_health_band_def)
  then have d: "dr_changed (tick_decision row now s)" "dr_band (tick_decision row now s) = Critical"
      "\<not> suppressedByFlap (tick_decision row now s)"
    using z by (simp_all add: tick_decision_def tick_input_def decideBand_def Let_def bandForScore_def)
  then obtain s1 where e: "evaluate row now s = Ok s1" using assms(1) by (simp add: evaluate_def case_prod_unfold Let_def)
  have s1: "h_state s1 = Paused" "ir_pauseReason (h_inst s1) = Some PR_health_critical" "h_band s1 = Critical"
      "cf_eff (h_cfg s1) = cf_eff (h_cfg s)" "ir_deletedAt (h_inst s1) = None"
    using e by (cases rule: evaluate_cases; use assms d in \<open>simp add: applyHardSignalPause_def Let_def\<close>)+
  have "sound_evidence (h_evidence s1)" using evaluate_evidence [OF e] sr by simp
  then have r: "h_state (fst (humanResume s1)) = wa_health.Degraded" "h_band (fst (humanResume s1)) = Critical"
      "cf_eff (h_cfg (fst (humanResume s1))) = cf_eff (h_cfg s)" "sound_evidence (h_evidence (fst (humanResume s1)))"
    using s1 by (simp_all add: humanResume_def Let_def)
  let ?P = "\<lambda>s'. h_state s' = wa_health.Degraded \<and> h_band s' = Critical \<and> cf_eff (h_cfg s') = cf_eff (h_cfg s) \<and>
      sound_evidence (h_evidence s')"
  have "?P (health_run (map (\<lambda>(r, t). Tick r t) later) (fst (humanResume s1)))"
  proof (rule health_run_inv)
    show "?P (fst (humanResume s1))" using r by simp
    fix e s' assume "e \<in> set (map (\<lambda>(r, t). Tick r t) later)" and P: "?P s'"
    then obtain r t where e: "e = Tick r t" "restricted r t" using assms(6) by auto
    from restricted_tick_kept [of s' r t] P e(2) obtain s'' where "evaluate r t s' = Ok s''" "?P s''" by auto
    then show "?P (health_step e s')" using e(1) by (simp add: ok_or_def)
  qed
  then show ?thesis using e s1 by (auto simp: Let_def)
qed

definition restricted_day :: window_row where
  "restricted_day = quiet\<lparr>last_hard_signal_audit_at := Some 0\<rparr>"

lemma critical_band_never_limits_witness:
  "\<exists>s1. evaluate restricted_day 1000 demo_health = Ok s1 \<and> h_state s1 = Paused \<and>
     er_daily_cap (cf_eff (h_cfg (health_run [Tick restricted_day 2000] (fst (humanResume s1))))) = 20"
proof -
  have "restricted restricted_day 1000" "restricted restricted_day 2000"
    by (simp_all add: restricted_def restricted_day_def quiet_def HARD_SIGNAL_WINDOW_MS_def)
  moreover have "er_daily_cap (cf_eff demo_config) = 20"
    by (simp add: demo_config_def provision_eff_def ladder_row_1 WARMUP_LADDER_def)
  ultimately show ?thesis
    using critical_band_never_limits [of demo_health restricted_day 1000 "[(restricted_day, 2000)]"]
    by (auto simp: sound_evidence_def Let_def)
qed

text \<open>
  The tenant route reads the pause reason without a lock, so a restriction that lands between the read and the write is
  resumed without the acknowledgement; the staff route, which locks the row, refuses the same request.
\<close>

theorem unlocked_resume_skips_acknowledgement:
  assumes "h_state s = Paused" "ir_pauseReason (h_inst s) \<noteq> Some PR_provider_restriction" "ir_deletedAt (h_inst s) = None"
    and "code \<in> HARD_RESTRICTION_CODES" "s1 = fst (onConnectionUpdate code now s)"
  shows "ir_pauseReason (h_inst s1) = Some PR_provider_restriction \<and>
    (\<exists>s2. resumeInstance (User u) None (h_inst s) s1 = Ok s2 \<and> h_state s2 = wa_health.Degraded \<and> ir_pauseReason (h_inst s2) = None) \<and>
    resumeInstance (User u) None (h_inst s1) s1 = Err ACKNOWLEDGEMENT_REQUIRED \<and> staffResume None s1 = Err ACKNOWLEDGEMENT_REQUIRED"
  using assms
  by (simp add: onConnectionUpdate_def applyHardSignalPause_def resumeInstance_def staffResume_def humanResume_def Let_def)

lemma unlocked_resume_skips_acknowledgement_witness:
  "\<exists>s2. resumeInstance (User ''u'') None ((h_inst paused_health)\<lparr>ir_pauseReason := Some PR_health_critical\<rparr>)
     (fst (onConnectionUpdate 403 5 (paused_health\<lparr>h_inst := (h_inst paused_health)\<lparr>ir_pauseReason := Some PR_health_critical\<rparr>\<rparr>))) = Ok s2 \<and>
     h_state s2 = wa_health.Degraded"
  using unlocked_resume_skips_acknowledgement [of "paused_health\<lparr>h_inst := (h_inst paused_health)\<lparr>ir_pauseReason := Some PR_health_critical\<rparr>\<rparr>"
      403 _ 5 "''u''", OF _ _ _ _ refl]
  by (auto simp: paused_health_def HARD_RESTRICTION_CODES_def)

end
