(* ===== verification/Template_Vars.thy ===== *)
theory Template_Vars
  imports Encodings
begin

text \<open>
  Message templates, \<open>packages/domain/src/broadcast/vars.ts\<close>: the scanner for \<open>{{token}}\<close>, the resolution of dotted
  paths against a contact, freezing the values when the audience is snapshotted and rendering from the frozen values when
  the recipient is expanded. The last section proves that what was frozen always renders.
\<close>

section \<open>The token scanner\<close>

text \<open>
  \<open>TEMPLATE_TOKEN_RE\<close> is two braces, white space, a name, white space, two braces. A name cannot start or go on with
  white space or a brace, so the expression matches in one way only and is read without backtracking. \<open>space_len\<close> is the
  number of bytes of the white space character at the head of a string in UTF-8, 0 when there is none.
\<close>

definition byte_at :: "string \<Rightarrow> nat \<Rightarrow> nat" where
  "byte_at s i = (if i < length s then of_char (s ! i) else 0)"

definition space_len :: "string \<Rightarrow> nat" where
  "space_len s =
    (let x = byte_at s 0; y = byte_at s 1; z = byte_at s 2 in
     if x \<in> {9, 10, 11, 12, 13, 32} then 1
     else if x = 194 \<and> y = 160 then 2
     else if x = 225 \<and> y = 154 \<and> z = 128 then 3
     else if x = 226 \<and> y = 128 \<and> (128 \<le> z \<and> z \<le> 138 \<or> z \<in> {168, 169, 175}) then 3
     else if x = 226 \<and> y = 129 \<and> z = 159 then 3
     else if x = 227 \<and> y = 128 \<and> z = 128 then 3
     else if x = 239 \<and> y = 187 \<and> z = 191 then 3
     else 0)"

lemma space_len_pos: "space_len s \<noteq> 0 \<Longrightarrow> length (drop (space_len s) s) < length s"
  by (cases s) (auto simp: space_len_def byte_at_def)

function skip_space :: "string \<Rightarrow> string" where
  "skip_space s = (if space_len s = 0 then s else skip_space (drop (space_len s) s))"
  by pat_completeness auto
termination by (relation "measure length") (use space_len_pos in auto)

declare skip_space.simps [simp del]

definition name_start :: "char \<Rightarrow> bool" where
  "name_start c \<longleftrightarrow> CHR ''A'' \<le> c \<and> c \<le> CHR ''Z'' \<or> CHR ''a'' \<le> c \<and> c \<le> CHR ''z'' \<or> c = CHR ''_''"

definition name_char :: "char \<Rightarrow> bool" where
  "name_char c \<longleftrightarrow> name_start c \<or> is_digit c \<or> c = CHR ''.''"

text \<open>One match at the head of the string: the token and what follows it.\<close>

definition match_token :: "string \<Rightarrow> (string \<times> string) option" where
  "match_token s =
    (if take 2 s = ''{{'' then
       (let r = skip_space (drop 2 s); token = takeWhile name_char r; e = skip_space (dropWhile name_char r) in
        if token \<noteq> [] \<and> name_start (hd token) \<and> take 2 e = ''}}'' then Some (token, drop 2 e) else None)
     else None)"

datatype piece = Lit char | Token string

text \<open>\<open>body.matchAll\<close> and \<open>body.replace\<close> both walk the matches from left to right, without overlap.\<close>

lemma length_skip_space: "length (skip_space s) \<le> length s"
proof (induction s rule: skip_space.induct)
  case (1 s)
  then show ?case by (subst skip_space.simps) (auto dest: space_len_pos)
qed

lemma match_token_shorter:
  assumes "match_token s = Some (t, r)"
  shows "length r < length s"
proof -
  define q where "q = skip_space (drop 2 s)"
  have two: "take 2 s = ''{{''" using assms by (simp add: match_token_def split: if_splits)
  then have "2 \<le> length s" by (metis length_Cons length_take list.size(3) min.cobounded1 numeral_2_eq_2)
  have r: "r = drop 2 (skip_space (dropWhile name_char q))"
    using assms by (simp add: match_token_def Let_def q_def split: if_splits)
  have "length r \<le> length (dropWhile name_char q)" using length_skip_space r by (metis diff_le_self length_drop le_trans)
  also have "\<dots> \<le> length q" by (rule length_dropWhile_le)
  also have "\<dots> \<le> length s - 2" using length_skip_space [of "drop 2 s"] by (simp add: q_def)
  finally show ?thesis using \<open>2 \<le> length s\<close> by simp
qed

function pieces :: "string \<Rightarrow> piece list" where
  "pieces s = (case match_token s of
      Some (t, r) \<Rightarrow> Token t # pieces r
    | None \<Rightarrow> (case s of [] \<Rightarrow> [] | c # cs \<Rightarrow> Lit c # pieces cs))"
  by pat_completeness auto
termination by (relation "measure length") (auto dest: match_token_shorter)

declare pieces.simps [simp del]

fun piece_token :: "piece \<Rightarrow> string option" where
  "piece_token (Token t) = Some t"
| "piece_token (Lit c) = None"

definition tokens_of :: "piece list \<Rightarrow> string list" where
  "tokens_of ps = List.map_filter piece_token ps"

lemma tokens_of_simps [simp]:
  "tokens_of [] = []" "tokens_of (Token t # ps) = t # tokens_of ps" "tokens_of (Lit c # ps) = tokens_of ps"
  by (simp_all add: tokens_of_def List.map_filter_simps)

lemma in_tokens_of: "Token t \<in> set ps \<Longrightarrow> t \<in> set (tokens_of ps)"
proof (induction ps)
  case (Cons p ps)
  then show ?case by (cases p) auto
qed simp

definition extractTemplateTokens :: "string \<Rightarrow> string list" where
  "extractTemplateTokens body =
    fold (\<lambda>token ordered. if token \<in> set ordered then ordered else ordered @ [token]) (tokens_of (pieces body)) []"

section \<open>Values\<close>

text \<open>
  The values a path can reach in a JSON document. A finite number stands by the text \<open>String(n)\<close> gives it, which is never
  empty; an array is the object of its indices and its length. Members inherited from a prototype are functions or objects
  without strings or numbers below them, so they never count as present; they are left out.
\<close>

datatype js_value =
    JS_undefined | JS_null | JS_bool bool | JS_string string | JS_number char string | JS_nonfinite
  | JS_object "(string \<times> js_value) list"

fun walk_path :: "js_value \<Rightarrow> string list \<Rightarrow> js_value" where
  "walk_path cursor [] = cursor"
| "walk_path (JS_object kvs) (part # parts) =
    walk_path (case map_of kvs part of None \<Rightarrow> JS_undefined | Some v \<Rightarrow> v) parts"
| "walk_path cursor (part # parts) = JS_undefined"

definition resolveDotPath :: "js_value \<Rightarrow> string \<Rightarrow> js_value" where
  "resolveDotPath source dotPath = walk_path source (split_on (CHR ''.'') dotPath)"

fun resolvePresentValue :: "js_value \<Rightarrow> string option" where
  "resolvePresentValue (JS_string s) = (if s \<noteq> [] then Some s else None)"
| "resolvePresentValue (JS_number c s) = Some (c # s)"
| "resolvePresentValue v = None"

definition missingVarSkipReason :: "string \<Rightarrow> string" where
  "missingVarSkipReason token = ''missing_var:'' @ token"

section \<open>Freezing and rendering\<close>

text \<open>The error of both is the missing token.\<close>

fun freeze_loop :: "js_value \<Rightarrow> string list \<Rightarrow> (string \<times> string) list \<Rightarrow> (string, (string \<times> string) list) result" where
  "freeze_loop source [] vars = Ok vars"
| "freeze_loop source (token # ts) vars =
    (case resolvePresentValue (resolveDotPath source token) of
       None \<Rightarrow> Err token
     | Some resolved \<Rightarrow> freeze_loop source ts ((token, resolved) # vars))"

definition freezeVars :: "string \<Rightarrow> js_value \<Rightarrow> (string, (string \<times> string) list) result" where
  "freezeVars body source = freeze_loop source (extractTemplateTokens body) []"

fun check_vars :: "(string \<times> string) list \<Rightarrow> string list \<Rightarrow> string option" where
  "check_vars vars [] = None"
| "check_vars vars (token # ts) =
    (case map_of vars token of
       None \<Rightarrow> Some token
     | Some v \<Rightarrow> if v = [] then Some token else check_vars vars ts)"

fun render_piece :: "(string \<times> string) list \<Rightarrow> piece \<Rightarrow> string" where
  "render_piece vars (Lit c) = [c]"
| "render_piece vars (Token t) = (case map_of vars t of Some v \<Rightarrow> v | None \<Rightarrow> ''undefined'')"

definition renderVars :: "string \<Rightarrow> (string \<times> string) list \<Rightarrow> (string, string) result" where
  "renderVars body vars =
    (case check_vars vars (extractTemplateTokens body) of
       Some missingToken \<Rightarrow> Err missingToken
     | None \<Rightarrow> Ok (concat (map (render_piece vars) (pieces body))))"

section \<open>What was frozen renders\<close>

lemma fold_first_seen:
  "set (fold (\<lambda>token ordered. if token \<in> set ordered then ordered else ordered @ [token]) ts acc) = set acc \<union> set ts"
  by (induction ts arbitrary: acc) auto

lemma extract_set: "set (extractTemplateTokens body) = set (tokens_of (pieces body))"
  by (simp add: extractTemplateTokens_def fold_first_seen)

lemma freeze_loop_ok:
  "freeze_loop source ts vars = Ok vars' \<Longrightarrow>
    map_of vars' t = (if t \<in> set ts then resolvePresentValue (resolveDotPath source t) else map_of vars t)"
  by (induction ts arbitrary: vars) (auto split: option.splits if_splits)

lemma freeze_loop_err:
  "freeze_loop source ts vars = Err token \<Longrightarrow>
    \<exists>before after. ts = before @ token # after \<and> resolvePresentValue (resolveDotPath source token) = None \<and>
      (\<forall>t\<in>set before. resolvePresentValue (resolveDotPath source t) \<noteq> None)"
proof (induction ts arbitrary: vars)
  case (Cons u ts)
  show ?case
  proof (cases "resolvePresentValue (resolveDotPath source u)")
    case None
    then show ?thesis using Cons.prems by (intro exI [of _ "[]"] exI [of _ ts]) auto
  next
    case (Some v)
    with Cons.prems Cons.IH obtain before after where "ts = before @ token # after"
      "resolvePresentValue (resolveDotPath source token) = None"
      "\<forall>t\<in>set before. resolvePresentValue (resolveDotPath source t) \<noteq> None" by fastforce
    then show ?thesis using Some by (intro exI [of _ "u # before"] exI [of _ after]) auto
  qed
qed simp

lemma check_vars_None: "check_vars vars ts = None \<longleftrightarrow> (\<forall>t\<in>set ts. \<exists>v. map_of vars t = Some v \<and> v \<noteq> [])"
  by (induction ts) (auto split: option.splits)

lemma resolvePresentValue_ne: "resolvePresentValue x = Some v \<Longrightarrow> v \<noteq> []"
  by (cases x) (auto split: if_splits)

lemma freeze_ok_present:
  assumes "freezeVars body source = Ok vars" "t \<in> set (extractTemplateTokens body)"
  shows "\<exists>v. map_of vars t = Some v \<and> v \<noteq> [] \<and> resolvePresentValue (resolveDotPath source t) = Some v"
proof -
  have m: "map_of vars t = resolvePresentValue (resolveDotPath source t)"
    using freeze_loop_ok [of source _ "[]" vars t] assms by (simp add: freezeVars_def)
  have "freeze_loop source ts acc = Ok vars \<Longrightarrow> t \<in> set ts \<Longrightarrow> resolvePresentValue (resolveDotPath source t) \<noteq> None" for ts acc
    by (induction ts arbitrary: acc) (auto split: option.splits)
  then have "resolvePresentValue (resolveDotPath source t) \<noteq> None" using assms by (auto simp: freezeVars_def)
  then show ?thesis using m resolvePresentValue_ne by force
qed

lemma frozen_renders:
  assumes "freezeVars body source = Ok vars"
  shows "renderVars body vars = Ok (concat (map (render_piece vars) (pieces body)))"
proof -
  have "check_vars vars (extractTemplateTokens body) = None"
    unfolding check_vars_None using freeze_ok_present [OF assms] by blast
  then show ?thesis by (simp add: renderVars_def)
qed

lemma pieces_no_tokens: "tokens_of (pieces s) = [] \<Longrightarrow> concat (map (render_piece vars) (pieces s)) = s"
proof (induction s rule: pieces.induct)
  case (1 s)
  show ?case
  proof (cases "match_token s")
    case None
    show ?thesis
    proof (cases s)
      case Nil
      then show ?thesis using None by (simp add: pieces.simps)
    next
      case (Cons c cs)
      then have p: "pieces s = Lit c # pieces cs" using None by (simp add: pieces.simps)
      then have "tokens_of (pieces cs) = []" using "1.prems" by simp
      then show ?thesis using "1.IH"(1) [OF None Cons] p Cons by simp
    qed
  next
    case (Some tr)
    then have "pieces s = Token (fst tr) # pieces (snd tr)" by (subst pieces.simps) (simp split: prod.splits)
    then show ?thesis using "1.prems" by simp
  qed
qed

text \<open>
  A template whose variables were frozen for a recipient renders for that recipient, with the frozen value in place of
  every token and the rest of the body unchanged; when freezing fails, it names the first token in the order of the body
  that has no value; a body without tokens renders to itself.
\<close>

theorem frozen_template_renders:
  "(freezeVars body source = Ok vars \<longrightarrow>
      renderVars body vars = Ok (concat (map (\<lambda>p. case p of Lit c \<Rightarrow> [c]
        | Token t \<Rightarrow> the (resolvePresentValue (resolveDotPath source t))) (pieces body)))) \<and>
   (freezeVars body source = Err token \<longrightarrow>
      (\<exists>before after. extractTemplateTokens body = before @ token # after \<and>
        resolvePresentValue (resolveDotPath source token) = None \<and>
        (\<forall>t\<in>set before. resolvePresentValue (resolveDotPath source t) \<noteq> None))) \<and>
   (extractTemplateTokens body = [] \<longrightarrow> renderVars body vars = Ok body)"
proof (intro conjI impI)
  assume ok: "freezeVars body source = Ok vars"
  have "render_piece vars p = (case p of Lit c \<Rightarrow> [c] | Token t \<Rightarrow> the (resolvePresentValue (resolveDotPath source t)))"
    if "p \<in> set (pieces body)" for p
  proof (cases p)
    case (Token t)
    then have "t \<in> set (tokens_of (pieces body))" using that by (simp add: in_tokens_of)
    then have "t \<in> set (extractTemplateTokens body)" by (simp add: extract_set)
    from freeze_ok_present [OF ok this] Token show ?thesis by auto
  qed simp
  then have "map (render_piece vars) (pieces body) = map (\<lambda>p. case p of Lit c \<Rightarrow> [c]
      | Token t \<Rightarrow> the (resolvePresentValue (resolveDotPath source t))) (pieces body)" by simp
  then show "renderVars body vars = Ok (concat (map (\<lambda>p. case p of Lit c \<Rightarrow> [c]
      | Token t \<Rightarrow> the (resolvePresentValue (resolveDotPath source t))) (pieces body)))"
    using frozen_renders [OF ok] by (simp only:)
next
  assume "freezeVars body source = Err token"
  then show "\<exists>before after. extractTemplateTokens body = before @ token # after \<and>
      resolvePresentValue (resolveDotPath source token) = None \<and>
      (\<forall>t\<in>set before. resolvePresentValue (resolveDotPath source t) \<noteq> None)"
    unfolding freezeVars_def by (rule freeze_loop_err)
next
  assume "extractTemplateTokens body = []"
  then have "tokens_of (pieces body) = []" by (metis extract_set set_empty2 list.set(1))
  then show "renderVars body vars = Ok body"
    using \<open>extractTemplateTokens body = []\<close> by (simp add: renderVars_def pieces_no_tokens)
qed

definition demo_source :: js_value where
  "demo_source = JS_object [(''first_name'', JS_string ''Asha''), (''attrs'', JS_object [(''n'', JS_number (CHR ''7'') '''')])]"

lemma frozen_template_renders_witness:
  "renderVars ''Hi {{ first_name }}, {{{attrs.n}}'' [(''attrs.n'', ''7''), (''first_name'', ''Asha'')] = Ok ''Hi Asha, {7'' \<and>
   renderVars ''no { token }}'' [] = Ok ''no { token }}''"
proof -
  have f: "freezeVars ''Hi {{ first_name }}, {{{attrs.n}}'' demo_source = Ok [(''attrs.n'', ''7''), (''first_name'', ''Asha'')]"
    by code_simp
  have t: "concat (map (\<lambda>p. case p of Lit c \<Rightarrow> [c]
      | Token t \<Rightarrow> the (resolvePresentValue (resolveDotPath demo_source t))) (pieces ''Hi {{ first_name }}, {{{attrs.n}}'')) = ''Hi Asha, {7''"
    by code_simp
  have e: "extractTemplateTokens ''no { token }}'' = []" by code_simp
  show ?thesis
    using frozen_template_renders [of "''Hi {{ first_name }}, {{{attrs.n}}''" demo_source] f t
      frozen_template_renders [of "''no { token }}''" JS_null "[]" "[]"] e by simp
qed

end
