(* ===== verification/Broadcast.thy ===== *)
theory Broadcast
  imports Complex_Main Fsm Template_Vars
begin

text \<open>
  Broadcasts, \<open>modules/broadcasts\<close>: the lifecycle mutations of a campaign, the snapshot of its audience into recipients,
  the expansion of recipients into jobs, the bookkeeping of a cancel, the progress funnel that recounts the recipients and
  completes the campaign, the stamps of send results and receipts, the sweeps that drive them and the token bucket they
  share. One definition is one transaction or one statement; the expansion is given as its reads and its writes, so that
  other transactions can be placed between them.
\<close>

section \<open>Tables\<close>

datatype recipient_status =
    Rc_pending | Rc_skipped | Rc_queued | Rc_sent | Rc_delivered | Rc_read | Rc_failed | Rc_cancelled

record recipient =
  rc_id :: int
  rc_client :: string
  rc_campaign :: string
  rc_target :: nat
  rc_jid :: string
  rc_vars :: "(string \<times> string) list"
  rc_status :: recipient_status
  rc_skip_reason :: "string option"
  rc_failure :: "string option"
  rc_job :: "string option"
  rc_charged :: "int option"
  rc_delivered_at :: "int option"
  rc_read_at :: "int option"

text \<open>
  The audience of a campaign: contact ids and tags, or group ids. A uuid that is a keyset cursor is its number, so that
  \<open>ORDER BY id\<close> and \<open>id > cursor\<close> are the order of the numbers; the zero uuid is 0. \<open>rc_target\<close> is
  \<open>coalesce(contact_id, group_id)\<close>, the key of \<open>cr_campaign_target_uq\<close>.
\<close>

datatype audience = Contacts_audience "nat list" "string list" | Groups_audience "nat list"

record contact =
  co_id :: nat
  co_client :: string
  co_deleted :: bool
  co_jid :: string
  co_hash :: string
  co_phone :: string
  co_first :: "string option"
  co_last :: "string option"
  co_display :: "string option"
  co_attrs :: js_value
  co_tags :: "string list"

datatype group_role = Role_member | Role_admin | Role_superadmin

record wa_group =
  gr_id :: nat
  gr_client :: string
  gr_instance :: string
  gr_jid :: string
  gr_left :: bool
  gr_announce :: bool
  gr_role :: "group_role option"
  gr_enabled :: bool
  gr_devices :: int

record campaign_row =
  cp_id :: string
  cp_client :: string
  cp_instance :: string
  cp_idem :: string
  cp_audience :: audience
  cp_body :: string
  cp_status :: campaign_status
  cp_snapshot_cursor :: "nat option"
  cp_snapshot_done :: bool
  cp_audience_count :: "int option"
  cp_expand_cursor :: int
  cp_expand_done :: bool
  cp_cancel_reason :: "string option"
  cp_paused_by :: "string option"
  cp_updated :: int

record campaign_counters =
  ct_client :: string
  ct_total :: int
  ct_pending :: int
  ct_skipped :: int
  ct_queued :: int
  ct_sent :: int
  ct_delivered :: int
  ct_read :: int
  ct_failed :: int
  ct_cancelled :: int
  ct_charged :: int

definition no_counts :: "string \<Rightarrow> campaign_counters" where
  "no_counts client = \<lparr>ct_client = client, ct_total = 0, ct_pending = 0, ct_skipped = 0, ct_queued = 0, ct_sent = 0, ct_delivered = 0,
     ct_read = 0, ct_failed = 0, ct_cancelled = 0, ct_charged = 0\<rparr>"

record job_ref =
  jf_public :: string
  jf_client :: string
  jf_instance :: string
  jf_job :: int
  jf_dedupe :: string

record campaign_job =
  cj_id :: int
  cj_client :: string
  cj_instance :: string
  cj_campaign :: string
  cj_epoch :: int
  cj_jid :: string
  cj_text :: string
  cj_status :: job_status
  cj_cancel_reason :: "string option"

record broadcast_db =
  bd_campaigns :: "campaign_row list"
  bd_recipients :: "recipient list"
  bd_next_recipient :: int
  bd_counters :: "string \<Rightarrow> campaign_counters option"
  bd_refs :: "job_ref list"
  bd_jobs :: "campaign_job list"
  bd_next_job :: int
  bd_contacts :: "contact list"
  bd_groups :: "wa_group list"
  bd_opted :: "(string \<times> string) list"
  bd_limit :: "string \<Rightarrow> int option"
  bd_epoch :: "string \<times> string \<Rightarrow> int option"
  bd_group_cap :: "string \<times> string \<Rightarrow> int option"
  bd_audit :: "(string \<times> string \<times> string) list"
  bd_progress :: "(string \<times> int \<times> int \<times> int) list"

datatype broadcast_error =
    BroadcastActorForbidden | GroupsAudienceTemplateVars | InstanceNotFound | BroadcastNotFound
  | IllegalBroadcastTransition string | BroadcastLimit string | KeyProviderMissing | NotAGroupJid string
  | UniqueViolation | CounterRowMissing

section \<open>Lifecycle (lifecycle.service.ts, lifecycle-cancel-in-tx.ts, broadcasts.repo.ts)\<close>

datatype actor_kind = Actor_user | Actor_api_key | Actor_system | Actor_staff

record broadcast_actor =
  ac_kind :: actor_kind
  ac_user :: "string option"
  ac_staff :: "string option"

definition named :: "string option \<Rightarrow> bool" where
  "named x \<longleftrightarrow> (case x of None \<Rightarrow> False | Some s \<Rightarrow> skip_space s \<noteq> [])"

definition assertUserActor :: "broadcast_actor \<Rightarrow> bool" where
  "assertUserActor a \<longleftrightarrow> ac_kind a = Actor_user \<and> named (ac_user a)"

definition assertUserOrStaffActor :: "broadcast_actor \<Rightarrow> bool" where
  "assertUserOrStaffActor a \<longleftrightarrow>
    ac_kind a = Actor_user \<and> named (ac_user a) \<or> ac_kind a = Actor_staff \<and> named (ac_staff a)"

definition readCampaign :: "string \<Rightarrow> string \<Rightarrow> broadcast_db \<Rightarrow> campaign_row option" where
  "readCampaign client cid db = find (\<lambda>c. cp_id c = cid \<and> cp_client c = client) (bd_campaigns db)"

definition update_where :: "('a \<Rightarrow> bool) \<Rightarrow> ('a \<Rightarrow> 'a) \<Rightarrow> 'a list \<Rightarrow> 'a list" where
  "update_where p f xs = map (\<lambda>x. if p x then f x else x) xs"

text \<open>The one conditional update of a status; the number of rows decides. \<open>set\<close> is the extra \<open>SET\<close> list.\<close>

definition hits :: "string \<Rightarrow> string \<Rightarrow> campaign_status list \<Rightarrow> campaign_row \<Rightarrow> bool" where
  "hits client cid froms c \<longleftrightarrow> cp_id c = cid \<and> cp_client c = client \<and> cp_status c \<in> set froms"

definition campaign_transition :: "string \<Rightarrow> string \<Rightarrow> campaign_status list \<Rightarrow> campaign_status \<Rightarrow> (campaign_row \<Rightarrow> campaign_row) \<Rightarrow> int \<Rightarrow>
    broadcast_db \<Rightarrow> broadcast_db \<times> bool" where
  "campaign_transition client cid froms to extra now db =
    (db\<lparr>bd_campaigns := update_where (hits client cid froms) (\<lambda>c. (extra c)\<lparr>cp_status := to, cp_updated := now\<rparr>) (bd_campaigns db)\<rparr>,
     list_ex (hits client cid froms) (bd_campaigns db))"

definition audit :: "string \<Rightarrow> string \<Rightarrow> string \<Rightarrow> broadcast_db \<Rightarrow> broadcast_db" where
  "audit client action target db = db\<lparr>bd_audit := (client, action, target) # bd_audit db\<rparr>"

record create_input =
  ci_client :: string
  ci_idem :: string
  ci_instance :: string
  ci_audience :: audience
  ci_body :: string

definition draft_row :: "create_input \<Rightarrow> string \<Rightarrow> int \<Rightarrow> campaign_row" where
  "draft_row i new now = \<lparr>cp_id = new, cp_client = ci_client i, cp_instance = ci_instance i, cp_idem = ci_idem i,
     cp_audience = ci_audience i, cp_body = ci_body i, cp_status = Camp_draft, cp_snapshot_cursor = None,
     cp_snapshot_done = False, cp_audience_count = None, cp_expand_cursor = 0, cp_expand_done = False,
     cp_cancel_reason = None, cp_paused_by = None, cp_updated = now\<rparr>"

text \<open>A replay of the idempotency key returns the first row; \<open>new\<close> is the random uuid of a new one.\<close>

definition createCampaign :: "create_input \<Rightarrow> string \<Rightarrow> int \<Rightarrow> broadcast_db \<Rightarrow> broadcast_db \<times> string \<times> bool" where
  "createCampaign i new now db =
    (case find (\<lambda>c. cp_client c = ci_client i \<and> cp_idem c = ci_idem i) (bd_campaigns db) of
       Some c \<Rightarrow> (db, cp_id c, False)
     | None \<Rightarrow> (db\<lparr>bd_campaigns := bd_campaigns db @ [draft_row i new now],
                   bd_counters := (bd_counters db)(new \<mapsto> no_counts (ci_client i))\<rparr>, new, True))"

definition createBroadcast :: "broadcast_actor \<Rightarrow> create_input \<Rightarrow> string \<Rightarrow> int \<Rightarrow> broadcast_db \<Rightarrow>
    broadcast_db \<times> (broadcast_error, campaign_row) result" where
  "createBroadcast actor i new now db =
    (if \<not> assertUserActor actor then (db, Err BroadcastActorForbidden)
     else if (case ci_audience i of Groups_audience _ \<Rightarrow> extractTemplateTokens (ci_body i) \<noteq> [] | _ \<Rightarrow> False)
     then (db, Err GroupsAudienceTemplateVars)
     else if bd_epoch db (ci_client i, ci_instance i) = None then (db, Err InstanceNotFound)
     else
       (let (db1, cid, created) = createCampaign i new now db;
            db2 = (if created then audit (ci_client i) ''broadcast.create'' cid db1 else db1) in
        case readCampaign (ci_client i) cid db2 of
          None \<Rightarrow> (db, Err BroadcastNotFound)
        | Some row \<Rightarrow> (db2, Ok row)))"

text \<open>One mutation under \<open>withTenant\<close>: an error rolls everything back.\<close>

definition mutateOne :: "string \<Rightarrow> string \<Rightarrow> campaign_status list \<Rightarrow> campaign_status \<Rightarrow> string \<Rightarrow> (campaign_row \<Rightarrow> campaign_row) \<Rightarrow>
    int \<Rightarrow> broadcast_db \<Rightarrow> broadcast_db \<times> (broadcast_error, unit) result" where
  "mutateOne client cid froms to action extra now db =
    (case readCampaign client cid db of
       None \<Rightarrow> (db, Err BroadcastNotFound)
     | Some _ \<Rightarrow>
        (let (db1, moved) = campaign_transition client cid froms to extra now db in
         if \<not> moved then (db, Err (IllegalBroadcastTransition cid)) else (audit client action cid db1, Ok ())))"

definition startBroadcast :: "broadcast_actor \<Rightarrow> string \<Rightarrow> string \<Rightarrow> int \<Rightarrow> broadcast_db \<Rightarrow> broadcast_db \<times> (broadcast_error, unit) result" where
  "startBroadcast actor client cid now db =
    (if \<not> assertUserActor actor then (db, Err BroadcastActorForbidden)
     else mutateOne client cid [Camp_draft, Camp_scheduled] Camp_snapshotting ''broadcast.start'' id now db)"

definition pauseBroadcast :: "broadcast_actor \<Rightarrow> string \<Rightarrow> string \<Rightarrow> int \<Rightarrow> broadcast_db \<Rightarrow> broadcast_db \<times> (broadcast_error, unit) result" where
  "pauseBroadcast actor client cid now db =
    (if \<not> assertUserActor actor then (db, Err BroadcastActorForbidden)
     else mutateOne client cid [Camp_running, Camp_expanding] Camp_paused ''broadcast.pause''
       (\<lambda>c. c\<lparr>cp_paused_by := ac_user actor\<rparr>) now db)"

text \<open>The destination of a resume depends on the row read; the wake published after the commit is a hint and is left out.\<close>

definition resumeBroadcast :: "broadcast_actor \<Rightarrow> string \<Rightarrow> string \<Rightarrow> int \<Rightarrow> broadcast_db \<Rightarrow> broadcast_db \<times> (broadcast_error, unit) result" where
  "resumeBroadcast actor client cid now db =
    (if \<not> assertUserActor actor then (db, Err BroadcastActorForbidden)
     else case readCampaign client cid db of
       None \<Rightarrow> (db, Err BroadcastNotFound)
     | Some existing \<Rightarrow>
        (case nextCampaignState Camp_paused Ev_resume (Some (cp_expand_done existing)) of
           Inl _ \<Rightarrow> (db, Err (IllegalBroadcastTransition cid))
         | Inr to \<Rightarrow> mutateOne client cid [Camp_paused] to ''broadcast.resume'' id now db))"

definition NON_TERMINAL_STATUSES :: "campaign_status list" where
  "NON_TERMINAL_STATUSES = [Camp_draft, Camp_scheduled, Camp_snapshotting, Camp_expanding, Camp_running, Camp_paused]"

definition cancelBroadcastInTx :: "broadcast_actor \<Rightarrow> string \<Rightarrow> string \<Rightarrow> string option \<Rightarrow> int \<Rightarrow> broadcast_db \<Rightarrow>
    broadcast_db \<times> (broadcast_error, unit) result" where
  "cancelBroadcastInTx actor client cid reason now db =
    (if \<not> assertUserOrStaffActor actor then (db, Err BroadcastActorForbidden)
     else mutateOne client cid NON_TERMINAL_STATUSES Camp_cancelled ''broadcast.cancel''
       (\<lambda>c. c\<lparr>cp_cancel_reason := Some (case reason of Some r \<Rightarrow> r
          | None \<Rightarrow> if ac_kind actor = Actor_staff then ''staff_cancelled'' else ''user_requested'')\<rparr>) now db)"

section \<open>Snapshot (snapshot.worker.ts, snapshot.repo.ts, snapshot-vars.ts, audience-groups.ts, send-eligibility.ts)\<close>

definition matches_audience :: "string \<Rightarrow> nat list \<Rightarrow> string list \<Rightarrow> contact \<Rightarrow> bool" where
  "matches_audience client ids tags c \<longleftrightarrow> co_client c = client \<and> \<not> co_deleted c \<and>
    (co_id c \<in> set ids \<or> list_ex (\<lambda>t. t \<in> set tags) (co_tags c))"

definition countAudience :: "string \<Rightarrow> nat list \<Rightarrow> string list \<Rightarrow> broadcast_db \<Rightarrow> int" where
  "countAudience client ids tags db = int (length (filter (matches_audience client ids tags) (bd_contacts db)))"

definition readSnapshotBatch :: "string \<Rightarrow> nat option \<Rightarrow> nat list \<Rightarrow> string list \<Rightarrow> nat \<Rightarrow> broadcast_db \<Rightarrow> contact list" where
  "readSnapshotBatch client cursor ids tags n db =
    take n (sort_key co_id (filter (\<lambda>c. matches_audience client ids tags c \<and> (case cursor of None \<Rightarrow> 0 | Some i \<Rightarrow> i) < co_id c)
      (bd_contacts db)))"

fun opt_string :: "string option \<Rightarrow> js_value" where
  "opt_string None = JS_null"
| "opt_string (Some s) = JS_string s"

definition freezeVarsSource :: "contact \<Rightarrow> js_value" where
  "freezeVarsSource c = JS_object [(''first_name'', opt_string (co_first c)), (''last_name'', opt_string (co_last c)),
     (''display_name'', opt_string (co_display c)), (''phone_e164'', JS_string (co_phone c)), (''attrs'', co_attrs c)]"

definition recipientJidFor :: "string \<Rightarrow> string" where
  "recipientJidFor waJid = (let j = jr_jid (normaliseJid (\<lambda>_. None) waJid) in if j \<noteq> [] then j else waJid)"

record insert_row =
  ir_target :: nat
  ir_jid :: string
  ir_status :: recipient_status
  ir_skip_reason :: "string option"
  ir_vars :: "(string \<times> string) list"

definition contact_insert :: "(string \<times> string) list \<Rightarrow> string \<Rightarrow> contact \<Rightarrow> insert_row" where
  "contact_insert opted body c =
    (if (co_client c, co_hash c) \<in> set opted
     then \<lparr>ir_target = co_id c, ir_jid = recipientJidFor (co_jid c), ir_status = Rc_skipped, ir_skip_reason = Some ''opted_out'', ir_vars = []\<rparr>
     else case freezeVars body (freezeVarsSource c) of
       Inl token \<Rightarrow> \<lparr>ir_target = co_id c, ir_jid = recipientJidFor (co_jid c), ir_status = Rc_skipped,
           ir_skip_reason = Some (missingVarSkipReason token), ir_vars = []\<rparr>
     | Inr vars \<Rightarrow> \<lparr>ir_target = co_id c, ir_jid = recipientJidFor (co_jid c), ir_status = Rc_pending, ir_skip_reason = None, ir_vars = vars\<rparr>)"

datatype group_reason = NOT_SEND_ENABLED | ANNOUNCE_MEMBER_ONLY | GROUP_CAP_ZERO_AT_TIER | DEVICE_BUDGET_EXCEEDED

fun reason_text :: "group_reason \<Rightarrow> string" where
  "reason_text NOT_SEND_ENABLED = ''NOT_SEND_ENABLED''"
| "reason_text ANNOUNCE_MEMBER_ONLY = ''ANNOUNCE_MEMBER_ONLY''"
| "reason_text GROUP_CAP_ZERO_AT_TIER = ''GROUP_CAP_ZERO_AT_TIER''"
| "reason_text DEVICE_BUDGET_EXCEEDED = ''DEVICE_BUDGET_EXCEEDED''"

fun isAdminRole :: "group_role option \<Rightarrow> bool" where
  "isAdminRole (Some Role_admin) = True"
| "isAdminRole (Some Role_superadmin) = True"
| "isAdminRole _ = False"

definition MAX_TRACKED_PARTICIPANT_DEVICES :: int where "MAX_TRACKED_PARTICIPANT_DEVICES = 2000"

definition canSendToGroup :: "bool \<Rightarrow> bool \<Rightarrow> group_role option \<Rightarrow> int \<Rightarrow> int \<Rightarrow> group_reason option" where
  "canSendToGroup sendEnabled isAnnounce ourRole effGroupDailyCap trackedTotal =
    (if \<not> sendEnabled then Some NOT_SEND_ENABLED
     else if isAnnounce \<and> \<not> isAdminRole ourRole then Some ANNOUNCE_MEMBER_ONLY
     else if trackedTotal > MAX_TRACKED_PARTICIPANT_DEVICES then Some DEVICE_BUDGET_EXCEEDED
     else if effGroupDailyCap \<le> 0 then Some GROUP_CAP_ZERO_AT_TIER
     else None)"

definition readGroupSnapshotBatch :: "string \<Rightarrow> string \<Rightarrow> nat option \<Rightarrow> nat list \<Rightarrow> nat \<Rightarrow> broadcast_db \<Rightarrow> wa_group list" where
  "readGroupSnapshotBatch client inst cursor ids n db =
    take n (sort_key gr_id (filter (\<lambda>g. gr_client g = client \<and> gr_instance g = inst \<and> \<not> gr_left g \<and>
      (case cursor of None \<Rightarrow> 0 | Some i \<Rightarrow> i) < gr_id g \<and> (ids = [] \<or> gr_id g \<in> set ids)) (bd_groups db)))"

definition readGroupTrackedDevicesInstanceTotal :: "string \<Rightarrow> string \<Rightarrow> broadcast_db \<Rightarrow> int" where
  "readGroupTrackedDevicesInstanceTotal client inst db =
    sum_list (map gr_devices (filter (\<lambda>g. gr_client g = client \<and> gr_instance g = inst \<and> gr_enabled g \<and> \<not> gr_left g) (bd_groups db)))"

definition group_insert :: "int \<Rightarrow> int \<Rightarrow> wa_group \<Rightarrow> insert_row" where
  "group_insert cap devices g =
    (let elig = canSendToGroup (gr_enabled g) (gr_announce g) (gr_role g) cap devices in
     case elig of
       Some reason \<Rightarrow>
         if reason \<noteq> GROUP_CAP_ZERO_AT_TIER
         then \<lparr>ir_target = gr_id g, ir_jid = gr_jid g, ir_status = Rc_skipped, ir_skip_reason = Some (reason_text reason), ir_vars = []\<rparr>
         else \<lparr>ir_target = gr_id g, ir_jid = gr_jid g, ir_status = Rc_pending, ir_skip_reason = None, ir_vars = []\<rparr>
     | None \<Rightarrow> \<lparr>ir_target = gr_id g, ir_jid = gr_jid g, ir_status = Rc_pending, ir_skip_reason = None, ir_vars = []\<rparr>)"

text \<open>\<open>ON CONFLICT DO NOTHING\<close>: a row of a target the campaign already has is dropped; its sequence number is used up.\<close>

definition insert_recipient :: "string \<Rightarrow> string \<Rightarrow> insert_row \<Rightarrow> broadcast_db \<times> int \<times> int \<Rightarrow> broadcast_db \<times> int \<times> int" where
  "insert_recipient client cid row acc =
    (let (db, p, s) = acc; next = bd_next_recipient db in
     if list_ex (\<lambda>r. rc_campaign r = cid \<and> rc_target r = ir_target row) (bd_recipients db)
     then (db\<lparr>bd_next_recipient := next + 1\<rparr>, p, s)
     else (db\<lparr>bd_next_recipient := next + 1, bd_recipients := bd_recipients db @
             [\<lparr>rc_id = next, rc_client = client, rc_campaign = cid, rc_target = ir_target row, rc_jid = ir_jid row,
               rc_vars = ir_vars row, rc_status = ir_status row, rc_skip_reason = ir_skip_reason row, rc_failure = None,
               rc_job = None, rc_charged = None, rc_delivered_at = None, rc_read_at = None\<rparr>]\<rparr>,
           if ir_status row = Rc_pending then p + 1 else p, if ir_status row = Rc_pending then s else s + 1))"

definition insertRecipientBatch :: "string \<Rightarrow> string \<Rightarrow> insert_row list \<Rightarrow> broadcast_db \<Rightarrow> broadcast_db \<times> int \<times> int" where
  "insertRecipientBatch client cid rows db = fold (insert_recipient client cid) rows (db, 0, 0)"

definition the_campaign :: "string \<Rightarrow> string \<Rightarrow> campaign_row \<Rightarrow> bool" where
  "the_campaign client cid c \<longleftrightarrow> cp_id c = cid \<and> cp_client c = client"

definition advanceSnapshotCursor :: "string \<Rightarrow> string \<Rightarrow> nat \<Rightarrow> broadcast_db \<Rightarrow> broadcast_db" where
  "advanceSnapshotCursor client cid last_id db = db\<lparr>bd_campaigns := update_where
     (\<lambda>c. the_campaign client cid c \<and> (case cp_snapshot_cursor c of None \<Rightarrow> True | Some i \<Rightarrow> i < last_id))
     (\<lambda>c. c\<lparr>cp_snapshot_cursor := Some last_id\<rparr>) (bd_campaigns db)\<rparr>"

definition update_counters :: "string \<Rightarrow> string \<Rightarrow> (campaign_counters \<Rightarrow> campaign_counters) \<Rightarrow> broadcast_db \<Rightarrow> broadcast_db" where
  "update_counters client cid f db = db\<lparr>bd_counters := (bd_counters db)(cid := map_option
     (\<lambda>k. if ct_client k = client then f k else k) (bd_counters db cid))\<rparr>"

definition bumpSnapshotCounters :: "string \<Rightarrow> string \<Rightarrow> int \<Rightarrow> int \<Rightarrow> broadcast_db \<Rightarrow> broadcast_db" where
  "bumpSnapshotCounters client cid p s = update_counters client cid
     (\<lambda>k. k\<lparr>ct_total := ct_total k + (p + s), ct_pending := ct_pending k + p, ct_skipped := ct_skipped k + s\<rparr>)"

definition failSnapshotForLimit :: "string \<Rightarrow> string \<Rightarrow> string \<Rightarrow> int \<Rightarrow> broadcast_db \<Rightarrow> broadcast_db" where
  "failSnapshotForLimit client cid reason now db =
    fst (campaign_transition client cid [Camp_snapshotting] Camp_failed (\<lambda>c. c\<lparr>cp_cancel_reason := Some reason\<rparr>) now db)"

definition recipients_of :: "string \<Rightarrow> string \<Rightarrow> broadcast_db \<Rightarrow> recipient list" where
  "recipients_of client cid db = filter (\<lambda>r. rc_campaign r = cid \<and> rc_client r = client) (bd_recipients db)"

definition completeSnapshot :: "string \<Rightarrow> string \<Rightarrow> int \<Rightarrow> broadcast_db \<Rightarrow> broadcast_db \<times> int" where
  "completeSnapshot client cid now db =
    (let n = int (length (recipients_of client cid db)) in
     (fst (campaign_transition client cid [Camp_snapshotting] Camp_expanding
        (\<lambda>c. c\<lparr>cp_snapshot_done := True, cp_audience_count := Some n\<rparr>) now db), n))"

definition int_text :: "int \<Rightarrow> string" where
  "int_text i = (if i < 0 then CHR ''-'' # dec (nat (- i)) else dec (nat i))"

definition audienceOverLimitReason :: "int \<Rightarrow> int \<Rightarrow> string" where
  "audienceOverLimitReason count limit = ''audience_over_plan_limit:'' @ int_text count @ ''/'' @ int_text limit"

datatype snapshot_result = Sn_batch int int nat | Sn_done int

text \<open>What both kinds of audience do with the insert rows of a non-empty batch.\<close>

definition write_batch :: "string \<Rightarrow> string \<Rightarrow> nat \<Rightarrow> int \<Rightarrow> insert_row list \<Rightarrow> broadcast_db \<Rightarrow> broadcast_db \<times> snapshot_result" where
  "write_batch client cid n now rows db =
    (let (db1, p, s) = insertRecipientBatch client cid rows db;
         last_id = ir_target (last rows);
         db2 = bumpSnapshotCounters client cid p s (advanceSnapshotCursor client cid last_id db1) in
     if length rows < n then (let (db3, allrows) = completeSnapshot client cid now db2 in (db3, Sn_done allrows))
     else (db2, Sn_batch p s last_id))"

definition runGroupsSnapshotBatch :: "campaign_row \<Rightarrow> nat list \<Rightarrow> nat \<Rightarrow> int \<Rightarrow> broadcast_db \<Rightarrow>
    broadcast_db \<times> (broadcast_error, snapshot_result) result" where
  "runGroupsSnapshotBatch c ids n now db =
    (let client = cp_client c; inst = cp_instance c; cid = cp_id c;
         rows = readGroupSnapshotBatch client inst (cp_snapshot_cursor c) ids n db in
     if rows = [] then (let (db1, allrows) = completeSnapshot client cid now db in (db1, Ok (Sn_done allrows)))
     else
       (let cap = (case bd_group_cap db (client, inst) of None \<Rightarrow> 0 | Some k \<Rightarrow> k);
            devices = readGroupTrackedDevicesInstanceTotal client inst db in
        case find (\<lambda>g. \<not> isGroupJid (gr_jid g)) rows of
          Some g \<Rightarrow> (db, Err (NotAGroupJid (gr_jid g)))
        | None \<Rightarrow> (let (db1, r) = write_batch client cid n now (map (group_insert cap devices) rows) db in (db1, Ok r))))"

text \<open>
  One batch. \<open>key\<close> says whether the caller supplied \<open>deps.keyProvider\<close>. The failure of the ceiling is committed before it
  is thrown; every other throw rolls the transaction back.
\<close>

definition runSnapshotBatch :: "bool \<Rightarrow> nat \<Rightarrow> int \<Rightarrow> string \<Rightarrow> string \<Rightarrow> broadcast_db \<Rightarrow>
    broadcast_db \<times> (broadcast_error, snapshot_result) result" where
  "runSnapshotBatch key n now client cid db =
    (case readCampaign client cid db of
       None \<Rightarrow> (db, Ok (Sn_done 0))
     | Some c \<Rightarrow>
        if cp_status c \<noteq> Camp_snapshotting then (db, Ok (Sn_done 0))
        else (case cp_audience c of
          Groups_audience ids \<Rightarrow>
            if \<not> key then (db, Err KeyProviderMissing) else runGroupsSnapshotBatch c ids n now db
        | Contacts_audience ids tags \<Rightarrow>
            (let limit = bd_limit db client; count = countAudience client ids tags db in
             if cp_snapshot_cursor c = None \<and> limit = None
             then (failSnapshotForLimit client cid ''no_plan'' now db, Err (BroadcastLimit ''no_plan''))
             else if cp_snapshot_cursor c = None \<and> count > the limit
             then (failSnapshotForLimit client cid (audienceOverLimitReason count (the limit)) now db,
                   Err (BroadcastLimit ''audience_over_plan_limit''))
             else
               (let rows = readSnapshotBatch client (cp_snapshot_cursor c) ids tags n db in
                if rows = [] then (let (db1, allrows) = completeSnapshot client cid now db in (db1, Ok (Sn_done allrows)))
                else (let (db1, r) = write_batch client cid n now (map (contact_insert (bd_opted db) (cp_body c)) rows) db
                      in (db1, Ok r))))))"

text \<open>\<open>broadcast-campaigns-pending.sql\<close> and the sweep. The sweep has no key provider to pass on, and swallows every error.\<close>

definition broadcast_campaigns_pending :: "campaign_status \<Rightarrow> nat \<Rightarrow> broadcast_db \<Rightarrow> campaign_row list" where
  "broadcast_campaigns_pending st limit db = take limit (sort_key cp_updated (filter (\<lambda>c. cp_status c = st) (bd_campaigns db)))"

definition DEFAULT_MAX_CAMPAIGNS_PER_SWEEP :: nat where "DEFAULT_MAX_CAMPAIGNS_PER_SWEEP = 20"

definition runOneBroadcastSnapshotSweep :: "nat \<Rightarrow> int \<Rightarrow> broadcast_db \<Rightarrow> broadcast_db" where
  "runOneBroadcastSnapshotSweep n now db =
    fold (\<lambda>c d. fst (runSnapshotBatch False n now (cp_client c) (cp_id c) d))
      (broadcast_campaigns_pending Camp_snapshotting DEFAULT_MAX_CAMPAIGNS_PER_SWEEP db) db"

section \<open>The expansion budget (expansion-budget.ts)\<close>

record expansion_budget =
  eb_rate :: real
  eb_burst :: real
  eb_tokens :: real
  eb_last :: int

definition createExpansionBudget :: "real \<Rightarrow> real \<Rightarrow> int \<Rightarrow> expansion_budget" where
  "createExpansionBudget rate burst now = \<lparr>eb_rate = rate, eb_burst = burst, eb_tokens = burst, eb_last = now\<rparr>"

definition refill :: "int \<Rightarrow> expansion_budget \<Rightarrow> expansion_budget" where
  "refill now b =
    (let elapsedMs = now - eb_last b in
     if elapsedMs \<le> 0 then b
     else b\<lparr>eb_tokens := min (eb_burst b) (eb_tokens b + real_of_int elapsedMs / 1000 * eb_rate b), eb_last := now\<rparr>)"

definition tryTake :: "real \<Rightarrow> int \<Rightarrow> expansion_budget \<Rightarrow> expansion_budget \<times> bool" where
  "tryTake n now b = (let b1 = refill now b in if eb_tokens b1 < n then (b1, False) else (b1\<lparr>eb_tokens := eb_tokens b1 - n\<rparr>, True))"

section \<open>Expansion (expansion.worker.ts, expansion.repo.ts, expand-campaign-batch.sql)\<close>

datatype expansion_result = Ex_batch int int int | Ex_held string | Ex_done

definition readInstanceQueueDepth :: "string \<Rightarrow> string \<Rightarrow> nat \<Rightarrow> broadcast_db \<Rightarrow> nat" where
  "readInstanceQueueDepth client inst limitPlusOne db =
    length (take limitPlusOne (filter (\<lambda>j. cj_client j = client \<and> cj_instance j = inst \<and> cj_status j = Job_queued) (bd_jobs db)))"

definition readExpansionBatch :: "string \<Rightarrow> string \<Rightarrow> int \<Rightarrow> nat \<Rightarrow> broadcast_db \<Rightarrow> recipient list" where
  "readExpansionBatch client cid cursor n db =
    take n (sort_key rc_id (filter (\<lambda>r. rc_campaign r = cid \<and> rc_client r = client \<and> cursor < rc_id r \<and> rc_status r = Rc_pending)
      (bd_recipients db)))"

text \<open>
  The reads of one batch, after the budget: the advisory lock (\<open>locked\<close>), the campaign, the depth of the queue, the epoch
  and the recipients. \<open>Inl\<close> ends the batch; an empty read closes the expansion.
\<close>

definition expansion_read :: "bool \<Rightarrow> nat \<Rightarrow> nat \<Rightarrow> string \<Rightarrow> string \<Rightarrow> broadcast_db \<Rightarrow> expansion_result + (campaign_row \<times> int \<times> recipient list)" where
  "expansion_read locked hold n client cid db =
    (if \<not> locked then Inl (Ex_held ''expander_busy'')
     else case readCampaign client cid db of
       None \<Rightarrow> Inl Ex_done
     | Some c \<Rightarrow>
        if cp_status c \<noteq> Camp_expanding then Inl Ex_done
        else if readInstanceQueueDepth client (cp_instance c) (hold + 1) db \<ge> hold then Inl (Ex_held ''queue_depth'')
        else (case bd_epoch db (client, cp_instance c) of
          None \<Rightarrow> Inl (Ex_held ''expander_busy'')
        | Some epoch \<Rightarrow> Inr (c, epoch, readExpansionBatch client cid (cp_expand_cursor c) n db)))"

record alloc_row =
  al_recipient :: int
  al_public :: string
  al_jid :: string
  al_text :: string
  al_dedupe :: string
  al_job :: int

text \<open>The \<open>ref\<close> part: rows whose key is free, also within the statement. \<open>taken\<close> are the keys of the instance.\<close>

fun new_refs :: "string \<Rightarrow> string \<Rightarrow> string list \<Rightarrow> alloc_row list \<Rightarrow> job_ref list" where
  "new_refs client inst taken [] = []"
| "new_refs client inst taken (a # as) =
    (if al_dedupe a \<in> set taken then new_refs client inst taken as
     else \<lparr>jf_public = al_public a, jf_client = client, jf_instance = inst, jf_job = al_job a, jf_dedupe = al_dedupe a\<rparr>
        # new_refs client inst (al_dedupe a # taken) as)"

definition keys_of :: "string \<Rightarrow> string \<Rightarrow> job_ref list \<Rightarrow> string list" where
  "keys_of client inst refs = map jf_dedupe (filter (\<lambda>r. jf_client r = client \<and> jf_instance r = inst) refs)"

text \<open>The \<open>job\<close> part joins the new refs with every row of the same key.\<close>

definition new_jobs :: "campaign_row \<Rightarrow> int \<Rightarrow> job_ref list \<Rightarrow> alloc_row list \<Rightarrow> campaign_job list" where
  "new_jobs c epoch refs as = concat (map (\<lambda>r. map (\<lambda>a. \<lparr>cj_id = jf_job r, cj_client = cp_client c, cj_instance = cp_instance c,
      cj_campaign = cp_id c, cj_epoch = epoch, cj_jid = al_jid a, cj_text = al_text a, cj_status = Job_queued, cj_cancel_reason = None\<rparr>)
      (filter (\<lambda>a. al_dedupe a = jf_dedupe r) as)) refs)"

definition resolved_public :: "string \<Rightarrow> string \<Rightarrow> job_ref list \<Rightarrow> job_ref list \<Rightarrow> alloc_row \<Rightarrow> string option" where
  "resolved_public client inst old new a =
    (case find (\<lambda>r. jf_dedupe r = al_dedupe a) new of
       Some r \<Rightarrow> Some (jf_public r)
     | None \<Rightarrow> map_option jf_public (find (\<lambda>r. jf_client r = client \<and> jf_instance r = inst \<and> jf_dedupe r = al_dedupe a) old))"

definition stamp_queued :: "campaign_row \<Rightarrow> (alloc_row \<Rightarrow> string option) \<Rightarrow> alloc_row list \<Rightarrow> recipient \<Rightarrow> recipient" where
  "stamp_queued c resolve as r =
    (if rc_campaign r = cp_id c \<and> rc_client r = cp_client c
     then (case find (\<lambda>a. al_recipient a = rc_id r) as of
         None \<Rightarrow> r
       | Some a \<Rightarrow> (case resolve a of None \<Rightarrow> r | Some p \<Rightarrow> r\<lparr>rc_status := Rc_queued, rc_job := Some p\<rparr>))
     else r)"

definition is_stamped :: "campaign_row \<Rightarrow> (alloc_row \<Rightarrow> string option) \<Rightarrow> alloc_row list \<Rightarrow> recipient \<Rightarrow> bool" where
  "is_stamped c resolve as r \<longleftrightarrow> rc_campaign r = cp_id c \<and> rc_client r = cp_client c \<and>
    (case find (\<lambda>a. al_recipient a = rc_id r) as of None \<Rightarrow> False | Some a \<Rightarrow> resolve a \<noteq> None)"

text \<open>
  The statement. Two jobs of one id break the primary key, so a batch in which a new key stands twice fails as a whole.
  The result is the numbers of new refs and of stamped recipients.
\<close>

definition runExpandBatchStatement :: "campaign_row \<Rightarrow> int \<Rightarrow> alloc_row list \<Rightarrow> broadcast_db \<Rightarrow>
    (broadcast_error, broadcast_db \<times> int \<times> int) result" where
  "runExpandBatchStatement c epoch as db =
    (let client = cp_client c; inst = cp_instance c; old = bd_refs db;
         new = new_refs client inst (keys_of client inst old) as;
         jobs = new_jobs c epoch new as;
         resolve = resolved_public client inst old new in
     if \<not> distinct (map cj_id jobs) then Err UniqueViolation
     else Ok (db\<lparr>bd_refs := old @ new, bd_jobs := bd_jobs db @ jobs, bd_next_job := bd_next_job db + int (length as),
                bd_recipients := map (stamp_queued c resolve as) (bd_recipients db)\<rparr>,
             int (length new), int (length (filter (is_stamped c resolve as) (bd_recipients db)))))"

definition dedupe_key :: "(string \<Rightarrow> string) \<Rightarrow> string \<Rightarrow> string \<Rightarrow> string" where
  "dedupe_key sha256 cid jid = sha256 (cid @ '':'' @ jid)"

text \<open>\<open>fresh\<close> are the random public ids; the job ids come from the sequence, row by row.\<close>

fun alloc_rows :: "(string \<Rightarrow> string) \<Rightarrow> string \<Rightarrow> string \<Rightarrow> int \<Rightarrow> recipient list \<Rightarrow> string list \<Rightarrow> alloc_row list" where
  "alloc_rows sha256 cid body next (r # rs) (p # ps) =
    \<lparr>al_recipient = rc_id r, al_public = p, al_jid = rc_jid r,
     al_text = (case renderVars body (rc_vars r) of Inr t \<Rightarrow> t | Inl _ \<Rightarrow> []),
     al_dedupe = dedupe_key sha256 cid (rc_jid r), al_job = next\<rparr> # alloc_rows sha256 cid body (next + 1) rs ps"
| "alloc_rows sha256 cid body next _ _ = []"

definition renders :: "string \<Rightarrow> recipient \<Rightarrow> bool" where
  "renders body r \<longleftrightarrow> (case renderVars body (rc_vars r) of Inr _ \<Rightarrow> True | Inl _ \<Rightarrow> False)"

definition markRenderFailed :: "string \<Rightarrow> string \<Rightarrow> int list \<Rightarrow> broadcast_db \<Rightarrow> broadcast_db" where
  "markRenderFailed client cid ids db = db\<lparr>bd_recipients := update_where
     (\<lambda>r. rc_campaign r = cid \<and> rc_client r = client \<and> rc_id r \<in> set ids)
     (\<lambda>r. r\<lparr>rc_status := Rc_failed, rc_failure := Some ''render_failed''\<rparr>) (bd_recipients db)\<rparr>"

definition advanceExpansionCursor :: "string \<Rightarrow> string \<Rightarrow> int \<Rightarrow> int \<Rightarrow> broadcast_db \<Rightarrow> broadcast_db" where
  "advanceExpansionCursor client cid last_id now db = db\<lparr>bd_campaigns := update_where
     (\<lambda>c. the_campaign client cid c \<and> cp_expand_cursor c < last_id)
     (\<lambda>c. c\<lparr>cp_expand_cursor := last_id, cp_updated := now\<rparr>) (bd_campaigns db)\<rparr>"

definition bumpExpansionCounters :: "string \<Rightarrow> string \<Rightarrow> int \<Rightarrow> int \<Rightarrow> broadcast_db \<Rightarrow> broadcast_db" where
  "bumpExpansionCounters client cid stamped failed = update_counters client cid
     (\<lambda>k. k\<lparr>ct_pending := ct_pending k - (stamped + failed), ct_queued := ct_queued k + stamped, ct_failed := ct_failed k + failed\<rparr>)"

definition completeExpansion :: "string \<Rightarrow> string \<Rightarrow> int \<Rightarrow> broadcast_db \<Rightarrow> broadcast_db" where
  "completeExpansion client cid now db =
    fst (campaign_transition client cid [Camp_expanding] Camp_running (\<lambda>c. c\<lparr>cp_expand_done := True\<rparr>) now db)"

definition expansion_write :: "(string \<Rightarrow> string) \<Rightarrow> string list \<Rightarrow> int \<Rightarrow> campaign_row \<times> int \<times> recipient list \<Rightarrow> broadcast_db \<Rightarrow>
    broadcast_db \<times> (broadcast_error, expansion_result) result" where
  "expansion_write sha256 fresh now batch db =
    (let (c, epoch, rows) = batch; client = cp_client c; cid = cp_id c; body = cp_body c in
     if rows = [] then (completeExpansion client cid now db, Ok Ex_done)
     else
       (let good = filter (renders body) rows; bad = filter (\<lambda>r. \<not> renders body r) rows;
            db1 = markRenderFailed client cid (map rc_id bad) db in
        case runExpandBatchStatement c epoch (alloc_rows sha256 cid body (bd_next_job db1) good fresh) db1 of
          Inl e \<Rightarrow> (db, Err e)
        | Inr (db2, inserted, stamped) \<Rightarrow>
            (let last_id = rc_id (last rows); failed = int (length bad) in
             (bumpExpansionCounters client cid stamped failed (advanceExpansionCursor client cid last_id now db2),
              Ok (Ex_batch inserted failed last_id)))))"

definition BUDGET_TOKENS_PER_BATCH :: real where "BUDGET_TOKENS_PER_BATCH = 500"

definition runExpansionBatch :: "(string \<Rightarrow> string) \<Rightarrow> string list \<Rightarrow> bool \<Rightarrow> nat \<Rightarrow> nat \<Rightarrow> int \<Rightarrow> string \<Rightarrow> string \<Rightarrow>
    expansion_budget \<times> broadcast_db \<Rightarrow> (expansion_budget \<times> broadcast_db) \<times> (broadcast_error, expansion_result) result" where
  "runExpansionBatch sha256 fresh locked hold n now client cid st =
    (let (b, db) = st; (b1, taken) = tryTake BUDGET_TOKENS_PER_BATCH now b in
     if \<not> taken then ((b1, db), Ok (Ex_held ''budget''))
     else case expansion_read locked hold n client cid db of
       Inl r \<Rightarrow> ((b1, db), Ok r)
     | Inr batch \<Rightarrow> (let (db1, r) = expansion_write sha256 fresh now batch db in ((b1, db1), r)))"

text \<open>The sweep; \<open>fresh c\<close> are the public ids drawn for the batch of \<open>c\<close>, and no other expander holds the lock.\<close>

definition runOneBroadcastExpansionSweep :: "(string \<Rightarrow> string) \<Rightarrow> (campaign_row \<Rightarrow> string list) \<Rightarrow> nat \<Rightarrow> nat \<Rightarrow> int \<Rightarrow>
    expansion_budget \<times> broadcast_db \<Rightarrow> expansion_budget \<times> broadcast_db" where
  "runOneBroadcastExpansionSweep sha256 fresh hold n now st =
    fold (\<lambda>c s. fst (runExpansionBatch sha256 (fresh c) True hold n now (cp_client c) (cp_id c) s))
      (broadcast_campaigns_pending Camp_expanding DEFAULT_MAX_CAMPAIGNS_PER_SWEEP (snd st)) st"

section \<open>Bookkeeping of a cancel (cancel-bookkeeping.ts)\<close>

definition open_recipient :: "string \<Rightarrow> string \<Rightarrow> recipient \<Rightarrow> bool" where
  "open_recipient client cid r \<longleftrightarrow> rc_campaign r = cid \<and> rc_client r = client \<and> (rc_status r = Rc_pending \<or> rc_status r = Rc_queued)"

definition open_batch :: "string \<Rightarrow> string \<Rightarrow> nat \<Rightarrow> broadcast_db \<Rightarrow> recipient list" where
  "open_batch client cid n db = take n (sort_key rc_id (filter (open_recipient client cid) (bd_recipients db)))"

definition stampRecipientBatch :: "string \<Rightarrow> string \<Rightarrow> nat \<Rightarrow> broadcast_db \<Rightarrow> broadcast_db \<times> int \<times> int" where
  "stampRecipientBatch client cid n db =
    (let batch = open_batch client cid n db in
     (db\<lparr>bd_recipients := update_where (\<lambda>r. rc_id r \<in> rc_id ` set batch) (\<lambda>r. r\<lparr>rc_status := Rc_cancelled\<rparr>) (bd_recipients db)\<rparr>,
      int (length (filter (\<lambda>r. rc_status r = Rc_pending) batch)), int (length (filter (\<lambda>r. rc_status r \<noteq> Rc_pending) batch))))"

definition adjustCountersForCancel :: "string \<Rightarrow> string \<Rightarrow> int \<Rightarrow> int \<Rightarrow> broadcast_db \<Rightarrow> broadcast_db" where
  "adjustCountersForCancel client cid fromPending fromQueued db =
    (if fromPending + fromQueued = 0 then db
     else update_counters client cid
       (\<lambda>k. k\<lparr>ct_pending := max (ct_pending k - fromPending) 0, ct_queued := max (ct_queued k - fromQueued) 0,
             ct_cancelled := ct_cancelled k + (fromPending + fromQueued)\<rparr>) db)"

definition cancel_recipient_batch :: "string \<Rightarrow> string \<Rightarrow> nat \<Rightarrow> broadcast_db \<Rightarrow> broadcast_db \<times> nat" where
  "cancel_recipient_batch client cid n db =
    (if \<not> list_ex (open_recipient client cid) (bd_recipients db) then (db, 0)
     else let (db1, p, q) = stampRecipientBatch client cid n db in (adjustCountersForCancel client cid p q db1, nat (p + q)))"

definition queued_job :: "string \<Rightarrow> string \<Rightarrow> string \<Rightarrow> campaign_job \<Rightarrow> bool" where
  "queued_job client inst cid j \<longleftrightarrow> cj_client j = client \<and> cj_instance j = inst \<and> cj_campaign j = cid \<and> cj_status j = Job_queued"

definition cancel_job_batch :: "string \<Rightarrow> string \<Rightarrow> string \<Rightarrow> nat \<Rightarrow> broadcast_db \<Rightarrow> broadcast_db \<times> nat" where
  "cancel_job_batch client inst cid n db =
    (let batch = take n (sort_key cj_id (filter (queued_job client inst cid) (bd_jobs db))) in
     (db\<lparr>bd_jobs := update_where (\<lambda>j. cj_id j \<in> cj_id ` set batch)
        (\<lambda>j. j\<lparr>cj_status := Job_cancelled, cj_cancel_reason := Some ''campaign_cancelled''\<rparr>) (bd_jobs db)\<rparr>, length batch))"

text \<open>Each loop stops at the first batch that is not full; with a batch size of 0 it never would.\<close>

partial_function (option) batch_loop :: "('a \<Rightarrow> 'a \<times> nat) \<Rightarrow> nat \<Rightarrow> 'a \<Rightarrow> nat \<Rightarrow> ('a \<times> nat) option" where
  "batch_loop step n x stamped =
    (case step x of (y, count) \<Rightarrow> if count < n then Some (y, stamped + count) else batch_loop step n y (stamped + count))"

definition runCancelBookkeepingBatch :: "nat \<Rightarrow> string \<Rightarrow> string \<Rightarrow> broadcast_db \<Rightarrow> (broadcast_db \<times> nat \<times> nat) option" where
  "runCancelBookkeepingBatch n client cid db =
    (case batch_loop (cancel_recipient_batch client cid n) n db 0 of
       None \<Rightarrow> None
     | Some (db1, recipients) \<Rightarrow>
        (case readCampaign client cid db1 of
           None \<Rightarrow> Some (db1, recipients, 0)
         | Some c \<Rightarrow> map_option (\<lambda>(db2, jobs). (db2, recipients, jobs))
             (batch_loop (cancel_job_batch client (cp_instance c) cid n) n db1 0)))"

definition cancelBroadcast :: "nat \<Rightarrow> broadcast_actor \<Rightarrow> string \<Rightarrow> string \<Rightarrow> string option \<Rightarrow> int \<Rightarrow> broadcast_db \<Rightarrow>
    broadcast_db \<times> (broadcast_error, unit) result" where
  "cancelBroadcast n actor client cid reason now db =
    (if \<not> assertUserActor actor then (db, Err BroadcastActorForbidden)
     else case cancelBroadcastInTx actor client cid reason now db of
       (db1, Inl e) \<Rightarrow> (db1, Err e)
     | (db1, Inr _) \<Rightarrow> (case runCancelBookkeepingBatch n client cid db1 of
           None \<Rightarrow> (db1, Ok ())
         | Some (db2, _) \<Rightarrow> (db2, Ok ())))"

definition cancel_pending :: "nat \<Rightarrow> broadcast_db \<Rightarrow> campaign_row list" where
  "cancel_pending limit db = take limit (sort_key cp_updated (filter (\<lambda>c. cp_status c = Camp_cancelled \<and>
     (list_ex (open_recipient (cp_client c) (cp_id c)) (bd_recipients db) \<or>
      list_ex (\<lambda>j. cj_client j = cp_client c \<and> cj_campaign j = cp_id c \<and> cj_status j = Job_queued) (bd_jobs db))) (bd_campaigns db)))"

definition runOneCancelBookkeepingSweep :: "nat \<Rightarrow> broadcast_db \<Rightarrow> broadcast_db" where
  "runOneCancelBookkeepingSweep n db =
    fold (\<lambda>c d. case runCancelBookkeepingBatch n (cp_client c) (cp_id c) d of None \<Rightarrow> d | Some (d', _) \<Rightarrow> d')
      (cancel_pending DEFAULT_MAX_CAMPAIGNS_PER_SWEEP db) db"

section \<open>The funnel (funnel.repo.ts)\<close>

definition status_count :: "recipient_status \<Rightarrow> recipient list \<Rightarrow> int" where
  "status_count st rs = int (length (filter (\<lambda>r. rc_status r = st) rs))"

definition recountRecipients :: "string \<Rightarrow> string \<Rightarrow> broadcast_db \<Rightarrow> campaign_counters" where
  "recountRecipients client cid db =
    (let rs = recipients_of client cid db in
     \<lparr>ct_client = client, ct_total = int (length rs), ct_pending = status_count Rc_pending rs, ct_skipped = status_count Rc_skipped rs,
      ct_queued = status_count Rc_queued rs, ct_sent = status_count Rc_sent rs, ct_delivered = status_count Rc_delivered rs,
      ct_read = status_count Rc_read rs, ct_failed = status_count Rc_failed rs, ct_cancelled = status_count Rc_cancelled rs,
      ct_charged = sum_list (map (\<lambda>r. case rc_charged r of None \<Rightarrow> 0 | Some k \<Rightarrow> k) rs)\<rparr>)"

text \<open>The upsert writes only a row of its own client that differs; \<open>None\<close> is the throw when no row can be read back.\<close>

definition reconcileCounters :: "string \<Rightarrow> string \<Rightarrow> broadcast_db \<Rightarrow> (broadcast_db \<times> bool \<times> campaign_counters) option" where
  "reconcileCounters client cid db =
    (let truth = recountRecipients client cid db in
     case bd_counters db cid of
       None \<Rightarrow> Some (db\<lparr>bd_counters := (bd_counters db)(cid \<mapsto> truth)\<rparr>, True, truth)
     | Some old \<Rightarrow>
        if ct_client old \<noteq> client then None
        else if old \<noteq> truth then Some (db\<lparr>bd_counters := (bd_counters db)(cid \<mapsto> truth)\<rparr>, True, truth)
        else Some (db, False, old))"

definition completeIfDrained :: "string \<Rightarrow> string \<Rightarrow> int \<Rightarrow> broadcast_db \<Rightarrow> broadcast_db \<times> bool" where
  "completeIfDrained client cid now db =
    (case readCampaign client cid db of
       None \<Rightarrow> (db, False)
     | Some c \<Rightarrow>
        if cp_status c \<noteq> Camp_running \<or> \<not> cp_expand_done c then (db, False)
        else if list_ex (open_recipient client cid) (bd_recipients db) then (db, False)
        else campaign_transition client cid [Camp_running] Camp_completed id now db)"

definition progressPayloadFor :: "string \<Rightarrow> campaign_counters \<Rightarrow> string \<times> int \<times> int \<times> int" where
  "progressPayloadFor cid k = (cid, ct_sent k + ct_delivered k + ct_read k, ct_pending k + ct_queued k, ct_failed k)"

definition recomputeCampaignFunnel :: "string \<Rightarrow> string \<Rightarrow> int \<Rightarrow> broadcast_db \<Rightarrow>
    broadcast_db \<times> (broadcast_error, bool \<times> bool) result" where
  "recomputeCampaignFunnel client cid now db =
    (case reconcileCounters client cid db of
       None \<Rightarrow> (db, Err CounterRowMissing)
     | Some (db1, changed, counts) \<Rightarrow>
        (let (db2, completed) = completeIfDrained client cid now db1 in
         (if changed \<or> completed then db2\<lparr>bd_progress := progressPayloadFor cid counts # bd_progress db2\<rparr> else db2,
          Ok (changed, completed))))"

section \<open>Stamps of results and receipts (result-ack-side-effects.ts, receipts-campaign-stamp.ts)\<close>

definition refers_to :: "broadcast_db \<Rightarrow> string \<Rightarrow> int \<Rightarrow> recipient \<Rightarrow> bool" where
  "refers_to db client job r \<longleftrightarrow> rc_client r = client \<and>
    list_ex (\<lambda>f. jf_client f = client \<and> jf_job f = job \<and> rc_job r = Some (jf_public f)) (bd_refs db)"

definition stampCampaignRecipientSent :: "string \<Rightarrow> int \<Rightarrow> int option \<Rightarrow> broadcast_db \<Rightarrow> broadcast_db" where
  "stampCampaignRecipientSent client job charged db = db\<lparr>bd_recipients := update_where
     (\<lambda>r. refers_to db client job r \<and> (rc_status r = Rc_queued \<or> rc_status r = Rc_cancelled))
     (\<lambda>r. r\<lparr>rc_status := Rc_sent, rc_charged := (case charged of None \<Rightarrow> rc_charged r | Some k \<Rightarrow> Some k)\<rparr>) (bd_recipients db)\<rparr>"

definition stamp_receipt :: "bool \<Rightarrow> int \<Rightarrow> recipient \<Rightarrow> recipient" where
  "stamp_receipt isRead now r =
    r\<lparr>rc_delivered_at := (if isRead then rc_delivered_at r else (case rc_delivered_at r of None \<Rightarrow> Some now | t \<Rightarrow> t)),
      rc_read_at := (if isRead then (case rc_read_at r of None \<Rightarrow> Some now | t \<Rightarrow> t) else rc_read_at r),
      rc_status := (if isRead then Rc_read else if rc_status r = Rc_sent then Rc_delivered else rc_status r)\<rparr>"

definition stampCampaignRecipientReceipt :: "string \<Rightarrow> int \<Rightarrow> bool \<Rightarrow> int \<Rightarrow> broadcast_db \<Rightarrow> broadcast_db" where
  "stampCampaignRecipientReceipt client job isRead now db = db\<lparr>bd_recipients := update_where
     (\<lambda>r. refers_to db client job r \<and>
        (isRead \<and> rc_read_at r = None \<or> \<not> isRead \<and> (rc_status r = Rc_sent \<or> rc_status r = Rc_read) \<and> rc_delivered_at r = None))
     (stamp_receipt isRead now) (bd_recipients db)\<rparr>"

text \<open>Every other write of a job (claim, failure, cancel by opt-out, review) leaves the recipients alone: no statement does it.\<close>

definition write_job_status :: "int \<Rightarrow> job_status \<Rightarrow> broadcast_db \<Rightarrow> broadcast_db" where
  "write_job_status job st db = db\<lparr>bd_jobs := update_where (\<lambda>j. cj_id j = job) (\<lambda>j. j\<lparr>cj_status := st\<rparr>) (bd_jobs db)\<rparr>"

section \<open>Histories\<close>

text \<open>The transactions on one database, one after the other; the two halves of an expansion may be apart (\<open>B_late_write\<close>).\<close>

datatype broadcast_event =
    B_create broadcast_actor create_input string int
  | B_start broadcast_actor string string int | B_pause broadcast_actor string string int
  | B_resume broadcast_actor string string int | B_cancel broadcast_actor string string "string option" int
  | B_snapshot bool nat int string string
  | B_expand "string list" nat nat int string string
  | B_late_write "string list" int "campaign_row \<times> int \<times> recipient list"
  | B_cancel_recipients string string nat | B_cancel_jobs string string string nat
  | B_funnel string string int
  | B_sent string int "int option" | B_receipt string int bool int | B_job int job_status

fun broadcast_step :: "(string \<Rightarrow> string) \<Rightarrow> broadcast_event \<Rightarrow> broadcast_db \<Rightarrow> broadcast_db" where
  "broadcast_step sha (B_create actor i new now) db = fst (createBroadcast actor i new now db)"
| "broadcast_step sha (B_start actor client cid now) db = fst (startBroadcast actor client cid now db)"
| "broadcast_step sha (B_pause actor client cid now) db = fst (pauseBroadcast actor client cid now db)"
| "broadcast_step sha (B_resume actor client cid now) db = fst (resumeBroadcast actor client cid now db)"
| "broadcast_step sha (B_cancel actor client cid reason now) db = fst (cancelBroadcastInTx actor client cid reason now db)"
| "broadcast_step sha (B_snapshot key n now client cid) db = fst (runSnapshotBatch key n now client cid db)"
| "broadcast_step sha (B_expand fresh hold n now client cid) db =
    (case expansion_read True hold n client cid db of Inl _ \<Rightarrow> db | Inr batch \<Rightarrow> fst (expansion_write sha fresh now batch db))"
| "broadcast_step sha (B_late_write fresh now batch) db = fst (expansion_write sha fresh now batch db)"
| "broadcast_step sha (B_cancel_recipients client cid n) db = fst (cancel_recipient_batch client cid n db)"
| "broadcast_step sha (B_cancel_jobs client inst cid n) db = fst (cancel_job_batch client inst cid n db)"
| "broadcast_step sha (B_funnel client cid now) db = fst (recomputeCampaignFunnel client cid now db)"
| "broadcast_step sha (B_sent client job charged) db = stampCampaignRecipientSent client job charged db"
| "broadcast_step sha (B_receipt client job isRead now) db = stampCampaignRecipientReceipt client job isRead now db"
| "broadcast_step sha (B_job job st) db = write_job_status job st db"

definition broadcast_run :: "(string \<Rightarrow> string) \<Rightarrow> broadcast_event list \<Rightarrow> broadcast_db \<Rightarrow> broadcast_db" where
  "broadcast_run sha es db = fold (broadcast_step sha) es db"

section \<open>Campaign status follows its state machine\<close>

lemma update_where_simps [simp]:
  "length (update_where p f xs) = length xs" "update_where p f [] = []"
  "update_where p f (x # xs) = (if p x then f x else x) # update_where p f xs"
  "update_where p f (xs @ ys) = update_where p f xs @ update_where p f ys"
  by (simp_all add: update_where_def)

lemma set_update_where: "set (update_where p f xs) = (\<lambda>x. if p x then f x else x) ` set xs"
  by (simp add: update_where_def)

lemma map_update_where: "(\<And>x. x \<in> set xs \<Longrightarrow> p x \<Longrightarrow> g (f x) = g x) \<Longrightarrow> map g (update_where p f xs) = map g xs"
  by (simp add: update_where_def)

text \<open>The edges of the state machine under the given events, and the events each operation stands for.\<close>

definition campaign_edge :: "campaign_event set \<Rightarrow> campaign_status \<Rightarrow> campaign_status \<Rightarrow> bool" where
  "campaign_edge E s t \<longleftrightarrow> (\<exists>e\<in>E. \<exists>ctx. nextCampaignState s e ctx = Ok t)"

fun fires :: "broadcast_event \<Rightarrow> campaign_event set" where
  "fires (B_start _ _ _ _) = {Ev_start}"
| "fires (B_pause _ _ _ _) = {Ev_pause}"
| "fires (B_resume _ _ _ _) = {Ev_resume}"
| "fires (B_cancel _ _ _ _ _) = {Ev_cancel}"
| "fires (B_snapshot _ _ _ _ _) = {Ev_snapshot_done, Ev_fail}"
| "fires (B_expand _ _ _ _ _ _) = {Ev_expand_done}"
| "fires (B_late_write _ _ _) = {Ev_expand_done}"
| "fires (B_funnel _ _ _) = {Ev_complete}"
| "fires _ = {}"

definition same_campaign :: "campaign_row \<Rightarrow> campaign_row \<Rightarrow> bool" where
  "same_campaign c d \<longleftrightarrow> cp_id d = cp_id c \<and> cp_client d = cp_client c \<and> cp_instance d = cp_instance c \<and>
     cp_audience d = cp_audience c \<and> cp_body d = cp_body c"

definition keeps_status :: "campaign_row \<Rightarrow> campaign_row \<Rightarrow> bool" where
  "keeps_status c d \<longleftrightarrow> same_campaign c d \<and> cp_status d = cp_status c"

definition follows_fsm :: "campaign_event set \<Rightarrow> campaign_row \<Rightarrow> campaign_row \<Rightarrow> bool" where
  "follows_fsm E c d \<longleftrightarrow> same_campaign c d \<and> (cp_status d = cp_status c \<or> campaign_edge E (cp_status c) (cp_status d))"

lemma campaign_edges:
  "Ev_start \<in> E \<Longrightarrow> campaign_edge E Camp_draft Camp_snapshotting" "Ev_start \<in> E \<Longrightarrow> campaign_edge E Camp_scheduled Camp_snapshotting"
  "Ev_snapshot_done \<in> E \<Longrightarrow> campaign_edge E Camp_snapshotting Camp_expanding" "Ev_fail \<in> E \<Longrightarrow> campaign_edge E Camp_snapshotting Camp_failed"
  "Ev_expand_done \<in> E \<Longrightarrow> campaign_edge E Camp_expanding Camp_running" "Ev_pause \<in> E \<Longrightarrow> campaign_edge E Camp_running Camp_paused"
  "Ev_pause \<in> E \<Longrightarrow> campaign_edge E Camp_expanding Camp_paused" "Ev_resume \<in> E \<Longrightarrow> campaign_edge E Camp_paused Camp_running"
  "Ev_resume \<in> E \<Longrightarrow> campaign_edge E Camp_paused Camp_expanding" "Ev_complete \<in> E \<Longrightarrow> campaign_edge E Camp_running Camp_completed"
  unfolding campaign_edge_def campaign_step_Ok by auto

lemma campaign_edge_cancel: "Ev_cancel \<in> E \<Longrightarrow> \<not> isTerminalCampaignStatus s \<Longrightarrow> campaign_edge E s Camp_cancelled"
  unfolding campaign_edge_def campaign_step_Ok by auto

lemma campaign_edge_terminal: "campaign_edge E s t \<Longrightarrow> \<not> isTerminalCampaignStatus s"
  by (auto simp: campaign_edge_def nextCampaignState_def)

text \<open>The rows of a transaction: the old ones in place, each moved by at most one edge, and new drafts behind them.\<close>

definition rows_follow :: "campaign_event set \<Rightarrow> campaign_row list \<Rightarrow> campaign_row list \<Rightarrow> bool" where
  "rows_follow E xs ys \<longleftrightarrow> (\<exists>zs new. ys = zs @ new \<and> list_all2 (follows_fsm E) xs zs \<and> (\<forall>z\<in>set new. cp_status z = Camp_draft))"

lemma rows_followI: "ys = zs @ new \<Longrightarrow> list_all2 (follows_fsm E) xs zs \<Longrightarrow> (\<forall>z\<in>set new. cp_status z = Camp_draft) \<Longrightarrow> rows_follow E xs ys"
  by (auto simp: rows_follow_def)

lemma same_campaign_refl [simp]: "same_campaign c c" by (simp add: same_campaign_def)
lemma follows_fsm_refl [simp]: "follows_fsm E c c" by (simp add: follows_fsm_def)
lemma keeps_follows: "keeps_status c d \<Longrightarrow> follows_fsm E d e \<Longrightarrow> follows_fsm E c e"
  by (auto simp: keeps_status_def follows_fsm_def same_campaign_def)

lemma rows_follow_refl [simp]: "rows_follow E xs xs"
  by (auto simp: rows_follow_def list_all2_refl intro: exI [of _ xs])

lemma rows_follow_update:
  assumes "\<And>c. c \<in> set xs \<Longrightarrow> p c \<Longrightarrow> follows_fsm E c (f c)"
  shows "rows_follow E xs (update_where p f xs)"
proof -
  have "list_all2 (follows_fsm E) xs (update_where p f xs)"
    using assms by (auto simp: list_all2_conv_all_nth update_where_def)
  then show ?thesis by (intro rows_followI [of _ _ "[]"]) auto
qed

lemma rows_follow_after_keep:
  assumes "\<And>c. c \<in> set xs \<Longrightarrow> p c \<Longrightarrow> keeps_status c (f c)" "rows_follow E (update_where p f xs) ys"
  shows "rows_follow E xs ys"
proof -
  from assms(2) obtain zs new where z: "ys = zs @ new" "list_all2 (follows_fsm E) (update_where p f xs) zs" "\<forall>z\<in>set new. cp_status z = Camp_draft"
    by (auto simp: rows_follow_def)
  have "follows_fsm E (xs ! i) (zs ! i)" if "i < length xs" for i
  proof -
    have f: "follows_fsm E (update_where p f xs ! i) (zs ! i)" using z(2) that by (simp add: list_all2_conv_all_nth)
    show ?thesis
    proof (cases "p (xs ! i)")
      case True
      then have "keeps_status (xs ! i) (f (xs ! i))" using assms(1) that by simp
      then show ?thesis using f True that by (auto simp: update_where_def intro: keeps_follows)
    qed (use f that in \<open>simp add: update_where_def\<close>)
  qed
  moreover have "length zs = length xs" using list_all2_lengthD [OF z(2)] by simp
  ultimately have "list_all2 (follows_fsm E) xs zs" by (simp add: list_all2_conv_all_nth)
  then show ?thesis using z by (intro rows_followI [of _ zs new]) auto
qed

lemma rows_follow_transition:
  assumes "\<And>s. s \<in> set froms \<Longrightarrow> campaign_edge E s to" "\<And>c. same_campaign c (extra c)"
  shows "rows_follow E (bd_campaigns db) (bd_campaigns (fst (campaign_transition client cid froms to extra now db)))"
proof -
  have "follows_fsm E c ((extra c)\<lparr>cp_status := to, cp_updated := now\<rparr>)" if "hits client cid froms c" for c
    using assms(1) assms(2) [of c] that by (auto simp: follows_fsm_def same_campaign_def hits_def)
  then show ?thesis by (simp add: campaign_transition_def rows_follow_update)
qed

lemma insert_recipient_campaigns: "bd_campaigns (fst (insert_recipient client cid row acc)) = bd_campaigns (fst acc)"
  by (auto simp: insert_recipient_def Let_def split: prod.splits)

lemma fold_insert_campaigns: "bd_campaigns (fst (fold (insert_recipient client cid) rows acc)) = bd_campaigns (fst acc)"
  by (induction rows arbitrary: acc) (simp_all add: insert_recipient_campaigns)

lemma insertRecipientBatch_campaigns: "insertRecipientBatch client cid rows db = (db', p, s) \<Longrightarrow> bd_campaigns db' = bd_campaigns db"
  using fold_insert_campaigns [of client cid rows "(db, 0, 0)"] by (simp add: insertRecipientBatch_def)

lemma rows_follow_write_batch:
  assumes "Ev_snapshot_done \<in> E"
  shows "rows_follow E (bd_campaigns db) (bd_campaigns (fst (write_batch client cid n now rows db)))"
proof -
  obtain db1 p s where i: "insertRecipientBatch client cid rows db = (db1, p, s)" by (metis prod_cases3)
  then have c: "bd_campaigns db1 = bd_campaigns db" by (rule insertRecipientBatch_campaigns)
  define db2 where "db2 = bumpSnapshotCounters client cid p s (advanceSnapshotCursor client cid (ir_target (last rows)) db1)"
  have db2: "bd_campaigns db2 = update_where
       (\<lambda>c. the_campaign client cid c \<and> (case cp_snapshot_cursor c of None \<Rightarrow> True | Some i \<Rightarrow> i < ir_target (last rows)))
       (\<lambda>c. c\<lparr>cp_snapshot_cursor := Some (ir_target (last rows))\<rparr>) (bd_campaigns db)"
    by (simp add: db2_def bumpSnapshotCounters_def update_counters_def advanceSnapshotCursor_def c)
  have t: "rows_follow E (bd_campaigns db2) (bd_campaigns (fst (completeSnapshot client cid now db2)))"
    unfolding completeSnapshot_def Let_def fst_conv
    by (rule rows_follow_transition) (auto simp: campaign_edges assms same_campaign_def)
  have "rows_follow E (bd_campaigns db) (bd_campaigns db2)"
    unfolding db2 by (rule rows_follow_update) (simp add: follows_fsm_def same_campaign_def)
  moreover have "rows_follow E (bd_campaigns db) (bd_campaigns (fst (completeSnapshot client cid now db2)))"
    using t unfolding db2 by (rule rows_follow_after_keep [rotated]) (simp add: keeps_status_def same_campaign_def)
  ultimately show ?thesis
    by (auto simp: write_batch_def i Let_def db2_def [symmetric] split: prod.splits dest: arg_cong [of _ _ fst])
qed

lemma rows_follow_mutateOne:
  assumes "\<And>s. s \<in> set froms \<Longrightarrow> campaign_edge E s to" "\<And>c. same_campaign c (extra c)"
  shows "rows_follow E (bd_campaigns db) (bd_campaigns (fst (mutateOne client cid froms to action extra now db)))"
proof -
  have "rows_follow E (bd_campaigns db) (bd_campaigns (fst (campaign_transition client cid froms to extra now db)))"
    by (rule rows_follow_transition) (use assms in auto)
  then show ?thesis by (auto simp: mutateOne_def audit_def Let_def split: option.splits prod.splits)
qed

lemma rows_follow_create: "rows_follow E (bd_campaigns db) (bd_campaigns (fst (createBroadcast actor i new now db)))"
proof -
  have "rows_follow E (bd_campaigns db) (bd_campaigns db @ [draft_row i new now])"
    by (rule rows_followI) (auto simp: draft_row_def list_all2_refl)
  then show ?thesis
    by (auto simp: createBroadcast_def createCampaign_def audit_def Let_def split: option.splits prod.splits audience.splits)
qed

lemma rows_follow_snapshot:
  assumes "Ev_snapshot_done \<in> E" "Ev_fail \<in> E"
  shows "rows_follow E (bd_campaigns db) (bd_campaigns (fst (runSnapshotBatch key n now client cid db)))"
proof -
  have w: "rows_follow E (bd_campaigns db) (bd_campaigns db')" if "write_batch cl ci n now rows db = (db', r)" for cl ci rows db' r
    using rows_follow_write_batch [OF assms(1), of db cl ci n now rows] that by simp
  have f: "rows_follow E (bd_campaigns db) (bd_campaigns (failSnapshotForLimit client cid reason now db))" for reason
    unfolding failSnapshotForLimit_def by (rule rows_follow_transition) (auto simp: campaign_edges assms same_campaign_def)
  have c: "rows_follow E (bd_campaigns db) (bd_campaigns db')" if "completeSnapshot cl ci now db = (db', k)" for cl ci db' k
  proof -
    have "rows_follow E (bd_campaigns db) (bd_campaigns (fst (completeSnapshot cl ci now db)))"
      unfolding completeSnapshot_def Let_def fst_conv
      by (rule rows_follow_transition) (auto simp: campaign_edges assms same_campaign_def)
    then show ?thesis using that by simp
  qed
  show ?thesis
    by (auto simp: runSnapshotBatch_def runGroupsSnapshotBatch_def Let_def f
        split: option.splits prod.splits audience.splits intro: w c)
qed

lemma expansion_write_campaigns:
  assumes "Ev_expand_done \<in> E"
  shows "rows_follow E (bd_campaigns db) (bd_campaigns (fst (expansion_write sha fresh now batch db)))"
proof -
  obtain c epoch rows where b: "batch = (c, epoch, rows)" by (metis prod_cases3)
  have fin: "rows_follow E (bd_campaigns db) (bd_campaigns (completeExpansion cl ci now db))" for cl ci
    unfolding completeExpansion_def by (rule rows_follow_transition) (auto simp: campaign_edges assms same_campaign_def)
  have adv: "rows_follow E (bd_campaigns db) (bd_campaigns (advanceExpansionCursor cl ci l now db'))"
    if "bd_campaigns db' = bd_campaigns db" for cl ci l db'
    unfolding advanceExpansionCursor_def using that
    by (auto intro!: rows_follow_update simp: follows_fsm_def same_campaign_def)
  show ?thesis
    by (auto simp: expansion_write_def b Let_def fin runExpandBatchStatement_def markRenderFailed_def bumpExpansionCounters_def
        update_counters_def split: sum.splits prod.splits if_splits intro!: adv)
qed

text \<open>The effect of a funnel pass on the tables.\<close>

lemma funnel_cases:
  obtains (missing) "fst (recomputeCampaignFunnel client cid now db) = db" "bd_counters db cid \<noteq> None"
      "\<And>k. bd_counters db cid = Some k \<Longrightarrow> ct_client k \<noteq> client"
  | (counted) m where "fst (recomputeCampaignFunnel client cid now db) =
      (fst (completeIfDrained client cid now (db\<lparr>bd_counters := (bd_counters db)(cid \<mapsto> recountRecipients client cid db)\<rparr>)))\<lparr>bd_progress := m\<rparr>"
proof (cases "reconcileCounters client cid db")
  case None
  then show thesis using missing by (auto simp: reconcileCounters_def recomputeCampaignFunnel_def Let_def split: option.splits if_splits)
next
  case (Some r)
  obtain db1 changed counts where r: "r = (db1, changed, counts)" by (metis prod_cases3)
  have db1: "db1 = db\<lparr>bd_counters := (bd_counters db)(cid \<mapsto> recountRecipients client cid db)\<rparr>"
    using Some r by (auto simp: reconcileCounters_def Let_def fun_upd_idem split: option.splits if_splits)
  obtain d2 finished where c: "completeIfDrained client cid now db1 = (d2, finished)" by fastforce
  have "d2 = d2\<lparr>bd_progress := bd_progress d2\<rparr>" by simp
  moreover have "fst (recomputeCampaignFunnel client cid now db) = d2 \<or>
      (\<exists>m. fst (recomputeCampaignFunnel client cid now db) = d2\<lparr>bd_progress := m\<rparr>)"
    by (auto simp: recomputeCampaignFunnel_def Some r c)
  ultimately show thesis using counted c db1 by (metis fst_conv)
qed

lemma rows_follow_complete: "Ev_complete \<in> E \<Longrightarrow> rows_follow E (bd_campaigns db) (bd_campaigns (fst (completeIfDrained client cid now db)))"
  using rows_follow_transition [of "[Camp_running]" E Camp_completed id db client cid now]
  by (auto simp: completeIfDrained_def campaign_edges split: option.splits)

lemma rows_follow_funnel:
  assumes "Ev_complete \<in> E"
  shows "rows_follow E (bd_campaigns db) (bd_campaigns (fst (recomputeCampaignFunnel client cid now db)))"
  by (rule funnel_cases [of client cid now db])
    (use rows_follow_complete [OF assms, of "db\<lparr>bd_counters := (bd_counters db)(cid \<mapsto> recountRecipients client cid db)\<rparr>" client cid now] in simp_all)

lemma rows_follow_step: "rows_follow (fires e) (bd_campaigns db) (bd_campaigns (broadcast_step sha e db))"
proof (cases e)
  case (B_start actor client cid now)
  then show ?thesis by (auto simp: startBroadcast_def campaign_edges intro!: rows_follow_mutateOne)
next
  case (B_pause actor client cid now)
  then show ?thesis by (auto simp: pauseBroadcast_def campaign_edges same_campaign_def intro!: rows_follow_mutateOne)
next
  case (B_resume actor client cid now)
  then show ?thesis
    by (auto simp: resumeBroadcast_def campaign_step_Ok campaign_edges split: option.splits sum.splits intro!: rows_follow_mutateOne)
next
  case (B_cancel actor client cid reason now)
  then show ?thesis
    by (auto simp: cancelBroadcastInTx_def NON_TERMINAL_STATUSES_def isTerminalCampaignStatus_def same_campaign_def
        intro!: rows_follow_mutateOne campaign_edge_cancel)
next
  case (B_expand fresh hold n now client cid)
  then show ?thesis by (auto split: sum.splits intro: expansion_write_campaigns)
next
  case (B_cancel_recipients client cid n)
  then show ?thesis
    by (auto simp: cancel_recipient_batch_def stampRecipientBatch_def adjustCountersForCancel_def update_counters_def Let_def split: prod.splits)
qed (auto simp: rows_follow_create rows_follow_snapshot expansion_write_campaigns rows_follow_funnel
    cancel_job_batch_def Let_def stampCampaignRecipientSent_def stampCampaignRecipientReceipt_def write_job_status_def)

lemma rows_follow_nth:
  assumes "rows_follow E xs ys" "i < length xs"
  shows "i < length ys \<and> follows_fsm E (xs ! i) (ys ! i)"
  using assms by (auto simp: rows_follow_def list_all2_conv_all_nth nth_append)

lemma broadcast_run_simps [simp]:
  "broadcast_run sha [] db = db" "broadcast_run sha (e # es) db = broadcast_run sha es (broadcast_step sha e db)"
  "broadcast_run sha (es @ es') db = broadcast_run sha es' (broadcast_run sha es db)"
  by (simp_all add: broadcast_run_def)

text \<open>The status of the \<open>i\<close>-th campaign after the first \<open>k\<close> operations of a history.\<close>

definition status_after :: "(string \<Rightarrow> string) \<Rightarrow> broadcast_event list \<Rightarrow> broadcast_db \<Rightarrow> nat \<Rightarrow> nat \<Rightarrow> campaign_status" where
  "status_after sha es db i k = cp_status (bd_campaigns (broadcast_run sha (take k es) db) ! i)"

text \<open>
  C22. In every history, with expansions interrupted anywhere, each campaign keeps its identity, audience and message. Each
  operation leaves its status alone or moves it along one edge of \<open>nextCampaignState\<close>, under an event that operation
  stands for: a start, a pause, a resume, a cancel, the end or failure of a snapshot, the end of an expansion, or
  completion by the funnel. A completed, cancelled or failed campaign stays that way.
\<close>

theorem campaign_rows_follow_fsm:
  assumes "i < length (bd_campaigns db)"
  shows "i < length (bd_campaigns (broadcast_run sha es db)) \<and>
    same_campaign (bd_campaigns db ! i) (bd_campaigns (broadcast_run sha es db) ! i) \<and>
    (\<forall>k<length es. status_after sha es db i (Suc k) = status_after sha es db i k \<or>
      (\<exists>e\<in>fires (es ! k). \<exists>ctx. nextCampaignState (status_after sha es db i k) e ctx = Ok (status_after sha es db i (Suc k)))) \<and>
    (isTerminalCampaignStatus (cp_status (bd_campaigns db ! i)) \<longrightarrow>
      cp_status (bd_campaigns (broadcast_run sha es db) ! i) = cp_status (bd_campaigns db ! i))"
proof -
  define status where "status k = status_after sha es db i k" for k
  note status_def = this [unfolded status_after_def]
  have run: "i < length (bd_campaigns (broadcast_run sha (take k es) db)) \<and>
      same_campaign (bd_campaigns db ! i) (bd_campaigns (broadcast_run sha (take k es) db) ! i) \<and>
      (isTerminalCampaignStatus (status 0) \<longrightarrow> status k = status 0)" if "k \<le> length es" for k
    using that
  proof (induction k)
    case 0
    then show ?case using assms(1) by simp
  next
    case (Suc k)
    let ?d = "broadcast_run sha (take k es) db"
    have step: "broadcast_run sha (take (Suc k) es) db = broadcast_step sha (es ! k) ?d"
      using Suc.prems by (simp add: take_Suc_conv_app_nth)
    have "i < length (bd_campaigns ?d)" using Suc by simp
    from rows_follow_nth [OF rows_follow_step this] Suc show ?case
      by (fastforce simp: step status_def follows_fsm_def same_campaign_def dest: campaign_edge_terminal)
  qed
  have move: "status (Suc k) = status k \<or> (\<exists>e\<in>fires (es ! k). \<exists>ctx. nextCampaignState (status k) e ctx = Ok (status (Suc k)))"
    if "k < length es" for k
  proof -
    let ?d = "broadcast_run sha (take k es) db"
    have step: "broadcast_run sha (take (Suc k) es) db = broadcast_step sha (es ! k) ?d"
      using that by (simp add: take_Suc_conv_app_nth)
    have "i < length (bd_campaigns ?d)" using run [of k] that by simp
    from rows_follow_nth [OF rows_follow_step this] show ?thesis
      by (auto simp: step status_def follows_fsm_def campaign_edge_def)
  qed
  then show ?thesis using run [of "length es"]
    by (auto simp: status_def status_after_def)
qed

section \<open>One job for a recipient\<close>

definition ref_key :: "job_ref \<Rightarrow> string \<times> string \<times> string" where
  "ref_key r = (jf_client r, jf_instance r, jf_dedupe r)"

definition jobs_ok :: "(string \<Rightarrow> string) \<Rightarrow> broadcast_db \<Rightarrow> bool" where
  "jobs_ok sha db \<longleftrightarrow> distinct (map ref_key (bd_refs db)) \<and> distinct (map cj_id (bd_jobs db)) \<and>
     (\<forall>r\<in>set (bd_refs db). jf_job r < bd_next_job db) \<and> (\<forall>j\<in>set (bd_jobs db). cj_id j < bd_next_job db) \<and>
     (\<forall>j\<in>set (bd_jobs db). \<exists>r\<in>set (bd_refs db). jf_job r = cj_id j \<and>
        ref_key r = (cj_client j, cj_instance j, dedupe_key sha (cj_campaign j) (cj_jid j)))"

lemma jobs_okD:
  assumes "jobs_ok sha db"
  shows "distinct (map ref_key (bd_refs db))" "distinct (map cj_id (bd_jobs db))"
    "\<And>r. r \<in> set (bd_refs db) \<Longrightarrow> jf_job r < bd_next_job db" "\<And>j. j \<in> set (bd_jobs db) \<Longrightarrow> cj_id j < bd_next_job db"
    "\<And>j. j \<in> set (bd_jobs db) \<Longrightarrow> \<exists>r\<in>set (bd_refs db). jf_job r = cj_id j \<and>
        ref_key r = (cj_client j, cj_instance j, dedupe_key sha (cj_campaign j) (cj_jid j))"
  using assms by (simp_all add: jobs_ok_def)

lemma new_refs_in:
  "r \<in> set (new_refs client inst taken as) \<Longrightarrow> jf_client r = client \<and> jf_instance r = inst \<and> jf_dedupe r \<notin> set taken \<and>
     (\<exists>a\<in>set as. jf_job r = al_job a \<and> jf_dedupe r = al_dedupe a \<and> jf_public r = al_public a)"
  by (induction as arbitrary: taken) (fastforce split: if_splits)+

lemma new_refs_distinct: "distinct (map jf_dedupe (new_refs client inst taken as))"
proof (induction as arbitrary: taken)
  case (Cons a as)
  have "al_dedupe a \<notin> jf_dedupe ` set (new_refs client inst (al_dedupe a # taken) as)"
  proof
    assume "al_dedupe a \<in> jf_dedupe ` set (new_refs client inst (al_dedupe a # taken) as)"
    then obtain r where "r \<in> set (new_refs client inst (al_dedupe a # taken) as)" "jf_dedupe r = al_dedupe a" by auto
    with new_refs_in [OF this(1)] show False by simp
  qed
  then show ?case using Cons by simp
qed simp

lemma alloc_rows_in:
  "a \<in> set (alloc_rows sha cid body next rs ps) \<Longrightarrow>
     next \<le> al_job a \<and> al_job a < next + int (length (alloc_rows sha cid body next rs ps)) \<and>
     al_dedupe a = dedupe_key sha cid (al_jid a) \<and> (\<exists>r\<in>set rs. al_recipient a = rc_id r \<and> al_jid a = rc_jid r)"
  by (induction sha cid body "next" rs ps rule: alloc_rows.induct) (fastforce)+

lemma new_jobs_in:
  assumes "j \<in> set (new_jobs c epoch refs as)"
  shows "\<exists>r\<in>set refs. \<exists>a\<in>set as. al_dedupe a = jf_dedupe r \<and> cj_id j = jf_job r \<and> cj_client j = cp_client c \<and>
    cj_instance j = cp_instance c \<and> cj_campaign j = cp_id c \<and> cj_jid j = al_jid a \<and> cj_status j = Job_queued"
  using assms by (fastforce simp: new_jobs_def)

lemma jobs_ok_statement:
  assumes ok: "jobs_ok sha db" and st: "runExpandBatchStatement c epoch as db = Ok (db', k, l)"
    and as: "\<And>a. a \<in> set as \<Longrightarrow> bd_next_job db \<le> al_job a \<and> al_job a < bd_next_job db + int (length as) \<and>
      al_dedupe a = dedupe_key sha (cp_id c) (al_jid a)"
  shows "jobs_ok sha db'"
proof -
  define new where "new = new_refs (cp_client c) (cp_instance c) (keys_of (cp_client c) (cp_instance c) (bd_refs db)) as"
  define jobs where "jobs = new_jobs c epoch new as"
  have d: "distinct (map cj_id jobs)" and db': "bd_refs db' = bd_refs db @ new" "bd_jobs db' = bd_jobs db @ jobs"
      "bd_next_job db' = bd_next_job db + int (length as)"
    using st by (auto simp: runExpandBatchStatement_def new_def jobs_def Let_def split: if_splits)
  have N: "jf_client r = cp_client c \<and> jf_instance r = cp_instance c \<and>
      jf_dedupe r \<notin> set (keys_of (cp_client c) (cp_instance c) (bd_refs db)) \<and>
      (\<exists>a\<in>set as. jf_job r = al_job a \<and> jf_dedupe r = al_dedupe a \<and> jf_public r = al_public a)" if "r \<in> set new" for r
    using new_refs_in that unfolding new_def by fast
  have nj: "bd_next_job db \<le> jf_job r \<and> jf_job r < bd_next_job db + int (length as)" if "r \<in> set new" for r
    using N [OF that] as by metis
  have J: "\<exists>r\<in>set new. jf_job r = cj_id j \<and> ref_key r = (cj_client j, cj_instance j, dedupe_key sha (cj_campaign j) (cj_jid j))"
    if j: "j \<in> set jobs" for j
  proof -
    from new_jobs_in [OF j [unfolded jobs_def]] obtain r a where r: "r \<in> set new" "a \<in> set as" "al_dedupe a = jf_dedupe r"
      "cj_id j = jf_job r" "cj_client j = cp_client c" "cj_instance j = cp_instance c" "cj_campaign j = cp_id c" "cj_jid j = al_jid a"
      by blast
    have "jf_dedupe r = dedupe_key sha (cp_id c) (al_jid a)" using as r(2,3) by metis
    then show ?thesis using r N [OF r(1)] by (auto simp: ref_key_def)
  qed
  have "inj_on jf_dedupe (set new)" "distinct new"
    unfolding new_def using new_refs_distinct by (auto simp: distinct_map)
  then have dn: "distinct (map ref_key new)" by (auto simp: distinct_map ref_key_def inj_on_def)
  have disj: "ref_key r \<noteq> ref_key s" if "r \<in> set new" "s \<in> set (bd_refs db)" for r s
    using N [OF that(1)] that(2) by (auto simp: ref_key_def keys_of_def)
  show ?thesis
    unfolding jobs_ok_def db'
  proof (intro conjI ballI)
    show "distinct (map ref_key (bd_refs db @ new))" using jobs_okD(1) [OF ok] dn disj by (force simp: image_iff)
    show "distinct (map cj_id (bd_jobs db @ jobs))"
      using jobs_okD(2,4) [OF ok] d J nj by (fastforce simp: image_iff)
    show "jf_job r < bd_next_job db + int (length as)" if "r \<in> set (bd_refs db @ new)" for r
      using jobs_okD(3) [OF ok] nj that by fastforce
    show "cj_id j < bd_next_job db + int (length as)" if "j \<in> set (bd_jobs db @ jobs)" for j
      using jobs_okD(4) [OF ok] J nj that by fastforce
    show "\<exists>r\<in>set (bd_refs db @ new). jf_job r = cj_id j \<and> ref_key r = (cj_client j, cj_instance j, dedupe_key sha (cj_campaign j) (cj_jid j))"
      if "j \<in> set (bd_jobs db @ jobs)" for j
      using jobs_okD(5) [OF ok] J that by fastforce
  qed
qed

definition queue_part :: "broadcast_db \<Rightarrow> job_ref list \<times> campaign_job list \<times> int" where
  "queue_part db = (bd_refs db, bd_jobs db, bd_next_job db)"

lemma queue_part_transition [simp]: "queue_part (fst (campaign_transition client cid froms to extra now db)) = queue_part db"
  by (simp add: campaign_transition_def queue_part_def)

lemma queue_part_mutateOne [simp]: "queue_part (fst (mutateOne client cid froms to action extra now db)) = queue_part db"
  using queue_part_transition [of client cid froms to extra now db]
  by (auto simp: mutateOne_def audit_def Let_def queue_part_def split: option.splits prod.splits)

lemma queue_part_create [simp]: "queue_part (fst (createBroadcast actor i new now db)) = queue_part db"
  by (auto simp: createBroadcast_def createCampaign_def audit_def Let_def queue_part_def split: option.splits prod.splits audience.splits)

lemma queue_part_insert: "queue_part (fst (fold (insert_recipient client cid) rows acc)) = queue_part (fst acc)"
proof (induction rows arbitrary: acc)
  case (Cons row rows)
  have "queue_part (fst (insert_recipient client cid row acc)) = queue_part (fst acc)"
    by (auto simp: insert_recipient_def Let_def queue_part_def split: prod.splits)
  then show ?case using Cons by simp
qed simp

lemma queue_part_write_batch: "queue_part (fst (write_batch client cid n now rows db)) = queue_part db"
proof -
  obtain db1 p s where i: "insertRecipientBatch client cid rows db = (db1, p, s)" by (metis prod_cases3)
  then have "queue_part db1 = queue_part db" using queue_part_insert [of client cid rows "(db, 0, 0)"] by (simp add: insertRecipientBatch_def)
  then have "queue_part (bumpSnapshotCounters client cid p s (advanceSnapshotCursor client cid l db1)) = queue_part db" for l
    by (simp add: bumpSnapshotCounters_def update_counters_def advanceSnapshotCursor_def queue_part_def)
  then show ?thesis by (simp add: write_batch_def i Let_def completeSnapshot_def)
qed

text \<open>The effects a snapshot batch can have on the tables.\<close>

lemma readCampaign_in: "readCampaign client cid db = Some c \<Longrightarrow> c \<in> set (bd_campaigns db) \<and> cp_id c = cid \<and> cp_client c = client"
  by (auto simp: readCampaign_def find_Some_iff)

definition good_insert :: "insert_row \<Rightarrow> bool" where
  "good_insert row \<longleftrightarrow> ir_status row = Rc_pending \<or> ir_status row = Rc_skipped"

lemma good_inserts: "good_insert (contact_insert opted body c)" "good_insert (group_insert cap devices g)"
  by (auto simp: good_insert_def contact_insert_def group_insert_def Let_def split: sum.splits option.splits)

lemma snapshot_cases:
  obtains (none) "fst (runSnapshotBatch key n now client cid db) = db"
  | (limit) reason where "fst (runSnapshotBatch key n now client cid db) = failSnapshotForLimit client cid reason now db"
  | (complete) "fst (runSnapshotBatch key n now client cid db) = fst (completeSnapshot client cid now db)"
  | (batch) c rows where "readCampaign client cid db = Some c" "\<And>row. row \<in> set rows \<Longrightarrow> good_insert row"
      "fst (runSnapshotBatch key n now client cid db) = fst (write_batch client cid n now rows db)"
proof (cases "readCampaign client cid db")
  case None
  then show thesis using none by (simp add: runSnapshotBatch_def)
next
  case (Some c)
  have c: "cp_id c = cid" "cp_client c = client" using readCampaign_in [OF Some] by auto
  let ?r = "fst (runSnapshotBatch key n now client cid db)"
  have all_good: "good_insert row" if "row \<in> set (map (contact_insert o1 b1) xs) \<or> row \<in> set (map (group_insert k1 k2) ys)" for row o1 b1 xs k1 k2 ys
    using that good_inserts by auto
  have "?r = db \<or> (\<exists>reason. ?r = failSnapshotForLimit client cid reason now db) \<or> ?r = fst (completeSnapshot client cid now db) \<or>
      (\<exists>o1 b1 xs. ?r = fst (write_batch client cid n now (map (contact_insert o1 b1) xs) db)) \<or>
      (\<exists>k1 k2 ys. ?r = fst (write_batch client cid n now (map (group_insert k1 k2) ys) db))"
  proof (cases "cp_audience c")
    case (Contacts_audience ids tags)
    then show ?thesis unfolding runSnapshotBatch_def Some Let_def option.case audience.case case_prod_beta
      by (simp only: if_split_mem2 split: if_split) (simp, blast)
  next
    case (Groups_audience ids)
    then show ?thesis unfolding runSnapshotBatch_def runGroupsSnapshotBatch_def Some Let_def option.case audience.case case_prod_beta c
      by (simp split: option.split) blast
  qed
  then show thesis
    using none limit complete batch [OF Some] all_good by metis
qed

lemma queue_part_snapshot [simp]: "queue_part (fst (runSnapshotBatch key n now client cid db)) = queue_part db"
  by (rule snapshot_cases [of key n now client cid db])
    (simp_all add: queue_part_write_batch failSnapshotForLimit_def completeSnapshot_def Let_def)

lemma queue_part_funnel [simp]: "queue_part (fst (recomputeCampaignFunnel client cid now db)) = queue_part db"
proof -
  have c: "queue_part (fst (completeIfDrained client cid now d)) = queue_part d" for d
    by (auto simp: completeIfDrained_def split: option.splits)
  have u: "queue_part (d\<lparr>bd_progress := m\<rparr>) = queue_part d" "queue_part (d\<lparr>bd_counters := k\<rparr>) = queue_part d" for d :: broadcast_db and m k
    by (simp_all add: queue_part_def)
  show ?thesis by (rule funnel_cases [of client cid now db]) (simp_all add: c u)
qed

lemma jobs_ok_queue_part: "jobs_ok sha db \<longleftrightarrow> jobs_ok sha db'" if "queue_part db = queue_part db'"
  using that by (simp add: jobs_ok_def queue_part_def)

lemma jobs_ok_expansion_write:
  assumes "jobs_ok sha db"
  shows "jobs_ok sha (fst (expansion_write sha fresh now batch db))"
proof -
  obtain c epoch rows where b: "batch = (c, epoch, rows)" by (metis prod_cases3)
  define db1 where "db1 = markRenderFailed (cp_client c) (cp_id c) (map rc_id (filter (\<lambda>r. \<not> renders (cp_body c) r) rows)) db"
  define as where "as = alloc_rows sha (cp_id c) (cp_body c) (bd_next_job db1) (filter (renders (cp_body c)) rows) fresh"
  have q: "queue_part db1 = queue_part db" by (simp add: db1_def markRenderFailed_def queue_part_def)
  have q2: "queue_part (completeExpansion cl ci now db) = queue_part db" for cl ci by (simp add: completeExpansion_def)
  have q3: "queue_part (bumpExpansionCounters cl ci s f (advanceExpansionCursor cl ci l now d)) = queue_part d" for cl ci s f l d
    by (simp add: bumpExpansionCounters_def update_counters_def advanceExpansionCursor_def queue_part_def)
  show ?thesis
  proof (cases "rows = []")
    case True
    then show ?thesis using assms jobs_ok_queue_part [OF q2] by (simp add: expansion_write_def b Let_def)
  next
    case False
    note D = expansion_write_def b Let_def False if_False prod.case db1_def [symmetric] as_def [symmetric]
    show ?thesis
    proof (cases "runExpandBatchStatement c epoch as db1")
      case (Inl e)
      then show ?thesis using assms by (simp add: D)
    next
      case (Inr res)
      obtain db2 k l where res: "res = (db2, k, l)" by (metis prod_cases3)
      have "jobs_ok sha db1" using assms jobs_ok_queue_part [OF q] by simp
      from jobs_ok_statement [OF this Inr [unfolded res]] have "jobs_ok sha db2" using alloc_rows_in by (simp add: as_def)
      then show ?thesis using jobs_ok_queue_part [OF q3] by (simp add: D Inr res)
    qed
  qed
qed

lemma jobs_ok_status:
  assumes "jobs_ok sha db" "\<And>j. cj_id (f j) = cj_id j \<and> cj_client (f j) = cj_client j \<and> cj_instance (f j) = cj_instance j \<and>
     cj_campaign (f j) = cj_campaign j \<and> cj_jid (f j) = cj_jid j"
  shows "jobs_ok sha (db\<lparr>bd_jobs := update_where p f (bd_jobs db)\<rparr>)"
proof -
  have "map cj_id (update_where p f (bd_jobs db)) = map cj_id (bd_jobs db)" using assms(2) by (intro map_update_where) simp
  then show ?thesis using assms(1) by (auto simp: jobs_ok_def set_update_where assms(2))
qed

lemma jobs_ok_step:
  assumes "jobs_ok sha db"
  shows "jobs_ok sha (broadcast_step sha e db)"
proof -
  have same: "queue_part db' = queue_part db \<Longrightarrow> jobs_ok sha db'" for db' using assms jobs_ok_queue_part by metis
  show ?thesis
  proof (cases e)
    case (B_expand fresh hold n now client cid)
    then show ?thesis using assms by (auto split: sum.splits intro: jobs_ok_expansion_write)
  next
    case (B_late_write fresh now batch)
    then show ?thesis using assms by (simp add: jobs_ok_expansion_write)
  next
    case (B_cancel_jobs client inst cid n)
    then show ?thesis using assms by (simp add: cancel_job_batch_def Let_def jobs_ok_status)
  next
    case (B_job job st)
    then show ?thesis using assms by (simp add: write_job_status_def jobs_ok_status)
  next
    case (B_cancel_recipients client cid n)
    then show ?thesis
      by (intro same) (auto simp: queue_part_def cancel_recipient_batch_def stampRecipientBatch_def adjustCountersForCancel_def update_counters_def Let_def)
  next
    case (B_resume actor client cid now)
    then show ?thesis by (intro same) (simp add: resumeBroadcast_def split: option.split sum.split)
  qed (simp_all add: same startBroadcast_def pauseBroadcast_def cancelBroadcastInTx_def stampCampaignRecipientSent_def
        stampCampaignRecipientReceipt_def queue_part_def [symmetric], simp_all add: same queue_part_def)
qed

lemma jobs_ok_run: "jobs_ok sha db \<Longrightarrow> jobs_ok sha (broadcast_run sha es db)"
  by (induction es arbitrary: db) (simp_all add: jobs_ok_step)

text \<open>
  C10. Whatever expansions are repeated, interrupted or run late, a campaign has at most one job for an address: two jobs of
  the same client, instance, campaign and recipient are the same row.
\<close>

theorem one_job_per_recipient:
  assumes "bd_refs db = []" "bd_jobs db = []"
    and "i < length (bd_jobs (broadcast_run sha es db))" "j < length (bd_jobs (broadcast_run sha es db))"
    and "cj_client (bd_jobs (broadcast_run sha es db) ! i) = cj_client (bd_jobs (broadcast_run sha es db) ! j)"
      "cj_instance (bd_jobs (broadcast_run sha es db) ! i) = cj_instance (bd_jobs (broadcast_run sha es db) ! j)"
      "cj_campaign (bd_jobs (broadcast_run sha es db) ! i) = cj_campaign (bd_jobs (broadcast_run sha es db) ! j)"
      "cj_jid (bd_jobs (broadcast_run sha es db) ! i) = cj_jid (bd_jobs (broadcast_run sha es db) ! j)"
  shows "i = j"
proof -
  define d where "d = broadcast_run sha es db"
  have ok: "jobs_ok sha d" unfolding d_def by (rule jobs_ok_run) (simp add: jobs_ok_def assms(1,2))
  have len: "i < length (bd_jobs d)" "j < length (bd_jobs d)" using assms(3,4) by (simp_all add: d_def)
  obtain r where r: "r \<in> set (bd_refs d)" "jf_job r = cj_id (bd_jobs d ! i)"
      "ref_key r = (cj_client (bd_jobs d ! i), cj_instance (bd_jobs d ! i), dedupe_key sha (cj_campaign (bd_jobs d ! i)) (cj_jid (bd_jobs d ! i)))"
    using jobs_okD(5) [OF ok nth_mem [OF len(1)]] by blast
  obtain s where s: "s \<in> set (bd_refs d)" "jf_job s = cj_id (bd_jobs d ! j)"
      "ref_key s = (cj_client (bd_jobs d ! j), cj_instance (bd_jobs d ! j), dedupe_key sha (cj_campaign (bd_jobs d ! j)) (cj_jid (bd_jobs d ! j)))"
    using jobs_okD(5) [OF ok nth_mem [OF len(2)]] by blast
  have "ref_key r = ref_key s" using assms(5-8) r(3) s(3) by (simp add: d_def)
  then have "r = s" using jobs_okD(1) [OF ok] r(1) s(1) by (auto simp: distinct_map dest: inj_onD)
  then have "map cj_id (bd_jobs d) ! i = map cj_id (bd_jobs d) ! j" using r(2) s(2) len by simp
  then show ?thesis using jobs_okD(2) [OF ok] len by (simp add: distinct_conv_nth) metis
qed

section \<open>An example\<close>

text \<open>A campaign to two contacts, one of them opted out: created, started, snapshotted and expanded.\<close>

definition example_actor :: broadcast_actor where
  "example_actor = \<lparr>ac_kind = Actor_user, ac_user = Some ''u'', ac_staff = None\<rparr>"

definition example_contact :: "nat \<Rightarrow> string \<Rightarrow> contact" where
  "example_contact n jid = \<lparr>co_id = n, co_client = ''k'', co_deleted = False, co_jid = jid, co_hash = jid, co_phone = ''+1'', co_first = None,
     co_last = None, co_display = None, co_attrs = JS_null, co_tags = [''t'']\<rparr>"

definition example_broadcast_db :: broadcast_db where
  "example_broadcast_db = \<lparr>bd_campaigns = [], bd_recipients = [], bd_next_recipient = 1, bd_counters = (\<lambda>_. None), bd_refs = [], bd_jobs = [],
     bd_next_job = 1, bd_contacts = [example_contact 1 ''1@c.us'', example_contact 2 ''2@c.us''], bd_groups = [],
     bd_opted = [(''k'', ''2@c.us'')], bd_limit = (\<lambda>_. Some 100), bd_epoch = (\<lambda>_. Some 1), bd_group_cap = (\<lambda>_. None),
     bd_audit = [], bd_progress = []\<rparr>"

definition example_input :: create_input where
  "example_input = \<lparr>ci_client = ''k'', ci_idem = ''i'', ci_instance = ''w'', ci_audience = Contacts_audience [] [''t''], ci_body = ''hi''\<rparr>"

definition example_events :: "broadcast_event list" where
  "example_events = [B_create example_actor example_input ''c'' 1, B_start example_actor ''k'' ''c'' 2, B_snapshot False 10 3 ''k'' ''c'',
     B_expand [''p'', ''q''] 5000 10 4 ''k'' ''c'']"

definition example_run :: "nat \<Rightarrow> broadcast_db" where
  "example_run i = broadcast_run (\<lambda>x. x) (take i example_events) example_broadcast_db"

theorem campaign_rows_follow_fsm_witness:
  "same_campaign (bd_campaigns (example_run 1) ! 0) (bd_campaigns (broadcast_run (\<lambda>x. x) (drop 1 example_events) (example_run 1)) ! 0)"
proof -
  have "0 < length (bd_campaigns (example_run 1))" by code_simp
  from campaign_rows_follow_fsm [OF this] show ?thesis by blast
qed

text \<open>The same expansion batch once more, late: no second job.\<close>

definition example_replay :: "broadcast_event list" where
  "example_replay = example_events @
    (case expansion_read True 5000 10 ''k'' ''c'' (example_run 3) of Inl _ \<Rightarrow> [] | Inr batch \<Rightarrow> [B_late_write [''r'', ''s''] 5 batch])"

theorem one_job_per_recipient_witness:
  "length (bd_jobs (broadcast_run (\<lambda>x. x) example_replay example_broadcast_db)) = 1 \<and> (0 :: nat) = 0"
proof -
  have e: "bd_refs example_broadcast_db = []" "bd_jobs example_broadcast_db = []" by (simp_all add: example_broadcast_db_def)
  have l: "length (bd_jobs (broadcast_run (\<lambda>x. x) example_replay example_broadcast_db)) = 1" by code_simp
  then have "0 < length (bd_jobs (broadcast_run (\<lambda>x. x) example_replay example_broadcast_db))" by simp
  from one_job_per_recipient [OF e this this refl refl refl refl] l show ?thesis by simp
qed

end
