(* ===== verification/Broadcast_Counts.thy ===== *)
theory Broadcast_Counts
  imports Broadcast
begin

text \<open>
  The counters of a campaign against its recipients: what it means that they agree, how counting commutes with the updates
  the statements make, and that every transaction which writes recipients keeps the agreement.
\<close>

section \<open>Counting rows\<close>

definition count_if :: "('a \<Rightarrow> bool) \<Rightarrow> 'a list \<Rightarrow> int" where
  "count_if p xs = int (length (filter p xs))"

lemma count_if_simps [simp]:
  "count_if p [] = 0" "count_if p (x # xs) = (if p x then 1 else 0) + count_if p xs"
  "count_if p (xs @ ys) = count_if p xs + count_if p ys" "0 \<le> count_if p xs"
  by (simp_all add: count_if_def)

lemma count_if_map [simp]: "count_if p (map f xs) = count_if (\<lambda>x. p (f x)) xs"
  by (induction xs) simp_all

lemma count_if_cong: "(\<And>x. x \<in> set xs \<Longrightarrow> p x = q x) \<Longrightarrow> count_if p xs = count_if q xs"
  by (induction xs) auto

lemma count_if_split: "count_if p xs = count_if (\<lambda>x. p x \<and> q x) xs + count_if (\<lambda>x. p x \<and> \<not> q x) xs"
  by (induction xs) auto

lemma count_if_mono: "(\<And>x. x \<in> set xs \<Longrightarrow> p x \<Longrightarrow> q x) \<Longrightarrow> count_if p xs \<le> count_if q xs"
  by (induction xs) auto

lemma count_if_0: "count_if p xs = 0 \<longleftrightarrow> (\<forall>x\<in>set xs. \<not> p x)"
  by (simp add: count_if_def filter_empty_conv)

text \<open>Rows with distinct keys are counted by the keys of any list of them.\<close>

lemma count_if_keys:
  assumes "distinct (map f xs)" "set ys \<subseteq> set xs" "distinct ys"
  shows "count_if (\<lambda>x. f x \<in> f ` set ys) xs = int (length ys)"
proof -
  have inj: "inj_on f (set xs)" and d: "distinct xs" using assms(1) by (simp_all add: distinct_map)
  have "set (filter (\<lambda>x. f x \<in> f ` set ys) xs) = set ys"
    using inj assms(2) by (auto dest: inj_onD)
  then have "card (set ys) = length (filter (\<lambda>x. f x \<in> f ` set ys) xs)"
    using d by (metis distinct_card distinct_filter)
  then show ?thesis using assms(3) by (simp add: count_if_def distinct_card)
qed

section \<open>The invariant\<close>

definition in_bucket :: "string \<Rightarrow> recipient_status \<Rightarrow> recipient \<Rightarrow> bool" where
  "in_bucket cid st r \<longleftrightarrow> rc_campaign r = cid \<and> rc_status r = st"

definition bucket_sum_of :: "campaign_counters \<Rightarrow> int" where
  "bucket_sum_of k = ct_pending k + ct_skipped k + ct_queued k + ct_sent k + ct_delivered k + ct_read k + ct_failed k + ct_cancelled k"

definition tallied :: "string \<Rightarrow> campaign_counters \<Rightarrow> recipient list \<Rightarrow> bool" where
  "tallied cid k rs \<longleftrightarrow> ct_total k = count_if (\<lambda>r. rc_campaign r = cid) rs \<and> bucket_sum_of k = ct_total k \<and>
     ct_pending k = count_if (in_bucket cid Rc_pending) rs \<and> ct_skipped k = count_if (in_bucket cid Rc_skipped) rs \<and>
     count_if (in_bucket cid Rc_queued) rs \<le> ct_queued k"

definition waiting :: "recipient \<Rightarrow> bool" where
  "waiting r \<longleftrightarrow> rc_status r = Rc_pending \<or> rc_status r = Rc_skipped"

definition recipients_ok :: "broadcast_db \<Rightarrow> bool" where
  "recipients_ok db \<longleftrightarrow> distinct (map rc_id (bd_recipients db)) \<and> (\<forall>r\<in>set (bd_recipients db). rc_id r < bd_next_recipient db) \<and>
     (\<forall>r\<in>set (bd_recipients db). waiting r \<longrightarrow> rc_job r = None) \<and>
     (\<forall>r\<in>set (bd_recipients db). \<exists>c\<in>set (bd_campaigns db). cp_id c = rc_campaign r \<and> cp_client c = rc_client r)"

definition counters_ok :: "broadcast_db \<Rightarrow> bool" where
  "counters_ok db \<longleftrightarrow> distinct (map cp_id (bd_campaigns db)) \<and>
     (\<forall>c\<in>set (bd_campaigns db). \<exists>k. bd_counters db (cp_id c) = Some k \<and> ct_client k = cp_client c \<and> tallied (cp_id c) k (bd_recipients db))"

lemma recipients_okD:
  assumes "recipients_ok db"
  shows "distinct (map rc_id (bd_recipients db))" "\<And>r. r \<in> set (bd_recipients db) \<Longrightarrow> rc_id r < bd_next_recipient db"
    "\<And>r. r \<in> set (bd_recipients db) \<Longrightarrow> waiting r \<Longrightarrow> rc_job r = None"
    "\<And>r. r \<in> set (bd_recipients db) \<Longrightarrow> \<exists>c\<in>set (bd_campaigns db). cp_id c = rc_campaign r \<and> cp_client c = rc_client r"
  using assms by (auto simp: recipients_ok_def)

lemma counters_okD:
  assumes "counters_ok db"
  shows "distinct (map cp_id (bd_campaigns db))"
    "\<And>c. c \<in> set (bd_campaigns db) \<Longrightarrow> \<exists>k. bd_counters db (cp_id c) = Some k \<and> ct_client k = cp_client c \<and> tallied (cp_id c) k (bd_recipients db)"
  using assms by (auto simp: counters_ok_def)

lemma same_id_same_row:
  assumes "distinct (map f xs)" "x \<in> set xs" "y \<in> set xs" "f x = f y" shows "x = y"
  using assms by (auto simp: distinct_map dest: inj_onD)

text \<open>A campaign id has one client, so the rows of a campaign are the rows with its id.\<close>

lemma campaign_client_unique:
  assumes "recipients_ok db" "counters_ok db" "c \<in> set (bd_campaigns db)" "r \<in> set (bd_recipients db)" "rc_campaign r = cp_id c"
  shows "rc_client r = cp_client c"
proof -
  obtain d where "d \<in> set (bd_campaigns db)" "cp_id d = rc_campaign r" "cp_client d = rc_client r"
    using recipients_okD(4) [OF assms(1,4)] by blast
  with same_id_same_row [OF counters_okD(1) [OF assms(2)] this(1) assms(3)] assms(5) show ?thesis by simp
qed

lemma update_counters_same:
  "bd_counters db cid = Some k \<Longrightarrow> ct_client k = client \<Longrightarrow> bd_counters (update_counters client cid f db) = (bd_counters db)(cid \<mapsto> f k)"
  by (simp add: update_counters_def)

section \<open>Steps that rewrite recipients in place\<close>

text \<open>
  \<open>f\<close> rewrites rows without making any pending, skipped or out of its campaign; \<open>out\<close> rows of \<open>cid\<close> leave the pending
  bucket, and the queued bucket grows by at most \<open>inq\<close>.
\<close>

lemma tallied_map:
  assumes t: "tallied cid k rs"
    and keep: "\<And>r. r \<in> set rs \<Longrightarrow> rc_campaign (f r) = rc_campaign r"
    and pend: "\<And>r. r \<in> set rs \<Longrightarrow> rc_status (f r) = Rc_pending \<Longrightarrow> rc_status r = Rc_pending"
    and skip: "\<And>r. r \<in> set rs \<Longrightarrow> rc_status (f r) = Rc_skipped \<longleftrightarrow> rc_status r = Rc_skipped"
    and out: "ct_pending k' = ct_pending k - count_if (\<lambda>r. in_bucket cid Rc_pending r \<and> \<not> in_bucket cid Rc_pending (f r)) rs"
    and inq: "count_if (in_bucket cid Rc_queued) (map f rs) \<le> ct_queued k'"
    and rest: "ct_total k' = ct_total k" "ct_skipped k' = ct_skipped k" "bucket_sum_of k' = bucket_sum_of k"
  shows "tallied cid k' (map f rs)"
proof -
  have "count_if (\<lambda>r. rc_campaign r = cid) (map f rs) = count_if (\<lambda>r. rc_campaign r = cid) rs"
    using keep by (simp cong: count_if_cong)
  moreover have "count_if (in_bucket cid Rc_skipped) (map f rs) = count_if (in_bucket cid Rc_skipped) rs"
    unfolding count_if_map by (rule count_if_cong) (use keep skip in \<open>auto simp: in_bucket_def\<close>)
  moreover have "count_if (in_bucket cid Rc_pending) (map f rs) = count_if (\<lambda>r. in_bucket cid Rc_pending r \<and> in_bucket cid Rc_pending (f r)) rs"
    unfolding count_if_map by (rule count_if_cong) (use keep pend in \<open>auto simp: in_bucket_def\<close>)
  then have "ct_pending k' = count_if (in_bucket cid Rc_pending) (map f rs)"
    using out t count_if_split [of "in_bucket cid Rc_pending" rs "\<lambda>r. in_bucket cid Rc_pending (f r)"] by (simp add: tallied_def)
  ultimately show ?thesis using t inq rest by (simp add: tallied_def)
qed

definition proper :: "(recipient \<Rightarrow> recipient) \<Rightarrow> recipient list \<Rightarrow> bool" where
  "proper f rs \<longleftrightarrow> (\<forall>r\<in>set rs. rc_id (f r) = rc_id r \<and> rc_client (f r) = rc_client r \<and> rc_campaign (f r) = rc_campaign r \<and>
     (f r = r \<or> \<not> waiting (f r) \<and> rc_status r \<noteq> Rc_skipped))"

definition leaving :: "(recipient \<Rightarrow> recipient) \<Rightarrow> string \<Rightarrow> recipient list \<Rightarrow> int" where
  "leaving f cid rs = count_if (\<lambda>r. in_bucket cid Rc_pending r \<and> f r \<noteq> r) rs"

abbreviation ids_of :: "broadcast_db \<Rightarrow> (string \<times> string) list" where
  "ids_of db \<equiv> map (\<lambda>c. (cp_id c, cp_client c)) (bd_campaigns db)"

lemma ids_of_campaign: "c \<in> set (bd_campaigns db') \<Longrightarrow> ids_of db' = ids_of db \<Longrightarrow> \<exists>d\<in>set (bd_campaigns db). cp_id d = cp_id c \<and> cp_client d = cp_client c"
proof -
  assume "c \<in> set (bd_campaigns db')" "ids_of db' = ids_of db"
  then have "(cp_id c, cp_client c) \<in> set (ids_of db)" by (metis (mono_tags, lifting) image_eqI list.set_map)
  then show ?thesis by auto
qed

lemma ids_of_distinct: "ids_of db' = ids_of db \<Longrightarrow> distinct (map cp_id (bd_campaigns db)) \<Longrightarrow> distinct (map cp_id (bd_campaigns db'))"
proof -
  assume a: "ids_of db' = ids_of db" "distinct (map cp_id (bd_campaigns db))"
  have "map cp_id (bd_campaigns d) = map fst (ids_of d)" for d by simp
  then show ?thesis using a by metis
qed

lemma recipients_ok_ids:
  assumes "recipients_ok db" "bd_recipients db' = bd_recipients db" "bd_next_recipient db' = bd_next_recipient db" "ids_of db' = ids_of db"
  shows "recipients_ok db'"
proof -
  have "\<exists>c\<in>set (bd_campaigns db'). cp_id c = rc_campaign r \<and> cp_client c = rc_client r" if r: "r \<in> set (bd_recipients db)" for r
    using recipients_okD(4) [OF assms(1) r] ids_of_campaign [OF _ assms(4) [symmetric]] by metis
  then show ?thesis using assms(1-3) by (simp add: recipients_ok_def)
qed

lemma inv_same_rows:
  assumes "recipients_ok db" "counters_ok db" "bd_recipients db' = bd_recipients db" "bd_next_recipient db' = bd_next_recipient db"
    "bd_counters db' = bd_counters db" "ids_of db' = ids_of db"
  shows "recipients_ok db' \<and> counters_ok db'"
proof
  show "recipients_ok db'" by (rule recipients_ok_ids [OF assms(1,3,4,6)])
  have "\<exists>k. bd_counters db' (cp_id c) = Some k \<and> ct_client k = cp_client c \<and> tallied (cp_id c) k (bd_recipients db')"
    if c: "c \<in> set (bd_campaigns db')" for c
    using ids_of_campaign [OF c assms(6)] counters_okD(2) [OF assms(2)] assms(3,5) by metis
  then show "counters_ok db'" using ids_of_distinct [OF assms(6) counters_okD(1) [OF assms(2)]] by (simp add: counters_ok_def)
qed

lemma inv_in_place:
  assumes inv: "recipients_ok db" "counters_ok db"
    and rows: "bd_recipients db' = map f (bd_recipients db)" "bd_next_recipient db' = bd_next_recipient db" "ids_of db' = ids_of db"
    and f: "proper f (bd_recipients db)"
    and k: "\<And>c k. c \<in> set (bd_campaigns db) \<Longrightarrow> bd_counters db (cp_id c) = Some k \<Longrightarrow> ct_client k = cp_client c \<Longrightarrow>
        tallied (cp_id c) k (bd_recipients db) \<Longrightarrow>
        \<exists>k'. bd_counters db' (cp_id c) = Some k' \<and> ct_client k' = cp_client c \<and> ct_total k' = ct_total k \<and> ct_skipped k' = ct_skipped k \<and>
          bucket_sum_of k' = bucket_sum_of k \<and> ct_pending k' = ct_pending k - leaving f (cp_id c) (bd_recipients db) \<and>
          count_if (\<lambda>r. in_bucket (cp_id c) Rc_queued (f r)) (bd_recipients db) \<le> ct_queued k'"
  shows "recipients_ok db' \<and> counters_ok db'"
proof
  have F: "rc_id (f r) = rc_id r" "rc_client (f r) = rc_client r" "rc_campaign (f r) = rc_campaign r"
    "f r = r \<or> \<not> waiting (f r) \<and> rc_status r \<noteq> Rc_skipped" if "r \<in> set (bd_recipients db)" for r
    using f that by (auto simp: proper_def)
  have "\<exists>c\<in>set (bd_campaigns db'). cp_id c = rc_campaign r \<and> cp_client c = rc_client r" if r: "r \<in> set (bd_recipients db)" for r
    using recipients_okD(4) [OF inv(1) r] ids_of_campaign [OF _ rows(3) [symmetric]] by metis
  moreover have ids: "map rc_id (map f (bd_recipients db)) = map rc_id (bd_recipients db)" using F(1) by simp
  have "distinct (map rc_id (map f (bd_recipients db)))" unfolding ids by (rule recipients_okD(1) [OF inv(1)])
  moreover have "rc_job (f r) = None" if "r \<in> set (bd_recipients db)" "waiting (f r)" for r
    using F(4) [OF that(1)] that recipients_okD(3) [OF inv(1)] by metis
  ultimately show "recipients_ok db'" using recipients_okD(2) [OF inv(1)] F by (simp add: recipients_ok_def rows del: map_map)
  have "\<exists>k'. bd_counters db' (cp_id c) = Some k' \<and> ct_client k' = cp_client c \<and> tallied (cp_id c) k' (bd_recipients db')"
    if c: "c \<in> set (bd_campaigns db)" for c
  proof -
    obtain k where k0: "bd_counters db (cp_id c) = Some k" "ct_client k = cp_client c" "tallied (cp_id c) k (bd_recipients db)"
      using counters_okD(2) [OF inv(2) c] by blast
    from k [OF c k0] obtain k' where k': "bd_counters db' (cp_id c) = Some k'" "ct_client k' = cp_client c" "ct_total k' = ct_total k"
        "ct_skipped k' = ct_skipped k" "bucket_sum_of k' = bucket_sum_of k"
        "ct_pending k' = ct_pending k - leaving f (cp_id c) (bd_recipients db)"
        "count_if (\<lambda>r. in_bucket (cp_id c) Rc_queued (f r)) (bd_recipients db) \<le> ct_queued k'" by blast
    have "count_if (\<lambda>r. in_bucket (cp_id c) Rc_pending r \<and> \<not> in_bucket (cp_id c) Rc_pending (f r)) (bd_recipients db)
        = leaving f (cp_id c) (bd_recipients db)"
      unfolding leaving_def by (rule count_if_cong) (use F in \<open>auto simp: in_bucket_def waiting_def\<close>)
    moreover have "rc_status r = Rc_pending" if "r \<in> set (bd_recipients db)" "rc_status (f r) = Rc_pending" for r
      using F(4) [OF that(1)] that(2) by (metis waiting_def)
    moreover have "rc_status (f r) = Rc_skipped \<longleftrightarrow> rc_status r = Rc_skipped" if "r \<in> set (bd_recipients db)" for r
      using F(4) [OF that] by (metis waiting_def)
    ultimately have "tallied (cp_id c) k' (map f (bd_recipients db))"
      using F(3) k' by (intro tallied_map [OF k0(3)]) auto
    then show ?thesis using k' rows by auto
  qed
  then have "\<exists>k. bd_counters db' (cp_id c) = Some k \<and> ct_client k = cp_client c \<and> tallied (cp_id c) k (bd_recipients db')"
    if "c \<in> set (bd_campaigns db')" for c
    using ids_of_campaign [OF that rows(3)] by metis
  then show "counters_ok db'" using ids_of_distinct [OF rows(3) counters_okD(1) [OF inv(2)]] by (simp add: counters_ok_def)
qed

lemma update_where_map: "update_where p f xs = map (\<lambda>x. if p x then f x else x) xs"
  by (simp add: update_where_def)

text \<open>A rewrite that changes no waiting row and makes none queued needs no change of the counters.\<close>

lemma inv_in_place_quiet:
  assumes inv: "recipients_ok db" "counters_ok db"
    and rows: "bd_recipients db' = map f (bd_recipients db)" "bd_next_recipient db' = bd_next_recipient db"
      "bd_campaigns db' = bd_campaigns db" "bd_counters db' = bd_counters db"
    and f: "\<And>r. r \<in> set (bd_recipients db) \<Longrightarrow> rc_id (f r) = rc_id r \<and> rc_client (f r) = rc_client r \<and> rc_campaign (f r) = rc_campaign r \<and>
       (f r = r \<or> \<not> waiting (f r) \<and> \<not> waiting r \<and> (rc_status (f r) = Rc_queued \<longrightarrow> rc_status r = Rc_queued))"
  shows "recipients_ok db' \<and> counters_ok db'"
proof (rule inv_in_place [OF inv rows(1,2)])
  show "ids_of db' = ids_of db" by (simp add: rows)
  show "proper f (bd_recipients db)" using f by (auto simp: proper_def waiting_def)
  fix c k assume c: "c \<in> set (bd_campaigns db)" "bd_counters db (cp_id c) = Some k" "ct_client k = cp_client c"
      "tallied (cp_id c) k (bd_recipients db)"
  have "leaving f (cp_id c) (bd_recipients db) = 0"
    unfolding leaving_def count_if_0 using f by (auto simp: in_bucket_def waiting_def)
  moreover have "count_if (\<lambda>r. in_bucket (cp_id c) Rc_queued (f r)) (bd_recipients db) \<le> count_if (in_bucket (cp_id c) Rc_queued) (bd_recipients db)"
    by (rule count_if_mono) (use f in \<open>fastforce simp: in_bucket_def\<close>)
  then have "count_if (\<lambda>r. in_bucket (cp_id c) Rc_queued (f r)) (bd_recipients db) \<le> ct_queued k" using c(4) by (simp add: tallied_def)
  ultimately show "\<exists>k'. bd_counters db' (cp_id c) = Some k' \<and> ct_client k' = cp_client c \<and> ct_total k' = ct_total k \<and>
      ct_skipped k' = ct_skipped k \<and> bucket_sum_of k' = bucket_sum_of k \<and>
      ct_pending k' = ct_pending k - leaving f (cp_id c) (bd_recipients db) \<and>
      count_if (\<lambda>r. in_bucket (cp_id c) Rc_queued (f r)) (bd_recipients db) \<le> ct_queued k'"
    using c rows(4) by simp
qed

lemma inv_quiet_update:
  assumes "recipients_ok db" "counters_ok db"
    and "bd_recipients db' = update_where p g (bd_recipients db)" "bd_next_recipient db' = bd_next_recipient db"
      "bd_campaigns db' = bd_campaigns db" "bd_counters db' = bd_counters db"
    and "\<And>r. r \<in> set (bd_recipients db) \<Longrightarrow> p r \<Longrightarrow> rc_id (g r) = rc_id r \<and> rc_client (g r) = rc_client r \<and>
       rc_campaign (g r) = rc_campaign r \<and> \<not> waiting (g r) \<and> \<not> waiting r \<and> (rc_status (g r) = Rc_queued \<longrightarrow> rc_status r = Rc_queued)"
  shows "recipients_ok db' \<and> counters_ok db'"
  by (rule inv_in_place_quiet [OF assms(1,2), where f = "\<lambda>r. if p r then g r else r"])
    (use assms(3-7) in \<open>auto simp: update_where_map\<close>)

lemma sent_rows: "bd_recipients (stampCampaignRecipientSent client job charged db) = update_where
     (\<lambda>r. refers_to db client job r \<and> (rc_status r = Rc_queued \<or> rc_status r = Rc_cancelled))
     (\<lambda>r. r\<lparr>rc_status := Rc_sent, rc_charged := (case charged of None \<Rightarrow> rc_charged r | Some k \<Rightarrow> Some k)\<rparr>) (bd_recipients db)"
  by (simp add: stampCampaignRecipientSent_def)

lemma receipt_rows: "bd_recipients (stampCampaignRecipientReceipt client job isRead now db) = update_where
     (\<lambda>r. refers_to db client job r \<and>
        (isRead \<and> rc_read_at r = None \<or> \<not> isRead \<and> (rc_status r = Rc_sent \<or> rc_status r = Rc_read) \<and> rc_delivered_at r = None))
     (stamp_receipt isRead now) (bd_recipients db)"
  by (simp add: stampCampaignRecipientReceipt_def)

lemma inv_sent:
  assumes "recipients_ok db" "counters_ok db"
  shows "recipients_ok (stampCampaignRecipientSent client job charged db) \<and> counters_ok (stampCampaignRecipientSent client job charged db)"
  by (rule inv_quiet_update [OF assms sent_rows]) (auto simp: stampCampaignRecipientSent_def waiting_def)

lemma inv_receipt:
  assumes "recipients_ok db" "counters_ok db"
  shows "recipients_ok (stampCampaignRecipientReceipt client job isRead now db) \<and> counters_ok (stampCampaignRecipientReceipt client job isRead now db)"
proof -
  have w: "\<not> waiting r" if "r \<in> set (bd_recipients db)" "refers_to db client job r" for r
    using recipients_okD(3) [OF assms(1) that(1)] that(2) by (auto simp: refers_to_def list_ex_iff)
  show ?thesis
    by (rule inv_quiet_update [OF assms receipt_rows])
      (use w in \<open>auto simp: stampCampaignRecipientReceipt_def stamp_receipt_def waiting_def\<close>)
qed

text \<open>A batch of the bookkeeping.\<close>

lemma open_batch_in:
  assumes "r \<in> set (open_batch client cid n db)"
  shows "r \<in> set (bd_recipients db) \<and> open_recipient client cid r"
  using set_take_subset [of n "sort_key rc_id (filter (open_recipient client cid) (bd_recipients db))"] assms
  by (auto simp: open_batch_def)

lemma open_batch_distinct: "recipients_ok db \<Longrightarrow> distinct (open_batch client cid n db)"
  using recipients_okD(1) [of db] by (simp add: open_batch_def distinct_map)

lemma batch_rows:
  assumes "recipients_ok db" "set batch \<subseteq> set (bd_recipients db)" "r \<in> set (bd_recipients db)" "rc_id r \<in> rc_id ` set batch"
  shows "r \<in> set batch"
  using assms same_id_same_row [OF recipients_okD(1) [OF assms(1)]] by (metis imageE subsetD)

lemma status_unchanged [simp]: "r\<lparr>rc_status := st\<rparr> = r \<longleftrightarrow> rc_status r = st"
  by (cases r) auto

lemma inv_cancel_recipients:
  assumes inv: "recipients_ok db" "counters_ok db"
  shows "recipients_ok (fst (cancel_recipient_batch client cid n db)) \<and> counters_ok (fst (cancel_recipient_batch client cid n db))"
proof (cases "list_ex (open_recipient client cid) (bd_recipients db)")
  case False
  then show ?thesis using inv by (simp add: cancel_recipient_batch_def)
next
  case True
  define batch where "batch = open_batch client cid n db"
  define hit where "hit = (\<lambda>r :: recipient. rc_id r \<in> rc_id ` set batch)"
  define f where "f = (\<lambda>r :: recipient. if hit r then r\<lparr>rc_status := Rc_cancelled\<rparr> else r)"
  define p where "p = int (length (filter (\<lambda>r. rc_status r = Rc_pending) batch))"
  define q where "q = int (length (filter (\<lambda>r. rc_status r \<noteq> Rc_pending) batch))"
  define db' where "db' = fst (cancel_recipient_batch client cid n db)"
  have db': "db' = adjustCountersForCancel client cid p q (db\<lparr>bd_recipients := map f (bd_recipients db)\<rparr>)"
    using True by (simp add: db'_def cancel_recipient_batch_def stampRecipientBatch_def Let_def batch_def [symmetric] f_def hit_def p_def q_def update_where_map)
  have B: "r \<in> set (bd_recipients db) \<and> open_recipient client cid r" if "r \<in> set batch" for r
    using open_batch_in that by (simp add: batch_def)
  have mem: "r \<in> set batch" "open_recipient client cid r" if "r \<in> set (bd_recipients db)" "hit r" for r
  proof -
    show "r \<in> set batch" by (rule batch_rows [OF inv(1) _ that [unfolded hit_def]]) (use B in auto)
    then show "open_recipient client cid r" using B by blast
  qed
  have hit: "hit r" if "r \<in> set batch" for r using that by (simp add: hit_def)
  have cnt: "count_if (\<lambda>r. P r \<and> hit r) (bd_recipients db) = int (length (filter P batch))" for P :: "recipient \<Rightarrow> bool"
  proof -
    have "count_if (\<lambda>r. P r \<and> hit r) (bd_recipients db) =
        count_if (\<lambda>r. rc_id r \<in> rc_id ` set (filter P batch)) (bd_recipients db)"
    proof (rule count_if_cong)
      fix r assume r: "r \<in> set (bd_recipients db)"
      have "P r \<and> r \<in> set batch" if "rc_id r \<in> rc_id ` set (filter P batch)"
      proof -
        have "set (filter P batch) \<subseteq> set (bd_recipients db)" using B by auto
        from batch_rows [OF inv(1) this r that] show ?thesis by simp
      qed
      moreover have "rc_id r \<in> rc_id ` set (filter P batch)" if "P r" "hit r" using mem(1) [OF r that(2)] that(1) by simp
      ultimately show "(P r \<and> hit r) = (rc_id r \<in> rc_id ` set (filter P batch))" using hit by blast
    qed
    also have "\<dots> = int (length (filter P batch))"
      by (rule count_if_keys [OF recipients_okD(1) [OF inv(1)]]) (use B open_batch_distinct [OF inv(1)] in \<open>auto simp: batch_def\<close>)
    finally show ?thesis .
  qed
  have "recipients_ok db' \<and> counters_ok db'"
  proof (rule inv_in_place [OF inv])
    show "bd_recipients db' = map f (bd_recipients db)" "bd_next_recipient db' = bd_next_recipient db" "ids_of db' = ids_of db"
      by (simp_all add: db' adjustCountersForCancel_def update_counters_def)
    have "rc_status r \<noteq> Rc_skipped" if "r \<in> set (bd_recipients db)" "hit r" for r
      using mem(2) [OF that] by (auto simp: open_recipient_def)
    then show "proper f (bd_recipients db)" by (simp add: proper_def f_def waiting_def)
    fix c k assume c: "c \<in> set (bd_campaigns db)" "bd_counters db (cp_id c) = Some k" "ct_client k = cp_client c"
        "tallied (cp_id c) k (bd_recipients db)"
    have lv: "leaving f (cp_id c) (bd_recipients db) = (if cp_id c = cid then p else 0)"
    proof (cases "cp_id c = cid")
      case True
      have "leaving f cid (bd_recipients db) = count_if (\<lambda>r. rc_status r = Rc_pending \<and> hit r) (bd_recipients db)"
        unfolding leaving_def by (rule count_if_cong) (use mem B in \<open>auto simp: in_bucket_def f_def open_recipient_def\<close>)
      then show ?thesis using cnt True by (simp add: p_def)
    next
      case False
      then show ?thesis using mem B by (auto simp: leaving_def count_if_0 in_bucket_def f_def open_recipient_def split: if_splits)
    qed
    have qd: "count_if (\<lambda>r. in_bucket (cp_id c) Rc_queued (f r)) (bd_recipients db) =
        count_if (in_bucket (cp_id c) Rc_queued) (bd_recipients db) - (if cp_id c = cid then q else 0)"
    proof -
      have "count_if (\<lambda>r. in_bucket (cp_id c) Rc_queued (f r)) (bd_recipients db) =
          count_if (\<lambda>r. in_bucket (cp_id c) Rc_queued r \<and> \<not> hit r) (bd_recipients db)"
        by (rule count_if_cong) (auto simp: in_bucket_def f_def)
      moreover have "count_if (\<lambda>r. in_bucket (cp_id c) Rc_queued r \<and> hit r) (bd_recipients db) =
          (if cp_id c = cid then q else 0)"
      proof (cases "cp_id c = cid")
        case True
        have "count_if (\<lambda>r. in_bucket (cp_id c) Rc_queued r \<and> hit r) (bd_recipients db) =
            count_if (\<lambda>r. rc_status r \<noteq> Rc_pending \<and> hit r) (bd_recipients db)"
          by (rule count_if_cong) (use mem B True in \<open>auto simp: in_bucket_def open_recipient_def\<close>)
        then show ?thesis using cnt True by (simp add: q_def)
      next
        case False
        then show ?thesis using mem B by (auto simp: count_if_0 in_bucket_def open_recipient_def)
      qed
      ultimately show ?thesis
        using count_if_split [of "in_bucket (cp_id c) Rc_queued" "bd_recipients db" "\<lambda>r. hit r"] by simp
    qed
    have "leaving f (cp_id c) (bd_recipients db) \<le> ct_pending k"
      unfolding leaving_def using c(4) count_if_mono [of "bd_recipients db" "\<lambda>r. in_bucket (cp_id c) Rc_pending r \<and> f r \<noteq> r" "in_bucket (cp_id c) Rc_pending"]
      by (simp add: tallied_def)
    then have pk: "cp_id c = cid \<Longrightarrow> p \<le> ct_pending k" using lv by simp
    have qk: "cp_id c = cid \<Longrightarrow> q \<le> ct_queued k" using qd c(4) by (simp add: tallied_def) (smt (verit) count_if_simps(4))
    show "\<exists>k'. bd_counters db' (cp_id c) = Some k' \<and> ct_client k' = cp_client c \<and> ct_total k' = ct_total k \<and>
        ct_skipped k' = ct_skipped k \<and> bucket_sum_of k' = bucket_sum_of k \<and>
        ct_pending k' = ct_pending k - leaving f (cp_id c) (bd_recipients db) \<and>
        count_if (\<lambda>r. in_bucket (cp_id c) Rc_queued (f r)) (bd_recipients db) \<le> ct_queued k'"
    proof (cases "cp_id c = cid")
      case False
      then show ?thesis using c lv qd by (auto simp: db' adjustCountersForCancel_def update_counters_def tallied_def)
    next
      case cc: True
      have "cp_client c = client"
      proof -
        obtain r where r: "r \<in> set (bd_recipients db)" "open_recipient client cid r" using True by (auto simp: list_ex_iff)
        then show ?thesis using campaign_client_unique [OF inv c(1) r(1)] cc by (simp add: open_recipient_def)
      qed
      moreover have "0 \<le> p" "0 \<le> q" by (simp_all add: p_def q_def)
      ultimately show ?thesis using c cc lv qd pk qk
        by (auto simp: db' adjustCountersForCancel_def update_counters_def tallied_def bucket_sum_of_def)
    qed
  qed
  then show ?thesis by (simp add: db'_def)
qed

text \<open>An expansion that reads and writes in one piece.\<close>

lemma is_stamped_iff: "is_stamped c resolve as r \<longleftrightarrow> rc_campaign r = cp_id c \<and> rc_client r = cp_client c \<and>
    (\<exists>a. find (\<lambda>a. al_recipient a = rc_id r) as = Some a \<and> resolve a \<noteq> None)"
  by (auto simp: is_stamped_def split: option.splits)

lemma readExpansionBatch_in:
  "r \<in> set (readExpansionBatch client cid cursor n db) \<Longrightarrow>
     r \<in> set (bd_recipients db) \<and> rc_campaign r = cid \<and> rc_client r = client \<and> rc_status r = Rc_pending"
  using set_take_subset [of n "sort_key rc_id (filter (\<lambda>r. rc_campaign r = cid \<and> rc_client r = client \<and> cursor < rc_id r \<and> rc_status r = Rc_pending) (bd_recipients db))"]
  by (auto simp: readExpansionBatch_def)

lemma readExpansionBatch_distinct: "recipients_ok db \<Longrightarrow> distinct (readExpansionBatch client cid cursor n db)"
  using recipients_okD(1) [of db] by (simp add: readExpansionBatch_def distinct_map)

lemma expansion_readD:
  assumes "expansion_read locked hold n client cid db = Inr (c, epoch, rows)"
  shows "c \<in> set (bd_campaigns db)" "cp_id c = cid" "cp_client c = client" "cp_status c = Camp_expanding"
    "rows = readExpansionBatch client cid (cp_expand_cursor c) n db"
  using assms by (auto simp: expansion_read_def split: if_splits option.splits dest: readCampaign_in)

definition fails :: "recipient list \<Rightarrow> recipient \<Rightarrow> bool" where
  "fails bad r \<longleftrightarrow> rc_id r \<in> rc_id ` set bad"

lemma find_SomeD: "find P xs = Some x \<Longrightarrow> x \<in> set xs \<and> P x"
  by (auto simp: find_Some_iff)

lemma inv_expansion_rows:
  assumes inv: "recipients_ok db" "counters_ok db" and c: "c \<in> set (bd_campaigns db)"
    and R: "\<And>r. r \<in> set good \<union> set bad \<Longrightarrow> r \<in> set (bd_recipients db) \<and> rc_campaign r = cp_id c \<and> rc_client r = cp_client c \<and> rc_status r = Rc_pending"
    and d: "distinct good" "distinct bad" "set good \<inter> set bad = {}"
    and as: "\<And>a. a \<in> set as \<Longrightarrow> \<exists>r\<in>set good. al_recipient a = rc_id r"
    and db': "bd_recipients db' = map (stamp_queued c resolve as) (bd_recipients (markRenderFailed (cp_client c) (cp_id c) (map rc_id bad) db))"
      "bd_next_recipient db' = bd_next_recipient db" "ids_of db' = ids_of db"
      "bd_counters db' = bd_counters (bumpExpansionCounters (cp_client c) (cp_id c)
          (count_if (is_stamped c resolve as) (bd_recipients (markRenderFailed (cp_client c) (cp_id c) (map rc_id bad) db))) (int (length bad)) db)"
  shows "recipients_ok db' \<and> counters_ok db'"
proof -
  let ?recs = "bd_recipients db"
  define st where "st = is_stamped c resolve as"
  have bad: "r \<in> set bad" if "r \<in> set ?recs" "fails bad r" for r
    by (rule batch_rows [OF inv(1) _ that(1) that(2) [unfolded fails_def]]) (use R in auto)
  have good: "r \<in> set good" if r: "r \<in> set ?recs" and f: "find (\<lambda>a. al_recipient a = rc_id r) as = Some a" for r a
  proof -
    from find_SomeD [OF f] as obtain r' where "r' \<in> set good" "rc_id r' = rc_id r" by metis
    then have "rc_id r \<in> rc_id ` set good" by (metis image_eqI)
    from batch_rows [OF inv(1) _ r this] R show ?thesis by auto
  qed
  have stg: "r \<in> set good" if "r \<in> set ?recs" "st r" for r using good that by (auto simp: st_def is_stamped_iff)
  define f where "f = (\<lambda>r :: recipient. if fails bad r then r\<lparr>rc_status := Rc_failed, rc_failure := Some ''render_failed''\<rparr>
      else if st r then r\<lparr>rc_status := Rc_queued, rc_job := (case find (\<lambda>a. al_recipient a = rc_id r) as of Some a \<Rightarrow> resolve a | None \<Rightarrow> None)\<rparr> else r)"
  have mrf: "bd_recipients (markRenderFailed (cp_client c) (cp_id c) (map rc_id bad) db) =
      map (\<lambda>r. if fails bad r then r\<lparr>rc_status := Rc_failed, rc_failure := Some ''render_failed''\<rparr> else r) ?recs"
  proof -
    have "(rc_campaign r = cp_id c \<and> rc_client r = cp_client c \<and> rc_id r \<in> set (map rc_id bad)) = fails bad r" if "r \<in> set ?recs" for r
      using bad [OF that] R [of r] by (auto simp: fails_def)
    then show ?thesis by (simp add: markRenderFailed_def update_where_map)
  qed
  have rows: "bd_recipients db' = map f ?recs"
    unfolding db' mrf map_map
  proof (rule map_cong [OF refl])
    fix r assume r: "r \<in> set ?recs"
    show "(stamp_queued c resolve as \<circ> (\<lambda>r. if fails bad r then r\<lparr>rc_status := Rc_failed, rc_failure := Some ''render_failed''\<rparr> else r)) r = f r"
    proof (cases "fails bad r")
      case True
      then have "find (\<lambda>a. al_recipient a = rc_id r) as = None" using good [OF r] bad [OF r] d(3) by (metis disjoint_iff not_None_eq)
      then show ?thesis using True by (simp add: f_def stamp_queued_def)
    next
      case False
      then show ?thesis by (auto simp: f_def stamp_queued_def st_def is_stamped_iff split: option.splits)
    qed
  qed
  have stc: "count_if (is_stamped c resolve as) (bd_recipients (markRenderFailed (cp_client c) (cp_id c) (map rc_id bad) db)) = count_if st ?recs"
    unfolding mrf count_if_map by (rule count_if_cong) (simp add: st_def is_stamped_iff)
  have nb: "count_if (fails bad) ?recs = int (length bad)"
    unfolding fails_def by (rule count_if_keys [OF recipients_okD(1) [OF inv(1)]]) (use R d in auto)
  have row: "rc_campaign r = cp_id c \<and> rc_client r = cp_client c \<and> rc_status r = Rc_pending" if "r \<in> set ?recs" "fails bad r \<or> st r" for r
    using that bad [OF that(1)] stg [OF that(1)] R by blast
  have excl: "\<not> (fails bad r \<and> st r)" if "r \<in> set ?recs" for r using bad [OF that] stg [OF that] d(3) by blast
  have two: "count_if (\<lambda>r. fails bad r \<or> st r) ?recs = count_if (fails bad) ?recs + count_if st ?recs"
  proof -
    have "count_if (\<lambda>r. (fails bad r \<or> st r) \<and> fails bad r) ?recs = count_if (fails bad) ?recs" by (rule count_if_cong) auto
    moreover have "count_if (\<lambda>r. (fails bad r \<or> st r) \<and> \<not> fails bad r) ?recs = count_if st ?recs" by (rule count_if_cong) (use excl in auto)
    ultimately show ?thesis using count_if_split [of "\<lambda>r. fails bad r \<or> st r" ?recs "fails bad"] by simp
  qed
  have ff: "f r \<noteq> r \<longleftrightarrow> fails bad r \<or> st r" if r: "r \<in> set ?recs" for r
  proof
    assume "fails bad r \<or> st r"
    then have "rc_status (f r) \<noteq> rc_status r" using row [OF r] by (auto simp: f_def)
    then show "f r \<noteq> r" by auto
  qed (auto simp: f_def split: if_splits)
  show ?thesis
  proof (rule inv_in_place [OF inv rows db'(2,3)])
    show "proper f ?recs" unfolding proper_def
    proof
      fix r assume r: "r \<in> set ?recs"
      show "rc_id (f r) = rc_id r \<and> rc_client (f r) = rc_client r \<and> rc_campaign (f r) = rc_campaign r \<and> (f r = r \<or> \<not> waiting (f r) \<and> rc_status r \<noteq> Rc_skipped)"
        using row [OF r] by (auto simp: f_def waiting_def)
    qed
    fix e k assume e: "e \<in> set (bd_campaigns db)" "bd_counters db (cp_id e) = Some k" "ct_client k = cp_client e" "tallied (cp_id e) k ?recs"
    have lv: "leaving f (cp_id e) ?recs = (if cp_id e = cp_id c then count_if st ?recs + int (length bad) else 0)"
    proof (cases "cp_id e = cp_id c")
      case True
      have "leaving f (cp_id e) ?recs = count_if (\<lambda>r. fails bad r \<or> st r) ?recs"
        unfolding leaving_def by (rule count_if_cong) (use ff row True in \<open>auto simp: in_bucket_def\<close>)
      then show ?thesis using two nb True by simp
    next
      case False
      then show ?thesis using ff row by (auto simp: leaving_def count_if_0 in_bucket_def)
    qed
    have qd: "count_if (\<lambda>r. in_bucket (cp_id e) Rc_queued (f r)) ?recs =
        count_if (in_bucket (cp_id e) Rc_queued) ?recs + (if cp_id e = cp_id c then count_if st ?recs else 0)"
    proof -
      have "count_if (\<lambda>r. in_bucket (cp_id e) Rc_queued (f r) \<and> st r) ?recs = (if cp_id e = cp_id c then count_if st ?recs else 0)"
      proof (cases "cp_id e = cp_id c")
        case True
        have "count_if (\<lambda>r. in_bucket (cp_id e) Rc_queued (f r) \<and> st r) ?recs = count_if st ?recs"
          by (rule count_if_cong) (use row excl True in \<open>auto simp: in_bucket_def f_def\<close>)
        then show ?thesis using True by simp
      next
        case False
        then show ?thesis using row by (auto simp: count_if_0 in_bucket_def f_def split: if_splits)
      qed
      moreover have "count_if (\<lambda>r. in_bucket (cp_id e) Rc_queued (f r) \<and> \<not> st r) ?recs = count_if (in_bucket (cp_id e) Rc_queued) ?recs"
        by (rule count_if_cong) (use row in \<open>auto simp: in_bucket_def f_def\<close>)
      ultimately show ?thesis using count_if_split [of "\<lambda>r. in_bucket (cp_id e) Rc_queued (f r)" ?recs st] by simp
    qed
    have cl: "cp_client e = cp_client c" if "cp_id e = cp_id c" using same_id_same_row [OF counters_okD(1) [OF inv(2)] e(1) c that] by simp
    show "\<exists>k'. bd_counters db' (cp_id e) = Some k' \<and> ct_client k' = cp_client e \<and> ct_total k' = ct_total k \<and>
        ct_skipped k' = ct_skipped k \<and> bucket_sum_of k' = bucket_sum_of k \<and> ct_pending k' = ct_pending k - leaving f (cp_id e) ?recs \<and>
        count_if (\<lambda>r. in_bucket (cp_id e) Rc_queued (f r)) ?recs \<le> ct_queued k'"
    proof (cases "cp_id e = cp_id c")
      case True
      have "bd_counters db' (cp_id e) = Some (k\<lparr>ct_pending := ct_pending k - (count_if st ?recs + int (length bad)),
          ct_queued := ct_queued k + count_if st ?recs, ct_failed := ct_failed k + int (length bad)\<rparr>)"
        unfolding db'(4) stc bumpExpansionCounters_def using e True cl by (simp add: update_counters_same)
      then show ?thesis using e lv qd True by (simp add: tallied_def bucket_sum_of_def)
    next
      case False
      then have "bd_counters db' (cp_id e) = Some k"
        unfolding db'(4) bumpExpansionCounters_def using e by (simp add: update_counters_def)
      then show ?thesis using e lv qd False by (simp add: tallied_def bucket_sum_of_def)
    qed
  qed
qed

lemma markRenderFailed_other [simp]:
  "bd_campaigns (markRenderFailed client cid ids db) = bd_campaigns db" "bd_counters (markRenderFailed client cid ids db) = bd_counters db"
  "bd_next_recipient (markRenderFailed client cid ids db) = bd_next_recipient db"
  by (simp_all add: markRenderFailed_def)

lemma inv_expansion:
  assumes inv: "recipients_ok db" "counters_ok db" and read: "expansion_read locked hold n client cid db = Inr batch"
  shows "recipients_ok (fst (expansion_write sha fresh now batch db)) \<and> counters_ok (fst (expansion_write sha fresh now batch db))"
proof -
  obtain c epoch rows where b: "batch = (c, epoch, rows)" by (metis prod_cases3)
  note rd = expansion_readD [OF read [unfolded b]]
  show ?thesis
  proof (cases "rows = []")
    case True
    have "ids_of (completeExpansion client cid now db) = ids_of db"
      by (simp add: completeExpansion_def campaign_transition_def update_where_def)
    then show ?thesis using True rd
      by (intro inv_same_rows [OF inv]) (simp_all add: expansion_write_def b Let_def completeExpansion_def campaign_transition_def)
  next
    case False
    define good where "good = filter (renders (cp_body c)) rows"
    define bad where "bad = filter (\<lambda>r. \<not> renders (cp_body c) r) rows"
    define db1 where "db1 = markRenderFailed (cp_client c) (cp_id c) (map rc_id bad) db"
    define as where "as = alloc_rows sha (cp_id c) (cp_body c) (bd_next_job db1) good fresh"
    note D = expansion_write_def b Let_def False if_False prod.case good_def [symmetric] bad_def [symmetric] db1_def [symmetric] as_def [symmetric]
    show ?thesis
    proof (cases "runExpandBatchStatement c epoch as db1")
      case (Inl e)
      then show ?thesis using inv by (simp add: D)
    next
      case (Inr res)
      obtain db2 k l where res: "res = (db2, k, l)" by (metis prod_cases3)
      define resolve where "resolve = resolved_public (cp_client c) (cp_instance c) (bd_refs db1)
          (new_refs (cp_client c) (cp_instance c) (keys_of (cp_client c) (cp_instance c) (bd_refs db1)) as)"
      have db2: "bd_recipients db2 = map (stamp_queued c resolve as) (bd_recipients db1)"
          "l = count_if (is_stamped c resolve as) (bd_recipients db1)" "bd_next_recipient db2 = bd_next_recipient db1"
          "bd_campaigns db2 = bd_campaigns db1" "bd_counters db2 = bd_counters db1"
        using Inr res by (auto simp: runExpandBatchStatement_def Let_def count_if_def resolve_def split: if_splits)
      let ?db' = "fst (expansion_write sha fresh now batch db)"
      have db': "?db' = bumpExpansionCounters (cp_client c) (cp_id c) l (int (length bad))
          (advanceExpansionCursor (cp_client c) (cp_id c) (rc_id (last rows)) now db2)" by (simp add: D Inr res)
      have one: "bd_campaigns db1 = bd_campaigns db" "bd_counters db1 = bd_counters db" "bd_next_recipient db1 = bd_next_recipient db"
        by (simp_all add: db1_def markRenderFailed_def)
      show ?thesis
      proof (rule inv_expansion_rows [OF inv rd(1), where good = good and bad = bad and as = as and resolve = resolve])
        fix r assume "r \<in> set good \<union> set bad"
        then have "r \<in> set rows" by (auto simp: good_def bad_def)
        then show "r \<in> set (bd_recipients db) \<and> rc_campaign r = cp_id c \<and> rc_client r = cp_client c \<and> rc_status r = Rc_pending"
          using readExpansionBatch_in rd by metis
      next
        show "distinct good" "distinct bad" using readExpansionBatch_distinct [OF inv(1)] rd(5) by (simp_all add: good_def bad_def)
        show "set good \<inter> set bad = {}" by (auto simp: good_def bad_def)
        show "\<exists>r\<in>set good. al_recipient a = rc_id r" if "a \<in> set as" for a using alloc_rows_in that unfolding as_def by metis
        show "bd_recipients ?db' = map (stamp_queued c resolve as) (bd_recipients (markRenderFailed (cp_client c) (cp_id c) (map rc_id bad) db))"
          unfolding db' by (simp add: bumpExpansionCounters_def update_counters_def advanceExpansionCursor_def db2 db1_def)
        show "bd_next_recipient ?db' = bd_next_recipient db"
          unfolding db' by (simp add: bumpExpansionCounters_def update_counters_def advanceExpansionCursor_def db2 one)
        show "ids_of ?db' = ids_of db"
          unfolding db' by (simp add: bumpExpansionCounters_def update_counters_def advanceExpansionCursor_def db2 one update_where_def)
        show "bd_counters ?db' = bd_counters (bumpExpansionCounters (cp_client c) (cp_id c)
            (count_if (is_stamped c resolve as) (bd_recipients (markRenderFailed (cp_client c) (cp_id c) (map rc_id bad) db))) (int (length bad)) db)"
          unfolding db' by (simp add: bumpExpansionCounters_def update_counters_def advanceExpansionCursor_def db2 one db1_def)
      qed
    qed
  qed
qed

text \<open>A snapshot batch appends waiting rows and counts exactly those.\<close>

lemma insert_fold:
  assumes "fold (insert_recipient client cid) rows (db, p, s) = (db', p', s')"
    and "\<And>row. row \<in> set rows \<Longrightarrow> ir_status row = Rc_pending \<or> ir_status row = Rc_skipped"
  shows "\<exists>new. db' = db\<lparr>bd_next_recipient := bd_next_recipient db', bd_recipients := bd_recipients db @ new\<rparr> \<and>
    bd_next_recipient db \<le> bd_next_recipient db' \<and> distinct (map rc_id new) \<and>
    (\<forall>r\<in>set new. bd_next_recipient db \<le> rc_id r \<and> rc_id r < bd_next_recipient db' \<and> rc_campaign r = cid \<and> rc_client r = client \<and>
       waiting r \<and> rc_job r = None) \<and>
    p' = p + count_if (in_bucket cid Rc_pending) new \<and> s' = s + count_if (in_bucket cid Rc_skipped) new"
  using assms
proof (induction rows arbitrary: db p s)
  case Nil
  then show ?case by (intro exI [of _ "[]"]) auto
next
  case (Cons row rows)
  obtain db1 p1 s1 where one: "insert_recipient client cid row (db, p, s) = (db1, p1, s1)" by (metis prod_cases3)
  from Cons.IH [of db1 p1 s1] Cons.prems one obtain new where new:
    "db' = db1\<lparr>bd_next_recipient := bd_next_recipient db', bd_recipients := bd_recipients db1 @ new\<rparr>"
    "bd_next_recipient db1 \<le> bd_next_recipient db'" "distinct (map rc_id new)"
    "\<forall>r\<in>set new. bd_next_recipient db1 \<le> rc_id r \<and> rc_id r < bd_next_recipient db' \<and> rc_campaign r = cid \<and> rc_client r = client \<and>
       waiting r \<and> rc_job r = None"
    "p' = p1 + count_if (in_bucket cid Rc_pending) new" "s' = s1 + count_if (in_bucket cid Rc_skipped) new" by auto
  show ?case
  proof (cases "list_ex (\<lambda>r. rc_campaign r = cid \<and> rc_target r = ir_target row) (bd_recipients db)")
    case True
    then have "db1 = db\<lparr>bd_next_recipient := bd_next_recipient db + 1\<rparr>" "p1 = p" "s1 = s"
      using one by (auto simp: insert_recipient_def Let_def)
    then show ?thesis using new by (intro exI [of _ new]) auto
  next
    case False
    define r where "r = \<lparr>rc_id = bd_next_recipient db, rc_client = client, rc_campaign = cid, rc_target = ir_target row, rc_jid = ir_jid row,
               rc_vars = ir_vars row, rc_status = ir_status row, rc_skip_reason = ir_skip_reason row, rc_failure = None,
               rc_job = None, rc_charged = None, rc_delivered_at = None, rc_read_at = None\<rparr>"
    have one': "db1 = db\<lparr>bd_next_recipient := bd_next_recipient db + 1, bd_recipients := bd_recipients db @ [r]\<rparr>"
        "p1 = (if ir_status row = Rc_pending then p + 1 else p)" "s1 = (if ir_status row = Rc_pending then s else s + 1)"
      using one False by (auto simp: insert_recipient_def Let_def r_def)
    have st: "ir_status row = Rc_pending \<or> ir_status row = Rc_skipped" using Cons.prems by simp
    have r: "waiting r" "rc_job r = None" "rc_id r = bd_next_recipient db" "rc_campaign r = cid" "rc_client r = client" "rc_status r = ir_status row"
      using st by (auto simp: r_def waiting_def)
    have "rc_id r \<notin> rc_id ` set new" using new(4) one' r(3) by force
    moreover have "in_bucket cid Rc_pending r \<longleftrightarrow> ir_status row = Rc_pending" "in_bucket cid Rc_skipped r \<longleftrightarrow> ir_status row = Rc_skipped"
      using r by (simp_all add: in_bucket_def)
    ultimately show ?thesis using new one' r st
      by (intro exI [of _ "r # new"]) auto
  qed
qed

lemma inv_write_batch:
  assumes inv: "recipients_ok db" "counters_ok db" and c: "c \<in> set (bd_campaigns db)" "cp_id c = cid" "cp_client c = client"
    and rows: "\<And>row. row \<in> set rows \<Longrightarrow> good_insert row"
  shows "recipients_ok (fst (write_batch client cid n now rows db)) \<and> counters_ok (fst (write_batch client cid n now rows db))"
proof -
  obtain db1 p s where i: "insertRecipientBatch client cid rows db = (db1, p, s)" by (metis prod_cases3)
  have "\<exists>new. db1 = db\<lparr>bd_next_recipient := bd_next_recipient db1, bd_recipients := bd_recipients db @ new\<rparr> \<and>
    bd_next_recipient db \<le> bd_next_recipient db1 \<and> distinct (map rc_id new) \<and>
    (\<forall>r\<in>set new. bd_next_recipient db \<le> rc_id r \<and> rc_id r < bd_next_recipient db1 \<and> rc_campaign r = cid \<and> rc_client r = client \<and>
       waiting r \<and> rc_job r = None) \<and>
    p = 0 + count_if (in_bucket cid Rc_pending) new \<and> s = 0 + count_if (in_bucket cid Rc_skipped) new"
    by (rule insert_fold) (use i rows in \<open>simp_all add: insertRecipientBatch_def good_insert_def\<close>)
  then obtain new where db1: "db1 = db\<lparr>bd_next_recipient := bd_next_recipient db1, bd_recipients := bd_recipients db @ new\<rparr>"
    and nx: "bd_next_recipient db \<le> bd_next_recipient db1" and nd: "distinct (map rc_id new)"
    and new: "\<And>r. r \<in> set new \<Longrightarrow> bd_next_recipient db \<le> rc_id r \<and> rc_id r < bd_next_recipient db1 \<and> rc_campaign r = cid \<and>
       rc_client r = client \<and> waiting r \<and> rc_job r = None"
    and ps: "p = count_if (in_bucket cid Rc_pending) new" "s = count_if (in_bucket cid Rc_skipped) new" by auto
  have one: "bd_recipients db1 = bd_recipients db @ new" "bd_campaigns db1 = bd_campaigns db" "bd_counters db1 = bd_counters db"
    by (subst db1, simp)+
  define db2 where "db2 = bumpSnapshotCounters client cid p s (advanceSnapshotCursor client cid (ir_target (last rows)) db1)"
  have db2: "bd_recipients db2 = bd_recipients db @ new" "bd_next_recipient db2 = bd_next_recipient db1" "ids_of db2 = ids_of db"
      "bd_counters db2 = bd_counters (bumpSnapshotCounters client cid p s db)"
    by (simp_all add: db2_def bumpSnapshotCounters_def update_counters_def advanceSnapshotCursor_def one update_where_def)
  have "recipients_ok db2"
    unfolding recipients_ok_def db2
  proof (intro conjI ballI impI)
    have "rc_id r \<noteq> rc_id r'" if "r \<in> set (bd_recipients db)" "r' \<in> set new" for r r'
      using recipients_okD(2) [OF inv(1) that(1)] new [OF that(2)] by simp
    then show "distinct (map rc_id (bd_recipients db @ new))" using recipients_okD(1) [OF inv(1)] nd by (force simp: image_iff)
    fix r assume r: "r \<in> set (bd_recipients db @ new)"
    then show "rc_id r < bd_next_recipient db1" using recipients_okD(2) [OF inv(1)] new nx by fastforce
    show "rc_job r = None" if "waiting r" using r that recipients_okD(3) [OF inv(1)] new by auto
    have "\<exists>d\<in>set (bd_campaigns db). cp_id d = rc_campaign r \<and> cp_client d = rc_client r"
      using r recipients_okD(4) [OF inv(1)] new c by fastforce
    then show "\<exists>d\<in>set (bd_campaigns db2). cp_id d = rc_campaign r \<and> cp_client d = rc_client r"
      using ids_of_campaign [OF _ db2(3) [symmetric]] by metis
  qed
  moreover have "counters_ok db2"
  proof -
    have "\<exists>k. bd_counters db2 (cp_id e) = Some k \<and> ct_client k = cp_client e \<and> tallied (cp_id e) k (bd_recipients db2)"
      if e: "e \<in> set (bd_campaigns db)" for e
    proof -
      obtain k where k: "bd_counters db (cp_id e) = Some k" "ct_client k = cp_client e" "tallied (cp_id e) k (bd_recipients db)"
        using counters_okD(2) [OF inv(2) e] by blast
      show ?thesis
      proof (cases "cp_id e = cid")
        case True
        then have "e = c" using same_id_same_row [OF counters_okD(1) [OF inv(2)] e c(1)] c(2) by simp
        have st: "rc_status r = Rc_pending \<or> rc_status r = Rc_skipped" "rc_campaign r = cid" if "r \<in> set new" for r
          using new [OF that] by (simp_all add: waiting_def)
        have n0: "count_if (in_bucket cid Rc_queued) new = 0" unfolding count_if_0 using st by (fastforce simp: in_bucket_def)
        have "count_if (\<lambda>r. rc_campaign r = cid \<and> rc_status r = Rc_pending) new = p" unfolding ps
          by (rule count_if_cong) (simp add: in_bucket_def)
        moreover have "count_if (\<lambda>r. rc_campaign r = cid \<and> rc_status r \<noteq> Rc_pending) new = s" unfolding ps
        proof (rule count_if_cong)
          fix r assume "r \<in> set new"
          from st [OF this] show "(rc_campaign r = cid \<and> rc_status r \<noteq> Rc_pending) = in_bucket cid Rc_skipped r"
            by (auto simp: in_bucket_def)
        qed
        ultimately have nt: "count_if (\<lambda>r. rc_campaign r = cid) new = p + s"
          by (simp only: count_if_split [of "\<lambda>r. rc_campaign r = cid" new "\<lambda>r. rc_status r = Rc_pending"])
        have "bd_counters db2 cid = Some (k\<lparr>ct_total := ct_total k + (p + s), ct_pending := ct_pending k + p, ct_skipped := ct_skipped k + s\<rparr>)"
          unfolding db2(4) bumpSnapshotCounters_def using k True c \<open>e = c\<close> by (simp add: update_counters_same)
        then show ?thesis using k True n0 nt by (simp add: tallied_def db2 ps bucket_sum_of_def)
      next
        case False
        have "rc_campaign r \<noteq> cp_id e" if "r \<in> set new" for r using new [OF that] False by simp
        then have "count_if (in_bucket (cp_id e) st) new = 0" "count_if (\<lambda>r. rc_campaign r = cp_id e) new = 0" for st
          by (simp_all add: count_if_0 in_bucket_def)
        moreover have "bd_counters db2 (cp_id e) = Some k"
          unfolding db2(4) bumpSnapshotCounters_def using False k by (simp add: update_counters_def)
        ultimately show ?thesis using k by (simp add: tallied_def db2)
      qed
    qed
    then have "\<exists>k. bd_counters db2 (cp_id e) = Some k \<and> ct_client k = cp_client e \<and> tallied (cp_id e) k (bd_recipients db2)"
      if "e \<in> set (bd_campaigns db2)" for e using ids_of_campaign [OF that db2(3)] by metis
    then show ?thesis using ids_of_distinct [OF db2(3) counters_okD(1) [OF inv(2)]] by (simp add: counters_ok_def)
  qed
  ultimately have inv2: "recipients_ok db2" "counters_ok db2" by auto
  have "recipients_ok (fst (completeSnapshot client cid now db2)) \<and> counters_ok (fst (completeSnapshot client cid now db2))"
    by (rule inv_same_rows [OF inv2]) (simp_all add: completeSnapshot_def campaign_transition_def Let_def update_where_def)
  moreover have "fst (write_batch client cid n now rows db) = (if length rows < n then fst (completeSnapshot client cid now db2) else db2)"
    by (simp add: write_batch_def i Let_def db2_def completeSnapshot_def)
  ultimately show ?thesis using inv2 by simp
qed

lemma inv_transition:
  assumes "recipients_ok db" "counters_ok db" "\<And>c. same_campaign c (extra c)"
  shows "recipients_ok (fst (campaign_transition client cid froms to extra now db)) \<and> counters_ok (fst (campaign_transition client cid froms to extra now db))"
  by (rule inv_same_rows [OF assms(1,2)]) (use assms(3) in \<open>auto simp: campaign_transition_def update_where_def same_campaign_def\<close>)

lemma inv_mutateOne:
  assumes "recipients_ok db" "counters_ok db" "\<And>c. same_campaign c (extra c)"
  shows "recipients_ok (fst (mutateOne client cid froms to action extra now db)) \<and> counters_ok (fst (mutateOne client cid froms to action extra now db))"
proof (cases "snd (campaign_transition client cid froms to extra now db) \<and> readCampaign client cid db \<noteq> None")
  case False
  then show ?thesis using assms(1,2) by (auto simp: mutateOne_def Let_def split: option.splits prod.splits)
next
  case True
  let ?t = "fst (campaign_transition client cid froms to extra now db)"
  have t: "recipients_ok ?t" "counters_ok ?t" using inv_transition [OF assms] by auto
  have "fst (mutateOne client cid froms to action extra now db) = audit client action cid ?t"
    using True by (auto simp: mutateOne_def Let_def split: prod.splits)
  then show ?thesis using inv_same_rows [OF t, of "audit client action cid ?t"] by (simp add: audit_def)
qed

lemma inv_snapshot:
  assumes inv: "recipients_ok db" "counters_ok db"
  shows "recipients_ok (fst (runSnapshotBatch key n now client cid db)) \<and> counters_ok (fst (runSnapshotBatch key n now client cid db))"
proof (rule snapshot_cases [of key n now client cid db])
  fix c rows
  assume "readCampaign client cid db = Some c" "\<And>row. row \<in> set rows \<Longrightarrow> good_insert row"
    "fst (runSnapshotBatch key n now client cid db) = fst (write_batch client cid n now rows db)"
  then show ?thesis using inv_write_batch [OF inv, of c cid client rows n now] readCampaign_in by auto
next
  fix reason
  assume "fst (runSnapshotBatch key n now client cid db) = failSnapshotForLimit client cid reason now db"
  then show ?thesis unfolding failSnapshotForLimit_def using inv_transition [OF inv] by (simp add: same_campaign_def)
next
  assume "fst (runSnapshotBatch key n now client cid db) = fst (completeSnapshot client cid now db)"
  then show ?thesis unfolding completeSnapshot_def Let_def using inv_transition [OF inv] by (simp add: same_campaign_def)
qed (use inv in simp)

end
