(* ===== verification/Broadcast_Reach.thy ===== *)
theory Broadcast_Reach
  imports Broadcast_Counts
begin

text \<open>
  Serial histories of the broadcast transactions: every step keeps the counters of every campaign in line with its
  recipients, and a recount repairs what the stamps of results leave behind.
\<close>

section \<open>The remaining steps\<close>

lemma inv_create:
  assumes inv: "recipients_ok db" "counters_ok db" and new: "new \<notin> cp_id ` set (bd_campaigns db)"
  shows "recipients_ok (fst (createBroadcast actor i new now db)) \<and> counters_ok (fst (createBroadcast actor i new now db))"
proof -
  let ?db1 = "db\<lparr>bd_campaigns := bd_campaigns db @ [draft_row i new now], bd_counters := (bd_counters db)(new \<mapsto> no_counts (ci_client i))\<rparr>"
  have none: "count_if (\<lambda>r. rc_campaign r = new) (bd_recipients db) = 0" "count_if (in_bucket new st) (bd_recipients db) = 0" for st
    using recipients_okD(4) [OF inv(1)] new by (auto simp: count_if_0 in_bucket_def image_iff) metis+
  have t0: "tallied new (no_counts (ci_client i)) (bd_recipients db)"
    by (simp add: tallied_def no_counts_def bucket_sum_of_def none)
  have one: "recipients_ok ?db1 \<and> counters_ok ?db1"
  proof
    have "\<exists>c\<in>set (bd_campaigns ?db1). cp_id c = rc_campaign r \<and> cp_client c = rc_client r" if "r \<in> set (bd_recipients db)" for r
      using recipients_okD(4) [OF inv(1) that] by auto
    then show "recipients_ok ?db1"
      using recipients_okD(1,2,3) [OF inv(1)] by (simp add: recipients_ok_def)
    have "\<exists>k. bd_counters ?db1 (cp_id c) = Some k \<and> ct_client k = cp_client c \<and> tallied (cp_id c) k (bd_recipients db)"
      if "c \<in> set (bd_campaigns db)" for c
    proof -
      have "cp_id c \<noteq> new" using new that by auto
      then show ?thesis using counters_okD(2) [OF inv(2) that] by simp
    qed
    then show "counters_ok ?db1"
      using counters_okD(1) [OF inv(2)] new t0 by (auto simp: counters_ok_def draft_row_def no_counts_def)
  qed
  have two: "recipients_ok (audit cl a t ?db1) \<and> counters_ok (audit cl a t ?db1)" for cl a t
    using inv_same_rows [of ?db1 "audit cl a t ?db1"] one by (simp add: audit_def)
  have "fst (createBroadcast actor i new now db) \<in> {db, audit (ci_client i) ''broadcast.create'' new ?db1}"
    by (auto simp: createBroadcast_def createCampaign_def Let_def split: option.splits audience.splits)
  then show ?thesis using inv two by auto
qed

lemma recipients_of_campaign:
  assumes "recipients_ok db" "counters_ok db" "c \<in> set (bd_campaigns db)"
  shows "recipients_of (cp_client c) (cp_id c) db = filter (\<lambda>r. rc_campaign r = cp_id c) (bd_recipients db)"
  using campaign_client_unique [OF assms] by (auto simp: recipients_of_def intro!: filter_cong)

lemma status_count_bucket:
  assumes "recipients_ok db" "counters_ok db" "c \<in> set (bd_campaigns db)"
  shows "status_count st (recipients_of (cp_client c) (cp_id c) db) = count_if (in_bucket (cp_id c) st) (bd_recipients db)"
  unfolding recipients_of_campaign [OF assms] status_count_def count_if_def in_bucket_def by (simp add: conj_commute)

lemma statuses_partition:
  "int (length rs) = status_count Rc_pending rs + status_count Rc_skipped rs + status_count Rc_queued rs + status_count Rc_sent rs +
     status_count Rc_delivered rs + status_count Rc_read rs + status_count Rc_failed rs + status_count Rc_cancelled rs"
proof (induction rs)
  case (Cons r rs)
  then show ?case by (cases "rc_status r") (simp_all add: status_count_def)
qed (simp add: status_count_def)

lemma tallied_recount:
  assumes "recipients_ok db" "counters_ok db" "c \<in> set (bd_campaigns db)"
  shows "tallied (cp_id c) (recountRecipients (cp_client c) (cp_id c) db) (bd_recipients db)"
proof -
  have "int (length (recipients_of (cp_client c) (cp_id c) db)) = count_if (\<lambda>r. rc_campaign r = cp_id c) (bd_recipients db)"
    unfolding recipients_of_campaign [OF assms] count_if_def by simp
  then show ?thesis using statuses_partition [of "recipients_of (cp_client c) (cp_id c) db"]
    by (simp add: tallied_def recountRecipients_def Let_def bucket_sum_of_def status_count_bucket [OF assms, symmetric])
qed

lemma inv_funnel:
  assumes inv: "recipients_ok db" "counters_ok db" and cid: "cid \<in> cp_id ` set (bd_campaigns db)"
  shows "recipients_ok (fst (recomputeCampaignFunnel client cid now db)) \<and> counters_ok (fst (recomputeCampaignFunnel client cid now db))"
proof (rule funnel_cases [of client cid now db])
  fix m
  let ?d = "db\<lparr>bd_counters := (bd_counters db)(cid \<mapsto> recountRecipients client cid db)\<rparr>"
  assume f: "fst (recomputeCampaignFunnel client cid now db) = (fst (completeIfDrained client cid now ?d))\<lparr>bd_progress := m\<rparr>"
  obtain c where c: "c \<in> set (bd_campaigns db)" "cp_id c = cid" using cid by auto
  obtain k where k: "bd_counters db cid = Some k" "ct_client k = cp_client c" using counters_okD(2) [OF inv(2) c(1)] c(2) by auto
  show ?thesis
  proof (cases "client = cp_client c")
    case False
    then have "fst (recomputeCampaignFunnel client cid now db) = db"
      using k by (simp add: recomputeCampaignFunnel_def reconcileCounters_def Let_def)
    then show ?thesis using inv by simp
  next
    case True
    have "tallied cid (recountRecipients client cid db) (bd_recipients db)" using tallied_recount [OF inv c(1)] True c by simp
    moreover have "\<exists>k. bd_counters db (cp_id e) = Some k \<and> ct_client k = cp_client e \<and> tallied (cp_id e) k (bd_recipients db)"
      if "e \<in> set (bd_campaigns db)" for e using counters_okD(2) [OF inv(2) that] .
    moreover have "e = c" if "e \<in> set (bd_campaigns db)" "cp_id e = cid" for e
      using same_id_same_row [OF counters_okD(1) [OF inv(2)] that(1) c(1)] that c by simp
    ultimately have "counters_ok ?d"
      using counters_okD(1) [OF inv(2)] True by (auto simp: counters_ok_def recountRecipients_def Let_def)
    moreover have "recipients_ok ?d" using recipients_ok_ids [OF inv(1), of ?d] by simp
    ultimately have d: "recipients_ok ?d" "counters_ok ?d" by auto
    have "recipients_ok (fst (completeIfDrained client cid now ?d)) \<and> counters_ok (fst (completeIfDrained client cid now ?d))"
      using inv_transition [OF d, of id client cid "[Camp_running]" Camp_completed now] d
      by (auto simp: completeIfDrained_def same_campaign_def split: option.splits)
    then show ?thesis unfolding f
      using inv_same_rows [of "fst (completeIfDrained client cid now ?d)" "(fst (completeIfDrained client cid now ?d))\<lparr>bd_progress := m\<rparr>"]
      by simp
  qed
qed (use inv in simp)

section \<open>Serial histories\<close>

text \<open>
  What the database allows: a campaign id is a fresh uuid, a counter row needs its campaign, and no expansion writes after
  another transaction has come between its two halves.
\<close>

definition serial :: "broadcast_event \<Rightarrow> broadcast_db \<Rightarrow> bool" where
  "serial e db \<longleftrightarrow> (case e of
      B_create _ _ new _ \<Rightarrow> new \<notin> cp_id ` set (bd_campaigns db)
    | B_funnel _ cid _ \<Rightarrow> cid \<in> cp_id ` set (bd_campaigns db)
    | B_late_write _ _ _ \<Rightarrow> False
    | _ \<Rightarrow> True)"

inductive broadcast_reach :: "(string \<Rightarrow> string) \<Rightarrow> broadcast_db \<Rightarrow> bool" for sha :: "string \<Rightarrow> string" where
  empty: "bd_campaigns db = [] \<Longrightarrow> bd_recipients db = [] \<Longrightarrow> bd_refs db = [] \<Longrightarrow> bd_jobs db = [] \<Longrightarrow> broadcast_reach sha db"
| step: "broadcast_reach sha db \<Longrightarrow> serial e db \<Longrightarrow> broadcast_reach sha (broadcast_step sha e db)"

lemma inv_same:
  assumes "recipients_ok db \<and> counters_ok db"
    "bd_recipients db' = bd_recipients db" "bd_next_recipient db' = bd_next_recipient db"
    "bd_counters db' = bd_counters db" "bd_campaigns db' = bd_campaigns db"
  shows "recipients_ok db' \<and> counters_ok db'"
  using inv_same_rows [of db db'] assms by simp

lemma inv_step:
  assumes inv: "recipients_ok db" "counters_ok db" and e: "serial e db"
  shows "recipients_ok (broadcast_step sha e db) \<and> counters_ok (broadcast_step sha e db)"
proof (cases e)
  case (B_create actor i new now)
  then show ?thesis using inv_create [OF inv] e by (simp add: serial_def)
next
  case (B_start actor client cid now)
  then show ?thesis using inv inv_mutateOne [OF inv, of id] by (simp add: startBroadcast_def same_campaign_def)
next
  case (B_pause actor client cid now)
  then show ?thesis using inv inv_mutateOne [OF inv, of "\<lambda>c. c\<lparr>cp_paused_by := ac_user actor\<rparr>"]
    by (simp add: pauseBroadcast_def same_campaign_def)
next
  case (B_resume actor client cid now)
  then show ?thesis using inv inv_mutateOne [OF inv, of id]
    by (auto simp: resumeBroadcast_def same_campaign_def split: option.split sum.split)
next
  case (B_cancel actor client cid reason now)
  have "recipients_ok (fst (mutateOne client cid froms to a (\<lambda>c. c\<lparr>cp_cancel_reason := x\<rparr>) now db)) \<and>
      counters_ok (fst (mutateOne client cid froms to a (\<lambda>c. c\<lparr>cp_cancel_reason := x\<rparr>) now db))" for froms to a x
    by (rule inv_mutateOne [OF inv]) (simp add: same_campaign_def)
  then show ?thesis using inv B_cancel by (simp add: cancelBroadcastInTx_def)
next
  case (B_snapshot key n now client cid)
  then show ?thesis using inv_snapshot [OF inv] by simp
next
  case (B_expand fresh hold n now client cid)
  then show ?thesis using inv inv_expansion [OF inv] by (auto split: sum.split)
next
  case (B_late_write fresh now batch)
  then show ?thesis using e by (simp add: serial_def)
next
  case (B_cancel_recipients client cid n)
  then show ?thesis using inv_cancel_recipients [OF inv] by simp
next
  case (B_cancel_jobs client inst cid n)
  then show ?thesis using inv_same [of db "fst (cancel_job_batch client inst cid n db)"] inv by (simp add: cancel_job_batch_def Let_def)
next
  case (B_funnel client cid now)
  then show ?thesis using inv_funnel [OF inv] e by (simp add: serial_def)
next
  case (B_sent client job charged)
  then show ?thesis using inv_sent [OF inv] by simp
next
  case (B_receipt client job isRead now)
  then show ?thesis using inv_receipt [OF inv] by simp
next
  case (B_job job st)
  then show ?thesis using inv_same [of db "write_job_status job st db"] inv by (simp add: write_job_status_def)
qed

lemma reach_inv: "broadcast_reach sha db \<Longrightarrow> recipients_ok db \<and> counters_ok db"
proof (induction rule: broadcast_reach.induct)
  case (empty db)
  then show ?case by (simp add: recipients_ok_def counters_ok_def)
next
  case (step db e)
  then show ?case using inv_step by blast
qed

lemma reach_jobs: "broadcast_reach sha db \<Longrightarrow> jobs_ok sha db"
proof (induction rule: broadcast_reach.induct)
  case (empty db)
  then show ?case by (simp add: jobs_ok_def)
next
  case (step db e)
  then show ?case by (simp add: jobs_ok_step)
qed

text \<open>
  C15. In every serial history the counters of a campaign partition its audience: total is the number of its recipients and
  the sum of the eight buckets, the pending and the skipped bucket are exact, and the queued bucket is never below the
  number of queued recipients (the stamps of results and receipts move rows and leave the counters to the recount, so the
  other five may lag). A recount then makes every bucket exact.
\<close>

theorem counters_partition_audience:
  assumes "broadcast_reach sha db" "c \<in> set (bd_campaigns db)" "rs = recipients_of (cp_client c) (cp_id c) db"
  shows "(\<exists>k. bd_counters db (cp_id c) = Some k \<and> ct_total k = int (length rs) \<and>
      ct_pending k + ct_skipped k + ct_queued k + ct_sent k + ct_delivered k + ct_read k + ct_failed k + ct_cancelled k = ct_total k \<and>
      ct_pending k = status_count Rc_pending rs \<and> ct_skipped k = status_count Rc_skipped rs \<and> status_count Rc_queued rs \<le> ct_queued k) \<and>
    bd_counters (fst (recomputeCampaignFunnel (cp_client c) (cp_id c) now db)) (cp_id c) =
      Some (recountRecipients (cp_client c) (cp_id c) db)"
proof -
  have inv: "recipients_ok db" "counters_ok db" using reach_inv [OF assms(1)] by auto
  obtain k where k: "bd_counters db (cp_id c) = Some k" "ct_client k = cp_client c" "tallied (cp_id c) k (bd_recipients db)"
    using counters_okD(2) [OF inv(2) assms(2)] by blast
  have "int (length rs) = count_if (\<lambda>r. rc_campaign r = cp_id c) (bd_recipients db)"
    unfolding assms(3) recipients_of_campaign [OF inv assms(2)] count_if_def by simp
  with k have "\<exists>k. bd_counters db (cp_id c) = Some k \<and> ct_total k = int (length rs) \<and>
      ct_pending k + ct_skipped k + ct_queued k + ct_sent k + ct_delivered k + ct_read k + ct_failed k + ct_cancelled k = ct_total k \<and>
      ct_pending k = status_count Rc_pending rs \<and> ct_skipped k = status_count Rc_skipped rs \<and> status_count Rc_queued rs \<le> ct_queued k"
    by (simp add: tallied_def bucket_sum_of_def assms(3) status_count_bucket [OF inv assms(2)])
  moreover have cd: "bd_counters (fst (completeIfDrained cl ci now d)) = bd_counters d" for cl ci d
    by (simp add: completeIfDrained_def campaign_transition_def split: option.split)
  have "bd_counters (fst (recomputeCampaignFunnel (cp_client c) (cp_id c) now db)) (cp_id c) =
      Some (recountRecipients (cp_client c) (cp_id c) db)"
    by (rule funnel_cases [of "cp_client c" "cp_id c" now db]) (use k cd in auto)
  ultimately show ?thesis by blast
qed

fun serial_run :: "(string \<Rightarrow> string) \<Rightarrow> broadcast_event list \<Rightarrow> broadcast_db \<Rightarrow> bool" where
  "serial_run sha [] db = True"
| "serial_run sha (e # es) db = (serial e db \<and> serial_run sha es (broadcast_step sha e db))"

lemma reach_run: "broadcast_reach sha db \<Longrightarrow> serial_run sha es db \<Longrightarrow> broadcast_reach sha (broadcast_run sha es db)"
  by (induction es arbitrary: db) (simp_all add: broadcast_reach.step)

lemma example_reach: "broadcast_reach (\<lambda>x. x) (example_run i)"
proof -
  have "serial_run sha (xs @ ys) db \<Longrightarrow> serial_run sha xs db" for sha xs ys db by (induction xs arbitrary: db) simp_all
  moreover have "serial_run (\<lambda>x. x) example_events example_broadcast_db" by code_simp
  ultimately have "serial_run (\<lambda>x. x) (take i example_events) example_broadcast_db" by (metis append_take_drop_id)
  moreover have "broadcast_reach (\<lambda>x. x) example_broadcast_db" by (rule broadcast_reach.empty) (simp_all add: example_broadcast_db_def)
  ultimately show ?thesis unfolding example_run_def by (rule reach_run [rotated])
qed

definition example_campaign :: campaign_row where
  "example_campaign = hd (bd_campaigns (example_run 4))"

lemma example_campaign: "example_campaign \<in> set (bd_campaigns (example_run 4))"
proof -
  have "bd_campaigns (example_run 4) \<noteq> []" by code_simp
  then show ?thesis by (simp add: example_campaign_def)
qed

theorem counters_partition_audience_witness:
  "bd_counters (fst (recomputeCampaignFunnel (cp_client example_campaign) (cp_id example_campaign) 9 (example_run 4))) (cp_id example_campaign) =
    Some (recountRecipients (cp_client example_campaign) (cp_id example_campaign) (example_run 4))"
  using counters_partition_audience [OF example_reach example_campaign refl, of 9] by (rule conjunct2)

end
