(* ===== verification/Broadcast_Snapshot.thy ===== *)
theory Broadcast_Snapshot
  imports Broadcast_Reach
begin

text \<open>
  The snapshot of a contacts audience, batch after batch, against the one-shot reference: the recipients of the campaign
  are the matching contacts in the order of their ids, each with the status one look at the opt-outs and one freeze of the
  variables gives, whatever the batch size.
\<close>

section \<open>Batches to completion\<close>

text \<open>The sweeps run one batch at a time; this is the same loop without the pauses.\<close>

partial_function (option) runSnapshotToCompletion :: "bool \<Rightarrow> nat \<Rightarrow> int \<Rightarrow> string \<Rightarrow> string \<Rightarrow> broadcast_db \<Rightarrow>
    (broadcast_db \<times> (broadcast_error, snapshot_result) result) option" where
  "runSnapshotToCompletion key n now client cid db =
    (case runSnapshotBatch key n now client cid db of
       (db1, Inr (Sn_batch p s l)) \<Rightarrow> runSnapshotToCompletion key n now client cid db1
     | (db1, r) \<Rightarrow> Some (db1, r))"

section \<open>Keyset batches\<close>

lemma sorted_key_strict: "distinct (map f xs) \<Longrightarrow> sorted_wrt (<) (map f (sort_key f xs))"
  for f :: "'a \<Rightarrow> 'k :: linorder"
proof -
  assume "distinct (map f xs)"
  then have "distinct (map f (sort_key f xs))" by (simp add: distinct_map)
  then show ?thesis by (simp add: strict_sorted_iff)
qed

lemma filter_after_drop:
  fixes f :: "'a \<Rightarrow> nat"
  assumes "sorted_wrt (<) (map f xs)" "i < length xs"
  shows "filter (\<lambda>x. f (xs ! i) < f x) xs = drop (Suc i) xs"
  using assms
proof (induction xs arbitrary: i)
  case (Cons x xs)
  show ?case
  proof (cases i)
    case 0
    then have "filter (\<lambda>y. f x < f y) xs = xs" using Cons.prems(1) by (auto intro: filter_True)
    then show ?thesis using 0 by simp
  next
    case (Suc j)
    then have "\<not> f (xs ! j) < f x" using Cons.prems by (simp add: less_imp_le not_less)
    then show ?thesis using Suc Cons.IH [of j] Cons.prems by simp
  qed
qed simp

lemma find_update_where:
  "(\<And>x. P (f x) = P x) \<Longrightarrow> find P (update_where q f xs) = map_option (\<lambda>x. if q x then f x else x) (find P xs)"
  by (induction xs) auto

definition insert_key :: "insert_row \<Rightarrow> nat \<times> string \<times> recipient_status \<times> string option \<times> (string \<times> string) list" where
  "insert_key r = (ir_target r, ir_jid r, ir_status r, ir_skip_reason r, ir_vars r)"

definition recipient_key :: "recipient \<Rightarrow> nat \<times> string \<times> recipient_status \<times> string option \<times> (string \<times> string) list" where
  "recipient_key r = (rc_target r, rc_jid r, rc_status r, rc_skip_reason r, rc_vars r)"

lemma insert_fresh:
  assumes "fold (insert_recipient client cid) rows (db, p, s) = (db', p', s')" "distinct (map ir_target rows)"
    and "\<And>r. r \<in> set (bd_recipients db) \<Longrightarrow> rc_campaign r = cid \<Longrightarrow> rc_target r \<notin> ir_target ` set rows"
  shows "\<exists>new nx. db' = db\<lparr>bd_next_recipient := nx, bd_recipients := bd_recipients db @ new\<rparr> \<and> map recipient_key new = map insert_key rows \<and>
    (\<forall>r\<in>set new. rc_campaign r = cid \<and> rc_client r = client)"
  using assms
proof (induction rows arbitrary: db p s)
  case Nil
  then show ?case by (intro exI [of _ "[]"] exI [of _ "bd_next_recipient db"]) simp
next
  case (Cons row rows)
  define r where "r = \<lparr>rc_id = bd_next_recipient db, rc_client = client, rc_campaign = cid, rc_target = ir_target row, rc_jid = ir_jid row,
             rc_vars = ir_vars row, rc_status = ir_status row, rc_skip_reason = ir_skip_reason row, rc_failure = None,
             rc_job = None, rc_charged = None, rc_delivered_at = None, rc_read_at = None\<rparr>"
  define db1 where "db1 = db\<lparr>bd_next_recipient := bd_next_recipient db + 1, bd_recipients := bd_recipients db @ [r]\<rparr>"
  have "\<not> list_ex (\<lambda>r. rc_campaign r = cid \<and> rc_target r = ir_target row) (bd_recipients db)"
    using Cons.prems(3) by (force simp: list_ex_iff)
  then obtain p1 s1 where "insert_recipient client cid row (db, p, s) = (db1, p1, s1)"
    by (simp add: insert_recipient_def Let_def db1_def r_def)
  then have f: "fold (insert_recipient client cid) rows (db1, p1, s1) = (db', p', s')" using Cons.prems(1) by simp
  have "rc_target x \<notin> ir_target ` set rows" if "x \<in> set (bd_recipients db1)" "rc_campaign x = cid" for x
  proof (cases "x = r")
    case True
    then show ?thesis using Cons.prems(2) by (simp add: r_def)
  next
    case False
    then show ?thesis using that Cons.prems(3) [of x] by (simp add: db1_def)
  qed
  from Cons.IH [OF f _ this] Cons.prems(2) obtain new nx where
    "db' = db1\<lparr>bd_next_recipient := nx, bd_recipients := bd_recipients db1 @ new\<rparr>" "map recipient_key new = map insert_key rows"
    "\<forall>r\<in>set new. rc_campaign r = cid \<and> rc_client r = client" by auto
  moreover have "recipient_key r = insert_key row" "rc_campaign r = cid" "rc_client r = client" by (simp_all add: r_def recipient_key_def insert_key_def)
  ultimately show ?case
    by (intro exI [of _ "r # new"] exI [of _ "nx"]) (simp add: db1_def)
qed

section \<open>The audience\<close>

definition audience_of :: "string \<Rightarrow> nat list \<Rightarrow> string list \<Rightarrow> broadcast_db \<Rightarrow> contact list" where
  "audience_of client ids tags db = sort_key co_id (filter (matches_audience client ids tags) (bd_contacts db))"

text \<open>The state after the first \<open>i\<close> contacts of the audience \<open>cs\<close> of \<open>c\<close>, from \<open>db0\<close>.\<close>

definition cursor_at :: "contact list \<Rightarrow> nat \<Rightarrow> nat option" where
  "cursor_at cs i = (if i = 0 then None else Some (co_id (cs ! (i - 1))))"

definition snapped :: "broadcast_db \<Rightarrow> campaign_row \<Rightarrow> contact list \<Rightarrow> nat \<Rightarrow> broadcast_db \<Rightarrow> bool" where
  "snapped db0 c cs i d \<longleftrightarrow> i \<le> length cs \<and> bd_contacts d = bd_contacts db0 \<and> bd_opted d = bd_opted db0 \<and> bd_limit d = bd_limit db0 \<and>
     readCampaign (cp_client c) (cp_id c) d = Some (c\<lparr>cp_snapshot_cursor := cursor_at cs i\<rparr>) \<and>
     (\<exists>new. bd_recipients d = bd_recipients db0 @ new \<and>
        map recipient_key new = map (insert_key \<circ> contact_insert (bd_opted db0) (cp_body c)) (take i cs) \<and>
        (\<forall>r\<in>set new. rc_campaign r = cp_id c \<and> rc_client r = cp_client c))"

lemma ir_target_contact [simp]: "ir_target (contact_insert opted body c) = co_id c"
  by (simp add: contact_insert_def split: sum.split)

lemma read_batch_snapped:
  assumes cs: "cs = audience_of client ids tags db0" and d: "distinct (map co_id (bd_contacts db0))" "\<And>c. c \<in> set (bd_contacts db0) \<Longrightarrow> 0 < co_id c"
    and i: "i \<le> length cs" "bd_contacts db = bd_contacts db0"
  shows "readSnapshotBatch client (cursor_at cs i) ids tags n db = take n (drop i cs)"
proof -
  have s: "sorted_wrt (<) (map co_id cs)"
    unfolding cs audience_of_def by (rule sorted_key_strict) (use d(1) in \<open>simp add: distinct_map_filter\<close>)
  have "readSnapshotBatch client (cursor_at cs i) ids tags n db =
      take n (filter (\<lambda>c. (case cursor_at cs i of None \<Rightarrow> 0 | Some i \<Rightarrow> i) < co_id c) cs)"
    by (simp add: readSnapshotBatch_def cs audience_of_def i(2) filter_sort conj_commute)
  moreover have "filter (\<lambda>c. (case cursor_at cs i of None \<Rightarrow> 0 | Some i \<Rightarrow> i) < co_id c) cs = drop i cs"
  proof (cases i)
    case 0
    have "0 < co_id c" if "c \<in> set cs" for c using that d(2) by (auto simp: cs audience_of_def)
    then show ?thesis using 0 by (simp add: cursor_at_def)
  next
    case (Suc j)
    then show ?thesis using filter_after_drop [OF s, of j] i(1) by (simp add: cursor_at_def)
  qed
  ultimately show ?thesis by simp
qed

lemma write_batch_snapped:
  assumes sn: "snapped db0 c cs i d" and s: "sorted_wrt (<) (map co_id cs)"
    and none: "\<And>r. r \<in> set (bd_recipients db0) \<Longrightarrow> rc_campaign r \<noteq> cp_id c"
    and batch: "batch = take n (drop i cs)" "batch \<noteq> []"
    and ins: "insertRecipientBatch (cp_client c) (cp_id c) (map (contact_insert (bd_opted db0) (cp_body c)) batch) d = (d1, p, k)"
  shows "snapped db0 c cs (i + length batch)
    (bumpSnapshotCounters (cp_client c) (cp_id c) p k (advanceSnapshotCursor (cp_client c) (cp_id c) (co_id (last batch)) d1))"
proof -
  let ?ins = "contact_insert (bd_opted db0) (cp_body c)"
  obtain old where old: "bd_recipients d = bd_recipients db0 @ old" "map recipient_key old = map (insert_key \<circ> ?ins) (take i cs)"
      "\<forall>r\<in>set old. rc_campaign r = cp_id c \<and> rc_client r = cp_client c" using sn by (auto simp: snapped_def)
  have i: "i + length batch \<le> length cs" "i < length cs" using sn batch by (auto simp: snapped_def)
  have cut: "take (i + length batch) cs = take i cs @ batch" unfolding take_add batch(1) by (simp add: min_def)
  have dist: "distinct (map co_id (take i cs @ batch))" using s unfolding cut [symmetric] by (simp add: strict_sorted_iff distinct_take take_map [symmetric])
  have "rc_target r \<in> co_id ` set (take i cs)" if "r \<in> set old" for r
  proof -
    have "map rc_target old = map co_id (take i cs)"
      using arg_cong [OF old(2), of "map fst"] by (simp add: recipient_key_def insert_key_def comp_def)
    then show ?thesis using that by (metis image_eqI image_set)
  qed
  then have "rc_target r \<notin> ir_target ` set (map ?ins batch)" if "r \<in> set (bd_recipients d)" "rc_campaign r = cp_id c" for r
    using that dist none old(1) by (auto simp: image_iff)
  then obtain new nx where d1: "d1 = d\<lparr>bd_next_recipient := nx, bd_recipients := bd_recipients d @ new\<rparr>"
      "map recipient_key new = map insert_key (map ?ins batch)" "\<forall>r\<in>set new. rc_campaign r = cp_id c \<and> rc_client r = cp_client c"
    using insert_fresh [of "cp_client c" "cp_id c" "map ?ins batch" d 0 0 d1 p k] ins dist
    by (auto simp: insertRecipientBatch_def comp_def)
  have "last (take (i + length batch) cs) = cs ! (i + length batch - 1)"
  proof -
    obtain m where "i + length batch = Suc m" using batch(2) by (cases "i + length batch") auto
    then show ?thesis using i(1) by (simp add: take_Suc_conv_app_nth)
  qed
  then have last: "last batch = cs ! (i + length batch - 1)" using cut batch(2) by simp
  let ?l = "co_id (last batch)"
  define d2 where "d2 = bumpSnapshotCounters (cp_client c) (cp_id c) p k (advanceSnapshotCursor (cp_client c) (cp_id c) ?l d1)"
  have cur: "case cursor_at cs i of None \<Rightarrow> True | Some x \<Rightarrow> x < ?l"
  proof (cases i)
    case (Suc j)
    have "co_id (cs ! j) < co_id (cs ! (i + length batch - 1))"
      using sorted_wrt_nth_less [OF s, of j "i + length batch - 1"] i batch(2) Suc by (simp add: length_greater_0_conv)
    then show ?thesis using Suc last by (simp add: cursor_at_def)
  qed (simp add: cursor_at_def)
  have rd: "readCampaign (cp_client c) (cp_id c) d1 = Some (c\<lparr>cp_snapshot_cursor := cursor_at cs i\<rparr>)"
    using sn by (simp add: snapped_def d1 readCampaign_def)
  have "readCampaign (cp_client c) (cp_id c) d2 = Some (c\<lparr>cp_snapshot_cursor := Some ?l\<rparr>)"
    using rd cur unfolding d2_def readCampaign_def bumpSnapshotCounters_def update_counters_def advanceSnapshotCursor_def
    by (simp add: find_update_where the_campaign_def)
  moreover have "cursor_at cs (i + length batch) = Some ?l" using batch(2) last by (simp add: cursor_at_def)
  moreover have "bd_recipients d2 = bd_recipients db0 @ old @ new" "bd_contacts d2 = bd_contacts d" "bd_opted d2 = bd_opted d" "bd_limit d2 = bd_limit d"
    by (simp_all add: d2_def bumpSnapshotCounters_def update_counters_def advanceSnapshotCursor_def d1 old)
  moreover have "map recipient_key (old @ new) = map (insert_key \<circ> ?ins) (take (i + length batch) cs)" using old d1 by (simp add: cut)
  ultimately show ?thesis using sn i old(3) d1(3) unfolding d2_def [symmetric] snapped_def
    by (intro conjI exI [of _ "old @ new"]) auto
qed

lemma snapped_update_recipients:
  assumes "snapped db0 c cs (length cs) d" "\<And>r. r \<in> set (bd_recipients db0) \<Longrightarrow> rc_campaign r \<noteq> cp_id c"
  shows "map recipient_key (recipients_of (cp_client c) (cp_id c) d) = map (insert_key \<circ> contact_insert (bd_opted db0) (cp_body c)) cs"
proof -
  obtain new where new: "bd_recipients d = bd_recipients db0 @ new"
      "map recipient_key new = map (insert_key \<circ> contact_insert (bd_opted db0) (cp_body c)) cs"
      "\<forall>r\<in>set new. rc_campaign r = cp_id c \<and> rc_client r = cp_client c" using assms(1) by (auto simp: snapped_def)
  then have "recipients_of (cp_client c) (cp_id c) d = new" using assms(2) by (simp add: recipients_of_def)
  then show ?thesis using new by simp
qed

lemma complete_snapped:
  assumes sn: "snapped db0 c cs (length cs) d" and st: "cp_status c = Camp_snapshotting"
    and none: "\<And>r. r \<in> set (bd_recipients db0) \<Longrightarrow> rc_campaign r \<noteq> cp_id c"
    and d': "completeSnapshot (cp_client c) (cp_id c) now d = (d', k)"
  shows "k = int (length cs) \<and> recipients_of (cp_client c) (cp_id c) d' = recipients_of (cp_client c) (cp_id c) d \<and>
    readCampaign (cp_client c) (cp_id c) d' = Some (c\<lparr>cp_snapshot_cursor := cursor_at cs (length cs), cp_snapshot_done := True,
      cp_audience_count := Some (int (length cs)), cp_status := Camp_expanding, cp_updated := now\<rparr>)"
proof -
  have "length (recipients_of (cp_client c) (cp_id c) d) = length cs"
    using snapped_update_recipients [OF sn none] by (metis length_map)
  moreover have "find (\<lambda>x. cp_id x = cp_id c \<and> cp_client x = cp_client c) (bd_campaigns d) = Some (c\<lparr>cp_snapshot_cursor := cursor_at cs (length cs)\<rparr>)"
    using sn by (simp add: snapped_def readCampaign_def)
  ultimately show ?thesis using d' st
    by (auto simp: completeSnapshot_def Let_def campaign_transition_def readCampaign_def find_update_where hits_def recipients_of_def)
qed

lemma loop_snapped:
  assumes n: "0 < n" and c: "cp_status c = Camp_snapshotting" "cp_audience c = Contacts_audience ids tags"
    and cs: "cs = audience_of (cp_client c) ids tags db0"
    and ids: "distinct (map co_id (bd_contacts db0))" "\<And>x. x \<in> set (bd_contacts db0) \<Longrightarrow> 0 < co_id x"
    and limit: "bd_limit db0 (cp_client c) = Some m" "int (length cs) \<le> m"
    and none: "\<And>r. r \<in> set (bd_recipients db0) \<Longrightarrow> rc_campaign r \<noteq> cp_id c"
    and sn: "snapped db0 c cs i d"
  shows "\<exists>d'. runSnapshotToCompletion key n now (cp_client c) (cp_id c) d = Some (d', Ok (Sn_done (int (length cs)))) \<and>
    map recipient_key (recipients_of (cp_client c) (cp_id c) d') = map (insert_key \<circ> contact_insert (bd_opted db0) (cp_body c)) cs \<and>
    readCampaign (cp_client c) (cp_id c) d' = Some (c\<lparr>cp_snapshot_cursor := cursor_at cs (length cs), cp_snapshot_done := True,
      cp_audience_count := Some (int (length cs)), cp_status := Camp_expanding, cp_updated := now\<rparr>)"
  using sn
proof (induction "length cs - i" arbitrary: i d rule: less_induct)
  case less
  have i: "i \<le> length cs" and same: "bd_contacts d = bd_contacts db0" "bd_opted d = bd_opted db0" "bd_limit d = bd_limit db0"
    and rd: "readCampaign (cp_client c) (cp_id c) d = Some (c\<lparr>cp_snapshot_cursor := cursor_at cs i\<rparr>)"
    using less.prems by (simp_all add: snapped_def)
  have s: "sorted_wrt (<) (map co_id cs)"
    unfolding cs audience_of_def by (rule sorted_key_strict) (use ids(1) in \<open>simp add: distinct_map_filter\<close>)
  have "countAudience (cp_client c) ids tags d = int (length cs)" by (simp add: countAudience_def cs audience_of_def same)
  then have batch: "runSnapshotBatch key n now (cp_client c) (cp_id c) d =
      (if take n (drop i cs) = [] then (let (db1, allrows) = completeSnapshot (cp_client c) (cp_id c) now d in (db1, Ok (Sn_done allrows)))
       else (let (db1, r) = write_batch (cp_client c) (cp_id c) n now (map (contact_insert (bd_opted db0) (cp_body c)) (take n (drop i cs))) d
             in (db1, Ok r)))"
    using rd c limit read_batch_snapped [OF cs ids i same(1), of n] by (simp add: runSnapshotBatch_def same)
  show ?case
  proof (cases "take n (drop i cs) = []")
    case True
    then have "i = length cs" using n i by simp
    obtain d' k where d': "completeSnapshot (cp_client c) (cp_id c) now d = (d', k)" by fastforce
    have sn: "snapped db0 c cs (length cs) d" using less.prems \<open>i = length cs\<close> by simp
    have "runSnapshotToCompletion key n now (cp_client c) (cp_id c) d = Some (d', Ok (Sn_done k))"
      using batch True d' by (subst runSnapshotToCompletion.simps) simp
    then show ?thesis using complete_snapped [OF sn c(1) none d'] snapped_update_recipients [OF sn none] by auto
  next
    case False
    define rows where "rows = take n (drop i cs)"
    let ?ins = "contact_insert (bd_opted db0) (cp_body c)"
    obtain d1 p k where ins: "insertRecipientBatch (cp_client c) (cp_id c) (map ?ins rows) d = (d1, p, k)" by (metis prod_cases3)
    define d2 where "d2 = bumpSnapshotCounters (cp_client c) (cp_id c) p k (advanceSnapshotCursor (cp_client c) (cp_id c) (co_id (last rows)) d1)"
    have ne: "rows \<noteq> []" using False by (simp add: rows_def)
    have sn2: "snapped db0 c cs (i + length rows) d2"
      unfolding d2_def by (rule write_batch_snapped [OF less.prems s none rows_def ne ins])
    have last: "ir_target (last (map ?ins rows)) = co_id (last rows)" using ne by (simp add: last_map)
    show ?thesis
    proof (cases "length rows < n")
      case True
      then have "i + length rows = length cs" using i by (simp add: rows_def)
      then have sn: "snapped db0 c cs (length cs) d2" using sn2 by simp
      obtain d' k' where d': "completeSnapshot (cp_client c) (cp_id c) now d2 = (d', k')" by fastforce
      have "runSnapshotToCompletion key n now (cp_client c) (cp_id c) d = Some (d', Ok (Sn_done k'))"
        using batch ne True d' unfolding rows_def [symmetric]
        by (subst runSnapshotToCompletion.simps) (simp add: write_batch_def ins Let_def last d2_def)
      then show ?thesis using complete_snapped [OF sn c(1) none d'] snapped_update_recipients [OF sn none] by auto
    next
      case full: False
      have "runSnapshotToCompletion key n now (cp_client c) (cp_id c) d = runSnapshotToCompletion key n now (cp_client c) (cp_id c) d2"
        using batch ne full unfolding rows_def [symmetric]
        by (subst runSnapshotToCompletion.simps) (simp add: write_batch_def ins Let_def last d2_def)
      moreover have "length cs - (i + length rows) < length cs - i" using ne by (auto simp: rows_def)
      ultimately show ?thesis using less.hyps [OF _ sn2] by simp
    qed
  qed
qed

lemma snapshot_rows:
  assumes "0 < n" "readCampaign client cid db = Some c" "cp_status c = Camp_snapshotting" "cp_snapshot_cursor c = None"
    and "cp_audience c = Contacts_audience ids tags" "bd_limit db client = Some m" "countAudience client ids tags db \<le> m"
    and "distinct (map co_id (bd_contacts db))" "list_all (\<lambda>x. 0 < co_id x) (bd_contacts db)"
    and "list_all (\<lambda>r. rc_campaign r \<noteq> cid) (bd_recipients db)" "cs = audience_of client ids tags db"
  obtains db' where "runSnapshotToCompletion key n now client cid db = Some (db', Ok (Sn_done (int (length cs))))"
    "map recipient_key (recipients_of client cid db') = map (insert_key \<circ> contact_insert (bd_opted db) (cp_body c)) cs"
    "map_option cp_status (readCampaign client cid db') = Some Camp_expanding"
proof -
  have c: "cp_id c = cid" "cp_client c = client" using readCampaign_in [OF assms(2)] by auto
  have count: "countAudience client ids tags db = int (length cs)" by (simp add: countAudience_def audience_of_def assms(11))
  have "c\<lparr>cp_snapshot_cursor := None\<rparr> = c" using assms(4) by simp
  then have sn: "snapped db c cs 0 db" using assms(2) c by (simp add: snapped_def cursor_at_def)
  have "\<exists>d'. runSnapshotToCompletion key n now (cp_client c) (cp_id c) db = Some (d', Ok (Sn_done (int (length cs)))) \<and>
    map recipient_key (recipients_of (cp_client c) (cp_id c) d') = map (insert_key \<circ> contact_insert (bd_opted db) (cp_body c)) cs \<and>
    readCampaign (cp_client c) (cp_id c) d' = Some (c\<lparr>cp_snapshot_cursor := cursor_at cs (length cs), cp_snapshot_done := True,
      cp_audience_count := Some (int (length cs)), cp_status := Camp_expanding, cp_updated := now\<rparr>)"
    by (rule loop_snapped [OF assms(1,3,5) _ assms(8) _ _ _ _ sn])
      (use assms(6,7,9,10,11) c count in \<open>auto simp: list_all_iff\<close>)
  then show thesis using that unfolding c by auto
qed

text \<open>
  C23. The snapshot of a contacts campaign within its plan ceiling ends, for every batch size but 0, and gives the same
  recipients for each: the live contacts that match the ids or the tags, in the order of their ids, opted-out ones and ones
  that miss a variable as skipped with the reason, the others as pending with their variables frozen; and the
  campaign is \<open>expanding\<close> with their number as its audience count.
\<close>

theorem snapshot_is_audience:
  assumes "0 < n" "readCampaign client cid db = Some c" "cp_status c = Camp_snapshotting" "cp_snapshot_cursor c = None"
    and "cp_audience c = Contacts_audience ids tags" "bd_limit db client = Some m" "countAudience client ids tags db \<le> m"
    and "distinct (map co_id (bd_contacts db))" "list_all (\<lambda>x. 0 < co_id x) (bd_contacts db)"
    and "list_all (\<lambda>r. rc_campaign r \<noteq> cid) (bd_recipients db)"
  shows "\<exists>db' k. runSnapshotToCompletion key n now client cid db = Some (db', Ok (Sn_done k)) \<and> k = countAudience client ids tags db \<and>
    map (\<lambda>r. (rc_target r, rc_jid r, rc_status r, rc_skip_reason r, rc_vars r)) (recipients_of client cid db') =
    map (\<lambda>x. (co_id x, recipientJidFor (co_jid x),
          if (co_client x, co_hash x) \<in> set (bd_opted db) then (Rc_skipped, Some ''opted_out'', [])
          else (case freezeVars (cp_body c) (freezeVarsSource x) of
              Inl token \<Rightarrow> (Rc_skipped, Some (missingVarSkipReason token), [])
            | Inr vars \<Rightarrow> (Rc_pending, None, vars))))
      (sort_key co_id (filter (matches_audience client ids tags) (bd_contacts db))) \<and>
    map_option cp_status (readCampaign client cid db') = Some Camp_expanding"
proof -
  have key: "recipient_key = (\<lambda>r. (rc_target r, rc_jid r, rc_status r, rc_skip_reason r, rc_vars r))" by (simp add: fun_eq_iff recipient_key_def)
  have ins: "insert_key \<circ> contact_insert (bd_opted db) (cp_body c) = (\<lambda>x. (co_id x, recipientJidFor (co_jid x),
          if (co_client x, co_hash x) \<in> set (bd_opted db) then (Rc_skipped, Some ''opted_out'', [])
          else (case freezeVars (cp_body c) (freezeVarsSource x) of
              Inl token \<Rightarrow> (Rc_skipped, Some (missingVarSkipReason token), [])
            | Inr vars \<Rightarrow> (Rc_pending, None, vars))))"
    by (simp add: fun_eq_iff insert_key_def contact_insert_def split: sum.split)
  show ?thesis
    by (rule snapshot_rows [OF assms refl, of key now])
      (auto simp: ins [symmetric] key [symmetric] countAudience_def audience_of_def)
qed

text \<open>The example after its start, in batches of one.\<close>

theorem snapshot_is_audience_witness:
  "map_option (\<lambda>r. map rc_status (recipients_of ''k'' ''c'' (fst r))) (runSnapshotToCompletion False 1 3 ''k'' ''c'' (example_run 2)) =
    Some [Rc_pending, Rc_skipped]"
proof -
  have "case readCampaign ''k'' ''c'' (example_run 2) of None \<Rightarrow> False | Some c \<Rightarrow> cp_status c = Camp_snapshotting \<and>
      cp_snapshot_cursor c = None \<and> cp_audience c = Contacts_audience [] [''t''] \<and> cp_body c = ''hi''" by code_simp
  then obtain c where c: "readCampaign ''k'' ''c'' (example_run 2) = Some c" "cp_status c = Camp_snapshotting"
      "cp_snapshot_cursor c = None" "cp_audience c = Contacts_audience [] [''t'']" "cp_body c = ''hi''"
    by (auto split: option.splits)
  have h: "bd_limit (example_run 2) ''k'' = Some 100" "countAudience ''k'' [] [''t''] (example_run 2) \<le> 100"
    "distinct (map co_id (bd_contacts (example_run 2)))" "list_all (\<lambda>x. 0 < co_id x) (bd_contacts (example_run 2))"
    "list_all (\<lambda>r. rc_campaign r \<noteq> ''c'') (bd_recipients (example_run 2))" by code_simp+
  have rows: "map (\<lambda>x. (co_id x, recipientJidFor (co_jid x),
          if (co_client x, co_hash x) \<in> set (bd_opted (example_run 2)) then (Rc_skipped, Some ''opted_out'', [])
          else (case freezeVars ''hi'' (freezeVarsSource x) of
              Inl token \<Rightarrow> (Rc_skipped, Some (missingVarSkipReason token), [])
            | Inr vars \<Rightarrow> (Rc_pending, None, vars))))
      (sort_key co_id (filter (matches_audience ''k'' [] [''t'']) (bd_contacts (example_run 2)))) =
    [(1, ''1@s.whatsapp.net'', Rc_pending, None, []), (2, ''2@s.whatsapp.net'', Rc_skipped, Some ''opted_out'', [])]" by code_simp
  obtain db' k where r: "runSnapshotToCompletion False 1 3 ''k'' ''c'' (example_run 2) = Some (db', Ok (Sn_done k))"
    and m: "map (\<lambda>r. (rc_target r, rc_jid r, rc_status r, rc_skip_reason r, rc_vars r)) (recipients_of ''k'' ''c'' db') =
      [(1, ''1@s.whatsapp.net'', Rc_pending, None, []), (2, ''2@s.whatsapp.net'', Rc_skipped, Some ''opted_out'', [])]"
    using snapshot_is_audience [OF _ c(1-4) h, of 1 False 3] unfolding c(5) rows by auto
  have "map rc_status (recipients_of ''k'' ''c'' db') = [Rc_pending, Rc_skipped]"
    using arg_cong [OF m, of "map (\<lambda>(a, b, st, d). st)"] by (simp add: comp_def)
  then show ?thesis using r by simp
qed

end
