(* ===== verification/Broadcast_Sweeps.thy ===== *)
theory Broadcast_Sweeps
  imports Broadcast_Reach
begin

text \<open>
  What the sweeps can and cannot bring about: groups campaigns that no sweep can snapshot, campaigns that a failed send
  keeps open, and the rate of the expansion budget.
\<close>

section \<open>Groups campaigns in the snapshot sweep\<close>

fun is_groups :: "audience \<Rightarrow> bool" where
  "is_groups (Groups_audience _) = True"
| "is_groups (Contacts_audience _ _) = False"

lemma groups_batch_fails:
  assumes "readCampaign client cid db = Some c" "cp_status c = Camp_snapshotting" "is_groups (cp_audience c)"
  shows "runSnapshotBatch False n now client cid db = (db, Err KeyProviderMissing)"
  using assms by (cases "cp_audience c") (simp_all add: runSnapshotBatch_def)

lemma readCampaign_row:
  assumes "distinct (map cp_id (bd_campaigns db))" "c \<in> set (bd_campaigns db)"
  shows "readCampaign (cp_client c) (cp_id c) db = Some c"
proof -
  obtain d where d: "readCampaign (cp_client c) (cp_id c) db = Some d"
    using assms(2) by (cases "readCampaign (cp_client c) (cp_id c) db") (auto simp: readCampaign_def find_None_iff)
  then show ?thesis using readCampaign_in [OF d] same_id_same_row [OF assms(1) _ assms(2)] by simp
qed

lemma sweep_all_groups:
  assumes "distinct (map cp_id (bd_campaigns db))"
    and "list_all (\<lambda>c. is_groups (cp_audience c)) (broadcast_campaigns_pending Camp_snapshotting DEFAULT_MAX_CAMPAIGNS_PER_SWEEP db)"
  shows "runOneBroadcastSnapshotSweep n now db = db"
proof -
  have "fst (runSnapshotBatch False n now (cp_client c) (cp_id c) db) = db"
    if "c \<in> set (broadcast_campaigns_pending Camp_snapshotting DEFAULT_MAX_CAMPAIGNS_PER_SWEEP db)" for c
  proof -
    have "c \<in> set (bd_campaigns db)" "cp_status c = Camp_snapshotting"
      using that by (auto simp: broadcast_campaigns_pending_def dest!: in_set_takeD)
    then show ?thesis using groups_batch_fails [OF readCampaign_row [OF assms(1)]] assms(2) that by (simp add: list_all_iff)
  qed
  then have "fold (\<lambda>c d. fst (runSnapshotBatch False n now (cp_client c) (cp_id c) d)) cs db = db"
    if "set cs \<subseteq> set (broadcast_campaigns_pending Camp_snapshotting DEFAULT_MAX_CAMPAIGNS_PER_SWEEP db)" for cs
    using that by (induction cs) simp_all
  then show ?thesis by (simp add: runOneBroadcastSnapshotSweep_def)
qed

lemma update_where_keeps: "x \<in> set xs \<Longrightarrow> \<not> p x \<Longrightarrow> x \<in> set (update_where p f xs)"
  by (auto simp: set_update_where image_iff intro!: bexI [of _ x])

lemma transition_ids:
  "(\<And>c. cp_id (extra c) = cp_id c \<and> cp_client (extra c) = cp_client c) \<Longrightarrow>
    ids_of (fst (campaign_transition client cid froms to extra now db)) = ids_of db"
  by (simp add: campaign_transition_def update_where_def)

lemma insert_batch_campaigns: "insertRecipientBatch client cid rows db = (db1, p, s) \<Longrightarrow> bd_campaigns db1 = bd_campaigns db"
proof -
  have "bd_campaigns (fst (fold (insert_recipient client cid) rs (d, a))) = bd_campaigns d" for rs d a
    by (induction rs arbitrary: d a) (auto simp: insert_recipient_def Let_def split: prod.split)
  then show "insertRecipientBatch client cid rows db = (db1, p, s) \<Longrightarrow> bd_campaigns db1 = bd_campaigns db"
    by (simp add: insertRecipientBatch_def) (metis fst_conv)
qed

lemma snapshot_ids: "ids_of (fst (runSnapshotBatch key n now client cid db)) = ids_of db"
proof (rule snapshot_cases [of key n now client cid db])
  fix rows assume r: "fst (runSnapshotBatch key n now client cid db) = fst (write_batch client cid n now rows db)"
  obtain db1 p s where i: "insertRecipientBatch client cid rows db = (db1, p, s)" by (metis prod_cases3)
  have "ids_of (bumpSnapshotCounters client cid p s (advanceSnapshotCursor client cid l db1)) = ids_of db" for l
    using insert_batch_campaigns [OF i] by (simp add: bumpSnapshotCounters_def update_counters_def advanceSnapshotCursor_def update_where_def)
  then show ?thesis unfolding r write_batch_def i Let_def
    by (simp add: completeSnapshot_def Let_def transition_ids del: list.map_comp)
qed (simp_all add: failSnapshotForLimit_def completeSnapshot_def Let_def transition_ids)

text \<open>A batch leaves the row of every other campaign as it is.\<close>

lemma transition_other_row:
  "c \<in> set (bd_campaigns db) \<Longrightarrow> cp_id c \<noteq> cid \<Longrightarrow> c \<in> set (bd_campaigns (fst (campaign_transition client cid froms to extra now db)))"
  by (simp add: campaign_transition_def update_where_keeps hits_def)

lemma snapshot_batch_other_row:
  assumes "c \<in> set (bd_campaigns db)" "cp_id c \<noteq> cid"
  shows "c \<in> set (bd_campaigns (fst (runSnapshotBatch key n now client cid db)))"
proof (rule snapshot_cases [of key n now client cid db])
  fix rows assume r: "fst (runSnapshotBatch key n now client cid db) = fst (write_batch client cid n now rows db)"
  obtain db1 p s where i: "insertRecipientBatch client cid rows db = (db1, p, s)" by (metis prod_cases3)
  have "bd_campaigns db1 = bd_campaigns db" by (rule insert_batch_campaigns [OF i])
  then have "c \<in> set (bd_campaigns (bumpSnapshotCounters client cid p s (advanceSnapshotCursor client cid l db1)))" for l
    using assms by (simp add: bumpSnapshotCounters_def update_counters_def advanceSnapshotCursor_def update_where_keeps the_campaign_def)
  then show ?thesis unfolding r write_batch_def i Let_def
    using transition_other_row [OF _ assms(2)] by (simp add: completeSnapshot_def Let_def)
qed (use assms transition_other_row [OF assms] in \<open>simp_all add: failSnapshotForLimit_def completeSnapshot_def Let_def\<close>)

lemma sweep_keeps_groups:
  assumes "distinct (map cp_id (bd_campaigns db))" "c \<in> set (bd_campaigns db)" "cp_status c = Camp_snapshotting" "is_groups (cp_audience c)"
  shows "c \<in> set (bd_campaigns (runOneBroadcastSnapshotSweep n now db)) \<and>
    distinct (map cp_id (bd_campaigns (runOneBroadcastSnapshotSweep n now db)))"
proof -
  have distinct_batch: "distinct (map cp_id (bd_campaigns (fst (runSnapshotBatch False n now client cid d))))"
    if "distinct (map cp_id (bd_campaigns d))" for client cid d
    by (rule ids_of_distinct [OF snapshot_ids that])
  have one: "c \<in> set (bd_campaigns (fst (runSnapshotBatch False n now client cid d))) \<and>
      distinct (map cp_id (bd_campaigns (fst (runSnapshotBatch False n now client cid d))))"
    if d: "c \<in> set (bd_campaigns d)" "distinct (map cp_id (bd_campaigns d))" for client cid d
  proof (cases "cp_id c = cid \<and> cp_client c = client")
    case True
    then show ?thesis using groups_batch_fails [OF readCampaign_row [OF d(2,1)] assms(3,4)] d by simp
  next
    case False
    show ?thesis
    proof (cases "cp_id c = cid")
      case True
      then have "readCampaign client cid d = None"
        using False same_id_same_row [OF d(2) _ d(1)] readCampaign_in by (metis option.exhaust)
      then show ?thesis using d by (simp add: runSnapshotBatch_def)
    next
      case other: False
      show ?thesis using snapshot_batch_other_row [OF d(1) other] distinct_batch [OF d(2)] by simp
    qed
  qed
  have "c \<in> set (bd_campaigns (fold (\<lambda>c d. fst (runSnapshotBatch False n now (cp_client c) (cp_id c) d)) cs d)) \<and>
      distinct (map cp_id (bd_campaigns (fold (\<lambda>c d. fst (runSnapshotBatch False n now (cp_client c) (cp_id c) d)) cs d)))"
    if "c \<in> set (bd_campaigns d)" "distinct (map cp_id (bd_campaigns d))" for cs d
    using that
  proof (induction cs arbitrary: d)
    case (Cons e cs)
    from one [OF Cons.prems] show ?case unfolding fold_simps(2) by (intro Cons.IH) blast+
  qed simp
  then show ?thesis unfolding runOneBroadcastSnapshotSweep_def using assms by blast
qed

text \<open>
  The snapshot sweep hands no key provider to the batch, so a campaign with a groups audience can never leave
  \<open>snapshotting\<close>: after any number of sweeps its row is what it was. And the sweep takes the
  \<open>DEFAULT_MAX_CAMPAIGNS_PER_SWEEP\<close> rows of the oldest \<open>updated_at\<close>, which a failed batch does not move: once these are
  groups campaigns the sweeps do nothing at all, for any tenant.
\<close>

theorem groups_campaign_never_snapshots:
  assumes "distinct (map cp_id (bd_campaigns db))"
  shows "(c \<in> set (bd_campaigns db) \<and> cp_status c = Camp_snapshotting \<and> is_groups (cp_audience c) \<longrightarrow>
      c \<in> set (bd_campaigns (fold (runOneBroadcastSnapshotSweep n) nows db))) \<and>
    (list_all (\<lambda>c. is_groups (cp_audience c)) (broadcast_campaigns_pending Camp_snapshotting DEFAULT_MAX_CAMPAIGNS_PER_SWEEP db) \<longrightarrow>
      fold (runOneBroadcastSnapshotSweep n) nows db = db)"
proof (intro conjI impI)
  assume "c \<in> set (bd_campaigns db) \<and> cp_status c = Camp_snapshotting \<and> is_groups (cp_audience c)"
  then show "c \<in> set (bd_campaigns (fold (runOneBroadcastSnapshotSweep n) nows db))"
    using assms
  proof (induction nows arbitrary: db)
    case (Cons now nows)
    then show ?case unfolding fold_simps(2) using sweep_keeps_groups [of db c n now] by (intro Cons.IH) blast+
  qed simp
next
  assume "list_all (\<lambda>c. is_groups (cp_audience c)) (broadcast_campaigns_pending Camp_snapshotting DEFAULT_MAX_CAMPAIGNS_PER_SWEEP db)"
  then show "fold (runOneBroadcastSnapshotSweep n) nows db = db"
    using sweep_all_groups [OF assms] by (induction nows) simp_all
qed

text \<open>A groups campaign of one tenant and the example of another.\<close>

definition example_groups :: broadcast_db where
  "example_groups = example_broadcast_db\<lparr>bd_campaigns :=
    [(draft_row (example_input\<lparr>ci_audience := Groups_audience []\<rparr>) ''g'' 1)\<lparr>cp_status := Camp_snapshotting\<rparr>]\<rparr>"

theorem groups_campaign_never_snapshots_witness:
  "fold (runOneBroadcastSnapshotSweep 10) [5, 7] example_groups = example_groups"
proof -
  have d: "distinct (map cp_id (bd_campaigns example_groups))" by code_simp
  have g: "list_all (\<lambda>c. is_groups (cp_audience c)) (broadcast_campaigns_pending Camp_snapshotting DEFAULT_MAX_CAMPAIGNS_PER_SWEEP example_groups)"
    by code_simp
  from groups_campaign_never_snapshots [OF d, of undefined 10 "[5, 7]"] g show ?thesis by blast
qed

section \<open>A failed send keeps its campaign open\<close>

text \<open>The steps that may move the queued recipient \<open>r\<close>: the stamp of its own send or receipt and the bookkeeping of its campaign.\<close>

definition spares :: "recipient \<Rightarrow> broadcast_event \<Rightarrow> broadcast_db \<Rightarrow> bool" where
  "spares r e db \<longleftrightarrow> (case e of
      B_sent client job _ \<Rightarrow> \<not> refers_to db client job r
    | B_receipt client job _ _ \<Rightarrow> \<not> refers_to db client job r
    | B_cancel_recipients client cid _ \<Rightarrow> client \<noteq> rc_client r \<or> cid \<noteq> rc_campaign r
    | _ \<Rightarrow> serial e db)"

fun spared :: "(string \<Rightarrow> string) \<Rightarrow> recipient \<Rightarrow> broadcast_event list \<Rightarrow> broadcast_db \<Rightarrow> bool" where
  "spared sha r [] db = True"
| "spared sha r (e # es) db = (spares r e db \<and> spared sha r es (broadcast_step sha e db))"

lemma spares_serial: "spares r e db \<Longrightarrow> serial e db"
  by (cases e) (simp_all add: spares_def serial_def)

lemma insert_batch_keeps: "insertRecipientBatch client cid rows db = (db1, p, s) \<Longrightarrow> set (bd_recipients db) \<subseteq> set (bd_recipients db1)"
proof -
  have "set (bd_recipients d) \<subseteq> set (bd_recipients (fst (fold (insert_recipient client cid) rs (d, a))))" for rs d a
  proof (induction rs arbitrary: d a)
    case (Cons x rs)
    obtain d1 a1 where one: "insert_recipient client cid x (d, a) = (d1, a1)" by (metis surj_pair)
    then have "set (bd_recipients d) \<subseteq> set (bd_recipients d1)" by (auto simp: insert_recipient_def Let_def split: if_splits prod.splits)
    then show ?case using Cons.IH [of d1 a1] one by auto
  qed simp
  then show "insertRecipientBatch client cid rows db = (db1, p, s) \<Longrightarrow> set (bd_recipients db) \<subseteq> set (bd_recipients db1)"
    by (metis fst_conv insertRecipientBatch_def)
qed

lemma snapshot_keeps_recipients: "set (bd_recipients db) \<subseteq> set (bd_recipients (fst (runSnapshotBatch key n now client cid db)))"
proof (rule snapshot_cases [of key n now client cid db])
  fix rows assume r: "fst (runSnapshotBatch key n now client cid db) = fst (write_batch client cid n now rows db)"
  obtain db1 p s where i: "insertRecipientBatch client cid rows db = (db1, p, s)" by (metis prod_cases3)
  show ?thesis unfolding r write_batch_def i Let_def
    using insert_batch_keeps [OF i]
    by (simp add: completeSnapshot_def Let_def campaign_transition_def bumpSnapshotCounters_def update_counters_def advanceSnapshotCursor_def)
qed (simp_all add: failSnapshotForLimit_def completeSnapshot_def Let_def campaign_transition_def)

lemma expansion_keeps_queued:
  assumes inv: "recipients_ok db" "counters_ok db" and read: "expansion_read locked hold n client cid db = Inr batch"
    and r: "r \<in> set (bd_recipients db)" "rc_status r = Rc_queued"
  shows "r \<in> set (bd_recipients (fst (expansion_write sha fresh now batch db)))"
proof -
  obtain c epoch rows where b: "batch = (c, epoch, rows)" by (metis prod_cases3)
  note rd = expansion_readD [OF read [unfolded b]]
  have other: "rc_id x \<noteq> rc_id r" if "x \<in> set rows" for x
  proof
    assume "rc_id x = rc_id r"
    moreover have "x \<in> set (bd_recipients db)" "rc_status x = Rc_pending" using that readExpansionBatch_in rd by metis+
    ultimately show False using same_id_same_row [OF recipients_okD(1) [OF inv(1)] _ r(1)] r(2) by fastforce
  qed
  show ?thesis
  proof (cases "rows = []")
    case True
    then show ?thesis using r by (simp add: expansion_write_def b completeExpansion_def campaign_transition_def Let_def)
  next
    case False
    define good where "good = filter (renders (cp_body c)) rows"
    define bad where "bad = filter (\<lambda>r. \<not> renders (cp_body c) r) rows"
    define db1 where "db1 = markRenderFailed (cp_client c) (cp_id c) (map rc_id bad) db"
    define as where "as = alloc_rows sha (cp_id c) (cp_body c) (bd_next_job db1) good fresh"
    note D = expansion_write_def b Let_def False if_False prod.case good_def [symmetric] bad_def [symmetric] db1_def [symmetric] as_def [symmetric]
    have r1: "r \<in> set (bd_recipients db1)"
      unfolding db1_def markRenderFailed_def using r(1) other by (force simp: bad_def intro!: update_where_keeps)
    have "al_recipient a \<noteq> rc_id r" if "a \<in> set as" for a
      using alloc_rows_in [of a sha "cp_id c" "cp_body c" "bd_next_job db1" good fresh] that other by (force simp: as_def good_def)
    then have "find (\<lambda>a. al_recipient a = rc_id r) as = None" by (auto simp: find_None_iff)
    then have "stamp_queued c res as r = r" for res by (simp add: stamp_queued_def)
    then have s: "r \<in> stamp_queued c res as ` set (bd_recipients db1)" for res using r1 by (metis imageI)
    show ?thesis
    proof (cases "runExpandBatchStatement c epoch as db1")
      case (Inl e)
      then show ?thesis using r by (simp add: D)
    next
      case (Inr res)
      obtain db2 k l where res: "res = (db2, k, l)" by (metis prod_cases3)
      have "r \<in> set (bd_recipients db2)" using Inr res s by (auto simp: runExpandBatchStatement_def Let_def split: if_splits)
      then show ?thesis by (simp add: D Inr res bumpExpansionCounters_def update_counters_def advanceExpansionCursor_def)
    qed
  qed
qed

lemma mutateOne_recipients: "bd_recipients (fst (mutateOne client cid froms to action extra now db)) = bd_recipients db"
  by (simp add: mutateOne_def campaign_transition_def audit_def Let_def split: option.split)

lemma funnel_recipients: "bd_recipients (fst (recomputeCampaignFunnel client cid now db)) = bd_recipients db"
  by (rule funnel_cases [of client cid now db]) (simp_all add: completeIfDrained_def campaign_transition_def split: option.split)

lemma create_recipients: "bd_recipients (fst (createBroadcast actor i new now db)) = bd_recipients db"
  by (simp add: createBroadcast_def createCampaign_def audit_def Let_def split: option.split prod.split audience.split)

lemma queued_stays:
  assumes inv: "recipients_ok db" "counters_ok db" and r: "r \<in> set (bd_recipients db)" "rc_status r = Rc_queued" and e: "spares r e db"
  shows "r \<in> set (bd_recipients (broadcast_step sha e db))"
proof (cases e)
  case (B_resume actor client cid now)
  then show ?thesis using r by (simp add: resumeBroadcast_def mutateOne_recipients split: option.split sum.split)
next
  case (B_snapshot key n now client cid)
  then show ?thesis using subsetD [OF snapshot_keeps_recipients r(1)] by simp
next
  case (B_expand fresh hold n now client cid)
  then show ?thesis using r expansion_keeps_queued [OF inv _ r] by (simp split: sum.split)
next
  case (B_late_write fresh now batch)
  then show ?thesis using e by (simp add: spares_def serial_def)
next
  case (B_cancel_recipients client cid n)
  define batch where "batch = open_batch client cid n db"
  have "rc_id r \<notin> rc_id ` set batch"
  proof
    assume "rc_id r \<in> rc_id ` set batch"
    then have "open_recipient client cid r"
      using batch_rows [OF inv(1) _ r(1), of batch] open_batch_in unfolding batch_def by blast
    then show False using e B_cancel_recipients by (simp add: spares_def open_recipient_def)
  qed
  then have "r \<in> set (update_where (\<lambda>r. rc_id r \<in> rc_id ` set batch) (\<lambda>r. r\<lparr>rc_status := Rc_cancelled\<rparr>) (bd_recipients db))"
    using r(1) by (intro update_where_keeps)
  then show ?thesis using B_cancel_recipients r
    by (simp add: cancel_recipient_batch_def stampRecipientBatch_def Let_def batch_def adjustCountersForCancel_def update_counters_def)
qed (use r e in \<open>simp_all add: startBroadcast_def pauseBroadcast_def cancelBroadcastInTx_def mutateOne_recipients funnel_recipients
    create_recipients cancel_job_batch_def Let_def write_job_status_def stampCampaignRecipientSent_def stampCampaignRecipientReceipt_def
    spares_def update_where_keeps\<close>)

definition finished :: "broadcast_db \<Rightarrow> (string \<times> string) set" where
  "finished db = {(cp_client c, cp_id c) |c. c \<in> set (bd_campaigns db) \<and> cp_status c = Camp_completed}"

lemma finished_transition:
  assumes "to \<noteq> Camp_completed" "\<And>c. cp_id (extra c) = cp_id c \<and> cp_client (extra c) = cp_client c"
  shows "finished (fst (campaign_transition client cid froms to extra now db)) \<subseteq> finished db"
  using assms by (auto simp: finished_def campaign_transition_def set_update_where)

lemma finished_mutateOne:
  assumes "to \<noteq> Camp_completed" "\<And>c. cp_id (extra c) = cp_id c \<and> cp_client (extra c) = cp_client c"
  shows "finished (fst (mutateOne client cid froms to action extra now db)) \<subseteq> finished db"
proof -
  have "bd_campaigns (fst (mutateOne client cid froms to action extra now db)) = bd_campaigns db \<or>
      bd_campaigns (fst (mutateOne client cid froms to action extra now db)) = bd_campaigns (fst (campaign_transition client cid froms to extra now db))"
    by (auto simp: mutateOne_def audit_def Let_def split: option.split prod.splits)
  moreover have "finished d = finished d'" if "bd_campaigns d = bd_campaigns d'" for d d' using that by (simp add: finished_def)
  ultimately show ?thesis using finished_transition [OF assms] by blast
qed

lemma finished_snapshot: "finished (fst (runSnapshotBatch key n now client cid db)) \<subseteq> finished db"
proof (rule snapshot_cases [of key n now client cid db])
  fix rows assume r: "fst (runSnapshotBatch key n now client cid db) = fst (write_batch client cid n now rows db)"
  obtain db1 p s where i: "insertRecipientBatch client cid rows db = (db1, p, s)" by (metis prod_cases3)
  define db2 where "db2 l = bumpSnapshotCounters client cid p s (advanceSnapshotCursor client cid l db1)" for l
  have f: "finished (db2 l) \<subseteq> finished db" for l
    using insert_batch_campaigns [OF i]
    by (auto simp: db2_def finished_def bumpSnapshotCounters_def update_counters_def advanceSnapshotCursor_def set_update_where)
  have "finished (fst (completeSnapshot client cid now (db2 l))) \<subseteq> finished (db2 l)" for l
    unfolding completeSnapshot_def Let_def fst_conv by (rule finished_transition) simp_all
  then have "finished (fst (completeSnapshot client cid now (db2 l))) \<subseteq> finished db" for l using f by blast
  then show ?thesis unfolding r write_batch_def i Let_def using f by (auto simp: db2_def case_prod_beta)
next
  fix reason assume "fst (runSnapshotBatch key n now client cid db) = failSnapshotForLimit client cid reason now db"
  then show ?thesis unfolding failSnapshotForLimit_def using finished_transition by simp
next
  assume "fst (runSnapshotBatch key n now client cid db) = fst (completeSnapshot client cid now db)"
  then show ?thesis unfolding completeSnapshot_def Let_def using finished_transition by simp
qed simp

lemma finished_expansion: "finished (fst (expansion_write sha fresh now batch db)) \<subseteq> finished db"
proof -
  obtain c epoch rows where b: "batch = (c, epoch, rows)" by (metis prod_cases3)
  have "finished (completeExpansion client cid now db) \<subseteq> finished db" for client cid
    unfolding completeExpansion_def by (rule finished_transition) simp_all
  moreover have "finished (bumpExpansionCounters client cid s f (advanceExpansionCursor client cid l now db2)) \<subseteq> finished db"
    if "bd_campaigns db2 = bd_campaigns db" for client cid s f l db2
    using that by (auto simp: finished_def bumpExpansionCounters_def update_counters_def advanceExpansionCursor_def set_update_where)
  moreover have "bd_campaigns db2 = bd_campaigns db1" if "runExpandBatchStatement c epoch as db1 = Ok (db2, k, l)" for as db1 db2 k l
    using that by (auto simp: runExpandBatchStatement_def Let_def split: if_splits)
  ultimately show ?thesis by (simp add: expansion_write_def b Let_def split: sum.split)
qed

lemma finished_funnel:
  assumes "(k, i) \<in> finished (fst (recomputeCampaignFunnel client cid now db))" "(k, i) \<notin> finished db"
  shows "client = k \<and> cid = i \<and> \<not> list_ex (open_recipient k i) (bd_recipients db)"
proof (rule funnel_cases [of client cid now db])
  fix m
  let ?d = "db\<lparr>bd_counters := (bd_counters db)(cid \<mapsto> recountRecipients client cid db)\<rparr>"
  assume f: "fst (recomputeCampaignFunnel client cid now db) = (fst (completeIfDrained client cid now ?d))\<lparr>bd_progress := m\<rparr>"
  have "finished (d\<lparr>bd_progress := m\<rparr>) = finished d" "finished ?d = finished db" for d by (simp_all add: finished_def)
  then have in_d: "(k, i) \<in> finished (fst (completeIfDrained client cid now ?d))" "(k, i) \<notin> finished ?d" using assms f by simp_all
  then have o: "\<not> list_ex (open_recipient client cid) (bd_recipients db)" "fst (completeIfDrained client cid now ?d) =
      fst (campaign_transition client cid [Camp_running] Camp_completed id now ?d)"
    by (auto simp: completeIfDrained_def split: option.splits if_splits)
  moreover have "k = client \<and> i = cid" using in_d unfolding o(2)
    by (auto simp: finished_def campaign_transition_def set_update_where hits_def split: if_splits)
  ultimately show ?thesis by simp
qed (use assms in simp)

lemma finished_step:
  assumes "(k, i) \<in> finished (broadcast_step sha e db)" "(k, i) \<notin> finished db"
  shows "\<not> list_ex (open_recipient k i) (bd_recipients db)"
proof (cases e)
  case (B_funnel client cid now)
  then show ?thesis using finished_funnel assms by fastforce
next
  case (B_create actor j new now)
  have "finished (fst (createBroadcast actor j new now db)) \<subseteq> finished db"
    by (auto simp: finished_def createBroadcast_def createCampaign_def audit_def Let_def draft_row_def split: option.splits prod.splits audience.splits)
  then show ?thesis using B_create assms by auto
next
  case (B_start actor client cid now)
  have "finished (fst (mutateOne client cid froms Camp_snapshotting a id now db)) \<subseteq> finished db" for froms a
    by (rule finished_mutateOne) simp_all
  then show ?thesis using B_start assms by (auto simp: startBroadcast_def split: if_splits)
next
  case (B_pause actor client cid now)
  have "finished (fst (mutateOne client cid froms Camp_paused a (\<lambda>c. c\<lparr>cp_paused_by := x\<rparr>) now db)) \<subseteq> finished db" for froms a x
    by (rule finished_mutateOne) simp_all
  then show ?thesis using B_pause assms by (auto simp: pauseBroadcast_def split: if_splits)
next
  case (B_resume actor client cid now)
  have "to \<noteq> Camp_completed" if "nextCampaignState Camp_paused Ev_resume ctx = Inr to" for ctx to
    using that by (auto simp: campaign_step_Ok)
  then have "finished (fst (mutateOne client cid froms to a id now db)) \<subseteq> finished db"
    if "nextCampaignState Camp_paused Ev_resume ctx = Inr to" for froms a ctx to
    using that by (intro finished_mutateOne) auto
  then have "finished (fst (resumeBroadcast actor client cid now db)) \<subseteq> finished db"
    by (simp add: resumeBroadcast_def split: option.split sum.split)
  then show ?thesis using B_resume assms by auto
next
  case (B_cancel actor client cid reason now)
  have "finished (fst (mutateOne client cid froms Camp_cancelled a (\<lambda>c. c\<lparr>cp_cancel_reason := x\<rparr>) now db)) \<subseteq> finished db" for froms a x
    by (rule finished_mutateOne) simp_all
  then show ?thesis using B_cancel assms by (auto simp: cancelBroadcastInTx_def split: if_splits)
next
  case (B_snapshot key n now client cid)
  then show ?thesis using assms finished_snapshot [of key n now client cid db] by auto
next
  case (B_expand fresh hold n now client cid)
  then show ?thesis using assms subsetD [OF finished_expansion] by (auto split: sum.splits)
next
  case (B_late_write fresh now batch)
  then show ?thesis using assms subsetD [OF finished_expansion] by auto
qed (use assms in \<open>auto simp: finished_def cancel_recipient_batch_def stampRecipientBatch_def adjustCountersForCancel_def update_counters_def
    Let_def cancel_job_batch_def stampCampaignRecipientSent_def stampCampaignRecipientReceipt_def write_job_status_def split: if_splits\<close>)

definition completed_for :: "recipient \<Rightarrow> campaign_row \<Rightarrow> bool" where
  "completed_for r c \<longleftrightarrow> cp_id c = rc_campaign r \<and> cp_client c = rc_client r \<and> cp_status c = Camp_completed"

text \<open>
  C36. A queued recipient leaves its bucket only by the stamp of its own send or receipt or by the bookkeeping of a cancel of
  its campaign. Whatever else happens, and in particular whatever is written to its job (failed, expired, blocked,
  cancelled), it stays queued, and so long its campaign does not become completed: one failed send keeps it open for good.
\<close>

theorem failed_send_blocks_completion:
  assumes "broadcast_reach sha db" "r \<in> set (bd_recipients db)" "rc_status r = Rc_queued" "spared sha r es db"
    and "\<not> list_ex (completed_for r) (bd_campaigns db)"
  shows "r \<in> set (bd_recipients (broadcast_run sha es db)) \<and>
    \<not> list_ex (completed_for r) (bd_campaigns (broadcast_run sha es db))"
proof -
  have "r \<in> set (bd_recipients (broadcast_run sha es db)) \<and>
      ((rc_client r, rc_campaign r) \<in> finished (broadcast_run sha es db) \<longrightarrow> (rc_client r, rc_campaign r) \<in> finished db)"
    using assms(1-4)
  proof (induction es arbitrary: db)
    case (Cons e es)
    have inv: "recipients_ok db" "counters_ok db" using reach_inv Cons.prems(1) by auto
    have e: "spares r e db" using Cons.prems(4) by simp
    have r: "r \<in> set (bd_recipients (broadcast_step sha e db))" using queued_stays [OF inv Cons.prems(2,3) e] .
    have re: "broadcast_reach sha (broadcast_step sha e db)" using broadcast_reach.step [OF Cons.prems(1) spares_serial [OF e]] .
    have "list_ex (open_recipient (rc_client r) (rc_campaign r)) (bd_recipients db)"
      using Cons.prems(2,3) by (auto simp: list_ex_iff open_recipient_def)
    then have "(rc_client r, rc_campaign r) \<in> finished (broadcast_step sha e db) \<Longrightarrow> (rc_client r, rc_campaign r) \<in> finished db"
      using finished_step by blast
    then show ?case using Cons.IH [OF re r Cons.prems(3)] Cons.prems(4) by simp
  qed simp
  moreover have "list_ex (completed_for r) (bd_campaigns d) \<longleftrightarrow> (rc_client r, rc_campaign r) \<in> finished d" for d
    by (auto simp: finished_def list_ex_iff completed_for_def) (metis)
  ultimately show ?thesis using assms(5) by auto
qed

text \<open>In the example the one job fails and the funnel is recounted: the recipient stays queued, the campaign running.\<close>

definition example_queued :: recipient where
  "example_queued = hd (bd_recipients (example_run 4))"

definition example_failure :: "broadcast_event list" where
  "example_failure = [B_expand [] 5000 10 5 ''k'' ''c'', B_job 1 Job_failed, B_funnel ''k'' ''c'' 6]"

theorem failed_send_blocks_completion_witness:
  "example_queued \<in> set (bd_recipients (broadcast_run (\<lambda>x. x) example_failure (example_run 4))) \<and>
    \<not> list_ex (completed_for example_queued) (bd_campaigns (broadcast_run (\<lambda>x. x) example_failure (example_run 4)))"
proof (rule failed_send_blocks_completion [OF example_reach])
  have "bd_recipients (example_run 4) \<noteq> []" by code_simp
  then show "example_queued \<in> set (bd_recipients (example_run 4))" by (simp add: example_queued_def)
  show "rc_status example_queued = Rc_queued" by code_simp
  show "spared (\<lambda>x. x) example_queued example_failure (example_run 4)" by code_simp
  show "\<not> list_ex (completed_for example_queued) (bd_campaigns (example_run 4))" by code_simp
qed

section \<open>The rate of the expansion budget\<close>

fun take_all :: "(real \<times> int) list \<Rightarrow> expansion_budget \<Rightarrow> expansion_budget \<times> real" where
  "take_all [] b = (b, 0)"
| "take_all ((k, now) # rest) b =
    (let (b1, taken) = tryTake k now b; (b2, s) = take_all rest b1 in (b2, (if taken then k else 0) + s))"

definition budget_ok :: "real \<Rightarrow> real \<Rightarrow> expansion_budget \<Rightarrow> bool" where
  "budget_ok rate burst b \<longleftrightarrow> eb_rate b = rate \<and> eb_burst b = burst \<and> 0 \<le> eb_tokens b \<and> eb_tokens b \<le> burst"

lemma tryTake_ok:
  assumes "budget_ok rate burst b" "0 \<le> rate" "0 \<le> k" "now \<le> horizon" "eb_last b \<le> horizon" "tryTake k now b = (b1, taken)"
  shows "budget_ok rate burst b1 \<and> eb_last b1 \<le> horizon \<and>
    (if taken then k else 0) + eb_tokens b1 + rate * real_of_int (horizon - eb_last b1) / 1000 \<le>
      eb_tokens b + rate * real_of_int (horizon - eb_last b) / 1000"
proof -
  let ?b = "refill now b"
  have r: "budget_ok rate burst ?b" "eb_last ?b \<le> horizon"
    "eb_tokens ?b + rate * real_of_int (horizon - eb_last ?b) / 1000 \<le> eb_tokens b + rate * real_of_int (horizon - eb_last b) / 1000"
  proof -
    have "0 \<le> real_of_int (now - eb_last b) / 1000 * rate" if "eb_last b < now" using that assms(2) by simp
    then show "budget_ok rate burst ?b" using assms(1) by (auto simp: refill_def budget_ok_def Let_def)
    show "eb_last ?b \<le> horizon" using assms(4,5) by (simp add: refill_def Let_def)
    show "eb_tokens ?b + rate * real_of_int (horizon - eb_last ?b) / 1000 \<le> eb_tokens b + rate * real_of_int (horizon - eb_last b) / 1000"
    proof (cases "now - eb_last b \<le> 0")
      case False
      have "eb_tokens ?b \<le> eb_tokens b + real_of_int (now - eb_last b) / 1000 * rate" "eb_last ?b = now"
        using False assms(1) by (simp_all add: refill_def Let_def budget_ok_def)
      then show ?thesis by (simp add: algebra_simps diff_divide_distrib)
    qed (simp add: refill_def)
  qed
  then show ?thesis using assms(3,6) by (auto simp: tryTake_def Let_def budget_ok_def split: if_splits)
qed

text \<open>
  The budget of the expansion is a token bucket: whatever is asked for and however the clock jumps, the tokens
  granted until \<open>horizon\<close> are at most the burst plus the rate times the time since it was created.
\<close>

theorem expansion_rate_bounded:
  assumes "0 \<le> rate" "0 \<le> burst" "start \<le> horizon" "list_all (\<lambda>(k, now). 0 \<le> k \<and> now \<le> horizon) asks"
  shows "snd (take_all asks (createExpansionBudget rate burst start)) \<le> burst + rate * real_of_int (horizon - start) / 1000"
proof -
  have gen: "snd (take_all asks b) \<le> eb_tokens b + rate * real_of_int (horizon - eb_last b) / 1000"
    if "budget_ok rate burst b" "eb_last b \<le> horizon" for b
    using that assms(4)
  proof (induction asks arbitrary: b)
    case Nil
    then show ?case using assms(1) by (simp add: budget_ok_def)
  next
    case (Cons a asks)
    obtain k now where a: "a = (k, now)" by fastforce
    obtain b1 t where t: "tryTake k now b = (b1, t)" by fastforce
    have "0 \<le> k" "now \<le> horizon" using Cons.prems(3) a by simp_all
    note ok = tryTake_ok [OF Cons.prems(1) assms(1) this Cons.prems(2) t]
    have "snd (take_all asks b1) \<le> eb_tokens b1 + rate * real_of_int (horizon - eb_last b1) / 1000"
      using Cons.IH [of b1] Cons.prems(3) ok by simp
    then show ?case using ok by (simp add: a t case_prod_beta)
  qed
  have "budget_ok rate burst (createExpansionBudget rate burst start)" using assms(2) by (simp add: budget_ok_def createExpansionBudget_def)
  from gen [OF this] show ?thesis using assms(3) by (simp add: createExpansionBudget_def)
qed

theorem expansion_rate_bounded_witness:
  "snd (take_all [(500, 10), (500, 5), (500, 11)] (createExpansionBudget 5000 1000 0)) \<le> 1000 + 5000 * real_of_int (20 - 0) / 1000"
  by (rule expansion_rate_bounded) simp_all

end
