(* ===== verification/Broadcast_Cancel.thy ===== *)
theory Broadcast_Cancel
  imports Broadcast_Reach
begin

text \<open>
  The bookkeeping of a cancelled campaign: its two loops of batches end, and together they do what one unbounded update
  of the recipients and one of the jobs would do, whatever the batch size.
\<close>

section \<open>Loops of batches\<close>

text \<open>
  A step on \<open>m x\<close> open rows closes \<open>min n (m x)\<close> of them and keeps \<open>f\<close>, the state that closing all of them would give.
\<close>

lemma batch_loop_closes:
  assumes n: "0 < n" and P: "P x"
    and step: "\<And>x y k. P x \<Longrightarrow> step x = (y, k) \<Longrightarrow> P y \<and> k = min n (m x) \<and> m y + k = m x \<and> f y = f x"
  shows "\<exists>y. batch_loop step n x s = Some (y, s + m x) \<and> P y \<and> m y = 0 \<and> f y = f x"
  using P
proof (induction "m x" arbitrary: x s rule: less_induct)
  case less
  obtain y k where y: "step x = (y, k)" by fastforce
  note st = step [OF less.prems y]
  show ?case
  proof (cases "k < n")
    case True
    then have "m x = k" using st by linarith
    then show ?thesis using True y st by (subst batch_loop.simps) auto
  next
    case False
    then have "m y < m x" using n st by linarith
    from less.hyps [OF this, of "s + k"] st obtain z where
      "batch_loop step n y (s + k) = Some (z, s + k + m y)" "P z" "m z = 0" "f z = f x" by auto
    then show ?thesis using False y st by (subst batch_loop.simps) auto
  qed
qed

text \<open>One batch: \<open>g\<close> closes the first rows, in some order, of those that are open.\<close>

lemma batch_update:
  assumes d: "distinct (map key rows)" and batch: "batch = take n (sort_key key (filter op rows))" and g: "\<And>r. \<not> op (g r)"
    and new: "rows' = update_where (\<lambda>r. key r \<in> key ` set batch) g rows"
  shows "update_where op g rows' = update_where op g rows" "length batch = min n (length (filter op rows))"
    "length (filter op rows') + length batch = length (filter op rows)"
proof -
  have sub: "set batch \<subseteq> set (filter op rows)" using set_take_subset [of n "sort_key key (filter op rows)"] by (simp add: batch)
  have db: "distinct batch" using d by (simp add: batch distinct_map)
  have hit: "op r" if "r \<in> set rows" "key r \<in> key ` set batch" for r
  proof -
    from that(2) obtain b where b: "b \<in> set batch" "key b = key r" by auto
    then have "r = b" using same_id_same_row [OF d that(1), of b] sub by auto
    then show ?thesis using b sub by auto
  qed
  show "update_where op g rows' = update_where op g rows" unfolding new update_where_def using g hit by auto
  show "length batch = min n (length (filter op rows))" by (simp add: batch)
  have "count_if op rows' = count_if (\<lambda>r. op r \<and> \<not> key r \<in> key ` set batch) rows"
    unfolding new update_where_def count_if_map by (rule count_if_cong) (use g in auto)
  moreover have "count_if (\<lambda>r. op r \<and> key r \<in> key ` set batch) rows = count_if (\<lambda>r. key r \<in> key ` set batch) rows"
    by (rule count_if_cong) (use hit in auto)
  moreover have "count_if (\<lambda>r. key r \<in> key ` set batch) rows = int (length batch)"
    by (rule count_if_keys [OF d _ db]) (use sub in auto)
  ultimately have "count_if op rows' + int (length batch) = count_if op rows"
    using count_if_split [of op rows "\<lambda>r. key r \<in> key ` set batch"] by linarith
  then show "length (filter op rows') + length batch = length (filter op rows)" by (simp add: count_if_def)
qed

lemma length_filter_split: "length (filter p xs) + length (filter (\<lambda>x. \<not> p x) xs) = length xs"
  by (induction xs) auto

section \<open>The bookkeeping\<close>

definition cancel_row :: "recipient \<Rightarrow> recipient" where
  "cancel_row r = r\<lparr>rc_status := Rc_cancelled\<rparr>"

definition cancel_job :: "campaign_job \<Rightarrow> campaign_job" where
  "cancel_job j = j\<lparr>cj_status := Job_cancelled, cj_cancel_reason := Some ''campaign_cancelled''\<rparr>"

lemma cancel_rows: "(\<lambda>r. r\<lparr>rc_status := Rc_cancelled\<rparr>) = cancel_row"
  "(\<lambda>j. j\<lparr>cj_status := Job_cancelled, cj_cancel_reason := Some ''campaign_cancelled''\<rparr>) = cancel_job"
  by (simp_all add: fun_eq_iff cancel_row_def cancel_job_def)

text \<open>What a recipient batch leaves alone.\<close>

definition apart :: "broadcast_db \<Rightarrow> campaign_row list \<times> campaign_job list" where
  "apart db = (bd_campaigns db, bd_jobs db)"

lemma recipient_batch_step:
  assumes d: "distinct (map rc_id (bd_recipients db))" and step: "cancel_recipient_batch client cid n db = (db', k)"
  shows "distinct (map rc_id (bd_recipients db')) \<and> k = min n (length (filter (open_recipient client cid) (bd_recipients db))) \<and>
    length (filter (open_recipient client cid) (bd_recipients db')) + k = length (filter (open_recipient client cid) (bd_recipients db)) \<and>
    (update_where (open_recipient client cid) cancel_row (bd_recipients db'), apart db') =
    (update_where (open_recipient client cid) cancel_row (bd_recipients db), apart db)"
proof (cases "list_ex (open_recipient client cid) (bd_recipients db)")
  case False
  then have "filter (open_recipient client cid) (bd_recipients db) = []" by (simp add: list_ex_iff filter_empty_conv)
  then show ?thesis using False step d by (simp add: cancel_recipient_batch_def)
next
  case True
  define batch where "batch = open_batch client cid n db"
  have db': "bd_recipients db' = update_where (\<lambda>r. rc_id r \<in> rc_id ` set batch) cancel_row (bd_recipients db)" "apart db' = apart db"
    and k: "k = length (filter (\<lambda>r. rc_status r = Rc_pending) batch) + length (filter (\<lambda>r. \<not> rc_status r = Rc_pending) batch)"
    using True step by (auto simp: cancel_recipient_batch_def stampRecipientBatch_def adjustCountersForCancel_def update_counters_def
        Let_def batch_def [symmetric] cancel_rows apart_def nat_add_distrib)
  have "\<not> open_recipient client cid (cancel_row r)" for r by (simp add: open_recipient_def cancel_row_def)
  note u = batch_update [OF d batch_def [unfolded open_batch_def] this db'(1)]
  have "map rc_id (bd_recipients db') = map rc_id (bd_recipients db)" by (simp add: db' update_where_def cancel_row_def)
  then show ?thesis using d u db'(2) k length_filter_split [of "\<lambda>r. rc_status r = Rc_pending" batch] by simp
qed

lemma job_batch_step:
  assumes d: "distinct (map cj_id (bd_jobs db))" and step: "cancel_job_batch client inst cid n db = (db', k)"
  shows "distinct (map cj_id (bd_jobs db')) \<and> k = min n (length (filter (queued_job client inst cid) (bd_jobs db))) \<and>
    length (filter (queued_job client inst cid) (bd_jobs db')) + k = length (filter (queued_job client inst cid) (bd_jobs db)) \<and>
    db'\<lparr>bd_jobs := update_where (queued_job client inst cid) cancel_job (bd_jobs db')\<rparr> =
    db\<lparr>bd_jobs := update_where (queued_job client inst cid) cancel_job (bd_jobs db)\<rparr>"
proof -
  define batch where "batch = take n (sort_key cj_id (filter (queued_job client inst cid) (bd_jobs db)))"
  define jobs where "jobs = update_where (\<lambda>j. cj_id j \<in> cj_id ` set batch) cancel_job (bd_jobs db)"
  have db': "db' = db\<lparr>bd_jobs := jobs\<rparr>" and k: "k = length batch"
    using step by (auto simp: cancel_job_batch_def Let_def cancel_rows batch_def [symmetric] jobs_def [symmetric] simp del: length_take)
  have "\<not> queued_job client inst cid (cancel_job j)" for j by (simp add: queued_job_def cancel_job_def)
  note u = batch_update [OF d batch_def this jobs_def]
  have "map cj_id jobs = map cj_id (bd_jobs db)" by (simp add: jobs_def update_where_def cancel_job_def)
  then show ?thesis using d u k by (simp add: db')
qed

text \<open>
  C24. The bookkeeping of a cancel ends for every batch size but 0, and does what two unbounded updates would: every pending or
  queued recipient of the campaign becomes cancelled, every queued job of it on its instance becomes cancelled, no other
  recipient, job or campaign changes. It reports how many there were, and a second run finds nothing to do.
\<close>

theorem cancel_bookkeeping_closes:
  assumes "broadcast_reach sha db" "0 < n" "readCampaign client cid db = Some c"
  shows "\<exists>db'. runCancelBookkeepingBatch n client cid db =
      Some (db', length (filter (open_recipient client cid) (bd_recipients db)),
                 length (filter (queued_job client (cp_instance c) cid) (bd_jobs db))) \<and>
    bd_recipients db' = map (\<lambda>r. if open_recipient client cid r then r\<lparr>rc_status := Rc_cancelled\<rparr> else r) (bd_recipients db) \<and>
    bd_jobs db' = map (\<lambda>j. if queued_job client (cp_instance c) cid j
      then j\<lparr>cj_status := Job_cancelled, cj_cancel_reason := Some ''campaign_cancelled''\<rparr> else j) (bd_jobs db) \<and>
    bd_campaigns db' = bd_campaigns db \<and> runCancelBookkeepingBatch n client cid db' = Some (db', 0, 0)"
proof -
  let ?op = "open_recipient client cid" and ?qj = "queued_job client (cp_instance c) cid"
  have "distinct (map rc_id (bd_recipients db))" using reach_inv [OF assms(1)] recipients_okD(1) by blast
  from batch_loop_closes [of n "\<lambda>d. distinct (map rc_id (bd_recipients d))" db "cancel_recipient_batch client cid n"
      "\<lambda>d. length (filter ?op (bd_recipients d))" "\<lambda>d. (update_where ?op cancel_row (bd_recipients d), apart d)" 0,
      OF assms(2) this recipient_batch_step]
  obtain d1 where l1: "batch_loop (cancel_recipient_batch client cid n) n db 0 = Some (d1, length (filter ?op (bd_recipients db)))"
    and o1: "length (filter ?op (bd_recipients d1)) = 0"
    and d1: "update_where ?op cancel_row (bd_recipients d1) = update_where ?op cancel_row (bd_recipients db)"
      "bd_jobs d1 = bd_jobs db" "bd_campaigns d1 = bd_campaigns db" by (auto simp: apart_def)
  have "distinct (map cj_id (bd_jobs d1))" unfolding d1 using reach_jobs [OF assms(1)] jobs_okD(2) by blast
  from batch_loop_closes [of n "\<lambda>d. distinct (map cj_id (bd_jobs d))" d1 "cancel_job_batch client (cp_instance c) cid n"
      "\<lambda>d. length (filter ?qj (bd_jobs d))" "\<lambda>d. d\<lparr>bd_jobs := update_where ?qj cancel_job (bd_jobs d)\<rparr>" 0,
      OF assms(2) this job_batch_step]
  obtain d2 where l2: "batch_loop (cancel_job_batch client (cp_instance c) cid n) n d1 0 = Some (d2, length (filter ?qj (bd_jobs db)))"
    and o2: "length (filter ?qj (bd_jobs d2)) = 0"
    and e2: "d2\<lparr>bd_jobs := update_where ?qj cancel_job (bd_jobs d2)\<rparr> = d1\<lparr>bd_jobs := update_where ?qj cancel_job (bd_jobs d1)\<rparr>"
    by (auto simp: d1)
  have closed: "update_where p f xs = xs" if "length (filter p xs) = 0" for p f and xs :: "'b list"
    using that by (induction xs) (auto split: if_splits)
  have d2: "d2 = d1\<lparr>bd_jobs := update_where ?qj cancel_job (bd_jobs db)\<rparr>" using e2 closed [OF o2] d1 by simp
  have r2: "bd_recipients d2 = update_where ?op cancel_row (bd_recipients db)" using d2 closed [OF o1] d1(1) by simp
  have run: "runCancelBookkeepingBatch n client cid db =
      Some (d2, length (filter ?op (bd_recipients db)), length (filter ?qj (bd_jobs db)))"
    using l1 l2 assms(3) d1 by (simp add: runCancelBookkeepingBatch_def readCampaign_def)
  have "\<not> list_ex ?op (bd_recipients d2)" using o1 d2 by (simp add: filter_empty_conv list_ex_iff)
  then have "cancel_recipient_batch client cid n d2 = (d2, 0)" by (simp add: cancel_recipient_batch_def)
  then have i1: "batch_loop (cancel_recipient_batch client cid n) n d2 0 = Some (d2, 0)" using assms(2) by (subst batch_loop.simps) simp
  have "filter ?qj (bd_jobs d2) = []" using o2 by simp
  then have "cancel_job_batch client (cp_instance c) cid n d2 = (d2, 0)"
    unfolding cancel_job_batch_def by (simp add: Let_def update_where_def)
  then have i2: "batch_loop (cancel_job_batch client (cp_instance c) cid n) n d2 0 = Some (d2, 0)" using assms(2) by (subst batch_loop.simps) simp
  have "runCancelBookkeepingBatch n client cid d2 = Some (d2, 0, 0)"
    using i1 i2 assms(3) d1 d2 by (simp add: runCancelBookkeepingBatch_def readCampaign_def)
  then show ?thesis using run r2 d2 d1 by (auto simp: update_where_def cancel_row_def cancel_job_def cong: map_cong)
qed

text \<open>The example, in batches of one.\<close>

theorem cancel_bookkeeping_closes_witness:
  "map rc_status (bd_recipients (fst (the (runCancelBookkeepingBatch 1 (cp_client example_campaign) (cp_id example_campaign) (example_run 4))))) =
    [Rc_cancelled, Rc_skipped]"
proof -
  have d: "distinct (map cp_id (bd_campaigns (example_run 4)))" by code_simp
  have "find (\<lambda>x. cp_id x = cp_id example_campaign \<and> cp_client x = cp_client example_campaign) (bd_campaigns (example_run 4)) \<noteq> None"
    using example_campaign by (auto simp: find_None_iff)
  then obtain c where c: "readCampaign (cp_client example_campaign) (cp_id example_campaign) (example_run 4) = Some c"
    by (auto simp: readCampaign_def)
  have "map (\<lambda>r. rc_status (if open_recipient (cp_client example_campaign) (cp_id example_campaign) r then r\<lparr>rc_status := Rc_cancelled\<rparr> else r))
      (bd_recipients (example_run 4)) = [Rc_cancelled, Rc_skipped]" by code_simp
  with cancel_bookkeeping_closes [OF example_reach _ c, of 1] show ?thesis by (auto simp: comp_def)
qed

end
