(* ===== verification/Preflight.thy ===== *)
theory Preflight
  imports Broadcast_Snapshot Wallet
begin

text \<open>
  The pre-flight quote of a broadcast: the walk of the audience that the snapshot will make, the recipients the frequency
  limits would defer, the price, the wallet and the estimate of days, and the proof that the quote and the snapshot count
  the same people.
\<close>

section \<open>What the quote reads (preflight.repo.ts, broadcast-preflight.sql)\<close>

record preflight_thresholds =
  pt_label :: string
  pt_warmupTier :: int
  pt_effDailyCap :: int
  pt_dupFanoutWarn :: int
  pt_dupFanoutAck :: int
  pt_perRecipient24h :: int
  pt_perRecipient7d :: int

text \<open>A row of \<open>recipient_send_buckets\<close>; times are milliseconds.\<close>

record send_bucket =
  sb_client :: string
  sb_hash :: string
  sb_hour :: int
  sb_count :: int

record preflight_env =
  pe_now :: int
  pe_thresholds :: "string \<times> string \<Rightarrow> preflight_thresholds option"
  pe_sentToday :: "string \<times> string \<Rightarrow> int option"       \<comment> \<open>\<open>consumed_count\<close> of today's ledger row\<close>
  pe_groupSentToday :: "string \<times> string \<Rightarrow> int option"
  pe_participants :: "nat \<Rightarrow> int option"                  \<comment> \<open>\<open>wa_groups.participant_count\<close>\<close>
  pe_buckets :: "send_bucket list"
  pe_wallet :: wallet_db
  pe_quotes :: "string \<Rightarrow> (int \<times> price_key) option"        \<comment> \<open>\<open>quote_minor\<close> and \<open>price_key\<close> of a campaign\<close>

datatype preflight_error =
    PF_forbidden | PF_not_found | PF_not_allowed string | PF_no_instance | PF_no_plan | PF_over_limit int int
  | PF_unpriced wallet_error | PF_not_safe int int

definition DAY_MS :: int where "DAY_MS = 24 * 60 * 60 * 1000"

definition preflight_bucket_sum :: "preflight_env \<Rightarrow> int \<Rightarrow> string \<Rightarrow> string \<Rightarrow> int" where
  "preflight_bucket_sum env window client hash = sum_list (map sb_count (filter (\<lambda>b. sb_client b = client \<and> sb_hash b = hash \<and>
     pe_now env - window < sb_hour b \<and> sb_hour b \<le> pe_now env) (pe_buckets env)))"

definition is_deferred :: "preflight_env \<Rightarrow> preflight_thresholds \<Rightarrow> string \<Rightarrow> string \<Rightarrow> bool" where
  "is_deferred env t client hash \<longleftrightarrow>
     pt_perRecipient24h t \<le> preflight_bucket_sum env DAY_MS client hash \<or> pt_perRecipient7d t \<le> preflight_bucket_sum env (7 * DAY_MS) client hash"

text \<open>The hashes are grouped, so a hash that stands twice in one batch counts once.\<close>

definition countPreflightFrequencyDeferrals :: "preflight_env \<Rightarrow> preflight_thresholds \<Rightarrow> string \<Rightarrow> string list \<Rightarrow> int" where
  "countPreflightFrequencyDeferrals env t client hashes = int (length (filter (is_deferred env t client) (remdups hashes)))"

definition SNAPSHOT_BATCH_SIZE :: nat where "SNAPSHOT_BATCH_SIZE = 1000"

function countDeferralsInBatches :: "preflight_env \<Rightarrow> preflight_thresholds \<Rightarrow> string \<Rightarrow> string list \<Rightarrow> int" where
  "countDeferralsInBatches env t client hashes =
    (if hashes = [] then 0
     else countPreflightFrequencyDeferrals env t client (take SNAPSHOT_BATCH_SIZE hashes) +
       countDeferralsInBatches env t client (drop SNAPSHOT_BATCH_SIZE hashes))"
  by pat_completeness auto
termination by (relation "measure (\<lambda>(env, t, client, hashes). length hashes)") (auto simp: SNAPSHOT_BATCH_SIZE_def)

declare countDeferralsInBatches.simps [simp del]

section \<open>Arithmetic of the quote (preflight.service.ts)\<close>

record estimate =
  es_totalDays :: "int option"
  es_finishAt :: "int option"
  es_remainingToday :: int

text \<open>\<open>Math.ceil\<close> of a quotient of integers.\<close>

definition ceil_div :: "int \<Rightarrow> int \<Rightarrow> int" where
  "ceil_div a b = - ((- a) div b)"

definition computeEstimate :: "int \<Rightarrow> int \<Rightarrow> int \<Rightarrow> int \<Rightarrow> estimate" where
  "computeEstimate billable effDailyCap sentToday now =
    (let remainingToday = max (effDailyCap - sentToday) 0 in
     if billable = 0 then \<lparr>es_totalDays = Some 0, es_finishAt = Some now, es_remainingToday = remainingToday\<rparr>
     else if effDailyCap \<le> 0 then \<lparr>es_totalDays = None, es_finishAt = None, es_remainingToday = remainingToday\<rparr>
     else if billable \<le> remainingToday then \<lparr>es_totalDays = Some 1, es_finishAt = Some now, es_remainingToday = remainingToday\<rparr>
     else (let totalDays = 1 + ceil_div (billable - remainingToday) effDailyCap in
       \<lparr>es_totalDays = Some totalDays, es_finishAt = Some (now + (totalDays - 1) * DAY_MS), es_remainingToday = remainingToday\<rparr>))"

definition computeQuoteMinor :: "int \<Rightarrow> int \<Rightarrow> (preflight_error, int) result" where
  "computeQuoteMinor cnt rateMinor =
    (if \<bar>cnt * rateMinor\<bar> \<le> 2 ^ 53 - 1 then Ok (cnt * rateMinor) else Err (PF_not_safe cnt rateMinor))"

definition computeBillable :: "int \<Rightarrow> (string \<times> int) list \<Rightarrow> int \<Rightarrow> int \<times> int \<times> int" where
  "computeBillable matched skipReasons deferred =
    (let skipped = sum_list (map snd skipReasons); sendable = matched - skipped in (skipped, sendable, sendable - deferred))"

section \<open>The walk of an audience\<close>

text \<open>Both walks read keyset batches until one is not full.\<close>

partial_function (option) keyset_walk :: "('k option \<Rightarrow> 'r list) \<Rightarrow> ('r \<Rightarrow> 'k) \<Rightarrow> nat \<Rightarrow> ('r \<Rightarrow> 'a \<Rightarrow> 'a) \<Rightarrow> 'k option \<Rightarrow> 'a \<Rightarrow> 'a option" where
  "keyset_walk read key n visit cursor acc =
    (let rows = read cursor in
     if rows = [] then Some acc
     else (let acc1 = fold visit rows acc in
       if length rows < n then Some acc1 else keyset_walk read key n visit (Some (key (last rows))) acc1))"

text \<open>The counts by reason, in the order of first occurrence (a \<open>Map\<close> and \<open>skipOrder\<close>).\<close>

fun bump :: "string \<Rightarrow> (string \<times> int) list \<Rightarrow> (string \<times> int) list" where
  "bump reason [] = [(reason, 1)]"
| "bump reason ((r, k) # rest) = (if r = reason then (r, k + 1) # rest else (r, k) # bump reason rest)"

definition skip_reason :: "(string \<times> string) list \<Rightarrow> string \<Rightarrow> contact \<Rightarrow> string option" where
  "skip_reason opted body c =
    (if (co_client c, co_hash c) \<in> set opted then Some ''opted_out''
     else (case freezeVars body (freezeVarsSource c) of Inl token \<Rightarrow> Some (missingVarSkipReason token) | Inr _ \<Rightarrow> None))"

definition visit_contact :: "(string \<times> string) list \<Rightarrow> string \<Rightarrow> contact \<Rightarrow> (string \<times> int) list \<times> string list \<Rightarrow> (string \<times> int) list \<times> string list" where
  "visit_contact opted body c acc =
    (case skip_reason opted body c of None \<Rightarrow> (fst acc, snd acc @ [co_hash c]) | Some reason \<Rightarrow> (bump reason (fst acc), snd acc))"

definition walkPreflightAudience :: "string \<Rightarrow> nat list \<Rightarrow> string list \<Rightarrow> string \<Rightarrow> broadcast_db \<Rightarrow> ((string \<times> int) list \<times> string list) option" where
  "walkPreflightAudience client ids tags body db =
    keyset_walk (\<lambda>cursor. readSnapshotBatch client cursor ids tags SNAPSHOT_BATCH_SIZE db) co_id SNAPSHOT_BATCH_SIZE
      (visit_contact (bd_opted db) body) None ([], [])"

record groups_walk =
  gw_skipReasons :: "(string \<times> int) list"
  gw_sendable :: int
  gw_reach :: int

definition GROUPS_BATCH_SIZE :: nat where "GROUPS_BATCH_SIZE = 1000"

definition visit_group :: "preflight_env \<Rightarrow> int \<Rightarrow> int \<Rightarrow> wa_group \<Rightarrow> groups_walk \<Rightarrow> groups_walk" where
  "visit_group env cap devices g w =
    (let w1 = w\<lparr>gw_reach := gw_reach w + (case pe_participants env (gr_id g) of None \<Rightarrow> 0 | Some p \<Rightarrow> p)\<rparr> in
     case canSendToGroup (gr_enabled g) (gr_announce g) (gr_role g) cap devices of
       Some reason \<Rightarrow>
         if reason \<noteq> GROUP_CAP_ZERO_AT_TIER then w1\<lparr>gw_skipReasons := bump (reason_text reason) (gw_skipReasons w1)\<rparr>
         else w1\<lparr>gw_sendable := gw_sendable w1 + 1\<rparr>
     | None \<Rightarrow> w1\<lparr>gw_sendable := gw_sendable w1 + 1\<rparr>)"

definition walkGroupsAudience :: "preflight_env \<Rightarrow> string \<Rightarrow> string \<Rightarrow> nat list \<Rightarrow> broadcast_db \<Rightarrow> groups_walk option" where
  "walkGroupsAudience env client inst ids db =
    (let cap = (case bd_group_cap db (client, inst) of None \<Rightarrow> 0 | Some k \<Rightarrow> k);
         devices = readGroupTrackedDevicesInstanceTotal client inst db in
     keyset_walk (\<lambda>cursor. readGroupSnapshotBatch client inst cursor ids GROUPS_BATCH_SIZE db) gr_id GROUPS_BATCH_SIZE
       (visit_group env cap devices) None \<lparr>gw_skipReasons = [], gw_sendable = 0, gw_reach = 0\<rparr>)"

section \<open>The quote\<close>

record preflight_quote =
  pq_matched :: int
  pq_skipped :: int
  pq_skipReasons :: "(string \<times> int) list"
  pq_sendable :: int
  pq_deferred :: int
  pq_billable :: int
  pq_priceKey :: price_key
  pq_rateMinor :: int
  pq_quoteMinor :: int
  pq_balanceMinor :: int
  pq_afterMinor :: int
  pq_sufficient :: bool
  pq_effDailyCap :: int
  pq_sentToday :: int
  pq_estimate :: estimate
  pq_requiresHumanAck :: bool

definition stampPreflightQuote :: "string \<Rightarrow> string \<Rightarrow> int \<Rightarrow> price_key \<Rightarrow> broadcast_db \<Rightarrow> preflight_env \<Rightarrow> preflight_env" where
  "stampPreflightQuote client cid quoteMinor price db env =
    (case readCampaign client cid db of
       Some c \<Rightarrow> if cp_status c \<in> {Camp_draft, Camp_scheduled}
         then env\<lparr>pe_quotes := (pe_quotes env)(cid \<mapsto> (quoteMinor, price))\<rparr> else env
     | None \<Rightarrow> env)"

definition readPreflightWalletBalance :: "string \<Rightarrow> preflight_env \<Rightarrow> int option" where
  "readPreflightWalletBalance client env = map_option ac_balance (wd_accounts (pe_wallet env) client)"

text \<open>What both kinds of quote share once the audience has been counted.\<close>

definition finish_quote :: "string \<Rightarrow> string \<Rightarrow> preflight_thresholds \<Rightarrow> price_key \<Rightarrow> int \<Rightarrow> (string \<times> int) list \<Rightarrow> int \<Rightarrow> int \<Rightarrow> int \<Rightarrow>
    broadcast_db \<Rightarrow> preflight_env \<Rightarrow> preflight_env \<times> (preflight_error, preflight_quote) result" where
  "finish_quote client cid t price matched skipReasons deferred cap sentToday db env =
    (let (skipped, sendable, billable) = computeBillable matched skipReasons deferred in
     case resolveRateMinor (pe_wallet env) client price of
       Inl e \<Rightarrow> (env, Err (PF_unpriced e))
     | Inr rateMinor \<Rightarrow>
        (case computeQuoteMinor billable rateMinor of
           Inl e \<Rightarrow> (env, Err e)
         | Inr quoteMinor \<Rightarrow>
            (let balance = (case readPreflightWalletBalance client env of None \<Rightarrow> 0 | Some b \<Rightarrow> b) in
             (stampPreflightQuote client cid quoteMinor price db env,
              Ok \<lparr>pq_matched = matched, pq_skipped = skipped, pq_skipReasons = skipReasons, pq_sendable = sendable,
                  pq_deferred = deferred, pq_billable = billable, pq_priceKey = price, pq_rateMinor = rateMinor,
                  pq_quoteMinor = quoteMinor, pq_balanceMinor = balance, pq_afterMinor = balance - quoteMinor,
                  pq_sufficient = (0 \<le> balance - quoteMinor), pq_effDailyCap = cap, pq_sentToday = sentToday,
                  pq_estimate = computeEstimate billable cap sentToday (pe_now env),
                  pq_requiresHumanAck = (pt_dupFanoutAck t < billable)\<rparr>))))"

definition buildGroupsPreflightQuote :: "string \<Rightarrow> string \<Rightarrow> string \<Rightarrow> nat list \<Rightarrow> string \<Rightarrow> preflight_thresholds \<Rightarrow>
    broadcast_db \<Rightarrow> preflight_env \<Rightarrow> (preflight_env \<times> (preflight_error, preflight_quote) result) option" where
  "buildGroupsPreflightQuote client cid inst ids payloadKind t db env =
    map_option (\<lambda>w. finish_quote client cid t (resolvePriceKey payloadKind ''1@g.us'')
        (gw_sendable w + sum_list (map snd (gw_skipReasons w))) (gw_skipReasons w) 0
        (case bd_group_cap db (client, inst) of None \<Rightarrow> 0 | Some k \<Rightarrow> k)
        (case pe_groupSentToday env (client, inst) of None \<Rightarrow> 0 | Some k \<Rightarrow> k) db env)
      (walkGroupsAudience env client inst ids db)"

text \<open>
  \<open>payloadKind\<close> is the kind of the campaign's message. \<open>None\<close> stands for a walk that does not end.
\<close>

definition preflightBroadcast :: "broadcast_actor \<Rightarrow> string \<Rightarrow> string \<Rightarrow> string \<Rightarrow> broadcast_db \<Rightarrow> preflight_env \<Rightarrow>
    (preflight_env \<times> (preflight_error, preflight_quote) result) option" where
  "preflightBroadcast actor client cid payloadKind db env =
    (if \<not> assertUserActor actor then Some (env, Err PF_forbidden)
     else case readCampaign client cid db of
       None \<Rightarrow> Some (env, Err PF_not_found)
     | Some c \<Rightarrow>
        if cp_status c \<noteq> Camp_draft \<and> cp_status c \<noteq> Camp_scheduled then Some (env, Err (PF_not_allowed cid))
        else if bd_epoch db (client, cp_instance c) = None then Some (env, Err PF_no_instance)
        else (case pe_thresholds env (client, cp_instance c) of
          None \<Rightarrow> Some (env, Err PF_no_instance)
        | Some t \<Rightarrow>
           (case cp_audience c of
              Groups_audience ids \<Rightarrow> buildGroupsPreflightQuote client cid (cp_instance c) ids payloadKind t db env
            | Contacts_audience ids tags \<Rightarrow>
               (case bd_limit db client of
                  None \<Rightarrow> Some (env, Err PF_no_plan)
                | Some limit \<Rightarrow>
                   if countAudience client ids tags db > limit
                   then Some (env, Err (PF_over_limit (countAudience client ids tags db) limit))
                   else map_option (\<lambda>(skipReasons, hashes).
                       finish_quote client cid t (resolvePriceKey payloadKind ''individual'')
                         (int (length hashes) + sum_list (map snd skipReasons)) skipReasons
                         (countDeferralsInBatches env t client hashes) (pt_effDailyCap t)
                         (case pe_sentToday env (client, cp_instance c) of None \<Rightarrow> 0 | Some k \<Rightarrow> k) db env)
                     (walkPreflightAudience client ids tags (cp_body c) db)))))"

section \<open>The walk counts the audience\<close>

text \<open>
  The contract of a keyset query: after the cursor of the first \<open>i\<close> rows it reads the next \<open>n\<close>. A walk over such a source
  visits every row once, in order.
\<close>

locale keyset_source =
  fixes read :: "'s \<Rightarrow> nat option \<Rightarrow> 'r list" and key :: "'r \<Rightarrow> nat" and n :: nat and rows :: "'s \<Rightarrow> 'r list" and ok :: "'s \<Rightarrow> bool"
  assumes page_size: "0 < n"
    and page: "ok s \<Longrightarrow> i \<le> length (rows s) \<Longrightarrow>
      read s (if i = 0 then None else Some (key (rows s ! (i - 1)))) = take n (drop i (rows s))"
begin

lemma walk_from:
  assumes ok: "ok s" and i: "i \<le> length (rows s)"
  shows "keyset_walk (read s) key n visit (if i = 0 then None else Some (key (rows s ! (i - 1)))) acc = Some (fold visit (drop i (rows s)) acc)"
  using i
proof (induction "length (rows s) - i" arbitrary: i acc rule: less_induct)
  case less
  define batch where "batch = take n (drop i (rows s))"
  note walk = keyset_walk.simps [of "read s" key n visit "if i = 0 then None else Some (key (rows s ! (i - 1)))" acc,
      unfolded page [OF ok less.prems] batch_def [symmetric] Let_def]
  show ?case
  proof (cases "batch = []")
    case True
    then have "drop i (rows s) = []" using page_size by (simp add: batch_def)
    then show ?thesis using walk True by simp
  next
    case False
    define j where "j = i + length batch"
    have cut: "drop i (rows s) = batch @ drop j (rows s)"
      unfolding j_def batch_def by (metis append_take_drop_id drop_drop length_take min_def add.commute drop_all linear take_all)
    show ?thesis
    proof (cases "length batch < n")
      case True
      then have "batch = drop i (rows s)" by (simp add: batch_def)
      then show ?thesis using walk False True by simp
    next
      case full: False
      then have jl: "j \<le> length (rows s)" "length (rows s) - j < length (rows s) - i" using False by (auto simp: j_def batch_def)
      have "last batch = rows s ! (j - 1)"
      proof -
        have nth: "batch ! k = rows s ! (i + k)" if "k < length batch" for k using that less.prems by (simp add: batch_def)
        have "last batch = batch ! (length batch - 1)" using False by (simp add: last_conv_nth)
        also have "\<dots> = rows s ! (i + (length batch - 1))" using False by (intro nth) simp
        also have "i + (length batch - 1) = j - 1" using False by (cases batch) (simp_all add: j_def)
        finally show ?thesis .
      qed
      then have "Some (key (last batch)) = (if j = 0 then None else Some (key (rows s ! (j - 1))))" using False by (simp add: j_def)
      then show ?thesis using walk False full less.hyps [OF jl(2,1), of "fold visit batch acc"] by (simp add: cut)
    qed
  qed
qed

lemma walk_all: "ok s \<Longrightarrow> keyset_walk (read s) key n visit None acc = Some (fold visit (rows s) acc)"
  using walk_from [of s 0 visit acc] by simp

end

definition contact_ids_ok :: "broadcast_db \<Rightarrow> bool" where
  "contact_ids_ok db \<longleftrightarrow> distinct (map co_id (bd_contacts db)) \<and> list_all (\<lambda>c. 0 < co_id c) (bd_contacts db)"

definition group_ids_ok :: "broadcast_db \<Rightarrow> bool" where
  "group_ids_ok db \<longleftrightarrow> distinct (map gr_id (bd_groups db)) \<and> list_all (\<lambda>g. 0 < gr_id g) (bd_groups db)"

definition groups_of :: "string \<Rightarrow> string \<Rightarrow> nat list \<Rightarrow> broadcast_db \<Rightarrow> wa_group list" where
  "groups_of client inst ids db = sort_key gr_id (filter (\<lambda>g. gr_client g = client \<and> gr_instance g = inst \<and> \<not> gr_left g \<and>
     (ids = [] \<or> gr_id g \<in> set ids)) (bd_groups db))"

lemma group_page:
  assumes "group_ids_ok db" "i \<le> length (groups_of client inst ids db)"
  shows "readGroupSnapshotBatch client inst (if i = 0 then None else Some (gr_id (groups_of client inst ids db ! (i - 1)))) ids n db =
    take n (drop i (groups_of client inst ids db))"
proof -
  let ?gs = "groups_of client inst ids db"
  have s: "sorted_wrt (<) (map gr_id ?gs)"
    unfolding groups_of_def by (rule sorted_key_strict) (use assms(1) in \<open>simp add: distinct_map_filter group_ids_ok_def\<close>)
  have "readGroupSnapshotBatch client inst cur ids n db = take n (filter (\<lambda>g. (case cur of None \<Rightarrow> 0 | Some i \<Rightarrow> i) < gr_id g) ?gs)" for cur
    by (simp add: readGroupSnapshotBatch_def groups_of_def filter_sort conj_ac)
  moreover have "filter (\<lambda>g. (case if i = 0 then None else Some (gr_id (?gs ! (i - 1))) of None \<Rightarrow> 0 | Some i \<Rightarrow> i) < gr_id g) ?gs = drop i ?gs"
  proof (cases i)
    case 0
    have "0 < gr_id g" if "g \<in> set ?gs" for g using that assms(1) by (auto simp: groups_of_def group_ids_ok_def list_all_iff)
    then show ?thesis using 0 by simp
  next
    case (Suc j)
    then show ?thesis using filter_after_drop [OF s, of j] assms(2) by simp
  qed
  ultimately show ?thesis by simp
qed

interpretation contacts: keyset_source "\<lambda>db cursor. readSnapshotBatch client cursor ids tags SNAPSHOT_BATCH_SIZE db" co_id SNAPSHOT_BATCH_SIZE
    "audience_of client ids tags" contact_ids_ok for client ids tags
  by unfold_locales
    (simp_all add: SNAPSHOT_BATCH_SIZE_def contact_ids_ok_def list_all_iff read_batch_snapped [OF refl _ _ _ refl, unfolded cursor_at_def])

interpretation groups: keyset_source "\<lambda>db cursor. readGroupSnapshotBatch client inst cursor ids GROUPS_BATCH_SIZE db" gr_id GROUPS_BATCH_SIZE
    "groups_of client inst ids" group_ids_ok for client inst ids
  by unfold_locales (simp_all add: GROUPS_BATCH_SIZE_def group_page)

lemma walk_contacts:
  assumes "distinct (map co_id (bd_contacts db))" "\<And>c. c \<in> set (bd_contacts db) \<Longrightarrow> 0 < co_id c"
  shows "walkPreflightAudience client ids tags body db =
    Some (fold (visit_contact (bd_opted db) body) (audience_of client ids tags db) ([], []))"
  unfolding walkPreflightAudience_def by (rule contacts.walk_all) (use assms in \<open>simp add: contact_ids_ok_def list_all_iff\<close>)

text \<open>The groups quote counts what the groups snapshot would insert: a group is skipped there exactly when it is here.\<close>

lemma visit_group_counts:
  "fold (visit_group env cap devices) gs w = w' \<Longrightarrow>
    gw_sendable w' = gw_sendable w + count_if (\<lambda>g. ir_status (group_insert cap devices g) = Rc_pending) gs \<and>
    sum_list (map snd (gw_skipReasons w')) = sum_list (map snd (gw_skipReasons w)) + count_if (\<lambda>g. ir_status (group_insert cap devices g) = Rc_skipped) gs"
proof (induction gs arbitrary: w)
  case (Cons g gs)
  have bump: "sum_list (map snd (bump r xs)) = sum_list (map snd xs) + 1" for r xs
    by (induction r xs rule: bump.induct) auto
  from Cons.IH [of "visit_group env cap devices g w"] Cons.prems show ?case
    by (auto simp: visit_group_def group_insert_def Let_def bump split: option.splits if_splits)
qed simp

lemma walk_groups:
  assumes "group_ids_ok db" "cap = (case bd_group_cap db (client, inst) of None \<Rightarrow> 0 | Some k \<Rightarrow> k)"
    "devices = readGroupTrackedDevicesInstanceTotal client inst db"
  obtains w where "walkGroupsAudience env client inst ids db = Some w"
    "gw_sendable w = count_if (\<lambda>g. ir_status (group_insert cap devices g) = Rc_pending) (groups_of client inst ids db)"
    "sum_list (map snd (gw_skipReasons w)) = count_if (\<lambda>g. ir_status (group_insert cap devices g) = Rc_skipped) (groups_of client inst ids db)"
proof -
  let ?w = "fold (visit_group env cap devices) (groups_of client inst ids db) \<lparr>gw_skipReasons = [], gw_sendable = 0, gw_reach = 0\<rparr>"
  have "walkGroupsAudience env client inst ids db = Some ?w"
    unfolding walkGroupsAudience_def Let_def assms(2,3) by (rule groups.walk_all [OF assms(1)])
  then show thesis using that visit_group_counts [OF refl, of env cap devices "groups_of client inst ids db"] by simp
qed

definition reason_count :: "string \<Rightarrow> (string \<times> int) list \<Rightarrow> int" where
  "reason_count reason xs = (case map_of xs reason of None \<Rightarrow> 0 | Some k \<Rightarrow> k)"

lemma bump_counts:
  "reason_count r (bump r' xs) = reason_count r xs + (if r = r' then 1 else 0)" "sum_list (map snd (bump r' xs)) = sum_list (map snd xs) + 1"
  by (induction r' xs rule: bump.induct) (auto simp: reason_count_def)

lemma fold_visit_contact:
  "fold (visit_contact opted body) cs (xs, hs) = (xs', hs') \<Longrightarrow>
    hs' = hs @ map co_hash (filter (\<lambda>c. skip_reason opted body c = None) cs) \<and>
    sum_list (map snd xs') = sum_list (map snd xs) + count_if (\<lambda>c. skip_reason opted body c \<noteq> None) cs \<and>
    reason_count r xs' = reason_count r xs + count_if (\<lambda>c. skip_reason opted body c = Some r) cs"
proof (induction cs arbitrary: xs hs)
  case (Cons c cs)
  show ?case
  proof (cases "skip_reason opted body c")
    case None
    then show ?thesis using Cons.IH [of xs "hs @ [co_hash c]"] Cons.prems by (simp add: visit_contact_def)
  next
    case (Some s)
    then show ?thesis using Cons.IH [of "bump s xs" hs] Cons.prems by (auto simp: visit_contact_def bump_counts)
  qed
qed simp

lemma deferred_bounds: "0 \<le> countDeferralsInBatches env t client hs \<and> countDeferralsInBatches env t client hs \<le> int (length hs)"
proof (induction env t client hs rule: countDeferralsInBatches.induct)
  case (1 env t client hs)
  show ?case
  proof (cases "hs = []")
    case True
    then show ?thesis by (simp add: countDeferralsInBatches.simps)
  next
    case False
    have "length (filter p (remdups ys)) \<le> length ys" for p and ys :: "string list"
      using length_filter_le [of p "remdups ys"] length_remdups_leq [of ys] by linarith
    from this [of "is_deferred env t client" "take SNAPSHOT_BATCH_SIZE hs"]
    have "0 \<le> countPreflightFrequencyDeferrals env t client (take SNAPSHOT_BATCH_SIZE hs)"
      "countPreflightFrequencyDeferrals env t client (take SNAPSHOT_BATCH_SIZE hs) \<le> int (length (take SNAPSHOT_BATCH_SIZE hs))"
      by (simp_all add: countPreflightFrequencyDeferrals_def del: length_take)
    moreover have "length hs = length (take SNAPSHOT_BATCH_SIZE hs) + length (drop SNAPSHOT_BATCH_SIZE hs)" by simp
    moreover have "countDeferralsInBatches env t client hs = countPreflightFrequencyDeferrals env t client (take SNAPSHOT_BATCH_SIZE hs) +
        countDeferralsInBatches env t client (drop SNAPSHOT_BATCH_SIZE hs)" using False by (subst countDeferralsInBatches.simps) simp
    ultimately show ?thesis using 1 [OF False] by linarith
  qed
qed

lemma preflight_contactsD:
  assumes "preflightBroadcast actor client cid kind db env = Some (env', Ok q)" "readCampaign client cid db = Some c"
    and "cp_audience c = Contacts_audience ids tags"
  obtains t m skips hs where "assertUserActor actor" "cp_status c = Camp_draft \<or> cp_status c = Camp_scheduled"
    "bd_limit db client = Some m" "countAudience client ids tags db \<le> m"
    "walkPreflightAudience client ids tags (cp_body c) db = Some (skips, hs)"
    "pq_matched q = int (length hs) + sum_list (map snd skips)" "pq_skipped q = sum_list (map snd skips)" "pq_skipReasons q = skips"
    "pq_sendable q = int (length hs)" "pq_deferred q = countDeferralsInBatches env t client hs"
    "pq_billable q = pq_sendable q - pq_deferred q" "pq_quoteMinor q = pq_billable q * pq_rateMinor q"
    "pe_thresholds env (client, cp_instance c) = Some t"
    "pq_estimate q = computeEstimate (pq_billable q) (pt_effDailyCap t) (pq_sentToday q) (pe_now env)"
proof -
  have a: "assertUserActor actor" and st: "cp_status c = Camp_draft \<or> cp_status c = Camp_scheduled"
    using assms by (auto simp: preflightBroadcast_def split: if_splits)
  have "bd_epoch db (client, cp_instance c) \<noteq> None" using assms a st by (auto simp: preflightBroadcast_def split: if_splits)
  moreover obtain t where t: "pe_thresholds env (client, cp_instance c) = Some t"
    using assms a st calculation by (auto simp: preflightBroadcast_def split: if_splits option.splits)
  moreover obtain m where m: "bd_limit db client = Some m"
    using assms a st calculation by (auto simp: preflightBroadcast_def split: if_splits option.splits)
  moreover have le: "countAudience client ids tags db \<le> m"
    using assms a st calculation by (auto simp: preflightBroadcast_def split: if_splits)
  ultimately obtain skips hs sent where w: "walkPreflightAudience client ids tags (cp_body c) db = Some (skips, hs)"
    and f: "finish_quote client cid t (resolvePriceKey kind ''individual'') (int (length hs) + sum_list (map snd skips)) skips
        (countDeferralsInBatches env t client hs) (pt_effDailyCap t) sent db env = (env', Ok q)"
    using assms a st by (auto simp: preflightBroadcast_def)
  show thesis
    by (rule that [OF a st m le w _ _ _ _ _ _ _ t])
      (use f in \<open>auto simp: finish_quote_def computeBillable_def computeQuoteMinor_def Let_def split: sum.splits if_splits\<close>)
qed

lemma startBroadcast_row:
  assumes "assertUserActor actor" "readCampaign client cid db = Some c" "cp_status c = Camp_draft \<or> cp_status c = Camp_scheduled"
  shows "readCampaign client cid (fst (startBroadcast actor client cid now db)) = Some (c\<lparr>cp_status := Camp_snapshotting, cp_updated := now\<rparr>) \<and>
    bd_recipients (fst (startBroadcast actor client cid now db)) = bd_recipients db \<and>
    bd_contacts (fst (startBroadcast actor client cid now db)) = bd_contacts db \<and>
    bd_limit (fst (startBroadcast actor client cid now db)) = bd_limit db \<and>
    bd_opted (fst (startBroadcast actor client cid now db)) = bd_opted db"
proof -
  have c: "c \<in> set (bd_campaigns db)" "cp_id c = cid" "cp_client c = client" using readCampaign_in [OF assms(2)] by auto
  then have "list_ex (hits client cid [Camp_draft, Camp_scheduled]) (bd_campaigns db)" using assms(3) by (auto simp: list_ex_iff hits_def)
  then have s: "fst (startBroadcast actor client cid now db) =
      audit client ''broadcast.start'' cid (fst (campaign_transition client cid [Camp_draft, Camp_scheduled] Camp_snapshotting id now db))"
    using assms(1,2) by (simp add: startBroadcast_def mutateOne_def campaign_transition_def Let_def)
  have "find (\<lambda>x. cp_id x = cid \<and> cp_client x = client) (bd_campaigns db) = Some c" using assms(2) by (simp add: readCampaign_def)
  then show ?thesis unfolding s using assms(3) c
    by (auto simp: audit_def campaign_transition_def readCampaign_def find_update_where hits_def)
qed

lemma contact_insert_status:
  "ir_status (contact_insert opted body x) = (if skip_reason opted body x = None then Rc_pending else Rc_skipped)"
  "ir_skip_reason (contact_insert opted body x) = skip_reason opted body x"
  by (simp_all add: contact_insert_def skip_reason_def split: sum.split)

lemma count_by_key: "map k xs = map k' ys \<Longrightarrow> (\<And>x. p x \<longleftrightarrow> q (k x)) \<Longrightarrow> count_if p xs = count_if (\<lambda>y. q (k' y)) ys"
proof -
  assume a: "map k xs = map k' ys" "\<And>x. p x \<longleftrightarrow> q (k x)"
  have "p = (\<lambda>x. q (k x))" using a(2) by (rule ext)
  then have "count_if p xs = count_if q (map k xs)" by simp
  then show ?thesis by (simp add: a(1))
qed

text \<open>
  C16. The quote and the snapshot agree: when a contacts campaign has been quoted and is started while its contacts and
  opt-outs stay as they were, the snapshot, in batches of any size, ends with exactly the quoted numbers: \<open>matched\<close> recipients,
  \<open>sendable\<close> of them pending, \<open>skipped\<close> of them skipped, and for every reason the quoted number with that
  reason. The price is that of the sendable ones less the deferred ones, never of a negative number.
\<close>

theorem preflight_agrees_with_snapshot:
  assumes "preflightBroadcast actor client cid kind db env = Some (env', Ok q)" "readCampaign client cid db = Some c"
    and "cp_audience c = Contacts_audience ids tags" "cp_snapshot_cursor c = None" "0 < n"
    and "distinct (map co_id (bd_contacts db))" "list_all (\<lambda>x. 0 < co_id x) (bd_contacts db)"
    and "list_all (\<lambda>r. rc_campaign r \<noteq> cid) (bd_recipients db)"
  shows "\<exists>db'. runSnapshotToCompletion key n later client cid (fst (startBroadcast actor client cid now db)) =
      Some (db', Ok (Sn_done (pq_matched q))) \<and>
    status_count Rc_pending (recipients_of client cid db') = pq_sendable q \<and>
    status_count Rc_skipped (recipients_of client cid db') = pq_skipped q \<and>
    (\<forall>reason. int (length (filter (\<lambda>r. rc_skip_reason r = Some reason) (recipients_of client cid db'))) =
       (case map_of (pq_skipReasons q) reason of None \<Rightarrow> 0 | Some k \<Rightarrow> k)) \<and>
    0 \<le> pq_billable q \<and> pq_billable q = pq_sendable q - pq_deferred q \<and> pq_quoteMinor q = pq_billable q * pq_rateMinor q"
proof -
  obtain t m skips hs where p: "assertUserActor actor" "cp_status c = Camp_draft \<or> cp_status c = Camp_scheduled"
    "bd_limit db client = Some m" "countAudience client ids tags db \<le> m"
    "walkPreflightAudience client ids tags (cp_body c) db = Some (skips, hs)"
    and q: "pq_matched q = int (length hs) + sum_list (map snd skips)" "pq_skipped q = sum_list (map snd skips)" "pq_skipReasons q = skips"
    "pq_sendable q = int (length hs)" "pq_deferred q = countDeferralsInBatches env t client hs"
    "pq_billable q = pq_sendable q - pq_deferred q" "pq_quoteMinor q = pq_billable q * pq_rateMinor q"
    using preflight_contactsD [OF assms(1-3)] by metis
  define cs where "cs = audience_of client ids tags db"
  define sr where "sr = skip_reason (bd_opted db) (cp_body c)"
  have "fold (visit_contact (bd_opted db) (cp_body c)) cs ([], []) = (skips, hs)"
    using walk_contacts [OF assms(6), of client ids tags "cp_body c"] assms(7) p(5) by (simp add: list_all_iff cs_def)
  from fold_visit_contact [OF this] have hs: "hs = map co_hash (filter (\<lambda>c. sr c = None) cs)"
    and sum: "sum_list (map snd skips) = count_if (\<lambda>c. sr c \<noteq> None) cs"
    and by_reason: "\<And>r. reason_count r skips = count_if (\<lambda>c. sr c = Some r) cs"
    by (simp_all add: sr_def reason_count_def)
  let ?db1 = "fst (startBroadcast actor client cid now db)"
  note st = startBroadcast_row [OF p(1) assms(2) p(2), of now]
  have count: "countAudience client ids tags ?db1 = countAudience client ids tags db"
    "countAudience client ids tags db = int (length cs)" using st by (simp_all add: countAudience_def cs_def audience_of_def)
  have row: "readCampaign client cid ?db1 = Some (c\<lparr>cp_status := Camp_snapshotting, cp_updated := now\<rparr>)" using st by simp
  have contacts: "bd_contacts ?db1 = bd_contacts db" "bd_opted ?db1 = bd_opted db" "bd_recipients ?db1 = bd_recipients db"
    "bd_limit ?db1 client = Some m" using st p(3) by simp_all
  obtain db' where r: "runSnapshotToCompletion key n later client cid ?db1 = Some (db', Ok (Sn_done (int (length cs))))"
    and m: "map recipient_key (recipients_of client cid db') = map (insert_key \<circ> contact_insert (bd_opted db) (cp_body c)) cs"
    by (rule snapshot_rows [OF assms(5) row, of ids tags m cs key later])
      (use contacts count assms(3,4,6,7,8) p(4) in \<open>simp_all add: cs_def audience_of_def\<close>)
  note cnt = count_by_key [OF m]
  have "count_if (\<lambda>r. rc_status r = Rc_pending) (recipients_of client cid db') = count_if (\<lambda>x. sr x = None) cs"
    by (subst cnt [where q = "\<lambda>(a, b, s, d, e). s = Rc_pending"])
      (simp_all add: recipient_key_def insert_key_def contact_insert_status sr_def cong: count_if_cong)
  moreover have "count_if (\<lambda>r. rc_status r = Rc_skipped) (recipients_of client cid db') = count_if (\<lambda>x. sr x \<noteq> None) cs"
    by (subst cnt [where q = "\<lambda>(a, b, s, d, e). s = Rc_skipped"])
      (simp_all add: recipient_key_def insert_key_def contact_insert_status sr_def cong: count_if_cong)
  moreover have "count_if (\<lambda>r. rc_skip_reason r = Some reason) (recipients_of client cid db') = count_if (\<lambda>x. sr x = Some reason) cs" for reason
    by (subst cnt [where q = "\<lambda>(a, b, s, d, e). d = Some reason"])
      (simp_all add: recipient_key_def insert_key_def contact_insert_status sr_def)
  moreover have "int (length hs) = count_if (\<lambda>x. sr x = None) cs" by (simp add: hs count_if_def)
  moreover have "count_if (\<lambda>x. True) cs = count_if (\<lambda>x. sr x = None) cs + count_if (\<lambda>x. sr x \<noteq> None) cs"
    using count_if_split [of "\<lambda>x. True" cs "\<lambda>x. sr x = None"] by simp
  then have "int (length cs) = pq_matched q" using q(1) sum calculation(4) by (simp add: count_if_def)
  moreover have "0 \<le> pq_billable q" using deferred_bounds [of env t client hs] q by simp
  ultimately show ?thesis using r q sum by_reason
    by (intro exI [of _ db']) (simp add: status_count_def count_if_def reason_count_def)
qed

lemma ceil_div_bounds:
  fixes a b :: int
  assumes "0 < b"
  shows "a \<le> ceil_div a b * b" "(ceil_div a b - 1) * b < a"
proof -
  have "(- a) div b * b + (- a) mod b = - a" by simp
  then have "(- a) div b * b \<le> - a" "- a < (- a) div b * b + b"
    using pos_mod_sign [OF assms, of "- a"] pos_mod_bound [OF assms, of "- a"] by linarith+
  then show "a \<le> ceil_div a b * b" "(ceil_div a b - 1) * b < a" by (simp_all add: ceil_div_def left_diff_distrib)
qed

text \<open>
  The estimate of a positive bill under a positive cap is the least number of days that carries it: what remains today
  and a full cap on each day after.
\<close>

theorem estimate_is_least:
  assumes "0 < billable" "0 < cap"
  shows "\<exists>d. es_totalDays (computeEstimate billable cap sentToday now) = Some d \<and> 1 \<le> d \<and>
    billable \<le> max (cap - sentToday) 0 + (d - 1) * cap \<and>
    (d = 1 \<or> max (cap - sentToday) 0 + (d - 2) * cap < billable) \<and>
    es_finishAt (computeEstimate billable cap sentToday now) = Some (now + (d - 1) * DAY_MS)"
proof (cases "billable \<le> max (cap - sentToday) 0")
  case True
  then show ?thesis using assms by (intro exI [of _ 1]) (simp add: computeEstimate_def Let_def)
next
  case False
  let ?c = "ceil_div (billable - max (cap - sentToday) 0) cap"
  note b = ceil_div_bounds [OF assms(2), of "billable - max (cap - sentToday) 0"]
  have "0 < ?c" using b(1) False assms(2) by (smt (verit) mult_nonpos_nonneg)
  then show ?thesis using b False assms
    by (intro exI [of _ "1 + ?c"]) (simp add: computeEstimate_def Let_def algebra_simps)
qed

theorem estimate_is_least_witness:
  "es_totalDays (computeEstimate 250 100 40 0) = Some 3"
proof -
  have "es_totalDays (computeEstimate 250 100 40 0) = Some 3" by code_simp
  then show ?thesis using estimate_is_least [of 250 100 40 0] by simp
qed

text \<open>The draft of the example, quoted at one paisa a message.\<close>

definition example_env :: preflight_env where
  "example_env = \<lparr>pe_now = 0,
     pe_thresholds = (\<lambda>_. Some \<lparr>pt_label = [], pt_warmupTier = 1, pt_effDailyCap = 10, pt_dupFanoutWarn = 5, pt_dupFanoutAck = 20,
       pt_perRecipient24h = 2, pt_perRecipient7d = 4\<rparr>),
     pe_sentToday = (\<lambda>_. None), pe_groupSentToday = (\<lambda>_. None), pe_participants = (\<lambda>_. None), pe_buckets = [],
     pe_wallet = \<lparr>wd_accounts = Map.empty, wd_ledger = [], wd_guards = [], wd_refs = Map.empty, wd_jobs = Map.empty, wd_attempts = Map.empty,
       wd_rates = (\<lambda>_ _. Some 1), wd_day = 0, wd_findings = []\<rparr>, pe_quotes = Map.empty\<rparr>"

lemma example_walk: "walkPreflightAudience ''k'' [] [''t''] ''hi'' (example_run 1) = Some ([(''opted_out'', 1)], [''1@c.us''])"
proof -
  have "distinct (map co_id (bd_contacts (example_run 1)))" "list_all (\<lambda>x. 0 < co_id x) (bd_contacts (example_run 1))" by code_simp+
  moreover have "fold (visit_contact (bd_opted (example_run 1)) ''hi'') (audience_of ''k'' [] [''t''] (example_run 1)) ([], []) =
      ([(''opted_out'', 1)], [''1@c.us''])" by code_simp
  ultimately show ?thesis by (simp add: walk_contacts list_all_iff)
qed

theorem preflight_agrees_with_snapshot_witness:
  "map_option (\<lambda>r. status_count Rc_pending (recipients_of ''k'' ''c'' (fst r)))
    (runSnapshotToCompletion False 1 3 ''k'' ''c'' (fst (startBroadcast example_actor ''k'' ''c'' 2 (example_run 1)))) = Some 1"
proof -
  define c where "c = draft_row example_input ''c'' 1"
  have "case readCampaign ''k'' ''c'' (example_run 1) of None \<Rightarrow> False | Some d \<Rightarrow> d = draft_row example_input ''c'' 1" by code_simp
  then have c: "readCampaign ''k'' ''c'' (example_run 1) = Some c" by (simp add: c_def split: option.splits)
  have f: "cp_audience c = Contacts_audience [] [''t'']" "cp_snapshot_cursor c = None" "cp_body c = ''hi''" "cp_status c = Camp_draft"
    "cp_instance c = ''w''" by (simp_all add: c_def draft_row_def example_input_def)
  have h: "distinct (map co_id (bd_contacts (example_run 1)))" "list_all (\<lambda>x. 0 < co_id x) (bd_contacts (example_run 1))"
    "list_all (\<lambda>r. rc_campaign r \<noteq> ''c'') (bd_recipients (example_run 1))" by code_simp+
  have e: "assertUserActor example_actor" "bd_epoch (example_run 1) (''k'', ''w'') = Some 1" "bd_limit (example_run 1) ''k'' = Some 100"
    "countAudience ''k'' [] [''t''] (example_run 1) = 2" by code_simp+
  define t where "t = \<lparr>pt_label = [], pt_warmupTier = 1, pt_effDailyCap = 10, pt_dupFanoutWarn = 5, pt_dupFanoutAck = 20,
       pt_perRecipient24h = 2, pt_perRecipient7d = 4\<rparr>"
  have t: "pe_thresholds example_env = (\<lambda>_. Some t)" by (simp add: example_env_def t_def)
  have d: "countDeferralsInBatches example_env t ''k'' [''1@c.us''] = 0"
    by (simp add: countDeferralsInBatches.simps SNAPSHOT_BATCH_SIZE_def countPreflightFrequencyDeferrals_def is_deferred_def preflight_bucket_sum_def
        example_env_def t_def)
  have rate: "resolveRateMinor (pe_wallet example_env) ''k'' price = Ok 1" for price
    by (simp add: resolveRateMinor_def isValidRate_def example_env_def)
  obtain env' q where p: "preflightBroadcast example_actor ''k'' ''c'' ''text'' (example_run 1) example_env = Some (env', Ok q)"
    and q: "pq_sendable q = 1"
    by (simp add: preflightBroadcast_def c e f t d example_walk finish_quote_def computeBillable_def rate computeQuoteMinor_def Let_def
        del: One_nat_def)
  from preflight_agrees_with_snapshot [OF p c f(1,2) _ h, of 1 False 3 2] q show ?thesis by auto
qed

end
