(* ===== verification/Optout_Text.thy ===== *)
theory Optout_Text
  imports Encodings
begin

text \<open>
  Recognising an opt-out in an inbound message: \<open>domain/optout\<close> (\<open>normalise.ts\<close>, \<open>match.ts\<close>, \<open>keywords.ts\<close>) and the
  extraction of the candidate text, \<open>domain/inbound/optout-text.ts\<close>. Texts are lists of code points;
  \<open>String.prototype.toLowerCase\<close>, whose tables are Unicode's, is a parameter with the four laws of \<open>js_lower\<close>.
\<close>

type_synonym utext = "int list"

definition ascii :: "string \<Rightarrow> utext" where "ascii s = map of_char s"

section \<open>normalise.ts\<close>

definition DEVANAGARI_VOWELS :: "(int \<times> string) list" where
  "DEVANAGARI_VOWELS = [(0x905, ''a''), (0x906, ''aa''), (0x907, ''i''), (0x908, ''ii''), (0x909, ''u''), (0x90A, ''uu''),
     (0x90B, ''ri''), (0x90F, ''e''), (0x910, ''ai''), (0x913, ''o''), (0x914, ''au'')]"

text \<open>The danda, U+0964, is listed among the matras.\<close>

definition DEVANAGARI_MATRAS :: "(int \<times> string) list" where
  "DEVANAGARI_MATRAS = [(0x93E, ''aa''), (0x93F, ''i''), (0x940, ''ii''), (0x941, ''u''), (0x942, ''uu''), (0x943, ''ri''),
     (0x947, ''e''), (0x948, ''ai''), (0x94B, ''o''), (0x94C, ''au''), (0x964, '''')]"

definition VIRAMA :: int where "VIRAMA = 0x94D"

definition DEVANAGARI_MARKS :: "(int \<times> string) list" where
  "DEVANAGARI_MARKS = [(0x902, ''n''), (0x901, ''n''), (0x903, ''h'')]"

definition DEVANAGARI_CONSONANTS :: "(int \<times> string) list" where
  "DEVANAGARI_CONSONANTS = [(0x915, ''k''), (0x916, ''kh''), (0x917, ''g''), (0x918, ''gh''), (0x919, ''ng''), (0x91A, ''ch''),
     (0x91B, ''chh''), (0x91C, ''j''), (0x91D, ''jh''), (0x91E, ''ny''), (0x91F, ''t''), (0x920, ''th''), (0x921, ''d''),
     (0x922, ''dh''), (0x923, ''n''), (0x924, ''t''), (0x925, ''th''), (0x926, ''d''), (0x927, ''dh''), (0x928, ''n''),
     (0x92A, ''p''), (0x92B, ''ph''), (0x92C, ''b''), (0x92D, ''bh''), (0x92E, ''m''), (0x92F, ''y''), (0x930, ''r''),
     (0x932, ''l''), (0x935, ''v''), (0x936, ''sh''), (0x937, ''sh''), (0x938, ''s''), (0x939, ''h'')]"

fun transliterateDevanagari :: "utext \<Rightarrow> utext" where
  "transliterateDevanagari [] = []"
| "transliterateDevanagari (ch # rest) =
    (case map_of DEVANAGARI_VOWELS ch of Some v \<Rightarrow> ascii v @ transliterateDevanagari rest
     | None \<Rightarrow>
    (case map_of DEVANAGARI_MARKS ch of Some v \<Rightarrow> ascii v @ transliterateDevanagari rest
     | None \<Rightarrow>
    (case map_of DEVANAGARI_CONSONANTS ch of
       Some consonant \<Rightarrow>
         (case rest of
            [] \<Rightarrow> ascii consonant @ ascii ''a''
          | nxt # rest' \<Rightarrow>
              if nxt = VIRAMA then ascii consonant @ transliterateDevanagari rest'
              else (case map_of DEVANAGARI_MATRAS nxt of
                      Some m \<Rightarrow> ascii consonant @ ascii m @ transliterateDevanagari rest'
                    | None \<Rightarrow> ascii consonant @ ascii ''a'' @ transliterateDevanagari rest))
     | None \<Rightarrow> ch # transliterateDevanagari rest)))"

definition is_emoji :: "int \<Rightarrow> bool" where
  "is_emoji c \<longleftrightarrow> 0x1F000 \<le> c \<and> c \<le> 0x1FFFF \<or> 0x2600 \<le> c \<and> c \<le> 0x27BF \<or> 0x2190 \<le> c \<and> c \<le> 0x21FF \<or> 0x2B00 \<le> c \<and> c \<le> 0x2BFF"

definition ZERO_WIDTH_JOINER :: int where "ZERO_WIDTH_JOINER = 0x200D"
definition VARIATION_SELECTOR_16 :: int where "VARIATION_SELECTOR_16 = 0xFE0F"

text \<open>The characters of \<open>PUNCTUATION_RE\<close>; 39 and 34 are the two quotes.\<close>

definition PUNCTUATION :: "int list" where
  "PUNCTUATION = ascii ''.,!?;:'' @ [39, 34] @ ascii ''()[]{}<>-_/'' @ [92] @ ascii ''|~`^*+=@#%&''"

text \<open>The white space of \<open>\s\<close> and of \<open>trim\<close>.\<close>

definition is_white :: "int \<Rightarrow> bool" where
  "is_white c \<longleftrightarrow> 9 \<le> c \<and> c \<le> 13 \<or> c = 32 \<or> c = 0xA0 \<or> c = 0x1680 \<or> 0x2000 \<le> c \<and> c \<le> 0x200A \<or>
     c = 0x2028 \<or> c = 0x2029 \<or> c = 0x202F \<or> c = 0x205F \<or> c = 0x3000 \<or> c = 0xFEFF"

text \<open>\<open>replace(/\s+/g, ' ')\<close>: the flag says that the run has already given its space.\<close>

fun collapse_spaces :: "bool \<Rightarrow> utext \<Rightarrow> utext" where
  "collapse_spaces b [] = []"
| "collapse_spaces b (c # cs) =
    (if is_white c then (if b then collapse_spaces True cs else 32 # collapse_spaces True cs)
     else c # collapse_spaces False cs)"

definition utrim :: "utext \<Rightarrow> utext" where
  "utrim s = rev (dropWhile is_white (rev (dropWhile is_white s)))"

definition replace_cp :: "(int \<Rightarrow> bool) \<Rightarrow> utext \<Rightarrow> utext" where
  "replace_cp p s = map (\<lambda>c. if p c then 32 else c) s"

definition normaliseOptOutText :: "(utext \<Rightarrow> utext) \<Rightarrow> utext \<Rightarrow> utext" where
  "normaliseOptOutText lower text =
    (let transliterated = transliterateDevanagari text in
     utrim (collapse_spaces False
       (filter (\<lambda>c. c \<notin> set PUNCTUATION)
         (replace_cp (\<lambda>c. c = VARIATION_SELECTOR_16)
           (replace_cp (\<lambda>c. c = ZERO_WIDTH_JOINER)
             (replace_cp is_emoji (lower transliterated)))))))"

section \<open>match.ts\<close>

definition MAX_PREFIX_MATCH_TOKENS :: nat where "MAX_PREFIX_MATCH_TOKENS = 4"

fun split_at :: "int \<Rightarrow> utext \<Rightarrow> utext list" where
  "split_at c [] = [[]]"
| "split_at c (x # xs) = (if x = c then [] # split_at c xs else (case split_at c xs of [] \<Rightarrow> [[x]] | p # ps \<Rightarrow> (x # p) # ps))"

definition opt_tokens :: "(utext \<Rightarrow> utext) \<Rightarrow> utext \<Rightarrow> utext list" where
  "opt_tokens lower text =
    (let normalised = normaliseOptOutText lower text in if length normalised = 0 then [] else split_at 32 normalised)"

definition startsWithTokenPrefix :: "utext list \<Rightarrow> utext list \<Rightarrow> bool" where
  "startsWithTokenPrefix messageTokens keywordTokens \<longleftrightarrow>
    (if length keywordTokens > length messageTokens then False
     else list_all (\<lambda>i. messageTokens ! i = keywordTokens ! i) [0..<length keywordTokens])"

definition match_keywords :: "(utext \<Rightarrow> utext) \<Rightarrow> utext list \<Rightarrow> utext list \<Rightarrow> utext option" where
  "match_keywords lower messageTokens keywords =
    find (\<lambda>keyword.
      let keywordTokens = opt_tokens lower keyword in
      if length keywordTokens = 0 then False
      else if length messageTokens = length keywordTokens \<and> startsWithTokenPrefix messageTokens keywordTokens then True
      else length messageTokens \<le> MAX_PREFIX_MATCH_TOKENS \<and> startsWithTokenPrefix messageTokens keywordTokens) keywords"

definition matchOptOutKeyword :: "(utext \<Rightarrow> utext) \<Rightarrow> utext \<Rightarrow> utext list \<Rightarrow> utext option" where
  "matchOptOutKeyword lower text keywords =
    (let messageTokens = opt_tokens lower text in
     if length messageTokens = 0 then None else match_keywords lower messageTokens keywords)"

section \<open>keywords.ts\<close>

definition PLATFORM_OPTOUT_KEYWORDS :: "utext list" where
  "PLATFORM_OPTOUT_KEYWORDS = map ascii [''stop'', ''stopall'', ''unsubscribe'', ''opt out'', ''optout'', ''remove me'',
      ''do not message'', ''dnd'', ''band karo'', ''band karo message'', ''mat bhejo'', ''rok do''] @
    [[0x92C, 0x902, 0x926, 0x20, 0x915, 0x930, 0x94B], [0x930, 0x94B, 0x915, 0x94B], [0x939, 0x91F, 0x93E, 0x913]]"

datatype keyword_error = Platform_keyword_shadowed utext

fun resolve_keywords :: "(utext \<Rightarrow> utext) \<Rightarrow> utext list \<Rightarrow> utext list \<Rightarrow> utext list \<Rightarrow> (keyword_error, utext list) result" where
  "resolve_keywords lower seen resolved [] = Ok resolved"
| "resolve_keywords lower seen resolved (raw # raws) =
    (let normalised = normaliseOptOutText lower raw in
     if normalised \<in> set (map (normaliseOptOutText lower) PLATFORM_OPTOUT_KEYWORDS) then Err (Platform_keyword_shadowed raw)
     else if normalised \<in> set seen then resolve_keywords lower seen resolved raws
     else resolve_keywords lower (seen @ [normalised]) (resolved @ [raw]) raws)"

definition resolveOptOutKeywords :: "(utext \<Rightarrow> utext) \<Rightarrow> utext list \<Rightarrow> (keyword_error, utext list) result" where
  "resolveOptOutKeywords lower tenantKeywords =
     resolve_keywords lower (map (normaliseOptOutText lower) PLATFORM_OPTOUT_KEYWORDS) PLATFORM_OPTOUT_KEYWORDS tenantKeywords"

section \<open>inbound/optout-text.ts\<close>

text \<open>A provider payload: the values \<open>JSON\<close> knows; any other value has no text in it. A field that is absent is \<open>P_undefined\<close>.\<close>

datatype payload = P_undefined | P_null | P_text utext | P_other | P_record "(string \<times> payload) list"

fun is_record :: "payload \<Rightarrow> bool" where
  "is_record (P_record kvs) = True" | "is_record _ = False"

fun payload_field :: "payload \<Rightarrow> string \<Rightarrow> payload" where
  "payload_field (P_record kvs) k = (case map_of kvs k of None \<Rightarrow> P_undefined | Some v \<Rightarrow> v)"
| "payload_field _ k = P_undefined"

definition OPTOUT_CANDIDATE_MAX_CHARS :: nat where "OPTOUT_CANDIDATE_MAX_CHARS = 256"
definition MAX_UNWRAP_DEPTH :: nat where "MAX_UNWRAP_DEPTH = 5"

definition WRAPPER_KEYS :: "string list" where
  "WRAPPER_KEYS = [''ephemeralMessage'', ''viewOnceMessage'', ''viewOnceMessageV2'', ''viewOnceMessageV2Extension'',
     ''documentWithCaptionMessage'', ''deviceSentMessage'', ''editedMessage'']"

definition CAPTION_KEYS :: "string list" where
  "CAPTION_KEYS = [''imageMessage'', ''videoMessage'', ''documentMessage'']"

fun unwrap_loop :: "nat \<Rightarrow> payload \<Rightarrow> payload" where
  "unwrap_loop 0 current = current"
| "unwrap_loop (Suc n) current =
    (if \<not> is_record current then current
     else (case find (\<lambda>key. is_record (payload_field current key)) WRAPPER_KEYS of
             Some wrapperKey \<Rightarrow> unwrap_loop n (payload_field (payload_field current wrapperKey) ''message'')
           | None \<Rightarrow>
               if is_record (payload_field current ''protocolMessage'')
               then unwrap_loop n (payload_field (payload_field current ''protocolMessage'') ''editedMessage'')
               else current))"

definition unwrapEnvelope :: "payload \<Rightarrow> payload" where
  "unwrapEnvelope message = unwrap_loop MAX_UNWRAP_DEPTH message"

fun text_of :: "payload \<Rightarrow> utext option" where
  "text_of (P_text t) = Some t" | "text_of _ = None"

fun first_caption :: "payload \<Rightarrow> string list \<Rightarrow> utext option" where
  "first_caption message [] = None"
| "first_caption message (k # ks) =
    (case text_of (payload_field (payload_field message k) ''caption'') of Some t \<Rightarrow> Some t | None \<Rightarrow> first_caption message ks)"

definition readPlainText :: "payload \<Rightarrow> utext option" where
  "readPlainText message =
    (case text_of (payload_field message ''conversation'') of Some t \<Rightarrow> Some t
     | None \<Rightarrow> (case text_of (payload_field (payload_field message ''extendedTextMessage'') ''text'') of Some t \<Rightarrow> Some t
     | None \<Rightarrow> first_caption message CAPTION_KEYS))"

definition fromPlainText :: "utext \<Rightarrow> utext option" where
  "fromPlainText text =
    (let trimmed = utrim text in if trimmed = [] then None else Some (take OPTOUT_CANDIDATE_MAX_CHARS trimmed))"

definition extractOptOutCandidateText :: "payload \<Rightarrow> utext option" where
  "extractOptOutCandidateText message =
    (if \<not> is_record message then None
     else let unwrapped = unwrapEnvelope (payload_field message ''message'') in
       if \<not> is_record unwrapped then None
       else Option.bind (readPlainText unwrapped) fromPlainText)"

section \<open>What is assumed of toLowerCase\<close>

text \<open>
  ASCII and Devanagari are folded as Unicode says; the output is made of code points that fold to themselves; a text of such
  code points is left alone; and no Devanagari code point appears from nowhere.
\<close>

definition lower_cp :: "int \<Rightarrow> int" where "lower_cp c = (if 65 \<le> c \<and> c \<le> 90 then c + 32 else c)"

definition devanagari :: "int \<Rightarrow> bool" where "devanagari c \<longleftrightarrow> 0x900 \<le> c \<and> c \<le> 0x97F"

definition js_lower :: "(utext \<Rightarrow> utext) \<Rightarrow> bool" where
  "js_lower lower \<longleftrightarrow>
    (\<forall>x. (\<forall>c\<in>set x. c < 128 \<or> devanagari c) \<longrightarrow> lower x = map lower_cp x) \<and>
    (\<forall>x. \<forall>c\<in>set (lower x). lower [c] = [c]) \<and>
    (\<forall>x. (\<forall>c\<in>set x. lower [c] = [c]) \<longrightarrow> lower x = x) \<and>
    (\<forall>x. \<forall>c\<in>set (lower x). devanagari c \<longrightarrow> c \<in> set x)"

lemma js_lowerD:
  assumes "js_lower lower"
  shows "(\<And>c. c \<in> set x \<Longrightarrow> c < 128 \<or> devanagari c) \<Longrightarrow> lower x = map lower_cp x"
    and "c \<in> set (lower x) \<Longrightarrow> lower [c] = [c]"
    and "(\<And>c. c \<in> set x \<Longrightarrow> lower [c] = [c]) \<Longrightarrow> lower x = x"
    and "c \<in> set (lower x) \<Longrightarrow> devanagari c \<Longrightarrow> c \<in> set x"
  using assms unfolding js_lower_def by blast+

text \<open>The folding of a text of ASCII letters and caseless code points; it obeys the laws.\<close>

lemma js_lower_ascii: "js_lower (map lower_cp)"
  unfolding js_lower_def devanagari_def by (auto simp: lower_cp_def map_idI split: if_splits)

section \<open>White space\<close>

lemma white_32 [simp]: "is_white 32"
  by (simp add: is_white_def)

lemma collapse_keeps: "c \<in> set (collapse_spaces b s) \<Longrightarrow> c \<in> set s \<or> c = 32"
  by (induction b s rule: collapse_spaces.induct) (auto split: if_splits)

lemma utrim_subset: "c \<in> set (utrim s) \<Longrightarrow> c \<in> set s"
  unfolding utrim_def by (auto simp: dropWhile_eq_drop dest!: in_set_dropD)

text \<open>Single spaces between words: a space follows no space, and no other white space is left.\<close>

fun spaced :: "bool \<Rightarrow> utext \<Rightarrow> bool" where
  "spaced b [] \<longleftrightarrow> True"
| "spaced b (c # cs) \<longleftrightarrow> (if is_white c then c = 32 \<and> \<not> b \<and> spaced True cs else spaced False cs)"

lemma spaced_collapse: "spaced b (collapse_spaces b s)"
  by (induction b s rule: collapse_spaces.induct) auto

lemma collapse_spaced: "spaced b s \<Longrightarrow> collapse_spaces b s = s"
  by (induction b s rule: spaced.induct) (auto split: if_splits)

lemma spaced_weaken: "spaced True s \<Longrightarrow> spaced b s"
  by (cases s) (auto split: if_splits)

lemma spaced_dropWhile: "spaced b s \<Longrightarrow> spaced b' (dropWhile is_white s)"
proof (induction s arbitrary: b)
  case (Cons c cs)
  then show ?case by (cases "is_white c") auto
qed simp

lemma spaced_append: "spaced b (xs @ ys) \<Longrightarrow> spaced b xs"
  by (induction xs arbitrary: b) (auto split: if_splits)

lemma dropWhile_tail: "\<exists>ys. s = rev (dropWhile p (rev s)) @ ys"
proof -
  have "rev s = takeWhile p (rev s) @ dropWhile p (rev s)" by simp
  then have "rev (rev s) = rev (dropWhile p (rev s)) @ rev (takeWhile p (rev s))" by (metis rev_append)
  then show ?thesis by auto
qed

lemma spaced_utrim: "spaced b s \<Longrightarrow> spaced b' (utrim s)"
  unfolding utrim_def using spaced_dropWhile [of b s b'] dropWhile_tail [of "dropWhile is_white s" is_white] spaced_append
  by metis

lemma utrim_ends: "utrim s = [] \<or> \<not> is_white (hd (utrim s)) \<and> \<not> is_white (last (utrim s))"
proof (cases "utrim s = []")
  case False
  define t where "t = dropWhile is_white s"
  define v where "v = dropWhile is_white (rev t)"
  have v: "v \<noteq> []" "utrim s = rev v" using False by (simp_all add: utrim_def t_def v_def)
  have lst: "\<not> is_white (last (utrim s))" using v hd_dropWhile [of is_white "rev t"] by (simp add: v_def last_rev)
  obtain ys where "t = rev v @ ys" using dropWhile_tail [of t is_white] by (auto simp: v_def)
  then have "hd t = hd (utrim s)" "t \<noteq> []" using v by auto
  then have "\<not> is_white (hd (utrim s))" using hd_dropWhile [of is_white s] by (simp add: t_def)
  then show ?thesis using lst by simp
qed simp

lemma utrim_id: "s = [] \<or> \<not> is_white (hd s) \<and> \<not> is_white (last s) \<Longrightarrow> utrim s = s"
proof -
  assume a: "s = [] \<or> \<not> is_white (hd s) \<and> \<not> is_white (last s)"
  then have "dropWhile is_white s = s" by (cases s) auto
  moreover have "dropWhile is_white (rev s) = rev s" using a by (cases "rev s") (auto simp flip: hd_rev)
  ultimately show "utrim s = s" by (simp add: utrim_def)
qed

section \<open>Normalisation is idempotent\<close>

definition indic :: "int \<Rightarrow> bool" where
  "indic c \<longleftrightarrow> c \<in> fst ` set DEVANAGARI_VOWELS \<or> c \<in> fst ` set DEVANAGARI_MARKS \<or> c \<in> fst ` set DEVANAGARI_CONSONANTS"

lemma indic_devanagari: "indic c \<Longrightarrow> devanagari c"
  by (auto simp: indic_def devanagari_def DEVANAGARI_VOWELS_def DEVANAGARI_MARKS_def DEVANAGARI_CONSONANTS_def)

lemma not_indic: "\<not> indic c \<Longrightarrow> map_of DEVANAGARI_VOWELS c = None \<and> map_of DEVANAGARI_MARKS c = None \<and> map_of DEVANAGARI_CONSONANTS c = None"
  by (simp add: indic_def map_of_eq_None_iff)

lemma transliterate_id: "(\<And>c. c \<in> set s \<Longrightarrow> \<not> indic c) \<Longrightarrow> transliterateDevanagari s = s"
  by (induction s) (auto simp: not_indic)

lemma ascii_not_indic: "c < 128 \<Longrightarrow> \<not> indic c"
  using indic_devanagari [of c] by (auto simp: devanagari_def)

definition ascii_values :: "(int \<times> string) list \<Rightarrow> bool" where
  "ascii_values t \<longleftrightarrow> list_all (\<lambda>(k, v). list_all (\<lambda>c. c < 128) (ascii v)) t"

lemma tables_ascii: "ascii_values DEVANAGARI_VOWELS" "ascii_values DEVANAGARI_MARKS" "ascii_values DEVANAGARI_CONSONANTS"
    "ascii_values DEVANAGARI_MATRAS"
  by code_simp+

lemma ascii_valuesD: "ascii_values t \<Longrightarrow> map_of t k = Some v \<Longrightarrow> c \<in> set (ascii v) \<Longrightarrow> c < 128"
  by (auto simp: ascii_values_def list_all_iff dest!: map_of_SomeD)

lemmas table_values = tables_ascii [THEN ascii_valuesD]

lemma letter_a: "c \<in> set (ascii ''a'') \<Longrightarrow> c < 128"
  by (simp add: ascii_def)

lemma transliterate_step:
  "\<exists>pre rest'. transliterateDevanagari (ch # rest) = pre @ transliterateDevanagari rest' \<and> length rest' \<le> length rest \<and>
     set rest' \<subseteq> set rest \<and> (\<forall>c\<in>set pre. c < 128 \<or> c = ch \<and> \<not> indic ch)" (is "\<exists>pre rest'. ?P pre rest'")
proof (cases "map_of DEVANAGARI_VOWELS ch")
  case vow: None
  show ?thesis
  proof (cases "map_of DEVANAGARI_MARKS ch")
    case mrk: None
    show ?thesis
    proof (cases "map_of DEVANAGARI_CONSONANTS ch")
      case None
      then have "\<not> indic ch" using vow mrk by (simp add: indic_def map_of_eq_None_iff)
      then have "?P [ch] rest" using vow mrk None by simp
      then show ?thesis by blast
    next
      case con: (Some k)
      note small = table_values(3) [OF con]
      show ?thesis
      proof (cases rest)
        case Nil
        then have "?P (ascii k @ ascii ''a'') []" using vow mrk con small letter_a by auto
        then show ?thesis by blast
      next
        case (Cons nxt rest')
        consider "nxt = VIRAMA" | m where "nxt \<noteq> VIRAMA" "map_of DEVANAGARI_MATRAS nxt = Some m"
          | "nxt \<noteq> VIRAMA" "map_of DEVANAGARI_MATRAS nxt = None" by (cases "map_of DEVANAGARI_MATRAS nxt") auto
        then show ?thesis
        proof cases
          case 1
          then have "?P (ascii k) rest'" using Cons vow mrk con small by auto
          then show ?thesis by blast
        next
          case 2
          then have "?P (ascii k @ ascii m) rest'" using Cons vow mrk con small table_values(4) [OF 2(2)] by auto
          then show ?thesis by blast
        next
          case 3
          then have "?P (ascii k @ ascii ''a'') rest" using Cons vow mrk con small letter_a by auto
          then show ?thesis by blast
        qed
      qed
    qed
  next
    case (Some v)
    then have "?P (ascii v) rest" using vow table_values(2) [OF Some] by auto
    then show ?thesis by blast
  qed
next
  case (Some v)
  then have "?P (ascii v) rest" using table_values(1) [OF Some] by auto
  then show ?thesis by blast
qed

lemma transliterate_out: "c \<in> set (transliterateDevanagari s) \<Longrightarrow> c < 128 \<or> c \<in> set s \<and> \<not> indic c"
proof (induction "length s" arbitrary: s rule: less_induct)
  case less
  show ?case
  proof (cases s)
    case (Cons ch rest)
    obtain pre rest' where step: "transliterateDevanagari (ch # rest) = pre @ transliterateDevanagari rest'"
        "length rest' \<le> length rest" "set rest' \<subseteq> set rest" "\<forall>c\<in>set pre. c < 128 \<or> c = ch \<and> \<not> indic ch"
      using transliterate_step [of ch rest] by blast
    consider "c \<in> set pre" | "c \<in> set (transliterateDevanagari rest')" using less.prems Cons step(1) by auto
    then show ?thesis
    proof cases
      case 1
      then show ?thesis using step(4) Cons by auto
    next
      case 2
      then show ?thesis using less.hyps [of rest'] step Cons by auto
    qed
  qed (use less.prems in simp)
qed

definition cleaned :: "(utext \<Rightarrow> utext) \<Rightarrow> utext \<Rightarrow> utext" where
  "cleaned lower text = filter (\<lambda>c. c \<notin> set PUNCTUATION) (replace_cp (\<lambda>c. c = VARIATION_SELECTOR_16)
     (replace_cp (\<lambda>c. c = ZERO_WIDTH_JOINER) (replace_cp is_emoji (lower (transliterateDevanagari text)))))"

lemma normalise_cleaned: "normaliseOptOutText lower text = utrim (collapse_spaces False (cleaned lower text))"
  by (simp add: normaliseOptOutText_def cleaned_def)

lemma cleaned_char:
  assumes "c \<in> set (cleaned lower text)"
  shows "c \<notin> set PUNCTUATION" "\<not> is_emoji c" "c \<noteq> ZERO_WIDTH_JOINER" "c \<noteq> VARIATION_SELECTOR_16"
    "c = 32 \<or> c \<in> set (lower (transliterateDevanagari text))"
proof -
  have s: "\<not> is_emoji 32" "32 \<noteq> ZERO_WIDTH_JOINER" "32 \<noteq> VARIATION_SELECTOR_16"
    by (simp_all add: is_emoji_def ZERO_WIDTH_JOINER_def VARIATION_SELECTOR_16_def)
  show "c \<notin> set PUNCTUATION" "\<not> is_emoji c" "c \<noteq> ZERO_WIDTH_JOINER" "c \<noteq> VARIATION_SELECTOR_16"
    "c = 32 \<or> c \<in> set (lower (transliterateDevanagari text))"
    using assms s by (auto simp: cleaned_def replace_cp_def split: if_splits)
qed

lemma plain_32: "32 \<notin> set PUNCTUATION" "\<not> is_emoji 32" "32 \<noteq> ZERO_WIDTH_JOINER" "32 \<noteq> VARIATION_SELECTOR_16" "\<not> indic 32"
  by (code_simp, code_simp, code_simp, code_simp, simp add: ascii_not_indic)

lemma replace_cp_id: "(\<And>c. c \<in> set s \<Longrightarrow> \<not> p c) \<Longrightarrow> replace_cp p s = s"
  by (simp add: replace_cp_def map_idI)

lemma normalised_char:
  assumes "c \<in> set (normaliseOptOutText lower text)"
  shows "c = 32 \<or> c \<in> set (cleaned lower text)"
  using assms unfolding normalise_cleaned by (meson collapse_keeps utrim_subset)

lemma normalise_fixed:
  assumes "\<And>c. c \<in> set s \<Longrightarrow> \<not> indic c" "lower s = s"
    and "\<And>c. c \<in> set s \<Longrightarrow> c \<notin> set PUNCTUATION \<and> \<not> is_emoji c \<and> c \<noteq> ZERO_WIDTH_JOINER \<and> c \<noteq> VARIATION_SELECTOR_16"
    and "spaced False s" "s = [] \<or> \<not> is_white (hd s) \<and> \<not> is_white (last s)"
  shows "normaliseOptOutText lower s = s"
proof -
  have "cleaned lower s = s"
    using assms(1-3) by (simp add: cleaned_def transliterate_id replace_cp_id filter_id_conv)
  then show ?thesis using assms(4,5) by (simp add: normalise_cleaned collapse_spaced utrim_id)
qed

lemma normalise_idempotent:
  assumes "js_lower lower"
  shows "normaliseOptOutText lower (normaliseOptOutText lower text) = normaliseOptOutText lower text"
proof (rule normalise_fixed)
  fix c assume c: "c \<in> set (normaliseOptOutText lower text)"
  show "\<not> indic c"
  proof
    assume i: "indic c"
    then have "c \<noteq> 32" using plain_32(5) by blast
    then have l: "c \<in> set (lower (transliterateDevanagari text))"
      using normalised_char [OF c] cleaned_char(5) by blast
    have "c \<in> set (transliterateDevanagari text)"
      by (rule js_lowerD(4) [OF assms l indic_devanagari [OF i]])
    then show False using transliterate_out [of c "text"] i ascii_not_indic by blast
  qed
  show "c \<notin> set PUNCTUATION \<and> \<not> is_emoji c \<and> c \<noteq> ZERO_WIDTH_JOINER \<and> c \<noteq> VARIATION_SELECTOR_16"
    using normalised_char [OF c] cleaned_char(1-4) plain_32(1-4) by metis
next
  have l32: "lower [32] = [32]" using js_lowerD(1) [OF assms, of "[32]"] by (simp add: lower_cp_def)
  show "lower (normaliseOptOutText lower text) = normaliseOptOutText lower text"
  proof (rule js_lowerD(3) [OF assms])
    fix c assume "c \<in> set (normaliseOptOutText lower text)"
    then show "lower [c] = [c]"
      using normalised_char cleaned_char(5) js_lowerD(2) [OF assms] l32 by metis
  qed
qed (simp_all add: normalise_cleaned spaced_utrim [OF spaced_collapse] utrim_ends)

section \<open>The matcher\<close>

definition hears :: "utext list \<Rightarrow> utext list \<Rightarrow> bool" where
  "hears messageTokens keywordTokens \<longleftrightarrow> keywordTokens \<noteq> [] \<and> prefix keywordTokens messageTokens \<and>
     (messageTokens = keywordTokens \<or> length messageTokens \<le> MAX_PREFIX_MATCH_TOKENS)"

lemma startsWithTokenPrefix_prefix: "startsWithTokenPrefix m k \<longleftrightarrow> prefix k m"
proof
  assume "startsWithTokenPrefix m k"
  then have le: "length k \<le> length m" and eq: "\<forall>i<length k. m ! i = k ! i"
    by (auto simp: startsWithTokenPrefix_def list_all_iff split: if_splits)
  then have "take (length k) m = k" by (intro nth_equalityI) auto
  then show "prefix k m" by (metis take_is_prefix)
qed (auto simp: startsWithTokenPrefix_def list_all_iff prefix_def nth_append)

lemma match_find: "matchOptOutKeyword lower text ks = find (\<lambda>k. hears (opt_tokens lower text) (opt_tokens lower k)) ks"
proof -
  have "(let keywordTokens = opt_tokens lower k in
      if length keywordTokens = 0 then False
      else if length m = length keywordTokens \<and> startsWithTokenPrefix m keywordTokens then True
      else length m \<le> MAX_PREFIX_MATCH_TOKENS \<and> startsWithTokenPrefix m keywordTokens) = hears m (opt_tokens lower k)" for m k
    by (auto simp: hears_def startsWithTokenPrefix_prefix Let_def prefix_def)
  moreover have "\<not> hears [] t" for t by (auto simp: hears_def)
  moreover have "find (\<lambda>_. False) ks = None" by (induction ks) auto
  ultimately show ?thesis by (auto simp: matchOptOutKeyword_def match_keywords_def Let_def)
qed

lemma find_app: "find P (xs @ ys) = (case find P xs of None \<Rightarrow> find P ys | Some x \<Rightarrow> Some x)"
  by (induction xs) auto

lemma find_map: "find P (map f xs) = map_option f (find (\<lambda>x. P (f x)) xs)"
  by (induction xs) auto

lemma opt_tokens_normalised: "js_lower lower \<Longrightarrow> opt_tokens lower (normaliseOptOutText lower t) = opt_tokens lower t"
  by (simp add: opt_tokens_def normalise_idempotent)

text \<open>ASCII and Devanagari texts are read the same whatever else the folding does.\<close>

definition simple_text :: "utext \<Rightarrow> bool" where
  "simple_text t \<longleftrightarrow> (\<forall>c\<in>set t. c < 128 \<or> devanagari c)"

lemma opt_tokens_simple: "js_lower lower \<Longrightarrow> simple_text t \<Longrightarrow> opt_tokens lower t = opt_tokens (map lower_cp) t"
proof -
  assume j: "js_lower lower" and t: "simple_text t"
  have "lower (transliterateDevanagari t) = map lower_cp (transliterateDevanagari t)"
    by (rule js_lowerD(1) [OF j]) (use transliterate_out [of _ t] t in \<open>auto simp: simple_text_def\<close>)
  then show "opt_tokens lower t = opt_tokens (map lower_cp) t" by (simp add: opt_tokens_def normalise_cleaned cleaned_def)
qed

lemma match_simple:
  assumes "js_lower lower" "simple_text t" "\<And>k. k \<in> set ks \<Longrightarrow> simple_text k"
  shows "matchOptOutKeyword lower t ks = matchOptOutKeyword (map lower_cp) t ks"
proof -
  have "find (\<lambda>k. hears m (opt_tokens lower k)) ks = find (\<lambda>k. hears m (opt_tokens (map lower_cp) k)) ks" for m
    using assms(3) by (induction ks) (simp_all add: opt_tokens_simple [OF assms(1)])
  then show ?thesis by (simp add: match_find opt_tokens_simple [OF assms(1,2)])
qed

lemma platform_simple: "k \<in> set PLATFORM_OPTOUT_KEYWORDS \<Longrightarrow> simple_text k"
proof -
  have "list_all (\<lambda>k. list_all (\<lambda>c. c < 128 \<or> devanagari c) k) PLATFORM_OPTOUT_KEYWORDS" by code_simp
  then show "k \<in> set PLATFORM_OPTOUT_KEYWORDS \<Longrightarrow> simple_text k" by (auto simp: list_all_iff simple_text_def)
qed

section \<open>The keyword list\<close>

lemma resolve_keywords_Ok:
  assumes "resolve_keywords lower seen resolved tks = Ok ks"
    and "set seen = normaliseOptOutText lower ` set resolved"
  shows "\<exists>extra. ks = resolved @ extra \<and> set extra \<subseteq> set tks \<and> distinct (map (normaliseOptOutText lower) extra) \<and>
    (\<forall>e\<in>set extra. normaliseOptOutText lower e \<notin> set seen) \<and>
    (\<forall>t\<in>set tks. normaliseOptOutText lower t \<in> normaliseOptOutText lower ` set ks)"
  using assms
proof (induction tks arbitrary: seen resolved)
  case (Cons raw raws)
  let ?n = "normaliseOptOutText lower"
  show ?case
  proof (cases "?n raw \<in> set seen")
    case True
    then have r: "resolve_keywords lower seen resolved raws = Ok ks" using Cons.prems(1) by (simp add: Let_def split: if_splits)
    obtain extra where e: "ks = resolved @ extra" "set extra \<subseteq> set raws" "distinct (map ?n extra)"
        "\<forall>e\<in>set extra. ?n e \<notin> set seen" "\<forall>t\<in>set raws. ?n t \<in> ?n ` set ks"
      using Cons.IH [OF r Cons.prems(2)] by blast
    have "?n raw \<in> ?n ` set ks" using True Cons.prems(2) e(1) by auto
    then show ?thesis using e by (intro exI [of _ extra]) auto
  next
    case False
    then have r: "resolve_keywords lower (seen @ [?n raw]) (resolved @ [raw]) raws = Ok ks"
      using Cons.prems(1) by (simp add: Let_def split: if_splits)
    obtain extra where e: "ks = (resolved @ [raw]) @ extra" "set extra \<subseteq> set raws" "distinct (map ?n extra)"
        "\<forall>e\<in>set extra. ?n e \<notin> set (seen @ [?n raw])" "\<forall>t\<in>set raws. ?n t \<in> ?n ` set ks"
      using Cons.IH [OF r] Cons.prems(2) by auto
    then show ?thesis using False by (intro exI [of _ "raw # extra"]) auto
  qed
qed simp

lemma resolve_keywords_Err:
  "(\<exists>e. resolve_keywords lower seen resolved tks = Err e) \<longleftrightarrow>
   (\<exists>t\<in>set tks. normaliseOptOutText lower t \<in> normaliseOptOutText lower ` set PLATFORM_OPTOUT_KEYWORDS)"
  by (induction lower seen resolved tks rule: resolve_keywords.induct) (auto simp: Let_def)

text \<open>The words of the platform's keywords.\<close>

lemma platform_table: "map (\<lambda>k. (k, opt_tokens (map lower_cp) k)) PLATFORM_OPTOUT_KEYWORDS =
    [(ascii ''stop'', [[115, 116, 111, 112]]),
     (ascii ''stopall'', [[115, 116, 111, 112, 97, 108, 108]]),
     (ascii ''unsubscribe'', [[117, 110, 115, 117, 98, 115, 99, 114, 105, 98, 101]]),
     (ascii ''opt out'', [[111, 112, 116], [111, 117, 116]]),
     (ascii ''optout'', [[111, 112, 116, 111, 117, 116]]),
     (ascii ''remove me'', [[114, 101, 109, 111, 118, 101], [109, 101]]),
     (ascii ''do not message'', [[100, 111], [110, 111, 116], [109, 101, 115, 115, 97, 103, 101]]),
     (ascii ''dnd'', [[100, 110, 100]]),
     (ascii ''band karo'', [[98, 97, 110, 100], [107, 97, 114, 111]]),
     (ascii ''band karo message'', [[98, 97, 110, 100], [107, 97, 114, 111], [109, 101, 115, 115, 97, 103, 101]]),
     (ascii ''mat bhejo'', [[109, 97, 116], [98, 104, 101, 106, 111]]),
     (ascii ''rok do'', [[114, 111, 107], [100, 111]]),
     ([0x92C, 0x902, 0x926, 0x20, 0x915, 0x930, 0x94B], [[98, 97, 110, 100, 97], [107, 97, 114, 111]]),
     ([0x930, 0x94B, 0x915, 0x94B], [[114, 111, 107, 111]]),
     ([0x939, 0x91F, 0x93E, 0x913], [[104, 97, 116, 97, 97, 111]])]"
  by code_simp

lemma match_table:
  "matchOptOutKeyword lower t ks =
     map_option fst (find (\<lambda>p. hears (opt_tokens lower t) (snd p)) (map (\<lambda>k. (k, opt_tokens lower k)) ks))"
  by (simp add: match_find find_map option.map_comp o_def option.map_ident)

lemma three: "drop 12 PLATFORM_OPTOUT_KEYWORDS = [[0x92C, 0x902, 0x926, 0x20, 0x915, 0x930, 0x94B], [0x930, 0x94B, 0x915, 0x94B], [0x939, 0x91F, 0x93E, 0x913]]"
  by (simp add: PLATFORM_OPTOUT_KEYWORDS_def)

lemma hindi_tokens:
  "opt_tokens (map lower_cp) [0x92C, 0x902, 0x926, 0x20, 0x915, 0x930, 0x94B] = [[98, 97, 110, 100, 97], [107, 97, 114, 111]]"
  "opt_tokens (map lower_cp) [0x92C, 0x902, 0x926, 0x20, 0x915, 0x930, 0x94B, 0x964] = [[98, 97, 110, 100, 97], [107, 97, 114, 111, 2404]]"
  "opt_tokens (map lower_cp) [0x930, 0x94B, 0x915, 0x94B] = [[114, 111, 107, 111]]"
  "opt_tokens (map lower_cp) [0x930, 0x94B, 0x915, 0x94B, 0x964] = [[114, 111, 107, 111, 2404]]"
  "opt_tokens (map lower_cp) [0x939, 0x91F, 0x93E, 0x913] = [[104, 97, 116, 97, 97, 111]]"
  "opt_tokens (map lower_cp) [0x939, 0x91F, 0x93E, 0x913, 0x964] = [[104, 97, 116, 97, 97, 111, 2404]]"
  by code_simp+

lemma hindi_match:
  "matchOptOutKeyword (map lower_cp) [0x92C, 0x902, 0x926, 0x20, 0x915, 0x930, 0x94B] PLATFORM_OPTOUT_KEYWORDS = Some [0x92C, 0x902, 0x926, 0x20, 0x915, 0x930, 0x94B]"
  "matchOptOutKeyword (map lower_cp) [0x92C, 0x902, 0x926, 0x20, 0x915, 0x930, 0x94B, 0x964] PLATFORM_OPTOUT_KEYWORDS = None"
  "matchOptOutKeyword (map lower_cp) [0x930, 0x94B, 0x915, 0x94B] PLATFORM_OPTOUT_KEYWORDS = Some [0x930, 0x94B, 0x915, 0x94B]"
  "matchOptOutKeyword (map lower_cp) [0x930, 0x94B, 0x915, 0x94B, 0x964] PLATFORM_OPTOUT_KEYWORDS = None"
  "matchOptOutKeyword (map lower_cp) [0x939, 0x91F, 0x93E, 0x913] PLATFORM_OPTOUT_KEYWORDS = Some [0x939, 0x91F, 0x93E, 0x913]"
  "matchOptOutKeyword (map lower_cp) [0x939, 0x91F, 0x93E, 0x913, 0x964] PLATFORM_OPTOUT_KEYWORDS = None"
  by (simp_all only: match_table platform_table hindi_tokens) code_simp+

section \<open>Properties\<close>

text \<open>
  C35. A tenant can only add to the platform's opt-out keywords. The resolved list is refused exactly when a tenant keyword
  normalises to a platform one; otherwise it holds every tenant keyword up to spelling, and a message that the platform list
  alone recognises is recognised by the resolved list as the same keyword. A keyword matches only as whole leading words,
  and in a message of more than four words only as the whole message.
\<close>
theorem tenant_keywords_only_add:
  "case resolveOptOutKeywords lower tks of
     Err e \<Rightarrow> \<exists>t\<in>set tks. normaliseOptOutText lower t \<in> normaliseOptOutText lower ` set PLATFORM_OPTOUT_KEYWORDS
   | Ok ks \<Rightarrow> (\<forall>t\<in>set tks. normaliseOptOutText lower t \<notin> normaliseOptOutText lower ` set PLATFORM_OPTOUT_KEYWORDS \<and>
         normaliseOptOutText lower t \<in> normaliseOptOutText lower ` set ks) \<and>
       (\<forall>message k. matchOptOutKeyword lower message PLATFORM_OPTOUT_KEYWORDS = Some k \<longrightarrow>
         matchOptOutKeyword lower message ks = Some k) \<and>
       (\<forall>message k. matchOptOutKeyword lower message ks = Some k \<longrightarrow>
         k \<in> set PLATFORM_OPTOUT_KEYWORDS \<union> set tks \<and> prefix (opt_tokens lower k) (opt_tokens lower message) \<and>
         (length (opt_tokens lower message) \<le> 4 \<or> opt_tokens lower message = opt_tokens lower k))"
proof (cases "resolveOptOutKeywords lower tks")
  case (Inl e)
  then have "\<exists>e. resolve_keywords lower (map (normaliseOptOutText lower) PLATFORM_OPTOUT_KEYWORDS) PLATFORM_OPTOUT_KEYWORDS tks = Err e"
    by (simp add: resolveOptOutKeywords_def)
  then show ?thesis using Inl resolve_keywords_Err by simp
next
  case (Inr ks)
  then have r: "resolve_keywords lower (map (normaliseOptOutText lower) PLATFORM_OPTOUT_KEYWORDS) PLATFORM_OPTOUT_KEYWORDS tks = Ok ks"
    by (simp add: resolveOptOutKeywords_def)
  obtain extra where e: "ks = PLATFORM_OPTOUT_KEYWORDS @ extra" "set extra \<subseteq> set tks"
      "\<forall>t\<in>set tks. normaliseOptOutText lower t \<in> normaliseOptOutText lower ` set ks"
    using resolve_keywords_Ok [OF r] by auto
  have no: "\<forall>t\<in>set tks. normaliseOptOutText lower t \<notin> normaliseOptOutText lower ` set PLATFORM_OPTOUT_KEYWORDS"
    using resolve_keywords_Err [of lower] r by (metis sum.distinct(1))
  have only: "k \<in> set PLATFORM_OPTOUT_KEYWORDS \<union> set tks \<and> hears (opt_tokens lower message) (opt_tokens lower k)"
    if "matchOptOutKeyword lower message ks = Some k" for message k
  proof -
    have "k \<in> set ks \<and> hears (opt_tokens lower message) (opt_tokens lower k)"
      using that unfolding match_find find_Some_iff by (metis nth_mem)
    then show ?thesis using e(1,2) by auto
  qed
  have kept: "matchOptOutKeyword lower message PLATFORM_OPTOUT_KEYWORDS = Some k \<Longrightarrow> matchOptOutKeyword lower message ks = Some k"
    for message k by (simp add: match_find find_app e(1))
  have words: "hears m t \<Longrightarrow> prefix t m \<and> (length m \<le> 4 \<or> m = t)" for m t
    by (simp add: hears_def MAX_PREFIX_MATCH_TOKENS_def) blast
  show ?thesis unfolding Inr sum.case using e(3) no kept only words by blast
qed

theorem tenant_keywords_only_add_witness:
  "matchOptOutKeyword (map lower_cp) (ascii ''Stop!'') (PLATFORM_OPTOUT_KEYWORDS @ [ascii ''halt'']) = Some (ascii ''stop'')"
proof -
  have r: "resolveOptOutKeywords (map lower_cp) [ascii ''halt''] = Ok (PLATFORM_OPTOUT_KEYWORDS @ [ascii ''halt''])" by code_simp
  have "opt_tokens (map lower_cp) (ascii ''Stop!'') = [[115, 116, 111, 112]]" by code_simp
  then have "matchOptOutKeyword (map lower_cp) (ascii ''Stop!'') PLATFORM_OPTOUT_KEYWORDS = Some (ascii ''stop'')"
    by (simp only: match_table platform_table) code_simp
  then show ?thesis using tenant_keywords_only_add [where lower = "map lower_cp" and tks = "[ascii ''halt'']", unfolded r sum.case] by blast
qed

text \<open>
  The matcher reads normal forms only, on both sides: replacing the message or the keywords by their normal forms
  changes nothing, so case, punctuation, emoji and spacing never hide an opt-out.
\<close>
theorem match_reads_normal_forms:
  assumes "js_lower lower"
  shows "matchOptOutKeyword lower (normaliseOptOutText lower message) ks = matchOptOutKeyword lower message ks \<and>
    matchOptOutKeyword lower message (map (normaliseOptOutText lower) ks) =
      map_option (normaliseOptOutText lower) (matchOptOutKeyword lower message ks)"
  using assms by (simp_all add: match_find opt_tokens_normalised find_map)

theorem match_reads_normal_forms_witness:
  "matchOptOutKeyword (map lower_cp) (ascii ''  Stop!! '') PLATFORM_OPTOUT_KEYWORDS = Some (ascii ''stop'') \<and>
   matchOptOutKeyword (map lower_cp) (normaliseOptOutText (map lower_cp) (ascii ''  Stop!! '')) PLATFORM_OPTOUT_KEYWORDS = Some (ascii ''stop'')"
proof -
  have "opt_tokens (map lower_cp) (ascii ''  Stop!! '') = [[115, 116, 111, 112]]" by code_simp
  then have "matchOptOutKeyword (map lower_cp) (ascii ''  Stop!! '') PLATFORM_OPTOUT_KEYWORDS = Some (ascii ''stop'')"
    by (simp only: match_table platform_table) code_simp
  then show ?thesis using match_reads_normal_forms [OF js_lower_ascii, of "ascii ''  Stop!! ''" PLATFORM_OPTOUT_KEYWORDS] by simp
qed

text \<open>
  A danda, the full stop of Hindi, hides every Hindi keyword that does not end in a bare consonant: the table takes the
  danda only directly after a consonant and the punctuation class does not hold it, so the keyword followed by one is not
  recognised, while the keyword alone is. The Hindi keyword and its Latin spelling do not share a normal form either.
\<close>
theorem danda_hides_hindi_keyword:
  assumes "js_lower lower" "keyword \<in> set (drop 12 PLATFORM_OPTOUT_KEYWORDS)"
  shows "matchOptOutKeyword lower keyword PLATFORM_OPTOUT_KEYWORDS = Some keyword \<and>
    matchOptOutKeyword lower (keyword @ [0x964]) PLATFORM_OPTOUT_KEYWORDS = None \<and>
    normaliseOptOutText lower (PLATFORM_OPTOUT_KEYWORDS ! 12) \<noteq> normaliseOptOutText lower (ascii ''band karo'')"
proof (intro conjI)
  have ks: "simple_text keyword" using assms(2) platform_simple in_set_dropD by metis
  then have ks': "simple_text (keyword @ [0x964])" by (auto simp: simple_text_def devanagari_def)
  have "list_all (\<lambda>k. matchOptOutKeyword (map lower_cp) k PLATFORM_OPTOUT_KEYWORDS = Some k \<and>
      matchOptOutKeyword (map lower_cp) (k @ [0x964]) PLATFORM_OPTOUT_KEYWORDS = None) (drop 12 PLATFORM_OPTOUT_KEYWORDS)"
    by (simp add: three hindi_match)
  then show "matchOptOutKeyword lower keyword PLATFORM_OPTOUT_KEYWORDS = Some keyword"
    "matchOptOutKeyword lower (keyword @ [0x964]) PLATFORM_OPTOUT_KEYWORDS = None"
    using assms(2) match_simple [OF assms(1) ks platform_simple] match_simple [OF assms(1) ks' platform_simple]
    by (auto simp: list_all_iff)
  have "opt_tokens (map lower_cp) (PLATFORM_OPTOUT_KEYWORDS ! 12) \<noteq> opt_tokens (map lower_cp) (ascii ''band karo'')"
    by code_simp
  moreover have "simple_text (PLATFORM_OPTOUT_KEYWORDS ! 12)" "simple_text (ascii ''band karo'')"
    by (rule platform_simple, code_simp)+
  ultimately have "opt_tokens lower (PLATFORM_OPTOUT_KEYWORDS ! 12) \<noteq> opt_tokens lower (ascii ''band karo'')"
    using opt_tokens_simple [OF assms(1)] by simp
  then show "normaliseOptOutText lower (PLATFORM_OPTOUT_KEYWORDS ! 12) \<noteq> normaliseOptOutText lower (ascii ''band karo'')"
    by (auto simp: opt_tokens_def)
qed

theorem danda_hides_hindi_keyword_witness:
  "matchOptOutKeyword (map lower_cp) [0x930, 0x94B, 0x915, 0x94B, 0x964] PLATFORM_OPTOUT_KEYWORDS = None"
proof -
  have "[0x930, 0x94B, 0x915, 0x94B] \<in> set (drop 12 PLATFORM_OPTOUT_KEYWORDS)" by code_simp
  from danda_hides_hindi_keyword [OF js_lower_ascii this] show ?thesis by simp
qed

end
