(* ===== verification/Messages.thy ===== *)
theory Messages
  imports Optout_Text Broadcast Session Scheduling Guards
begin

text \<open>
  The way of a message into the queue, and of an opt-out out of it, for one tenant: the enqueue API
  (\<open>modules/messages\<close>), the opt-out registry, its restore and its mirror in the contacts
  (\<open>modules/pacing/optout\<close>, \<open>modules/contacts/optout-mirror.ts\<close>, \<open>mirror-reconcile.ts\<close>), the confirmation
  (\<open>modules/pacing/internal/system-send.ts\<close>) and the handling of an inbound message
  (\<open>modules/inbound/optout-detect.ts\<close>, \<open>message-signals.ts\<close>). A definition is one transaction of
  \<open>withTenant\<close>, or one statement of it; an error is \<open>Err\<close> and rolls the transaction back. \<open>hashRecipient\<close>, the
  keyed hash of an address, is a parameter.
\<close>

section \<open>The tables\<close>

datatype optout_scope = OO_client | OO_instance

record opt_out =
  oo_id :: nat
  oo_scope :: optout_scope
  oo_key :: string
  oo_hash :: string
  oo_source :: string
  oo_keyword :: "utext option"
  oo_origin :: "string option"
  oo_created :: int
  oo_restored :: "int option"
  oo_restored_by :: "string option"
  oo_reason :: "utext option"

record out_job =
  oj_id :: nat
  oj_instance :: string
  oj_jid :: string
  oj_e164 :: "string option"
  oj_hash :: string
  oj_origin :: send_origin
  oj_kind :: string
  oj_rank :: int
  oj_scheduled :: int
  oj_status :: job_status
  oj_cancel_reason :: "string option"
  oj_deny_reason :: "string option"
  oj_terminal :: "int option"

record out_ref =
  rf_public :: string
  rf_instance :: string
  rf_job :: nat
  rf_key :: string
  rf_request :: string

record mirror_contact =
  mc_id :: nat
  mc_hash :: string
  mc_phone :: string
  mc_lid :: "string option"
  mc_deleted :: bool
  mc_opted_out :: bool
  mc_opted_out_at :: "int option"
  mc_last_inbound :: "int option"

record tenant_db =
  td_client :: string
  td_instances :: "string \<Rightarrow> (wa_link \<times> wa_health) option"
  td_jobs :: "out_job list"
  td_next_job :: nat
  td_refs :: "out_ref list"
  td_events :: "(string \<times> nat \<times> string) list"
  td_audit :: "(string \<times> string \<times> string option) list"
  td_optouts :: "opt_out list"
  td_next_optout :: nat
  td_confirmed :: "string \<Rightarrow> int option"
  td_pacing_events :: "(string \<times> send_origin \<times> bool) list"
  td_contacts :: "mirror_contact list"
  td_first_inbound :: "string \<times> string \<Rightarrow> int option"
  td_keywords :: "utext list"
  td_groups :: "wa_group list"
  td_group_cap :: "string \<Rightarrow> int option"
  td_group_touched :: "string \<times> string \<Rightarrow> int option"
  td_media :: "(string \<times> string) list"
  td_onboarding :: string

datatype message_error =
    Instance_not_found | Instance_unlinked | Queue_depth_cap_exceeded | Recipient_opted_out | Idempotency_key_reused
  | Media_asset_not_found | Unknown_message_kind string | Group_send_rejected group_reason | Not_a_group string
  | Forbidden_restore_actor | Restore_reason_empty | Opt_out_not_found | Keyword_shadows_platform utext
  | Bad_e164 string

section \<open>optout/registry.ts\<close>

definition is_live :: "string \<Rightarrow> opt_out \<Rightarrow> bool" where
  "is_live h row \<longleftrightarrow> oo_hash row = h \<and> oo_restored row = None"

definition isOptedOut :: "string \<Rightarrow> string \<Rightarrow> tenant_db \<Rightarrow> bool" where
  "isOptedOut inst h db \<longleftrightarrow>
    list_ex (\<lambda>row. is_live h row \<and>
      (oo_scope row = OO_client \<and> oo_key row = td_client db \<or> oo_scope row = OO_instance \<and> oo_key row = inst)) (td_optouts db)"

text \<open>\<open>optout-mirror.ts\<close>: what the registry says of a hash, in any scope, and the guarded update of the contacts.\<close>

definition derived :: "string \<Rightarrow> tenant_db \<Rightarrow> bool \<times> int option" where
  "derived h db =
    (let rows = filter (is_live h) (td_optouts db) in
     (rows \<noteq> [], if rows = [] then None else Some (fold min (map oo_created (tl rows)) (oo_created (hd rows)))))"

definition drifted :: "tenant_db \<Rightarrow> mirror_contact \<Rightarrow> bool" where
  "drifted db c \<longleftrightarrow> \<not> mc_deleted c \<and>
     (mc_opted_out c \<noteq> fst (derived (mc_hash c) db) \<or> mc_opted_out_at c \<noteq> snd (derived (mc_hash c) db))"

definition repaired :: "tenant_db \<Rightarrow> mirror_contact \<Rightarrow> mirror_contact" where
  "repaired db c = c\<lparr>mc_opted_out := fst (derived (mc_hash c) db), mc_opted_out_at := snd (derived (mc_hash c) db)\<rparr>"

definition syncOptOutMirror :: "string \<Rightarrow> tenant_db \<Rightarrow> tenant_db" where
  "syncOptOutMirror h db =
    db\<lparr>td_contacts := map (\<lambda>c. if mc_hash c = h \<and> drifted db c then repaired db c else c) (td_contacts db)\<rparr>"

text \<open>The insert of \<open>recordOptOut\<close> is void when the partial unique index \<open>opt_outs_lookup\<close> has a row; the mirror runs anyway.\<close>

definition recordOptOut ::
  "optout_scope \<Rightarrow> string \<Rightarrow> string \<Rightarrow> string \<Rightarrow> utext option \<Rightarrow> string option \<Rightarrow> int \<Rightarrow> tenant_db \<Rightarrow> bool \<times> tenant_db" where
  "recordOptOut scope key h source keyword origin now db =
    (let taken = list_ex (\<lambda>row. is_live h row \<and> oo_key row = key) (td_optouts db);
         db1 = (if taken then db
                else db\<lparr>td_optouts := td_optouts db @ [\<lparr>oo_id = td_next_optout db, oo_scope = scope, oo_key = key, oo_hash = h,
                        oo_source = source, oo_keyword = keyword, oo_origin = origin, oo_created = now,
                        oo_restored = None, oo_restored_by = None, oo_reason = None\<rparr>],
                      td_next_optout := td_next_optout db + 1\<rparr>)
     in (\<not> taken, syncOptOutMirror h db1))"

text \<open>\<open>cancel-optout-jobs.sql\<close>; \<open>instance_id = NULL\<close> is no match.\<close>

definition cancelled_by :: "string \<Rightarrow> optout_scope \<Rightarrow> string option \<Rightarrow> out_job \<Rightarrow> bool" where
  "cancelled_by h scope inst j \<longleftrightarrow>
    oj_hash j = h \<and> oj_status j = Job_queued \<and> \<not> ends_with (oj_jid j) ''@g.us'' \<and>
    (scope \<noteq> OO_instance \<or> inst = Some (oj_instance j))"

definition cancelOptOutJobs :: "string \<Rightarrow> optout_scope \<Rightarrow> string option \<Rightarrow> int \<Rightarrow> tenant_db \<Rightarrow> nat list \<times> tenant_db" where
  "cancelOptOutJobs h scope inst now db =
    (map oj_id (filter (cancelled_by h scope inst) (td_jobs db)),
     db\<lparr>td_jobs := map (\<lambda>j. if cancelled_by h scope inst j
         then j\<lparr>oj_status := Job_cancelled, oj_cancel_reason := Some ''opt_out'', oj_deny_reason := Some ''OPT_OUT'',
                oj_terminal := Some now\<rparr> else j) (td_jobs db)\<rparr>)"

section \<open>optout/restore.ts\<close>

datatype restore_actor = Restore_user "string option" | Restore_api_key | Restore_system

fun assertHumanActor :: "restore_actor \<Rightarrow> (message_error, string) result" where
  "assertHumanActor (Restore_user (Some user)) = (if user = [] then Err Forbidden_restore_actor else Ok user)"
| "assertHumanActor _ = Err Forbidden_restore_actor"

definition assertTypedReason :: "utext \<Rightarrow> (message_error, utext) result" where
  "assertTypedReason reason = (if utrim reason = [] then Err Restore_reason_empty else Ok (utrim reason))"

definition restoreOptOut :: "nat \<Rightarrow> restore_actor \<Rightarrow> utext \<Rightarrow> int \<Rightarrow> tenant_db \<Rightarrow> (message_error, tenant_db) result" where
  "restoreOptOut optOutId actor restoreReason now db =
    bindR (assertHumanActor actor) (\<lambda>user.
    bindR (assertTypedReason restoreReason) (\<lambda>reason.
      case find (\<lambda>row. oo_id row = optOutId \<and> oo_restored row = None) (td_optouts db) of
        None \<Rightarrow> Err Opt_out_not_found
      | Some restored \<Rightarrow>
          Ok (syncOptOutMirror (oo_hash restored)
            (db\<lparr>td_optouts := map (\<lambda>row. if oo_id row = optOutId \<and> oo_restored row = None
                   then row\<lparr>oo_restored := Some now, oo_restored_by := Some user, oo_reason := Some reason\<rparr> else row)
                   (td_optouts db),
                td_audit := td_audit db @ [(''optout.restore'', dec optOutId, Some user)]\<rparr>))))"

section \<open>contacts/mirror-reconcile.ts\<close>

text \<open>\<open>reconcile-optout-mirror.sql\<close>: the first \<open>limit\<close> drifted contacts are repaired.\<close>

fun reconcile_contacts :: "tenant_db \<Rightarrow> nat \<Rightarrow> mirror_contact list \<Rightarrow> mirror_contact list" where
  "reconcile_contacts db n [] = []"
| "reconcile_contacts db n (c # cs) =
    (if drifted db c then (case n of 0 \<Rightarrow> c # cs | Suc k \<Rightarrow> repaired db c # reconcile_contacts db k cs)
     else c # reconcile_contacts db n cs)"

definition reconcile_optout_mirror :: "nat \<Rightarrow> tenant_db \<Rightarrow> nat \<times> tenant_db" where
  "reconcile_optout_mirror limit db =
    (min limit (length (filter (drifted db) (td_contacts db))), db\<lparr>td_contacts := reconcile_contacts db limit (td_contacts db)\<rparr>)"

text \<open>One sweep over the tenants, each in its own transaction; the clients scanned and the contacts repaired.\<close>

fun runOneMirrorReconcileSweep :: "nat \<Rightarrow> tenant_db list \<Rightarrow> (nat \<times> nat) \<times> tenant_db list" where
  "runOneMirrorReconcileSweep limit [] = ((0, 0), [])"
| "runOneMirrorReconcileSweep limit (db # dbs) =
    (let (repaired_here, db') = reconcile_optout_mirror limit db;
         ((scanned, total), dbs') = runOneMirrorReconcileSweep limit dbs
     in ((scanned + 1, total + repaired_here), db' # dbs'))"

section \<open>messages.repo.ts\<close>

datatype job_priority = Prio_high | Prio_normal | Prio_low

fun PRIORITY_TO_BAND :: "job_priority \<Rightarrow> band" where
  "PRIORITY_TO_BAND Prio_high = HIGH" | "PRIORITY_TO_BAND Prio_normal = NORMAL" | "PRIORITY_TO_BAND Prio_low = LOW"

definition priorityRankFor :: "job_priority \<Rightarrow> int" where
  "priorityRankFor priority = DEFAULT_BAND_WEIGHTS (PRIORITY_TO_BAND priority)"

record enqueue_input =
  ei_instance :: string
  ei_key :: string
  ei_request :: string
  ei_jid :: string
  ei_e164 :: "string option"
  ei_hash :: string
  ei_origin :: send_origin
  ei_kind :: string
  ei_priority :: job_priority
  ei_scheduled :: "int option"
  ei_user :: "string option"

record enqueue_result =
  er_public :: string
  er_created :: bool
  er_request :: string

definition new_job :: "enqueue_input \<Rightarrow> int \<Rightarrow> nat \<Rightarrow> out_job" where
  "new_job i now n =
    \<lparr>oj_id = n, oj_instance = ei_instance i, oj_jid = ei_jid i, oj_e164 = ei_e164 i, oj_hash = ei_hash i, oj_origin = ei_origin i,
     oj_kind = ei_kind i, oj_rank = priorityRankFor (ei_priority i),
     oj_scheduled = (case ei_scheduled i of None \<Rightarrow> now | Some t \<Rightarrow> t), oj_status = Job_queued,
     oj_cancel_reason = None, oj_deny_reason = None, oj_terminal = None\<rparr>"

text \<open>The job and the ref in one statement; on a conflict of the key the orphaned job is deleted again, its id is used up.\<close>

definition enqueueMessageJob :: "enqueue_input \<Rightarrow> string \<Rightarrow> int \<Rightarrow> tenant_db \<Rightarrow> enqueue_result \<times> tenant_db" where
  "enqueueMessageJob i publicId now db =
    (let n = td_next_job db in
     case find (\<lambda>r. rf_key r = ei_key i) (td_refs db) of
       Some r \<Rightarrow> (\<lparr>er_public = rf_public r, er_created = False, er_request = rf_request r\<rparr>, db\<lparr>td_next_job := n + 1\<rparr>)
     | None \<Rightarrow>
         (\<lparr>er_public = publicId, er_created = True, er_request = ei_request i\<rparr>,
          db\<lparr>td_jobs := td_jobs db @ [new_job i now n], td_next_job := n + 1,
             td_refs := td_refs db @ [\<lparr>rf_public = publicId, rf_instance = ei_instance i, rf_job = n, rf_key = ei_key i,
               rf_request = ei_request i\<rparr>],
             td_events := td_events db @ [(''enqueue:'' @ publicId @ '':created'', n, ''created''),
               (''enqueue:'' @ publicId @ '':queued'', n, ''queued'')],
             td_audit := td_audit db @ [(''message.enqueued'', publicId, ei_user i)]\<rparr>))"

definition findExistingJobRef :: "string \<Rightarrow> tenant_db \<Rightarrow> out_ref option" where
  "findExistingJobRef key db = find (\<lambda>r. rf_key r = key) (td_refs db)"

definition countQueuedJobsForInstance :: "string \<Rightarrow> tenant_db \<Rightarrow> nat" where
  "countQueuedJobsForInstance inst db = length (filter (\<lambda>j. oj_instance j = inst \<and> oj_status j = Job_queued) (td_jobs db))"

section \<open>messages.service.ts and groups/send-lookup.ts\<close>

definition MAX_QUEUED_JOBS_PER_INSTANCE :: nat where "MAX_QUEUED_JOBS_PER_INSTANCE = 10000"

definition MEDIA_KINDS :: "string list" where "MEDIA_KINDS = [''image'', ''document'']"

definition payloadKindFor :: "string \<Rightarrow> (message_error, string) result" where
  "payloadKindFor contractKind =
    (if contractKind \<in> set MEDIA_KINDS then Ok ''media''
     else if contractKind = ''text'' then Ok ''text'' else Err (Unknown_message_kind contractKind))"

definition resolveMediaIdForEnqueue :: "string \<Rightarrow> string option \<Rightarrow> tenant_db \<Rightarrow> (message_error, unit) result" where
  "resolveMediaIdForEnqueue contractKind mediaId db =
    (if contractKind \<notin> set MEDIA_KINDS then Ok ()
     else case mediaId of None \<Rightarrow> Err Media_asset_not_found
       | Some m \<Rightarrow>
           (case map_of (td_media db) m of None \<Rightarrow> Err Media_asset_not_found
            | Some kind \<Rightarrow> if kind \<noteq> contractKind then Err Media_asset_not_found else Ok ()))"

definition API_TIME_REJECTION_REASONS :: "group_reason list" where
  "API_TIME_REJECTION_REASONS = [NOT_SEND_ENABLED, ANNOUNCE_MEMBER_ONLY]"

definition resolveGroupForEnqueue :: "string \<Rightarrow> string \<Rightarrow> tenant_db \<Rightarrow> group_reason option" where
  "resolveGroupForEnqueue inst jid db =
    (case find (\<lambda>g. gr_client g = td_client db \<and> gr_instance g = inst \<and> gr_jid g = jid) (td_groups db) of
       None \<Rightarrow> Some NOT_SEND_ENABLED
     | Some g \<Rightarrow>
         if gr_left g then Some NOT_SEND_ENABLED
         else canSendToGroup (gr_enabled g) (gr_announce g) (gr_role g)
           (case td_group_cap db inst of None \<Rightarrow> 0 | Some cap \<Rightarrow> cap)
           (sum_list (map gr_devices (filter (\<lambda>e. gr_client e = td_client db \<and> gr_instance e = inst \<and> gr_enabled e \<and> \<not> gr_left e)
              (td_groups db)))))"

text \<open>The input of the service; the hash of the request body is the one the route computes from it.\<close>

record message_input =
  mi_instance :: string
  mi_key :: string
  mi_request :: string
  mi_jid :: string
  mi_e164 :: "string option"
  mi_kind :: string
  mi_media :: "string option"
  mi_priority :: job_priority
  mi_scheduled :: "int option"
  mi_user :: "string option"
  mi_origin :: send_origin

record message_result =
  ms_id :: string
  ms_offline :: bool

definition replayResultFor :: "out_ref option \<Rightarrow> string \<Rightarrow> bool \<Rightarrow> (message_error, message_result option) result" where
  "replayResultFor existing requestHash offline =
    (case existing of
       None \<Rightarrow> Ok None
     | Some r \<Rightarrow> if rf_request r \<noteq> requestHash then Err Idempotency_key_reused
                 else Ok (Some \<lparr>ms_id = rf_public r, ms_offline = offline\<rparr>))"

definition advanceToDoneIfSendTest :: "tenant_db \<Rightarrow> tenant_db" where
  "advanceToDoneIfSendTest db = (if td_onboarding db = ''send_test'' then db\<lparr>td_onboarding := ''done''\<rparr> else db)"

text \<open>The group or opt-out gate: the address and the hash the job gets.\<close>

definition canonical_recipient :: "string \<Rightarrow> (message_error, string) result" where
  "canonical_recipient jid =
    (if isGroupJid jid then (case groupRecipientHashInput jid of Err (Range_error j) \<Rightarrow> Err (Not_a_group j) | Ok c \<Rightarrow> Ok c) else Ok jid)"

definition eligible :: "string \<Rightarrow> string \<Rightarrow> string \<Rightarrow> string \<Rightarrow> tenant_db \<Rightarrow> (message_error, unit) result" where
  "eligible inst jid canonical h db =
    (if isGroupJid jid
     then (case resolveGroupForEnqueue inst canonical db of
             Some reason \<Rightarrow> if reason \<in> set API_TIME_REJECTION_REASONS then Err (Group_send_rejected reason) else Ok ()
           | None \<Rightarrow> Ok ())
     else if isOptedOut inst h db then Err Recipient_opted_out else Ok ())"

definition createMessage ::
  "(string \<Rightarrow> string) \<Rightarrow> message_input \<Rightarrow> string \<Rightarrow> int \<Rightarrow> tenant_db \<Rightarrow> (message_error, message_result \<times> tenant_db) result" where
  "createMessage hashRecipient i publicId now db =
    (case td_instances db (mi_instance i) of
       None \<Rightarrow> Err Instance_not_found
     | Some (link, health) \<Rightarrow>
       if link = Unlinked then Err Instance_unlinked
       else if countQueuedJobsForInstance (mi_instance i) db \<ge> MAX_QUEUED_JOBS_PER_INSTANCE then Err Queue_depth_cap_exceeded
       else let offline = (health \<noteq> Connected) in
         bindR (replayResultFor (findExistingJobRef (mi_key i) db) (mi_request i) offline) (\<lambda>replay.
         case replay of
           Some r \<Rightarrow> Ok (r, db)
         | None \<Rightarrow>
           bindR (resolveMediaIdForEnqueue (mi_kind i) (mi_media i) db) (\<lambda>_.
           bindR (canonical_recipient (mi_jid i)) (\<lambda>canonical.
             let isGroup = isGroupJid (mi_jid i);
                 h = hashRecipient (if isGroup then canonical else (case mi_e164 i of Some e \<Rightarrow> e | None \<Rightarrow> mi_jid i)) in
             bindR (eligible (mi_instance i) (mi_jid i) canonical h db) (\<lambda>_.
             bindR (payloadKindFor (mi_kind i)) (\<lambda>kind.
               let (enqueued, db1) = enqueueMessageJob
                     \<lparr>ei_instance = mi_instance i, ei_key = mi_key i, ei_request = mi_request i,
                      ei_jid = (if isGroup then canonical else mi_jid i), ei_e164 = (if isGroup then None else mi_e164 i),
                      ei_hash = h, ei_origin = mi_origin i, ei_kind = kind, ei_priority = mi_priority i,
                      ei_scheduled = mi_scheduled i, ei_user = mi_user i\<rparr> publicId now db in
               if \<not> er_created enqueued
               then if er_request enqueued \<noteq> mi_request i then Err Idempotency_key_reused
                    else Ok (\<lparr>ms_id = er_public enqueued, ms_offline = offline\<rparr>, db1)
               else Ok (\<lparr>ms_id = er_public enqueued, ms_offline = offline\<rparr>, advanceToDoneIfSendTest db1)))))))"

text \<open>\<open>recipientColumnsFor\<close> of the route.\<close>

definition recipientColumnsFor :: "string \<Rightarrow> string \<times> string option" where
  "recipientColumnsFor recipient =
    (if ends_with recipient ''@g.us'' then (recipient, None) else (strip_plus recipient @ ''@s.whatsapp.net'', Some recipient))"

section \<open>pacing/internal/system-send.ts\<close>

definition CONFIRM_WINDOW_MS :: int where "CONFIRM_WINDOW_MS = 30 * 86400000"

text \<open>\<open>toISOString().slice(0, 10)\<close> of a time in milliseconds, in the proleptic Gregorian calendar.\<close>

definition pad2 :: "int \<Rightarrow> string" where "pad2 n = (if n < 10 then ''0'' else []) @ dec (nat n)"

definition iso_date :: "int \<Rightarrow> string" where
  "iso_date ms =
    (let z = ms div 86400000 + 719468; era = z div 146097; doe = z - era * 146097;
         yoe = (doe - doe div 1460 + doe div 36524 - doe div 146096) div 365;
         doy = doe - (365 * yoe + yoe div 4 - yoe div 100); mp = (5 * doy + 2) div 153;
         d = doy - (153 * mp + 2) div 5 + 1; m = (if mp < 10 then mp + 3 else mp - 9);
         y = yoe + era * 400 + (if m \<le> 2 then 1 else 0)
     in dec (nat y) @ ''-'' @ pad2 m @ ''-'' @ pad2 d)"

definition confirmationIdempotencyKey :: "string \<Rightarrow> int \<Rightarrow> string" where
  "confirmationIdempotencyKey h now = ''optout-confirm:'' @ h @ '':'' @ iso_date now"

definition jidFromE164 :: "string \<Rightarrow> string" where
  "jidFromE164 e164 = strip_plus e164 @ ''@s.whatsapp.net''"

text \<open>The guard row is written only by its first insert or 30 days after its last write; no row back means no job.\<close>

definition confirmation_due :: "string \<Rightarrow> int \<Rightarrow> tenant_db \<Rightarrow> bool" where
  "confirmation_due h now db \<longleftrightarrow> (case td_confirmed db h of None \<Rightarrow> True | Some t \<Rightarrow> t < now - CONFIRM_WINDOW_MS)"

definition sendOptOutConfirmation :: "string \<Rightarrow> string \<Rightarrow> string \<Rightarrow> string \<Rightarrow> int \<Rightarrow> tenant_db \<Rightarrow> bool \<times> tenant_db" where
  "sendOptOutConfirmation inst h e164 publicId now db =
    (if \<not> confirmation_due h now db then (False, db)
     else let db1 = db\<lparr>td_confirmed := (td_confirmed db)(h := Some now)\<rparr>;
              (enqueued, db2) = enqueueMessageJob
                \<lparr>ei_instance = inst, ei_key = confirmationIdempotencyKey h now, ei_request = ''opt_out_confirmation:'' @ h,
                 ei_jid = jidFromE164 e164, ei_e164 = Some e164, ei_hash = h, ei_origin = Opt_Out_Confirmation, ei_kind = ''text'',
                 ei_priority = Prio_high, ei_scheduled = None, ei_user = None\<rparr> publicId now db1
          in (er_created enqueued,
              db2\<lparr>td_pacing_events := td_pacing_events db2 @ [(inst, Opt_Out_Confirmation, er_created enqueued)]\<rparr>))"

section \<open>inbound/optout-detect.ts\<close>

record opted_out_payload =
  op_instance :: string
  op_hash :: string
  op_e164 :: string

record detect_result =
  dr_matched :: "utext option"
  dr_attributed :: bool
  dr_opted_out :: "opted_out_payload option"

definition detectInboundOptOut ::
  "(utext \<Rightarrow> utext) \<Rightarrow> (string \<Rightarrow> string) \<Rightarrow> string \<Rightarrow> string option \<Rightarrow> utext \<Rightarrow> utext list \<Rightarrow> int \<Rightarrow> tenant_db \<Rightarrow>
    (message_error, detect_result \<times> tenant_db) result" where
  "detectInboundOptOut lower hashRecipient inst senderE164 message tenantKeywords now db =
    (case resolveOptOutKeywords lower tenantKeywords of
       Err (Platform_keyword_shadowed raw) \<Rightarrow> Err (Keyword_shadows_platform raw)
     | Ok keywords \<Rightarrow>
       (case matchOptOutKeyword lower message keywords of
          None \<Rightarrow> Ok (\<lparr>dr_matched = None, dr_attributed = False, dr_opted_out = None\<rparr>, db)
        | Some matched \<Rightarrow>
          (case senderE164 of
             None \<Rightarrow> Ok (\<lparr>dr_matched = Some matched, dr_attributed = False, dr_opted_out = None\<rparr>, db)
           | Some e164 \<Rightarrow>
             let h = hashRecipient e164;
                 (_, db1) = recordOptOut OO_client (td_client db) h ''inbound_keyword'' (Some matched) (Some inst) now db;
                 (_, db2) = cancelOptOutJobs h OO_client None now db1
             in Ok (\<lparr>dr_matched = Some matched, dr_attributed = True,
                     dr_opted_out = Some \<lparr>op_instance = inst, op_hash = h, op_e164 = e164\<rparr>\<rparr>, db2))))"

section \<open>inbound/message-signals.ts\<close>

definition E164_shape :: "string \<Rightarrow> bool" where
  "E164_shape s \<longleftrightarrow> (case s of
     c0 # c1 # rest \<Rightarrow> c0 = CHR ''+'' \<and> is_digit c1 \<and> c1 \<noteq> CHR ''0'' \<and> list_all is_digit rest \<and> 6 \<le> length rest \<and> length rest \<le> 14
   | _ \<Rightarrow> False)"

definition waJidFromE164 :: "string \<Rightarrow> (message_error, string) result" where
  "waJidFromE164 e164 = (if \<not> E164_shape e164 then Err (Bad_e164 e164) else Ok (drop 1 e164 @ ''@s.whatsapp.net''))"

definition resolveLidFromContacts :: "string \<Rightarrow> tenant_db \<Rightarrow> (message_error, string option) result" where
  "resolveLidFromContacts lid db =
    (case find (\<lambda>c. mc_lid c = Some lid \<and> \<not> mc_deleted c) (td_contacts db) of
       None \<Rightarrow> Ok None
     | Some c \<Rightarrow> bindR (waJidFromE164 (mc_phone c)) (\<lambda>j. Ok (Some j)))"

text \<open>\<open>GREATEST\<close> ignores a null.\<close>

fun greatest :: "int option \<Rightarrow> int \<Rightarrow> int option" where
  "greatest None b = Some b" | "greatest (Some a) b = Some (max a b)"

definition touchContactLastInbound :: "string \<Rightarrow> int \<Rightarrow> tenant_db \<Rightarrow> tenant_db" where
  "touchContactLastInbound h now db =
    db\<lparr>td_contacts := map (\<lambda>c. if mc_hash c = h \<and> \<not> mc_deleted c then c\<lparr>mc_last_inbound := greatest (mc_last_inbound c) now\<rparr> else c)
         (td_contacts db)\<rparr>"

definition touchInstanceRecipientContact :: "string \<Rightarrow> string \<Rightarrow> int \<Rightarrow> tenant_db \<Rightarrow> tenant_db" where
  "touchInstanceRecipientContact inst h now db =
    db\<lparr>td_first_inbound := (td_first_inbound db)((inst, h) :=
         (case td_first_inbound db (inst, h) of None \<Rightarrow> Some now | Some t \<Rightarrow> Some t))\<rparr>"

definition touchGroupLastMessage :: "string \<Rightarrow> string \<Rightarrow> int \<Rightarrow> tenant_db \<Rightarrow> tenant_db" where
  "touchGroupLastMessage inst remoteJid now db =
    (if \<not> isGroupJid remoteJid then db
     else case groupRecipientHashInput remoteJid of Err e \<Rightarrow> db
       | Ok g \<Rightarrow> if list_ex (\<lambda>r. gr_client r = td_client db \<and> gr_instance r = inst \<and> gr_jid r = g) (td_groups db)
                  then db\<lparr>td_group_touched := (td_group_touched db)((inst, g) := greatest (td_group_touched db (inst, g)) now)\<rparr>
                  else db)"

record inbound_signal =
  is_sender :: string
  is_candidate :: "utext option"
  is_remote :: "string option"

datatype signals_outcome = Attributed bool | Unattributable

definition includes_lid :: "string \<Rightarrow> bool" where
  "includes_lid s \<longleftrightarrow> list_ex (\<lambda>i. starts_with (drop i s) ''@lid'') [0..<length s]"

definition handleInboundMessageSignals ::
  "(utext \<Rightarrow> utext) \<Rightarrow> (string \<Rightarrow> string) \<Rightarrow> string \<Rightarrow> inbound_signal \<Rightarrow> int \<Rightarrow> tenant_db \<Rightarrow>
    (message_error, signals_outcome \<times> opted_out_payload option \<times> tenant_db) result" where
  "handleInboundMessageSignals lower hashRecipient inst sg now db =
    (let db0 = (case is_remote sg of None \<Rightarrow> db | Some r \<Rightarrow> touchGroupLastMessage inst r now db) in
     bindR (if includes_lid (is_sender sg) then resolveLidFromContacts (jr_jid (normaliseJid (\<lambda>_. None) (is_sender sg))) db0 else Ok None)
       (\<lambda>resolvedPnJid.
       let normalised = normaliseJid (\<lambda>_. resolvedPnJid) (is_sender sg) in
       (case (if jr_unattributable normalised then None else jr_e164 normalised) of
          None \<Rightarrow>
            (case is_candidate sg of
               None \<Rightarrow> Ok (Unattributable, None, db0)
             | Some c \<Rightarrow> bindR (detectInboundOptOut lower hashRecipient inst None c [] now db0) (\<lambda>_. Ok (Unattributable, None, db0)))
        | Some e164 \<Rightarrow>
            let h = hashRecipient e164; db1 = touchInstanceRecipientContact inst h now (touchContactLastInbound h now db0) in
            (case is_candidate sg of
               None \<Rightarrow> Ok (Attributed False, None, db1)
             | Some c \<Rightarrow>
                 bindR (detectInboundOptOut lower hashRecipient inst (Some e164) c (td_keywords db1) now db1) (\<lambda>(r, db2).
                   Ok (Attributed (dr_opted_out r \<noteq> None), dr_opted_out r, db2))))))"

text \<open>The session worker: the transaction, and after its commit the confirmation in one of its own.\<close>

definition inbound_message ::
  "(utext \<Rightarrow> utext) \<Rightarrow> (string \<Rightarrow> string) \<Rightarrow> string \<Rightarrow> inbound_signal \<Rightarrow> string \<Rightarrow> int \<Rightarrow> tenant_db \<Rightarrow>
    (message_error, signals_outcome) result \<times> tenant_db" where
  "inbound_message lower hashRecipient inst sg publicId now db =
    (case handleInboundMessageSignals lower hashRecipient inst sg now db of
       Err e \<Rightarrow> (Err e, db)
     | Ok (outcome, None, db1) \<Rightarrow> (Ok outcome, db1)
     | Ok (outcome, Some p, db1) \<Rightarrow> (Ok outcome, snd (sendOptOutConfirmation (op_instance p) (op_hash p) (op_e164 p) publicId now db1)))"

section \<open>Contacts (contacts-write.ts, erasure.ts)\<close>

text \<open>
  The insert of \<open>createContact\<close>, whose mirror columns are derived in the same statement, and \<open>erase-contact.sql\<close>. The limit
  and the phone parser stand before it and refuse the call; a live contact with the number is \<open>contacts_client_phone_uq\<close>.
\<close>

definition insert_contact :: "string \<Rightarrow> string \<Rightarrow> tenant_db \<Rightarrow> tenant_db" where
  "insert_contact h phone db =
    (if list_ex (\<lambda>c. mc_phone c = phone \<and> \<not> mc_deleted c) (td_contacts db) then db
     else db\<lparr>td_contacts := td_contacts db @ [\<lparr>mc_id = length (td_contacts db), mc_hash = h, mc_phone = phone, mc_lid = None,
            mc_deleted = False, mc_opted_out = fst (derived h db), mc_opted_out_at = snd (derived h db), mc_last_inbound = None\<rparr>]\<rparr>)"

definition erase_contact :: "nat \<Rightarrow> tenant_db \<Rightarrow> tenant_db" where
  "erase_contact cid db =
    db\<lparr>td_contacts := map (\<lambda>c. if mc_id c = cid \<and> \<not> mc_deleted c then c\<lparr>mc_deleted := True, mc_lid := None\<rparr> else c) (td_contacts db)\<rparr>"

section \<open>Histories\<close>

text \<open>
  The transactions of one tenant in the order of their commits. \<open>T_work\<close> is a status write of the delivery engine, along
  an edge of the domain graph; \<open>T_instance\<close> any change of an instance row.
\<close>

datatype tenant_event =
    T_create message_input string int
  | T_inbound string inbound_signal string int
  | T_restore nat restore_actor utext int
  | T_reconcile nat
  | T_contact string
  | T_erase nat
  | T_work nat job_status
  | T_instance string "(wa_link \<times> wa_health) option"

fun tenant_step :: "(utext \<Rightarrow> utext) \<Rightarrow> (string \<Rightarrow> string) \<Rightarrow> tenant_event \<Rightarrow> tenant_db \<Rightarrow> tenant_db" where
  "tenant_step lower hash (T_create i p now) db = (case createMessage hash i p now db of Err e \<Rightarrow> db | Ok r \<Rightarrow> snd r)"
| "tenant_step lower hash (T_inbound inst sg p now) db = snd (inbound_message lower hash inst sg p now db)"
| "tenant_step lower hash (T_restore oid actor reason now) db = (case restoreOptOut oid actor reason now db of Err e \<Rightarrow> db | Ok r \<Rightarrow> r)"
| "tenant_step lower hash (T_reconcile n) db = snd (reconcile_optout_mirror n db)"
| "tenant_step lower hash (T_contact phone) db = insert_contact (hash phone) phone db"
| "tenant_step lower hash (T_erase cid) db = erase_contact cid db"
| "tenant_step lower hash (T_work n st) db =
    db\<lparr>td_jobs := map (\<lambda>j. if oj_id j = n \<and> canTransition (oj_status j) st then j\<lparr>oj_status := st\<rparr> else j) (td_jobs db)\<rparr>"
| "tenant_step lower hash (T_instance inst row) db = db\<lparr>td_instances := (td_instances db)(inst := row)\<rparr>"

definition tenant_run :: "(utext \<Rightarrow> utext) \<Rightarrow> (string \<Rightarrow> string) \<Rightarrow> tenant_event list \<Rightarrow> tenant_db \<Rightarrow> tenant_db" where
  "tenant_run lower hash evs db = fold (tenant_step lower hash) evs db"

lemma tenant_run_simps [simp]:
  "tenant_run lower hash [] db = db"
  "tenant_run lower hash (e # evs) db = tenant_run lower hash evs (tenant_step lower hash e db)"
  by (simp_all add: tenant_run_def)

text \<open>A property every step keeps is kept by every history.\<close>

lemma tenant_run_keeps:
  assumes "\<And>e db. e \<in> set evs \<Longrightarrow> P db \<Longrightarrow> P (tenant_step lower hash e db)" "P db"
  shows "P (tenant_run lower hash evs db)"
  using assms by (induction evs arbitrary: db) auto

section \<open>What each operation leaves alone\<close>

lemma derived_cong: "filter (is_live h) (td_optouts db) = filter (is_live h) (td_optouts db') \<Longrightarrow> derived h db = derived h db'"
  by (simp add: derived_def)

lemma sync_sel [simp]:
  "td_jobs (syncOptOutMirror h db) = td_jobs db" "td_refs (syncOptOutMirror h db) = td_refs db"
  "td_next_job (syncOptOutMirror h db) = td_next_job db" "td_optouts (syncOptOutMirror h db) = td_optouts db"
  "td_client (syncOptOutMirror h db) = td_client db" "td_confirmed (syncOptOutMirror h db) = td_confirmed db"
  "td_instances (syncOptOutMirror h db) = td_instances db" "td_keywords (syncOptOutMirror h db) = td_keywords db"
  by (simp_all add: syncOptOutMirror_def)

lemma record_sel [simp]:
  "td_jobs (snd (recordOptOut sc k h s w g now db)) = td_jobs db" "td_refs (snd (recordOptOut sc k h s w g now db)) = td_refs db"
  "td_next_job (snd (recordOptOut sc k h s w g now db)) = td_next_job db" "td_client (snd (recordOptOut sc k h s w g now db)) = td_client db"
  "td_confirmed (snd (recordOptOut sc k h s w g now db)) = td_confirmed db"
  "td_instances (snd (recordOptOut sc k h s w g now db)) = td_instances db"
  by (simp_all add: recordOptOut_def Let_def)

lemma cancel_sel [simp]:
  "td_refs (snd (cancelOptOutJobs h sc i now db)) = td_refs db" "td_optouts (snd (cancelOptOutJobs h sc i now db)) = td_optouts db"
  "td_next_job (snd (cancelOptOutJobs h sc i now db)) = td_next_job db" "td_client (snd (cancelOptOutJobs h sc i now db)) = td_client db"
  "td_confirmed (snd (cancelOptOutJobs h sc i now db)) = td_confirmed db" "td_contacts (snd (cancelOptOutJobs h sc i now db)) = td_contacts db"
  "td_instances (snd (cancelOptOutJobs h sc i now db)) = td_instances db"
  "td_next_optout (snd (cancelOptOutJobs h sc i now db)) = td_next_optout db"
  by (simp_all add: cancelOptOutJobs_def)

lemma cancel_jobs: "td_jobs (snd (cancelOptOutJobs h sc i now db)) =
    map (\<lambda>j. if cancelled_by h sc i j then j\<lparr>oj_status := Job_cancelled, oj_cancel_reason := Some ''opt_out'', oj_deny_reason := Some ''OPT_OUT'',
      oj_terminal := Some now\<rparr> else j) (td_jobs db)"
  by (simp add: cancelOptOutJobs_def)

lemma enqueue_sel [simp]:
  "td_optouts (snd (enqueueMessageJob i p now db)) = td_optouts db" "td_client (snd (enqueueMessageJob i p now db)) = td_client db"
  "td_contacts (snd (enqueueMessageJob i p now db)) = td_contacts db" "td_confirmed (snd (enqueueMessageJob i p now db)) = td_confirmed db"
  "td_instances (snd (enqueueMessageJob i p now db)) = td_instances db"
  "td_next_optout (snd (enqueueMessageJob i p now db)) = td_next_optout db"
  by (simp_all add: enqueueMessageJob_def Let_def split: option.split)

lemma advance_sel [simp]:
  "td_jobs (advanceToDoneIfSendTest db) = td_jobs db" "td_refs (advanceToDoneIfSendTest db) = td_refs db"
  "td_next_job (advanceToDoneIfSendTest db) = td_next_job db" "td_optouts (advanceToDoneIfSendTest db) = td_optouts db"
  "td_client (advanceToDoneIfSendTest db) = td_client db" "td_contacts (advanceToDoneIfSendTest db) = td_contacts db"
  "td_confirmed (advanceToDoneIfSendTest db) = td_confirmed db" "td_instances (advanceToDoneIfSendTest db) = td_instances db"
  "td_next_optout (advanceToDoneIfSendTest db) = td_next_optout db"
  by (simp_all add: advanceToDoneIfSendTest_def)

definition same_queue :: "tenant_db \<Rightarrow> tenant_db \<Rightarrow> bool" where
  "same_queue a b \<longleftrightarrow> td_jobs a = td_jobs b \<and> td_refs a = td_refs b \<and> td_next_job a = td_next_job b"

definition same_registry :: "tenant_db \<Rightarrow> tenant_db \<Rightarrow> bool" where
  "same_registry a b \<longleftrightarrow> td_optouts a = td_optouts b \<and> td_next_optout a = td_next_optout b \<and>
     td_client a = td_client b \<and> td_confirmed a = td_confirmed b"

lemma touch_same [simp]:
  "same_queue (touchGroupLastMessage inst r now db) db" "same_registry (touchGroupLastMessage inst r now db) db"
  "td_contacts (touchGroupLastMessage inst r now db) = td_contacts db"
  "same_queue (touchContactLastInbound h now db) db" "same_registry (touchContactLastInbound h now db) db"
  "same_queue (touchInstanceRecipientContact inst h now db) db" "same_registry (touchInstanceRecipientContact inst h now db) db"
  "td_contacts (touchInstanceRecipientContact inst h now db) = td_contacts db"
  by (auto simp: same_queue_def same_registry_def touchGroupLastMessage_def touchContactLastInbound_def
      touchInstanceRecipientContact_def split: sum.split)

text \<open>What a handled inbound message did: nothing but time stamps, or one recorded and cancelled opt-out.\<close>

definition opts_out :: "string \<Rightarrow> utext option \<Rightarrow> string option \<Rightarrow> int \<Rightarrow> tenant_db \<Rightarrow> tenant_db" where
  "opts_out h matched origin now db =
    snd (cancelOptOutJobs h OO_client None now (snd (recordOptOut OO_client (td_client db) h ''inbound_keyword'' matched origin now db)))"

lemma detect_cases:
  assumes "detectInboundOptOut lower hash inst sender msg tks now db = Ok (r, db')"
  shows "(dr_opted_out r = None \<and> db' = db) \<or>
    (\<exists>e164 w. sender = Some e164 \<and> dr_opted_out r = Some \<lparr>op_instance = inst, op_hash = hash e164, op_e164 = e164\<rparr> \<and>
       db' = opts_out (hash e164) (Some w) (Some inst) now db)"
  using assms by (auto simp: detectInboundOptOut_def opts_out_def Let_def case_prod_beta split: sum.splits keyword_error.splits option.splits)

definition mirror_view :: "tenant_db \<Rightarrow> (string \<times> bool \<times> bool \<times> int option \<times> string option) list" where
  "mirror_view db = map (\<lambda>c. (mc_hash c, mc_deleted c, mc_opted_out c, mc_opted_out_at c, mc_lid c)) (td_contacts db)"

lemma touch_mirror [simp]:
  "mirror_view (touchGroupLastMessage inst r now db) = mirror_view db"
  "mirror_view (touchContactLastInbound h now db) = mirror_view db"
  "mirror_view (touchInstanceRecipientContact inst h now db) = mirror_view db"
  by (auto simp: mirror_view_def) (simp add: touchContactLastInbound_def)

definition only_stamps :: "tenant_db \<Rightarrow> tenant_db \<Rightarrow> bool" where
  "only_stamps a b \<longleftrightarrow> same_queue a b \<and> same_registry a b \<and> mirror_view a = mirror_view b"

lemma only_stamps_trans: "only_stamps a b \<Longrightarrow> only_stamps b c \<Longrightarrow> only_stamps a c"
  by (simp add: only_stamps_def same_queue_def same_registry_def)

lemma only_stamps_touch:
  "only_stamps (case r of None \<Rightarrow> db | Some x \<Rightarrow> touchGroupLastMessage inst x now db) db"
  "only_stamps (touchInstanceRecipientContact inst h now (touchContactLastInbound h now db)) db"
  by (auto simp: only_stamps_def same_queue_def same_registry_def touchGroupLastMessage_def touchContactLastInbound_def
      touchInstanceRecipientContact_def mirror_view_def split: option.split sum.split)

lemma signals_cases:
  assumes "handleInboundMessageSignals lower hash inst sg now db = Ok (outcome, p, db')"
  shows "\<exists>db1. only_stamps db1 db \<and>
    ((p = None \<and> db' = db1) \<or>
     (\<exists>e164 w. p = Some \<lparr>op_instance = inst, op_hash = hash e164, op_e164 = e164\<rparr> \<and> db' = opts_out (hash e164) (Some w) (Some inst) now db1))"
proof -
  define db0 where "db0 = (case is_remote sg of None \<Rightarrow> db | Some r \<Rightarrow> touchGroupLastMessage inst r now db)"
  have s0: "only_stamps db0 db" unfolding db0_def by (rule only_stamps_touch)
  obtain pn where pn: "(if includes_lid (is_sender sg) then resolveLidFromContacts (jr_jid (normaliseJid (\<lambda>_. None) (is_sender sg))) db0 else Ok None) = Ok pn"
    using assms unfolding handleInboundMessageSignals_def db0_def [symmetric] Let_def by (auto split: if_splits)
  define n where "n = normaliseJid (\<lambda>_. pn) (is_sender sg)"
  show ?thesis
  proof (cases "if jr_unattributable n then None else jr_e164 n")
    case None
    then have "p = None \<and> db' = db0"
      using assms unfolding handleInboundMessageSignals_def db0_def [symmetric] Let_def pn bindR.simps n_def [symmetric]
      by (auto split: option.splits)
    then show ?thesis using s0 by blast
  next
    case (Some e164)
    define db1 where "db1 = touchInstanceRecipientContact inst (hash e164) now (touchContactLastInbound (hash e164) now db0)"
    have s1: "only_stamps db1 db" unfolding db1_def using only_stamps_trans [OF only_stamps_touch(2) s0] .
    have eq: "(case is_candidate sg of None \<Rightarrow> Ok (Attributed False, None, db1)
        | Some c \<Rightarrow> bindR (detectInboundOptOut lower hash inst (Some e164) c (td_keywords db1) now db1)
            (\<lambda>(r, db2). Ok (Attributed (dr_opted_out r \<noteq> None), dr_opted_out r, db2))) = Ok (outcome, p, db')"
      using assms unfolding handleInboundMessageSignals_def db0_def [symmetric] Let_def pn bindR.simps n_def [symmetric] Some option.case db1_def [symmetric] .
    show ?thesis
    proof (cases "is_candidate sg")
      case None
      then show ?thesis using eq s1 by auto
    next
      case (Some c)
      then obtain r where r: "detectInboundOptOut lower hash inst (Some e164) c (td_keywords db1) now db1 = Ok (r, db')" "p = dr_opted_out r"
        using eq by auto
      show ?thesis using detect_cases [OF r(1)] r(2) s1 by auto
    qed
  qed
qed

section \<open>Jobs and refs\<close>

text \<open>Every job has its ref and every ref its job, in the order of their ids; no key has two refs.\<close>

definition queue_ok :: "tenant_db \<Rightarrow> bool" where
  "queue_ok db \<longleftrightarrow> map oj_id (td_jobs db) = map rf_job (td_refs db) \<and> distinct (map rf_key (td_refs db)) \<and>
     distinct (map oj_id (td_jobs db)) \<and> (\<forall>j\<in>set (td_jobs db). oj_id j < td_next_job db)"

lemma queue_ok_cong: "same_queue a b \<Longrightarrow> queue_ok a \<longleftrightarrow> queue_ok b"
  by (simp add: queue_ok_def same_queue_def)

lemma find_NoneD: "find P xs = None \<Longrightarrow> x \<in> set xs \<Longrightarrow> \<not> P x"
  by (simp add: find_None_iff)

lemma queue_okD:
  assumes "queue_ok db"
  shows "map oj_id (td_jobs db) = map rf_job (td_refs db)" "distinct (map rf_key (td_refs db))"
    "distinct (map oj_id (td_jobs db))" "\<And>j. j \<in> set (td_jobs db) \<Longrightarrow> oj_id j < td_next_job db"
  using assms unfolding queue_ok_def by blast+

lemma enqueue_fresh:
  assumes "find (\<lambda>r. rf_key r = ei_key i) (td_refs db) = None"
  shows "td_jobs (snd (enqueueMessageJob i p now db)) = td_jobs db @ [new_job i now (td_next_job db)]"
    "td_refs (snd (enqueueMessageJob i p now db)) = td_refs db @ [\<lparr>rf_public = p, rf_instance = ei_instance i, rf_job = td_next_job db,
       rf_key = ei_key i, rf_request = ei_request i\<rparr>]"
    "td_next_job (snd (enqueueMessageJob i p now db)) = td_next_job db + 1"
  using assms by (simp_all add: enqueueMessageJob_def Let_def)

lemma enqueue_taken:
  assumes "find (\<lambda>r. rf_key r = ei_key i) (td_refs db) = Some r"
  shows "snd (enqueueMessageJob i p now db) = db\<lparr>td_next_job := td_next_job db + 1\<rparr>"
  using assms by (simp add: enqueueMessageJob_def Let_def)

lemma queue_ok_enqueue:
  assumes ok: "queue_ok db"
  shows "queue_ok (snd (enqueueMessageJob i p now db))"
proof (cases "find (\<lambda>r. rf_key r = ei_key i) (td_refs db)")
  case None
  have key: "ei_key i \<notin> rf_key ` set (td_refs db)" using find_NoneD [OF None] by force
  have id: "td_next_job db \<notin> oj_id ` set (td_jobs db)" using queue_okD(4) [OF ok] by force
  show ?thesis unfolding queue_ok_def enqueue_fresh [OF None]
  proof (intro conjI)
    show "map oj_id (td_jobs db @ [new_job i now (td_next_job db)]) =
        map rf_job (td_refs db @ [\<lparr>rf_public = p, rf_instance = ei_instance i, rf_job = td_next_job db, rf_key = ei_key i, rf_request = ei_request i\<rparr>])"
      using queue_okD(1) [OF ok] by (simp add: new_job_def)
    show "distinct (map oj_id (td_jobs db @ [new_job i now (td_next_job db)]))"
      using queue_okD(3) [OF ok] id by (simp add: new_job_def del: distinct_map)
    show "distinct (map rf_key (td_refs db @ [\<lparr>rf_public = p, rf_instance = ei_instance i, rf_job = td_next_job db, rf_key = ei_key i, rf_request = ei_request i\<rparr>]))"
      using queue_okD(2) [OF ok] key by simp
    show "\<forall>j\<in>set (td_jobs db @ [new_job i now (td_next_job db)]). oj_id j < td_next_job db + 1"
      using queue_okD(4) [OF ok] by (auto simp: new_job_def intro: less_SucI)
  qed
next
  case (Some r)
  show ?thesis unfolding enqueue_taken [OF Some] queue_ok_def
    using queue_okD [OF ok] by (auto intro: less_SucI simp del: distinct_map)
qed

lemma queue_ok_map_jobs: "(\<And>j. oj_id (f j) = oj_id j) \<Longrightarrow> queue_ok (db\<lparr>td_jobs := map f (td_jobs db)\<rparr>) \<longleftrightarrow> queue_ok db"
  by (simp add: queue_ok_def comp_def)

lemma queue_ok_opts_out: "queue_ok (opts_out h w origin now db) \<longleftrightarrow> queue_ok db"
proof -
  let ?a = "snd (recordOptOut OO_client (td_client db) h ''inbound_keyword'' w origin now db)"
  have "queue_ok (opts_out h w origin now db) \<longleftrightarrow> queue_ok ?a"
    unfolding opts_out_def cancelOptOutJobs_def snd_conv by (rule queue_ok_map_jobs) simp
  then show ?thesis by (simp add: queue_ok_def)
qed

text \<open>What a successful call of the service did.\<close>

definition created_input :: "(string \<Rightarrow> string) \<Rightarrow> message_input \<Rightarrow> string \<Rightarrow> string \<Rightarrow> enqueue_input" where
  "created_input hash i canonical kind =
    \<lparr>ei_instance = mi_instance i, ei_key = mi_key i, ei_request = mi_request i,
     ei_jid = (if isGroupJid (mi_jid i) then canonical else mi_jid i), ei_e164 = (if isGroupJid (mi_jid i) then None else mi_e164 i),
     ei_hash = hash (if isGroupJid (mi_jid i) then canonical else (case mi_e164 i of Some e \<Rightarrow> e | None \<Rightarrow> mi_jid i)),
     ei_origin = mi_origin i, ei_kind = kind, ei_priority = mi_priority i, ei_scheduled = mi_scheduled i, ei_user = mi_user i\<rparr>"

lemma createMessage_cases:
  assumes "createMessage hash i p now db = Ok (r, db')"
  shows "(\<exists>ref. findExistingJobRef (mi_key i) db = Some ref \<and> rf_request ref = mi_request i \<and> ms_id r = rf_public ref \<and> db' = db) \<or>
    (findExistingJobRef (mi_key i) db = None \<and> ms_id r = p \<and>
     (\<exists>canonical kind. canonical_recipient (mi_jid i) = Ok canonical \<and>
       eligible (mi_instance i) (mi_jid i) canonical (ei_hash (created_input hash i canonical kind)) db = Ok () \<and>
       db' = advanceToDoneIfSendTest (snd (enqueueMessageJob (created_input hash i canonical kind) p now db))))"
proof -
  obtain link health where row: "td_instances db (mi_instance i) = Some (link, health)"
    using assms by (auto simp: createMessage_def split: option.splits)
  have open_: "link \<noteq> Unlinked" "\<not> MAX_QUEUED_JOBS_PER_INSTANCE \<le> countQueuedJobsForInstance (mi_instance i) db"
    using assms row by (auto simp: createMessage_def split: if_splits)
  show ?thesis
  proof (cases "findExistingJobRef (mi_key i) db")
    case (Some ref)
    then show ?thesis using assms row open_ by (auto simp: createMessage_def replayResultFor_def Let_def split: if_splits)
  next
    case None
    obtain canonical kind where c: "canonical_recipient (mi_jid i) = Ok canonical"
        "eligible (mi_instance i) (mi_jid i) canonical (ei_hash (created_input hash i canonical kind)) db = Ok ()"
        "(let (enqueued, db1) = enqueueMessageJob (created_input hash i canonical kind) p now db in
          if \<not> er_created enqueued
          then if er_request enqueued \<noteq> mi_request i then Err Idempotency_key_reused
               else Ok (\<lparr>ms_id = er_public enqueued, ms_offline = (health \<noteq> Connected)\<rparr>, db1)
          else Ok (\<lparr>ms_id = er_public enqueued, ms_offline = (health \<noteq> Connected)\<rparr>, advanceToDoneIfSendTest db1)) = Ok (r, db')"
      using assms row open_ None by (auto simp: createMessage_def replayResultFor_def Let_def created_input_def)
    have "find (\<lambda>r. rf_key r = ei_key (created_input hash i canonical kind)) (td_refs db) = None"
      using None by (simp add: findExistingJobRef_def created_input_def)
    then show ?thesis using c None by (auto simp: enqueueMessageJob_def Let_def)
  qed
qed

lemma queue_ok_advance [simp]: "queue_ok (advanceToDoneIfSendTest db) \<longleftrightarrow> queue_ok db"
  by (simp add: queue_ok_def)

lemma queue_ok_confirmation: "queue_ok db \<Longrightarrow> queue_ok (snd (sendOptOutConfirmation inst h e164 p now db))"
proof -
  assume ok: "queue_ok db"
  have "queue_ok (db\<lparr>td_confirmed := (td_confirmed db)(h := Some now)\<rparr>)"
    using ok queue_ok_cong [of "db\<lparr>td_confirmed := (td_confirmed db)(h := Some now)\<rparr>" db] by (simp add: same_queue_def)
  note enq = queue_ok_enqueue [OF this, of _ p now]
  show ?thesis
  proof (cases "confirmation_due h now db")
    case True
    obtain i where "same_queue (snd (sendOptOutConfirmation inst h e164 p now db))
        (snd (enqueueMessageJob i p now (db\<lparr>td_confirmed := (td_confirmed db)(h := Some now)\<rparr>)))"
      using True that by (simp add: sendOptOutConfirmation_def Let_def case_prod_beta same_queue_def)
    then show ?thesis using enq queue_ok_cong by blast
  qed (use ok in \<open>simp add: sendOptOutConfirmation_def\<close>)
qed

text \<open>What \<open>inbound_message\<close> does to the tenant.\<close>

lemma inbound_cases:
  "only_stamps (snd (inbound_message lower hash inst sg p now db)) db \<or>
   (\<exists>db1 e164 w. only_stamps db1 db \<and> snd (inbound_message lower hash inst sg p now db) =
      snd (sendOptOutConfirmation inst (hash e164) e164 p now (opts_out (hash e164) (Some w) (Some inst) now db1)))"
proof (cases "handleInboundMessageSignals lower hash inst sg now db")
  case (Inl e)
  then show ?thesis by (simp add: inbound_message_def only_stamps_def same_queue_def same_registry_def)
next
  case (Inr r)
  obtain outcome q db' where r: "r = (outcome, q, db')" by (cases r)
  show ?thesis
  proof (cases q)
    case None
    then show ?thesis using signals_cases [OF Inr [unfolded r]] Inr r by (simp add: inbound_message_def)
  next
    case (Some pl)
    then obtain db1 e164 w where "only_stamps db1 db" "pl = \<lparr>op_instance = inst, op_hash = hash e164, op_e164 = e164\<rparr>"
        "db' = opts_out (hash e164) (Some w) (Some inst) now db1"
      using signals_cases [OF Inr [unfolded r]] by auto
    then show ?thesis using Inr r Some by (intro disjI2) (auto simp: inbound_message_def)
  qed
qed

lemma queue_ok_step: "queue_ok db \<Longrightarrow> queue_ok (tenant_step lower hash e db)"
proof (cases e)
  case (T_create i p now)
  assume ok: "queue_ok db"
  show ?thesis
  proof (cases "createMessage hash i p now db")
    case (Inr r)
    then show ?thesis using T_create ok createMessage_cases [of hash i p now db "fst r" "snd r"] queue_ok_enqueue by auto
  qed (use T_create ok in simp)
next
  case (T_inbound inst sg p now)
  assume ok: "queue_ok db"
  show ?thesis using inbound_cases [of lower hash inst sg p now db] ok queue_ok_confirmation queue_ok_opts_out queue_ok_cong
    by (auto simp: T_inbound only_stamps_def)
next
  case (T_work n st)
  assume "queue_ok db"
  then show ?thesis using queue_ok_map_jobs [of "\<lambda>j. if oj_id j = n \<and> canTransition (oj_status j) st then j\<lparr>oj_status := st\<rparr> else j" db]
    by (simp add: T_work)
qed (auto simp: queue_ok_def restoreOptOut_def reconcile_optout_mirror_def insert_contact_def erase_contact_def split: sum.split option.split)

lemma refs_grow: "\<exists>extra. td_refs (tenant_step lower hash e db) = td_refs db @ extra"
proof -
  have enq: "\<exists>extra. td_refs (snd (enqueueMessageJob i p now db)) = td_refs db @ extra" for i p now db
    by (cases "find (\<lambda>r. rf_key r = ei_key i) (td_refs db)") (auto simp: enqueue_fresh enqueue_taken)
  show ?thesis
  proof (cases e)
    case (T_create i p now)
    then show ?thesis using enq createMessage_cases [of hash i p now db] by (cases "createMessage hash i p now db") fastforce+
  next
    case (T_inbound inst sg p now)
    have opt: "td_refs (opts_out h w g now db') = td_refs db'" for h w g db' by (simp add: opts_out_def)
    have conf: "\<exists>extra. td_refs (snd (sendOptOutConfirmation inst h e164 p now db')) = td_refs db' @ extra" for h e164 db'
      using enq [of _ p now "db'\<lparr>td_confirmed := (td_confirmed db')(h := Some now)\<rparr>"]
      by (auto simp: sendOptOutConfirmation_def Let_def case_prod_beta)
    consider "only_stamps (snd (inbound_message lower hash inst sg p now db)) db"
      | db1 e164 w where "only_stamps db1 db" "snd (inbound_message lower hash inst sg p now db) =
          snd (sendOptOutConfirmation inst (hash e164) e164 p now (opts_out (hash e164) (Some w) (Some inst) now db1))"
      using inbound_cases by blast
    then show ?thesis
    proof cases
      case 2
      then show ?thesis using conf [of "hash e164" e164 "opts_out (hash e164) (Some w) (Some inst) now db1"]
        by (simp add: T_inbound opt only_stamps_def same_queue_def)
    qed (simp add: T_inbound only_stamps_def same_queue_def)
  qed (auto simp: restoreOptOut_def reconcile_optout_mirror_def insert_contact_def erase_contact_def split: sum.split option.split)
qed

lemma ref_stays:
  assumes "findExistingJobRef k db = Some r"
  shows "findExistingJobRef k (tenant_run lower hash evs db) = Some r"
proof (rule tenant_run_keeps [where P = "\<lambda>d. findExistingJobRef k d = Some r"])
  fix e d assume "findExistingJobRef k d = Some r"
  moreover obtain extra where "td_refs (tenant_step lower hash e d) = td_refs d @ extra" using refs_grow by blast
  ultimately show "findExistingJobRef k (tenant_step lower hash e d) = Some r" by (simp add: findExistingJobRef_def find_app)
qed (rule assms)

lemma createMessage_ref:
  assumes "createMessage hash i p now db = Ok (r, db')"
  shows "\<exists>ref. findExistingJobRef (mi_key i) db' = Some ref \<and> rf_public ref = ms_id r \<and> rf_request ref = mi_request i"
proof -
  from createMessage_cases [OF assms] consider
      ref where "findExistingJobRef (mi_key i) db = Some ref" "rf_request ref = mi_request i" "ms_id r = rf_public ref" "db' = db"
    | canonical kind where "findExistingJobRef (mi_key i) db = None" "ms_id r = p"
        "db' = advanceToDoneIfSendTest (snd (enqueueMessageJob (created_input hash i canonical kind) p now db))"
    by blast
  then show ?thesis
  proof cases
    case (2 canonical kind)
    then show ?thesis
      using enqueue_fresh(2) [of "created_input hash i canonical kind" db p now]
      by (simp add: findExistingJobRef_def find_app created_input_def)
  qed auto
qed

section \<open>Properties\<close>

text \<open>
  C12. A message is enqueued once per key. In every history each job has exactly one ref and no key has two; and once a call
  under a key has succeeded, a call with the same key in any later state writes nothing: it fails at the gates of its
  instance (unknown, unlinked, queue full) before the key is looked at, and behind them it returns the first id when the
  body is the same and is refused when it is another.
\<close>
theorem create_message_idempotent:
  assumes "queue_ok db" "createMessage hash i p now db = Ok (r, db1)" "later = tenant_run lower hash evs db1" "mi_key j = mi_key i"
  shows "createMessage hash j p' now' later =
      (case td_instances later (mi_instance j) of
         None \<Rightarrow> Err Instance_not_found
       | Some (link, health) \<Rightarrow>
           if link = Unlinked then Err Instance_unlinked
           else if MAX_QUEUED_JOBS_PER_INSTANCE \<le> countQueuedJobsForInstance (mi_instance j) later then Err Queue_depth_cap_exceeded
           else if mi_request j = mi_request i then Ok (\<lparr>ms_id = ms_id r, ms_offline = (health \<noteq> Connected)\<rparr>, later)
           else Err Idempotency_key_reused) \<and>
    map oj_id (td_jobs later) = map rf_job (td_refs later) \<and> distinct (map rf_key (td_refs later)) \<and> distinct (map oj_id (td_jobs later))"
proof (intro conjI)
  obtain ref where "findExistingJobRef (mi_key i) db1 = Some ref" and ref: "rf_public ref = ms_id r" "rf_request ref = mi_request i"
    using createMessage_ref [OF assms(2)] by blast
  then have "findExistingJobRef (mi_key j) later = Some ref" using ref_stays assms(3,4) by simp
  then show "createMessage hash j p' now' later =
      (case td_instances later (mi_instance j) of
         None \<Rightarrow> Err Instance_not_found
       | Some (link, health) \<Rightarrow>
           if link = Unlinked then Err Instance_unlinked
           else if MAX_QUEUED_JOBS_PER_INSTANCE \<le> countQueuedJobsForInstance (mi_instance j) later then Err Queue_depth_cap_exceeded
           else if mi_request j = mi_request i then Ok (\<lparr>ms_id = ms_id r, ms_offline = (health \<noteq> Connected)\<rparr>, later)
           else Err Idempotency_key_reused)"
    using ref by (simp add: createMessage_def replayResultFor_def split: option.split)
  have q: "queue_ok db1" using queue_ok_step [OF assms(1), of lower hash "T_create i p now"] assms(2) by simp
  have "queue_ok later" unfolding assms(3)
    by (rule tenant_run_keeps [where P = queue_ok, OF _ q]) (rule queue_ok_step)
  then show "map oj_id (td_jobs later) = map rf_job (td_refs later)" "distinct (map rf_key (td_refs later))"
    "distinct (map oj_id (td_jobs later))" by (fact queue_okD)+
qed

text \<open>
  The pre-check of the key stands behind the two gates of the instance, so a replay is refused when the queue has filled or
  the instance has been unlinked or deleted in between; and it compares bodies only, so the same key and body for another
  instance gives the first instance's message.
\<close>
theorem replay_waits_for_the_gates:
  assumes "findExistingJobRef (mi_key i) db = Some ref" "rf_request ref = mi_request i"
  shows "MAX_QUEUED_JOBS_PER_INSTANCE \<le> countQueuedJobsForInstance (mi_instance i) db \<Longrightarrow>
      td_instances db (mi_instance i) = Some (Linked, health) \<Longrightarrow> createMessage hash i p now db = Err Queue_depth_cap_exceeded"
    and "td_instances db (mi_instance i) = None \<Longrightarrow> createMessage hash i p now db = Err Instance_not_found"
    and "td_instances db inst = Some (Linked, Connected) \<Longrightarrow> countQueuedJobsForInstance inst db < MAX_QUEUED_JOBS_PER_INSTANCE \<Longrightarrow>
      createMessage hash (i\<lparr>mi_instance := inst\<rparr>) p now db = Ok (\<lparr>ms_id = rf_public ref, ms_offline = False\<rparr>, db)"
  using assms by (simp_all add: createMessage_def replayResultFor_def)

section \<open>After an opt-out\<close>

lemma group_canonical:
  assumes "isGroupJid jid" "canonical_recipient jid = Ok c"
  shows "ends_with c ''@g.us''"
proof -
  obtain i where last: "last_index_of (CHR ''@'') jid = Some i" "to_lower (drop (i + 1) jid) = ''g.us''"
    using assms(1) by (auto simp: isGroupJid_def split: option.splits)
  obtain k where k: "index_of (CHR ''@'') (rev jid) = Some k" "i = length jid - 1 - k"
    using last(1) by (auto simp: last_index_of_def)
  have klt: "k < length jid" "rev jid ! k = CHR ''@''" using index_of_SomeD [OF k(1)] by auto
  then have i: "i < length jid" "jid ! i = CHR ''@''" using k(2) by (auto simp: rev_nth)
  then obtain f where f: "index_of (CHR ''@'') jid = Some f" by (cases "index_of (CHR ''@'') jid") (auto simp: in_set_conv_nth)
  have f': "f < length jid" "jid ! f = CHR ''@''" "CHR ''@'' \<notin> set (take f jid)" using index_of_SomeD [OF f] by auto
  have fi: "f \<le> i"
  proof (rule ccontr)
    assume "\<not> f \<le> i"
    then have "jid ! i \<in> set (take f jid)" using i(1) by (auto simp: in_set_conv_nth intro!: exI [of _ i])
    then show False using f'(3) i(2) by simp
  qed
  define server where "server = to_lower (drop (f + 1) jid)"
  have folded: "lowerCaseServerOnly jid = take f jid @ CHR ''@'' # server" by (simp add: lowerCaseServerOnly_def f server_def)
  have tail: "\<exists>w. CHR ''@'' # server = w @ ''@g.us''"
  proof (cases "f = i")
    case True
    then show ?thesis using last(2) by (auto simp: server_def)
  next
    case False
    then have "drop (f + 1) jid = take (i - f - 1) (drop (f + 1) jid) @ CHR ''@'' # drop (i + 1) jid"
      using fi i by (metis Cons_nth_drop_Suc Suc_eq_plus1 Suc_leI add_diff_cancel_left' append_take_drop_id diff_Suc_eq_diff_pred diff_diff_left drop_drop
          le_add_diff_inverse2 le_neq_implies_less)
    then obtain t where "drop (f + 1) jid = t @ CHR ''@'' # drop (i + 1) jid" by blast
    then have "server = to_lower t @ ''@g.us''" using last(2) by (simp add: server_def to_lower_def lower_char_def)
    then show ?thesis by (metis append_Cons)
  qed
  then have ne: "server \<noteq> ''c.us''" by auto
  have "jidDecode (lowerCaseServerOnly jid) =
      Some \<lparr>dj_user = before (CHR ''_'') (before (CHR '':'') (take f jid)), dj_server = server\<rparr>"
    unfolding folded jidDecode_def using index_of_append [OF f'(3), of server] f'(1) by simp
  then have "c = before (CHR ''_'') (before (CHR '':'') (take f jid)) @ CHR ''@'' # server"
    using assms ne by (auto simp: canonical_recipient_def groupRecipientHashInput_def normalizeJidUser_def jidEncode_def)
  then show ?thesis using tail by (auto simp: ends_with_iff)
qed

text \<open>The columns of a job that no statement rewrites.\<close>

definition job_core :: "out_job \<Rightarrow> nat \<times> string \<times> string \<times> send_origin" where
  "job_core j = (oj_id j, oj_hash j, oj_jid j, oj_origin j)"

lemma cores_opts_out [simp]: "map job_core (td_jobs (opts_out h w g now db)) = map job_core (td_jobs db)"
  by (simp add: opts_out_def cancel_jobs comp_def job_core_def if_distrib cong: if_cong)

definition of_recipient :: "string \<Rightarrow> out_job \<Rightarrow> bool" where
  "of_recipient h j \<longleftrightarrow> oj_hash j = h \<and> \<not> ends_with (oj_jid j) ''@g.us''"

lemma of_recipient_core: "of_recipient h j \<longleftrightarrow> (case job_core j of (n, k, jid, origin) \<Rightarrow> k = h \<and> \<not> ends_with jid ''@g.us'')"
  by (simp add: of_recipient_def job_core_def)

text \<open>The row that keeps a recipient out: live, of the whole tenant.\<close>

definition barred :: "nat \<Rightarrow> string \<Rightarrow> tenant_db \<Rightarrow> bool" where
  "barred oid h db \<longleftrightarrow> (\<exists>row\<in>set (td_optouts db). oo_id row = oid \<and> is_live h row \<and> oo_scope row = OO_client \<and> oo_key row = td_client db)"

lemma barred_opted_out: "barred oid h db \<Longrightarrow> isOptedOut inst h db"
  unfolding barred_def isOptedOut_def list_ex_iff by blast

lemma barred_cong: "same_registry a b \<Longrightarrow> barred oid h a \<longleftrightarrow> barred oid h b"
  by (simp add: barred_def same_registry_def)

lemma barred_more: "barred oid h db \<Longrightarrow> td_optouts db' = td_optouts db @ rows \<Longrightarrow> td_client db' = td_client db \<Longrightarrow> barred oid h db'"
  by (auto simp: barred_def)

lemma record_optouts: "\<exists>rows. td_optouts (snd (recordOptOut sc k h s w g now db)) = td_optouts db @ rows"
  by (simp add: recordOptOut_def Let_def)

lemma opts_out_sel:
  "\<exists>rows. td_optouts (opts_out h w g now db) = td_optouts db @ rows" "td_client (opts_out h w g now db) = td_client db"
  "td_confirmed (opts_out h w g now db) = td_confirmed db" "td_refs (opts_out h w g now db) = td_refs db"
  using record_optouts by (simp_all add: opts_out_def)

lemma confirmation_sel [simp]:
  "td_optouts (snd (sendOptOutConfirmation inst h e164 p now db)) = td_optouts db"
  "td_client (snd (sendOptOutConfirmation inst h e164 p now db)) = td_client db"
  "td_contacts (snd (sendOptOutConfirmation inst h e164 p now db)) = td_contacts db"
  "td_next_optout (snd (sendOptOutConfirmation inst h e164 p now db)) = td_next_optout db"
  by (simp_all add: sendOptOutConfirmation_def Let_def case_prod_beta)

lemma confirmation_jobs:
  "td_jobs (snd (sendOptOutConfirmation inst h e164 p now db)) = td_jobs db \<or>
   (confirmation_due h now db \<and> (\<exists>j. td_jobs (snd (sendOptOutConfirmation inst h e164 p now db)) = td_jobs db @ [j] \<and>
      oj_origin j = Opt_Out_Confirmation \<and> oj_hash j = h))"
proof (cases "confirmation_due h now db")
  case True
  have "td_jobs (snd (enqueueMessageJob i p now d)) = td_jobs d \<or> td_jobs (snd (enqueueMessageJob i p now d)) = td_jobs d @ [new_job i now (td_next_job d)]"
    for i d by (cases "find (\<lambda>r. rf_key r = ei_key i) (td_refs d)") (auto simp: enqueue_fresh enqueue_taken)
  from this [of _ "db\<lparr>td_confirmed := (td_confirmed db)(h := Some now)\<rparr>"]
  show ?thesis using True by (fastforce simp: sendOptOutConfirmation_def Let_def case_prod_beta new_job_def)
qed (simp add: sendOptOutConfirmation_def)

lemma create_jobs:
  assumes "createMessage hash i p now db = Ok (r, db')" "barred oid h db" "j \<in> set (td_jobs db')" "of_recipient h j"
  shows "j \<in> set (td_jobs db)"
proof -
  from createMessage_cases [OF assms(1)] consider "db' = db"
    | canonical kind where "canonical_recipient (mi_jid i) = Ok canonical"
        "eligible (mi_instance i) (mi_jid i) canonical (ei_hash (created_input hash i canonical kind)) db = Ok ()"
        "findExistingJobRef (mi_key i) db = None"
        "db' = advanceToDoneIfSendTest (snd (enqueueMessageJob (created_input hash i canonical kind) p now db))"
    by blast
  then show ?thesis
  proof cases
    case (2 canonical kind)
    define inp where "inp = created_input hash i canonical kind"
    have jobs: "td_jobs db' = td_jobs db @ [new_job inp now (td_next_job db)]"
      using enqueue_fresh(1) [of inp db p now] 2(3,4) by (simp add: findExistingJobRef_def inp_def created_input_def)
    have "j \<noteq> new_job inp now (td_next_job db)"
    proof
      assume eq: "j = new_job inp now (td_next_job db)"
      then have h: "ei_hash inp = h" "\<not> ends_with (ei_jid inp) ''@g.us''" using assms(4) by (auto simp: of_recipient_def new_job_def)
      show False
      proof (cases "isGroupJid (mi_jid i)")
        case True
        then show False using group_canonical [OF True 2(1)] h(2) by (simp add: inp_def created_input_def)
      next
        case False
        then show False using 2(2) h(1) barred_opted_out [OF assms(2)] by (simp add: eligible_def inp_def)
      qed
    qed
    then show ?thesis using jobs assms(3) by simp
  qed (use assms(3) in simp)
qed

lemma restore_row_stays: "restoreOptOut oid' actor reason now db = Ok db' \<Longrightarrow> barred oid h db \<Longrightarrow> oid' \<noteq> oid \<Longrightarrow> barred oid h db'"
  by (fastforce simp: restoreOptOut_def barred_def split: option.splits)

fun restores :: "nat \<Rightarrow> tenant_event \<Rightarrow> bool" where
  "restores oid (T_restore n actor reason now) \<longleftrightarrow> n = oid" | "restores oid _ \<longleftrightarrow> False"

text \<open>How the jobs of an inbound message come about.\<close>

lemma inbound_jobs:
  assumes "j \<in> set (td_jobs (snd (inbound_message lower hash inst sg p now db)))" "oj_origin j \<noteq> Opt_Out_Confirmation"
  shows "job_core j \<in> job_core ` set (td_jobs db)"
proof -
  consider "only_stamps (snd (inbound_message lower hash inst sg p now db)) db"
    | db1 e164 w where "only_stamps db1 db" "snd (inbound_message lower hash inst sg p now db) =
        snd (sendOptOutConfirmation inst (hash e164) e164 p now (opts_out (hash e164) (Some w) (Some inst) now db1))"
    using inbound_cases by blast
  then show ?thesis
  proof cases
    case 1
    then show ?thesis using assms(1) by (auto simp: only_stamps_def same_queue_def)
  next
    case (2 db1 e164 w)
    let ?o = "opts_out (hash e164) (Some w) (Some inst) now db1"
    have "j \<in> set (td_jobs ?o)"
      using confirmation_jobs [of inst "hash e164" e164 p now ?o] assms 2(2) by auto
    then have "job_core j \<in> set (map job_core (td_jobs ?o))" unfolding set_map by (rule imageI)
    then show ?thesis using 2(1) unfolding cores_opts_out by (simp add: only_stamps_def same_queue_def)
  qed
qed

lemma barred_step:
  assumes "barred oid h db" "\<not> restores oid e"
  shows "barred oid h (tenant_step lower hash e db)"
    and "j \<in> set (td_jobs (tenant_step lower hash e db)) \<Longrightarrow> of_recipient h j \<Longrightarrow> oj_origin j \<noteq> Opt_Out_Confirmation \<Longrightarrow>
      job_core j \<in> job_core ` set (td_jobs db)"
proof -
  have "barred oid h (tenant_step lower hash e db) \<and> (\<forall>j\<in>set (td_jobs (tenant_step lower hash e db)).
      of_recipient h j \<longrightarrow> oj_origin j \<noteq> Opt_Out_Confirmation \<longrightarrow> job_core j \<in> job_core ` set (td_jobs db))"
  proof (cases e)
    case (T_create i p now)
    show ?thesis
    proof (cases "createMessage hash i p now db")
      case (Inr r)
      have "same_registry (snd r) db"
        using createMessage_cases [of hash i p now db "fst r" "snd r"] Inr by (auto simp: same_registry_def)
      then show ?thesis using create_jobs [of hash i p now db "fst r" "snd r"] T_create Inr assms(1) barred_cong by auto
    qed (use T_create assms in simp)
  next
    case (T_inbound inst sg p now)
    have "barred oid h (snd (inbound_message lower hash inst sg p now db))"
    proof -
      consider "only_stamps (snd (inbound_message lower hash inst sg p now db)) db"
        | db1 e164 w where "only_stamps db1 db" "snd (inbound_message lower hash inst sg p now db) =
            snd (sendOptOutConfirmation inst (hash e164) e164 p now (opts_out (hash e164) (Some w) (Some inst) now db1))"
        using inbound_cases by blast
      then show ?thesis
      proof cases
        case 1
        then show ?thesis using assms(1) barred_cong by (auto simp: only_stamps_def)
      next
        case (2 db1 e164 w)
        have b1: "barred oid h db1" using 2(1) assms(1) barred_cong by (auto simp: only_stamps_def)
        obtain rows where "td_optouts (opts_out (hash e164) (Some w) (Some inst) now db1) = td_optouts db1 @ rows"
          using opts_out_sel(1) by blast
        then show ?thesis using barred_more [OF b1] by (simp add: 2(2) opts_out_sel(2))
      qed
    qed
    then show ?thesis using inbound_jobs by (auto simp: T_inbound)
  next
    case (T_restore oid' actor reason now)
    then show ?thesis using assms restore_row_stays by (auto simp: restoreOptOut_def split: sum.split option.splits)
  next
    case (T_work n st)
    have "map job_core (td_jobs (tenant_step lower hash e db)) = map job_core (td_jobs db)"
      by (simp add: T_work comp_def job_core_def if_distrib cong: if_cong)
    then have "job_core j \<in> job_core ` set (td_jobs db)" if "j \<in> set (td_jobs (tenant_step lower hash e db))" for j
      using that by (metis image_eqI image_set)
    then show ?thesis using assms(1) by (auto simp: barred_def T_work)
  qed (use assms in \<open>auto simp: barred_def reconcile_optout_mirror_def insert_contact_def erase_contact_def\<close>)
  then show "barred oid h (tenant_step lower hash e db)"
    "j \<in> set (td_jobs (tenant_step lower hash e db)) \<Longrightarrow> of_recipient h j \<Longrightarrow> oj_origin j \<noteq> Opt_Out_Confirmation \<Longrightarrow>
      job_core j \<in> job_core ` set (td_jobs db)" by blast+
qed

text \<open>The state the handler leaves: the row, and no queued job of the recipient.\<close>

lemma record_bars:
  "\<exists>oid. barred oid h (snd (recordOptOut OO_client (td_client db) h src w g now db))" if "\<forall>row\<in>set (td_optouts db). oo_key row = td_client db \<longrightarrow> oo_scope row = OO_client"
proof (cases "list_ex (\<lambda>row. is_live h row \<and> oo_key row = td_client db) (td_optouts db)")
  case True
  then show ?thesis using that by (force simp: recordOptOut_def Let_def barred_def list_ex_iff)
next
  case False
  then show ?thesis
    by (intro exI [of _ "td_next_optout db"]) (simp add: recordOptOut_def Let_def barred_def is_live_def syncOptOutMirror_def)
qed

lemma cancelled_by_client: "cancelled_by h OO_client None j \<longleftrightarrow> of_recipient h j \<and> oj_status j = Job_queued"
  by (auto simp: cancelled_by_def of_recipient_def)

lemma opts_out_none_queued: "j \<in> set (td_jobs (opts_out h w g now db)) \<Longrightarrow> of_recipient h j \<Longrightarrow> oj_status j \<noteq> Job_queued"
  by (auto simp: opts_out_def cancel_jobs cancelled_by_client split: if_splits)

lemma opts_out_others: "td_jobs (opts_out h w g now db) =
    map (\<lambda>j. if of_recipient h j \<and> oj_status j = Job_queued then j\<lparr>oj_status := Job_cancelled, oj_cancel_reason := Some ''opt_out'',
      oj_deny_reason := Some ''OPT_OUT'', oj_terminal := Some now\<rparr> else j) (td_jobs db)"
  by (simp add: opts_out_def cancel_jobs cancelled_by_client)

text \<open>The key of a row of the whole tenant is the tenant, that of a row of an instance is not.\<close>

definition keys_ok :: "tenant_db \<Rightarrow> bool" where
  "keys_ok db \<longleftrightarrow> (\<forall>row\<in>set (td_optouts db). oo_key row = td_client db \<longrightarrow> oo_scope row = OO_client)"

definition guard_job_of :: "out_job \<Rightarrow> guard_job" where
  "guard_job_of j = \<lparr>gj_id = dec (oj_id j), gj_recipientJid = oj_jid j, gj_recipientHash = Some (oj_hash j), gj_sendOrigin = oj_origin j,
     gj_contentFingerprint = None, gj_text = None, gj_caption = None, gj_isNewConversation = False\<rparr>"

text \<open>
  What an opt-out of \<open>h\<close> at \<open>stop\<close> means later: the number is out for every instance, no job to it is newer than \<open>stop\<close> but
  confirmations, and the claim gate, reading the registry, cancels every other one.
\<close>

definition held_back :: "string \<Rightarrow> tenant_db \<Rightarrow> tenant_db \<Rightarrow> bool" where
  "held_back h stop later \<longleftrightarrow>
    (\<forall>i. isOptedOut i h later) \<and>
    (\<forall>j\<in>set (td_jobs later). of_recipient h j \<longrightarrow> oj_origin j \<noteq> Opt_Out_Confirmation \<longrightarrow>
       oj_id j \<in> oj_id ` set (td_jobs stop) \<and>
       (\<forall>t. gt_optedOut t = (\<lambda>h. isOptedOut (oj_instance j) h later) \<longrightarrow> evaluateOptOutGate t (guard_job_of j) = Some (OPT_OUT, None)))"

lemma barred_run:
  assumes bar: "barred oid h stop" and none: "\<forall>e\<in>set evs. \<not> restores oid e"
  shows "barred oid h (tenant_run lower hash evs stop) \<and> (\<forall>j\<in>set (td_jobs (tenant_run lower hash evs stop)).
      of_recipient h j \<longrightarrow> oj_origin j \<noteq> Opt_Out_Confirmation \<longrightarrow> job_core j \<in> job_core ` set (td_jobs stop))"
proof (rule tenant_run_keeps)
  fix e d assume e: "e \<in> set evs" and d: "barred oid h d \<and> (\<forall>j\<in>set (td_jobs d). of_recipient h j \<longrightarrow>
      oj_origin j \<noteq> Opt_Out_Confirmation \<longrightarrow> job_core j \<in> job_core ` set (td_jobs stop))"
  have ne: "\<not> restores oid e" using none e by blast
  have "job_core j \<in> job_core ` set (td_jobs stop)"
    if j: "j \<in> set (td_jobs (tenant_step lower hash e d))" "of_recipient h j" "oj_origin j \<noteq> Opt_Out_Confirmation" for j
  proof -
    obtain j' where "j' \<in> set (td_jobs d)" "job_core j = job_core j'" using barred_step(2) [OF conjunct1 [OF d] ne j] by blast
    moreover from this(2) have "of_recipient h j'" "oj_origin j' \<noteq> Opt_Out_Confirmation"
      using j(2,3) by (simp add: of_recipient_core, simp add: job_core_def)
    ultimately show ?thesis using d by metis
  qed
  then show "barred oid h (tenant_step lower hash e d) \<and> (\<forall>j\<in>set (td_jobs (tenant_step lower hash e d)). of_recipient h j \<longrightarrow>
      oj_origin j \<noteq> Opt_Out_Confirmation \<longrightarrow> job_core j \<in> job_core ` set (td_jobs stop))"
    using barred_step(1) [OF conjunct1 [OF d] ne] by blast
qed (use bar in blast)

lemma barred_holds_back:
  assumes "barred oid h stop" "\<forall>e\<in>set evs. \<not> restores oid e"
  shows "held_back h stop (tenant_run lower hash evs stop)"
proof -
  let ?l = "tenant_run lower hash evs stop"
  have inv: "barred oid h ?l" "\<And>j. j \<in> set (td_jobs ?l) \<Longrightarrow> of_recipient h j \<Longrightarrow> oj_origin j \<noteq> Opt_Out_Confirmation \<Longrightarrow>
      job_core j \<in> job_core ` set (td_jobs stop)" using barred_run [OF assms] by blast+
  have gone: "isOptedOut i h ?l" for i using inv(1) barred_opted_out by blast
  have "oj_id j \<in> oj_id ` set (td_jobs stop)" if "j \<in> set (td_jobs ?l)" "of_recipient h j" "oj_origin j \<noteq> Opt_Out_Confirmation" for j
    using inv(2) [OF that] by (auto simp: job_core_def)
  moreover have "evaluateOptOutGate t (guard_job_of j) = Some (OPT_OUT, None)"
    if "of_recipient h j" "oj_origin j \<noteq> Opt_Out_Confirmation" "gt_optedOut t = (\<lambda>h. isOptedOut (oj_instance j) h ?l)" for t j
    using that gone by (simp add: evaluateOptOutGate_def guard_job_of_def is_group_jid_def of_recipient_def)
  ultimately show ?thesis using gone unfolding held_back_def by blast
qed

text \<open>
  C11. An opt-out holds until a person restores it. When the handling of an inbound message of a known sender has matched,
  no job to that number is queued any more and every other job is as it was; and the registry has a live row of the number
  such that it is held back after every history in which that row is not restored.
\<close>
theorem opt_out_holds_until_restored:
  assumes "keys_ok db" "handleInboundMessageSignals lower hash inst sg now db = Ok (outcome, Some p, db1)"
  shows "td_jobs db1 = map (\<lambda>j. if of_recipient (op_hash p) j \<and> oj_status j = Job_queued
        then j\<lparr>oj_status := Job_cancelled, oj_cancel_reason := Some ''opt_out'', oj_deny_reason := Some ''OPT_OUT'', oj_terminal := Some now\<rparr>
        else j) (td_jobs db) \<and>
    (\<exists>row\<in>set (td_optouts db1). is_live (op_hash p) row \<and>
      (\<forall>evs. (\<forall>e\<in>set evs. \<not> restores (oo_id row) e) \<longrightarrow> held_back (op_hash p) db1 (tenant_run lower hash evs db1)))"
proof (intro conjI)
  obtain db0 e164 w where s: "only_stamps db0 db" and p: "p = \<lparr>op_instance = inst, op_hash = hash e164, op_e164 = e164\<rparr>"
      and db1: "db1 = opts_out (hash e164) (Some w) (Some inst) now db0"
    using signals_cases [OF assms(2)] by auto
  show "td_jobs db1 = map (\<lambda>j. if of_recipient (op_hash p) j \<and> oj_status j = Job_queued
        then j\<lparr>oj_status := Job_cancelled, oj_cancel_reason := Some ''opt_out'', oj_deny_reason := Some ''OPT_OUT'', oj_terminal := Some now\<rparr>
        else j) (td_jobs db)"
    using s by (simp add: db1 p opts_out_others only_stamps_def same_queue_def)
  have "keys_ok db0" using assms(1) s by (simp add: keys_ok_def only_stamps_def same_registry_def)
  then obtain oid where "barred oid (hash e164) (snd (recordOptOut OO_client (td_client db0) (hash e164) ''inbound_keyword'' (Some w) (Some inst) now db0))"
    using record_bars unfolding keys_ok_def by blast
  then have bar: "barred oid (op_hash p) db1" by (simp add: db1 p opts_out_def barred_def)
  then obtain row where "row \<in> set (td_optouts db1)" "oo_id row = oid" "is_live (op_hash p) row" by (auto simp: barred_def)
  then show "\<exists>row\<in>set (td_optouts db1). is_live (op_hash p) row \<and>
      (\<forall>evs. (\<forall>e\<in>set evs. \<not> restores (oo_id row) e) \<longrightarrow> held_back (op_hash p) db1 (tenant_run lower hash evs db1))"
    using barred_holds_back [OF bar] by blast
qed

section \<open>The mirror\<close>

definition mirror_ok :: "tenant_db \<Rightarrow> bool" where
  "mirror_ok db \<longleftrightarrow> (\<forall>c\<in>set (td_contacts db). \<not> drifted db c)"

lemma derived_optouts: "td_optouts a = td_optouts b \<Longrightarrow> derived h a = derived h b"
  by (simp add: derived_def)

lemma drifted_repaired [simp]: "\<not> drifted db (repaired db c)"
  by (simp add: drifted_def repaired_def)

lemma repaired_hash [simp]: "mc_hash (repaired db c) = mc_hash c"
  by (simp add: repaired_def)

lemma mirror_ok_view:
  assumes "td_optouts a = td_optouts b" "mirror_view a = mirror_view b"
  shows "mirror_ok a \<longleftrightarrow> mirror_ok b"
proof -
  have "mirror_ok d \<longleftrightarrow> (\<forall>(h, deleted, out, since, lid)\<in>set (mirror_view d). deleted \<or> (out, since) = derived h d)" for d
    by (auto simp: mirror_ok_def mirror_view_def drifted_def prod_eq_iff)
  then show ?thesis using assms derived_optouts [OF assms(1)] by simp
qed

text \<open>A registry write that changes what it says of \<open>h\<close> only, followed by the synchronisation of \<open>h\<close>.\<close>

lemma mirror_ok_sync:
  assumes "mirror_ok db" "td_contacts db' = td_contacts db" "\<And>k. k \<noteq> h \<Longrightarrow> derived k db' = derived k db"
  shows "mirror_ok (syncOptOutMirror h db')"
proof -
  have d: "drifted (syncOptOutMirror h db') c = drifted db' c" for c
    using derived_optouts [of "syncOptOutMirror h db'" db'] by (simp add: drifted_def)
  have "\<not> drifted db' (if mc_hash c = h \<and> drifted db' c then repaired db' c else c)" if "c \<in> set (td_contacts db)" for c
  proof (cases "mc_hash c = h")
    case False
    then have "drifted db' c = drifted db c" using assms(3) by (simp add: drifted_def)
    then show ?thesis using assms(1) that False by (simp add: mirror_ok_def)
  qed simp
  then have "\<forall>c\<in>set (map (\<lambda>c. if mc_hash c = h \<and> drifted db' c then repaired db' c else c) (td_contacts db)). \<not> drifted db' c"
    by (simp only: set_map ball_simps) (rule ballI, assumption)
  moreover have "td_contacts (syncOptOutMirror h db') =
      map (\<lambda>c. if mc_hash c = h \<and> drifted db' c then repaired db' c else c) (td_contacts db)"
    by (simp add: syncOptOutMirror_def assms(2))
  ultimately show ?thesis unfolding mirror_ok_def d by (simp only:)
qed

lemma mirror_ok_record: "mirror_ok db \<Longrightarrow> mirror_ok (snd (recordOptOut sc k h s w g now db))"
  unfolding recordOptOut_def Let_def snd_conv
  by (rule mirror_ok_sync [of db]) (auto simp: derived_def is_live_def)

lemma mirror_ok_restore:
  assumes "mirror_ok db" "restoreOptOut oid actor reason now db = Ok db'" "distinct (map oo_id (td_optouts db))"
  shows "mirror_ok db'"
proof -
  obtain user t where u: "assertHumanActor actor = Ok user" "assertTypedReason reason = Ok t"
    using assms(2) by (auto simp: restoreOptOut_def)
  obtain row where row: "find (\<lambda>row. oo_id row = oid \<and> oo_restored row = None) (td_optouts db) = Some row"
    using assms(2) u by (auto simp: restoreOptOut_def split: option.splits)
  then have row_in: "row \<in> set (td_optouts db)" "oo_id row = oid" by (auto simp: find_Some_iff)
  let ?f = "\<lambda>r. if oo_id r = oid \<and> oo_restored r = None then r\<lparr>oo_restored := Some now, oo_restored_by := Some user, oo_reason := Some t\<rparr> else r"
  have same: "filter (is_live k) (map ?f rows) = filter (is_live k) rows" if "k \<noteq> oo_hash row" "set rows \<subseteq> set (td_optouts db)" for k rows
    using that(2)
  proof (induction rows)
    case (Cons r rows)
    have "r = row" if "oo_id r = oid" using assms(3) row_in that Cons.prems by (auto simp: distinct_map dest: inj_onD)
    then show ?case using Cons \<open>k \<noteq> oo_hash row\<close> by (auto simp: is_live_def)
  qed simp
  show ?thesis
    using assms(2) u row same [OF _ order_refl]
    by (auto simp: restoreOptOut_def derived_def intro!: mirror_ok_sync [OF assms(1)])
qed

lemma length_drifted: "(length (filter (drifted db) cs) = 0) = (\<forall>c\<in>set cs. \<not> drifted db c)"
  by (simp add: filter_empty_conv)

lemma reconcile_contacts_drift:
  "length (filter (drifted db) (reconcile_contacts db n cs)) = length (filter (drifted db) cs) - n"
  "map mc_hash (reconcile_contacts db n cs) = map mc_hash cs"
  by (induction db n cs rule: reconcile_contacts.induct) (auto split: nat.splits)

lemma reconcile_contacts_ok: "\<forall>c\<in>set cs. \<not> drifted db c \<Longrightarrow> reconcile_contacts db n cs = cs"
  by (induction cs) auto

definition drift :: "tenant_db \<Rightarrow> nat" where
  "drift db = length (filter (drifted db) (td_contacts db))"

lemma drifted_reconcile: "drifted (snd (reconcile_optout_mirror n db)) = drifted db"
  using derived_optouts [of "snd (reconcile_optout_mirror n db)" db]
  by (auto simp: drifted_def reconcile_optout_mirror_def fun_eq_iff)

lemma drift_reconcile: "drift (snd (reconcile_optout_mirror n db)) = drift db - n"
  unfolding drift_def drifted_reconcile by (simp add: reconcile_optout_mirror_def reconcile_contacts_drift)

definition optouts_ok :: "tenant_db \<Rightarrow> bool" where
  "optouts_ok db \<longleftrightarrow> distinct (map oo_id (td_optouts db)) \<and> (\<forall>row\<in>set (td_optouts db). oo_id row < td_next_optout db)"

lemma optouts_ok_record: "optouts_ok db \<Longrightarrow> optouts_ok (snd (recordOptOut sc k h s w g now db))"
  by (fastforce simp: optouts_ok_def recordOptOut_def Let_def syncOptOutMirror_def)

lemma optouts_ok_restore: "restoreOptOut oid actor reason now db = Ok db' \<Longrightarrow> optouts_ok db \<Longrightarrow> optouts_ok db'"
proof -
  assume r: "restoreOptOut oid actor reason now db = Ok db'" and ok: "optouts_ok db"
  obtain user t row where u: "assertHumanActor actor = Ok user" "assertTypedReason reason = Ok t"
      "find (\<lambda>row. oo_id row = oid \<and> oo_restored row = None) (td_optouts db) = Some row"
    using r by (auto simp: restoreOptOut_def split: option.splits)
  have "map oo_id (td_optouts db') = map oo_id (td_optouts db)" "td_next_optout db' = td_next_optout db"
    using r u by (auto simp: restoreOptOut_def syncOptOutMirror_def)
  moreover have "optouts_ok d \<longleftrightarrow> distinct (map oo_id (td_optouts d)) \<and> list_all (\<lambda>n. n < td_next_optout d) (map oo_id (td_optouts d))" for d
    by (simp add: optouts_ok_def list_all_iff)
  ultimately show ?thesis using ok by (simp only:)
qed

definition registry_ok :: "tenant_db \<Rightarrow> bool" where
  "registry_ok db \<longleftrightarrow> optouts_ok db \<and> mirror_ok db"

lemma registry_ok_cong:
  "td_optouts a = td_optouts b \<Longrightarrow> td_next_optout a = td_next_optout b \<Longrightarrow> mirror_view a = mirror_view b \<Longrightarrow> registry_ok a \<longleftrightarrow> registry_ok b"
  using mirror_ok_view [of a b] by (simp add: registry_ok_def optouts_ok_def)

lemma registry_ok_step: "registry_ok db \<Longrightarrow> registry_ok (tenant_step lower hash e db)"
proof (cases e)
  case (T_create i p now)
  assume ok: "registry_ok db"
  show ?thesis
  proof (cases "createMessage hash i p now db")
    case (Inr r)
    have "registry_ok (snd r) \<longleftrightarrow> registry_ok db"
      by (rule registry_ok_cong) (use createMessage_cases [of hash i p now db "fst r" "snd r"] Inr in \<open>auto simp: mirror_view_def\<close>)
    then show ?thesis using T_create Inr ok by simp
  qed (use T_create ok in simp)
next
  case (T_inbound inst sg p now)
  assume ok: "registry_ok db"
  consider "only_stamps (snd (inbound_message lower hash inst sg p now db)) db"
    | db1 e164 w where "only_stamps db1 db" "snd (inbound_message lower hash inst sg p now db) =
        snd (sendOptOutConfirmation inst (hash e164) e164 p now (opts_out (hash e164) (Some w) (Some inst) now db1))"
    using inbound_cases by blast
  then show ?thesis
  proof cases
    case 1
    then show ?thesis using ok registry_ok_cong [of "snd (inbound_message lower hash inst sg p now db)" db]
      by (simp add: T_inbound only_stamps_def same_registry_def)
  next
    case (2 db1 e164 w)
    let ?r = "snd (recordOptOut OO_client (td_client db1) (hash e164) ''inbound_keyword'' (Some w) (Some inst) now db1)"
    have "registry_ok db1" using ok 2(1) registry_ok_cong [of db1 db] by (simp add: only_stamps_def same_registry_def)
    then have "registry_ok ?r" using optouts_ok_record mirror_ok_record by (simp add: registry_ok_def)
    moreover have "registry_ok (snd (inbound_message lower hash inst sg p now db)) \<longleftrightarrow> registry_ok ?r"
      unfolding 2(2) by (rule registry_ok_cong) (simp_all add: opts_out_def mirror_view_def)
    ultimately show ?thesis by (simp add: T_inbound)
  qed
next
  case (T_restore oid actor reason now)
  assume ok: "registry_ok db"
  show ?thesis
  proof (cases "restoreOptOut oid actor reason now db")
    case (Inr db')
    then show ?thesis using T_restore ok optouts_ok_restore [OF Inr] mirror_ok_restore [OF _ Inr]
      by (simp add: registry_ok_def optouts_ok_def)
  qed (use T_restore ok in simp)
next
  case (T_reconcile n)
  assume ok: "registry_ok db"
  then have "snd (reconcile_optout_mirror n db) = db"
    by (simp add: reconcile_optout_mirror_def registry_ok_def mirror_ok_def reconcile_contacts_ok)
  then show ?thesis using T_reconcile ok by simp
next
  case (T_contact phone)
  assume ok: "registry_ok db"
  have "drifted (db\<lparr>td_contacts := x\<rparr>) c = drifted db c" for x c using derived_optouts [of "db\<lparr>td_contacts := x\<rparr>" db] by (simp add: drifted_def)
  then show ?thesis using ok T_contact
    by (simp add: registry_ok_def optouts_ok_def mirror_ok_def insert_contact_def) (simp add: drifted_def)
next
  case (T_erase cid)
  assume ok: "registry_ok db"
  have "drifted (db\<lparr>td_contacts := x\<rparr>) c = drifted db c" for x c using derived_optouts [of "db\<lparr>td_contacts := x\<rparr>" db] by (simp add: drifted_def)
  then show ?thesis using ok T_erase
    by (auto simp: registry_ok_def optouts_ok_def mirror_ok_def erase_contact_def) (auto simp: drifted_def)
next
  case (T_work n st)
  assume ok: "registry_ok db"
  then show ?thesis using registry_ok_cong [of "tenant_step lower hash e db" db] by (simp add: T_work mirror_view_def)
next
  case (T_instance inst row)
  assume ok: "registry_ok db"
  then show ?thesis using registry_ok_cong [of "tenant_step lower hash e db" db] by (simp add: T_instance mirror_view_def)
qed

lemma derived_meaning:
  "fst (derived h db) \<longleftrightarrow> (\<exists>row\<in>set (td_optouts db). is_live h row)"
  "snd (derived h db) = (if \<exists>row\<in>set (td_optouts db). is_live h row
     then Some (Min (oo_created ` {row \<in> set (td_optouts db). is_live h row})) else None)"
proof -
  let ?rows = "filter (is_live h) (td_optouts db)"
  show "fst (derived h db) \<longleftrightarrow> (\<exists>row\<in>set (td_optouts db). is_live h row)"
    by (auto simp: derived_def Let_def filter_empty_conv)
  show "snd (derived h db) = (if \<exists>row\<in>set (td_optouts db). is_live h row
     then Some (Min (oo_created ` {row \<in> set (td_optouts db). is_live h row})) else None)"
  proof (cases ?rows)
    case Nil
    then show ?thesis by (auto simp: derived_def filter_empty_conv)
  next
    case (Cons r rs)
    have "Min (oo_created ` set ?rows) = fold min (map oo_created rs) (oo_created r)"
      unfolding Cons using Min.set_eq_fold [of "oo_created r" "map oo_created rs"] by simp
    moreover have "\<exists>row\<in>set (td_optouts db). is_live h row" 
      using Cons by (metis filter_empty_conv list.distinct(1))
    moreover have "{row \<in> set (td_optouts db). is_live h row} = set ?rows" by auto
    ultimately show ?thesis using Cons by (simp add: derived_def)
  qed
qed

text \<open>
  C29. The mirror follows the registry. In every history that starts with an exact mirror a live contact is marked as opted
  out exactly when the registry has a live row of its number in any scope, since the earliest of them. From any state, a
  sweep of the reconciler removes as many drifted contacts as its limit, so after enough sweeps the mirror is exact; the
  registry is never written.
\<close>
theorem mirror_follows_registry:
  "(registry_ok db \<longrightarrow> (\<forall>c\<in>set (td_contacts (tenant_run lower hash evs db)). \<not> mc_deleted c \<longrightarrow>
      (mc_opted_out c \<longleftrightarrow> (\<exists>row\<in>set (td_optouts (tenant_run lower hash evs db)). is_live (mc_hash c) row)) \<and>
      mc_opted_out_at c = (if mc_opted_out c
        then Some (Min (oo_created ` {row \<in> set (td_optouts (tenant_run lower hash evs db)). is_live (mc_hash c) row})) else None))) \<and>
   drift (snd (reconcile_optout_mirror n db)) = drift db - n \<and> td_optouts (snd (reconcile_optout_mirror n db)) = td_optouts db \<and>
   (drift db \<le> n * k \<longrightarrow> mirror_ok (((snd \<circ> reconcile_optout_mirror n) ^^ k) db))"
proof (intro conjI impI ballI)
  show "drift (snd (reconcile_optout_mirror n db)) = drift db - n" by (rule drift_reconcile)
  show "td_optouts (snd (reconcile_optout_mirror n db)) = td_optouts db" by (simp add: reconcile_optout_mirror_def)
  have "drift (((snd \<circ> reconcile_optout_mirror n) ^^ k) db) = drift db - n * k" for k
    by (induction k) (simp_all add: drift_reconcile algebra_simps)
  moreover have "mirror_ok d \<longleftrightarrow> drift d = 0" for d by (simp only: drift_def mirror_ok_def length_drifted)
  ultimately show "drift db \<le> n * k \<Longrightarrow> mirror_ok (((snd \<circ> reconcile_optout_mirror n) ^^ k) db)" by simp
next
  fix c assume a: "registry_ok db" "c \<in> set (td_contacts (tenant_run lower hash evs db))" "\<not> mc_deleted c"
  have "registry_ok (tenant_run lower hash evs db)"
    by (rule tenant_run_keeps [where P = registry_ok, OF _ a(1)]) (rule registry_ok_step)
  then have "\<not> drifted (tenant_run lower hash evs db) c" using a(2) by (simp add: registry_ok_def mirror_ok_def)
  then show "mc_opted_out c \<longleftrightarrow> (\<exists>row\<in>set (td_optouts (tenant_run lower hash evs db)). is_live (mc_hash c) row)"
    "mc_opted_out_at c = (if mc_opted_out c
        then Some (Min (oo_created ` {row \<in> set (td_optouts (tenant_run lower hash evs db)). is_live (mc_hash c) row})) else None)"
    using a(3) by (simp_all add: drifted_def derived_meaning)
qed

section \<open>The confirmation\<close>

definition confirms :: "string \<Rightarrow> out_job \<Rightarrow> bool" where
  "confirms h j \<longleftrightarrow> oj_hash j = h \<and> oj_origin j = Opt_Out_Confirmation"

lemma confirms_core: "confirms h j \<longleftrightarrow> (case job_core j of (n, k, jid, origin) \<Rightarrow> k = h \<and> origin = Opt_Out_Confirmation)"
  by (simp add: confirms_def job_core_def)

text \<open>Inside the 30 days after \<open>t\<close>: inbound messages come no later, and the route creates no confirmations itself.\<close>

fun in_confirm_window :: "int \<Rightarrow> tenant_event \<Rightarrow> bool" where
  "in_confirm_window t (T_inbound inst sg p now) \<longleftrightarrow> now \<le> t + CONFIRM_WINDOW_MS"
| "in_confirm_window t (T_create i p now) \<longleftrightarrow> mi_origin i \<noteq> Opt_Out_Confirmation"
| "in_confirm_window t _ \<longleftrightarrow> True"

text \<open>The guard row stands, no confirmation is newer, and the cancelled jobs stay cancelled.\<close>

definition silenced :: "string \<Rightarrow> int \<Rightarrow> nat set \<Rightarrow> nat set \<Rightarrow> tenant_db \<Rightarrow> bool" where
  "silenced h t known dead db \<longleftrightarrow> td_confirmed db h = Some t \<and> (\<forall>j\<in>set (td_jobs db). confirms h j \<longrightarrow> oj_id j \<in> known) \<and>
     (\<forall>n\<in>dead. \<exists>j\<in>set (td_jobs db). oj_id j = n \<and> oj_status j = Job_cancelled)"

lemma silenced_cong: "td_confirmed a = td_confirmed b \<Longrightarrow> td_jobs a = td_jobs b \<Longrightarrow> silenced h t known dead a \<longleftrightarrow> silenced h t known dead b"
  by (simp add: silenced_def)

lemma silenced_map:
  assumes "silenced h t known dead db" "td_confirmed db' = td_confirmed db" "td_jobs db' = map f (td_jobs db)"
    and "\<And>j. job_core (f j) = job_core j" "\<And>j. oj_status j = Job_cancelled \<Longrightarrow> f j = j"
  shows "silenced h t known dead db'"
proof -
  have "oj_id (f j) = oj_id j" "confirms h (f j) = confirms h j" for j
    using assms(4) [of j] by (simp_all add: confirms_core) (simp add: job_core_def)
  then show ?thesis using assms(1-3,5) unfolding silenced_def by (auto simp: image_iff) metis
qed

lemma silenced_more:
  assumes "silenced h t known dead db" "td_confirmed db' h = Some t" "td_jobs db' = td_jobs db @ js" "\<forall>j\<in>set js. \<not> confirms h j"
  shows "silenced h t known dead db'"
  using assms unfolding silenced_def by auto

lemma silenced_opts_out:
  assumes "silenced h t known dead db" shows "silenced h t known dead (opts_out k w g now db)"
  by (rule silenced_map [OF assms opts_out_sel(3) opts_out_others]) (auto simp: job_core_def)

lemma silenced_confirmation:
  assumes "silenced h t known dead db" "now \<le> t + CONFIRM_WINDOW_MS"
  shows "silenced h t known dead (snd (sendOptOutConfirmation inst k e164 p now db))"
proof (cases "confirmation_due k now db")
  case True
  then have k: "k \<noteq> h" using assms by (auto simp: confirmation_due_def silenced_def)
  have g: "td_confirmed (snd (sendOptOutConfirmation inst k e164 p now db)) h = Some t"
    using True k assms(1) by (simp add: sendOptOutConfirmation_def Let_def case_prod_beta silenced_def)
  obtain js where "td_jobs (snd (sendOptOutConfirmation inst k e164 p now db)) = td_jobs db @ js" "\<forall>j\<in>set js. oj_hash j = k"
    using confirmation_jobs [of inst k e164 p now db] by (metis append_Nil2 empty_iff list.set(1) set_ConsD)
  then show ?thesis using silenced_more [OF assms(1) g] k by (simp add: confirms_def)
qed (use assms in \<open>simp add: sendOptOutConfirmation_def\<close>)

lemma silenced_step:
  assumes s: "silenced h t known dead db" and w: "in_confirm_window t e"
  shows "silenced h t known dead (tenant_step lower hash e db)"
proof (cases e)
  case (T_create i p now)
  show ?thesis
  proof (cases "createMessage hash i p now db")
    case (Inr r)
    from createMessage_cases [of hash i p now db "fst r" "snd r"] Inr consider "snd r = db"
      | canonical kind where "findExistingJobRef (mi_key i) db = None"
          "snd r = advanceToDoneIfSendTest (snd (enqueueMessageJob (created_input hash i canonical kind) p now db))" by auto
    then show ?thesis
    proof cases
      case (2 canonical kind)
      then have "td_jobs (snd r) = td_jobs db @ [new_job (created_input hash i canonical kind) now (td_next_job db)]"
        using enqueue_fresh(1) [of "created_input hash i canonical kind" db p now] by (simp add: findExistingJobRef_def created_input_def)
      then show ?thesis using T_create Inr 2 w s
        by (auto simp: confirms_def new_job_def created_input_def silenced_def intro!: silenced_more [OF s])
    qed (use T_create Inr s in simp)
  qed (use T_create s in simp)
next
  case (T_inbound inst sg p now)
  have now: "now \<le> t + CONFIRM_WINDOW_MS" using w T_inbound by simp
  consider "only_stamps (snd (inbound_message lower hash inst sg p now db)) db"
    | db1 e164 x where "only_stamps db1 db" "snd (inbound_message lower hash inst sg p now db) =
        snd (sendOptOutConfirmation inst (hash e164) e164 p now (opts_out (hash e164) (Some x) (Some inst) now db1))"
    using inbound_cases by blast
  then show ?thesis
  proof cases
    case 1
    then show ?thesis using s silenced_cong [of "snd (inbound_message lower hash inst sg p now db)" db]
      by (simp add: T_inbound only_stamps_def same_queue_def same_registry_def)
  next
    case (2 db1 e164 x)
    have "silenced h t known dead db1" using 2(1) s silenced_cong [of db1 db] by (simp add: only_stamps_def same_queue_def same_registry_def)
    then show ?thesis using silenced_confirmation [OF silenced_opts_out now] by (simp add: T_inbound 2(2))
  qed
next
  case (T_work n st)
  have "\<not> canTransition Job_cancelled st" by (simp add: canTransition_def)
  then show ?thesis unfolding T_work
    by (intro silenced_map [OF s, where f = "\<lambda>j. if oj_id j = n \<and> canTransition (oj_status j) st then j\<lparr>oj_status := st\<rparr> else j"])
      (auto simp: job_core_def)
qed (use s silenced_cong [of _ db] in \<open>auto simp: restoreOptOut_def reconcile_optout_mirror_def insert_contact_def erase_contact_def silenced_def
    split: sum.split option.split\<close>)

text \<open>
  C30. A second opt-out loses the confirmation of the first. When a sender whose confirmation is still queued writes another
  opt-out inside the 30 days of the guard row, the confirmation is cancelled with the other queued jobs and none is created
  for the rest of the 30 days, so the person is never told.
\<close>
theorem second_stop_loses_confirmation:
  assumes "handleInboundMessageSignals lower hash inst sg now db = Ok (outcome, Some p, db1)"
    and "td_confirmed db (op_hash p) = Some t" "now \<le> t + CONFIRM_WINDOW_MS" "\<forall>e\<in>set evs. in_confirm_window t e"
    and "later = tenant_run lower hash evs (snd (inbound_message lower hash inst sg publicId now db))"
  shows "(\<forall>j\<in>set (td_jobs db). confirms (op_hash p) j \<and> of_recipient (op_hash p) j \<and> oj_status j = Job_queued \<longrightarrow>
      (\<exists>j'\<in>set (td_jobs later). oj_id j' = oj_id j \<and> oj_status j' = Job_cancelled)) \<and>
    (\<forall>j\<in>set (td_jobs later). confirms (op_hash p) j \<longrightarrow> oj_id j \<in> oj_id ` set (td_jobs db))"
proof -
  let ?h = "op_hash p"
  let ?dead = "oj_id ` {j \<in> set (td_jobs db). confirms ?h j \<and> of_recipient ?h j \<and> oj_status j = Job_queued}"
  let ?known = "oj_id ` set (td_jobs db)"
  obtain db0 e164 w where s: "only_stamps db0 db" and p: "p = \<lparr>op_instance = inst, op_hash = hash e164, op_e164 = e164\<rparr>"
      and db1: "db1 = opts_out (hash e164) (Some w) (Some inst) now db0"
    using signals_cases [OF assms(1)] by auto
  have jobs: "td_jobs db1 = map (\<lambda>j. if of_recipient ?h j \<and> oj_status j = Job_queued then j\<lparr>oj_status := Job_cancelled,
      oj_cancel_reason := Some ''opt_out'', oj_deny_reason := Some ''OPT_OUT'', oj_terminal := Some now\<rparr> else j) (td_jobs db)"
    using s by (simp add: db1 p opts_out_others only_stamps_def same_queue_def)
  have "td_confirmed db1 ?h = Some t"
    using assms(2) s by (simp add: db1 p opts_out_sel(3) only_stamps_def same_registry_def)
  moreover have "\<forall>j\<in>set (td_jobs db1). oj_id j \<in> ?known" unfolding jobs by auto
  moreover have "\<exists>j'\<in>set (td_jobs db1). oj_id j' = oj_id j \<and> oj_status j' = Job_cancelled"
    if j: "j \<in> set (td_jobs db)" "of_recipient ?h j \<and> oj_status j = Job_queued" for j
    unfolding jobs set_map by (rule bexI [OF _ imageI [OF j(1)]]) (simp add: j(2))
  ultimately have "silenced ?h t ?known ?dead db1" unfolding silenced_def by blast
  then have "silenced ?h t ?known ?dead (snd (inbound_message lower hash inst sg publicId now db))"
    using silenced_confirmation [OF _ assms(3)] by (simp add: inbound_message_def assms(1))
  then have "silenced ?h t ?known ?dead later"
    unfolding assms(5) by (rule tenant_run_keeps [rotated]) (use assms(4) silenced_step in blast)
  then show ?thesis unfolding silenced_def by blast
qed

text \<open>
  A tenant keyword that shadows a platform one, which no constraint of the table refuses, makes every text of a known sender
  fail: the transaction rolls back and no opt-out of that tenant is recorded.
\<close>
lemma shadowing_keyword_stops_detection:
  assumes "raw \<in> set (td_keywords db)" "normaliseOptOutText lower raw \<in> normaliseOptOutText lower ` set PLATFORM_OPTOUT_KEYWORDS"
  shows "\<exists>k. detectInboundOptOut lower hash inst (Some e164) message (td_keywords db) now db = Err (Keyword_shadows_platform k)"
proof -
  obtain e where "resolveOptOutKeywords lower (td_keywords db) = Err e"
    using assms resolve_keywords_Err [of lower] unfolding resolveOptOutKeywords_def by blast
  then show ?thesis by (cases e) (simp add: detectInboundOptOut_def)
qed

section \<open>An example tenant\<close>

definition ex_tenant :: tenant_db where
  "ex_tenant = \<lparr>td_client = ''c'', td_instances = (\<lambda>_. Some (Linked, Connected)), td_jobs = [], td_next_job = 0, td_refs = [], td_events = [],
     td_audit = [], td_optouts = [], td_next_optout = 0, td_confirmed = (\<lambda>_. None), td_pacing_events = [], td_contacts = [],
     td_first_inbound = (\<lambda>_. None), td_keywords = [], td_groups = [], td_group_cap = (\<lambda>_. None), td_group_touched = (\<lambda>_. None),
     td_media = [], td_onboarding = ''done''\<rparr>"

definition ex_input :: message_input where
  "ex_input = \<lparr>mi_instance = ''i'', mi_key = ''k'', mi_request = ''body'', mi_jid = ''91999@s.whatsapp.net'', mi_e164 = Some ''+91999'',
     mi_kind = ''text'', mi_media = None, mi_priority = Prio_normal, mi_scheduled = None, mi_user = None, mi_origin = Api_Send\<rparr>"

definition ex_stop :: inbound_signal where
  "ex_stop = \<lparr>is_sender = ''91999@s.whatsapp.net'', is_candidate = Some (ascii ''Stop!''), is_remote = None\<rparr>"

definition ex_job :: out_job where
  "ex_job = new_job (created_input (\<lambda>x. x) ex_input ''91999@s.whatsapp.net'' ''text'') 5 0"

lemma ex_jids: "isGroupJid ''91999@s.whatsapp.net'' = False" "includes_lid ''91999@s.whatsapp.net'' = False"
  "normaliseJid f ''91999@s.whatsapp.net'' =
     \<lparr>jr_jid = ''91999@s.whatsapp.net'', jr_mode = Mode_pn, jr_unattributable = False, jr_e164 = Some ''+91999'', jr_lidJid = None\<rparr>"
  by code_simp+

lemma ex_create: "td_refs db = [] \<Longrightarrow> td_jobs db = [] \<Longrightarrow> td_optouts db = [] \<Longrightarrow> td_instances db ''i'' = Some (Linked, Connected) \<Longrightarrow>
  createMessage (\<lambda>x. x) ex_input ''m1'' 5 db = Ok (\<lparr>ms_id = ''m1'', ms_offline = False\<rparr>,
    advanceToDoneIfSendTest (snd (enqueueMessageJob (created_input (\<lambda>x. x) ex_input ''91999@s.whatsapp.net'' ''text'') ''m1'' 5 db)))"
  by (simp add: createMessage_def ex_input_def created_input_def ex_jids canonical_recipient_def eligible_def isOptedOut_def
      countQueuedJobsForInstance_def MAX_QUEUED_JOBS_PER_INSTANCE_def findExistingJobRef_def replayResultFor_def
      resolveMediaIdForEnqueue_def payloadKindFor_def MEDIA_KINDS_def enqueueMessageJob_def Let_def)

lemma ex_match: "matchOptOutKeyword (map lower_cp) (ascii ''Stop!'') PLATFORM_OPTOUT_KEYWORDS = Some (ascii ''stop'')"
proof -
  have "opt_tokens (map lower_cp) (ascii ''Stop!'') = [[115, 116, 111, 112]]" by code_simp
  then show ?thesis by (simp only: match_table platform_table) code_simp
qed

definition ex_touched :: "int \<Rightarrow> tenant_db \<Rightarrow> tenant_db" where
  "ex_touched now db = touchInstanceRecipientContact ''i'' ''+91999'' now (touchContactLastInbound ''+91999'' now db)"

abbreviation ex_payload :: opted_out_payload where
  "ex_payload \<equiv> \<lparr>op_instance = ''i'', op_hash = ''+91999'', op_e164 = ''+91999''\<rparr>"

lemma ex_signals: "td_keywords db = [] \<Longrightarrow>
  handleInboundMessageSignals (map lower_cp) (\<lambda>x. x) ''i'' ex_stop now db =
    Ok (Attributed True, Some ex_payload, opts_out ''+91999'' (Some (ascii ''stop'')) (Some ''i'') now (ex_touched now db))"
proof -
  assume k: "td_keywords db = []"
  have "td_keywords (ex_touched now db) = []"
    using k by (simp add: ex_touched_def touchContactLastInbound_def touchInstanceRecipientContact_def)
  moreover have "resolveOptOutKeywords (map lower_cp) [] = Ok PLATFORM_OPTOUT_KEYWORDS" by (simp add: resolveOptOutKeywords_def)
  ultimately show ?thesis
    by (simp add: handleInboundMessageSignals_def ex_stop_def ex_jids ex_touched_def [symmetric] detectInboundOptOut_def ex_match
        opts_out_def Let_def case_prod_beta)
qed

definition ex_queued :: tenant_db where
  "ex_queued = (case createMessage (\<lambda>x. x) ex_input ''m1'' 5 ex_tenant of Ok r \<Rightarrow> snd r | Err e \<Rightarrow> ex_tenant)"

lemma ex_queued_eq: "createMessage (\<lambda>x. x) ex_input ''m1'' 5 ex_tenant = Ok (\<lparr>ms_id = ''m1'', ms_offline = False\<rparr>, ex_queued)"
  using ex_create [of ex_tenant] by (simp add: ex_queued_def ex_tenant_def)

lemma ex_queued_sel [simp]: "td_jobs ex_queued = [ex_job]" "td_keywords ex_queued = []" "td_optouts ex_queued = []"
  "td_client ex_queued = ''c''" "td_instances ex_queued = (\<lambda>_. Some (Linked, Connected))" "td_confirmed ex_queued = (\<lambda>_. None)"
  "td_contacts ex_queued = []"
  using ex_create [of ex_tenant]
  by (simp_all add: ex_queued_def ex_tenant_def enqueueMessageJob_def Let_def advanceToDoneIfSendTest_def ex_job_def ex_input_def created_input_def)

theorem create_message_idempotent_witness:
  "createMessage (\<lambda>x. x) ex_input ''m2'' 9 (tenant_run (map lower_cp) (\<lambda>x. x) [T_reconcile 5] ex_queued) =
     Ok (\<lparr>ms_id = ''m1'', ms_offline = False\<rparr>, tenant_run (map lower_cp) (\<lambda>x. x) [T_reconcile 5] ex_queued) \<and>
   createMessage (\<lambda>x. x) (ex_input\<lparr>mi_request := ''other''\<rparr>) ''m2'' 9 (tenant_run (map lower_cp) (\<lambda>x. x) [T_reconcile 5] ex_queued) =
     Err Idempotency_key_reused"
proof -
  have q: "queue_ok ex_tenant" by (simp add: queue_ok_def ex_tenant_def)
  let ?later = "tenant_run (map lower_cp) (\<lambda>x. x) [T_reconcile 5] ex_queued"
  have l: "td_instances ?later x = Some (Linked, Connected)" "countQueuedJobsForInstance x ?later < MAX_QUEUED_JOBS_PER_INSTANCE" for x
    by (simp_all add: reconcile_optout_mirror_def countQueuedJobsForInstance_def MAX_QUEUED_JOBS_PER_INSTANCE_def)
  have room: "\<not> MAX_QUEUED_JOBS_PER_INSTANCE \<le> countQueuedJobsForInstance x ?later" for x using l(2) by (simp only: not_le)
  note t = create_message_idempotent [OF q ex_queued_eq refl, where p' = "''m2''" and now' = 9 and lower = "map lower_cp" and
      evs = "[T_reconcile 5]", THEN conjunct1, unfolded l(1) option.case prod.case]
  have "createMessage (\<lambda>x. x) ex_input ''m2'' 9 ?later = Ok (\<lparr>ms_id = ''m1'', ms_offline = False\<rparr>, ?later)"
    using t [of ex_input, OF refl] by (simp only: room wa_link.distinct if_False refl if_True message_result.simps not_True_eq_False)
  moreover have "mi_key (ex_input\<lparr>mi_request := ''other''\<rparr>) = mi_key ex_input"
      "mi_request (ex_input\<lparr>mi_request := ''other''\<rparr>) \<noteq> mi_request ex_input" by (simp_all add: ex_input_def)
  ultimately show ?thesis using t [of "ex_input\<lparr>mi_request := ''other''\<rparr>"]
    by (simp only: room wa_link.distinct if_False simp_thms)
qed

theorem opt_out_holds_until_restored_witness:
  "\<exists>stop row. row \<in> set (td_optouts stop) \<and> is_live ''+91999'' row \<and>
     td_jobs stop = [ex_job\<lparr>oj_status := Job_cancelled, oj_cancel_reason := Some ''opt_out'', oj_deny_reason := Some ''OPT_OUT'', oj_terminal := Some 7\<rparr>] \<and>
     held_back ''+91999'' stop (tenant_run (map lower_cp) (\<lambda>x. x) [T_create ex_input ''m2'' 8, T_reconcile 5] stop)"
proof -
  have k: "keys_ok ex_queued" by (simp add: keys_ok_def)
  have j: "of_recipient ''+91999'' ex_job" "oj_status ex_job = Job_queued"
    by (simp_all add: ex_job_def of_recipient_def new_job_def created_input_def ex_input_def ex_jids) (simp add: ends_with_def)
  have none: "\<forall>e\<in>set [T_create ex_input ''m2'' 8, T_reconcile 5]. \<not> restores n e" for n by simp
  note t = opt_out_holds_until_restored [OF k ex_signals [OF ex_queued_sel(2), of 7], simplified]
  show ?thesis using t j none by fastforce
qed

lemma ex_touched_sel [simp]:
  "td_jobs (ex_touched now db) = td_jobs db" "td_refs (ex_touched now db) = td_refs db" "td_confirmed (ex_touched now db) = td_confirmed db"
  "td_keywords (ex_touched now db) = td_keywords db" "td_next_job (ex_touched now db) = td_next_job db"
  by (simp_all add: ex_touched_def touchContactLastInbound_def touchInstanceRecipientContact_def)

lemma ex_job_sel: "of_recipient ''+91999'' ex_job" "oj_status ex_job = Job_queued" "\<not> confirms h ex_job"
  by (simp_all add: ex_job_def of_recipient_def new_job_def created_input_def ex_input_def ex_jids confirms_def) (simp add: ends_with_def)

definition ex_first :: tenant_db where
  "ex_first = snd (inbound_message (map lower_cp) (\<lambda>x. x) ''i'' ex_stop ''m2'' 7 ex_queued)"

definition ex_confirmation :: out_job where
  "ex_confirmation = new_job \<lparr>ei_instance = ''i'', ei_key = confirmationIdempotencyKey ''+91999'' 7, ei_request = ''opt_out_confirmation:+91999'',
     ei_jid = jidFromE164 ''+91999'', ei_e164 = Some ''+91999'', ei_hash = ''+91999'', ei_origin = Opt_Out_Confirmation, ei_kind = ''text'',
     ei_priority = Prio_high, ei_scheduled = None, ei_user = None\<rparr> 7 1"

lemma ex_confirmation_sel: "confirms ''+91999'' ex_confirmation" "of_recipient ''+91999'' ex_confirmation" "oj_status ex_confirmation = Job_queued"
  by (simp_all add: ex_confirmation_def confirms_def of_recipient_def new_job_def jidFromE164_def strip_plus_def) (simp add: ends_with_def)

lemma ex_queue: "td_refs ex_queued = [\<lparr>rf_public = ''m1'', rf_instance = ''i'', rf_job = 0, rf_key = ''k'', rf_request = ''body''\<rparr>]"
  "td_next_job ex_queued = 1"
  using ex_create [of ex_tenant]
  by (simp_all add: ex_queued_def ex_tenant_def enqueueMessageJob_def Let_def advanceToDoneIfSendTest_def ex_input_def created_input_def)

lemma ex_first_sel:
  "td_jobs ex_first = [ex_job\<lparr>oj_status := Job_cancelled, oj_cancel_reason := Some ''opt_out'', oj_deny_reason := Some ''OPT_OUT'',
     oj_terminal := Some 7\<rparr>, ex_confirmation]"
  "td_confirmed ex_first ''+91999'' = Some 7" "td_keywords ex_first = []"
proof -
  let ?stop = "opts_out ''+91999'' (Some (ascii ''stop'')) (Some ''i'') 7 (ex_touched 7 ex_queued)"
  have f: "ex_first = snd (sendOptOutConfirmation ''i'' ''+91999'' ''+91999'' ''m2'' 7 ?stop)"
    by (simp add: ex_first_def inbound_message_def ex_signals)
  have s: "td_refs ?stop = td_refs ex_queued" "td_next_job ?stop = 1" "td_confirmed ?stop = (\<lambda>_. None)" "td_keywords ?stop = []"
    "td_jobs ?stop = [ex_job\<lparr>oj_status := Job_cancelled, oj_cancel_reason := Some ''opt_out'', oj_deny_reason := Some ''OPT_OUT'', oj_terminal := Some 7\<rparr>]"
    by (simp_all add: opts_out_sel opts_out_others ex_job_sel ex_queue)
      (simp_all add: opts_out_def ex_queue cancelOptOutJobs_def recordOptOut_def Let_def)
  show "td_jobs ex_first = [ex_job\<lparr>oj_status := Job_cancelled, oj_cancel_reason := Some ''opt_out'', oj_deny_reason := Some ''OPT_OUT'',
     oj_terminal := Some 7\<rparr>, ex_confirmation]"
    "td_confirmed ex_first ''+91999'' = Some 7" "td_keywords ex_first = []"
    by (simp_all add: f sendOptOutConfirmation_def confirmation_due_def enqueueMessageJob_def s ex_queue confirmationIdempotencyKey_def
        ex_confirmation_def Let_def)
qed

theorem second_stop_loses_confirmation_witness:
  "confirms ''+91999'' ex_confirmation \<and> oj_status ex_confirmation = Job_queued \<and> ex_confirmation \<in> set (td_jobs ex_first) \<and>
   list_ex (\<lambda>j. oj_id j = oj_id ex_confirmation \<and> oj_status j = Job_cancelled)
     (td_jobs (snd (inbound_message (map lower_cp) (\<lambda>x. x) ''i'' ex_stop ''m3'' 8 ex_first)))"
proof -
  let ?later = "snd (inbound_message (map lower_cp) (\<lambda>x. x) ''i'' ex_stop ''m3'' 8 ex_first)"
  have mem: "ex_confirmation \<in> set (td_jobs ex_first)" by (simp add: ex_first_sel(1))
  have none: "\<forall>e\<in>set []. in_confirm_window 7 e" and run: "?later = tenant_run (map lower_cp) (\<lambda>x. x) [] ?later" by simp_all
  have t: "td_confirmed ex_first (op_hash ex_payload) = Some 7" "(8::int) \<le> 7 + CONFIRM_WINDOW_MS"
    by (simp_all add: ex_first_sel(2) CONFIRM_WINDOW_MS_def)
  note w = second_stop_loses_confirmation [OF ex_signals [OF ex_first_sel(3)] t none run]
  have "\<exists>j\<in>set (td_jobs ?later). oj_id j = oj_id ex_confirmation \<and> oj_status j = Job_cancelled"
    using bspec [OF conjunct1 [OF w] mem] ex_confirmation_sel by simp
  then show ?thesis using ex_confirmation_sel mem by (simp add: list_ex_iff)
qed

definition ex_contact :: "bool \<Rightarrow> mirror_contact" where
  "ex_contact marked = \<lparr>mc_id = 0, mc_hash = ''+91999'', mc_phone = ''+91999'', mc_lid = None, mc_deleted = False,
     mc_opted_out = marked, mc_opted_out_at = (if marked then Some 3 else None), mc_last_inbound = None\<rparr>"

definition ex_registry :: "bool \<Rightarrow> tenant_db" where
  "ex_registry marked = ex_tenant\<lparr>td_contacts := [ex_contact marked], td_next_optout := 1, td_optouts :=
     [\<lparr>oo_id = 0, oo_scope = OO_client, oo_key = ''c'', oo_hash = ''+91999'', oo_source = ''inbound_keyword'', oo_keyword = None,
       oo_origin = None, oo_created = 3, oo_restored = None, oo_restored_by = None, oo_reason = None\<rparr>]\<rparr>"

theorem mirror_follows_registry_witness:
  "td_contacts (tenant_run (map lower_cp) (\<lambda>x. x) [T_restore 0 (Restore_user (Some ''u'')) (ascii ''asked'') 9] (ex_registry True)) =
     [ex_contact False] \<and>
   (mc_opted_out (ex_contact False) \<longleftrightarrow> (\<exists>row\<in>set (td_optouts (tenant_run (map lower_cp) (\<lambda>x. x)
      [T_restore 0 (Restore_user (Some ''u'')) (ascii ''asked'') 9] (ex_registry True))). is_live ''+91999'' row)) \<and>
   drift (ex_registry False) = 1 \<and> mirror_ok (((snd \<circ> reconcile_optout_mirror 1) ^^ 1) (ex_registry False))"
proof (intro conjI)
  let ?later = "tenant_run (map lower_cp) (\<lambda>x. x) [T_restore 0 (Restore_user (Some ''u'')) (ascii ''asked'') 9] (ex_registry True)"
  show contacts: "td_contacts ?later = [ex_contact False]" by code_simp
  show drift: "drift (ex_registry False) = 1" by code_simp
  then show "mirror_ok (((snd \<circ> reconcile_optout_mirror 1) ^^ 1) (ex_registry False))"
    using mirror_follows_registry [of "ex_registry False" undefined undefined undefined 1 1] by simp
  have "registry_ok (ex_registry True)"
    by (simp add: registry_ok_def optouts_ok_def mirror_ok_def drifted_def derived_def ex_registry_def ex_tenant_def ex_contact_def is_live_def)
  note w = bspec [OF mp [OF conjunct1 [OF mirror_follows_registry] this]]
  have "ex_contact False \<in> set (td_contacts ?later)" by (simp only: contacts) simp
  from w [OF this] have "mc_opted_out (ex_contact False) \<longleftrightarrow> (\<exists>row\<in>set (td_optouts ?later). is_live (mc_hash (ex_contact False)) row)"
    by (simp add: ex_contact_def del: tenant_run_simps)
  then show "mc_opted_out (ex_contact False) \<longleftrightarrow> (\<exists>row\<in>set (td_optouts ?later). is_live ''+91999'' row)"
    by (simp only: ex_contact_def mirror_contact.select_convs)
qed

section \<open>Senders behind a lid\<close>

definition no_lids :: "tenant_db \<Rightarrow> bool" where
  "no_lids db \<longleftrightarrow> (\<forall>c\<in>set (td_contacts db). mc_lid c = None)"

lemma no_lids_contacts: "td_contacts a = td_contacts b \<Longrightarrow> no_lids a \<longleftrightarrow> no_lids b"
  by (simp add: no_lids_def)

lemma no_lids_map: "no_lids db \<Longrightarrow> (\<And>c. mc_lid c = None \<Longrightarrow> mc_lid (f c) = None) \<Longrightarrow> no_lids (db\<lparr>td_contacts := map f (td_contacts db)\<rparr>)"
  by (simp add: no_lids_def)

lemma no_lids_sync: "no_lids db \<Longrightarrow> no_lids (syncOptOutMirror h db)"
  unfolding syncOptOutMirror_def by (rule no_lids_map) (auto simp: repaired_def)

lemma no_lids_opts_out:
  assumes "no_lids db" shows "no_lids (opts_out h w g now db)"
  unfolding opts_out_def no_lids_contacts [OF cancel_sel(6)] recordOptOut_def Let_def snd_conv
  by (rule no_lids_sync) (use assms in \<open>simp add: no_lids_def\<close>)

lemma no_lids_view: "mirror_view a = mirror_view b \<Longrightarrow> no_lids a \<longleftrightarrow> no_lids b"
proof -
  have "no_lids d \<longleftrightarrow> (\<forall>(h, deleted, out, since, lid)\<in>set (mirror_view d). lid = None)" for d
    by (auto simp: no_lids_def mirror_view_def)
  then show "mirror_view a = mirror_view b \<Longrightarrow> ?thesis" by simp
qed

lemma no_lids_reconcile: "no_lids db \<Longrightarrow> no_lids (snd (reconcile_optout_mirror n db))"
proof -
  have "\<forall>c\<in>set cs. mc_lid c = None \<Longrightarrow> \<forall>c\<in>set (reconcile_contacts d n cs). mc_lid c = None" for d n cs
    by (induction d n cs rule: reconcile_contacts.induct) (auto simp: repaired_def split: nat.split)
  then show "no_lids db \<Longrightarrow> no_lids (snd (reconcile_optout_mirror n db))" by (simp add: no_lids_def reconcile_optout_mirror_def)
qed

text \<open>A sender whose address is a lid, when no contact has one: unattributable, and nothing but a group stamp is written.\<close>

lemma lid_signal:
  assumes "no_lids db" "jr_mode (normaliseJid (\<lambda>_. None) (is_sender sg)) = Mode_lid"
  shows "handleInboundMessageSignals lower hash inst sg now db =
    Ok (Unattributable, None, case is_remote sg of None \<Rightarrow> db | Some r \<Rightarrow> touchGroupLastMessage inst r now db)"
proof -
  define db0 where "db0 = (case is_remote sg of None \<Rightarrow> db | Some r \<Rightarrow> touchGroupLastMessage inst r now db)"
  have "no_lids db0" using no_lids_view [of db0 db] only_stamps_touch(1) [where r = "is_remote sg" and db = db and inst = inst and now = now] assms(1) unfolding only_stamps_def db0_def by blast
  then have "resolveLidFromContacts lid db0 = Ok None" for lid
    by (auto simp: resolveLidFromContacts_def no_lids_def find_None_iff find_Some_iff split: option.split)
  then have pn: "(if includes_lid (is_sender sg) then resolveLidFromContacts (jr_jid (normaliseJid (\<lambda>_. None) (is_sender sg))) db0 else Ok None) = Ok None"
    by simp
  have "jr_unattributable (normaliseJid (\<lambda>_. None) (is_sender sg))"
    using assms(2) by (auto simp: normaliseJid_def normaliseJidWith_def Let_def split: if_splits)
  moreover have "\<exists>r. detectInboundOptOut lower hash inst None c [] now db0 = Ok r" for c
    by (simp add: detectInboundOptOut_def resolveOptOutKeywords_def split: option.split)
  ultimately show ?thesis
    unfolding handleInboundMessageSignals_def db0_def [symmetric] Let_def pn bindR.simps
    by (auto split: option.split)
qed

lemma no_lids_step:
  assumes "no_lids db" shows "no_lids (tenant_step lower hash e db)"
proof (cases e)
  case (T_create i p now)
  show ?thesis
  proof (cases "createMessage hash i p now db")
    case (Inr r)
    then have "td_contacts (snd r) = td_contacts db" using createMessage_cases [of hash i p now db "fst r" "snd r"] by auto
    from no_lids_contacts [OF this] show ?thesis using assms T_create Inr by simp
  qed (use T_create assms in simp)
next
  case (T_inbound inst sg p now)
  have base: "no_lids d" if "only_stamps d db" for d using no_lids_view [of d db] that assms unfolding only_stamps_def by blast
  consider "only_stamps (snd (inbound_message lower hash inst sg p now db)) db"
    | db1 e164 x where "only_stamps db1 db" "snd (inbound_message lower hash inst sg p now db) =
        snd (sendOptOutConfirmation inst (hash e164) e164 p now (opts_out (hash e164) (Some x) (Some inst) now db1))"
    using inbound_cases by blast
  then show ?thesis
  proof cases
    case (2 db1 e164 x)
    have "td_contacts (snd (sendOptOutConfirmation inst h e164 p now d)) = td_contacts d" for h d
      by (simp add: sendOptOutConfirmation_def Let_def case_prod_beta)
    from no_lids_contacts [OF this] show ?thesis using no_lids_opts_out [OF base [OF 2(1)]] by (simp add: T_inbound 2(2))
  qed (simp add: T_inbound base)
next
  case (T_restore oid actor reason now)
  have "no_lids d" if "restoreOptOut oid actor reason now db = Ok d" for d
    using that assms by (auto simp: restoreOptOut_def split: option.splits intro!: no_lids_sync) (simp_all add: no_lids_def)
  then show ?thesis using assms T_restore by (simp split: sum.split)
qed (use assms no_lids_reconcile in \<open>auto simp: insert_contact_def erase_contact_def no_lids_def\<close>)

text \<open>
  C31. No opt-out of a sender behind a lid is ever recorded. No operation writes the lid of a contact, so in every history that
  starts without one a message whose sender address is a lid is unattributable, whatever it says: the registry, the queue
  and the confirmations stay as they are.
\<close>
theorem lid_sender_never_opts_out:
  assumes "list_all (\<lambda>c. mc_lid c = None) (td_contacts db)" "jr_mode (normaliseJid (\<lambda>_. None) (is_sender sg)) = Mode_lid"
    and "later = tenant_run lower hash evs db"
  shows "fst (inbound_message lower hash inst sg p now later) = Ok Unattributable \<and>
    only_stamps (snd (inbound_message lower hash inst sg p now later)) later"
proof -
  have base: "no_lids db" using assms(1) by (simp add: no_lids_def list_all_iff)
  have "no_lids later" unfolding assms(3)
    by (rule tenant_run_keeps [where P = no_lids, OF _ base]) (rule no_lids_step)
  from lid_signal [OF this assms(2)] show ?thesis by (simp add: inbound_message_def only_stamps_touch(1))
qed

theorem lid_sender_never_opts_out_witness:
  "fst (inbound_message (map lower_cp) (\<lambda>x. x) ''i'' (ex_stop\<lparr>is_sender := ''77@lid''\<rparr>) ''m'' 9
     (tenant_run (map lower_cp) (\<lambda>x. x) [T_contact ''+91999''] ex_tenant)) = Ok Unattributable"
proof -
  have "jr_mode (normaliseJid (\<lambda>_. None) (is_sender (ex_stop\<lparr>is_sender := ''77@lid''\<rparr>))) = Mode_lid" by code_simp
  moreover have "list_all (\<lambda>c. mc_lid c = None) (td_contacts ex_tenant)" by (simp add: ex_tenant_def)
  ultimately show ?thesis using conjunct1 [OF lid_sender_never_opts_out [OF _ _ refl]] by blast
qed

end
