(* ===== verification/Auth_Sessions.thy ===== *)
theory Auth_Sessions
  imports Prelude
begin

text \<open>
  Login sessions, \<open>modules/identity\<close>: the rotation of refresh tokens with the detection of a reuse
  (\<open>session.service.ts\<close>, \<open>session-reuse.ts\<close>, \<open>auth-sessions.repo.ts\<close>, \<open>session-logout.ts\<close>), the epoch of a user's
  access tokens with its cache in Redis (\<open>token-epoch.ts\<close>), the MFA marker (\<open>session-mfa-marker.ts\<close>) and the change and
  reset of a password (\<open>password.service.ts\<close>, \<open>password-reset.service.ts\<close>, \<open>password.repo.ts\<close>). The hashes are
  parameters; a call reads the clock once. Where another transaction can commit between two statements of one, the second
  statement is a function of its own.
\<close>

section \<open>The tables\<close>

record auth_session =
  as_id :: string
  as_user :: string
  as_hash :: string
  as_parent :: "string option"
  as_issued :: int
  as_expires :: int
  as_revoked :: "(int \<times> string) option"

record user_row =
  ur_email :: string
  ur_password :: "string option"
  ur_status :: string
  ur_epoch :: int

record reset_token =
  rt_id :: string
  rt_user :: string
  rt_hash :: string
  rt_expires :: int
  rt_consumed :: "int option"

record identity_db =
  id_sessions :: "auth_session list"
  id_users :: "string \<Rightarrow> user_row option"
  id_members :: "string \<Rightarrow> (string \<times> string) option"
  id_resets :: "reset_token list"
  id_audit :: "(string option \<times> string \<times> string) list"
  id_markers :: "(string \<times> int) list"
  id_cache :: "string \<Rightarrow> (int \<times> int) option"

datatype identity_error = Unauthenticated | No_membership | No_such_user | Unique_violation | Wrong_password | Reset_token_invalid

record session_cfg =
  sc_accessTokenTtlMin :: int
  sc_refreshTokenTtlDays :: int
  sc_epochCacheTtlSec :: int

section \<open>auth-sessions.repo.ts and identity.repo.ts\<close>

text \<open>The primary key and the unique index of the hash refuse a second row.\<close>

definition insertAuthSession :: "auth_session \<Rightarrow> identity_db \<Rightarrow> (identity_error, identity_db) result" where
  "insertAuthSession row db =
    (if list_ex (\<lambda>s. as_id s = as_id row \<or> as_hash s = as_hash row) (id_sessions db) then Err Unique_violation
     else Ok (db\<lparr>id_sessions := id_sessions db @ [row]\<rparr>))"

definition findAuthSessionByRefreshTokenHash :: "string \<Rightarrow> identity_db \<Rightarrow> auth_session option" where
  "findAuthSessionByRefreshTokenHash h db = find (\<lambda>s. as_hash s = h) (id_sessions db)"

definition findAuthSessionById :: "string \<Rightarrow> identity_db \<Rightarrow> auth_session option" where
  "findAuthSessionById sid db = find (\<lambda>s. as_id s = sid) (id_sessions db)"

text \<open>The conditional update the three revocations share: rows that are revoked keep their reason.\<close>

definition revoke_where :: "(auth_session \<Rightarrow> bool) \<Rightarrow> string \<Rightarrow> int \<Rightarrow> identity_db \<Rightarrow> identity_db" where
  "revoke_where p reason revokedAt db =
    db\<lparr>id_sessions := map (\<lambda>s. if p s \<and> as_revoked s = None then s\<lparr>as_revoked := Some (revokedAt, reason)\<rparr> else s) (id_sessions db)\<rparr>"

definition revokeAuthSession :: "string \<Rightarrow> string \<Rightarrow> int \<Rightarrow> identity_db \<Rightarrow> bool \<times> identity_db" where
  "revokeAuthSession sid reason revokedAt db =
    (list_ex (\<lambda>s. as_id s = sid \<and> as_revoked s = None) (id_sessions db), revoke_where (\<lambda>s. as_id s = sid) reason revokedAt db)"

definition revokeAuthSessionsBulk :: "string list \<Rightarrow> string \<Rightarrow> int \<Rightarrow> identity_db \<Rightarrow> identity_db" where
  "revokeAuthSessionsBulk ids reason revokedAt db = revoke_where (\<lambda>s. as_id s \<in> set ids) reason revokedAt db"

text \<open>
  \<open>WITH RECURSIVE ... UNION ALL\<close>: each round joins the table with the rows of the round before and stops at an empty one.
  A chain has no more rounds than the table has rows.
\<close>

fun walk_rounds :: "nat \<Rightarrow> (auth_session list \<Rightarrow> auth_session list) \<Rightarrow> auth_session list \<Rightarrow> auth_session list" where
  "walk_rounds 0 join work = work"
| "walk_rounds (Suc n) join work = (if work = [] then [] else work @ walk_rounds n join (join work))"

definition join_parents :: "auth_session list \<Rightarrow> auth_session list \<Rightarrow> auth_session list" where
  "join_parents rows work = concat (map (\<lambda>a. filter (\<lambda>s. as_parent a = Some (as_id s)) rows) work)"

definition join_children :: "auth_session list \<Rightarrow> auth_session list \<Rightarrow> auth_session list" where
  "join_children rows work = concat (map (\<lambda>d. filter (\<lambda>s. as_parent s = Some (as_id d)) rows) work)"

definition findSessionChainIds :: "string \<Rightarrow> identity_db \<Rightarrow> string list" where
  "findSessionChainIds sid db =
    (let rows = id_sessions db; start = filter (\<lambda>s. as_id s = sid) rows; n = length rows in
     remdups (map as_id (walk_rounds n (join_parents rows) start @ walk_rounds n (join_children rows) start)))"

definition getUserTokenEpoch :: "string \<Rightarrow> identity_db \<Rightarrow> (identity_error, int) result" where
  "getUserTokenEpoch user db = (case id_users db user of None \<Rightarrow> Err No_such_user | Some u \<Rightarrow> Ok (ur_epoch u))"

definition bumpTokenEpoch :: "string \<Rightarrow> identity_db \<Rightarrow> (identity_error, int \<times> identity_db) result" where
  "bumpTokenEpoch user db =
    (case id_users db user of None \<Rightarrow> Err No_such_user
     | Some u \<Rightarrow> Ok (ur_epoch u + 1, db\<lparr>id_users := (id_users db)(user \<mapsto> u\<lparr>ur_epoch := ur_epoch u + 1\<rparr>)\<rparr>))"

definition resolveMembershipOrThrow :: "string \<Rightarrow> identity_db \<Rightarrow> (identity_error, string \<times> string) result" where
  "resolveMembershipOrThrow user db = (case id_members db user of None \<Rightarrow> Err No_membership | Some m \<Rightarrow> Ok m)"

section \<open>session-mfa-marker.ts\<close>

definition writeMfaMarker :: "session_cfg \<Rightarrow> string \<Rightarrow> int \<Rightarrow> identity_db \<Rightarrow> identity_db" where
  "writeMfaMarker cfg sid now db =
    db\<lparr>id_markers := (sid, now + sc_refreshTokenTtlDays cfg * 86400000) # filter (\<lambda>m. fst m \<noteq> sid) (id_markers db)\<rparr>"

definition readMfaMarker :: "string \<Rightarrow> int \<Rightarrow> identity_db \<Rightarrow> bool" where
  "readMfaMarker sid now db = list_ex (\<lambda>m. fst m = sid \<and> now < snd m) (id_markers db)"

definition deleteMfaMarker :: "string \<Rightarrow> identity_db \<Rightarrow> identity_db" where
  "deleteMfaMarker sid db = db\<lparr>id_markers := filter (\<lambda>m. fst m \<noteq> sid) (id_markers db)\<rparr>"

section \<open>token-epoch.ts\<close>

definition cache_get :: "string \<Rightarrow> int \<Rightarrow> identity_db \<Rightarrow> int option" where
  "cache_get user now db = (case id_cache db user of None \<Rightarrow> None | Some (e, until) \<Rightarrow> if now < until then Some e else None)"

text \<open>\<open>WRITE_EPOCH_IF_HIGHER_LUA\<close>, and the fill with \<open>NX\<close>.\<close>

definition writeEpochCache :: "session_cfg \<Rightarrow> string \<Rightarrow> int \<Rightarrow> int \<Rightarrow> identity_db \<Rightarrow> identity_db" where
  "writeEpochCache cfg user epoch now db =
    (if (case cache_get user now db of None \<Rightarrow> True | Some current \<Rightarrow> current < epoch)
     then db\<lparr>id_cache := (id_cache db)(user \<mapsto> (epoch, now + sc_epochCacheTtlSec cfg * 1000))\<rparr> else db)"

definition fill_epoch_cache :: "session_cfg \<Rightarrow> string \<Rightarrow> int \<Rightarrow> int \<Rightarrow> identity_db \<Rightarrow> identity_db" where
  "fill_epoch_cache cfg user epoch now db =
    (if cache_get user now db = None
     then db\<lparr>id_cache := (id_cache db)(user \<mapsto> (epoch, now + sc_epochCacheTtlSec cfg * 1000))\<rparr> else db)"

definition getEpoch :: "session_cfg \<Rightarrow> string \<Rightarrow> int \<Rightarrow> identity_db \<Rightarrow> (identity_error, int) result \<times> identity_db" where
  "getEpoch cfg user now db =
    (case cache_get user now db of
       Some e \<Rightarrow> (Ok e, db)
     | None \<Rightarrow>
         (case id_users db user of None \<Rightarrow> (Err Unauthenticated, db)
          | Some u \<Rightarrow> (Ok (ur_epoch u), fill_epoch_cache cfg user (ur_epoch u) now db)))"

record access_token_claims =
  ac_sub :: string
  ac_sid :: string
  ac_client :: string
  ac_role :: string
  ac_epoch :: int
  ac_mfa :: bool
  ac_iat :: int
  ac_exp :: int

text \<open>\<open>verify\<close> is \<open>jwtVerify\<close>: the claims of a token with a good signature that has not expired.\<close>

definition validateAccessToken ::
  "('t \<Rightarrow> int \<Rightarrow> access_token_claims option) \<Rightarrow> session_cfg \<Rightarrow> 't \<Rightarrow> int \<Rightarrow> identity_db \<Rightarrow>
    (identity_error, access_token_claims) result \<times> identity_db" where
  "validateAccessToken verify cfg token now db =
    (case verify token now of
       None \<Rightarrow> (Err Unauthenticated, db)
     | Some claims \<Rightarrow>
         (case getEpoch cfg (ac_sub claims) now db of
            (Err e, db1) \<Rightarrow> (Err e, db1)
          | (Ok current, db1) \<Rightarrow> (if current \<noteq> ac_epoch claims then Err Unauthenticated else Ok claims, db1)))"

section \<open>session.service.ts, session-reuse.ts and session-logout.ts\<close>

definition signAccessToken :: "session_cfg \<Rightarrow> string \<Rightarrow> string \<Rightarrow> string \<times> string \<Rightarrow> int \<Rightarrow> bool \<Rightarrow> int \<Rightarrow> access_token_claims" where
  "signAccessToken cfg user sid m epoch mfa issuedAt =
    \<lparr>ac_sub = user, ac_sid = sid, ac_client = fst m, ac_role = snd m, ac_epoch = epoch, ac_mfa = mfa,
     ac_iat = issuedAt div 1000, ac_exp = issuedAt div 1000 + sc_accessTokenTtlMin cfg * 60\<rparr>"

record session_tokens =
  tk_session :: string
  tk_access :: access_token_claims
  tk_refresh :: string

definition createSession ::
  "(string \<Rightarrow> string) \<Rightarrow> session_cfg \<Rightarrow> string \<Rightarrow> bool \<Rightarrow> string \<Rightarrow> string \<Rightarrow> int \<Rightarrow> identity_db \<Rightarrow>
    (identity_error, session_tokens \<times> identity_db) result" where
  "createSession sha cfg user mfa sid raw now db =
    bindR (resolveMembershipOrThrow user db) (\<lambda>m.
    bindR (getUserTokenEpoch user db) (\<lambda>epoch.
    bindR (insertAuthSession \<lparr>as_id = sid, as_user = user, as_hash = sha raw, as_parent = None, as_issued = now,
        as_expires = now + sc_refreshTokenTtlDays cfg * 86400000, as_revoked = None\<rparr> db) (\<lambda>db1.
      Ok (\<lparr>tk_session = sid, tk_access = signAccessToken cfg user sid m epoch mfa now, tk_refresh = raw\<rparr>,
          if mfa then writeMfaMarker cfg sid now db1 else db1))))"

text \<open>
  The sweep after a reuse, with the ids its first statement has read: revocation, audit, epoch, commit; then the cache and the
  markers. A user that is gone is the error that rolls it back.
\<close>

definition revoke_chain :: "session_cfg \<Rightarrow> string list \<Rightarrow> string \<Rightarrow> int \<Rightarrow> identity_db \<Rightarrow> identity_error \<times> identity_db" where
  "revoke_chain cfg chainIds user now db =
    (let db1 = revokeAuthSessionsBulk chainIds ''reuse_detected'' now db;
         db2 = db1\<lparr>id_audit := id_audit db1 @ [(map_option fst (id_members db user), ''auth.refresh_reuse_detected'', user)]\<rparr>
     in case bumpTokenEpoch user db2 of
          Err e \<Rightarrow> (e, db)
        | Ok (newEpoch, db3) \<Rightarrow> (Unauthenticated, fold deleteMfaMarker chainIds (writeEpochCache cfg user newEpoch now db3)))"

definition revokeChainAsReuseDetected :: "session_cfg \<Rightarrow> string \<Rightarrow> string \<Rightarrow> int \<Rightarrow> identity_db \<Rightarrow> identity_error \<times> identity_db" where
  "revokeChainAsReuseDetected cfg sid user now db = revoke_chain cfg (findSessionChainIds sid db) user now db"

text \<open>The child of a claimed session, with the membership and the epoch its access token is signed with.\<close>

definition insert_child ::
  "(string \<Rightarrow> string) \<Rightarrow> session_cfg \<Rightarrow> auth_session \<Rightarrow> string \<Rightarrow> string \<Rightarrow> int \<Rightarrow> identity_db \<Rightarrow>
    (identity_error, (string \<times> string) \<times> int \<times> identity_db) result" where
  "insert_child sha cfg session newId raw now db =
    bindR (insertAuthSession \<lparr>as_id = newId, as_user = as_user session, as_hash = sha raw, as_parent = Some (as_id session),
      as_issued = now, as_expires = now + sc_refreshTokenTtlDays cfg * 86400000, as_revoked = None\<rparr> db) (\<lambda>db1.
    bindR (resolveMembershipOrThrow (as_user session) db1) (\<lambda>m.
    bindR (getUserTokenEpoch (as_user session) db1) (\<lambda>epoch. Ok (m, epoch, db1))))"

text \<open>The rest of \<open>refresh\<close> after its first statement has read the row.\<close>

definition refresh_row ::
  "(string \<Rightarrow> string) \<Rightarrow> session_cfg \<Rightarrow> auth_session \<Rightarrow> string \<Rightarrow> string \<Rightarrow> int \<Rightarrow> identity_db \<Rightarrow>
    (identity_error, session_tokens) result \<times> identity_db" where
  "refresh_row sha cfg session newId raw now db =
    (let reuse = (\<lambda>d. case revokeChainAsReuseDetected cfg (as_id session) (as_user session) now d of (e, d1) \<Rightarrow> (Err e, d1)) in
     if as_revoked session \<noteq> None then reuse db
     else if as_expires session \<le> now then (Err Unauthenticated, db)
     else case revokeAuthSession (as_id session) ''rotated'' now db of
       (False, db1) \<Rightarrow> reuse db1
     | (True, db1) \<Rightarrow>
         (case insert_child sha cfg session newId raw now db1 of
            Err e \<Rightarrow> (Err e, db)
          | Ok (m, epoch, db2) \<Rightarrow>
              let carried = readMfaMarker (as_id session) now db2;
                  db3 = (if carried then deleteMfaMarker (as_id session) (writeMfaMarker cfg newId now db2) else db2)
              in (Ok \<lparr>tk_session = newId, tk_access = signAccessToken cfg (as_user session) newId m epoch carried now, tk_refresh = raw\<rparr>,
                  db3)))"

definition refresh ::
  "(string \<Rightarrow> string) \<Rightarrow> session_cfg \<Rightarrow> string \<Rightarrow> string \<Rightarrow> string \<Rightarrow> int \<Rightarrow> identity_db \<Rightarrow>
    (identity_error, session_tokens) result \<times> identity_db" where
  "refresh sha cfg presented newId raw now db =
    (case findAuthSessionByRefreshTokenHash (sha presented) db of
       None \<Rightarrow> (Err Unauthenticated, db)
     | Some session \<Rightarrow> refresh_row sha cfg session newId raw now db)"

definition logout :: "session_cfg \<Rightarrow> string \<Rightarrow> int \<Rightarrow> identity_db \<Rightarrow> (identity_error, unit) result \<times> identity_db" where
  "logout cfg sid now db =
    (case findAuthSessionById sid db of
       None \<Rightarrow> (Ok (), db)
     | Some session \<Rightarrow>
         (case bumpTokenEpoch (as_user session) (snd (revokeAuthSession (as_id session) ''logout'' now db)) of
            Err e \<Rightarrow> (Err e, db)
          | Ok (newEpoch, db1) \<Rightarrow> (Ok (), writeEpochCache cfg (as_user session) newEpoch now db1)))"

section \<open>password.service.ts, password-reset.service.ts and password.repo.ts\<close>

definition updatePasswordHash :: "string \<Rightarrow> string \<Rightarrow> identity_db \<Rightarrow> identity_db" where
  "updatePasswordHash user h db =
    (case id_users db user of None \<Rightarrow> db | Some u \<Rightarrow> db\<lparr>id_users := (id_users db)(user \<mapsto> u\<lparr>ur_password := Some h\<rparr>)\<rparr>)"

definition audit_user :: "string \<Rightarrow> string \<Rightarrow> identity_db \<Rightarrow> identity_db" where
  "audit_user action user db =
    (case id_members db user of None \<Rightarrow> db | Some m \<Rightarrow> db\<lparr>id_audit := id_audit db @ [(Some (fst m), action, user)]\<rparr>)"

definition revokeOtherAuthSessions :: "string \<Rightarrow> string \<Rightarrow> int \<Rightarrow> identity_db \<Rightarrow> nat \<times> identity_db" where
  "revokeOtherAuthSessions user current now db =
    (length (filter (\<lambda>s. as_user s = user \<and> as_id s \<noteq> current \<and> as_revoked s = None) (id_sessions db)),
     revoke_where (\<lambda>s. as_user s = user \<and> as_id s \<noteq> current) ''password_change'' now db)"

definition revokeAllAuthSessions :: "string \<Rightarrow> int \<Rightarrow> identity_db \<Rightarrow> identity_db" where
  "revokeAllAuthSessions user now db = revoke_where (\<lambda>s. as_user s = user) ''password_reset'' now db"

text \<open>A user without a password is checked against the hash of a fixed text, so the check costs the same time.\<close>

definition dummy_password :: string where "dummy_password = ''wp-password-change-dummy-verify''"

definition changePassword ::
  "(string \<Rightarrow> string) \<Rightarrow> (string \<Rightarrow> string \<Rightarrow> bool) \<Rightarrow> string \<Rightarrow> string \<Rightarrow> string \<Rightarrow> string \<Rightarrow> int \<Rightarrow> identity_db \<Rightarrow>
    (identity_error, nat \<times> identity_db) result" where
  "changePassword hashPassword verifyPassword user current currentPassword newPassword now db =
    (case id_users db user of
       None \<Rightarrow> Err Wrong_password
     | Some u \<Rightarrow>
         if \<not> verifyPassword (case ur_password u of Some h \<Rightarrow> h | None \<Rightarrow> hashPassword dummy_password) currentPassword
         then Err Wrong_password
         else let (n, db1) = revokeOtherAuthSessions user current now (updatePasswordHash user (hashPassword newPassword) db)
              in Ok (n, audit_user ''auth.password.change'' user db1))"

definition forgotPassword :: "(string \<Rightarrow> string) \<Rightarrow> int \<Rightarrow> string \<Rightarrow> string \<Rightarrow> string \<Rightarrow> int \<Rightarrow> identity_db \<Rightarrow> identity_db" where
  "forgotPassword sha resetTokenTtlMinutes user tid raw now db =
    (case id_users db user of
       None \<Rightarrow> db
     | Some u \<Rightarrow>
         if ur_status u \<noteq> ''active'' \<or> list_ex (\<lambda>t. rt_id t = tid \<or> rt_hash t = sha raw) (id_resets db) then db
         else audit_user ''auth.password.forgot_requested'' user (db\<lparr>id_resets :=
           map (\<lambda>t. if rt_user t = user \<and> rt_consumed t = None then t\<lparr>rt_consumed := Some now\<rparr> else t) (id_resets db) @
           [\<lparr>rt_id = tid, rt_user = user, rt_hash = sha raw, rt_expires = now + resetTokenTtlMinutes * 60000, rt_consumed = None\<rparr>]\<rparr>))"

text \<open>The row is read \<open>FOR UPDATE\<close>, so no other transaction consumes it before the claim.\<close>

definition resetPassword ::
  "(string \<Rightarrow> string) \<Rightarrow> (string \<Rightarrow> string) \<Rightarrow> session_cfg \<Rightarrow> string \<Rightarrow> string \<Rightarrow> int \<Rightarrow> identity_db \<Rightarrow>
    (identity_error, identity_db) result" where
  "resetPassword sha hashPassword cfg token newPassword resetAt db =
    (case find (\<lambda>t. rt_hash t = sha token) (id_resets db) of
       None \<Rightarrow> Err Reset_token_invalid
     | Some t \<Rightarrow>
         if rt_consumed t \<noteq> None \<or> rt_expires t \<le> resetAt then Err Reset_token_invalid
         else let db1 = db\<lparr>id_resets := map (\<lambda>r. if rt_id r = rt_id t \<and> rt_consumed r = None then r\<lparr>rt_consumed := Some resetAt\<rparr> else r)
                      (id_resets db)\<rparr> in
           bindR (bumpTokenEpoch (rt_user t) (updatePasswordHash (rt_user t) (hashPassword newPassword) db1)) (\<lambda>(newEpoch, db2).
             Ok (writeEpochCache cfg (rt_user t) newEpoch resetAt
               (audit_user ''auth.password.reset'' (rt_user t) (revokeAllAuthSessions (rt_user t) resetAt db2)))))"

section \<open>Histories\<close>

text \<open>
  Each event is one transaction with its steps after the commit. \<open>A_refresh_late\<close> and \<open>A_sweep_late\<close> are the rest of a
  refresh whose first statement read a row, or the ids of a chain, in an earlier state. \<open>A_fill\<close> is the fill of the cache
  by a validation that read any epoch earlier, \<open>A_write\<close> a late write after a commit.
\<close>

datatype identity_event =
    A_create string bool string string int
  | A_refresh string string string int
  | A_refresh_late auth_session string string int
  | A_sweep_late "string list" string int
  | A_logout string int
  | A_change string string string string int
  | A_forgot string string string int
  | A_reset string string int
  | A_fill string int int
  | A_write string int int

record identity_env =
  ie_sha :: "string \<Rightarrow> string"
  ie_hashPw :: "string \<Rightarrow> string"
  ie_verifyPw :: "string \<Rightarrow> string \<Rightarrow> bool"
  ie_cfg :: session_cfg
  ie_resetTtl :: int

fun identity_step :: "identity_env \<Rightarrow> identity_event \<Rightarrow> identity_db \<Rightarrow> identity_db" where
  "identity_step v (A_create user mfa sid raw now) db =
     (case createSession (ie_sha v) (ie_cfg v) user mfa sid raw now db of Err e \<Rightarrow> db | Ok r \<Rightarrow> snd r)"
| "identity_step v (A_refresh presented newId raw now) db = snd (refresh (ie_sha v) (ie_cfg v) presented newId raw now db)"
| "identity_step v (A_refresh_late row newId raw now) db = snd (refresh_row (ie_sha v) (ie_cfg v) row newId raw now db)"
| "identity_step v (A_sweep_late ids user now) db = snd (revoke_chain (ie_cfg v) ids user now db)"
| "identity_step v (A_logout sid now) db = snd (logout (ie_cfg v) sid now db)"
| "identity_step v (A_change user current old new now) db =
     (case changePassword (ie_hashPw v) (ie_verifyPw v) user current old new now db of Err e \<Rightarrow> db | Ok r \<Rightarrow> snd r)"
| "identity_step v (A_forgot user tid raw now) db = forgotPassword (ie_sha v) (ie_resetTtl v) user tid raw now db"
| "identity_step v (A_reset token new now) db =
     (case resetPassword (ie_sha v) (ie_hashPw v) (ie_cfg v) token new now db of Err e \<Rightarrow> db | Ok d \<Rightarrow> d)"
| "identity_step v (A_fill user epoch now) db = fill_epoch_cache (ie_cfg v) user epoch now db"
| "identity_step v (A_write user epoch now) db = writeEpochCache (ie_cfg v) user epoch now db"

definition identity_run :: "identity_env \<Rightarrow> identity_event list \<Rightarrow> identity_db \<Rightarrow> identity_db" where
  "identity_run v evs db = fold (identity_step v) evs db"

lemma identity_run_simps [simp]:
  "identity_run v [] db = db" "identity_run v (e # evs) db = identity_run v evs (identity_step v e db)"
  by (simp_all add: identity_run_def)

lemma identity_run_keeps:
  assumes "\<And>e db. e \<in> set evs \<Longrightarrow> P db \<Longrightarrow> P (identity_step v e db)" "P db"
  shows "P (identity_run v evs db)"
  using assms by (induction evs arbitrary: db) auto

section \<open>What the operations do to the sessions\<close>

lemma id_sessions_simps [simp]:
  "id_sessions (writeMfaMarker cfg sid now db) = id_sessions db" "id_sessions (deleteMfaMarker sid db) = id_sessions db"
  "id_sessions (writeEpochCache cfg user e now db) = id_sessions db" "id_sessions (fill_epoch_cache cfg user e now db) = id_sessions db"
  "id_sessions (updatePasswordHash user h db) = id_sessions db" "id_sessions (audit_user a user db) = id_sessions db"
  "id_sessions (forgotPassword sha ttl user tid raw now db) = id_sessions db"
  by (simp_all add: writeMfaMarker_def deleteMfaMarker_def writeEpochCache_def fill_epoch_cache_def updatePasswordHash_def
      audit_user_def forgotPassword_def split: option.split)

lemma id_sessions_markers [simp]: "id_sessions (fold deleteMfaMarker sids db) = id_sessions db"
  by (induction sids arbitrary: db) simp_all

lemma bump_sessions: "bumpTokenEpoch user db = Ok (e, db') \<Longrightarrow> id_sessions db' = id_sessions db"
  by (auto simp: bumpTokenEpoch_def split: option.splits)

text \<open>Rows revised in place: nothing changes but that more of them are revoked.\<close>

definition revised_row :: "auth_session \<Rightarrow> auth_session \<Rightarrow> bool" where
  "revised_row a b \<longleftrightarrow> b = a \<or> as_revoked a = None \<and> (\<exists>r. b = a\<lparr>as_revoked := Some r\<rparr>)"

definition revised :: "auth_session list \<Rightarrow> auth_session list \<Rightarrow> bool" where
  "revised = list_all2 revised_row"

lemma revised_rowD: "revised_row a b \<Longrightarrow> as_id b = as_id a \<and> as_parent b = as_parent a \<and> as_hash b = as_hash a \<and>
    as_user b = as_user a \<and> as_expires b = as_expires a \<and> (as_revoked a \<noteq> None \<longrightarrow> b = a)"
  by (auto simp: revised_row_def)

lemma revised_refl [simp]: "revised rows rows"
  by (simp add: revised_def revised_row_def list_all2_refl)

lemma revised_where [simp]: "revised (id_sessions db) (id_sessions (revoke_where p reason now db))"
  by (auto simp: revised_def revoke_where_def revised_row_def list_all2_conv_all_nth)

lemma revised_trans: "revised a b \<Longrightarrow> revised b c \<Longrightarrow> revised a c"
  unfolding revised_def by (rule list_all2_trans [where ?P1.0 = revised_row and ?P2.0 = revised_row]) (auto simp: revised_row_def)

lemma revised_maps:
  assumes "revised rows rows'"
  shows "map as_id rows' = map as_id rows" "map as_parent rows' = map as_parent rows" "map as_hash rows' = map as_hash rows"
  using assms unfolding revised_def by (induction rule: list_all2_induct) (auto dest: revised_rowD)

lemma revised_memI:
  assumes "revised rows rows'" "a \<in> set rows" shows "\<exists>b\<in>set rows'. revised_row a b"
  using assms unfolding revised_def by (induction rule: list_all2_induct) auto

lemma revised_memD:
  assumes "revised rows rows'" "b \<in> set rows'" shows "\<exists>a\<in>set rows. revised_row a b"
  using assms unfolding revised_def by (induction rule: list_all2_induct) auto

text \<open>
  One step on the table: a revision, and at most one new row, whose parent, if it has one, was not revoked before and is
  revoked now.
\<close>

definition rows_step :: "auth_session list \<Rightarrow> auth_session list \<Rightarrow> bool" where
  "rows_step rows rows' \<longleftrightarrow> (\<exists>mid. revised rows mid \<and> (rows' = mid \<or>
     (\<exists>row. rows' = mid @ [row] \<and> as_id row \<notin> as_id ` set rows \<and> as_hash row \<notin> as_hash ` set rows \<and> as_revoked row = None \<and>
        (\<forall>p. as_parent row = Some p \<longrightarrow> (\<exists>a\<in>set rows. as_id a = p \<and> as_revoked a = None) \<and> (\<exists>b\<in>set mid. as_id b = p \<and> as_revoked b \<noteq> None)))))"

lemma rows_step_revised: "revised rows rows' \<Longrightarrow> rows_step rows rows'"
  unfolding rows_step_def by blast

lemma insert_sessions:
  assumes "insertAuthSession row db = Ok db'"
  shows "id_sessions db' = id_sessions db @ [row]" "as_id row \<notin> as_id ` set (id_sessions db)" "as_hash row \<notin> as_hash ` set (id_sessions db)"
  using assms by (auto simp: insertAuthSession_def list_ex_iff split: if_splits)

lemma sweep_sessions: "revised (id_sessions db) (id_sessions (snd (revoke_chain cfg ids user now db)))"
  by (auto simp: revoke_chain_def revokeAuthSessionsBulk_def Let_def bump_sessions split: sum.split)

lemma refresh_row_sessions: "rows_step (id_sessions db) (id_sessions (snd (refresh_row sha cfg s newId raw now db)))"
proof -
  have sweep: "revised (id_sessions d) (id_sessions (snd (case revokeChainAsReuseDetected cfg (as_id s) (as_user s) now d of (e, d1) \<Rightarrow> (Err e, d1))))"
    for d by (simp add: revokeChainAsReuseDetected_def case_prod_beta sweep_sessions)
  obtain claimed db1 where c: "revokeAuthSession (as_id s) ''rotated'' now db = (claimed, db1)" by fastforce
  have rev: "revised (id_sessions db) (id_sessions db1)" using c by (auto simp: revokeAuthSession_def)
  consider "as_revoked s \<noteq> None" | "as_revoked s = None" "as_expires s \<le> now" | "as_revoked s = None" "\<not> as_expires s \<le> now" "\<not> claimed"
    | "as_revoked s = None" "\<not> as_expires s \<le> now" "claimed" by blast
  then show ?thesis
  proof cases
    case 4
    let ?row = "\<lparr>as_id = newId, as_user = as_user s, as_hash = sha raw, as_parent = Some (as_id s),
              as_issued = now, as_expires = now + sc_refreshTokenTtlDays cfg * 86400000, as_revoked = None\<rparr>"
    show ?thesis
    proof (cases "insert_child sha cfg s newId raw now db1")
      case (Inl e)
      then show ?thesis using 4 c by (simp add: refresh_row_def Let_def rows_step_revised)
    next
      case (Inr r)
      obtain m epoch db2 where r: "r = (m, epoch, db2)" by (cases r) auto
      then have ins: "insertAuthSession ?row db1 = Ok db2" using Inr by (auto simp: insert_child_def)
      have "id_sessions (snd (refresh_row sha cfg s newId raw now db)) = id_sessions db2"
        using 4 c Inr r by (simp add: refresh_row_def Let_def)
      moreover obtain a where a: "a \<in> set (id_sessions db)" "as_id a = as_id s" "as_revoked a = None"
        using c 4(3) by (auto simp: revokeAuthSession_def list_ex_iff)
      moreover have "a\<lparr>as_revoked := Some (now, ''rotated'')\<rparr> \<in> set (id_sessions db1)"
        using c a by (force simp: revokeAuthSession_def revoke_where_def)
      then have "\<exists>b\<in>set (id_sessions db1). as_id b = as_id s \<and> as_revoked b \<noteq> None" by (rule bexI [rotated]) (simp add: a)
      moreover have "as_id ` set (id_sessions db1) = as_id ` set (id_sessions db)" "as_hash ` set (id_sessions db1) = as_hash ` set (id_sessions db)"
        using revised_maps [OF rev] by (metis set_map)+
      ultimately show ?thesis unfolding rows_step_def using insert_sessions [OF ins] rev
        by (intro exI [of _ "id_sessions db1"] conjI disjI2 exI [of _ ?row]) auto
    qed
  next
    case 1
    then show ?thesis using rows_step_revised [OF sweep [of db]] by (simp add: refresh_row_def Let_def)
  next
    case 3
    then show ?thesis using rows_step_revised [OF revised_trans [OF rev sweep [of db1]]] c by (simp add: refresh_row_def Let_def)
  qed (simp add: refresh_row_def rows_step_revised)
qed

lemma resetPassword_Ok:
  assumes "resetPassword sha hashPw cfg token new now db = Ok d"
  obtains t e db2 where "find (\<lambda>t. rt_hash t = sha token) (id_resets db) = Some t" "rt_consumed t = None" "now < rt_expires t"
    "bumpTokenEpoch (rt_user t) (updatePasswordHash (rt_user t) (hashPw new)
       (db\<lparr>id_resets := map (\<lambda>r. if rt_id r = rt_id t \<and> rt_consumed r = None then r\<lparr>rt_consumed := Some now\<rparr> else r) (id_resets db)\<rparr>)) = Ok (e, db2)"
    "d = writeEpochCache cfg (rt_user t) e now (audit_user ''auth.password.reset'' (rt_user t) (revokeAllAuthSessions (rt_user t) now db2))"
proof (cases "find (\<lambda>t. rt_hash t = sha token) (id_resets db)")
  case None
  then show ?thesis using assms by (simp add: resetPassword_def)
next
  case (Some t)
  then have open_: "\<not> (rt_consumed t \<noteq> None \<or> rt_expires t \<le> now)" using assms by (auto simp: resetPassword_def split: if_splits)
  let ?bump = "bumpTokenEpoch (rt_user t) (updatePasswordHash (rt_user t) (hashPw new)
       (db\<lparr>id_resets := map (\<lambda>r. if rt_id r = rt_id t \<and> rt_consumed r = None then r\<lparr>rt_consumed := Some now\<rparr> else r) (id_resets db)\<rparr>))"
  show ?thesis
  proof (cases ?bump)
    case (Inl e)
    then show ?thesis using assms Some open_ unfolding resetPassword_def Let_def option.case if_False by simp
  next
    case (Inr r)
    then have "d = writeEpochCache cfg (rt_user t) (fst r) now (audit_user ''auth.password.reset'' (rt_user t) (revokeAllAuthSessions (rt_user t) now (snd r)))"
      using assms Some open_ unfolding resetPassword_def Let_def option.case if_False by (simp add: case_prod_beta)
    then show ?thesis using that [of t "fst r" "snd r"] Some open_ Inr by simp
  qed
qed

lemma identity_step_sessions: "rows_step (id_sessions db) (id_sessions (identity_step v e db))"
proof (cases e)
  case (A_create user mfa sid raw now)
  show ?thesis
  proof (cases "createSession (ie_sha v) (ie_cfg v) user mfa sid raw now db")
    case (Inr r)
    then obtain db1 where ins: "insertAuthSession \<lparr>as_id = sid, as_user = user, as_hash = ie_sha v raw, as_parent = None, as_issued = now,
        as_expires = now + sc_refreshTokenTtlDays (ie_cfg v) * 86400000, as_revoked = None\<rparr> db = Ok db1"
        and db1: "id_sessions (snd r) = id_sessions db1"
      by (auto simp: createSession_def)
    show ?thesis unfolding rows_step_def using insert_sessions [OF ins] Inr db1
      by (intro exI [of _ "id_sessions db"] conjI revised_refl disjI2) (auto simp: A_create)
  qed (simp add: A_create rows_step_revised)
next
  case (A_refresh presented newId raw now)
  then show ?thesis by (simp add: refresh_def refresh_row_sessions rows_step_revised split: option.split)
next
  case (A_logout sid now)
  have "revised (id_sessions db) (id_sessions (snd (logout (ie_cfg v) sid now db)))"
  proof (cases "findAuthSessionById sid db")
    case (Some s)
    let ?d = "revoke_where (\<lambda>r. as_id r = as_id s) ''logout'' now db"
    show ?thesis
    proof (cases "bumpTokenEpoch (as_user s) ?d")
      case (Inr r)
      have "id_sessions (snd r) = id_sessions ?d" by (rule bump_sessions [of "as_user s" _ "fst r"]) (simp add: Inr)
      then show ?thesis using Some Inr by (simp add: logout_def revokeAuthSession_def case_prod_beta)
    qed (use Some in \<open>simp add: logout_def revokeAuthSession_def\<close>)
  qed (simp add: logout_def)
  then show ?thesis by (simp add: A_logout rows_step_revised)
next
  case (A_change user current old new now)
  have "revised (id_sessions db) (id_sessions (snd r))"
    if "changePassword (ie_hashPw v) (ie_verifyPw v) user current old new now db = Ok r" for r
  proof -
    have "id_sessions (snd r) = id_sessions (revoke_where (\<lambda>s. as_user s = user \<and> as_id s \<noteq> current) ''password_change'' now
        (updatePasswordHash user (ie_hashPw v new) db))"
      using that by (auto simp: changePassword_def revokeOtherAuthSessions_def Let_def split: option.splits if_splits)
    then show ?thesis using revised_where [of "updatePasswordHash user (ie_hashPw v new) db"] by simp
  qed
  then show ?thesis by (simp add: A_change rows_step_revised split: sum.split)
next
  case (A_reset token new now)
  have "revised (id_sessions db) (id_sessions d)" if res: "resetPassword (ie_sha v) (ie_hashPw v) (ie_cfg v) token new now db = Ok d" for d
  proof (rule resetPassword_Ok [OF res])
    fix t e db2
    assume b: "bumpTokenEpoch (rt_user t) (updatePasswordHash (rt_user t) (ie_hashPw v new)
          (db\<lparr>id_resets := map (\<lambda>r. if rt_id r = rt_id t \<and> rt_consumed r = None then r\<lparr>rt_consumed := Some now\<rparr> else r) (id_resets db)\<rparr>)) = Ok (e, db2)"
      and d: "d = writeEpochCache (ie_cfg v) (rt_user t) e now (audit_user ''auth.password.reset'' (rt_user t) (revokeAllAuthSessions (rt_user t) now db2))"
    from bump_sessions [OF b] have "id_sessions db2 = id_sessions db" by simp
    then show ?thesis using revised_where [of db2] by (simp add: d revokeAllAuthSessions_def)
  qed
  then show ?thesis by (simp add: A_reset rows_step_revised split: sum.split)
qed (simp_all add: refresh_row_sessions sweep_sessions rows_step_revised)

section \<open>Chains\<close>

text \<open>
  Rows are in the order of their inserts: a parent stands before its child, no row has two children, and one with a child is
  revoked.
\<close>

definition sessions_ok :: "auth_session list \<Rightarrow> bool" where
  "sessions_ok rows \<longleftrightarrow> distinct (map as_id rows) \<and> distinct (map as_hash rows) \<and>
     (\<forall>i<length rows. \<forall>p. as_parent (rows ! i) = Some p \<longrightarrow> p \<in> as_id ` set (take i rows)) \<and>
     (\<forall>i<length rows. \<forall>j<length rows. as_parent (rows ! i) \<noteq> None \<longrightarrow> as_parent (rows ! i) = as_parent (rows ! j) \<longrightarrow> i = j) \<and>
     (\<forall>c\<in>set rows. \<forall>a\<in>set rows. as_parent c = Some (as_id a) \<longrightarrow> as_revoked a \<noteq> None)"

lemma sessions_okD:
  assumes "sessions_ok rows"
  shows "distinct (map as_id rows)" "distinct (map as_hash rows)"
    "\<And>i p. i < length rows \<Longrightarrow> as_parent (rows ! i) = Some p \<Longrightarrow> p \<in> as_id ` set (take i rows)"
    "\<And>i j. i < length rows \<Longrightarrow> j < length rows \<Longrightarrow> as_parent (rows ! i) \<noteq> None \<Longrightarrow> as_parent (rows ! i) = as_parent (rows ! j) \<Longrightarrow> i = j"
    "\<And>c a. c \<in> set rows \<Longrightarrow> a \<in> set rows \<Longrightarrow> as_parent c = Some (as_id a) \<Longrightarrow> as_revoked a \<noteq> None"
  using assms unfolding sessions_ok_def by blast+

lemma revised_nth:
  assumes "revised rows rows'"
  shows "length rows' = length rows" "\<And>i. i < length rows \<Longrightarrow> revised_row (rows ! i) (rows' ! i)"
    "\<And>i. as_id ` set (take i rows') = as_id ` set (take i rows)"
proof -
  show "length rows' = length rows" using assms by (simp add: revised_def list_all2_lengthD)
  show "revised_row (rows ! i) (rows' ! i)" if "i < length rows" for i using assms that by (simp add: revised_def list_all2_nthD)
  show "as_id ` set (take i rows') = as_id ` set (take i rows)" for i
    using revised_maps(1) [OF assms] by (metis set_map take_map)
qed

lemma sessions_ok_revised:
  assumes ok: "sessions_ok rows" and r: "revised rows rows'"
  shows "sessions_ok rows'"
proof -
  have par: "as_parent (rows' ! i) = as_parent (rows ! i)" if "i < length rows" for i using revised_nth(2) [OF r that] revised_rowD by metis
  have "as_revoked b \<noteq> None" if c': "c' \<in> set rows'" and b: "b \<in> set rows'" and p: "as_parent c' = Some (as_id b)" for c' b
  proof -
    obtain c a where "c \<in> set rows" "revised_row c c'" "a \<in> set rows" "revised_row a b"
      using revised_memD [OF r c'] revised_memD [OF r b] by blast
    then show ?thesis using sessions_okD(5) [OF ok, of c a] p revised_rowD by metis
  qed
  then show ?thesis
    unfolding sessions_ok_def revised_maps [OF r] revised_nth(1,3) [OF r]
    using sessions_okD(1-4) [OF ok] par by auto
qed

lemma sessions_ok_step:
  assumes ok: "sessions_ok rows" and "rows_step rows rows'"
  shows "sessions_ok rows'"
proof -
  obtain mid where r: "revised rows mid" and cases: "rows' = mid \<or> (\<exists>row. rows' = mid @ [row] \<and> as_id row \<notin> as_id ` set rows \<and>
      as_hash row \<notin> as_hash ` set rows \<and> as_revoked row = None \<and> (\<forall>p. as_parent row = Some p \<longrightarrow>
        (\<exists>a\<in>set rows. as_id a = p \<and> as_revoked a = None) \<and> (\<exists>b\<in>set mid. as_id b = p \<and> as_revoked b \<noteq> None)))"
    using assms(2) unfolding rows_step_def by blast
  have okm: "sessions_ok mid" using sessions_ok_revised [OF ok r] .
  show ?thesis
  proof (cases "rows' = mid")
    case False
    then obtain row where rows': "rows' = mid @ [row]" and fresh: "as_id row \<notin> as_id ` set rows" "as_hash row \<notin> as_hash ` set rows"
      and live: "as_revoked row = None" and parent: "\<And>p. as_parent row = Some p \<Longrightarrow>
        (\<exists>a\<in>set rows. as_id a = p \<and> as_revoked a = None) \<and> (\<exists>b\<in>set mid. as_id b = p \<and> as_revoked b \<noteq> None)"
      using cases by blast
    have ids: "as_id ` set mid = as_id ` set rows" "as_hash ` set mid = as_hash ` set rows" using revised_maps [OF r] by (metis set_map)+
    have childless: "as_parent c \<noteq> as_parent row" if c: "c \<in> set mid" and p: "as_parent row \<noteq> None" for c
    proof
      assume "as_parent c = as_parent row"
      moreover obtain c0 where "c0 \<in> set rows" "revised_row c0 c" using revised_memD [OF r c] by blast
      moreover obtain a where "a \<in> set rows" "as_parent row = Some (as_id a)" "as_revoked a = None" using parent p by blast
      ultimately show False using sessions_okD(5) [OF ok, of c0 a] revised_rowD by metis
    qed
    have anc: "as_id ` set (take i (mid @ [row])) = as_id ` set (take i mid)" if "i \<le> length mid" for i using that by simp
    have first: "p \<in> as_id ` set (take i (mid @ [row]))" if il: "i < length mid + 1" and ip: "as_parent ((mid @ [row]) ! i) = Some p" for i p
    proof (cases "i < length mid")
      case True then show ?thesis using sessions_okD(3) [OF okm True] ip by (simp add: nth_append)
    next
      case False
      then have i: "i = length mid" using il by simp
      then obtain b where "b \<in> set mid" "as_id b = p" using parent [of p] ip by auto
      then show ?thesis by (auto simp: i)
    qed
    have lin: "i = j" if "i < length mid + 1" "j < length mid + 1" "as_parent ((mid @ [row]) ! i) \<noteq> None"
      "as_parent ((mid @ [row]) ! i) = as_parent ((mid @ [row]) ! j)" for i j
      using that sessions_okD(4) [OF okm, of i j] childless [of "mid ! i"] childless [of "mid ! j"]
      by (auto simp: nth_append less_Suc_eq split: if_splits)
    have rev: "as_revoked a \<noteq> None" if c: "c \<in> set (mid @ [row])" and am: "a \<in> set (mid @ [row])" and ca: "as_parent c = Some (as_id a)" for c a
    proof -
      have sub: "\<exists>b\<in>set mid. as_id b = p" if x: "as_parent x = Some p" "x \<in> set mid" for p x
      proof -
        obtain i where i: "i < length mid" "mid ! i = x" using x(2) by (auto simp: in_set_conv_nth)
        then show ?thesis using sessions_okD(3) [OF okm, of i p] x(1) by (auto dest: in_set_takeD)
      qed
      have "a \<in> set mid"
      proof (rule ccontr)
        assume "a \<notin> set mid"
        then have a: "a = row" using am by simp
        have "\<exists>b\<in>set mid. as_id b = as_id row"
          using c ca sub [of c "as_id row"] parent [of "as_id row"] unfolding a by auto
        then show False using fresh(1) ids(1) by (metis imageI)
      qed
      show ?thesis
      proof (cases "c \<in> set mid")
        case True
        show ?thesis by (rule sessions_okD(5) [OF okm True \<open>a \<in> set mid\<close> ca])
      next
        case False
        then obtain b where "b \<in> set mid" "as_id b = as_id a" "as_revoked b \<noteq> None" using c ca parent by auto
        then show ?thesis using \<open>a \<in> set mid\<close> sessions_okD(1) [OF okm] by (metis distinct_map inj_onD)
      qed
    qed
    show ?thesis unfolding rows' sessions_ok_def
      using sessions_okD(1,2) [OF okm] fresh ids first lin rev by (intro conjI) (auto simp: distinct_map)
  qed (use okm in simp)
qed

lemma sessions_ok_run:
  assumes "sessions_ok (id_sessions db)" shows "sessions_ok (id_sessions (identity_run v evs db))"
  by (rule identity_run_keeps [where P = "\<lambda>db. sessions_ok (id_sessions db)", OF _ assms])
    (rule sessions_ok_step [OF _ identity_step_sessions])

text \<open>The links from child to parent; the chain of a session is what the links reach in both directions.\<close>

definition parents :: "auth_session list \<Rightarrow> (string \<times> string) set" where
  "parents rows = {(as_id c, p) | c p. c \<in> set rows \<and> as_parent c = Some p}"

definition chain :: "auth_session list \<Rightarrow> (string \<times> string) set" where
  "chain rows = (parents rows \<union> (parents rows)\<inverse>)\<^sup>*"

text \<open>Where links lead one way only, links in both directions reach what one of the two does.\<close>

lemma two_way:
  assumes "\<And>x y z. (x, y) \<in> R \<Longrightarrow> (x, z) \<in> R \<Longrightarrow> y = z" "\<And>x y z. (y, x) \<in> R \<Longrightarrow> (z, x) \<in> R \<Longrightarrow> y = z"
  shows "(R \<union> R\<inverse>)\<^sup>* = R\<^sup>* \<union> (R\<inverse>)\<^sup>*"
proof
  have "(x, y) \<in> R\<^sup>* \<union> (R\<inverse>)\<^sup>*" if "(x, y) \<in> (R \<union> R\<inverse>)\<^sup>*" for x y
    using that
  proof (induction rule: rtrancl_induct)
    case (step y z)
    consider "(x, y) \<in> R\<^sup>*" "(y, z) \<in> R" | "(x, y) \<in> (R\<inverse>)\<^sup>*" "(z, y) \<in> R"
      | "(x, y) \<in> R\<^sup>*" "(z, y) \<in> R" | "(x, y) \<in> (R\<inverse>)\<^sup>*" "(y, z) \<in> R" using step by blast
    then show ?case
    proof cases
      case 3
      from 3(1) show ?thesis
      proof (cases rule: rtranclE)
        case base then show ?thesis using 3(2) by auto
      next
        case (step w) then show ?thesis using 3(2) assms(2) by blast
      qed
    next
      case 4
      from 4(1) show ?thesis
      proof (cases rule: rtranclE)
        case base then show ?thesis using 4(2) by auto
      next
        case (step w) then show ?thesis using 4(2) assms(1) by blast
      qed
    qed (blast intro: rtrancl_into_rtrancl converseI)+
  qed simp
  then show "(R \<union> R\<inverse>)\<^sup>* \<subseteq> R\<^sup>* \<union> (R\<inverse>)\<^sup>*" by auto
  show "R\<^sup>* \<union> (R\<inverse>)\<^sup>* \<subseteq> (R \<union> R\<inverse>)\<^sup>*" by (intro Un_least rtrancl_mono) auto
qed

text \<open>As many rounds as a measure allows reach everything.\<close>

lemma rounds_reach:
  assumes "\<And>x y. (x, y) \<in> R \<Longrightarrow> f y < (f x :: nat)" "f x \<le> n"
  shows "(\<Union>k\<le>n. (R ^^ k) `` {x}) = R\<^sup>* `` {x}"
proof -
  have "f y + k \<le> f x" if "(x, y) \<in> R ^^ k" for k y
    using that
  proof (induction k arbitrary: y)
    case (Suc k)
    then obtain z where "(x, z) \<in> R ^^ k" "(z, y) \<in> R" by auto
    then show ?case using Suc.IH [of z] assms(1) [of z y] by simp
  qed simp
  then have "k \<le> n" if "(x, y) \<in> R ^^ k" for k y using that assms(2) by fastforce
  then show ?thesis by (fastforce simp: rtrancl_power)
qed

lemma walk_set:
  assumes "\<And>w. set w \<subseteq> S \<Longrightarrow> set (join w) \<subseteq> S \<and> as_id ` set (join w) = R `` (as_id ` set w)" "set work \<subseteq> S"
  shows "as_id ` set (walk_rounds n join work) = (\<Union>k\<le>n. (R ^^ k) `` (as_id ` set work))"
  using assms(2)
proof (induction n arbitrary: work)
  case (Suc n)
  have "(\<Union>k\<le>Suc n. (R ^^ k) `` W) = W \<union> (\<Union>k\<le>n. (R ^^ k) `` (R `` W))" for W
    by (simp add: atMost_Suc_eq_insert_0 relcomp_Image relpow_commute [symmetric])
  then show ?case using Suc assms(1) [OF Suc.prems] by (auto simp: image_Un)
qed simp

text \<open>The place of a row in the order of the inserts.\<close>

definition place :: "auth_session list \<Rightarrow> string \<Rightarrow> nat" where
  "place rows x = length (takeWhile (\<lambda>s. as_id s \<noteq> x) rows)"

lemma place_le: "place rows x \<le> length rows"
  by (simp add: place_def length_takeWhile_le)

lemma place_nth:
  assumes "distinct (map as_id rows)" "i < length rows"
  shows "place rows (as_id (rows ! i)) = i"
proof -
  have "rows = take i rows @ rows ! i # drop (Suc i) rows" using assms(2) by (simp add: id_take_nth_drop)
  moreover have "as_id s \<noteq> as_id (rows ! i)" if s: "s \<in> set (take i rows)" for s
  proof -
    obtain j where "j < i" "s = rows ! j" using s by (auto simp: in_set_conv_nth)
    then show ?thesis using assms nth_eq_iff_index_eq [of "map as_id rows" j i] by auto
  qed
  then have "takeWhile (\<lambda>s. as_id s \<noteq> as_id (rows ! i)) (take i rows @ rows ! i # drop (Suc i) rows) = take i rows"
    by (simp add: takeWhile_append2)
  ultimately show ?thesis using assms(2) unfolding place_def by (metis length_take min.absorb4)
qed

lemma parents_link:
  assumes ok: "sessions_ok rows" and "(x, p) \<in> parents rows"
  shows "place rows p < place rows x" "place rows x < length rows" "\<exists>a\<in>set rows. as_id a = p" "\<exists>c\<in>set rows. as_id c = x"
proof -
  obtain c where c: "c \<in> set rows" "as_id c = x" "as_parent c = Some p" using assms(2) by (auto simp: parents_def)
  obtain i where i: "i < length rows" "rows ! i = c" using c(1) by (auto simp: in_set_conv_nth)
  obtain j where j: "j < i" "as_id (rows ! j) = p" using sessions_okD(3) [OF ok, of i p] i c(3) by (auto simp: in_set_conv_nth)
  note pl = place_nth [OF sessions_okD(1) [OF ok]]
  show "place rows p < place rows x" "place rows x < length rows" using pl [of i] pl [of j] i j c(2) by auto
  show "\<exists>a\<in>set rows. as_id a = p" "\<exists>c\<in>set rows. as_id c = x" using i j c by auto
qed

lemma same_id: "sessions_ok rows \<Longrightarrow> a \<in> set rows \<Longrightarrow> b \<in> set rows \<Longrightarrow> as_id a = as_id b \<Longrightarrow> a = b"
  using sessions_okD(1) by (metis distinct_map inj_onD)

lemma parents_unique:
  assumes "sessions_ok rows"
  shows "(x, y) \<in> parents rows \<Longrightarrow> (x, z) \<in> parents rows \<Longrightarrow> y = z"
    "(y, x) \<in> parents rows \<Longrightarrow> (z, x) \<in> parents rows \<Longrightarrow> y = z"
proof -
  show "(x, y) \<in> parents rows \<Longrightarrow> (x, z) \<in> parents rows \<Longrightarrow> y = z"
    using same_id [OF assms] by (auto simp: parents_def) (metis option.inject)
  assume "(y, x) \<in> parents rows" "(z, x) \<in> parents rows"
  then obtain c d where c: "c \<in> set rows" "as_id c = y" "as_parent c = Some x" and d: "d \<in> set rows" "as_id d = z" "as_parent d = Some x"
    by (auto simp: parents_def)
  obtain i j where "i < length rows" "rows ! i = c" "j < length rows" "rows ! j = d" using c(1) d(1) by (auto simp: in_set_conv_nth)
  then show "y = z" using sessions_okD(4) [OF assms, of i j] c d by auto
qed

lemma chain_either:
  assumes "sessions_ok rows" shows "chain rows = (parents rows)\<^sup>* \<union> ((parents rows)\<inverse>)\<^sup>*"
  unfolding chain_def by (rule two_way) (fact parents_unique [OF assms])+

text \<open>The recursive query finds the chain.\<close>

lemma find_chain:
  assumes ok: "sessions_ok (id_sessions db)" and s: "s \<in> set (id_sessions db)"
  shows "set (findSessionChainIds (as_id s) db) = chain (id_sessions db) `` {as_id s}"
proof -
  let ?rows = "id_sessions db" let ?n = "length ?rows" let ?P = "parents ?rows"
  have start: "as_id ` set (filter (\<lambda>r. as_id r = as_id s) ?rows) = {as_id s}" using s by auto
  have up: "set (join_parents ?rows w) \<subseteq> set ?rows \<and> as_id ` set (join_parents ?rows w) = ?P `` (as_id ` set w)" if w: "set w \<subseteq> set ?rows" for w
  proof (intro conjI set_eqI iffI)
    fix p assume "p \<in> ?P `` (as_id ` set w)"
    then obtain a where a: "a \<in> set w" "(as_id a, p) \<in> ?P" by auto
    then obtain r where "r \<in> set ?rows" "as_id r = p" using parents_link(3) [OF ok] by blast
    moreover have "as_parent a = Some p" using a w same_id [OF ok] by (auto simp: parents_def)
    ultimately show "p \<in> as_id ` set (join_parents ?rows w)" using a(1) by (auto simp: join_parents_def)
  qed (use w in \<open>auto simp: join_parents_def parents_def\<close>)
  have down: "set (join_children ?rows w) \<subseteq> set ?rows \<and> as_id ` set (join_children ?rows w) = ?P\<inverse> `` (as_id ` set w)" for w
    by (auto simp: join_children_def parents_def)
  have sub: "set (filter (\<lambda>r. as_id r = as_id s) ?rows) \<subseteq> set ?rows" by auto
  have "as_id ` set (walk_rounds ?n (join_parents ?rows) (filter (\<lambda>r. as_id r = as_id s) ?rows)) = ?P\<^sup>* `` {as_id s}"
    using walk_set [OF up sub, of ?n] rounds_reach [of ?P "place ?rows", OF parents_link(1) [OF ok] place_le]
    unfolding start by (simp only:)
  moreover have "as_id ` set (walk_rounds ?n (join_children ?rows) (filter (\<lambda>r. as_id r = as_id s) ?rows)) = (?P\<inverse>)\<^sup>* `` {as_id s}"
  proof -
    have dec: "?n - place ?rows y < ?n - place ?rows x" if "(x, y) \<in> ?P\<inverse>" for x y
      using parents_link(1,2) [OF ok, of y x] that by auto
    show ?thesis unfolding walk_set [OF down sub] start
      by (rule rounds_reach [of "?P\<inverse>" "\<lambda>x. ?n - place ?rows x", OF dec diff_le_self])
  qed
  ultimately show ?thesis unfolding chain_either [OF ok] findSessionChainIds_def Let_def by (simp add: image_Un Un_Image)
qed

section \<open>Dead chains\<close>

lemma parents_revised:
  assumes "revised rows rows'" shows "parents rows' = parents rows"
proof -
  have "parents r = {(x, p). (x, Some p) \<in> set (zip (map as_id r) (map as_parent r))}" for r
    by (auto simp: parents_def zip_map_map zip_same_conv_map image_iff)
  then show ?thesis by (simp only: revised_maps [OF assms])
qed

lemma parents_append: "parents (a @ b) = parents a \<union> parents b"
  by (auto simp: parents_def)

lemma revised_sets:
  assumes "revised rows rows'"
  shows "as_id ` set rows' = as_id ` set rows" "as_hash ` set rows' = as_hash ` set rows"
  using revised_maps [OF assms] by (metis set_map)+

lemma chain_known:
  assumes ok: "sessions_ok rows" and "(x, y) \<in> chain rows" "x \<in> as_id ` set rows" shows "y \<in> as_id ` set rows"
  using assms(2,3) unfolding chain_def
proof (induction rule: rtrancl_induct)
  case (step y z)
  then show ?case using parents_link(3) [OF ok, of y z] parents_link(4) [OF ok, of z y] by blast
qed simp

text \<open>What a step can look like from the rows before it.\<close>

lemma rows_stepE:
  assumes "rows_step rows rows'"
  obtains mid new where "revised rows mid" "rows' = mid @ new" "\<And>row. row \<in> set new \<Longrightarrow> as_id row \<notin> as_id ` set rows"
    "\<And>row p. row \<in> set new \<Longrightarrow> as_parent row = Some p \<Longrightarrow> \<exists>a\<in>set rows. as_id a = p \<and> as_revoked a = None"
  using assms unfolding rows_step_def by (elim exE conjE disjE) (metis append_Nil2 empty_iff empty_set, metis list.set_intros(1) set_ConsD empty_iff empty_set)

text \<open>Sessions that are all revoked; and a set of them that links do not leave.\<close>

definition ended :: "string set \<Rightarrow> auth_session list \<Rightarrow> bool" where
  "ended K rows \<longleftrightarrow> K \<subseteq> as_id ` set rows \<and> (\<forall>r\<in>set rows. as_id r \<in> K \<longrightarrow> as_revoked r \<noteq> None)"

definition dead :: "string set \<Rightarrow> auth_session list \<Rightarrow> bool" where
  "dead K rows \<longleftrightarrow> ended K rows \<and> (\<forall>(x, p)\<in>parents rows. x \<in> K \<longleftrightarrow> p \<in> K)"

lemma ended_revised:
  assumes d: "ended K rows" and r: "revised rows rows'" shows "ended K rows'"
proof -
  have "as_revoked b \<noteq> None" if b: "b \<in> set rows'" "as_id b \<in> K" for b
  proof -
    obtain a where a: "a \<in> set rows" "revised_row a b" using revised_memD [OF r b(1)] by blast
    then have "as_revoked a \<noteq> None" using d b(2) revised_rowD [OF a(2)] by (auto simp: ended_def)
    then show ?thesis using revised_rowD [OF a(2)] by simp
  qed
  moreover have "as_id ` set rows' = as_id ` set rows" using revised_maps(1) [OF r] by (metis set_map)
  ultimately show ?thesis using d unfolding ended_def by simp
qed

lemma ended_step:
  assumes d: "ended K rows" and "rows_step rows rows'" shows "ended K rows'"
  using assms(2)
proof (cases rule: rows_stepE)
  case (1 mid new)
  have "as_id row \<notin> K" if "row \<in> set new" for row using 1(3) [OF that] d by (auto simp: ended_def)
  then show ?thesis using ended_revised [OF d 1(1)] by (auto simp: ended_def 1(2))
qed

lemma ended_run:
  assumes "ended K (id_sessions db)" shows "ended K (id_sessions (identity_run v evs db))"
  by (rule identity_run_keeps [where P = "\<lambda>db. ended K (id_sessions db)", OF _ assms]) (rule ended_step [OF _ identity_step_sessions])

lemma dead_step:
  assumes d: "dead K rows" and step: "rows_step rows rows'" shows "dead K rows'"
  using step
proof (cases rule: rows_stepE)
  case (1 mid new)
  have out: "as_id row \<notin> K \<and> (\<forall>p. as_parent row = Some p \<longrightarrow> p \<notin> K)" if "row \<in> set new" for row
    using 1(3,4) [OF that] d by (fastforce simp: dead_def ended_def)
  have "parents rows' = parents rows \<union> parents new" by (simp add: 1(2) parents_append parents_revised [OF 1(1)])
  moreover have "x \<notin> K \<and> p \<notin> K" if "(x, p) \<in> parents new" for x p using that out by (auto simp: parents_def)
  ultimately show ?thesis using d ended_step [OF _ step] unfolding dead_def by auto
qed

lemma dead_chain:
  assumes d: "dead K rows" and "(x, y) \<in> chain rows" "x \<in> K" shows "y \<in> K"
  using assms(2,3) unfolding chain_def
proof (induction rule: rtrancl_induct)
  case (step y z)
  then show ?case using d unfolding dead_def by blast
qed simp

lemma dead_run:
  assumes "dead K (id_sessions db)" shows "dead K (id_sessions (identity_run v evs db))"
  by (rule identity_run_keeps [where P = "\<lambda>db. dead K (id_sessions db)", OF _ assms]) (rule dead_step [OF _ identity_step_sessions])

lemma sweep_result:
  assumes "id_users db user = Some u"
  shows "fst (revoke_chain cfg ids user now db) = Unauthenticated"
    "id_sessions (snd (revoke_chain cfg ids user now db)) = id_sessions (revokeAuthSessionsBulk ids ''reuse_detected'' now db)"
  using assms by (simp_all add: revoke_chain_def bumpTokenEpoch_def revokeAuthSessionsBulk_def revoke_where_def Let_def)

lemma sweep_kills:
  assumes ok: "sessions_ok (id_sessions db)" and s: "s \<in> set (id_sessions db)" and u: "id_users db user = Some u"
  shows "dead (chain (id_sessions db) `` {as_id s}) (id_sessions (snd (revokeChainAsReuseDetected cfg (as_id s) user now db)))"
proof -
  let ?K = "chain (id_sessions db) `` {as_id s}" and ?rows = "id_sessions (snd (revokeChainAsReuseDetected cfg (as_id s) user now db))"
  have rows: "?rows = id_sessions (revokeAuthSessionsBulk (findSessionChainIds (as_id s) db) ''reuse_detected'' now db)"
    unfolding revokeChainAsReuseDetected_def using sweep_result(2) [OF u] .
  have r: "revised (id_sessions db) ?rows" unfolding rows by (simp add: revokeAuthSessionsBulk_def)
  have "?K \<subseteq> as_id ` set ?rows" using chain_known [OF ok] s unfolding revised_sets(1) [OF r] by blast
  moreover have "as_revoked b \<noteq> None" if "b \<in> set ?rows" "as_id b \<in> ?K" for b
    using that unfolding rows find_chain [OF ok s, symmetric] by (auto simp: revokeAuthSessionsBulk_def revoke_where_def split: if_splits)
  moreover have "x \<in> ?K \<longleftrightarrow> p \<in> ?K" if "(x, p) \<in> parents (id_sessions db)" for x p
    using that unfolding chain_def by (auto intro: rtrancl_into_rtrancl)
  ultimately show ?thesis unfolding dead_def ended_def parents_revised [OF r] by blast
qed

section \<open>Properties\<close>

text \<open>
  C13. A login has one live session. In every history, also of refreshes that read their row earlier, no two sessions of one
  rotation chain are unrevoked at once, and from every session of it, revoked or not, the recursive query returns exactly
  the chain: all its ancestors and all its descendants.
\<close>
theorem one_live_session_per_chain:
  assumes "sessions_ok (id_sessions db)" "later = identity_run v evs db"
  shows "(\<forall>a b. a \<in> set (id_sessions later) \<longrightarrow> b \<in> set (id_sessions later) \<longrightarrow> as_revoked a = None \<longrightarrow> as_revoked b = None \<longrightarrow>
      (as_id a, as_id b) \<in> chain (id_sessions later) \<longrightarrow> a = b) \<and>
    (\<forall>s\<in>set (id_sessions later). set (findSessionChainIds (as_id s) later) = {x. (as_id s, x) \<in> chain (id_sessions later)})"
proof (intro conjI allI impI ballI)
  have ok: "sessions_ok (id_sessions later)" using sessions_ok_run [OF assms(1)] assms(2) by simp
  show "set (findSessionChainIds (as_id s) later) = {x. (as_id s, x) \<in> chain (id_sessions later)}"
    if "s \<in> set (id_sessions later)" for s
    using find_chain [OF ok that] by auto
  have leaf: "(x, as_id r) \<notin> parents (id_sessions later)" if "r \<in> set (id_sessions later)" "as_revoked r = None" for x r
    using sessions_okD(5) [OF ok, of _ r] that by (auto simp: parents_def)
  show "a = b" if "a \<in> set (id_sessions later)" "b \<in> set (id_sessions later)" "as_revoked a = None" "as_revoked b = None"
    "(as_id a, as_id b) \<in> chain (id_sessions later)" for a b
  proof -
    have "as_id a = as_id b"
      using that(5) leaf [OF that(1,3)] leaf [OF that(2,4)] unfolding chain_either [OF ok]
      by (auto elim: rtranclE converse_rtranclE)
    then show ?thesis using same_id [OF ok] that(1,2) by auto
  qed
qed

text \<open>
  C14. A refresh token that is presented a second time ends its login. The call is refused, and in every later history each
  session of the chain, found in whatever direction, is revoked and stays so.
\<close>
theorem reuse_ends_the_chain:
  assumes "sessions_ok (id_sessions db)" "findAuthSessionByRefreshTokenHash (sha presented) db = Some s" "as_revoked s \<noteq> None"
    and "id_users db (as_user s) = Some u" "later = identity_run v evs (snd (refresh sha cfg presented newId raw now db))"
    and "r \<in> set (id_sessions later)" "(as_id s, as_id r) \<in> chain (id_sessions later)"
  shows "fst (refresh sha cfg presented newId raw now db) = Err Unauthenticated \<and> as_revoked r \<noteq> None"
proof -
  let ?sweep = "revokeChainAsReuseDetected cfg (as_id s) (as_user s) now db"
  have s: "s \<in> set (id_sessions db)" using assms(2) by (auto simp: findAuthSessionByRefreshTokenHash_def find_Some_iff)
  have res: "refresh sha cfg presented newId raw now db = (Err (fst ?sweep), snd ?sweep)"
    using assms(2,3) by (simp add: refresh_def refresh_row_def Let_def case_prod_beta)
  have "dead (chain (id_sessions db) `` {as_id s}) (id_sessions later)"
    unfolding assms(5) res snd_conv by (rule dead_run [OF sweep_kills [OF assms(1) s assms(4)]])
  moreover have "as_id s \<in> chain (id_sessions db) `` {as_id s}" by (simp add: chain_def)
  ultimately have "as_revoked r \<noteq> None" using dead_chain [OF _ assms(7)] assms(6) unfolding dead_def ended_def by blast
  then show ?thesis using sweep_result(1) [OF assms(4)] by (simp add: res revokeChainAsReuseDetected_def)
qed

section \<open>The epoch cache\<close>

fun event_time :: "identity_event \<Rightarrow> int" where
  "event_time (A_create _ _ _ _ now) = now" | "event_time (A_refresh _ _ _ now) = now" | "event_time (A_refresh_late _ _ _ now) = now"
| "event_time (A_sweep_late _ _ now) = now" | "event_time (A_logout _ now) = now" | "event_time (A_change _ _ _ _ now) = now"
| "event_time (A_forgot _ _ _ now) = now" | "event_time (A_reset _ _ now) = now" | "event_time (A_fill _ _ now) = now"
| "event_time (A_write _ _ now) = now"

text \<open>An entry of at least this epoch that lives at least this long.\<close>

definition pinned :: "string \<Rightarrow> int \<Rightarrow> int \<Rightarrow> identity_db \<Rightarrow> bool" where
  "pinned user e until db \<longleftrightarrow> (\<exists>c u. id_cache db user = Some (c, u) \<and> e \<le> c \<and> until \<le> u)"

lemma pinned_cong: "id_cache a = id_cache b \<Longrightarrow> pinned user e until a = pinned user e until b"
  by (simp add: pinned_def)

lemma pinned_write:
  assumes "pinned user e until db" "now < until" "until \<le> now + sc_epochCacheTtlSec cfg * 1000"
  shows "pinned user e until (writeEpochCache cfg k e' now db)" "pinned user e until (fill_epoch_cache cfg k e' now db)"
  using assms by (auto simp: pinned_def writeEpochCache_def fill_epoch_cache_def cache_get_def split: if_splits)

lemma id_cache_simps [simp]:
  "id_cache (writeMfaMarker cfg sid now db) = id_cache db" "id_cache (deleteMfaMarker sid db) = id_cache db"
  "id_cache (revoke_where p reason now db) = id_cache db" "id_cache (updatePasswordHash user h db) = id_cache db"
  "id_cache (audit_user a user db) = id_cache db" "id_cache (forgotPassword sha ttl user tid raw now db) = id_cache db"
  by (simp_all add: writeMfaMarker_def deleteMfaMarker_def revoke_where_def updatePasswordHash_def audit_user_def forgotPassword_def
      split: option.split)

lemma id_cache_markers [simp]: "id_cache (fold deleteMfaMarker sids db) = id_cache db"
  by (induction sids arbitrary: db) simp_all

lemma insert_cache: "insertAuthSession row db = Ok db' \<Longrightarrow> id_cache db' = id_cache db"
  by (auto simp: insertAuthSession_def split: if_splits)

lemma bump_cache: "bumpTokenEpoch user db = Ok (e, db') \<Longrightarrow> id_cache db' = id_cache db"
  by (auto simp: bumpTokenEpoch_def split: option.splits)

lemma pinned_sweep:
  assumes "pinned user e until db" "now < until" "until \<le> now + sc_epochCacheTtlSec cfg * 1000"
  shows "pinned user e until (snd (revoke_chain cfg ids k now db))"
proof (cases "id_users db k")
  case (Some u)
  then have "id_cache (snd (revoke_chain cfg ids k now db)) = id_cache (writeEpochCache cfg k (ur_epoch u + 1) now db)"
    by (simp add: revoke_chain_def bumpTokenEpoch_def revokeAuthSessionsBulk_def revoke_where_def Let_def writeEpochCache_def cache_get_def)
  then show ?thesis using pinned_cong pinned_write(1) [OF assms] by metis
qed (use assms(1) in \<open>simp add: revoke_chain_def bumpTokenEpoch_def revokeAuthSessionsBulk_def revoke_where_def Let_def\<close>)

lemma pinned_refresh_row:
  assumes "pinned user e until db" "now < until" "until \<le> now + sc_epochCacheTtlSec cfg * 1000"
  shows "pinned user e until (snd (refresh_row sha cfg s newId raw now db))"
proof -
  let ?d = "revoke_where (\<lambda>r. as_id r = as_id s) ''rotated'' now db"
  have d: "pinned user e until ?d" using assms(1) pinned_cong [of ?d db] by simp
  have child: "id_cache db2 = id_cache db" if "insert_child sha cfg s newId raw now ?d = Ok (m, epoch, db2)" for m epoch db2
    using that insert_cache by (fastforce simp: insert_child_def)
  show ?thesis
    using assms(1) pinned_sweep [OF assms] pinned_sweep [OF d assms(2,3)]
    by (auto simp: refresh_row_def Let_def revokeChainAsReuseDetected_def case_prod_beta revokeAuthSession_def pinned_def
        split: sum.split bool.split dest!: child)
qed

lemma pinned_step:
  assumes "pinned user e until db" "event_time ev < until" "until \<le> event_time ev + sc_epochCacheTtlSec (ie_cfg v) * 1000"
  shows "pinned user e until (identity_step v ev db)"
proof (cases ev)
  case (A_create k mfa sid raw now)
  have "id_cache (snd r) = id_cache db" if "createSession (ie_sha v) (ie_cfg v) k mfa sid raw now db = Ok r" for r
    using that by (auto simp: createSession_def dest!: insert_cache)
  then show ?thesis using assms(1) by (auto simp: A_create pinned_def split: sum.split)
next
  case (A_refresh presented newId raw now)
  then show ?thesis using assms pinned_refresh_row by (auto simp: refresh_def split: option.split)
next
  case (A_logout sid now)
  show ?thesis
  proof (cases "findAuthSessionById sid db")
    case (Some s)
    let ?d = "revoke_where (\<lambda>r. as_id r = as_id s) ''logout'' now db"
    show ?thesis
    proof (cases "bumpTokenEpoch (as_user s) ?d")
      case (Inr r)
      have "id_cache (snd r) = id_cache ?d" by (rule bump_cache [of "as_user s" _ "fst r"]) (simp add: Inr)
      then have "pinned user e until (snd r)" using assms(1) by (simp add: pinned_def)
      from pinned_write(1) [OF this] show ?thesis
        using assms(2,3) Some Inr by (simp add: A_logout logout_def revokeAuthSession_def case_prod_beta)
    qed (use Some assms in \<open>simp add: A_logout logout_def revokeAuthSession_def\<close>)
  qed (use assms in \<open>simp add: A_logout logout_def\<close>)
next
  case (A_change k current old new now)
  have "id_cache (snd r) = id_cache db" if "changePassword (ie_hashPw v) (ie_verifyPw v) k current old new now db = Ok r" for r
    using that by (auto simp: changePassword_def revokeOtherAuthSessions_def Let_def split: option.splits if_splits)
  then show ?thesis using assms(1) by (auto simp: A_change pinned_def split: sum.split)
next
  case (A_reset token new now)
  have "pinned user e until d" if res: "resetPassword (ie_sha v) (ie_hashPw v) (ie_cfg v) token new now db = Ok d" for d
  proof (rule resetPassword_Ok [OF res])
    fix t ep db2
    assume b: "bumpTokenEpoch (rt_user t) (updatePasswordHash (rt_user t) (ie_hashPw v new)
          (db\<lparr>id_resets := map (\<lambda>r. if rt_id r = rt_id t \<and> rt_consumed r = None then r\<lparr>rt_consumed := Some now\<rparr> else r) (id_resets db)\<rparr>)) = Ok (ep, db2)"
      and d: "d = writeEpochCache (ie_cfg v) (rt_user t) ep now (audit_user ''auth.password.reset'' (rt_user t) (revokeAllAuthSessions (rt_user t) now db2))"
    have "pinned user e until (audit_user ''auth.password.reset'' (rt_user t) (revokeAllAuthSessions (rt_user t) now db2))"
      using bump_cache [OF b] assms(1) by (simp add: pinned_def revokeAllAuthSessions_def)
    from pinned_write(1) [OF this] show "pinned user e until d" using assms(2,3) by (simp add: d A_reset)
  qed
  then show ?thesis using assms(1) by (simp add: A_reset split: sum.split)
qed (use assms pinned_refresh_row pinned_sweep pinned_write in \<open>auto simp: pinned_def\<close>)

text \<open>
  C33. A revoked epoch stays revoked in the cache. Once the write after a commit has run, no validation accepts a token of an
  older epoch while the entry lives, whatever happens in between: fills that read the old epoch before the commit, writes
  that arrive late, logouts and resets.
\<close>
theorem old_epoch_is_refused:
  assumes "id_cache (writeEpochCache (ie_cfg v) user e t db) user = Some (c, until)" "until \<le> t + sc_epochCacheTtlSec (ie_cfg v) * 1000"
    and "\<forall>ev\<in>set evs. t \<le> event_time ev \<and> event_time ev < until" "t \<le> now" "now < until" "t < until"
    and "verify token now = Some claims" "ac_sub claims = user" "ac_epoch claims < e"
  shows "fst (validateAccessToken verify cfg token now (identity_run v evs (writeEpochCache (ie_cfg v) user e t db))) = Err Unauthenticated"
proof -
  let ?later = "identity_run v evs (writeEpochCache (ie_cfg v) user e t db)"
  have "pinned user e until (writeEpochCache (ie_cfg v) user e t db)"
    using assms(1,6) by (auto simp: pinned_def writeEpochCache_def cache_get_def split: if_splits option.splits)
  then have "pinned user e until ?later"
    by (rule identity_run_keeps [where P = "pinned user e until", rotated]) (rule pinned_step, assumption, use assms(2,3) in force, use assms(2,3) in force)
  then obtain c' u where "id_cache ?later user = Some (c', u)" "e \<le> c'" "until \<le> u" by (auto simp: pinned_def)
  then show ?thesis using assms(5,7,8,9) by (simp add: validateAccessToken_def getEpoch_def cache_get_def)
qed

section \<open>Races and resets\<close>

lemma refresh_row_Ok:
  assumes "refresh_row sha cfg s newId raw now db = (Ok tk, db1)"
  shows "id_sessions db1 = id_sessions (revoke_where (\<lambda>r. as_id r = as_id s) ''rotated'' now db) @
      [\<lparr>as_id = newId, as_user = as_user s, as_hash = sha raw, as_parent = Some (as_id s), as_issued = now,
        as_expires = now + sc_refreshTokenTtlDays cfg * 86400000, as_revoked = None\<rparr>]"
    "id_users db1 = id_users db" "id_members db1 = id_members db" "\<exists>m. id_members db (as_user s) = Some m" "\<exists>u. id_users db (as_user s) = Some u"
    "newId \<notin> as_id ` set (id_sessions db)" "sha raw \<notin> as_hash ` set (id_sessions db)" "tk_refresh tk = raw"
proof -
  let ?d = "revoke_where (\<lambda>r. as_id r = as_id s) ''rotated'' now db"
  obtain m epoch db2 where c: "insert_child sha cfg s newId raw now ?d = Ok (m, epoch, db2)"
      and db1: "db1 = (if readMfaMarker (as_id s) now db2 then deleteMfaMarker (as_id s) (writeMfaMarker cfg newId now db2) else db2)"
      and tk: "tk_refresh tk = raw"
    using assms by (auto simp: refresh_row_def Let_def revokeAuthSession_def case_prod_beta split: if_splits bool.splits sum.splits)
  have ins: "insertAuthSession \<lparr>as_id = newId, as_user = as_user s, as_hash = sha raw, as_parent = Some (as_id s), as_issued = now,
      as_expires = now + sc_refreshTokenTtlDays cfg * 86400000, as_revoked = None\<rparr> ?d = Ok db2"
    and m: "id_members db2 (as_user s) = Some m" and u: "\<exists>u. id_users db2 (as_user s) = Some u"
    using c by (auto simp: insert_child_def resolveMembershipOrThrow_def getUserTokenEpoch_def split: option.splits)
  have same: "id_users db2 = id_users db" "id_members db2 = id_members db"
    using ins by (auto simp: insertAuthSession_def revoke_where_def split: if_splits)
  show "id_sessions db1 = id_sessions ?d @
      [\<lparr>as_id = newId, as_user = as_user s, as_hash = sha raw, as_parent = Some (as_id s), as_issued = now,
        as_expires = now + sc_refreshTokenTtlDays cfg * 86400000, as_revoked = None\<rparr>]"
    using insert_sessions(1) [OF ins] by (simp add: db1)
  show "id_users db1 = id_users db" "id_members db1 = id_members db"
    using same by (simp_all add: db1 writeMfaMarker_def deleteMfaMarker_def)
  show "\<exists>m. id_members db (as_user s) = Some m" "\<exists>u. id_users db (as_user s) = Some u" using m u same by auto
  have r: "revised (id_sessions db) (id_sessions ?d)" by simp
  show "newId \<notin> as_id ` set (id_sessions db)" "sha raw \<notin> as_hash ` set (id_sessions db)"
    using insert_sessions(2,3) [OF ins] unfolding revised_sets [OF r] by simp_all
  show "tk_refresh tk = raw" by (fact tk)
qed

lemma not_taken: "x \<notin> f ` set rows \<Longrightarrow> y \<notin> g ` set rows \<Longrightarrow> \<not> list_ex (\<lambda>r. f r = x \<or> g r = y) rows"
  by (induction rows) auto

lemma refresh_row_works:
  assumes "as_revoked s = None" "now < as_expires s" "s \<in> set (id_sessions db)" "id_members db (as_user s) = Some m"
    "id_users db (as_user s) = Some u" "newId \<notin> as_id ` set (id_sessions db)" "sha raw \<notin> as_hash ` set (id_sessions db)"
  shows "\<exists>tk. fst (refresh_row sha cfg s newId raw now db) = Ok tk \<and> ac_epoch (tk_access tk) = ur_epoch u"
proof -
  let ?d = "revoke_where (\<lambda>r. as_id r = as_id s) ''rotated'' now db"
  have r: "revised (id_sessions db) (id_sessions ?d)" by simp
  have "newId \<notin> as_id ` set (id_sessions ?d)" "sha raw \<notin> as_hash ` set (id_sessions ?d)"
    unfolding revised_sets [OF r] by (fact assms(6,7))+
  from not_taken [OF this] have "\<not> list_ex (\<lambda>r. as_id r = newId \<or> as_hash r = sha raw) (id_sessions ?d)" .
  moreover have "id_members ?d (as_user s) = Some m" "id_users ?d (as_user s) = Some u" using assms(4,5) by (simp_all add: revoke_where_def)
  ultimately have "\<exists>db2. insert_child sha cfg s newId raw now ?d = Ok (m, ur_epoch u, db2)"
    unfolding insert_child_def insertAuthSession_def auth_session.select_convs if_not_P bindR.simps resolveMembershipOrThrow_def getUserTokenEpoch_def
    by (cases m) simp
  moreover have "list_ex (\<lambda>r. as_id r = as_id s \<and> as_revoked r = None) (id_sessions db)" using assms(1,3) by (auto simp: list_ex_iff)
  ultimately show ?thesis using assms(1,2)
    by (auto simp: refresh_row_def Let_def revokeAuthSession_def signAccessToken_def)
qed

lemma find_distinct:
  assumes "distinct (map f xs)" "x \<in> set xs" shows "find (\<lambda>y. f y = f x) xs = Some x"
  using assms by (induction xs) (auto simp: rev_image_eqI)

lemma markers_others [simp]:
  "id_users (fold deleteMfaMarker sids db) = id_users db" "id_members (fold deleteMfaMarker sids db) = id_members db"
  "id_resets (fold deleteMfaMarker sids db) = id_resets db"
  by (induction sids arbitrary: db) (simp_all add: deleteMfaMarker_def)

text \<open>
  C34. The sweep after a reuse can miss the thief. It revokes the ids its first statement has read; when the live session of
  the chain is rotated between the two statements, the new session belongs to the chain and is not revoked, and its refresh
  token gives an access token of the epoch that the sweep has just raised.
\<close>
theorem reuse_misses_concurrent_rotation:
  assumes "sessions_ok (id_sessions db)" "stolen \<in> set (id_sessions db)" "live \<in> set (id_sessions db)"
    and "(as_id stolen, as_id live) \<in> chain (id_sessions db)" "refresh_row sha cfg live newId raw now db = (Ok tk, db1)"
    and "db2 = snd (revoke_chain cfg (findSessionChainIds (as_id stolen) db) (as_user stolen) t db1)"
    and "t2 < now + sc_refreshTokenTtlDays cfg * 86400000" "newId2 \<notin> as_id ` set (id_sessions db2)" "sha raw2 \<notin> as_hash ` set (id_sessions db2)"
  shows "(as_id stolen, newId) \<in> chain (id_sessions db2) \<and>
    (\<exists>tk2 u. fst (refresh sha cfg (tk_refresh tk) newId2 raw2 t2 db2) = Ok tk2 \<and> id_users db2 (as_user live) = Some u \<and>
       ac_epoch (tk_access tk2) = ur_epoch u)"
proof
  let ?row = "\<lparr>as_id = newId, as_user = as_user live, as_hash = sha raw, as_parent = Some (as_id live), as_issued = now,
        as_expires = now + sc_refreshTokenTtlDays cfg * 86400000, as_revoked = None\<rparr>"
  let ?ids = "findSessionChainIds (as_id stolen) db"
  note f = refresh_row_Ok [OF assms(5)]
  have r1: "revised (id_sessions db) (id_sessions (revoke_where (\<lambda>r. as_id r = as_id live) ''rotated'' now db))" by simp
  have r2: "revised (id_sessions db1) (id_sessions db2)" unfolding assms(6) by (rule sweep_sessions)
  have "x \<in> as_id ` set (id_sessions db)" if "(as_id stolen, x) \<in> chain (id_sessions db)" for x
    using chain_known [OF assms(1) that] assms(2) by simp
  then have out: "newId \<notin> set ?ids" using find_chain [OF assms(1,2)] f(6) by auto
  have row: "?row \<in> set (id_sessions db2)"
  proof -
    have "?row \<in> set (id_sessions db1)" using f(1) by simp
    then have "?row \<in> set (id_sessions (revokeAuthSessionsBulk ?ids ''reuse_detected'' t db1))"
      using out by (force simp: revokeAuthSessionsBulk_def revoke_where_def image_iff)
    then show ?thesis using \<open>?row \<in> set (id_sessions db1)\<close> unfolding assms(6)
      by (cases "id_users db1 (as_user stolen)") (simp_all add: sweep_result(2), simp add: revoke_chain_def bumpTokenEpoch_def revokeAuthSessionsBulk_def revoke_where_def Let_def)
  qed
  have "parents (id_sessions db2) = parents (id_sessions db) \<union> parents [?row]"
    unfolding parents_revised [OF r2] f(1) parents_append parents_revised [OF r1] ..
  then have "parents (id_sessions db) \<subseteq> parents (id_sessions db2)" "(newId, as_id live) \<in> parents (id_sessions db2)"
    by (auto simp: parents_def [of "[?row]"])
  then have "chain (id_sessions db) \<subseteq> chain (id_sessions db2)" "(as_id live, newId) \<in> chain (id_sessions db2)"
    unfolding chain_def by (intro rtrancl_mono, blast, blast)
  then show "(as_id stolen, newId) \<in> chain (id_sessions db2)"
    using assms(4) unfolding chain_def by (meson rtrancl_trans subsetD)
  have users: "\<exists>u. id_users db2 (as_user live) = Some u" "id_members db2 = id_members db1"
    unfolding assms(6) using f(2,5)
    by (auto simp: revoke_chain_def bumpTokenEpoch_def revokeAuthSessionsBulk_def revoke_where_def writeEpochCache_def Let_def split: option.split)
  have step: "rows_step (id_sessions db) (id_sessions db1)"
    using refresh_row_sessions [where db = db and sha = sha and cfg = cfg and s = live and newId = newId and raw = raw and now = now]
    unfolding assms(5) by simp
  have "distinct (map as_hash (id_sessions db2))"
    by (rule sessions_okD(2) [OF sessions_ok_revised [OF sessions_ok_step [OF assms(1) step] r2]])
  from find_distinct [OF this row] have "findAuthSessionByRefreshTokenHash (sha raw) db2 = Some ?row"
    by (simp add: findAuthSessionByRefreshTokenHash_def)
  then show "\<exists>tk2 u. fst (refresh sha cfg (tk_refresh tk) newId2 raw2 t2 db2) = Ok tk2 \<and> id_users db2 (as_user live) = Some u \<and>
       ac_epoch (tk_access tk2) = ur_epoch u"
    using refresh_row_works [of ?row t2 db2, OF _ _ row] users f(3,4,8) assms(7-9) by (fastforce simp: refresh_def)
qed

text \<open>The table of reset links: a consumed one stays so, and no other link has its hash.\<close>

definition spent :: "string \<Rightarrow> reset_token list \<Rightarrow> bool" where
  "spent h rows \<longleftrightarrow> distinct (map rt_hash rows) \<and> (\<exists>t\<in>set rows. rt_hash t = h \<and> rt_consumed t \<noteq> None)"

definition consume_where :: "(reset_token \<Rightarrow> bool) \<Rightarrow> int \<Rightarrow> reset_token list \<Rightarrow> reset_token list" where
  "consume_where p now rows = map (\<lambda>t. if p t \<and> rt_consumed t = None then t\<lparr>rt_consumed := Some now\<rparr> else t) rows"

lemma consume_hash: "map rt_hash (consume_where p now rows) = map rt_hash rows"
  by (induction rows) (simp_all add: consume_where_def)

lemma spent_consume:
  assumes "spent h rows" shows "spent h (consume_where p now rows)"
proof -
  have "\<exists>t\<in>set (consume_where p now rows). rt_hash t = h \<and> rt_consumed t \<noteq> None"
    using assms by (force simp: spent_def consume_where_def)
  then show ?thesis using assms by (simp add: spent_def consume_hash del: distinct_map)
qed

lemma id_resets_simps [simp]:
  "id_resets (writeMfaMarker cfg sid now db) = id_resets db" "id_resets (deleteMfaMarker sid db) = id_resets db"
  "id_resets (revoke_where p reason now db) = id_resets db" "id_resets (updatePasswordHash user k db) = id_resets db"
  "id_resets (audit_user a user db) = id_resets db" "id_resets (writeEpochCache cfg user e now db) = id_resets db"
  "id_resets (fill_epoch_cache cfg user e now db) = id_resets db"
  by (simp_all add: writeMfaMarker_def deleteMfaMarker_def revoke_where_def updatePasswordHash_def audit_user_def writeEpochCache_def
      fill_epoch_cache_def split: option.split)

lemma insert_resets: "insertAuthSession row db = Ok db' \<Longrightarrow> id_resets db' = id_resets db"
  by (auto simp: insertAuthSession_def split: if_splits)

lemma bump_resets: "bumpTokenEpoch user db = Ok (e, db') \<Longrightarrow> id_resets db' = id_resets db"
  by (auto simp: bumpTokenEpoch_def split: option.splits)

lemma sweep_resets: "id_resets (snd (revoke_chain cfg ids k now db)) = id_resets db"
  by (simp add: revoke_chain_def bumpTokenEpoch_def revokeAuthSessionsBulk_def Let_def split: option.split)

lemma refresh_row_resets: "id_resets (snd (refresh_row sha cfg s newId raw now db)) = id_resets db"
proof -
  let ?d = "revoke_where (\<lambda>r. as_id r = as_id s) ''rotated'' now db"
  have child: "id_resets db2 = id_resets db" if "insert_child sha cfg s newId raw now ?d = Ok (m, epoch, db2)" for m epoch db2
    using that insert_resets by (fastforce simp: insert_child_def)
  show ?thesis
    by (auto simp: refresh_row_def Let_def revokeChainAsReuseDetected_def case_prod_beta revokeAuthSession_def sweep_resets
        split: sum.split bool.split dest!: child)
qed

lemma reset_resets:
  assumes "resetPassword sha hashPw cfg token new now db = Ok d"
  shows "\<exists>t. find (\<lambda>t. rt_hash t = sha token) (id_resets db) = Some t \<and>
    id_resets d = consume_where (\<lambda>r. rt_id r = rt_id t) now (id_resets db) \<and>
    id_sessions d = id_sessions (revoke_where (\<lambda>s. as_user s = rt_user t) ''password_reset'' now db)"
proof (rule resetPassword_Ok [OF assms])
  fix t e db2
  assume t: "find (\<lambda>t. rt_hash t = sha token) (id_resets db) = Some t"
    and b: "bumpTokenEpoch (rt_user t) (updatePasswordHash (rt_user t) (hashPw new)
          (db\<lparr>id_resets := map (\<lambda>r. if rt_id r = rt_id t \<and> rt_consumed r = None then r\<lparr>rt_consumed := Some now\<rparr> else r) (id_resets db)\<rparr>)) = Ok (e, db2)"
    and d: "d = writeEpochCache cfg (rt_user t) e now (audit_user ''auth.password.reset'' (rt_user t) (revokeAllAuthSessions (rt_user t) now db2))"
  show ?thesis using t bump_resets [OF b] bump_sessions [OF b] by (simp add: d revokeAllAuthSessions_def revoke_where_def consume_where_def)
qed

lemma spent_step:
  assumes "spent h (id_resets db)" shows "spent h (id_resets (identity_step v e db))"
proof (cases e)
  case (A_create k mfa sid raw now)
  have "id_resets (snd r) = id_resets db" if "createSession (ie_sha v) (ie_cfg v) k mfa sid raw now db = Ok r" for r
    using that by (auto simp: createSession_def dest!: insert_resets)
  then show ?thesis using assms by (auto simp: A_create spent_def split: sum.split)
next
  case (A_refresh presented newId raw now)
  then show ?thesis using assms by (auto simp: refresh_def refresh_row_resets spent_def split: option.split)
next
  case (A_logout sid now)
  have "id_resets (snd (logout (ie_cfg v) sid now db)) = id_resets db"
    by (simp add: logout_def revokeAuthSession_def bumpTokenEpoch_def split: option.split)
  then show ?thesis using assms by (simp add: A_logout spent_def)
next
  case (A_change k current old new now)
  have "id_resets (snd r) = id_resets db" if "changePassword (ie_hashPw v) (ie_verifyPw v) k current old new now db = Ok r" for r
    using that by (auto simp: changePassword_def revokeOtherAuthSessions_def Let_def split: option.splits if_splits)
  then show ?thesis using assms by (auto simp: A_change spent_def split: sum.split)
next
  case (A_forgot user tid raw now)
  have add: "spent h (consume_where (\<lambda>t. rt_user t = user) now (id_resets db) @ [row])" if fresh: "rt_hash row \<notin> rt_hash ` set (id_resets db)" for row
  proof -
    have "rt_hash ` set (consume_where (\<lambda>t. rt_user t = user) now (id_resets db)) = rt_hash ` set (id_resets db)"
      using consume_hash by (metis set_map)
    then show ?thesis using spent_consume [OF assms, of "\<lambda>t. rt_user t = user" now] fresh unfolding spent_def by simp
  qed
  have added: "spent h (consume_where (\<lambda>t. rt_user t = user) now (id_resets db) @
      [\<lparr>rt_id = tid, rt_user = user, rt_hash = ie_sha v raw, rt_expires = now + ie_resetTtl v * 60000, rt_consumed = None\<rparr>])"
    if "\<not> list_ex (\<lambda>t. rt_id t = tid \<or> rt_hash t = ie_sha v raw) (id_resets db)"
    by (rule add) (use that in \<open>auto simp: list_ex_iff\<close>)
  show ?thesis
  proof (cases "id_users db user")
    case (Some u)
    then show ?thesis using assms added unfolding A_forgot identity_step.simps forgotPassword_def consume_where_def [symmetric] by simp
  qed (use assms in \<open>simp add: A_forgot forgotPassword_def\<close>)
next
  case (A_reset token new now)
  have "spent h (id_resets d)" if res: "resetPassword (ie_sha v) (ie_hashPw v) (ie_cfg v) token new now db = Ok d" for d
    using reset_resets [OF res] spent_consume [OF assms] by auto
  then show ?thesis using assms by (simp add: A_reset split: sum.split)
qed (use assms in \<open>simp_all add: refresh_row_resets sweep_resets spent_def\<close>)

text \<open>
  C32. A reset link works once and ends every login. When it is accepted, all the sessions the user has are revoked and stay
  so in every later history, and the link is refused from then on.
\<close>
theorem reset_link_works_once:
  assumes "distinct (map rt_hash (id_resets db))" "distinct (map as_id (id_sessions db))" "resetPassword sha hashPw cfg token new now db = Ok db1"
    and "find (\<lambda>t. rt_hash t = sha token) (id_resets db) = Some t" "later = identity_run v evs db1"
    and "s \<in> set (id_sessions db)" "as_user s = rt_user t" "r \<in> set (id_sessions later)" "as_id r = as_id s"
  shows "as_revoked r \<noteq> None \<and> resetPassword sha hashPw cfg token new' now' later = Err Reset_token_invalid"
proof
  let ?K = "as_id ` {s \<in> set (id_sessions db). as_user s = rt_user t}"
  obtain t' where t': "find (\<lambda>t. rt_hash t = sha token) (id_resets db) = Some t'"
      and resets: "id_resets db1 = consume_where (\<lambda>r. rt_id r = rt_id t') now (id_resets db)"
      and sess: "id_sessions db1 = id_sessions (revoke_where (\<lambda>s. as_user s = rt_user t') ''password_reset'' now db)"
    using reset_resets [OF assms(3)] by blast
  have eq: "t' = t" using t' assms(4) by simp
  have rev: "revised (id_sessions db) (id_sessions db1)" by (simp add: sess)
  have own: "as_user x = rt_user t" if "x \<in> set (id_sessions db)" "as_id x \<in> ?K" for x
    using that assms(2) by (auto simp: distinct_map dest: inj_onD)
  have "as_revoked x \<noteq> None" if x: "x \<in> set (id_sessions db1)" "as_id x \<in> ?K" for x
  proof -
    obtain a where a: "a \<in> set (id_sessions db)"
        "x = (if as_user a = rt_user t \<and> as_revoked a = None then a\<lparr>as_revoked := Some (now, ''password_reset'')\<rparr> else a)"
      using x(1) by (auto simp: sess eq revoke_where_def)
    have "as_id x = as_id a" by (simp add: a(2))
    then have "as_user a = rt_user t" using own a(1) x(2) by metis
    then show ?thesis by (simp add: a(2))
  qed
  then have "ended ?K (id_sessions db1)" unfolding ended_def revised_sets(1) [OF rev] by auto
  from ended_run [OF this] have "ended ?K (id_sessions later)" by (simp add: assms(5))
  then show "as_revoked r \<noteq> None" using assms(6-9) unfolding ended_def by force
  have t: "t \<in> set (id_resets db)" "rt_hash t = sha token" using assms(4) by (auto simp: find_Some_iff)
  have "\<exists>x\<in>set (id_resets db1). rt_hash x = sha token \<and> rt_consumed x \<noteq> None"
  proof (rule bexI)
    let ?t = "if rt_id t = rt_id t \<and> rt_consumed t = None then t\<lparr>rt_consumed := Some now\<rparr> else t"
    show "rt_hash ?t = sha token \<and> rt_consumed ?t \<noteq> None" using t(2) by simp
    show "?t \<in> set (id_resets db1)" unfolding resets eq consume_where_def set_map by (rule imageI [OF t(1)])
  qed
  then have "spent (sha token) (id_resets db1)" using assms(1) by (simp add: spent_def resets consume_hash del: distinct_map)
  then have "spent (sha token) (id_resets later)" unfolding assms(5)
    by (rule identity_run_keeps [where P = "\<lambda>db. spent (sha token) (id_resets db)", rotated]) (rule spent_step)
  then obtain x where x: "distinct (map rt_hash (id_resets later))" "x \<in> set (id_resets later)" "rt_hash x = sha token" "rt_consumed x \<noteq> None"
    unfolding spent_def by blast
  then have "find (\<lambda>t. rt_hash t = sha token) (id_resets later) = Some x" using find_distinct [OF x(1,2)] by simp
  then show "resetPassword sha hashPw cfg token new' now' later = Err Reset_token_invalid"
    using x(4) by (simp add: resetPassword_def)
qed

section \<open>Examples\<close>

definition ex_env :: identity_env where
  "ex_env = \<lparr>ie_sha = (\<lambda>x. x), ie_hashPw = (\<lambda>x. x), ie_verifyPw = (\<lambda>h x. h = x),
     ie_cfg = \<lparr>sc_accessTokenTtlMin = 15, sc_refreshTokenTtlDays = 30, sc_epochCacheTtlSec = 3600\<rparr>, ie_resetTtl = 30\<rparr>"

definition ex_none :: identity_db where
  "ex_none = \<lparr>id_sessions = [], id_users = (\<lambda>u. if u = ''u'' then Some \<lparr>ur_email = ''e'', ur_password = None, ur_status = ''active'', ur_epoch = 0\<rparr> else None),
     id_members = (\<lambda>u. if u = ''u'' then Some (''c'', ''owner'') else None), id_resets = [], id_audit = [], id_markers = [], id_cache = (\<lambda>_. None)\<rparr>"

definition ex_two :: identity_db where
  "ex_two = identity_run ex_env [A_create ''u'' False ''s0'' ''r0'' 0, A_refresh ''r0'' ''s1'' ''r1'' 5] ex_none"

definition ex_row :: "string \<Rightarrow> string \<Rightarrow> string option \<Rightarrow> int \<Rightarrow> (int \<times> string) option \<Rightarrow> auth_session" where
  "ex_row sid h parent issued revoked = \<lparr>as_id = sid, as_user = ''u'', as_hash = h, as_parent = parent, as_issued = issued,
     as_expires = issued + 2592000000, as_revoked = revoked\<rparr>"

lemma ex_two_sessions: "id_sessions ex_two = [ex_row ''s0'' ''r0'' None 0 (Some (5, ''rotated'')), ex_row ''s1'' ''r1'' (Some ''s0'') 5 None]"
  by code_simp

lemma ex_none_ok: "sessions_ok (id_sessions ex_none)"
  by (simp add: ex_none_def sessions_ok_def)

lemma ex_two_ok: "sessions_ok (id_sessions ex_two)"
  unfolding ex_two_def by (rule sessions_ok_run [OF ex_none_ok])

lemma ex_link: "ex_row a h (Some b) t x \<in> set rows \<Longrightarrow> (b, a) \<in> chain rows"
  by (force simp: chain_def parents_def ex_row_def intro!: r_into_rtrancl)

theorem one_live_session_per_chain_witness:
  "set (findSessionChainIds ''s0'' ex_two) = {x. (''s0'', x) \<in> chain (id_sessions ex_two)} \<and> findSessionChainIds ''s0'' ex_two = [''s0'', ''s1'']"
proof
  let ?r = "ex_row ''s0'' ''r0'' None 0 (Some (5, ''rotated''))"
  have "?r \<in> set (id_sessions ex_two)" by (simp add: ex_two_sessions)
  from one_live_session_per_chain [OF ex_none_ok ex_two_def, THEN conjunct2, rule_format, OF this]
  show "set (findSessionChainIds ''s0'' ex_two) = {x. (''s0'', x) \<in> chain (id_sessions ex_two)}" by (simp add: ex_row_def)
  show "findSessionChainIds ''s0'' ex_two = [''s0'', ''s1'']" by code_simp
qed

theorem reuse_ends_the_chain_witness:
  "fst (refresh (ie_sha ex_env) (ie_cfg ex_env) ''r0'' ''s2'' ''r2'' 9 ex_two) = Err Unauthenticated \<and>
   as_revoked (id_sessions (snd (refresh (ie_sha ex_env) (ie_cfg ex_env) ''r0'' ''s2'' ''r2'' 9 ex_two)) ! 1) \<noteq> None"
proof -
  let ?s = "ex_row ''s0'' ''r0'' None 0 (Some (5, ''rotated''))" and ?db = "snd (refresh (ie_sha ex_env) (ie_cfg ex_env) ''r0'' ''s2'' ''r2'' 9 ex_two)"
  have rows: "id_sessions ?db = [?s, ex_row ''s1'' ''r1'' (Some ''s0'') 5 (Some (9, ''reuse_detected''))]" by code_simp
  have f: "findAuthSessionByRefreshTokenHash (ie_sha ex_env ''r0'') ex_two = Some ?s" by code_simp
  have s: "as_revoked ?s \<noteq> None" by (simp add: ex_row_def)
  have "case id_users ex_two (as_user ?s) of None \<Rightarrow> False | Some u \<Rightarrow> True" by code_simp
  then obtain u where u: "id_users ex_two (as_user ?s) = Some u" by (auto split: option.splits)
  have r: "id_sessions ?db ! 1 \<in> set (id_sessions (identity_run ex_env [] ?db))" by (simp add: rows)
  have c: "(as_id ?s, as_id (id_sessions ?db ! 1)) \<in> chain (id_sessions (identity_run ex_env [] ?db))"
    using ex_link [of "''s1''" "''r1''" "''s0''"] by (simp add: rows) (simp add: ex_row_def)
  show ?thesis by (rule reuse_ends_the_chain [OF ex_two_ok f s u refl r c])
qed

theorem old_epoch_is_refused_witness:
  "fst (validateAccessToken (\<lambda>t now. Some (signAccessToken (ie_cfg ex_env) ''u'' ''s0'' (''c'', ''owner'') 0 False 0)) (ie_cfg ex_env) () 9
     (identity_run ex_env [A_fill ''u'' 0 6] (writeEpochCache (ie_cfg ex_env) ''u'' 1 5 ex_none))) = Err Unauthenticated"
proof -
  have c: "id_cache (writeEpochCache (ie_cfg ex_env) ''u'' 1 5 ex_none) ''u'' = Some (1, 3600005)" by code_simp
  let ?claims = "signAccessToken (ie_cfg ex_env) ''u'' ''s0'' (''c'', ''owner'') 0 False 0"
  have claims: "ac_sub ?claims = ''u''" "ac_epoch ?claims < 1" by (simp_all add: signAccessToken_def)
  show ?thesis
    by (rule old_epoch_is_refused [where claims = ?claims, OF c _ _ _ _ _ _ claims]) (simp_all add: ex_env_def)
qed

theorem reuse_misses_concurrent_rotation_witness:
  "(''s0'', ''s2'') \<in> chain (id_sessions (snd (revoke_chain (ie_cfg ex_env) (findSessionChainIds ''s0'' ex_two) ''u'' 9
     (snd (refresh (ie_sha ex_env) (ie_cfg ex_env) ''r1'' ''s2'' ''r2'' 8 ex_two)))))"
proof -
  let ?stolen = "ex_row ''s0'' ''r0'' None 0 (Some (5, ''rotated''))" and ?live = "ex_row ''s1'' ''r1'' (Some ''s0'') 5 None"
  let ?db1 = "snd (refresh (ie_sha ex_env) (ie_cfg ex_env) ''r1'' ''s2'' ''r2'' 8 ex_two)"
  let ?db2 = "snd (revoke_chain (ie_cfg ex_env) (findSessionChainIds ''s0'' ex_two) ''u'' 9 ?db1)"
  have f: "findAuthSessionByRefreshTokenHash (ie_sha ex_env ''r1'') ex_two = Some ?live" by code_simp
  have "case fst (refresh (ie_sha ex_env) (ie_cfg ex_env) ''r1'' ''s2'' ''r2'' 8 ex_two) of Err e \<Rightarrow> False | Ok tk \<Rightarrow> True" by code_simp
  then obtain tk where "fst (refresh (ie_sha ex_env) (ie_cfg ex_env) ''r1'' ''s2'' ''r2'' 8 ex_two) = Ok tk" by (auto split: sum.splits)
  then have r: "refresh_row (ie_sha ex_env) (ie_cfg ex_env) ?live ''s2'' ''r2'' 8 ex_two = (Ok tk, ?db1)"
    using f by (auto simp: refresh_def prod_eq_iff)
  have ids: "map as_id (id_sessions ?db2) = [''s0'', ''s1'', ''s2'']" "map as_hash (id_sessions ?db2) = [''r0'', ''r1'', ''r2'']" by code_simp+
  have "''s3'' \<notin> as_id ` set (id_sessions ?db2)" "ie_sha ex_env ''r3'' \<notin> as_hash ` set (id_sessions ?db2)"
    unfolding set_map [symmetric] ids by (simp_all add: ex_env_def)
  moreover have "(as_id ?stolen, as_id ?live) \<in> chain (id_sessions ex_two)"
    using ex_link [of "''s1''" "''r1''" "''s0''"] by (simp add: ex_two_sessions) (simp add: ex_row_def)
  ultimately show ?thesis
    using reuse_misses_concurrent_rotation [OF ex_two_ok _ _ _ r, of ?stolen ?db2 9 10 "''s3''" "''r3''"]
    by (simp add: ex_two_sessions) (simp add: ex_row_def ex_env_def)
qed

definition ex_link_sent :: identity_db where
  "ex_link_sent = identity_run ex_env [A_forgot ''u'' ''t'' ''secret'' 6] ex_two"

theorem reset_link_works_once_witness:
  "\<exists>db1. resetPassword (ie_sha ex_env) (ie_hashPw ex_env) (ie_cfg ex_env) ''secret'' ''new'' 7 ex_link_sent = Ok db1 \<and>
     as_revoked (id_sessions db1 ! 1) \<noteq> None \<and>
     resetPassword (ie_sha ex_env) (ie_hashPw ex_env) (ie_cfg ex_env) ''secret'' ''newer'' 8 (identity_run ex_env [] db1) = Err Reset_token_invalid"
proof -
  let ?s = "ex_row ''s1'' ''r1'' (Some ''s0'') 5 None" and ?r = "ex_row ''s1'' ''r1'' (Some ''s0'') 5 (Some (7, ''password_reset''))"
  have "(case resetPassword (ie_sha ex_env) (ie_hashPw ex_env) (ie_cfg ex_env) ''secret'' ''new'' 7 ex_link_sent of Err e \<Rightarrow> False
      | Ok d \<Rightarrow> id_sessions d = [ex_row ''s0'' ''r0'' None 0 (Some (5, ''rotated'')), ?r])" by code_simp
  then obtain db1 where db1: "resetPassword (ie_sha ex_env) (ie_hashPw ex_env) (ie_cfg ex_env) ''secret'' ''new'' 7 ex_link_sent = Ok db1"
      and rows: "id_sessions db1 = [ex_row ''s0'' ''r0'' None 0 (Some (5, ''rotated'')), ?r]" by (auto split: sum.splits)
  have d: "distinct (map rt_hash (id_resets ex_link_sent))" "distinct (map as_id (id_sessions ex_link_sent))" by code_simp+
  have t: "find (\<lambda>t. rt_hash t = ie_sha ex_env ''secret'') (id_resets ex_link_sent) =
      Some \<lparr>rt_id = ''t'', rt_user = ''u'', rt_hash = ''secret'', rt_expires = 1800006, rt_consumed = None\<rparr>" by code_simp
  have s: "?s \<in> set (id_sessions ex_link_sent)" by code_simp
  have "as_revoked ?r \<noteq> None \<and> resetPassword (ie_sha ex_env) (ie_hashPw ex_env) (ie_cfg ex_env) ''secret'' ''newer'' 8 (identity_run ex_env [] db1) =
      Err Reset_token_invalid"
    by (rule reset_link_works_once [OF d db1 t refl s]) (simp_all add: rows, simp_all add: ex_row_def)
  then show ?thesis using db1 rows by (intro exI [of _ db1]) simp
qed

end
