(* ===== verification/Spec2Isabelle.thy ===== *)
theory Spec2Isabelle
  imports Prelude Fsm Lease_Store Lease_Manager Heartbeat Session Instances Runner Scheduling Encodings Wallet Delivery Pacing Pacing_Config Pacing_Ledger Guards Health
    Template_Vars Broadcast Broadcast_Counts Broadcast_Reach Broadcast_Snapshot Broadcast_Sweeps Broadcast_Cancel Preflight Optout_Text Messages Auth_Sessions
begin

text \<open>
  The program is a multi-tenant service that sends WhatsApp messages from the linked phones of its tenants. A tenant puts a
  message into the queue over HTTP (\<open>modules/messages\<close>) or starts a broadcast (\<open>modules/broadcasts\<close>) that puts one per
  contact there. A worker holds a lease on a phone (\<open>engine/lease\<close>), keeps its socket open (\<open>engine/session\<close>), claims jobs
  of that phone and sends them (\<open>engine/queue\<close>) after a chain of guards and a reservation against its limits
  (\<open>modules/pacing\<close>); every job is charged to a prepaid wallet (\<open>modules/wallet\<close>). What comes back from the phone moves the
  state of the session, of the job and of the recipient: receipts, disconnects, health signals, and the word STOP. Its
  promises are that a message is sent and charged at most once, never beyond the limits, never to somebody who has opted
  out, and never by a worker that has lost its lease. The backend is \<open>src/app/backend/src\<close>, the pure rules
  \<open>src/packages/domain/src\<close>, the statements \<open>src/db/queries\<close>.

  Conventions. A table is a list or a map of records with the columns the code reads; a statement or a transaction is one
  function over them, and PostgreSQL is trusted to run a transaction as one step. Fallible code returns \<open>result\<close>, \<open>Err\<close>
  with an error of the component or \<open>Ok\<close>. Times are integers in milliseconds; the clock of the database and of the worker
  are arguments. Strings are lists of their UTF-8 bytes, and \<open>utext\<close>, lists of code points, where Unicode matters. Parameters
  stand for what the repository does not hold: the hashes and the keyed hash of an address, the time zone, the regular
  expressions of a tenant, the lower case of Unicode (\<open>js_lower\<close>), the provider's client. Loops whose end depends on the
  data are recursion with a measure (\<open>pieces\<close>, \<open>midnight_search\<close>), or \<open>partial_function (option)\<close> where the code has no
  bound of its own (\<open>batch_loop\<close>, \<open>runSnapshotToCompletion\<close>, \<open>keyset_walk\<close>), and then the theorem about it proves that it
  returns (\<open>cancel_bookkeeping_closes\<close>, \<open>snapshot_is_audience\<close>, \<open>preflight_agrees_with_snapshot\<close>); no fuel is used.

  The theories, in the order of imports.

  \<^item> \<open>Prelude\<close>: results, strings, decimals and their lemmas. \<open>Fsm\<close> (\<open>domain/job\<close>, \<open>domain/broadcast/state.ts\<close>,
    \<open>domain/retry\<close>): the status graphs of jobs and campaigns and the classification of provider errors; the locales
    \<open>absorbing_fsm\<close>, \<open>event_fsm\<close> and \<open>follows_graph\<close> carry the laws of a graph, and the other theories interpret them.
  \<^item> \<open>Lease_Store\<close>, \<open>Lease_Manager\<close>, \<open>Heartbeat\<close>: the lease row with its fence, the lease keys in Redis, the acquire and
    release that use both, and the renewal loop that drops a lease. The locale \<open>fence_authority\<close> says what a fence
    gives; it is interpreted on the statements. Proved: a superseded worker's predicate never holds again, acquire is
    sound, and the tick keeps live leases only.
  \<^item> \<open>Session\<close>, \<open>Instances\<close>, \<open>Runner\<close>: the session states, what a disconnect means, the rows of an instance, and the
    runner as a step function over its events, among them those of the auth store, which tears it down and releases its
    lease when it finds itself fenced; the locales of \<open>Runner\<close> close an invariant under all handlers.
  \<^item> \<open>Scheduling\<close>, \<open>Encodings\<close>: weighted round robin and backoff; addresses, keys, channel names and receipts.
  \<^item> \<open>Wallet\<close>: prices, charges, refunds, credits, repair. The locale \<open>insert_once\<close> is the law of a guard table.
  \<^item> \<open>Delivery\<close>: claim, preparation, charge, dispatch, result, reaper, reconciler and user actions of one job. A worker is
    where it stands between two of its awaits; any number of them interleave and may crash, and \<open>delivery_reachable\<close> is
    the set of states of all such histories. It refines the job graph of \<open>Fsm\<close>, and at most one send is unresolved.
  \<^item> \<open>Pacing\<close>, \<open>Pacing_Config\<close>, \<open>Pacing_Ledger\<close>, \<open>Guards\<close>, \<open>Health\<close>: how the limits of an instance arise from layers,
    warm-up, band and overrides; who writes them; the reservation, release and denial of a send; the guards before it;
    the signals, bands, pauses and resumes. The histories of \<open>Pacing_Config\<close>
    contain writes from stale reads and bands recorded without limits, and carry along which tier and band were applied.
    Proved: the caps hold in every history, the hourly cap and the gap under the conditions stated there; a paused
    instance stays so until a person resumes it or the engine writes another state; the guards run before the reservation.
  \<^item> \<open>Template_Vars\<close>, \<open>Broadcast\<close> and the theories named after it, \<open>Preflight\<close>: templates; the lifecycle, snapshot,
    expansion, cancel and counters of a campaign; and the quote before it. Proved: one job per recipient, the counters
    partition the audience, the batches compute the one-shot snapshot, the quote counts what the snapshot takes. The locale
    \<open>keyset_source\<close> carries the walk by pages for both kinds of audience.
  \<^item> \<open>Optout_Text\<close>, \<open>Messages\<close>: the recognition of an opt-out, and for a whole tenant the enqueue of a message, the
    registry of opt-outs with its mirror, its restore, the confirmation and the inbound message. Proved over all histories
    of these transactions: one job per key, a recorded opt-out holds until a person restores it, the mirror is exact.
  \<^item> \<open>Auth_Sessions\<close>: the login sessions of the people behind a tenant: rotation of refresh tokens, the sweep after a reuse,
    the epoch of access tokens with its cache, change and reset of a password. Its histories contain the late halves of
    calls whose first statement has read an older state. Proved: one live session per chain, a reuse ends the chain, an
    old epoch is refused, a reset link works once.

  Several properties state what the program does against its intention; the list of findings beside this development
  refers to them: a confirmation lost by a second opt-out, opt-outs of senders behind a lid, a danda that hides a Hindi
  keyword, campaigns that never complete, the second send after a time-out, a rotation that escapes the sweep, a lease released
  twice by the auth store and a teardown, a pause ended by a reconnection, limits that do not follow the recorded band.

  Not modelled. The adapter of the provider's client, key storage and the wiring of the session worker are calls into a
  third-party library; what they report is an event of \<open>Runner\<close>, \<open>Delivery\<close> or \<open>Messages\<close>. The fleet (discovery, admission
  and shedding of instances) decides which leases to ask for; every answer of the leases is covered whatever it asks. The
  HTTP routes, sign-up, the checks of a login, API keys, tenancy and staff pages authenticate and rename; the operations
  they call are the ones modelled. Cron loops and single-flight locks only call the sweeps. The outbox, the realtime hub and the webhooks
  copy rows outward and write none that a modelled part reads. The import and export of contacts end in the insert
  modelled in \<open>Messages\<close>; parsing of phone numbers is a third-party library. Measurement and load programs, capacity
  statistics, frontends, migrations and seeds are not part of the running service. Isolation anomalies of PostgreSQL
  within a transaction are out of scope; where a transaction reads a row without a lock before it writes it, and the
  interleaving matters, the row read is an argument of its own (\<open>Health\<close>, \<open>Pacing_Config\<close>, \<open>Broadcast\<close>).
\<close>

end
